(* ===== verification/Prelude.thy ===== *)
theory Prelude
  imports Main "HOL-Library.Word"
begin

text \<open>
  Shared vocabulary of the development: the machine integer types under their Rust names,
  the error monad on sum types (\<open>Inl\<close> is Rust's \<open>Err\<close>, \<open>Inr\<close> is \<open>Ok\<close>), the lemma
  collections of the development, and generic lemmas on words, bits and lists.
  Rust's \<open>i32\<close> is the same 32 bits as \<open>u32\<close> read in two's complement, so both names stand
  for \<open>32 word\<close>; a signed reading is written \<open>sint\<close> where the code compares or divides
  signed values.
\<close>

unbundle bit_operations_syntax

section \<open>Machine integers\<close>

type_synonym u8 = "8 word"
type_synonym u16 = "16 word"
type_synonym u32 = "32 word"
type_synonym u64 = "64 word"
type_synonym u128 = "128 word"
type_synonym i32 = "32 word"

text \<open>Rust's shifts: \<open>shl\<close> is \<open><<\<close>, \<open>shr\<close> is \<open>>>\<close> on an unsigned value, \<open>sar\<close> on a signed one.\<close>

abbreviation shl :: "'a::len word \<Rightarrow> nat \<Rightarrow> 'a word" where
  "shl x n \<equiv> push_bit n x"

abbreviation shr :: "'a::len word \<Rightarrow> nat \<Rightarrow> 'a word" where
  "shr x n \<equiv> drop_bit n x"

abbreviation sar :: "'a::len word \<Rightarrow> nat \<Rightarrow> 'a word" where
  "sar x n \<equiv> signed_drop_bit n x"

named_theorems field_simps_rv \<open>reading the fields of an assembled instruction word\<close>

section \<open>The error monad\<close>

fun bind_res :: "'e + 'a \<Rightarrow> ('a \<Rightarrow> 'e + 'b) \<Rightarrow> 'e + 'b" where
  "bind_res (Inl e) f = Inl e"
| "bind_res (Inr x) f = f x"

lemma bind_res_Inr [simp]: "bind_res m f = Inr y \<longleftrightarrow> (\<exists>x. m = Inr x \<and> f x = Inr y)"
  by (cases m) auto

lemma bind_res_Inl: "bind_res m f = Inl e \<longleftrightarrow> m = Inl e \<or> (\<exists>x. m = Inr x \<and> f x = Inl e)"
  by (cases m) auto

text \<open>A fallible function over a list, stopping at the first failure.\<close>

fun map_res :: "('a \<Rightarrow> 'e + 'b) \<Rightarrow> 'a list \<Rightarrow> 'e + 'b list" where
  "map_res f [] = Inr []"
| "map_res f (x # xs) = bind_res (f x) (\<lambda>y. bind_res (map_res f xs) (\<lambda>ys. Inr (y # ys)))"

lemma map_res_value: "(\<And>x. x \<in> set xs \<Longrightarrow> f x = Inr (g x)) \<Longrightarrow> map_res f xs = Inr (map g xs)"
  by (induction xs) simp_all

text \<open>
  A Rust function that can also panic returns a fault: \<open>Refused e\<close> is the \<open>Err(e)\<close> it returns,
  \<open>Panicked\<close> an index out of range, a failed assertion or an \<open>expect\<close> on nothing. Indexing and
  slicing are written out with their bounds checks.
\<close>

datatype 'e fault = Refused 'e | Panicked

definition refuse :: "'e \<Rightarrow> 'e fault + 'a" where
  "refuse e = Inl (Refused e)"

definition panic :: "'e fault + 'a" where
  "panic = Inl Panicked"

definition idx :: "'a list \<Rightarrow> nat \<Rightarrow> 'e fault + 'a" where
  "idx xs i = (if i < length xs then Inr (xs ! i) else panic)"

definition set_at :: "'a list \<Rightarrow> nat \<Rightarrow> 'a \<Rightarrow> 'e fault + 'a list" where
  "set_at xs i v = (if i < length xs then Inr (xs[i := v]) else panic)"

definition slice :: "'a list \<Rightarrow> nat \<Rightarrow> nat \<Rightarrow> 'e fault + 'a list" where
  "slice xs from to = (if from \<le> to \<and> to \<le> length xs then Inr (take (to - from) (drop from xs)) else panic)"

definition ensure :: "bool \<Rightarrow> 'e fault + unit" where
  "ensure b = (if b then Inr () else panic)"

lemma refuse_simps [simp]: "refuse e \<noteq> Inr x" "refuse e \<noteq> Inl Panicked" "Inr x \<noteq> refuse e"
  "refuse e = refuse e' \<longleftrightarrow> e = e'"
  by (auto simp: refuse_def)

lemma panic_simps [simp]: "panic \<noteq> Inr x" "Inr x \<noteq> panic" "refuse e \<noteq> panic" "panic \<noteq> refuse e"
  by (auto simp: panic_def refuse_def)

lemma bind_res_simps [simp]: "bind_res (refuse e) f = refuse e" "bind_res panic f = panic"
  by (simp_all add: refuse_def panic_def)

text \<open>\<open>bind_res\<close> panics only if one of its two halves does.\<close>

lemma bind_res_panic: "bind_res m f = panic \<longleftrightarrow> m = panic \<or> (\<exists>x. m = Inr x \<and> f x = panic)"
  by (cases m) (auto simp: panic_def)

lemma idx_Inr [simp]: "idx xs i = Inr x \<longleftrightarrow> i < length xs \<and> x = xs ! i"
  and idx_panic [simp]: "idx xs i = panic \<longleftrightarrow> length xs \<le> i"
  by (auto simp: idx_def)

lemma set_at_Inr [simp]: "set_at xs i v = Inr ys \<longleftrightarrow> i < length xs \<and> ys = xs[i := v]"
  and set_at_panic [simp]: "set_at xs i v = panic \<longleftrightarrow> length xs \<le> i"
  by (auto simp: set_at_def)

lemma slice_Inr [simp]:
    "slice xs from to = Inr ys \<longleftrightarrow> from \<le> to \<and> to \<le> length xs \<and> ys = take (to - from) (drop from xs)"
  and slice_panic [simp]: "slice xs from to = panic \<longleftrightarrow> \<not> (from \<le> to \<and> to \<le> length xs)"
  by (auto simp: slice_def)

lemma ensure_Inr [simp]: "ensure b = Inr u \<longleftrightarrow> b" and ensure_panic [simp]: "ensure b = panic \<longleftrightarrow> \<not> b"
  by (auto simp: ensure_def)

section \<open>Bytes\<close>

text \<open>\<open>from_le_bytes\<close> for two and for four bytes.\<close>

definition le16 :: "u8 \<Rightarrow> u8 \<Rightarrow> u16" where
  "le16 a b = ucast a OR shl (ucast b) 8"

definition le32 :: "u8 \<Rightarrow> u8 \<Rightarrow> u8 \<Rightarrow> u8 \<Rightarrow> u32" where
  "le32 a b c d = ucast a OR shl (ucast b) 8 OR shl (ucast c) 16 OR shl (ucast d) 24"

definition u16le :: "u8 list \<Rightarrow> nat \<Rightarrow> 'e fault + u16" where
  "u16le b at = bind_res (idx b at) (\<lambda>x. bind_res (idx b (at + 1)) (\<lambda>y. Inr (le16 x y)))"

definition u32le :: "u8 list \<Rightarrow> nat \<Rightarrow> 'e fault + u32" where
  "u32le b at = bind_res (idx b at) (\<lambda>x. bind_res (idx b (at + 1)) (\<lambda>y.
     bind_res (idx b (at + 2)) (\<lambda>z. bind_res (idx b (at + 3)) (\<lambda>w. Inr (le32 x y z w)))))"

lemma u16le_Inr [simp]: "u16le b at = Inr v \<longleftrightarrow> at + 1 < length b \<and> v = le16 (b ! at) (b ! (at + 1))"
  and u16le_panic [simp]: "u16le b at = panic \<longleftrightarrow> length b \<le> at + 1"
  by (auto simp: u16le_def bind_res_panic)

lemma u32le_Inr [simp]: "u32le b at = Inr v \<longleftrightarrow>
    at + 3 < length b \<and> v = le32 (b ! at) (b ! (at + 1)) (b ! (at + 2)) (b ! (at + 3))"
  and u32le_panic [simp]: "u32le b at = panic \<longleftrightarrow> length b \<le> at + 3"
  by (auto simp: u32le_def bind_res_panic)

section \<open>Bits\<close>

text \<open>A word below a power of two is the one whose higher bits are clear.\<close>

lemma take_bit_small_iff:
  fixes x :: "'a::len word"
  assumes "k < LENGTH('a)"
  shows "take_bit k x = x \<longleftrightarrow> x < 2 ^ k"
proof -
  have "take_bit k x = x \<longleftrightarrow> uint (take_bit k x) = uint x"
    by (simp add: word_uint_eq_iff)
  also have "\<dots> \<longleftrightarrow> uint x < 2 ^ k"
    by (simp add: unsigned_take_bit_eq take_bit_int_eq_self_iff)
  also have "\<dots> \<longleftrightarrow> x < 2 ^ k"
    using assms by (simp add: word_2p_lem word_size)
  finally show ?thesis .
qed

lemma small_bits:
  fixes x :: "'a::len word"
  assumes "k < LENGTH('a)"
  shows "x < 2 ^ k \<longleftrightarrow> (\<forall>n \<in> set [k..<LENGTH('a)]. \<not> bit x n)"
proof -
  have "take_bit k x = x \<longleftrightarrow> (\<forall>n \<in> set [k..<LENGTH('a)]. \<not> bit x n)"
    by (auto simp: bit_eq_iff bit_take_bit_iff)
  then show ?thesis
    using take_bit_small_iff [OF assms] by simp
qed

lemma word_eq_bits:
  fixes a b :: "'a::len word"
  shows "a = b \<longleftrightarrow> (\<forall>n \<in> set [0..<LENGTH('a)]. bit a n = bit b n)"
  by (auto intro: bit_word_eqI)

text \<open>
  Equality and range of words as a finite list of bits: with \<open>bit_simps\<close>, the simplifier
  decides the field arithmetic of instruction words.
\<close>

lemma upt_0_8: "[0..<8] = [0,1,2,3,4,5,6,7]"
  by code_simp

lemma upt_0_32:
  "[0..<32] = [0,1,2,3,4,5,6,7,8,9,10,11,12,13,14,15,16,17,18,19,20,21,22,23,24,25,26,27,28,29,30,31]"
  by code_simp

lemma u8_eq_bits: "(a::u8) = b \<longleftrightarrow> (\<forall>n \<in> set [0,1,2,3,4,5,6,7]. bit a n = bit b n)"
  using word_eq_bits [of a b] by (simp add: upt_0_8)

lemma u32_eq_bits:
  "(a::u32) = b \<longleftrightarrow>
     (\<forall>n \<in> set [0,1,2,3,4,5,6,7,8,9,10,11,12,13,14,15,16,17,18,19,20,21,22,23,24,25,26,27,28,29,30,31].
        bit a n = bit b n)"
  using word_eq_bits [of a b] by (simp add: upt_0_32)

text \<open>No bit of a word lies at or above its length.\<close>

lemma word_bit_high: "LENGTH('a) \<le> n \<Longrightarrow> \<not> bit (w::'a::len word) n"
  by (auto dest: bit_imp_le_length)

lemma u8_less_32: "(r::u8) < 32 \<longleftrightarrow> \<not> bit r 5 \<and> \<not> bit r 6 \<and> \<not> bit r 7"
  using small_bits [of 5 r] by (simp add: upt_rec)

lemma u8_less_16: "(r::u8) < 16 \<longleftrightarrow> \<not> bit r 4 \<and> \<not> bit r 5 \<and> \<not> bit r 6 \<and> \<not> bit r 7"
  using small_bits [of 4 r] by (simp add: upt_rec)

lemma unat_less_pow: "unat (w::'a::len word) < 2 ^ LENGTH('a)"
  by (rule unsigned_less)

lemma unat_u64_less: "unat (x::u64) < 2 ^ 64"
  using unat_less_pow [of x] by simp

lemma unat_u32_less: "unat (x::u32) < 2 ^ 32"
  using unat_less_pow [of x] by simp

section \<open>Little-endian bytes\<close>

definition u32_le_bytes :: "u32 \<Rightarrow> u8 list" where
  "u32_le_bytes w = [ucast w, ucast (shr w 8), ucast (shr w 16), ucast (shr w 24)]"

lemma length_word_bytes [simp]: "length (u32_le_bytes w) = 4"
  by (simp add: u32_le_bytes_def)

lemma word_bytes_le32: "u32_le_bytes (le32 a b c d) = [a, b, c, d]"
  by (auto simp: u32_le_bytes_def le32_def bit_simps word_bit_high intro!: bit_word_eqI)

lemma le32_word_bytes: "le32 (ucast w) (ucast (shr w 8)) (ucast (shr w 16)) (ucast (shr w 24)) = (w :: u32)"
  by (simp add: u32_eq_bits le32_def bit_simps)

lemma unat_shr_u32: "unat (shr w n :: u32) = unat w div 2 ^ n"
proof -
  have "unat w < 2 ^ 32"
    by (rule unat_u32_less)
  then show ?thesis
    unfolding unsigned_drop_bit_eq by (simp add: drop_bit_eq_div take_bit_nat_eq_self)
qed

lemma of_nat_u64: "n < 2 ^ 64 \<Longrightarrow> unat (of_nat n :: u64) = n"
  unfolding unat_of_nat by simp

lemma of_nat_u64_inject: "m < 2 ^ 64 \<Longrightarrow> n < 2 ^ 64 \<Longrightarrow> (of_nat m :: u64) = of_nat n \<Longrightarrow> m = n"
  by (metis of_nat_u64)

end
