(* ===== verification/Isa.thy ===== *)
theory Isa
  imports Prelude
begin

text \<open>
  The RV32IMAC instruction model of \<open>crates/isa/src/lib.rs\<close>: the \<open>Instr\<close> enumeration, the
  decoder of 32-bit words with every refusal and its reason, and the projections
  \<open>mnemonic\<close>, \<open>fields\<close> and \<open>aq_rl\<close>. Register numbers are \<open>u8\<close>, immediates are \<open>i32\<close> words.
\<close>

section \<open>Instructions\<close>
datatype (plugins only: code) instr =
    Lui u8 i32
  | Auipc u8 i32
  | Jal u8 i32
  | Jalr u8 u8 i32
  | Beq u8 u8 i32
  | Bne u8 u8 i32
  | Blt u8 u8 i32
  | Bge u8 u8 i32
  | Bltu u8 u8 i32
  | Bgeu u8 u8 i32
  | Lb u8 u8 i32
  | Lh u8 u8 i32
  | Lw u8 u8 i32
  | Lbu u8 u8 i32
  | Lhu u8 u8 i32
  | Sb u8 u8 i32
  | Sh u8 u8 i32
  | Sw u8 u8 i32
  | Addi u8 u8 i32
  | Slti u8 u8 i32
  | Sltiu u8 u8 i32
  | Xori u8 u8 i32
  | Ori u8 u8 i32
  | Andi u8 u8 i32
  | Slli u8 u8 u8
  | Srli u8 u8 u8
  | Srai u8 u8 u8
  | Add u8 u8 u8
  | Sub u8 u8 u8
  | Sll u8 u8 u8
  | Slt u8 u8 u8
  | Sltu u8 u8 u8
  | Xor u8 u8 u8
  | Srl u8 u8 u8
  | Sra u8 u8 u8
  | Or u8 u8 u8
  | And u8 u8 u8
  | Fence u8 u8 u8
  | Ecall
  | Ebreak
  | Mul u8 u8 u8
  | Mulh u8 u8 u8
  | Mulhsu u8 u8 u8
  | Mulhu u8 u8 u8
  | Div u8 u8 u8
  | Divu u8 u8 u8
  | Rem u8 u8 u8
  | Remu u8 u8 u8
  | LrW u8 u8 bool bool
  | ScW u8 u8 u8 bool bool
  | AmoswapW u8 u8 u8 bool bool
  | AmoaddW u8 u8 u8 bool bool
  | AmoxorW u8 u8 u8 bool bool
  | AmoandW u8 u8 u8 bool bool
  | AmoorW u8 u8 u8 bool bool
  | AmominW u8 u8 u8 bool bool
  | AmomaxW u8 u8 u8 bool bool
  | AmominuW u8 u8 u8 bool bool
  | AmomaxuW u8 u8 u8 bool bool

text \<open>A word \<open>decode\<close> refuses, and why (\<open>DecodeError\<close>).\<close>

record decode_error =
  err_word :: u32
  err_reason :: string

section \<open>The decoder\<close>

text \<open>The fields at their fixed positions, and the five immediates, as \<open>decode\<close> binds them.\<close>

definition rd_of :: "u32 \<Rightarrow> u8" where
  "rd_of word = ucast (shr word 7 AND 0x1f)"

definition rs1_of :: "u32 \<Rightarrow> u8" where
  "rs1_of word = ucast (shr word 15 AND 0x1f)"

definition rs2_of :: "u32 \<Rightarrow> u8" where
  "rs2_of word = ucast (shr word 20 AND 0x1f)"

definition funct3_of :: "u32 \<Rightarrow> u32" where
  "funct3_of word = shr word 12 AND 0b111"

definition funct7_of :: "u32 \<Rightarrow> u32" where
  "funct7_of word = shr word 25"

definition imm_i_of :: "u32 \<Rightarrow> i32" where
  "imm_i_of word = sar word 20"

definition imm_s_of :: "u32 \<Rightarrow> i32" where
  "imm_s_of word = shl (sar word 25) 5 OR (shr word 7 AND 0x1f)"

definition imm_b_of :: "u32 \<Rightarrow> i32" where
  "imm_b_of word = shl (sar word 31) 12
     OR shl (shr word 7 AND 1) 11
     OR shl (shr word 25 AND 0x3f) 5
     OR shl (shr word 8 AND 0xf) 1"

definition imm_u_of :: "u32 \<Rightarrow> i32" where
  "imm_u_of word = word AND 0xfffff000"

definition imm_j_of :: "u32 \<Rightarrow> i32" where
  "imm_j_of word = shl (sar word 31) 20
     OR (word AND 0x000ff000)
     OR shl (shr word 20 AND 1) 11
     OR shl (shr word 21 AND 0x3ff) 1"

definition decode :: "u32 \<Rightarrow> decode_error + instr" where
  "decode word =
     (let refuse = (\<lambda>reason. Inl \<lparr>err_word = word, err_reason = reason\<rparr>);
          rd = rd_of word; rs1 = rs1_of word; rs2 = rs2_of word;
          funct3 = funct3_of word; funct7 = funct7_of word;
          opcode = word AND 0x7f in
      if word AND 0b11 \<noteq> 0b11 then
        refuse ''bits 1:0 are not 11: a compressed encoding, which the loader expands first''
      else if opcode = 0x37 then Inr (Lui rd (imm_u_of word))
      else if opcode = 0x17 then Inr (Auipc rd (imm_u_of word))
      else if opcode = 0x6f then Inr (Jal rd (imm_j_of word))
      else if opcode = 0x67 then
        (if funct3 = 0 then Inr (Jalr rd rs1 (imm_i_of word))
         else refuse ''jalr: funct3 must be 000'')
      else if opcode = 0x63 then
        (if funct3 = 0b000 then Inr (Beq rs1 rs2 (imm_b_of word))
         else if funct3 = 0b001 then Inr (Bne rs1 rs2 (imm_b_of word))
         else if funct3 = 0b100 then Inr (Blt rs1 rs2 (imm_b_of word))
         else if funct3 = 0b101 then Inr (Bge rs1 rs2 (imm_b_of word))
         else if funct3 = 0b110 then Inr (Bltu rs1 rs2 (imm_b_of word))
         else if funct3 = 0b111 then Inr (Bgeu rs1 rs2 (imm_b_of word))
         else refuse ''branch: funct3 010 and 011 are reserved'')
      else if opcode = 0x03 then
        (if funct3 = 0b000 then Inr (Lb rd rs1 (imm_i_of word))
         else if funct3 = 0b001 then Inr (Lh rd rs1 (imm_i_of word))
         else if funct3 = 0b010 then Inr (Lw rd rs1 (imm_i_of word))
         else if funct3 = 0b100 then Inr (Lbu rd rs1 (imm_i_of word))
         else if funct3 = 0b101 then Inr (Lhu rd rs1 (imm_i_of word))
         else refuse ''load: funct3 011 and 110 are RV64's ld and lwu, 111 is reserved'')
      else if opcode = 0x23 then
        (if funct3 = 0b000 then Inr (Sb rs1 rs2 (imm_s_of word))
         else if funct3 = 0b001 then Inr (Sh rs1 rs2 (imm_s_of word))
         else if funct3 = 0b010 then Inr (Sw rs1 rs2 (imm_s_of word))
         else refuse ''store: funct3 011 is RV64's sd, 1xx is reserved'')
      else if opcode = 0x13 then
        (if funct3 = 0b000 then Inr (Addi rd rs1 (imm_i_of word))
         else if funct3 = 0b010 then Inr (Slti rd rs1 (imm_i_of word))
         else if funct3 = 0b011 then Inr (Sltiu rd rs1 (imm_i_of word))
         else if funct3 = 0b100 then Inr (Xori rd rs1 (imm_i_of word))
         else if funct3 = 0b110 then Inr (Ori rd rs1 (imm_i_of word))
         else if funct3 = 0b111 then Inr (Andi rd rs1 (imm_i_of word))
         else if funct3 = 0b001 then 
           (if funct7 = 0 then Inr (Slli rd rs1 rs2)
            else refuse ''slli: funct7 must be 0000000 on RV32'')
         else if funct7 = 0 then Inr (Srli rd rs1 rs2)
         else if funct7 = 0b0100000 then Inr (Srai rd rs1 rs2)
         else refuse ''srli/srai: funct7 must be 0000000 or 0100000 on RV32'')
      else if opcode = 0x33 then
        (if funct7 = 0b0000000 \<and> funct3 = 0b000 then Inr (Add rd rs1 rs2)
         else if funct7 = 0b0100000 \<and> funct3 = 0b000 then Inr (Sub rd rs1 rs2)
         else if funct7 = 0b0000000 \<and> funct3 = 0b001 then Inr (Sll rd rs1 rs2)
         else if funct7 = 0b0000000 \<and> funct3 = 0b010 then Inr (Slt rd rs1 rs2)
         else if funct7 = 0b0000000 \<and> funct3 = 0b011 then Inr (Sltu rd rs1 rs2)
         else if funct7 = 0b0000000 \<and> funct3 = 0b100 then Inr (Xor rd rs1 rs2)
         else if funct7 = 0b0000000 \<and> funct3 = 0b101 then Inr (Srl rd rs1 rs2)
         else if funct7 = 0b0100000 \<and> funct3 = 0b101 then Inr (Sra rd rs1 rs2)
         else if funct7 = 0b0000000 \<and> funct3 = 0b110 then Inr (Or rd rs1 rs2)
         else if funct7 = 0b0000000 \<and> funct3 = 0b111 then Inr (And rd rs1 rs2)
         else if funct7 = 0b0000001 \<and> funct3 = 0b000 then Inr (Mul rd rs1 rs2)
         else if funct7 = 0b0000001 \<and> funct3 = 0b001 then Inr (Mulh rd rs1 rs2)
         else if funct7 = 0b0000001 \<and> funct3 = 0b010 then Inr (Mulhsu rd rs1 rs2)
         else if funct7 = 0b0000001 \<and> funct3 = 0b011 then Inr (Mulhu rd rs1 rs2)
         else if funct7 = 0b0000001 \<and> funct3 = 0b100 then Inr (Div rd rs1 rs2)
         else if funct7 = 0b0000001 \<and> funct3 = 0b101 then Inr (Divu rd rs1 rs2)
         else if funct7 = 0b0000001 \<and> funct3 = 0b110 then Inr (Rem rd rs1 rs2)
         else if funct7 = 0b0000001 \<and> funct3 = 0b111 then Inr (Remu rd rs1 rs2)
         else refuse ''register-register: no RV32IM operation has this funct7 and funct3'')
      else if opcode = 0x0f then
        (if funct3 = 0b000 then 
           Inr (Fence (ucast (shr word 28)) (ucast (shr word 24 AND 0xf)) (ucast (shr word 20 AND 0xf)))
         else if funct3 = 0b001 then 
           refuse ''MISC-MEM: funct3 001 is fence.i (Zifencei), which RV32IMAC does not have''
         else refuse ''MISC-MEM: only funct3 000, fence, is RV32IMAC; the rest are other extensions or reserved'')
      else if opcode = 0x73 then
        (if word = 0x00000073 then Inr Ecall
         else if word = 0x00100073 then Inr Ebreak
         else refuse ''SYSTEM: only ecall and ebreak; Zicsr and the privileged encodings are not RV32IMAC'')
      else if opcode = 0x2f then
        (if funct3 \<noteq> 0b010 then
           refuse ''AMO: funct3 must be 010, the .w width; 011 is RV64's .d''
         else
           let aq = (shr word 26 AND 1 = 1); rl = (shr word 25 AND 1 = 1); funct5 = shr word 27 in
           if funct5 = 0b00010 \<and> rs2 = 0 then Inr (LrW rd rs1 aq rl)
           else if funct5 = 0b00010 then refuse ''lr.w: rs2 must be x0''
           else if funct5 = 0b00011 then Inr (ScW rd rs1 rs2 aq rl)
           else if funct5 = 0b00001 then Inr (AmoswapW rd rs1 rs2 aq rl)
           else if funct5 = 0b00000 then Inr (AmoaddW rd rs1 rs2 aq rl)
           else if funct5 = 0b00100 then Inr (AmoxorW rd rs1 rs2 aq rl)
           else if funct5 = 0b01100 then Inr (AmoandW rd rs1 rs2 aq rl)
           else if funct5 = 0b01000 then Inr (AmoorW rd rs1 rs2 aq rl)
           else if funct5 = 0b10000 then Inr (AmominW rd rs1 rs2 aq rl)
           else if funct5 = 0b10100 then Inr (AmomaxW rd rs1 rs2 aq rl)
           else if funct5 = 0b11000 then Inr (AmominuW rd rs1 rs2 aq rl)
           else if funct5 = 0b11100 then Inr (AmomaxuW rd rs1 rs2 aq rl)
           else refuse ''AMO: no A-extension operation has this funct5'')
      else refuse ''an opcode RV32IMAC does not have'')"

section \<open>Fields and mnemonics\<close>

text \<open>\<open>None\<close> means the form has no such field, not that it is zero.\<close>

record fields =
  f_rd :: "u8 option"
  f_rs1 :: "u8 option"
  f_rs2 :: "u8 option"
  f_imm :: "i32 option"
  f_funct3 :: "u8 option"

text \<open>The five shapes \<open>spelled\<close> builds its rows from.\<close>

definition shape_u :: "u8 \<Rightarrow> i32 \<Rightarrow> fields" where
  "shape_u rd imm = \<lparr>f_rd = Some rd, f_rs1 = None, f_rs2 = None, f_imm = Some imm, f_funct3 = None\<rparr>"

definition shape_i :: "u8 \<Rightarrow> u8 \<Rightarrow> i32 \<Rightarrow> u8 \<Rightarrow> fields" where
  "shape_i rd rs1 imm f3 = \<lparr>f_rd = Some rd, f_rs1 = Some rs1, f_rs2 = None, f_imm = Some imm, f_funct3 = Some f3\<rparr>"

definition shape_s :: "u8 \<Rightarrow> u8 \<Rightarrow> i32 \<Rightarrow> u8 \<Rightarrow> fields" where
  "shape_s rs1 rs2 imm f3 = \<lparr>f_rd = None, f_rs1 = Some rs1, f_rs2 = Some rs2, f_imm = Some imm, f_funct3 = Some f3\<rparr>"

definition shape_r :: "u8 \<Rightarrow> u8 \<Rightarrow> u8 \<Rightarrow> u8 \<Rightarrow> fields" where
  "shape_r rd rs1 rs2 f3 = \<lparr>f_rd = Some rd, f_rs1 = Some rs1, f_rs2 = Some rs2, f_imm = None, f_funct3 = Some f3\<rparr>"

definition shape_bare :: "u8 \<Rightarrow> fields" where
  "shape_bare f3 = \<lparr>f_rd = None, f_rs1 = None, f_rs2 = None, f_imm = None, f_funct3 = Some f3\<rparr>"

fun spelled :: "instr \<Rightarrow> string \<times> fields" where
  "spelled (Lui rd imm) = (''lui'', shape_u rd imm)"
| "spelled (Auipc rd imm) = (''auipc'', shape_u rd imm)"
| "spelled (Jal rd imm) = (''jal'', shape_u rd imm)"
| "spelled (Jalr rd rs1 imm) = (''jalr'', shape_i rd rs1 imm 0b000)"
| "spelled (Beq rs1 rs2 imm) = (''beq'', shape_s rs1 rs2 imm 0b000)"
| "spelled (Bne rs1 rs2 imm) = (''bne'', shape_s rs1 rs2 imm 0b001)"
| "spelled (Blt rs1 rs2 imm) = (''blt'', shape_s rs1 rs2 imm 0b100)"
| "spelled (Bge rs1 rs2 imm) = (''bge'', shape_s rs1 rs2 imm 0b101)"
| "spelled (Bltu rs1 rs2 imm) = (''bltu'', shape_s rs1 rs2 imm 0b110)"
| "spelled (Bgeu rs1 rs2 imm) = (''bgeu'', shape_s rs1 rs2 imm 0b111)"
| "spelled (Lb rd rs1 imm) = (''lb'', shape_i rd rs1 imm 0b000)"
| "spelled (Lh rd rs1 imm) = (''lh'', shape_i rd rs1 imm 0b001)"
| "spelled (Lw rd rs1 imm) = (''lw'', shape_i rd rs1 imm 0b010)"
| "spelled (Lbu rd rs1 imm) = (''lbu'', shape_i rd rs1 imm 0b100)"
| "spelled (Lhu rd rs1 imm) = (''lhu'', shape_i rd rs1 imm 0b101)"
| "spelled (Sb rs1 rs2 imm) = (''sb'', shape_s rs1 rs2 imm 0b000)"
| "spelled (Sh rs1 rs2 imm) = (''sh'', shape_s rs1 rs2 imm 0b001)"
| "spelled (Sw rs1 rs2 imm) = (''sw'', shape_s rs1 rs2 imm 0b010)"
| "spelled (Addi rd rs1 imm) = (''addi'', shape_i rd rs1 imm 0b000)"
| "spelled (Slti rd rs1 imm) = (''slti'', shape_i rd rs1 imm 0b010)"
| "spelled (Sltiu rd rs1 imm) = (''sltiu'', shape_i rd rs1 imm 0b011)"
| "spelled (Xori rd rs1 imm) = (''xori'', shape_i rd rs1 imm 0b100)"
| "spelled (Ori rd rs1 imm) = (''ori'', shape_i rd rs1 imm 0b110)"
| "spelled (Andi rd rs1 imm) = (''andi'', shape_i rd rs1 imm 0b111)"
| "spelled (Slli rd rs1 shamt) = (''slli'', shape_i rd rs1 (ucast shamt) 0b001)"
| "spelled (Srli rd rs1 shamt) = (''srli'', shape_i rd rs1 (ucast shamt) 0b101)"
| "spelled (Srai rd rs1 shamt) = (''srai'', shape_i rd rs1 (ucast shamt) 0b101)"
| "spelled (Add rd rs1 rs2) = (''add'', shape_r rd rs1 rs2 0b000)"
| "spelled (Sub rd rs1 rs2) = (''sub'', shape_r rd rs1 rs2 0b000)"
| "spelled (Sll rd rs1 rs2) = (''sll'', shape_r rd rs1 rs2 0b001)"
| "spelled (Slt rd rs1 rs2) = (''slt'', shape_r rd rs1 rs2 0b010)"
| "spelled (Sltu rd rs1 rs2) = (''sltu'', shape_r rd rs1 rs2 0b011)"
| "spelled (Xor rd rs1 rs2) = (''xor'', shape_r rd rs1 rs2 0b100)"
| "spelled (Srl rd rs1 rs2) = (''srl'', shape_r rd rs1 rs2 0b101)"
| "spelled (Sra rd rs1 rs2) = (''sra'', shape_r rd rs1 rs2 0b101)"
| "spelled (Or rd rs1 rs2) = (''or'', shape_r rd rs1 rs2 0b110)"
| "spelled (And rd rs1 rs2) = (''and'', shape_r rd rs1 rs2 0b111)"
| "spelled (Fence _ _ _) = (''fence'', shape_bare 0b000)"
| "spelled Ecall = (''ecall'', shape_bare 0b000)"
| "spelled Ebreak = (''ebreak'', shape_bare 0b000)"
| "spelled (Mul rd rs1 rs2) = (''mul'', shape_r rd rs1 rs2 0b000)"
| "spelled (Mulh rd rs1 rs2) = (''mulh'', shape_r rd rs1 rs2 0b001)"
| "spelled (Mulhsu rd rs1 rs2) = (''mulhsu'', shape_r rd rs1 rs2 0b010)"
| "spelled (Mulhu rd rs1 rs2) = (''mulhu'', shape_r rd rs1 rs2 0b011)"
| "spelled (Div rd rs1 rs2) = (''div'', shape_r rd rs1 rs2 0b100)"
| "spelled (Divu rd rs1 rs2) = (''divu'', shape_r rd rs1 rs2 0b101)"
| "spelled (Rem rd rs1 rs2) = (''rem'', shape_r rd rs1 rs2 0b110)"
| "spelled (Remu rd rs1 rs2) = (''remu'', shape_r rd rs1 rs2 0b111)"
| "spelled (LrW rd rs1 _ _) = (''lr.w'', \<lparr>f_rd = Some rd, f_rs1 = Some rs1, f_rs2 = None, f_imm = None, f_funct3 = Some 0b010\<rparr>)"
| "spelled (ScW rd rs1 rs2 _ _) = (''sc.w'', shape_r rd rs1 rs2 0b010)"
| "spelled (AmoswapW rd rs1 rs2 _ _) = (''amoswap.w'', shape_r rd rs1 rs2 0b010)"
| "spelled (AmoaddW rd rs1 rs2 _ _) = (''amoadd.w'', shape_r rd rs1 rs2 0b010)"
| "spelled (AmoxorW rd rs1 rs2 _ _) = (''amoxor.w'', shape_r rd rs1 rs2 0b010)"
| "spelled (AmoandW rd rs1 rs2 _ _) = (''amoand.w'', shape_r rd rs1 rs2 0b010)"
| "spelled (AmoorW rd rs1 rs2 _ _) = (''amoor.w'', shape_r rd rs1 rs2 0b010)"
| "spelled (AmominW rd rs1 rs2 _ _) = (''amomin.w'', shape_r rd rs1 rs2 0b010)"
| "spelled (AmomaxW rd rs1 rs2 _ _) = (''amomax.w'', shape_r rd rs1 rs2 0b010)"
| "spelled (AmominuW rd rs1 rs2 _ _) = (''amominu.w'', shape_r rd rs1 rs2 0b010)"
| "spelled (AmomaxuW rd rs1 rs2 _ _) = (''amomaxu.w'', shape_r rd rs1 rs2 0b010)"

definition mnemonic :: "instr \<Rightarrow> string" where
  "mnemonic i = fst (spelled i)"

definition fields_of :: "instr \<Rightarrow> fields" where
  "fields_of i = snd (spelled i)"

fun aq_rl :: "instr \<Rightarrow> (bool \<times> bool) option" where
  "aq_rl (LrW _ _ aq rl) = Some (aq, rl)"
| "aq_rl (ScW _ _ _ aq rl) = Some (aq, rl)"
| "aq_rl (AmoswapW _ _ _ aq rl) = Some (aq, rl)"
| "aq_rl (AmoaddW _ _ _ aq rl) = Some (aq, rl)"
| "aq_rl (AmoxorW _ _ _ aq rl) = Some (aq, rl)"
| "aq_rl (AmoandW _ _ _ aq rl) = Some (aq, rl)"
| "aq_rl (AmoorW _ _ _ aq rl) = Some (aq, rl)"
| "aq_rl (AmominW _ _ _ aq rl) = Some (aq, rl)"
| "aq_rl (AmomaxW _ _ _ aq rl) = Some (aq, rl)"
| "aq_rl (AmominuW _ _ _ aq rl) = Some (aq, rl)"
| "aq_rl (AmomaxuW _ _ _ aq rl) = Some (aq, rl)"
| "aq_rl _ = None"

end
