(* ===== verification/Rvc.thy ===== *)
theory Rvc
  imports Prelude
begin

text \<open>
  The RV32C expansion of \<open>crates/loader/src/rvc.rs\<close>: every 16-bit encoding to the 32-bit word
  it abbreviates, or the reason it is refused. The immediate helpers and the base instruction
  formats are translated one by one.
\<close>

section \<open>Opcodes\<close>

definition OP_IMM :: u32 where "OP_IMM = 0b0010011"
definition OP :: u32 where "OP = 0b0110011"
definition LOAD :: u32 where "LOAD = 0b0000011"
definition STORE :: u32 where "STORE = 0b0100011"
definition BRANCH :: u32 where "BRANCH = 0b1100011"
definition JAL :: u32 where "JAL = 0b1101111"
definition JALR :: u32 where "JALR = 0b1100111"
definition LUI :: u32 where "LUI = 0b0110111"
definition EBREAK :: u32 where "EBREAK = 0x00100073"

lemmas opcode_defs = OP_IMM_def OP_def LOAD_def STORE_def BRANCH_def JAL_def JALR_def LUI_def

section \<open>Immediates\<close>

text \<open>Sign-extend the low \<open>bits\<close> of \<open>v\<close>.\<close>

definition sext :: "u32 \<Rightarrow> nat \<Rightarrow> i32" where
  "sext v bits = (let shift = 32 - bits in sar (shl v shift) shift)"

definition ciw_imm :: "u32 \<Rightarrow> u32" where
  "ciw_imm c = (shr c 7 AND 0b110000) OR (shr c 1 AND 0b1111000000)
     OR (shr c 4 AND 0b100) OR (shr c 2 AND 0b1000)"

definition cl_cs_imm :: "u32 \<Rightarrow> u32" where
  "cl_cs_imm c = (shr c 7 AND 0b111000) OR (shr c 4 AND 0b100) OR (shl c 1 AND 0b1000000)"

definition ci_imm :: "u32 \<Rightarrow> i32" where
  "ci_imm c = sext ((shr c 7 AND 0b100000) OR (shr c 2 AND 0b11111)) 6"

definition addi16sp_imm :: "u32 \<Rightarrow> i32" where
  "addi16sp_imm c = sext
     ((shr c 3 AND 0b1000000000)
       OR (shr c 2 AND 0b10000)
       OR (shl c 1 AND 0b1000000)
       OR (shl c 4 AND 0b110000000)
       OR (shl c 3 AND 0b100000)) 10"

definition lwsp_imm :: "u32 \<Rightarrow> u32" where
  "lwsp_imm c = (shr c 7 AND 0b100000) OR (shr c 2 AND 0b11100) OR (shl c 4 AND 0b11000000)"

definition swsp_imm :: "u32 \<Rightarrow> u32" where
  "swsp_imm c = (shr c 7 AND 0b111100) OR (shr c 1 AND 0b11000000)"

definition cj_imm :: "u32 \<Rightarrow> i32" where
  "cj_imm c = sext
     ((shr c 1 AND 0b100000000000)
       OR (shr c 7 AND 0b10000)
       OR (shr c 1 AND 0b1100000000)
       OR (shl c 2 AND 0b10000000000)
       OR (shr c 1 AND 0b1000000)
       OR (shl c 1 AND 0b10000000)
       OR (shr c 2 AND 0b1110)
       OR (shl c 3 AND 0b100000)) 12"

definition cb_imm :: "u32 \<Rightarrow> i32" where
  "cb_imm c = sext
     ((shr c 4 AND 0b100000000)
       OR (shr c 7 AND 0b11000)
       OR (shl c 1 AND 0b11000000)
       OR (shr c 2 AND 0b110)
       OR (shl c 3 AND 0b100000)) 9"

definition rv32_shamt :: "u32 \<Rightarrow> string + u32" where
  "rv32_shamt c =
     (if shr c 12 AND 1 \<noteq> 0 then Inl ''a compressed shift with shamt[5] set is reserved on RV32''
      else Inr (shr c 2 AND 0b11111))"

section \<open>The base instruction formats\<close>

definition r_type :: "u32 \<Rightarrow> u32 \<Rightarrow> u32 \<Rightarrow> u32 \<Rightarrow> u32 \<Rightarrow> u32 \<Rightarrow> u32" where
  "r_type funct7 rs2 rs1 funct3 rd opcode =
     shl funct7 25 OR shl rs2 20 OR shl rs1 15 OR shl funct3 12 OR shl rd 7 OR opcode"

definition i_type :: "i32 \<Rightarrow> u32 \<Rightarrow> u32 \<Rightarrow> u32 \<Rightarrow> u32 \<Rightarrow> u32" where
  "i_type imm rs1 funct3 rd opcode =
     shl (imm AND 0xfff) 20 OR shl rs1 15 OR shl funct3 12 OR shl rd 7 OR opcode"

definition s_type :: "i32 \<Rightarrow> u32 \<Rightarrow> u32 \<Rightarrow> u32 \<Rightarrow> u32 \<Rightarrow> u32" where
  "s_type imm rs2 rs1 funct3 opcode =
     shl (shr imm 5 AND 0x7f) 25 OR shl rs2 20 OR shl rs1 15 OR shl funct3 12
       OR shl (imm AND 0x1f) 7 OR opcode"

definition b_type :: "i32 \<Rightarrow> u32 \<Rightarrow> u32 \<Rightarrow> u32 \<Rightarrow> u32 \<Rightarrow> u32" where
  "b_type imm rs2 rs1 funct3 opcode =
     shl (shr imm 12 AND 1) 31 OR shl (shr imm 5 AND 0x3f) 25 OR shl rs2 20 OR shl rs1 15
       OR shl funct3 12 OR shl (shr imm 1 AND 0xf) 8 OR shl (shr imm 11 AND 1) 7 OR opcode"

definition u_type :: "u32 \<Rightarrow> u32 \<Rightarrow> u32 \<Rightarrow> u32" where
  "u_type imm_31_12 rd opcode = shl imm_31_12 12 OR shl rd 7 OR opcode"

definition j_type :: "i32 \<Rightarrow> u32 \<Rightarrow> u32 \<Rightarrow> u32" where
  "j_type imm rd opcode =
     shl (shr imm 20 AND 1) 31 OR shl (shr imm 1 AND 0x3ff) 21 OR shl (shr imm 11 AND 1) 20
       OR shl (shr imm 12 AND 0xff) 12 OR shl rd 7 OR opcode"

section \<open>The expansion\<close>

text \<open>The three quadrants of \<open>expand\<close>'s outer match, over the halfword widened to 32 bits.\<close>

definition quadrant0 :: "u32 \<Rightarrow> string + u32" where
  "quadrant0 c =
     (let funct3 = shr c 13 AND 0b111;
          rp_hi = 8 + (shr c 7 AND 0b111);
          rp_lo = 8 + (shr c 2 AND 0b111) in
      if funct3 = 0b000 then
        (let nzuimm = ciw_imm c in
         if nzuimm = 0 then Inl ''c.addi4spn with nzuimm = 0 is a reserved encoding''
         else Inr (i_type nzuimm 2 0b000 rp_lo OP_IMM))
      else if funct3 = 0b001 then Inl ''c.fld: the D extension is not in RV32IMAC''
      else if funct3 = 0b010 then Inr (i_type (cl_cs_imm c) rp_hi 0b010 rp_lo LOAD)
      else if funct3 = 0b011 then Inl ''c.flw: the F extension is not in RV32IMAC''
      else if funct3 = 0b100 then Inl ''quadrant 0 funct3 = 100 is reserved (the Zcb encoding space)''
      else if funct3 = 0b101 then Inl ''c.fsd: the D extension is not in RV32IMAC''
      else if funct3 = 0b110 then Inr (s_type (cl_cs_imm c) rp_lo rp_hi 0b010 STORE)
      else Inl ''c.fsw: the F extension is not in RV32IMAC'')"

definition quadrant1 :: "u32 \<Rightarrow> string + u32" where
  "quadrant1 c =
     (let funct3 = shr c 13 AND 0b111;
          rd_rs1 = shr c 7 AND 0b11111;
          rp_hi = 8 + (shr c 7 AND 0b111);
          rp_lo = 8 + (shr c 2 AND 0b111) in
      if funct3 = 0b000 then Inr (i_type (ci_imm c) rd_rs1 0b000 rd_rs1 OP_IMM)
      else if funct3 = 0b001 then Inr (j_type (cj_imm c) 1 JAL)
      else if funct3 = 0b010 then Inr (i_type (ci_imm c) 0 0b000 rd_rs1 OP_IMM)
      else if funct3 = 0b011 then
        (if rd_rs1 = 2 then
           (let nzimm = addi16sp_imm c in
            if nzimm = 0 then Inl ''c.addi16sp with nzimm = 0 is a reserved encoding''
            else Inr (i_type nzimm 2 0b000 2 OP_IMM))
         else
           (let nzimm = ci_imm c in
            if nzimm = 0 then Inl ''c.lui with nzimm = 0 is a reserved encoding''
            else Inr (u_type (nzimm AND 0xfffff) rd_rs1 LUI)))
      else if funct3 = 0b100 then
        (let sel = shr c 10 AND 0b11 in
         if sel = 0b00 then
           bind_res (rv32_shamt c) (\<lambda>s. Inr (i_type s rp_hi 0b101 rp_hi OP_IMM))
         else if sel = 0b01 then
           bind_res (rv32_shamt c) (\<lambda>s. Inr (i_type (0b010000000000 OR s) rp_hi 0b101 rp_hi OP_IMM))
         else if sel = 0b10 then Inr (i_type (ci_imm c) rp_hi 0b111 rp_hi OP_IMM)
         else
           (let b12 = shr c 12 AND 1; b65 = shr c 5 AND 0b11 in
            if b12 = 0 \<and> b65 = 0b00 then Inr (r_type 0b0100000 rp_lo rp_hi 0b000 rp_hi OP)
            else if b12 = 0 \<and> b65 = 0b01 then Inr (r_type 0 rp_lo rp_hi 0b100 rp_hi OP)
            else if b12 = 0 \<and> b65 = 0b10 then Inr (r_type 0 rp_lo rp_hi 0b110 rp_hi OP)
            else if b12 = 0 then Inr (r_type 0 rp_lo rp_hi 0b111 rp_hi OP)
            else if b65 = 0b00 then Inl ''c.subw is an RV64-only encoding''
            else if b65 = 0b01 then Inl ''c.addw is an RV64-only encoding''
            else Inl ''quadrant 1 funct3 = 100, bit 12 = 1, bits 6:5 = 1x is reserved''))
      else if funct3 = 0b101 then Inr (j_type (cj_imm c) 0 JAL)
      else if funct3 = 0b110 then Inr (b_type (cb_imm c) 0 rp_hi 0b000 BRANCH)
      else Inr (b_type (cb_imm c) 0 rp_hi 0b001 BRANCH))"

definition quadrant2 :: "u32 \<Rightarrow> string + u32" where
  "quadrant2 c =
     (let funct3 = shr c 13 AND 0b111;
          rd_rs1 = shr c 7 AND 0b11111;
          rs2 = shr c 2 AND 0b11111 in
      if funct3 = 0b000 then
        bind_res (rv32_shamt c) (\<lambda>s. Inr (i_type s rd_rs1 0b001 rd_rs1 OP_IMM))
      else if funct3 = 0b001 then Inl ''c.fldsp: the D extension is not in RV32IMAC''
      else if funct3 = 0b010 then
        (if rd_rs1 = 0 then Inl ''c.lwsp with rd = x0 is a reserved encoding''
         else Inr (i_type (lwsp_imm c) 2 0b010 rd_rs1 LOAD))
      else if funct3 = 0b011 then Inl ''c.flwsp: the F extension is not in RV32IMAC''
      else if funct3 = 0b100 then
        (let b12 = shr c 12 AND 1 in
         if b12 = 0 \<and> rs2 = 0 then
           (if rd_rs1 = 0 then Inl ''c.jr with rs1 = x0 is a reserved encoding''
            else Inr (i_type 0 rd_rs1 0b000 0 JALR))
         else if b12 = 0 then Inr (r_type 0 rs2 0 0b000 rd_rs1 OP)
         else if rs2 = 0 \<and> rd_rs1 = 0 then Inr EBREAK
         else if rs2 = 0 then Inr (i_type 0 rd_rs1 0b000 1 JALR)
         else Inr (r_type 0 rs2 rd_rs1 0b000 rd_rs1 OP))
      else if funct3 = 0b101 then Inl ''c.fsdsp: the D extension is not in RV32IMAC (the Zcmp encoding space)''
      else if funct3 = 0b110 then Inr (s_type (swsp_imm c) rs2 2 0b010 STORE)
      else Inl ''c.fswsp: the F extension is not in RV32IMAC'')"

definition expand :: "u16 \<Rightarrow> string + u32" where
  "expand h =
     (let c = (ucast h :: u32) in
      if c = 0 then Inl ''the all-zero halfword is a defined-illegal encoding''
      else if c AND 0b11 = 0b00 then quadrant0 c
      else if c AND 0b11 = 0b01 then quadrant1 c
      else if c AND 0b11 = 0b10 then quadrant2 c
      else Inl ''not a compressed encoding: bits 1:0 are 11'')"

end
