(* ===== verification/Encoding.thy ===== *)
theory Encoding
  imports Isa Rvc
begin

unbundle bit_operations_syntax

text \<open>
  The specification side of the two decoders: \<open>encode\<close> assembles an instruction as the base
  formats of the ISA lay it out, \<open>wf_instr\<close> says which operand values a form can carry. The
  lemmas relate the decoder of \<open>crates/isa\<close> and the expander of \<open>crates/loader/src/rvc.rs\<close> to it.
\<close>

section \<open>Assembling and well-formedness\<close>

definition amo_type :: "u32 \<Rightarrow> bool \<Rightarrow> bool \<Rightarrow> u32 \<Rightarrow> u32 \<Rightarrow> u32 \<Rightarrow> u32" where
  "amo_type funct5 aq rl rs2 rs1 rd =
     r_type (shl funct5 2 OR shl (of_bool aq) 1 OR of_bool rl) rs2 rs1 2 rd 0x2f"

text \<open>\<open>fits n imm\<close>: the immediate is the sign extension of its low \<open>n\<close> bits.\<close>

definition fits :: "nat \<Rightarrow> i32 \<Rightarrow> bool" where
  "fits n imm \<longleftrightarrow> signed_take_bit (n - 1) imm = imm"

fun encode :: "instr \<Rightarrow> u32" where
  "encode (Lui rd imm) = u_type (shr imm 12) (ucast rd) LUI"
| "encode (Auipc rd imm) = u_type (shr imm 12) (ucast rd) 0x17"
| "encode (Jal rd imm) = j_type imm (ucast rd) JAL"
| "encode (Jalr rd rs1 imm) = i_type imm (ucast rs1) 0 (ucast rd) JALR"
| "encode (Beq rs1 rs2 imm) = b_type imm (ucast rs2) (ucast rs1) 0 BRANCH"
| "encode (Bne rs1 rs2 imm) = b_type imm (ucast rs2) (ucast rs1) 1 BRANCH"
| "encode (Blt rs1 rs2 imm) = b_type imm (ucast rs2) (ucast rs1) 4 BRANCH"
| "encode (Bge rs1 rs2 imm) = b_type imm (ucast rs2) (ucast rs1) 5 BRANCH"
| "encode (Bltu rs1 rs2 imm) = b_type imm (ucast rs2) (ucast rs1) 6 BRANCH"
| "encode (Bgeu rs1 rs2 imm) = b_type imm (ucast rs2) (ucast rs1) 7 BRANCH"
| "encode (Lb rd rs1 imm) = i_type imm (ucast rs1) 0 (ucast rd) LOAD"
| "encode (Lh rd rs1 imm) = i_type imm (ucast rs1) 1 (ucast rd) LOAD"
| "encode (Lw rd rs1 imm) = i_type imm (ucast rs1) 2 (ucast rd) LOAD"
| "encode (Lbu rd rs1 imm) = i_type imm (ucast rs1) 4 (ucast rd) LOAD"
| "encode (Lhu rd rs1 imm) = i_type imm (ucast rs1) 5 (ucast rd) LOAD"
| "encode (Sb rs1 rs2 imm) = s_type imm (ucast rs2) (ucast rs1) 0 STORE"
| "encode (Sh rs1 rs2 imm) = s_type imm (ucast rs2) (ucast rs1) 1 STORE"
| "encode (Sw rs1 rs2 imm) = s_type imm (ucast rs2) (ucast rs1) 2 STORE"
| "encode (Addi rd rs1 imm) = i_type imm (ucast rs1) 0 (ucast rd) OP_IMM"
| "encode (Slti rd rs1 imm) = i_type imm (ucast rs1) 2 (ucast rd) OP_IMM"
| "encode (Sltiu rd rs1 imm) = i_type imm (ucast rs1) 3 (ucast rd) OP_IMM"
| "encode (Xori rd rs1 imm) = i_type imm (ucast rs1) 4 (ucast rd) OP_IMM"
| "encode (Ori rd rs1 imm) = i_type imm (ucast rs1) 6 (ucast rd) OP_IMM"
| "encode (Andi rd rs1 imm) = i_type imm (ucast rs1) 7 (ucast rd) OP_IMM"
| "encode (Slli rd rs1 shamt) = r_type 0 (ucast shamt) (ucast rs1) 1 (ucast rd) OP_IMM"
| "encode (Srli rd rs1 shamt) = r_type 0 (ucast shamt) (ucast rs1) 5 (ucast rd) OP_IMM"
| "encode (Srai rd rs1 shamt) = r_type 0x20 (ucast shamt) (ucast rs1) 5 (ucast rd) OP_IMM"
| "encode (Add rd rs1 rs2) = r_type 0x0 (ucast rs2) (ucast rs1) 0 (ucast rd) OP"
| "encode (Sub rd rs1 rs2) = r_type 0x20 (ucast rs2) (ucast rs1) 0 (ucast rd) OP"
| "encode (Sll rd rs1 rs2) = r_type 0x0 (ucast rs2) (ucast rs1) 1 (ucast rd) OP"
| "encode (Slt rd rs1 rs2) = r_type 0x0 (ucast rs2) (ucast rs1) 2 (ucast rd) OP"
| "encode (Sltu rd rs1 rs2) = r_type 0x0 (ucast rs2) (ucast rs1) 3 (ucast rd) OP"
| "encode (Xor rd rs1 rs2) = r_type 0x0 (ucast rs2) (ucast rs1) 4 (ucast rd) OP"
| "encode (Srl rd rs1 rs2) = r_type 0x0 (ucast rs2) (ucast rs1) 5 (ucast rd) OP"
| "encode (Sra rd rs1 rs2) = r_type 0x20 (ucast rs2) (ucast rs1) 5 (ucast rd) OP"
| "encode (Or rd rs1 rs2) = r_type 0x0 (ucast rs2) (ucast rs1) 6 (ucast rd) OP"
| "encode (And rd rs1 rs2) = r_type 0x0 (ucast rs2) (ucast rs1) 7 (ucast rd) OP"
| "encode (Mul rd rs1 rs2) = r_type 0x1 (ucast rs2) (ucast rs1) 0 (ucast rd) OP"
| "encode (Mulh rd rs1 rs2) = r_type 0x1 (ucast rs2) (ucast rs1) 1 (ucast rd) OP"
| "encode (Mulhsu rd rs1 rs2) = r_type 0x1 (ucast rs2) (ucast rs1) 2 (ucast rd) OP"
| "encode (Mulhu rd rs1 rs2) = r_type 0x1 (ucast rs2) (ucast rs1) 3 (ucast rd) OP"
| "encode (Div rd rs1 rs2) = r_type 0x1 (ucast rs2) (ucast rs1) 4 (ucast rd) OP"
| "encode (Divu rd rs1 rs2) = r_type 0x1 (ucast rs2) (ucast rs1) 5 (ucast rd) OP"
| "encode (Rem rd rs1 rs2) = r_type 0x1 (ucast rs2) (ucast rs1) 6 (ucast rd) OP"
| "encode (Remu rd rs1 rs2) = r_type 0x1 (ucast rs2) (ucast rs1) 7 (ucast rd) OP"
| "encode (Fence fm pred succ) = shl (ucast fm) 28 OR shl (ucast pred) 24 OR shl (ucast succ) 20 OR 0x0f"
| "encode Ecall = 0x73"
| "encode Ebreak = EBREAK"
| "encode (LrW rd rs1 aq rl) = amo_type 2 aq rl 0 (ucast rs1) (ucast rd)"
| "encode (ScW rd rs1 rs2 aq rl) = amo_type 3 aq rl (ucast rs2) (ucast rs1) (ucast rd)"
| "encode (AmoswapW rd rs1 rs2 aq rl) = amo_type 1 aq rl (ucast rs2) (ucast rs1) (ucast rd)"
| "encode (AmoaddW rd rs1 rs2 aq rl) = amo_type 0 aq rl (ucast rs2) (ucast rs1) (ucast rd)"
| "encode (AmoxorW rd rs1 rs2 aq rl) = amo_type 4 aq rl (ucast rs2) (ucast rs1) (ucast rd)"
| "encode (AmoandW rd rs1 rs2 aq rl) = amo_type 12 aq rl (ucast rs2) (ucast rs1) (ucast rd)"
| "encode (AmoorW rd rs1 rs2 aq rl) = amo_type 8 aq rl (ucast rs2) (ucast rs1) (ucast rd)"
| "encode (AmominW rd rs1 rs2 aq rl) = amo_type 16 aq rl (ucast rs2) (ucast rs1) (ucast rd)"
| "encode (AmomaxW rd rs1 rs2 aq rl) = amo_type 20 aq rl (ucast rs2) (ucast rs1) (ucast rd)"
| "encode (AmominuW rd rs1 rs2 aq rl) = amo_type 24 aq rl (ucast rs2) (ucast rs1) (ucast rd)"
| "encode (AmomaxuW rd rs1 rs2 aq rl) = amo_type 28 aq rl (ucast rs2) (ucast rs1) (ucast rd)"

fun wf_instr :: "instr \<Rightarrow> bool" where
  "wf_instr (Lui rd imm) = (rd < 32 \<and> imm AND 0xfff = 0)"
| "wf_instr (Auipc rd imm) = (rd < 32 \<and> imm AND 0xfff = 0)"
| "wf_instr (Jal rd imm) = (rd < 32 \<and> fits 21 imm \<and> \<not> bit imm 0)"
| "wf_instr (Jalr rd rs1 imm) = (rd < 32 \<and> rs1 < 32 \<and> fits 12 imm)"
| "wf_instr (Beq rs1 rs2 imm) = (rs1 < 32 \<and> rs2 < 32 \<and> fits 13 imm \<and> \<not> bit imm 0)"
| "wf_instr (Bne rs1 rs2 imm) = (rs1 < 32 \<and> rs2 < 32 \<and> fits 13 imm \<and> \<not> bit imm 0)"
| "wf_instr (Blt rs1 rs2 imm) = (rs1 < 32 \<and> rs2 < 32 \<and> fits 13 imm \<and> \<not> bit imm 0)"
| "wf_instr (Bge rs1 rs2 imm) = (rs1 < 32 \<and> rs2 < 32 \<and> fits 13 imm \<and> \<not> bit imm 0)"
| "wf_instr (Bltu rs1 rs2 imm) = (rs1 < 32 \<and> rs2 < 32 \<and> fits 13 imm \<and> \<not> bit imm 0)"
| "wf_instr (Bgeu rs1 rs2 imm) = (rs1 < 32 \<and> rs2 < 32 \<and> fits 13 imm \<and> \<not> bit imm 0)"
| "wf_instr (Lb rd rs1 imm) = (rd < 32 \<and> rs1 < 32 \<and> fits 12 imm)"
| "wf_instr (Lh rd rs1 imm) = (rd < 32 \<and> rs1 < 32 \<and> fits 12 imm)"
| "wf_instr (Lw rd rs1 imm) = (rd < 32 \<and> rs1 < 32 \<and> fits 12 imm)"
| "wf_instr (Lbu rd rs1 imm) = (rd < 32 \<and> rs1 < 32 \<and> fits 12 imm)"
| "wf_instr (Lhu rd rs1 imm) = (rd < 32 \<and> rs1 < 32 \<and> fits 12 imm)"
| "wf_instr (Sb rs1 rs2 imm) = (rs1 < 32 \<and> rs2 < 32 \<and> fits 12 imm)"
| "wf_instr (Sh rs1 rs2 imm) = (rs1 < 32 \<and> rs2 < 32 \<and> fits 12 imm)"
| "wf_instr (Sw rs1 rs2 imm) = (rs1 < 32 \<and> rs2 < 32 \<and> fits 12 imm)"
| "wf_instr (Addi rd rs1 imm) = (rd < 32 \<and> rs1 < 32 \<and> fits 12 imm)"
| "wf_instr (Slti rd rs1 imm) = (rd < 32 \<and> rs1 < 32 \<and> fits 12 imm)"
| "wf_instr (Sltiu rd rs1 imm) = (rd < 32 \<and> rs1 < 32 \<and> fits 12 imm)"
| "wf_instr (Xori rd rs1 imm) = (rd < 32 \<and> rs1 < 32 \<and> fits 12 imm)"
| "wf_instr (Ori rd rs1 imm) = (rd < 32 \<and> rs1 < 32 \<and> fits 12 imm)"
| "wf_instr (Andi rd rs1 imm) = (rd < 32 \<and> rs1 < 32 \<and> fits 12 imm)"
| "wf_instr (Slli rd rs1 shamt) = (rd < 32 \<and> rs1 < 32 \<and> shamt < 32)"
| "wf_instr (Srli rd rs1 shamt) = (rd < 32 \<and> rs1 < 32 \<and> shamt < 32)"
| "wf_instr (Srai rd rs1 shamt) = (rd < 32 \<and> rs1 < 32 \<and> shamt < 32)"
| "wf_instr (Add rd rs1 rs2) = (rd < 32 \<and> rs1 < 32 \<and> rs2 < 32)"
| "wf_instr (Sub rd rs1 rs2) = (rd < 32 \<and> rs1 < 32 \<and> rs2 < 32)"
| "wf_instr (Sll rd rs1 rs2) = (rd < 32 \<and> rs1 < 32 \<and> rs2 < 32)"
| "wf_instr (Slt rd rs1 rs2) = (rd < 32 \<and> rs1 < 32 \<and> rs2 < 32)"
| "wf_instr (Sltu rd rs1 rs2) = (rd < 32 \<and> rs1 < 32 \<and> rs2 < 32)"
| "wf_instr (Xor rd rs1 rs2) = (rd < 32 \<and> rs1 < 32 \<and> rs2 < 32)"
| "wf_instr (Srl rd rs1 rs2) = (rd < 32 \<and> rs1 < 32 \<and> rs2 < 32)"
| "wf_instr (Sra rd rs1 rs2) = (rd < 32 \<and> rs1 < 32 \<and> rs2 < 32)"
| "wf_instr (Or rd rs1 rs2) = (rd < 32 \<and> rs1 < 32 \<and> rs2 < 32)"
| "wf_instr (And rd rs1 rs2) = (rd < 32 \<and> rs1 < 32 \<and> rs2 < 32)"
| "wf_instr (Mul rd rs1 rs2) = (rd < 32 \<and> rs1 < 32 \<and> rs2 < 32)"
| "wf_instr (Mulh rd rs1 rs2) = (rd < 32 \<and> rs1 < 32 \<and> rs2 < 32)"
| "wf_instr (Mulhsu rd rs1 rs2) = (rd < 32 \<and> rs1 < 32 \<and> rs2 < 32)"
| "wf_instr (Mulhu rd rs1 rs2) = (rd < 32 \<and> rs1 < 32 \<and> rs2 < 32)"
| "wf_instr (Div rd rs1 rs2) = (rd < 32 \<and> rs1 < 32 \<and> rs2 < 32)"
| "wf_instr (Divu rd rs1 rs2) = (rd < 32 \<and> rs1 < 32 \<and> rs2 < 32)"
| "wf_instr (Rem rd rs1 rs2) = (rd < 32 \<and> rs1 < 32 \<and> rs2 < 32)"
| "wf_instr (Remu rd rs1 rs2) = (rd < 32 \<and> rs1 < 32 \<and> rs2 < 32)"
| "wf_instr (Fence fm pred succ) = (fm < 16 \<and> pred < 16 \<and> succ < 16)"
| "wf_instr Ecall = True"
| "wf_instr Ebreak = True"
| "wf_instr (LrW rd rs1 aq rl) = (rd < 32 \<and> rs1 < 32)"
| "wf_instr (ScW rd rs1 rs2 aq rl) = (rd < 32 \<and> rs1 < 32 \<and> rs2 < 32)"
| "wf_instr (AmoswapW rd rs1 rs2 aq rl) = (rd < 32 \<and> rs1 < 32 \<and> rs2 < 32)"
| "wf_instr (AmoaddW rd rs1 rs2 aq rl) = (rd < 32 \<and> rs1 < 32 \<and> rs2 < 32)"
| "wf_instr (AmoxorW rd rs1 rs2 aq rl) = (rd < 32 \<and> rs1 < 32 \<and> rs2 < 32)"
| "wf_instr (AmoandW rd rs1 rs2 aq rl) = (rd < 32 \<and> rs1 < 32 \<and> rs2 < 32)"
| "wf_instr (AmoorW rd rs1 rs2 aq rl) = (rd < 32 \<and> rs1 < 32 \<and> rs2 < 32)"
| "wf_instr (AmominW rd rs1 rs2 aq rl) = (rd < 32 \<and> rs1 < 32 \<and> rs2 < 32)"
| "wf_instr (AmomaxW rd rs1 rs2 aq rl) = (rd < 32 \<and> rs1 < 32 \<and> rs2 < 32)"
| "wf_instr (AmominuW rd rs1 rs2 aq rl) = (rd < 32 \<and> rs1 < 32 \<and> rs2 < 32)"
| "wf_instr (AmomaxuW rd rs1 rs2 aq rl) = (rd < 32 \<and> rs1 < 32 \<and> rs2 < 32)"


section \<open>The bits of an assembled word and of its fields\<close>

lemma less_32_cases:
  "(n::nat) < 32 \<Longrightarrow>
   n \<in> {0,1,2,3,4,5,6,7,8,9,10,11,12,13,14,15,16,17,18,19,20,21,22,23,24,25,26,27,28,29,30,31}"
  using upt_0_32 by (metis atLeastLessThan_iff atLeastLessThan_upt empty_set list.simps(15) zero_le)

text \<open>Two words are equal when they agree bit by bit, each position a literal.\<close>

lemma u32_eqI:
  assumes "\<And>n. n \<in> {0,1,2,3,4,5,6,7,8,9,10,11,12,13,14,15,16,17,18,19,20,21,22,23,24,25,26,27,28,29,30,31}
    \<Longrightarrow> bit a n = bit b n"
  shows "(a::u32) = b"
  by (rule bit_word_eqI, rule assms, rule less_32_cases, simp)

lemma bit_twice: "bit (a * 2 :: u32) n \<longleftrightarrow> n \<noteq> 0 \<and> n < 32 \<and> bit a (n - 1)"
  by (auto simp: bit_double_iff mult.commute [of a 2])

lemma and_masks: "(w::u32) AND 31 = take_bit 5 w" "w AND 7 = take_bit 3 w"
  "w AND 127 = take_bit 7 w" "w AND 3 = take_bit 2 w" "w AND 15 = take_bit 4 w"
  by (simp_all add: take_bit_eq_mask mask_eq_exp_minus_1)

lemma bit_less_pow:
  fixes x :: "'a::len word"
  assumes "x < 2 ^ k" "bit x n"
  shows "n < k"
proof (rule ccontr)
  assume n: "\<not> n < k"
  have "n < LENGTH('a)"
    using assms(2) by (rule bit_imp_le_length)
  then show False
    using small_bits [of k x] assms n by auto
qed

lemma reg_bit: "(r::u8) < 32 \<Longrightarrow> bit r n \<Longrightarrow> n < 5"
  using bit_less_pow [of r 5 n] by simp

lemma funct3_bit: "(f3::u32) < 8 \<Longrightarrow> bit f3 n \<Longrightarrow> n < 3"
  using bit_less_pow [of f3 3 n] by simp

lemma opcode_bit: "(op::u32) < 128 \<Longrightarrow> bit op n \<Longrightarrow> n < 7"
  using bit_less_pow [of op 7 n] by simp

lemma take_bit_reg: "(r::u8) < 32 \<Longrightarrow> take_bit 5 (ucast r :: u32) = ucast r"
  by (rule bit_word_eqI) (auto simp: bit_simps dest: reg_bit)

lemma take_bit_funct: "(f3::u32) < 8 \<Longrightarrow> take_bit 3 f3 = f3" "(op::u32) < 128 \<Longrightarrow> take_bit 7 op = op"
  using take_bit_small_iff [of 3 f3] take_bit_small_iff [of 7 op] by simp_all

lemma small_of_take_bit: "take_bit 5 (r::u8) < 32" "take_bit 4 (r::u8) < 16"
  using take_bit_small_iff [of 5 "take_bit 5 r"] take_bit_small_iff [of 4 "take_bit 4 r"]
  by simp_all

lemmas bits32 = bit_twice bit_simps numeral_2_eq_2 [symmetric] numeral_3_eq_3 [symmetric]

text \<open>Each format, position by position.\<close>

lemma bit_r_type_masked:
  "n < 32 \<Longrightarrow> bit (r_type f7 (take_bit 5 rs2) (take_bit 5 rs1) (take_bit 3 f3) (take_bit 5 rd) (take_bit 7 op)) n =
     (if n < 7 then bit op n else if n < 12 then bit rd (n - 7)
      else if n < 15 then bit f3 (n - 12) else if n < 20 then bit rs1 (n - 15)
      else if n < 25 then bit rs2 (n - 20) else bit f7 (n - 25))"
  by (drule less_32_cases, elim insertE emptyE) (simp_all add: r_type_def bits32)

lemma bit_r_type:
  "rs2 < 32 \<Longrightarrow> rs1 < 32 \<Longrightarrow> f3 < 8 \<Longrightarrow> rd < 32 \<Longrightarrow> op < 128 \<Longrightarrow> n < 32 \<Longrightarrow>
   bit (r_type f7 (ucast (rs2::u8)) (ucast (rs1::u8)) f3 (ucast (rd::u8)) op) n =
     (if n < 7 then bit op n else if n < 12 then bit rd (n - 7)
      else if n < 15 then bit f3 (n - 12) else if n < 20 then bit rs1 (n - 15)
      else if n < 25 then bit rs2 (n - 20) else bit f7 (n - 25))"
  using bit_r_type_masked [of n f7 "ucast rs2" "ucast rs1" f3 "ucast rd" op]
  by (auto simp: take_bit_reg take_bit_funct bit_simps split: if_splits)

lemma bit_i_type_masked:
  "n < 32 \<Longrightarrow> bit (i_type imm (take_bit 5 rs1) (take_bit 3 f3) (take_bit 5 rd) (take_bit 7 op)) n =
     (if n < 7 then bit op n else if n < 12 then bit rd (n - 7)
      else if n < 15 then bit f3 (n - 12) else if n < 20 then bit rs1 (n - 15) else bit imm (n - 20))"
  by (drule less_32_cases, elim insertE emptyE) (simp_all add: i_type_def bits32)

lemma bit_i_type:
  "rs1 < 32 \<Longrightarrow> f3 < 8 \<Longrightarrow> rd < 32 \<Longrightarrow> op < 128 \<Longrightarrow> n < 32 \<Longrightarrow>
   bit (i_type imm (ucast (rs1::u8)) f3 (ucast (rd::u8)) op) n =
     (if n < 7 then bit op n else if n < 12 then bit rd (n - 7)
      else if n < 15 then bit f3 (n - 12) else if n < 20 then bit rs1 (n - 15) else bit imm (n - 20))"
  using bit_i_type_masked [of n imm "ucast rs1" f3 "ucast rd" op]
  by (auto simp: take_bit_reg take_bit_funct bit_simps split: if_splits)

lemma bit_s_type_masked:
  "n < 32 \<Longrightarrow> bit (s_type imm (take_bit 5 rs2) (take_bit 5 rs1) (take_bit 3 f3) (take_bit 7 op)) n =
     (if n < 7 then bit op n else if n < 12 then bit imm (n - 7)
      else if n < 15 then bit f3 (n - 12) else if n < 20 then bit rs1 (n - 15)
      else if n < 25 then bit rs2 (n - 20) else bit imm (n - 20))"
  by (drule less_32_cases, elim insertE emptyE) (simp_all add: s_type_def bits32)

lemma bit_s_type:
  "rs2 < 32 \<Longrightarrow> rs1 < 32 \<Longrightarrow> f3 < 8 \<Longrightarrow> op < 128 \<Longrightarrow> n < 32 \<Longrightarrow>
   bit (s_type imm (ucast (rs2::u8)) (ucast (rs1::u8)) f3 op) n =
     (if n < 7 then bit op n else if n < 12 then bit imm (n - 7)
      else if n < 15 then bit f3 (n - 12) else if n < 20 then bit rs1 (n - 15)
      else if n < 25 then bit rs2 (n - 20) else bit imm (n - 20))"
  using bit_s_type_masked [of n imm "ucast rs2" "ucast rs1" f3 op]
  by (auto simp: take_bit_reg take_bit_funct bit_simps split: if_splits)

lemma bit_b_type_masked:
  "n < 32 \<Longrightarrow> bit (b_type imm (take_bit 5 rs2) (take_bit 5 rs1) (take_bit 3 f3) (take_bit 7 op)) n =
     (if n < 7 then bit op n else if n = 7 then bit imm 11 else if n < 12 then bit imm (n - 7)
      else if n < 15 then bit f3 (n - 12) else if n < 20 then bit rs1 (n - 15)
      else if n < 25 then bit rs2 (n - 20) else if n < 31 then bit imm (n - 20) else bit imm 12)"
  by (drule less_32_cases, elim insertE emptyE) (simp_all add: b_type_def bits32)

lemma bit_b_type:
  "rs2 < 32 \<Longrightarrow> rs1 < 32 \<Longrightarrow> f3 < 8 \<Longrightarrow> op < 128 \<Longrightarrow> n < 32 \<Longrightarrow>
   bit (b_type imm (ucast (rs2::u8)) (ucast (rs1::u8)) f3 op) n =
     (if n < 7 then bit op n else if n = 7 then bit imm 11 else if n < 12 then bit imm (n - 7)
      else if n < 15 then bit f3 (n - 12) else if n < 20 then bit rs1 (n - 15)
      else if n < 25 then bit rs2 (n - 20) else if n < 31 then bit imm (n - 20) else bit imm 12)"
  using bit_b_type_masked [of n imm "ucast rs2" "ucast rs1" f3 op]
  by (auto simp: take_bit_reg take_bit_funct bit_simps split: if_splits)

lemma bit_u_type_masked:
  "n < 32 \<Longrightarrow> bit (u_type imm (take_bit 5 rd) (take_bit 7 op)) n =
     (if n < 7 then bit op n else if n < 12 then bit rd (n - 7) else bit imm (n - 12))"
  by (auto simp: u_type_def bit_simps)

lemma bit_u_type:
  "rd < 32 \<Longrightarrow> op < 128 \<Longrightarrow> n < 32 \<Longrightarrow>
   bit (u_type imm (ucast (rd::u8)) op) n =
     (if n < 7 then bit op n else if n < 12 then bit rd (n - 7) else bit imm (n - 12))"
  using bit_u_type_masked [of n imm "ucast rd" op]
  by (auto simp: take_bit_reg take_bit_funct bit_simps split: if_splits)

lemma bit_j_type_masked:
  "n < 32 \<Longrightarrow> bit (j_type imm (take_bit 5 rd) (take_bit 7 op)) n =
     (if n < 7 then bit op n else if n < 12 then bit rd (n - 7) else if n < 20 then bit imm n
      else if n = 20 then bit imm 11 else if n < 31 then bit imm (n - 20) else bit imm 20)"
  by (drule less_32_cases, elim insertE emptyE) (simp_all add: j_type_def bits32)

lemma bit_j_type:
  "rd < 32 \<Longrightarrow> op < 128 \<Longrightarrow> n < 32 \<Longrightarrow>
   bit (j_type imm (ucast (rd::u8)) op) n =
     (if n < 7 then bit op n else if n < 12 then bit rd (n - 7) else if n < 20 then bit imm n
      else if n = 20 then bit imm 11 else if n < 31 then bit imm (n - 20) else bit imm 20)"
  using bit_j_type_masked [of n imm "ucast rd" op]
  by (auto simp: take_bit_reg take_bit_funct bit_simps split: if_splits)

lemmas format_bits = bit_r_type bit_i_type bit_s_type bit_b_type bit_u_type bit_j_type

lemma bit_rd_of: "bit (rd_of w) n \<longleftrightarrow> n < 5 \<and> bit w (7 + n)"
  and bit_rs1_of: "bit (rs1_of w) n \<longleftrightarrow> n < 5 \<and> bit w (15 + n)"
  and bit_rs2_of: "bit (rs2_of w) n \<longleftrightarrow> n < 5 \<and> bit w (20 + n)"
  and bit_funct3_of: "bit (funct3_of w) n \<longleftrightarrow> n < 3 \<and> bit w (12 + n)"
  and bit_funct7_of: "bit (funct7_of w) n \<longleftrightarrow> bit w (25 + n)"
  by (auto simp: rd_of_def rs1_of_def rs2_of_def funct3_of_def funct7_of_def and_masks bit_simps)

lemma bit_imm_i_of: "n < 32 \<Longrightarrow> bit (imm_i_of w) n \<longleftrightarrow> bit w (min (20 + n) 31)"
  by (auto simp: imm_i_of_def bit_simps min_def)

lemma bit_imm_s_of: "n < 32 \<Longrightarrow> bit (imm_s_of w) n \<longleftrightarrow> bit w (if n < 5 then n + 7 else min (n + 20) 31)"
  by (drule less_32_cases, elim insertE emptyE) (simp_all add: imm_s_of_def bits32)

lemma bit_imm_b_of: "n < 32 \<Longrightarrow> bit (imm_b_of w) n \<longleftrightarrow> 0 < n \<and>
   bit w (if n < 5 then n + 7 else if n < 11 then n + 20 else if n = 11 then 7 else 31)"
  by (drule less_32_cases, elim insertE emptyE) (simp_all add: imm_b_of_def bits32)

lemma bit_imm_u_of: "n < 32 \<Longrightarrow> bit (imm_u_of w) n \<longleftrightarrow> 12 \<le> n \<and> bit w n"
  by (drule less_32_cases, elim insertE emptyE) (simp_all add: imm_u_of_def bits32)

lemma bit_imm_j_of: "n < 32 \<Longrightarrow> bit (imm_j_of w) n \<longleftrightarrow> 0 < n \<and>
   bit w (if n < 11 then n + 20 else if n = 11 then 20 else if n < 20 then n else 31)"
  by (drule less_32_cases, elim insertE emptyE) (simp_all add: imm_j_of_def bits32)

lemmas field_bits = bit_rd_of bit_rs1_of bit_rs2_of bit_funct3_of bit_funct7_of bit_imm_i_of
  bit_imm_s_of bit_imm_b_of bit_imm_u_of bit_imm_j_of

lemma fits_bit:
  assumes "fits m imm" "n < 32"
  shows "bit imm n = bit imm (min (m - 1) n)"
proof -
  have "bit imm n = bit (signed_take_bit (m - 1) imm) n"
    using assms(1) by (simp add: fits_def)
  also have "\<dots> = bit imm (min (m - 1) n)"
    using assms(2) by (simp add: bit_signed_take_bit_iff)
  finally show ?thesis .
qed

section \<open>Reading the fields of an assembled word\<close>

lemma funct3_eqI: "f3 < 8 \<Longrightarrow> (\<And>n. n < 3 \<Longrightarrow> bit w (12 + n) = bit f3 n) \<Longrightarrow> funct3_of w = f3"
  by (rule bit_word_eqI) (auto simp: bit_funct3_of dest: funct3_bit)

lemma opcode_eqI: "op < 128 \<Longrightarrow> (\<And>n. n < 7 \<Longrightarrow> bit w n = bit op n) \<Longrightarrow> (w::u32) AND 127 = op"
  by (rule bit_word_eqI) (auto simp: and_masks bit_take_bit_iff dest: opcode_bit)

lemma and_3_eqI: "(\<And>n. n < 2 \<Longrightarrow> bit w n = bit op n) \<Longrightarrow> (w::u32) AND 3 = op AND 3"
  by (rule bit_word_eqI) (auto simp: and_masks bit_take_bit_iff)

lemma r_type_fields [field_simps_rv]:
  assumes "rs2 < 32" "rs1 < 32" "f3 < 8" "rd < 32" "op < 128"
  shows "rd_of (r_type f7 (ucast (rs2::u8)) (ucast (rs1::u8)) f3 (ucast (rd::u8)) op) = rd"
    "rs1_of (r_type f7 (ucast (rs2::u8)) (ucast (rs1::u8)) f3 (ucast (rd::u8)) op) = rs1"
    "rs2_of (r_type f7 (ucast (rs2::u8)) (ucast (rs1::u8)) f3 (ucast (rd::u8)) op) = rs2"
    "funct3_of (r_type f7 (ucast (rs2::u8)) (ucast (rs1::u8)) f3 (ucast (rd::u8)) op) = f3"
    "(r_type f7 (ucast (rs2::u8)) (ucast (rs1::u8)) f3 (ucast (rd::u8)) op) AND 127 = op"
    "(r_type f7 (ucast (rs2::u8)) (ucast (rs1::u8)) f3 (ucast (rd::u8)) op) AND 3 = op AND 3"
  by (rule funct3_eqI opcode_eqI and_3_eqI bit_word_eqI;
      use assms in \<open>auto simp: and_masks field_bits bit_r_type bit_simps
        dest: reg_bit\<close>)+

lemma i_type_fields [field_simps_rv]:
  assumes "rs1 < 32" "f3 < 8" "rd < 32" "op < 128"
  shows "rd_of (i_type imm (ucast (rs1::u8)) f3 (ucast (rd::u8)) op) = rd"
    "rs1_of (i_type imm (ucast (rs1::u8)) f3 (ucast (rd::u8)) op) = rs1"
    "funct3_of (i_type imm (ucast (rs1::u8)) f3 (ucast (rd::u8)) op) = f3"
    "(i_type imm (ucast (rs1::u8)) f3 (ucast (rd::u8)) op) AND 127 = op"
    "(i_type imm (ucast (rs1::u8)) f3 (ucast (rd::u8)) op) AND 3 = op AND 3"
  by (rule funct3_eqI opcode_eqI and_3_eqI bit_word_eqI;
      use assms in \<open>auto simp: and_masks field_bits bit_i_type bit_simps
        dest: reg_bit\<close>)+

lemma i_type_imm [field_simps_rv]:
  assumes "rs1 < 32" "f3 < 8" "rd < 32" "op < 128"
  shows "fits 12 imm \<Longrightarrow> imm_i_of (i_type imm (ucast (rs1::u8)) f3 (ucast (rd::u8)) op) = imm"
  apply (rule u32_eqI)
  subgoal for n
    using assms fits_bit [of 12 imm n]
    by (elim insertE emptyE) (simp_all add: field_bits bit_i_type numeral_2_eq_2 [symmetric] numeral_3_eq_3 [symmetric])
  done

lemma s_type_fields [field_simps_rv]:
  assumes "rs2 < 32" "rs1 < 32" "f3 < 8" "op < 128"
  shows "rs1_of (s_type imm (ucast (rs2::u8)) (ucast (rs1::u8)) f3 op) = rs1"
    "rs2_of (s_type imm (ucast (rs2::u8)) (ucast (rs1::u8)) f3 op) = rs2"
    "funct3_of (s_type imm (ucast (rs2::u8)) (ucast (rs1::u8)) f3 op) = f3"
    "(s_type imm (ucast (rs2::u8)) (ucast (rs1::u8)) f3 op) AND 127 = op"
    "(s_type imm (ucast (rs2::u8)) (ucast (rs1::u8)) f3 op) AND 3 = op AND 3"
  by (rule funct3_eqI opcode_eqI and_3_eqI bit_word_eqI;
      use assms in \<open>auto simp: and_masks field_bits bit_s_type bit_simps
        dest: reg_bit\<close>)+

lemma s_type_imm [field_simps_rv]:
  assumes "rs2 < 32" "rs1 < 32" "f3 < 8" "op < 128"
  shows "fits 12 imm \<Longrightarrow> imm_s_of (s_type imm (ucast (rs2::u8)) (ucast (rs1::u8)) f3 op) = imm"
  apply (rule u32_eqI)
  subgoal for n
    using assms fits_bit [of 12 imm n]
    by (elim insertE emptyE) (simp_all add: field_bits bit_s_type numeral_2_eq_2 [symmetric] numeral_3_eq_3 [symmetric])
  done

lemma b_type_fields [field_simps_rv]:
  assumes "rs2 < 32" "rs1 < 32" "f3 < 8" "op < 128"
  shows "rs1_of (b_type imm (ucast (rs2::u8)) (ucast (rs1::u8)) f3 op) = rs1"
    "rs2_of (b_type imm (ucast (rs2::u8)) (ucast (rs1::u8)) f3 op) = rs2"
    "funct3_of (b_type imm (ucast (rs2::u8)) (ucast (rs1::u8)) f3 op) = f3"
    "(b_type imm (ucast (rs2::u8)) (ucast (rs1::u8)) f3 op) AND 127 = op"
    "(b_type imm (ucast (rs2::u8)) (ucast (rs1::u8)) f3 op) AND 3 = op AND 3"
  by (rule funct3_eqI opcode_eqI and_3_eqI bit_word_eqI;
      use assms in \<open>auto simp: and_masks field_bits bit_b_type bit_simps
        dest: reg_bit\<close>)+

lemma b_type_imm [field_simps_rv]:
  assumes "rs2 < 32" "rs1 < 32" "f3 < 8" "op < 128"
  shows "fits 13 imm \<Longrightarrow> \<not> bit imm 0 \<Longrightarrow> imm_b_of (b_type imm (ucast (rs2::u8)) (ucast (rs1::u8)) f3 op) = imm"
  apply (rule u32_eqI)
  subgoal for n
    using assms fits_bit [of 13 imm n]
    by (elim insertE emptyE) (simp_all add: field_bits bit_b_type numeral_2_eq_2 [symmetric] numeral_3_eq_3 [symmetric])
  done

lemma u_type_fields [field_simps_rv]:
  assumes "rd < 32" "op < 128"
  shows "rd_of (u_type imm (ucast (rd::u8)) op) = rd"
    "(u_type imm (ucast (rd::u8)) op) AND 127 = op"
    "(u_type imm (ucast (rd::u8)) op) AND 3 = op AND 3"
  by (rule funct3_eqI opcode_eqI and_3_eqI bit_word_eqI;
      use assms in \<open>auto simp: and_masks field_bits bit_u_type bit_simps
        dest: reg_bit\<close>)+

lemma j_type_fields [field_simps_rv]:
  assumes "rd < 32" "op < 128"
  shows "rd_of (j_type imm (ucast (rd::u8)) op) = rd"
    "(j_type imm (ucast (rd::u8)) op) AND 127 = op"
    "(j_type imm (ucast (rd::u8)) op) AND 3 = op AND 3"
  by (rule funct3_eqI opcode_eqI and_3_eqI bit_word_eqI;
      use assms in \<open>auto simp: and_masks field_bits bit_j_type bit_simps
        dest: reg_bit\<close>)+

lemma j_type_imm [field_simps_rv]:
  assumes "rd < 32" "op < 128"
  shows "fits 21 imm \<Longrightarrow> \<not> bit imm 0 \<Longrightarrow> imm_j_of (j_type imm (ucast (rd::u8)) op) = imm"
  apply (rule u32_eqI)
  subgoal for n
    using assms fits_bit [of 21 imm n]
    by (elim insertE emptyE) (simp_all add: field_bits bit_j_type numeral_2_eq_2 [symmetric] numeral_3_eq_3 [symmetric])
  done

lemma funct7_eqI:
  assumes "f7 < 128" "\<And>n. n < 7 \<Longrightarrow> bit w (25 + n) = bit f7 n"
  shows "funct7_of w = f7"
proof (rule bit_word_eqI)
  fix n
  show "bit (funct7_of w) n = bit f7 n"
    using assms opcode_bit [of f7 n] bit_imp_le_length [of w "25 + n"]
    by (cases "n < 7") (auto simp: bit_funct7_of)
qed

lemma funct7_r_type [field_simps_rv]:
  assumes "rs2 < 32" "rs1 < 32" "f3 < 8" "rd < 32" "op < 128"
  shows "f7 < 128 \<Longrightarrow> funct7_of (r_type f7 (ucast (rs2::u8)) (ucast (rs1::u8)) f3 (ucast (rd::u8)) op) = f7"
  by (rule funct7_eqI) (use assms in \<open>simp_all add: bit_r_type\<close>)

lemma shr_funct7: "shr w 27 = shr (funct7_of w) 2" "shr w 26 AND 1 = shr (funct7_of w) 1 AND 1"
  "shr w 25 = funct7_of w"
  by (auto simp: funct7_of_def)

lemma u_type_imm [field_simps_rv]:
  assumes "rd < 32" "op < 128"
  shows "imm AND 0xfff = 0 \<Longrightarrow> imm_u_of (u_type (shr imm 12) (ucast (rd::u8)) op) = imm"
  apply (rule u32_eqI)
  subgoal premises p for n
  proof -
    have "bit imm n \<Longrightarrow> 12 \<le> n"
      using arg_cong [OF p(1), of "\<lambda>w. bit w n"] p(2) by (elim insertE emptyE) (simp_all add: bit_and_iff)
    then show ?thesis using p(2) assms
      by (elim insertE emptyE) (auto simp add: field_bits bit_u_type bit_simps)
  qed
  done

lemma and_3_of_and_127: "(w::u32) AND 127 = op \<Longrightarrow> w AND 3 = op AND 3"
  by (auto simp: and.assoc)

section \<open>The decoder, opcode by opcode\<close>

lemma decode_lui:
  "word AND 127 = 0x37 \<Longrightarrow> decode word =
        Inr (Lui (rd_of word) (imm_u_of word))"
  by (simp add: decode_def and_3_of_and_127 Let_def)

lemma decode_auipc:
  "word AND 127 = 0x17 \<Longrightarrow> decode word =
        Inr (Auipc (rd_of word) (imm_u_of word))"
  by (simp add: decode_def and_3_of_and_127 Let_def)

lemma decode_jal:
  "word AND 127 = 0x6f \<Longrightarrow> decode word =
        Inr (Jal (rd_of word) (imm_j_of word))"
  by (simp add: decode_def and_3_of_and_127 Let_def)

lemma decode_jalr:
  "word AND 127 = 0x67 \<Longrightarrow> decode word =
        (if (funct3_of word) = 0 then Inr (Jalr (rd_of word) (rs1_of word) (imm_i_of word))
         else Inl \<lparr>err_word = word, err_reason = ''jalr: funct3 must be 000''\<rparr>)"
  by (simp add: decode_def and_3_of_and_127 Let_def)

lemma decode_branch:
  "word AND 127 = 0x63 \<Longrightarrow> decode word =
        (if (funct3_of word) = 0b000 then Inr (Beq (rs1_of word) (rs2_of word) (imm_b_of word))
         else if (funct3_of word) = 0b001 then Inr (Bne (rs1_of word) (rs2_of word) (imm_b_of word))
         else if (funct3_of word) = 0b100 then Inr (Blt (rs1_of word) (rs2_of word) (imm_b_of word))
         else if (funct3_of word) = 0b101 then Inr (Bge (rs1_of word) (rs2_of word) (imm_b_of word))
         else if (funct3_of word) = 0b110 then Inr (Bltu (rs1_of word) (rs2_of word) (imm_b_of word))
         else if (funct3_of word) = 0b111 then Inr (Bgeu (rs1_of word) (rs2_of word) (imm_b_of word))
         else Inl \<lparr>err_word = word, err_reason = ''branch: funct3 010 and 011 are reserved''\<rparr>)"
  by (simp add: decode_def and_3_of_and_127 Let_def)

lemma decode_load:
  "word AND 127 = 0x03 \<Longrightarrow> decode word =
        (if (funct3_of word) = 0b000 then Inr (Lb (rd_of word) (rs1_of word) (imm_i_of word))
         else if (funct3_of word) = 0b001 then Inr (Lh (rd_of word) (rs1_of word) (imm_i_of word))
         else if (funct3_of word) = 0b010 then Inr (Lw (rd_of word) (rs1_of word) (imm_i_of word))
         else if (funct3_of word) = 0b100 then Inr (Lbu (rd_of word) (rs1_of word) (imm_i_of word))
         else if (funct3_of word) = 0b101 then Inr (Lhu (rd_of word) (rs1_of word) (imm_i_of word))
         else Inl \<lparr>err_word = word, err_reason = ''load: funct3 011 and 110 are RV64's ld and lwu, 111 is reserved''\<rparr>)"
  by (simp add: decode_def and_3_of_and_127 Let_def)

lemma decode_store:
  "word AND 127 = 0x23 \<Longrightarrow> decode word =
        (if (funct3_of word) = 0b000 then Inr (Sb (rs1_of word) (rs2_of word) (imm_s_of word))
         else if (funct3_of word) = 0b001 then Inr (Sh (rs1_of word) (rs2_of word) (imm_s_of word))
         else if (funct3_of word) = 0b010 then Inr (Sw (rs1_of word) (rs2_of word) (imm_s_of word))
         else Inl \<lparr>err_word = word, err_reason = ''store: funct3 011 is RV64's sd, 1xx is reserved''\<rparr>)"
  by (simp add: decode_def and_3_of_and_127 Let_def)

lemma decode_op_imm:
  "word AND 127 = 0x13 \<Longrightarrow> decode word =
        (if (funct3_of word) = 0b000 then Inr (Addi (rd_of word) (rs1_of word) (imm_i_of word))
         else if (funct3_of word) = 0b010 then Inr (Slti (rd_of word) (rs1_of word) (imm_i_of word))
         else if (funct3_of word) = 0b011 then Inr (Sltiu (rd_of word) (rs1_of word) (imm_i_of word))
         else if (funct3_of word) = 0b100 then Inr (Xori (rd_of word) (rs1_of word) (imm_i_of word))
         else if (funct3_of word) = 0b110 then Inr (Ori (rd_of word) (rs1_of word) (imm_i_of word))
         else if (funct3_of word) = 0b111 then Inr (Andi (rd_of word) (rs1_of word) (imm_i_of word))
         else if (funct3_of word) = 0b001 then
           (if (funct7_of word) = 0 then Inr (Slli (rd_of word) (rs1_of word) (rs2_of word))
            else Inl \<lparr>err_word = word, err_reason = ''slli: funct7 must be 0000000 on RV32''\<rparr>)
         else if (funct7_of word) = 0 then Inr (Srli (rd_of word) (rs1_of word) (rs2_of word))
         else if (funct7_of word) = 0b0100000 then Inr (Srai (rd_of word) (rs1_of word) (rs2_of word))
         else Inl \<lparr>err_word = word, err_reason = ''srli/srai: funct7 must be 0000000 or 0100000 on RV32''\<rparr>)"
  by (simp add: decode_def and_3_of_and_127 Let_def)

lemma decode_op:
  "word AND 127 = 0x33 \<Longrightarrow> decode word =
        (if (funct7_of word) = 0b0000000 \<and> (funct3_of word) = 0b000 then Inr (Add (rd_of word) (rs1_of word) (rs2_of word))
         else if (funct7_of word) = 0b0100000 \<and> (funct3_of word) = 0b000 then Inr (Sub (rd_of word) (rs1_of word) (rs2_of word))
         else if (funct7_of word) = 0b0000000 \<and> (funct3_of word) = 0b001 then Inr (Sll (rd_of word) (rs1_of word) (rs2_of word))
         else if (funct7_of word) = 0b0000000 \<and> (funct3_of word) = 0b010 then Inr (Slt (rd_of word) (rs1_of word) (rs2_of word))
         else if (funct7_of word) = 0b0000000 \<and> (funct3_of word) = 0b011 then Inr (Sltu (rd_of word) (rs1_of word) (rs2_of word))
         else if (funct7_of word) = 0b0000000 \<and> (funct3_of word) = 0b100 then Inr (Xor (rd_of word) (rs1_of word) (rs2_of word))
         else if (funct7_of word) = 0b0000000 \<and> (funct3_of word) = 0b101 then Inr (Srl (rd_of word) (rs1_of word) (rs2_of word))
         else if (funct7_of word) = 0b0100000 \<and> (funct3_of word) = 0b101 then Inr (Sra (rd_of word) (rs1_of word) (rs2_of word))
         else if (funct7_of word) = 0b0000000 \<and> (funct3_of word) = 0b110 then Inr (Or (rd_of word) (rs1_of word) (rs2_of word))
         else if (funct7_of word) = 0b0000000 \<and> (funct3_of word) = 0b111 then Inr (And (rd_of word) (rs1_of word) (rs2_of word))
         else if (funct7_of word) = 0b0000001 \<and> (funct3_of word) = 0b000 then Inr (Mul (rd_of word) (rs1_of word) (rs2_of word))
         else if (funct7_of word) = 0b0000001 \<and> (funct3_of word) = 0b001 then Inr (Mulh (rd_of word) (rs1_of word) (rs2_of word))
         else if (funct7_of word) = 0b0000001 \<and> (funct3_of word) = 0b010 then Inr (Mulhsu (rd_of word) (rs1_of word) (rs2_of word))
         else if (funct7_of word) = 0b0000001 \<and> (funct3_of word) = 0b011 then Inr (Mulhu (rd_of word) (rs1_of word) (rs2_of word))
         else if (funct7_of word) = 0b0000001 \<and> (funct3_of word) = 0b100 then Inr (Div (rd_of word) (rs1_of word) (rs2_of word))
         else if (funct7_of word) = 0b0000001 \<and> (funct3_of word) = 0b101 then Inr (Divu (rd_of word) (rs1_of word) (rs2_of word))
         else if (funct7_of word) = 0b0000001 \<and> (funct3_of word) = 0b110 then Inr (Rem (rd_of word) (rs1_of word) (rs2_of word))
         else if (funct7_of word) = 0b0000001 \<and> (funct3_of word) = 0b111 then Inr (Remu (rd_of word) (rs1_of word) (rs2_of word))
         else Inl \<lparr>err_word = word, err_reason = ''register-register: no RV32IM operation has this funct7 and funct3''\<rparr>)"
  by (simp add: decode_def and_3_of_and_127 Let_def)

lemma decode_misc_mem:
  "word AND 127 = 0x0f \<Longrightarrow> decode word =
        (if (funct3_of word) = 0b000 then
           Inr (Fence (ucast (shr word 28)) (ucast (shr word 24 AND 0xf)) (ucast (shr word 20 AND 0xf)))
         else if (funct3_of word) = 0b001 then
           Inl \<lparr>err_word = word, err_reason = ''MISC-MEM: funct3 001 is fence.i (Zifencei), which RV32IMAC does not have''\<rparr>
         else Inl \<lparr>err_word = word, err_reason = ''MISC-MEM: only funct3 000, fence, is RV32IMAC; the rest are other extensions or reserved''\<rparr>)"
  by (simp add: decode_def and_3_of_and_127 Let_def)

lemma decode_system:
  "word AND 127 = 0x73 \<Longrightarrow> decode word =
        (if word = 0x00000073 then Inr Ecall
         else if word = 0x00100073 then Inr Ebreak
         else Inl \<lparr>err_word = word, err_reason = ''SYSTEM: only ecall and ebreak; Zicsr and the privileged encodings are not RV32IMAC''\<rparr>)"
  by (simp add: decode_def and_3_of_and_127 Let_def)

lemma decode_amo:
  "word AND 127 = 0x2f \<Longrightarrow> decode word =
        (if (funct3_of word) \<noteq> 0b010 then
           Inl \<lparr>err_word = word, err_reason = ''AMO: funct3 must be 010, the .w width; 011 is RV64's .d''\<rparr>
         else
           let aq = (shr word 26 AND 1 = 1); rl = (shr word 25 AND 1 = 1); funct5 = shr word 27 in
           if funct5 = 0b00010 \<and> (rs2_of word) = 0 then Inr (LrW (rd_of word) (rs1_of word) aq rl)
           else if funct5 = 0b00010 then Inl \<lparr>err_word = word, err_reason = ''lr.w: rs2 must be x0''\<rparr>
           else if funct5 = 0b00011 then Inr (ScW (rd_of word) (rs1_of word) (rs2_of word) aq rl)
           else if funct5 = 0b00001 then Inr (AmoswapW (rd_of word) (rs1_of word) (rs2_of word) aq rl)
           else if funct5 = 0b00000 then Inr (AmoaddW (rd_of word) (rs1_of word) (rs2_of word) aq rl)
           else if funct5 = 0b00100 then Inr (AmoxorW (rd_of word) (rs1_of word) (rs2_of word) aq rl)
           else if funct5 = 0b01100 then Inr (AmoandW (rd_of word) (rs1_of word) (rs2_of word) aq rl)
           else if funct5 = 0b01000 then Inr (AmoorW (rd_of word) (rs1_of word) (rs2_of word) aq rl)
           else if funct5 = 0b10000 then Inr (AmominW (rd_of word) (rs1_of word) (rs2_of word) aq rl)
           else if funct5 = 0b10100 then Inr (AmomaxW (rd_of word) (rs1_of word) (rs2_of word) aq rl)
           else if funct5 = 0b11000 then Inr (AmominuW (rd_of word) (rs1_of word) (rs2_of word) aq rl)
           else if funct5 = 0b11100 then Inr (AmomaxuW (rd_of word) (rs1_of word) (rs2_of word) aq rl)
           else Inl \<lparr>err_word = word, err_reason = ''AMO: no A-extension operation has this funct5''\<rparr>)"
  by (simp add: decode_def and_3_of_and_127 Let_def)

lemmas decode_opcode = decode_lui decode_auipc decode_jal decode_jalr decode_branch decode_load
  decode_store decode_op_imm decode_op decode_misc_mem decode_system decode_amo


section \<open>Decoding what was assembled\<close>

text \<open>\<open>fence\<close> keeps only its three sets: the decoder drops its register fields.\<close>

lemma nibble_bit: "(r::u8) < 16 \<Longrightarrow> bit r n \<Longrightarrow> n < 4"
  using bit_less_pow [of r 4 n] by simp

lemma bit_fence:
  assumes "fm < 16" "pred < 16" "succ < 16" "n < 32"
  shows "bit (encode (Fence fm pred succ)) n =
     (if n < 7 then bit (0xf :: u32) n else if n < 20 then False
      else if n < 24 then bit succ (n - 20) else if n < 28 then bit pred (n - 24) else bit fm (n - 28))"
proof -
  have hi: "\<not> bit succ 4" "\<not> bit succ 5" "\<not> bit succ 6" "\<not> bit succ 7"
    "\<not> bit pred 4" "\<not> bit pred 5" "\<not> bit pred 6" "\<not> bit pred 7"
    using assms by (simp_all add: u8_less_16)
  show ?thesis
    using less_32_cases [OF assms(4)] hi
    by (elim insertE emptyE) (simp_all add: bits32 word_bit_high)
qed

lemma nibble_eqI:
  assumes "f < 16" "\<And>n. n < 4 \<Longrightarrow> bit (w::u32) n = bit f n" "\<And>n. bit w n \<Longrightarrow> n < 4"
  shows "ucast w = (f::u8)"
  by (rule bit_word_eqI) (use assms nibble_bit [of f] in \<open>auto simp: bit_simps\<close>)

lemma decode_encode_fence:
  assumes "fm < 16" "pred < 16" "succ < 16"
  shows "decode (encode (Fence fm pred succ)) = Inr (Fence fm pred succ)"
proof -
  let ?w = "encode (Fence fm pred succ)"
  have op: "?w AND 127 = 0x0f"
    by (rule opcode_eqI) (simp_all add: bit_fence assms del: encode.simps)
  have f3: "funct3_of ?w = 0"
    by (rule funct3_eqI) (simp_all add: bit_fence assms del: encode.simps)
  have "ucast (shr ?w 28) = fm"
    by (rule nibble_eqI)
      (use assms bit_imp_le_length [of ?w] in \<open>force simp add: bit_drop_bit_eq bit_fence simp del: encode.simps\<close>)+
  moreover have "ucast (shr ?w 24 AND 0xf) = pred" "ucast (shr ?w 20 AND 0xf) = succ"
    by (rule nibble_eqI; use assms in \<open>simp add: and_masks bit_take_bit_iff bit_drop_bit_eq bit_fence del: encode.simps\<close>)+
  ultimately show ?thesis
    using op f3 by (simp add: decode_misc_mem del: encode.simps)
qed

lemmas r_type_rs2_0 = r_type_fields [of "0::u8", simplified] funct7_r_type [of "0::u8", simplified]

lemma decode_encode_amo:
  assumes "rd < 32" "rs1 < 32" "rs2 < 32"
  shows "decode (encode (ScW rd rs1 rs2 aq rl)) = Inr (ScW rd rs1 rs2 aq rl)"
    "decode (encode (AmoswapW rd rs1 rs2 aq rl)) = Inr (AmoswapW rd rs1 rs2 aq rl)"
    "decode (encode (AmoaddW rd rs1 rs2 aq rl)) = Inr (AmoaddW rd rs1 rs2 aq rl)"
    "decode (encode (AmoxorW rd rs1 rs2 aq rl)) = Inr (AmoxorW rd rs1 rs2 aq rl)"
    "decode (encode (AmoandW rd rs1 rs2 aq rl)) = Inr (AmoandW rd rs1 rs2 aq rl)"
    "decode (encode (AmoorW rd rs1 rs2 aq rl)) = Inr (AmoorW rd rs1 rs2 aq rl)"
    "decode (encode (AmominW rd rs1 rs2 aq rl)) = Inr (AmominW rd rs1 rs2 aq rl)"
    "decode (encode (AmomaxW rd rs1 rs2 aq rl)) = Inr (AmomaxW rd rs1 rs2 aq rl)"
    "decode (encode (AmominuW rd rs1 rs2 aq rl)) = Inr (AmominuW rd rs1 rs2 aq rl)"
    "decode (encode (AmomaxuW rd rs1 rs2 aq rl)) = Inr (AmomaxuW rd rs1 rs2 aq rl)"
  using assms
  by (cases aq; cases rl;
      simp add: amo_type_def decode_amo field_simps_rv shr_funct7 Let_def)+

lemma decode_encode_lr:
  "rd < 32 \<Longrightarrow> rs1 < 32 \<Longrightarrow> decode (encode (LrW rd rs1 aq rl)) = Inr (LrW rd rs1 aq rl)"
  by (cases aq; cases rl;
      simp add: amo_type_def decode_amo r_type_rs2_0 shr_funct7 Let_def)

lemma decode_encode: "wf_instr i \<Longrightarrow> decode (encode i) = Inr i"
  by (cases i)
    (simp_all add: decode_encode_amo decode_encode_lr decode_encode_fence decode_opcode
      field_simps_rv opcode_defs EBREAK_def del: encode.simps(46,49-59))

section \<open>Assembling what was decoded\<close>


lemma less_pow_bitI:
  fixes x :: "'a::len word"
  assumes "k < LENGTH('a)" "\<And>n. bit x n \<Longrightarrow> n < k"
  shows "x < 2 ^ k"
  unfolding small_bits [OF assms(1)] by (auto dest: assms(2))

lemma regs_small: "rd_of w < 32" "rs1_of w < 32" "rs2_of w < 32"
  using less_pow_bitI [of 5 "rd_of w"] less_pow_bitI [of 5 "rs1_of w"] less_pow_bitI [of 5 "rs2_of w"]
  by (simp_all add: field_bits)

lemma functs_small: "funct3_of w < 8" "funct7_of w < 128" "w AND 127 < (128::u32)"
  using less_pow_bitI [of 3 "funct3_of w"] less_pow_bitI [of 7 "funct7_of w"]
    less_pow_bitI [of 7 "w AND 127"] bit_imp_le_length [of w]
  by (force simp add: field_bits and_masks bit_take_bit_iff)+

lemma nibbles_small:
  "ucast (shr (w::u32) 28) < (16::u8)" "ucast (shr w 24 AND 0xf) < (16::u8)" "ucast (shr w 20 AND 0xf) < (16::u8)"
  using less_pow_bitI [of 4 "ucast (shr w 28) :: u8"] less_pow_bitI [of 4 "ucast (shr w 24 AND 0xf) :: u8"]
    less_pow_bitI [of 4 "ucast (shr w 20 AND 0xf) :: u8"] bit_imp_le_length [of w]
  by (force simp add: bit_simps and_masks)+

lemma bit_opcode: "bit ((w::u32) AND 127) n \<longleftrightarrow> n < 7 \<and> bit w n"
  by (simp add: and_masks bit_take_bit_iff)

lemma fitsI:
  assumes "0 < m" "\<And>n. n < 32 \<Longrightarrow> m \<le> n \<Longrightarrow> bit imm n = bit imm (m - 1)"
  shows "fits m imm"
  unfolding fits_def
proof (rule bit_word_eqI)
  fix n
  assume "n < LENGTH(32)"
  moreover from this have "bit (signed_take_bit (m - 1) imm) n = bit imm (min (m - 1) n)"
    by (simp add: bit_signed_take_bit_iff)
  ultimately show "bit (signed_take_bit (m - 1) imm) n = bit imm n"
    using assms(1) assms(2) [of n] by (cases "m \<le> n") (simp_all add: min.absorb1 min.absorb2)
qed

lemma imms_fit:
  "fits 12 (imm_i_of w)" "fits 12 (imm_s_of w)" "fits 13 (imm_b_of w)" "fits 21 (imm_j_of w)"
  by (rule fitsI, simp, drule less_32_cases, elim insertE emptyE; simp add: field_bits)+

lemma imms_aligned: "\<not> bit (imm_b_of w) 0" "\<not> bit (imm_j_of w) 0" "imm_u_of w AND 0xfff = 0"
  by (simp_all add: field_bits imm_u_of_def and.assoc)

lemma join_r:
  assumes "w AND 127 = op" "funct3_of w = f3" "funct7_of w = f7"
  shows "r_type f7 (ucast (rs2_of w)) (ucast (rs1_of w)) f3 (ucast (rd_of w)) op = w"
  by (rule bit_word_eqI)
    (auto simp: regs_small functs_small bit_r_type field_bits bit_opcode simp flip: assms)

lemma join_i:
  assumes "w AND 127 = op" "funct3_of w = f3"
  shows "i_type (imm_i_of w) (ucast (rs1_of w)) f3 (ucast (rd_of w)) op = w"
  by (rule bit_word_eqI)
    (auto simp: regs_small functs_small bit_i_type field_bits bit_opcode simp flip: assms)

lemma join_s:
  assumes "w AND 127 = op" "funct3_of w = f3"
  shows "s_type (imm_s_of w) (ucast (rs2_of w)) (ucast (rs1_of w)) f3 op = w"
  by (rule bit_word_eqI)
    (auto simp: regs_small functs_small bit_s_type field_bits bit_opcode simp flip: assms)

lemma join_b:
  assumes "w AND 127 = op" "funct3_of w = f3"
  shows "b_type (imm_b_of w) (ucast (rs2_of w)) (ucast (rs1_of w)) f3 op = w"
  by (rule u32_eqI, elim insertE emptyE)
    (simp_all add: regs_small functs_small bit_b_type field_bits bit_opcode flip: assms)

lemma join_u:
  assumes "w AND 127 = op"
  shows "u_type (shr (imm_u_of w) 12) (ucast (rd_of w)) op = w"
  by (rule bit_word_eqI)
    (auto simp: regs_small functs_small bit_u_type field_bits bit_opcode bit_drop_bit_eq simp flip: assms)

lemma join_j:
  assumes "w AND 127 = op"
  shows "j_type (imm_j_of w) (ucast (rd_of w)) op = w"
  by (rule u32_eqI, elim insertE emptyE)
    (simp_all add: regs_small functs_small bit_j_type field_bits bit_opcode flip: assms)

lemma shr_and_1: "(shr (w::u32) n AND 1 = 1) = bit w n" "(w AND 1 = 1) = bit w 0"
  by (simp_all add: and_one_eq odd_iff_mod_2_eq_one [symmetric] bit_iff_odd drop_bit_eq_div)

lemma join_funct7:
  "shl (shr (funct7_of w) 2) 2 OR shl (of_bool (bit w 26)) 1 OR of_bool (bit w 25) = funct7_of w"
  by (rule u32_eqI, elim insertE emptyE) (simp_all add: field_bits bits32 word_bit_high)

lemma join_amo:
  assumes "w AND 127 = 0x2f" "funct3_of w = 2" "shr w 27 = f5"
  shows "amo_type f5 (shr w 26 AND 1 = 1) (shr w 25 AND 1 = 1) (ucast (rs2_of w)) (ucast (rs1_of w))
     (ucast (rd_of w)) = w"
proof -
  have "shl f5 2 OR shl (of_bool (bit w 26)) 1 OR of_bool (bit w 25) = funct7_of w"
    using join_funct7 [of w] assms(3) by (simp only: shr_funct7)
  then show ?thesis
    unfolding amo_type_def shr_and_1(1) by (simp only: join_r assms)
qed

lemma join_lr:
  assumes "w AND 127 = 0x2f" "funct3_of w = 2" "shr w 27 = f5" "rs2_of w = 0"
  shows "amo_type f5 (shr w 26 AND 1 = 1) (shr w 25 AND 1 = 1) 0 (ucast (rs1_of w)) (ucast (rd_of w)) = w"
  using join_amo [OF assms(1-3)] assms(4) by simp

lemma funct3_cases: "funct3_of w \<in> {0, 1, 2, 3, 4, 5, 6, 7}"
proof -
  have "unat (funct3_of w) < 8"
    using functs_small(1) [of w] by (simp add: word_less_nat_alt)
  then have "unat (funct3_of w) \<in> set [0..<8]"
    by simp
  then have "unat (funct3_of w) \<in> {0, 1, 2, 3, 4, 5, 6, 7}"
    by (simp add: upt_0_8 del: set_upt)
  then show ?thesis
    by (simp add: word_unat_eq_iff)
qed

lemma join_fence:
  assumes "w AND 127 = 0x0f" "funct3_of w = 0"
  shows "encode (Fence (ucast (shr w 28)) (ucast (shr w 24 AND 0xf)) (ucast (shr w 20 AND 0xf)))
    = w AND 0xfff0007f"
proof -
  have f3: "bit w 12 = bit (funct3_of w) 0" "bit w 13 = bit (funct3_of w) 1" "bit w 14 = bit (funct3_of w) 2"
    by (simp_all add: field_bits)
  have op: "bit w n = bit (0x0f::u32) n" if "n < 7" for n
    using arg_cong [OF assms(1), of "\<lambda>x. bit x n"] that by (simp add: bit_opcode)
  show ?thesis
    by (intro u32_eqI, elim insertE emptyE)
      (simp_all add: f3 op assms bit_fence nibbles_small bit_simps word_bit_high del: encode.simps)
qed

lemma decode_ok_opcode:
  "decode w = Inr i \<Longrightarrow>
    w AND 127 \<in> {0x37, 0x17, 0x6f, 0x67, 0x63, 0x03, 0x23, 0x13, 0x33, 0x0f, 0x73, 0x2f}"
  by (rule ccontr) (simp add: decode_def Let_def split: if_splits)

lemma decode_wf:
  assumes "decode w = Inr i"
  shows "wf_instr i"
  using decode_ok_opcode [OF assms] assms
  by (elim insertE emptyE)
    (auto simp: decode_opcode Let_def regs_small nibbles_small imms_fit imms_aligned split: if_splits)

lemma funct3_5:
  "funct3_of w \<noteq> 0 \<Longrightarrow> funct3_of w \<noteq> 1 \<Longrightarrow> funct3_of w \<noteq> 2 \<Longrightarrow> funct3_of w \<noteq> 3 \<Longrightarrow>
   funct3_of w \<noteq> 4 \<Longrightarrow> funct3_of w \<noteq> 6 \<Longrightarrow> funct3_of w \<noteq> 7 \<Longrightarrow> funct3_of w = 5"
  using funct3_cases [of w] by simp

lemma encode_decode:
  assumes "decode w = Inr i"
  shows "encode i = (if w AND 0x7f = 0x0f then w AND 0xfff0007f else w)"
  using decode_ok_opcode [OF assms] assms
  by (elim insertE emptyE)
    (auto simp: decode_opcode Let_def join_r join_i join_s join_b join_u join_j join_amo join_lr
      join_fence opcode_defs EBREAK_def split: if_splits simp del: encode.simps(46) dest: funct3_5)

section \<open>What the decoder promises\<close>

text \<open>C8: Every well-formed instruction of RV32IMAC, assembled by the ISA's formats, decodes to
  itself.\<close>

theorem decode_complete: "wf_instr i \<Longrightarrow> decode (encode i) = Inr i"
  by (rule decode_encode)

theorem decode_complete_witness:
  "decode (encode (Beq 5 6 (- 4096))) = Inr (Beq 5 6 (- 4096))"
  by (rule decode_complete) (simp add: fits_def)

text \<open>C7: What decodes is well formed, and assembling it gives the word back; \<open>fence\<close> alone loses
  its two unused register fields. So the decoder accepts no word outside the instruction set.\<close>

theorem decode_exact:
  "decode w = Inr i \<Longrightarrow>
   wf_instr i \<and> encode i = (if w AND 0x7f = 0x0f then w AND 0xfff0007f else w)"
  by (simp add: decode_wf encode_decode)

theorem decode_exact_witness: "encode (Addi 1 2 5) = 0x00510093"
proof -
  have "decode 0x00510093 = Inr (Addi 1 2 5)"
    by (simp add: decode_op_imm rd_of_def rs1_of_def funct3_of_def imm_i_of_def signed_drop_bit_word_numeral)
  from decode_exact [OF this] show ?thesis by simp
qed

end
