(* ===== verification/Compressed.thy ===== *)
theory Compressed
  imports Encoding
begin

text \<open>
  The C extension as the ISA tabulates it, written as instructions rather than words, and the
  proof that \<open>expand\<close> of \<open>crates/loader/src/rvc.rs\<close> builds exactly these instructions and
  refuses every other halfword.
\<close>

unbundle bit_operations_syntax

section \<open>The C extension, as the ISA tabulates it\<close>

text \<open>
  \<open>gather ps c\<close> builds an immediate out of scattered bits: each pair is a bit position of the
  encoding and the position the ISA's figure labels it with.
\<close>

primrec gather :: "(nat \<times> nat) list \<Rightarrow> u32 \<Rightarrow> u32" where
  "gather [] c = 0"
| "gather (p # ps) c = shl (of_bool (bit c (fst p))) (snd p) OR gather ps c"

definition signed_imm :: "nat \<Rightarrow> (nat \<times> nat) list \<Rightarrow> u32 \<Rightarrow> i32" where
  "signed_imm n ps c = signed_take_bit (n - 1) (gather ps c)"

text \<open>A full register field, and the three-bit field of the popular registers \<open>x8\<close> to \<open>x15\<close>.\<close>

definition creg :: "nat \<Rightarrow> u32 \<Rightarrow> u8" where
  "creg n c = ucast (shr c n AND 31)"

definition creg' :: "nat \<Rightarrow> u32 \<Rightarrow> u8" where
  "creg' n c = 8 + ucast (shr c n AND 7)"

definition imm6 :: "u32 \<Rightarrow> i32" where
  "imm6 = signed_imm 6 [(12,5), (6,4), (5,3), (4,2), (3,1), (2,0)]"

definition uimm_lw :: "u32 \<Rightarrow> i32" where
  "uimm_lw = gather [(12,5), (11,4), (10,3), (6,2), (5,6)]"

definition imm_cj :: "u32 \<Rightarrow> i32" where
  "imm_cj = signed_imm 12
     [(12,11), (11,4), (10,9), (9,8), (8,10), (7,6), (6,7), (5,3), (4,2), (3,1), (2,5)]"

definition imm_cb :: "u32 \<Rightarrow> i32" where
  "imm_cb = signed_imm 9 [(12,8), (11,4), (10,3), (6,7), (5,6), (4,2), (3,1), (2,5)]"

text \<open>The three quadrants; \<open>None\<close> is an encoding RV32IMAC does not have.\<close>

definition rvc_q0 :: "u32 \<Rightarrow> instr option" where
  "rvc_q0 c =
     (let f3 = shr c 13 AND 7 in
      if f3 = 0 then
        (let uimm = gather [(12,5), (11,4), (10,9), (9,8), (8,7), (7,6), (6,2), (5,3)] c in
         if uimm = 0 then None else Some (Addi (creg' 2 c) 2 uimm))
      else if f3 = 2 then Some (Lw (creg' 2 c) (creg' 7 c) (uimm_lw c))
      else if f3 = 6 then Some (Sw (creg' 7 c) (creg' 2 c) (uimm_lw c))
      else None)"

definition rvc_arith :: "u32 \<Rightarrow> instr option" where
  "rvc_arith c =
     (let r = creg' 7 c; s = creg' 2 c; shamt = ucast (shr c 2 AND 31); sel = shr c 10 AND 3;
          op = shr c 5 AND 3 in
      if sel = 0 then (if bit c 12 then None else Some (Srli r r shamt))
      else if sel = 1 then (if bit c 12 then None else Some (Srai r r shamt))
      else if sel = 2 then Some (Andi r r (imm6 c))
      else if bit c 12 then None
      else if op = 0 then Some (Sub r r s)
      else if op = 1 then Some (Xor r r s)
      else if op = 2 then Some (Or r r s)
      else Some (And r r s))"

definition rvc_q1 :: "u32 \<Rightarrow> instr option" where
  "rvc_q1 c =
     (let f3 = shr c 13 AND 7; rd = creg 7 c in
      if f3 = 0 then Some (Addi rd rd (imm6 c))
      else if f3 = 1 then Some (Jal 1 (imm_cj c))
      else if f3 = 2 then Some (Addi rd 0 (imm6 c))
      else if f3 = 3 \<and> rd = 2 then
        (let imm = signed_imm 10 [(12,9), (6,4), (5,6), (4,8), (3,7), (2,5)] c in
         if imm = 0 then None else Some (Addi 2 2 imm))
      else if f3 = 3 then
        (let imm = signed_imm 18 [(12,17), (6,16), (5,15), (4,14), (3,13), (2,12)] c in
         if imm = 0 then None else Some (Lui rd imm))
      else if f3 = 4 then rvc_arith c
      else if f3 = 5 then Some (Jal 0 (imm_cj c))
      else if f3 = 6 then Some (Beq (creg' 7 c) 0 (imm_cb c))
      else Some (Bne (creg' 7 c) 0 (imm_cb c)))"

definition rvc_q2 :: "u32 \<Rightarrow> instr option" where
  "rvc_q2 c =
     (let f3 = shr c 13 AND 7; rd = creg 7 c; rs2 = creg 2 c in
      if f3 = 0 then (if bit c 12 then None else Some (Slli rd rd (ucast (shr c 2 AND 31))))
      else if f3 = 2 then
        (if rd = 0 then None
         else Some (Lw rd 2 (gather [(12,5), (6,4), (5,3), (4,2), (3,7), (2,6)] c)))
      else if f3 = 4 then
        (if \<not> bit c 12 then
           (if rs2 = 0 then (if rd = 0 then None else Some (Jalr 0 rd 0)) else Some (Add rd 0 rs2))
         else if rs2 = 0 then (if rd = 0 then Some Ebreak else Some (Jalr 1 rd 0))
         else Some (Add rd rd rs2))
      else if f3 = 6 then Some (Sw 2 rs2 (gather [(12,5), (11,4), (10,3), (9,2), (8,7), (7,6)] c))
      else None)"

definition rvc_spec :: "u16 \<Rightarrow> instr option" where
  "rvc_spec h =
     (let c = ucast h; q = c AND 3 in
      if c = 0 then None
      else if q = 0 then rvc_q0 c
      else if q = 1 then rvc_q1 c
      else if q = 2 then rvc_q2 c
      else None)"

section \<open>The expander builds those instructions\<close>

lemma ucast_creg [simp]: "ucast (creg n c) = shr c n AND 31"
  by (rule bit_word_eqI) (auto simp: creg_def bit_simps and_masks)

lemma creg_small: "creg n c < 32"
  using less_pow_bitI [of 5 "creg n c"] by (auto simp: creg_def bit_simps and_masks)

lemma u32_less_8_cases:
  assumes "(x::u32) < 8"
  shows "x \<in> {0, 1, 2, 3, 4, 5, 6, 7}"
proof -
  have "unat x \<in> set [0..<8]"
    using assms by (simp add: word_less_nat_alt)
  then have "unat x \<in> {0, 1, 2, 3, 4, 5, 6, 7}"
    by (simp add: upt_0_8 del: set_upt)
  then show ?thesis
    by (simp add: word_unat_eq_iff)
qed

lemma three_bits: "(shr (c::u32) n AND 7) \<in> {0, 1, 2, 3, 4, 5, 6, 7}"
  using less_pow_bitI [of 3 "shr c n AND 7"]
  by (intro u32_less_8_cases) (simp add: and_masks bit_take_bit_iff)

lemma creg'_three_bits: "ucast (shr (c::u32) n AND 7) \<in> {0, 1, 2, 3, 4, 5, 6, 7 :: u8}"
  using three_bits [where c = c and n = n] by (elim insertE emptyE) simp_all

lemma creg'_alt: "creg' n c = ucast (8 + (shr c n AND 7))"
  and ucast_creg' [simp]: "ucast (creg' n c) = 8 + (shr c n AND 7)"
  and creg'_small: "creg' n c < 32"
  using three_bits [where c = c and n = n] by (auto simp: creg'_def)

lemma shamt_small: "ucast (shr (c::u32) 2 AND 31) < (32 :: u8)"
  using creg_small [of 2 c] by (simp add: creg_def)

lemma ucast_shamt [simp]: "ucast (ucast (shr (c::u32) 2 AND 31) :: u8) = shr c 2 AND 31"
  using ucast_creg [of 2 c] by (simp add: creg_def)

lemma creg_eq: "creg n c = 0 \<longleftrightarrow> shr c n AND 31 = 0" "creg n c = 2 \<longleftrightarrow> shr c n AND 31 = 2"
  using ucast_creg [of n c] by (auto simp: creg_def simp del: ucast_creg)

lemma bit_four: "bit (4 * a :: u32) n \<longleftrightarrow> 2 \<le> n \<and> n < 32 \<and> bit a (n - 2)"
  using bit_push_bit_iff [of 2 a n] by (auto simp: push_bit_eq_mult mult.commute)

lemma imms_agree:
  "ciw_imm c = gather [(12,5), (11,4), (10,9), (9,8), (8,7), (7,6), (6,2), (5,3)] c"
  "cl_cs_imm c = uimm_lw c"
  "ci_imm c = imm6 c"
  "addi16sp_imm c = signed_imm 10 [(12,9), (6,4), (5,6), (4,8), (3,7), (2,5)] c"
  "lwsp_imm c = gather [(12,5), (6,4), (5,3), (4,2), (3,7), (2,6)] c"
  "swsp_imm c = gather [(12,5), (11,4), (10,3), (9,2), (8,7), (7,6)] c"
  "cj_imm c = imm_cj c"
  "cb_imm c = imm_cb c"
  by (rule u32_eqI, elim insertE emptyE;
      simp add: ciw_imm_def cl_cs_imm_def ci_imm_def addi16sp_imm_def lwsp_imm_def swsp_imm_def
        cj_imm_def cb_imm_def uimm_lw_def imm6_def imm_cj_def imm_cb_def signed_imm_def sext_def
        Let_def bits32 bit_four)+

lemma imm6_fits: "fits 6 (imm6 c)"
  by (simp add: fits_def imm6_def signed_imm_def)

lemma lui_imm: "signed_imm 18 [(12,17), (6,16), (5,15), (4,14), (3,13), (2,12)] c = shl (imm6 c) 12"
  by (rule u32_eqI, elim insertE emptyE) (simp_all add: imm6_def signed_imm_def bits32)

lemma shl_imm6_zero: "shl (imm6 c) 12 = 0 \<longleftrightarrow> imm6 c = 0"
proof
  assume z: "shl (imm6 c) 12 = 0"
  have low: "\<not> bit (imm6 c) n" if "n < 20" for n
    using arg_cong [OF z, of "\<lambda>x. bit x (12 + n)"] that by (simp add: bit_push_bit_iff)
  show "imm6 c = 0"
  proof (rule bit_word_eqI)
    fix n assume "n < LENGTH(32)"
    then show "bit (imm6 c) n = bit 0 n"
      using fits_bit [OF imm6_fits, of n c] low [of "min 5 n"] by simp
  qed
qed simp

lemma shr_shl_12: "shr (shl (x::u32) 12) 12 = x AND 0xfffff"
  by (rule u32_eqI, elim insertE emptyE) (simp_all add: bits32)

lemma and_31_small: "(w::u32) AND 31 < 32"
  using less_pow_bitI [of 5 "w AND 31"] by (simp add: and_masks bit_take_bit_iff)

text \<open>The immediate shifts are register-format words with the amount in the \<open>rs2\<close> field.\<close>

lemma shift_formats:
  assumes "x < 32"
  shows "r_type 0 x rs1 f3 rd op = i_type x rs1 f3 rd op"
    "r_type 0x20 x rs1 f3 rd op = i_type (0x400 OR x) rs1 f3 rd op"
proof -
  have x: "x = take_bit 5 x"
    using assms take_bit_small_iff [of 5 x] by simp
  have "shl (take_bit 5 x AND 0xfff) 20 = shl (take_bit 5 x) 20"
    "shl ((0x400 OR take_bit 5 x) AND 0xfff) 20 = shl 0x20 25 OR shl (take_bit 5 x) 20"
    by (rule u32_eqI, elim insertE emptyE; simp add: bits32)+
  then show "r_type 0 x rs1 f3 rd op = i_type x rs1 f3 rd op"
    "r_type 0x20 x rs1 f3 rd op = i_type (0x400 OR x) rs1 f3 rd op"
    unfolding r_type_def i_type_def by (simp_all add: or.assoc flip: x)
qed

lemma bit_12_iff: "shr (c::u32) 12 AND 1 = 0 \<longleftrightarrow> \<not> bit c 12"
  by (simp add: and_one_eq bit_iff_odd drop_bit_eq_div even_iff_mod_2_eq_zero)

abbreviation accepted :: "'e + 'a \<Rightarrow> 'a option" where
  "accepted r \<equiv> (case r of Inl _ \<Rightarrow> None | Inr w \<Rightarrow> Some w)"

lemma quadrant0_spec: "accepted (quadrant0 c) = map_option encode (rvc_q0 c)"
  by (simp add: quadrant0_def rvc_q0_def Let_def imms_agree)

lemma two_bits: "(shr (c::u32) n AND 3) \<in> {0, 1, 2, 3}"
proof -
  have "shr c n AND 3 = (shr c n AND 7) AND 3"
    by (simp add: and.assoc)
  then show ?thesis
    using three_bits [where c = c and n = n] by (elim insertE emptyE) simp_all
qed

lemma quadrant2_spec: "accepted (quadrant2 c) = map_option encode (rvc_q2 c)"
  by (simp add: quadrant2_def rvc_q2_def Let_def imms_agree creg_eq bit_12_iff rv32_shamt_def
      shift_formats and_31_small)

lemma quadrant1_arith:
  "shr c 13 AND 7 = 4 \<Longrightarrow> accepted (quadrant1 c) = map_option encode (rvc_arith c)"
  using two_bits [where c = c and n = 10] two_bits [where c = c and n = 5]
  by (elim insertE emptyE; simp add: quadrant1_def rvc_arith_def Let_def imms_agree bit_12_iff
      rv32_shamt_def shift_formats and_31_small)

lemma quadrant1_spec: "accepted (quadrant1 c) = map_option encode (rvc_q1 c)"
  using three_bits [where c = c and n = 13] quadrant1_arith [of c]
  by (elim insertE emptyE; simp add: quadrant1_def rvc_q1_def Let_def imms_agree creg_eq lui_imm
      shl_imm6_zero shr_shl_12)

lemma expand_spec: "accepted (expand h) = map_option encode (rvc_spec h)"
  by (simp add: expand_def rvc_spec_def Let_def quadrant0_spec quadrant1_spec quadrant2_spec)

section \<open>Those instructions are well formed\<close>

lemma signed_imm_fits: "n \<le> m \<Longrightarrow> 0 < n \<Longrightarrow> fits m (signed_imm n ps c)"
  by (rule fitsI) (auto simp: signed_imm_def bit_signed_take_bit_iff min_def)

lemma bit_gather: "bit (gather ps c) n \<longleftrightarrow> n < 32 \<and> (\<exists>p \<in> set ps. snd p = n \<and> bit c (fst p))"
  by (induction ps) (auto simp: bit_simps)

lemma gather_fits: "\<forall>p \<in> set ps. snd p < m - 1 \<Longrightarrow> 0 < m \<Longrightarrow> fits m (gather ps c)"
  by (rule fitsI) (auto simp: bit_gather)

lemma even_imms: "\<not> bit (imm_cj c) 0" "\<not> bit (imm_cb c) 0"
  by (auto simp: imm_cj_def imm_cb_def signed_imm_def bit_signed_take_bit_iff bit_gather simp del: gather.simps)

lemma rvc_imms_fit:
  "fits 12 (imm6 c)" "fits 12 (uimm_lw c)" "fits 21 (imm_cj c)" "fits 13 (imm_cb c)"
  by (auto simp: imm6_def imm_cj_def imm_cb_def uimm_lw_def intro!: signed_imm_fits gather_fits
      simp del: gather.simps)

lemma lui_imm_low: "signed_imm 18 [(12,17), (6,16), (5,15), (4,14), (3,13), (2,12)] c AND 0xfff = 0"
  by (rule u32_eqI, elim insertE emptyE) (simp_all add: lui_imm bits32)

lemma fits_0: "fits 12 0"
  by (simp add: fits_def)

lemmas rvc_wf = creg_small creg'_small shamt_small rvc_imms_fit even_imms lui_imm_low fits_0

lemma rvc_q0_wf: "rvc_q0 c = Some i \<Longrightarrow> wf_instr i"
  by (auto simp: rvc_q0_def Let_def rvc_wf gather_fits simp del: gather.simps split: if_splits)

lemma rvc_arith_wf: "rvc_arith c = Some i \<Longrightarrow> wf_instr i"
  by (auto simp: rvc_arith_def Let_def rvc_wf split: if_splits)

lemma rvc_q1_wf: "rvc_q1 c = Some i \<Longrightarrow> wf_instr i"
  by (auto simp: rvc_q1_def Let_def rvc_wf signed_imm_fits rvc_arith_wf simp del: gather.simps
      split: if_splits)

lemma rvc_q2_wf: "rvc_q2 c = Some i \<Longrightarrow> wf_instr i"
  by (auto simp: rvc_q2_def Let_def rvc_wf gather_fits simp del: gather.simps split: if_splits)

lemma rvc_spec_wf: "rvc_spec h = Some i \<Longrightarrow> wf_instr i"
  by (auto simp: rvc_spec_def Let_def rvc_q0_wf rvc_q1_wf rvc_q2_wf split: if_splits)

text \<open>C9: The RV32C expander is the ISA's table: a halfword is accepted exactly when the C extension
  has it, and the word it expands to decodes to the instruction it abbreviates.\<close>

theorem expand_decodes:
  "map_option decode (accepted (expand h)) = map_option Inr (rvc_spec h)"
  by (cases "rvc_spec h") (simp_all add: expand_spec decode_encode rvc_spec_wf)

end
