(* ===== verification/Image.thy ===== *)
theory Image
  imports Prelude
begin

text \<open>
  The guest memory map (\<open>guest_memory\<close> of \<open>crates/constants\<close>) and the loaded program of
  \<open>crates/loader/src/lib.rs\<close>: segments, slots, \<open>ProgramImage\<close> with \<open>slot_at\<close> and
  \<open>initial_word\<close>, and \<open>validate\<close>, the invariants a decoded image is checked for.
\<close>

unbundle bit_operations_syntax

section \<open>The guest memory map\<close>

definition RAM_ORIGIN :: u32 where "RAM_ORIGIN = 0x00010000"
definition RAM_LENGTH :: u32 where "RAM_LENGTH = 0x7FFF0000"
definition PUBLIC_INPUT_ORIGIN :: u32 where "PUBLIC_INPUT_ORIGIN = 0x00008000"
definition PUBLIC_OUTPUT_ORIGIN :: u32 where "PUBLIC_OUTPUT_ORIGIN = 0x0000C000"
definition PUBLIC_WINDOW_HEIGHT :: u32 where "PUBLIC_WINDOW_HEIGHT = 2 ^ 12"
definition PUBLIC_WINDOW_BYTES :: u32 where "PUBLIC_WINDOW_BYTES = 4 * PUBLIC_WINDOW_HEIGHT"
definition PUBLIC_PAYLOAD_BYTES :: u32 where "PUBLIC_PAYLOAD_BYTES = PUBLIC_WINDOW_BYTES - 4"
definition ADVICE_ORIGIN :: u32 where "ADVICE_ORIGIN = 0x80000000"

lemmas guest_memory_defs = RAM_ORIGIN_def RAM_LENGTH_def PUBLIC_INPUT_ORIGIN_def
  PUBLIC_OUTPUT_ORIGIN_def PUBLIC_WINDOW_HEIGHT_def PUBLIC_WINDOW_BYTES_def
  PUBLIC_PAYLOAD_BYTES_def ADVICE_ORIGIN_def

section \<open>The image\<close>

record segment =
  seg_vaddr :: u32
  seg_mem_len :: u32
  seg_bytes :: "u8 list"

datatype slot =
    Instruction (slot_word: u32) (slot_compressed: bool)
  | MidInstruction
  | NonInstruction

record program_image =
  image_entry :: u32
  image_segments :: "segment list"
  image_slot_base :: u32
  image_slots :: "slot list"

definition slot_at :: "program_image \<Rightarrow> u32 \<Rightarrow> slot option" where
  "slot_at im pc =
     (if unat pc mod 2 \<noteq> 0 \<or> pc < image_slot_base im then None
      else
        (let i = unat (pc - image_slot_base im) div 2 in
         if i < length (image_slots im) then Some (image_slots im ! i) else None))"

text \<open>
  \<open>initial_word\<close>: each of the four bytes is the file byte of the first segment that has one there,
  else 0. Addresses are summed in \<open>u64\<close>, so they are naturals here.
\<close>

fun image_byte :: "segment list \<Rightarrow> nat \<Rightarrow> u8" where
  "image_byte [] at = 0"
| "image_byte (s # ss) at =
     (if unat (seg_vaddr s) \<le> at \<and> at < unat (seg_vaddr s) + length (seg_bytes s)
      then seg_bytes s ! (at - unat (seg_vaddr s)) else image_byte ss at)"

definition initial_word :: "program_image \<Rightarrow> u32 \<Rightarrow> u32" where
  "initial_word im addr =
     foldl (\<lambda>word i. word OR shl (ucast (image_byte (image_segments im) (unat addr + i))) (8 * i))
       0 [0, 1, 2, 3]"

section \<open>Validation\<close>

text \<open>The two loops of \<open>validate\<close>: over the segments, each against the one below it, and over the slots.\<close>

fun validate_segments :: "segment option \<Rightarrow> segment list \<Rightarrow> string + unit" where
  "validate_segments below [] = Inr ()"
| "validate_segments below (s # ss) =
     (let ram_lo = unat RAM_ORIGIN; ram_hi = ram_lo + unat RAM_LENGTH in
      if unat (seg_vaddr s) mod 2 \<noteq> 0 then Inl ''malformed program image: a segment address is odd''
      else if length (seg_bytes s) > unat (seg_mem_len s) then
        Inl ''malformed program image: a segment has more file bytes than memory''
      else if unat (seg_vaddr s) < ram_lo \<or> unat (seg_vaddr s) + unat (seg_mem_len s) > ram_hi then
        Inl ''malformed program image: a segment leaves the guest RAM window''
      else if (case below of None \<Rightarrow> False
               | Some b \<Rightarrow> unat (seg_vaddr b) + unat (seg_mem_len b) > unat (seg_vaddr s)) then
        Inl ''malformed program image: segments are unsorted or overlap''
      else validate_segments (Some s) ss)"

definition is_wide :: "slot list \<Rightarrow> nat \<Rightarrow> bool" where
  "is_wide slots i \<longleftrightarrow> i < length slots \<and>
     (case slots ! i of Instruction _ compressed \<Rightarrow> \<not> compressed | _ \<Rightarrow> False)"

fun validate_slots :: "slot list \<Rightarrow> nat list \<Rightarrow> string + unit" where
  "validate_slots slots [] = Inr ()"
| "validate_slots slots (i # is) =
     (if is_wide slots i \<and> \<not> (i + 1 < length slots \<and> slots ! (i + 1) = MidInstruction) then
        Inl ''malformed program image: a 32-bit instruction with no second halfword''
      else if slots ! i = MidInstruction \<and> (i = 0 \<or> \<not> is_wide slots (i - 1)) then
        Inl ''malformed program image: a mid-instruction slot follows nothing''
      else validate_slots slots is)"

definition is_instruction :: "slot option \<Rightarrow> bool" where
  "is_instruction s = (case s of Some (Instruction _ _) \<Rightarrow> True | _ \<Rightarrow> False)"

definition validate :: "program_image \<Rightarrow> string + unit" where
  "validate im =
     (if unat (image_slot_base im) mod 2 \<noteq> 0 then Inl ''malformed program image: slot_base is odd''
      else if image_segments im = [] then Inl ''malformed program image: no segments''
      else bind_res (validate_segments None (image_segments im)) (\<lambda>_.
        if image_slot_base im \<noteq> seg_vaddr (hd (image_segments im)) then
          Inl ''malformed program image: slot_base is not the lowest loaded address''
        else if unat (image_slot_base im) + 2 * length (image_slots im)
                  > unat RAM_ORIGIN + unat RAM_LENGTH then
          Inl ''malformed program image: the slot vector leaves the guest RAM window''
        else bind_res (validate_slots (image_slots im) [0..<length (image_slots im)]) (\<lambda>_.
          if is_instruction (slot_at im (image_entry im)) then Inr ()
          else Inl ''malformed program image: the entry is not the address of an instruction'')))"

end
