(* ===== verification/Loader.thy ===== *)
theory Loader
  imports Image Rvc
begin

text \<open>
  \<open>load_elf\<close> of \<open>crates/loader/src/lib.rs\<close>: the ELF header, the program headers, the sweep of
  every executable segment, and the assembly of the image. Offsets are \<open>usize\<close> or \<open>u64\<close> in the
  code and bounded far below \<open>2 ^ 64\<close>, so they are naturals; every index, slice and subtraction
  that could panic is checked where the code would.
\<close>

unbundle bit_operations_syntax

datatype loader_error =
    NotAnElf string
  | Truncated string nat nat
  | RelocatableElf
  | DynamicElf string
  | NotRiscV u16
  | UnsupportedElfType u16
  | BadSegment u32 string
  | NoExecutableSegment
  | EntryNotAnInstruction u32
  | RvcIllegal u32 u16 string
  | InstructionTooLong u32 u16
  | TextTruncated u32

type_synonym 'a loading = "loader_error fault + 'a"

section \<open>ELF constants\<close>

definition ELF_MAGIC :: "u8 list" where "ELF_MAGIC = [0x7f, 0x45, 0x4c, 0x46]"
definition ELFCLASS32 :: u8 where "ELFCLASS32 = 1"
definition ELFDATA2LSB :: u8 where "ELFDATA2LSB = 1"
definition EV_CURRENT :: u8 where "EV_CURRENT = 1"
definition ET_REL :: u16 where "ET_REL = 1"
definition ET_EXEC :: u16 where "ET_EXEC = 2"
definition ET_DYN :: u16 where "ET_DYN = 3"
definition EM_RISCV :: u16 where "EM_RISCV = 243"
definition PT_LOAD :: u32 where "PT_LOAD = 1"
definition PT_DYNAMIC :: u32 where "PT_DYNAMIC = 2"
definition PT_INTERP :: u32 where "PT_INTERP = 3"
definition PF_X :: u32 where "PF_X = 1"
definition EHDR_LEN :: nat where "EHDR_LEN = 52"
definition PHDR_LEN :: nat where "PHDR_LEN = 32"

lemmas elf_constants = ELF_MAGIC_def ELFCLASS32_def ELFDATA2LSB_def EV_CURRENT_def ET_REL_def
  ET_EXEC_def ET_DYN_def EM_RISCV_def PT_LOAD_def PT_DYNAMIC_def PT_INTERP_def PF_X_def
  EHDR_LEN_def PHDR_LEN_def

text \<open>\<open>usize::checked_add\<close> on a 64-bit host.\<close>

definition checked_add :: "nat \<Rightarrow> nat \<Rightarrow> nat option" where
  "checked_add x y = (if x + y < 2 ^ 64 then Some (x + y) else None)"

section \<open>The header\<close>

definition parse_header :: "u8 list \<Rightarrow> (u32 \<times> nat \<times> nat \<times> nat) loading" where
  "parse_header bytes =
     (if length bytes < EHDR_LEN then refuse (Truncated ''ELF header'' EHDR_LEN (length bytes))
      else bind_res (slice bytes 0 4) (\<lambda>magic.
      if magic \<noteq> ELF_MAGIC then refuse (NotAnElf ''bad ELF magic'')
      else bind_res (idx bytes 4) (\<lambda>cls.
      if cls \<noteq> ELFCLASS32 then refuse (NotAnElf ''not ELFCLASS32: this VM is 32-bit'')
      else bind_res (idx bytes 5) (\<lambda>dat.
      if dat \<noteq> ELFDATA2LSB then refuse (NotAnElf ''not ELFDATA2LSB: RISC-V is little-endian here'')
      else bind_res (idx bytes 6) (\<lambda>ver.
      if ver \<noteq> EV_CURRENT then refuse (NotAnElf ''e_ident version is not EV_CURRENT'')
      else bind_res (u16le bytes 16) (\<lambda>e_type.
      if e_type = ET_REL then refuse RelocatableElf
      else if e_type = ET_DYN then
        refuse (DynamicElf ''e_type is ET_DYN: a shared object or PIE, not a static executable'')
      else if e_type \<noteq> ET_EXEC then refuse (UnsupportedElfType e_type)
      else bind_res (u16le bytes 18) (\<lambda>machine.
      if machine \<noteq> EM_RISCV then refuse (NotRiscV machine)
      else bind_res (u32le bytes 20) (\<lambda>e_version.
      if e_version \<noteq> 1 then refuse (NotAnElf ''e_version is not 1'')
      else bind_res (u32le bytes 24) (\<lambda>entry.
      bind_res (u32le bytes 28) (\<lambda>phoff.
      bind_res (u16le bytes 42) (\<lambda>phentsize.
      bind_res (u16le bytes 44) (\<lambda>phnum.
      if unat phentsize \<noteq> PHDR_LEN then
        refuse (NotAnElf ''e_phentsize is not 32: not a 32-bit program header table'')
      else if phnum = 0 then refuse (NotAnElf ''e_phnum is 0: no program headers, so nothing to load'')
      else Inr (entry, unat phoff, unat phentsize, unat phnum)))))))))))))"

section \<open>The program headers\<close>

text \<open>One turn of the loop of \<open>read_segments\<close>, at header offset \<open>p\<close>: \<open>None\<close> is \<open>continue\<close>.\<close>

definition read_segment :: "u8 list \<Rightarrow> nat \<Rightarrow> (segment \<times> bool) option loading" where
  "read_segment bytes p =
     bind_res (u32le bytes p) (\<lambda>p_type.
      if p_type = PT_DYNAMIC then
        refuse (DynamicElf ''a PT_DYNAMIC segment: this program expects a dynamic linker'')
      else if p_type = PT_INTERP then
        refuse (DynamicElf ''a PT_INTERP segment: this program names an interpreter'')
      else if p_type \<noteq> PT_LOAD then Inr None
      else bind_res (u32le bytes (p + 4)) (\<lambda>p_offset.
      bind_res (u32le bytes (p + 8)) (\<lambda>vaddr.
      bind_res (u32le bytes (p + 16)) (\<lambda>filesz.
      bind_res (u32le bytes (p + 20)) (\<lambda>memsz.
      bind_res (u32le bytes (p + 24)) (\<lambda>flags.
      if unat vaddr mod 2 \<noteq> 0 then
        refuse (BadSegment vaddr ''an odd segment address cannot hold an instruction stream'')
      else if filesz > memsz then refuse (BadSegment vaddr ''p_filesz above p_memsz'')
      else
        let ram_lo = unat RAM_ORIGIN; ram_hi = ram_lo + unat RAM_LENGTH in
        if unat vaddr < ram_lo \<or> unat vaddr + unat memsz > ram_hi then
          refuse (BadSegment vaddr ''segment lies outside the guest RAM window'')
        else (case checked_add (unat p_offset) (unat filesz) of
          None \<Rightarrow> refuse (BadSegment vaddr ''p_offset + p_filesz overflows'')
        | Some file_end \<Rightarrow>
            if file_end > length bytes then
              refuse (Truncated ''segment contents'' file_end (length bytes))
            else bind_res (slice bytes (unat p_offset) file_end) (\<lambda>contents.
              Inr (Some (\<lparr>seg_vaddr = vaddr, seg_mem_len = memsz, seg_bytes = contents\<rparr>,
                         flags AND PF_X \<noteq> 0))))))))))"

fun read_each :: "u8 list \<Rightarrow> nat list \<Rightarrow> (segment \<times> bool) list loading" where
  "read_each bytes [] = Inr []"
| "read_each bytes (p # ps) =
     bind_res (read_segment bytes p) (\<lambda>s.
     bind_res (read_each bytes ps) (\<lambda>rest.
       Inr (case s of None \<Rightarrow> rest | Some x \<Rightarrow> x # rest)))"

definition read_segments :: "u8 list \<Rightarrow> nat \<Rightarrow> nat \<Rightarrow> nat \<Rightarrow> (segment \<times> bool) list loading" where
  "read_segments bytes phoff phentsize phnum =
     (case checked_add phoff (phentsize * phnum) of
        None \<Rightarrow> refuse (NotAnElf ''program header table offset overflows'')
      | Some table_end \<Rightarrow>
          if table_end > length bytes then
            refuse (Truncated ''program header table'' table_end (length bytes))
          else read_each bytes (map (\<lambda>i. phoff + i * phentsize) [0..<phnum]))"

section \<open>The sweep\<close>

text \<open>One executable segment, from byte offset \<open>pc - seg_vaddr\<close> on; \<open>pc\<close> is an absolute address.\<close>

function sweep_from :: "segment \<Rightarrow> nat \<Rightarrow> nat \<Rightarrow> slot list \<Rightarrow> slot list loading" where
  "sweep_from s slot_base pc slots =
     (let end = unat (seg_vaddr s) + length (seg_bytes s) in
      if pc + 2 \<le> end then
        bind_res (ensure (unat (seg_vaddr s) \<le> pc \<and> slot_base \<le> pc)) (\<lambda>_.
        let off = pc - unat (seg_vaddr s); index = (pc - slot_base) div 2 in
        bind_res (u16le (seg_bytes s) off) (\<lambda>half.
        if half AND 0b11 = 0b11 then
          (if half AND 0b11100 = 0b11100 then refuse (InstructionTooLong (of_nat pc) half)
           else if pc + 4 > end then refuse (TextTruncated (of_nat pc))
           else bind_res (u32le (seg_bytes s) off) (\<lambda>word.
             bind_res (set_at slots index (Instruction word False)) (\<lambda>slots.
             bind_res (set_at slots (index + 1) MidInstruction) (\<lambda>slots.
               sweep_from s slot_base (pc + 4) slots))))
        else if half = 0 then
          bind_res (set_at slots index NonInstruction) (\<lambda>slots.
            sweep_from s slot_base (pc + 2) slots)
        else
          (case expand half of
             Inl reason \<Rightarrow> refuse (RvcIllegal (of_nat pc) half reason)
           | Inr word \<Rightarrow>
               bind_res (set_at slots index (Instruction word True)) (\<lambda>slots.
                 sweep_from s slot_base (pc + 2) slots))))
      else Inr slots)"
  by pat_completeness auto
termination
  by (relation "measure (\<lambda>(s, slot_base, pc, slots). unat (seg_vaddr s) + length (seg_bytes s) - pc)")
    auto

declare sweep_from.simps [simp del]

definition sweep :: "segment \<Rightarrow> u32 \<Rightarrow> slot list \<Rightarrow> slot list loading" where
  "sweep s slot_base slots = sweep_from s (unat slot_base) (unat (seg_vaddr s)) slots"

section \<open>load_elf\<close>

fun check_overlap :: "segment list \<Rightarrow> unit loading" where
  "check_overlap (a # b # ss) =
     (if unat (seg_vaddr a) + unat (seg_mem_len a) > unat (seg_vaddr b) then
        refuse (BadSegment (seg_vaddr b) ''overlaps the segment below it'')
      else check_overlap (b # ss))"
| "check_overlap _ = Inr ()"

fun sweep_all :: "(segment \<times> bool) list \<Rightarrow> u32 \<Rightarrow> slot list \<Rightarrow> slot list loading" where
  "sweep_all [] slot_base slots = Inr slots"
| "sweep_all ((s, executable) # ss) slot_base slots =
     (if executable then bind_res (sweep s slot_base slots) (sweep_all ss slot_base)
      else sweep_all ss slot_base slots)"

text \<open>\<open>Iterator::max\<close> of the code ends; the code's \<open>expect\<close> is the panic on the empty list.\<close>

definition code_end :: "(segment \<times> bool) list \<Rightarrow> nat loading" where
  "code_end loaded =
     (case map (\<lambda>(s, _). unat (seg_vaddr s) + unat (seg_mem_len s)) (filter snd loaded) of
        [] \<Rightarrow> panic
      | x # xs \<Rightarrow> Inr (foldl max x xs))"

definition build_image :: "u32 \<Rightarrow> (segment \<times> bool) list \<Rightarrow> program_image loading" where
  "build_image entry loaded =
     bind_res (check_overlap (map fst loaded)) (\<lambda>_.
     bind_res (idx loaded 0) (\<lambda>lowest.
     bind_res (code_end loaded) (\<lambda>code_end.
       let slot_base = seg_vaddr (fst lowest); slot_end = 2 * ((code_end + 1) div 2) in
       bind_res (ensure (unat slot_base \<le> slot_end)) (\<lambda>_.
       bind_res (sweep_all loaded slot_base (replicate ((slot_end - unat slot_base) div 2) NonInstruction)) (\<lambda>slots.
         let image = \<lparr>image_entry = entry, image_segments = map fst loaded,
                      image_slot_base = slot_base, image_slots = slots\<rparr> in
         if is_instruction (slot_at image entry) then Inr image
         else refuse (EntryNotAnInstruction entry))))))"

definition load_elf :: "u8 list \<Rightarrow> program_image loading" where
  "load_elf bytes =
     bind_res (parse_header bytes) (\<lambda>(entry, phoff, phentsize, phnum).
     bind_res (read_segments bytes phoff phentsize phnum) (\<lambda>loaded.
       if \<not> list_ex snd loaded then refuse NoExecutableSegment
       else build_image entry (sort_key (\<lambda>(s, _). seg_vaddr s) loaded)))"

section \<open>Loading never panics\<close>

lemma parse_header_no_panic: "parse_header bytes \<noteq> panic"
  by (auto simp: parse_header_def EHDR_LEN_def bind_res_panic)

lemma read_segment_no_panic: "p + 32 \<le> length bytes \<Longrightarrow> read_segment bytes p \<noteq> panic"
  by (auto simp: read_segment_def bind_res_panic Let_def checked_add_def split: option.splits if_splits)

lemma read_each_no_panic:
  "\<forall>p \<in> set ps. p + 32 \<le> length bytes \<Longrightarrow> read_each bytes ps \<noteq> panic"
  by (induction ps) (auto simp: bind_res_panic read_segment_no_panic)

lemma read_segments_no_panic: "read_segments bytes phoff PHDR_LEN phnum \<noteq> panic"
proof -
  have "phoff + i * PHDR_LEN + 32 \<le> phoff + PHDR_LEN * phnum" if "i < phnum" for i
    using that by (simp add: PHDR_LEN_def)
  then have "read_each bytes (map (\<lambda>i. phoff + i * PHDR_LEN) [0..<phnum]) \<noteq> panic"
    if "phoff + PHDR_LEN * phnum \<le> length bytes"
    using that by (intro read_each_no_panic) fastforce
  then show ?thesis
    by (auto simp: read_segments_def checked_add_def)
qed

text \<open>What every loaded segment satisfies.\<close>

definition segment_ok :: "segment \<Rightarrow> bool" where
  "segment_ok s \<longleftrightarrow> even (unat (seg_vaddr s)) \<and> length (seg_bytes s) \<le> unat (seg_mem_len s)
     \<and> unat RAM_ORIGIN \<le> unat (seg_vaddr s)
     \<and> unat (seg_vaddr s) + unat (seg_mem_len s) \<le> unat RAM_ORIGIN + unat RAM_LENGTH"

lemma read_segment_ok: "read_segment bytes p = Inr (Some (s, x)) \<Longrightarrow> segment_ok s"
  by (auto simp: read_segment_def segment_ok_def Let_def checked_add_def word_less_nat_alt not_less
      even_iff_mod_2_eq_zero split: option.splits if_splits)

lemma read_each_ok: "read_each bytes ps = Inr loaded \<Longrightarrow> \<forall>x \<in> set loaded. segment_ok (fst x)"
  by (induction ps arbitrary: loaded) (auto 0 3 simp: read_segment_ok split: option.splits)

lemma read_segments_ok:
  "read_segments bytes phoff phentsize phnum = Inr loaded \<Longrightarrow> \<forall>x \<in> set loaded. segment_ok (fst x)"
  by (auto simp: read_segments_def checked_add_def read_each_ok split: if_splits)

lemma parse_header_phentsize:
  "parse_header bytes = Inr (entry, phoff, phentsize, phnum) \<Longrightarrow> phentsize = PHDR_LEN"
  by (auto simp: parse_header_def split: if_splits)

section \<open>The sweep\<close>

text \<open>
  \<open>swept mem sb slots n\<close>: the slots below \<open>n\<close> are what the memory \<open>mem\<close> holds there, the others
  are untouched.
\<close>

definition slot_ok :: "(nat \<Rightarrow> u8) \<Rightarrow> nat \<Rightarrow> slot list \<Rightarrow> nat \<Rightarrow> bool" where
  "slot_ok mem sb slots j \<longleftrightarrow> (case slots ! j of
      Instruction w True \<Rightarrow> expand (le16 (mem (sb + 2 * j)) (mem (sb + 2 * j + 1))) = Inr w
    | Instruction w False \<Rightarrow> j + 1 < length slots \<and> slots ! (j + 1) = MidInstruction \<and>
        w = le32 (mem (sb + 2 * j)) (mem (sb + 2 * j + 1)) (mem (sb + 2 * j + 2)) (mem (sb + 2 * j + 3)) \<and>
        w AND 3 = 3
    | MidInstruction \<Rightarrow> 0 < j \<and> is_wide slots (j - 1)
    | NonInstruction \<Rightarrow> True)"

definition swept :: "(nat \<Rightarrow> u8) \<Rightarrow> nat \<Rightarrow> slot list \<Rightarrow> nat \<Rightarrow> bool" where
  "swept mem sb slots n \<longleftrightarrow>
     (\<forall>j < length slots. n \<le> j \<longrightarrow> slots ! j = NonInstruction) \<and>
     (\<forall>j < length slots. slot_ok mem sb slots j)"

lemma swept_mono: "swept mem sb slots n \<Longrightarrow> n \<le> m \<Longrightarrow> swept mem sb slots m"
  by (auto simp: swept_def)

lemma swept_fresh: "swept mem sb (replicate k NonInstruction) n"
  by (auto simp: swept_def slot_ok_def)

lemma slot_ok_prefix:
  assumes "slot_ok mem sb slots j" "j < n" "n < length slots" "slots ! n = NonInstruction"
    "length slots' = length slots" "\<And>i. i < n \<Longrightarrow> slots' ! i = slots ! i"
  shows "slot_ok mem sb slots' j"
proof -
  have "slots ! (j + 1) = MidInstruction \<Longrightarrow> j + 1 < n"
    using assms(2,4) by (cases "j + 1 = n") auto
  moreover have "is_wide slots (j - 1) \<Longrightarrow> is_wide slots' (j - 1)"
    using assms by (auto simp: is_wide_def)
  ultimately show ?thesis
    using assms by (auto simp: slot_ok_def split: slot.splits bool.splits)
qed

lemma swept_single:
  assumes "swept mem sb slots n" "n < length slots"
    and "v = NonInstruction \<or>
      (\<exists>w. v = Instruction w True \<and> expand (le16 (mem (sb + 2 * n)) (mem (sb + 2 * n + 1))) = Inr w)"
  shows "swept mem sb (slots[n := v]) (Suc n)"
  unfolding swept_def
proof (intro conjI allI impI)
  fix j assume j: "j < length (slots[n := v])"
  show "slot_ok mem sb (slots[n := v]) j"
  proof (cases j n rule: linorder_cases)
    case less
    then have "slot_ok mem sb slots j" "slots ! n = NonInstruction"
      using assms(1,2) by (simp_all add: swept_def)
    then show ?thesis
      using less assms(2) by (rule_tac slot_ok_prefix [of mem sb slots j n]) simp_all
  next
    case equal
    then show ?thesis
      using assms by (auto simp: slot_ok_def)
  next
    case greater
    then have "slots ! j = NonInstruction"
      using assms(1) j by (simp add: swept_def)
    then show ?thesis
      using greater by (simp add: slot_ok_def)
  qed
qed (use assms in \<open>auto simp: swept_def\<close>)

lemma swept_wide:
  assumes "swept mem sb slots n" "Suc n < length slots"
    and "w = le32 (mem (sb + 2 * n)) (mem (sb + 2 * n + 1)) (mem (sb + 2 * n + 2)) (mem (sb + 2 * n + 3))"
    and "w AND 3 = 3"
  shows "swept mem sb (slots[n := Instruction w False, Suc n := MidInstruction]) (n + 2)"
    (is "swept mem sb ?new (n + 2)")
  unfolding swept_def
proof (intro conjI allI impI)
  fix j assume j: "j < length ?new"
  consider "j < n" | "j = n" | "j = Suc n" | "n + 2 \<le> j"
    by linarith
  then show "slot_ok mem sb ?new j"
  proof cases
    case 1
    then have "slot_ok mem sb slots j" "slots ! n = NonInstruction"
      using assms(1,2) by (simp_all add: swept_def)
    then show ?thesis
      using 1 assms(2) by (rule_tac slot_ok_prefix [of mem sb slots j n]) simp_all
  next
    case 2
    then show ?thesis
      using assms(2-4) by (simp add: slot_ok_def)
  next
    case 3
    then show ?thesis
      using assms(2) by (simp add: slot_ok_def is_wide_def)
  next
    case 4
    then have "slots ! j = NonInstruction"
      using assms(1) j by (simp add: swept_def)
    then show ?thesis
      using 4 by (simp add: slot_ok_def)
  qed
qed (use assms in \<open>auto simp: swept_def nth_list_update\<close>)

lemma le32_low: "le32 a b c d AND 3 = 3 \<longleftrightarrow> le16 a b AND 3 = 3"
proof -
  have 32: "(w::u32) AND 3 = 3 \<longleftrightarrow> bit w 0 \<and> bit w 1" for w
    using word_eq_bits [of "w AND 3" 3] by (simp add: upt_0_32 bit_simps)
  have 16: "(w::u16) AND 3 = 3 \<longleftrightarrow> bit w 0 \<and> bit w 1" for w
    using word_eq_bits [of "w AND 3" 3] by (simp add: upt_rec bit_simps)
  show ?thesis
    by (simp add: 16 32 le16_def le32_def bit_simps)
qed

text \<open>Sweeping a segment whose bytes are in memory keeps the invariant and the length.\<close>

lemma sweep_from_swept:
  assumes "sb \<le> pc" "unat (seg_vaddr s) \<le> pc" "even sb" "even pc" "even (unat (seg_vaddr s))"
    and "\<And>k. k < length (seg_bytes s) \<Longrightarrow> mem (unat (seg_vaddr s) + k) = seg_bytes s ! k"
    and "unat (seg_vaddr s) + length (seg_bytes s) \<le> Suc (sb + 2 * length slots)"
    and "pc \<le> unat (seg_vaddr s) + length (seg_bytes s)"
    and "swept mem sb slots ((pc - sb) div 2)"
  shows "sweep_from s sb pc slots \<noteq> panic \<and>
    (\<forall>slots'. sweep_from s sb pc slots = Inr slots' \<longrightarrow> length slots' = length slots \<and>
       swept mem sb slots' ((unat (seg_vaddr s) + length (seg_bytes s) - sb) div 2))"
  using assms
proof (induction "unat (seg_vaddr s) + length (seg_bytes s) - pc" arbitrary: pc slots rule: less_induct)
  case less
  let ?v = "unat (seg_vaddr s)" and ?b = "seg_bytes s"
  let ?n = "(pc - sb) div 2"
  show ?case
  proof (cases "pc + 2 \<le> ?v + length ?b")
    case False
    then have "sweep_from s sb pc slots = Inr slots"
      by (subst sweep_from.simps) (simp add: Let_def)
    moreover have "swept mem sb slots ((?v + length ?b - sb) div 2)"
      using less.prems(8,9) by (auto elim!: swept_mono intro!: div_le_mono diff_le_mono)
    ultimately show ?thesis
      by simp
  next
    case True
    have n: "?n < length slots" "sb + 2 * ?n = pc"
      using less.prems True by (auto elim!: evenE)
    have step: "(pc + 2 - sb) div 2 = Suc ?n" "(pc + 4 - sb) div 2 = Suc (Suc ?n)"
      using less.prems(1) by simp_all
    have dec: "?v + length ?b - (pc + 2) < ?v + length ?b - pc" "?v + length ?b - (pc + 4) < ?v + length ?b - pc"
      using True by linarith+
    have off: "pc - ?v + 1 < length ?b" "?v + (pc - ?v) = pc"
      using less.prems(2) True by auto
    have mem: "mem (pc + k) = ?b ! (pc - ?v + k)" if "pc - ?v + k < length ?b" for k
      using less.prems(6) [OF that] off(2) by (simp add: add.assoc)
    have half: "le16 (?b ! (pc - ?v)) (?b ! (pc - ?v + 1)) = le16 (mem pc) (mem (pc + 1))"
      using off mem [of 0] mem [of 1] by simp
    have word: "le32 (?b ! (pc - ?v)) (?b ! (pc - ?v + 1)) (?b ! (pc - ?v + 2)) (?b ! (pc - ?v + 3))
        = le32 (mem pc) (mem (pc + 1)) (mem (pc + 2)) (mem (pc + 3))" if "pc + 4 \<le> ?v + length ?b"
      using off mem [of 0] mem [of 1] mem [of 2] mem [of 3] that less.prems(2) by simp
    let ?h = "le16 (mem pc) (mem (pc + 1))"
    have next1: "sweep_from s sb (pc + 2) (slots[?n := v]) \<noteq> panic \<and>
        (\<forall>slots'. sweep_from s sb (pc + 2) (slots[?n := v]) = Inr slots' \<longrightarrow>
          length slots' = length slots \<and> swept mem sb slots' ((?v + length ?b - sb) div 2))"
      if "v = NonInstruction \<or> (\<exists>w. v = Instruction w True \<and> expand ?h = Inr w)" for v
      using less.hyps [OF dec(1), of "slots[?n := v]"] less.prems True n that
        swept_single [OF less.prems(9) n(1), of v] step
      by simp
    have at_pc: "ensure (?v \<le> pc \<and> sb \<le> pc) = Inr ()" "u16le ?b (pc - ?v) = Inr ?h"
      "pc + 4 \<le> ?v + length ?b \<Longrightarrow>
        u32le ?b (pc - ?v) = Inr (le32 (mem pc) (mem (pc + 1)) (mem (pc + 2)) (mem (pc + 3)))"
      using less.prems(1,2) off half word by (simp_all add: ensure_def)
    have set_n: "set_at slots ?n v = Inr (slots[?n := v])" for v
      using n by simp
    show ?thesis
    proof (cases "?h AND 3 = 3")
      case wide: True
      let ?w = "le32 (mem pc) (mem (pc + 1)) (mem (pc + 2)) (mem (pc + 3))"
      let ?long = "?h AND 0b11100 = 0b11100" and ?cut = "pc + 4 > ?v + length ?b"
      have eq: "sweep_from s sb pc slots =
          (if ?h AND 0b11100 = 0b11100 then refuse (InstructionTooLong (of_nat pc) ?h)
           else if pc + 4 > ?v + length ?b then refuse (TextTruncated (of_nat pc))
           else sweep_from s sb (pc + 4) (slots[?n := Instruction ?w False, Suc ?n := MidInstruction]))"
       
      proof (cases "?long \<or> ?cut")
        case True
        then show ?thesis
          using \<open>pc + 2 \<le> ?v + length ?b\<close> wide
          by (subst sweep_from.simps) (auto simp: Let_def at_pc)
      next
        case False
        then have "Suc ?n < length slots"
          using less.prems(7) n by simp
        then show ?thesis
          using \<open>pc + 2 \<le> ?v + length ?b\<close> wide False
          by (subst sweep_from.simps) (simp add: Let_def at_pc set_n set_at_def)
      qed
      show ?thesis
      proof (cases "?long \<or> ?cut")
        case False
        then have "Suc ?n < length slots"
          using less.prems(7) n by simp
        then have "swept mem sb (slots[?n := Instruction ?w False, Suc ?n := MidInstruction]) (?n + 2)"
          using less.prems(9) wide n(2) by (intro swept_wide) (simp_all add: le32_low)
        then show ?thesis
          using less.hyps [OF dec(2), of "slots[?n := Instruction ?w False, Suc ?n := MidInstruction]"]
            less.prems False eq step n(2) by simp
      qed (auto simp: eq)
    next
      case False
      show ?thesis
      proof (cases "?h = 0")
        case True
        then have "sweep_from s sb pc slots = sweep_from s sb (pc + 2) (slots[?n := NonInstruction])"
          using \<open>pc + 2 \<le> ?v + length ?b\<close> False
          by (subst sweep_from.simps) (simp add: Let_def at_pc set_n)
        then show ?thesis
          using next1 [of NonInstruction] by simp
      next
        case nz: False
        then have "sweep_from s sb pc slots = (case expand ?h of
            Inl reason \<Rightarrow> refuse (RvcIllegal (of_nat pc) ?h reason)
          | Inr w \<Rightarrow> sweep_from s sb (pc + 2) (slots[?n := Instruction w True]))"
          using \<open>pc + 2 \<le> ?v + length ?b\<close> False
          by (subst sweep_from.simps) (simp add: Let_def at_pc set_n split: sum.split)
        then show ?thesis
          using next1 by (cases "expand ?h") auto
      qed
    qed
  qed
qed

section \<open>The whole image\<close>

abbreviation seg_end :: "segment \<Rightarrow> nat" where
  "seg_end s \<equiv> unat (seg_vaddr s) + unat (seg_mem_len s)"

lemma check_overlap_no_panic: "check_overlap ss \<noteq> panic"
  by (induction ss rule: check_overlap.induct) (auto simp: panic_def)

lemma check_overlap_Cons:
  "check_overlap (a # ss) = Inr () \<Longrightarrow> check_overlap ss = Inr () \<and> (\<forall>b \<in> set ss. seg_end a \<le> unat (seg_vaddr b))"
proof (induction ss arbitrary: a)
  case (Cons b ss)
  then have "seg_end a \<le> unat (seg_vaddr b)" "check_overlap (b # ss) = Inr ()"
    by (auto split: if_splits)
  with Cons.IH [of b] show ?case
    by fastforce
qed simp

lemma image_byte_here:
  assumes "check_overlap ss = Inr ()" "\<forall>s \<in> set ss. segment_ok s" "s \<in> set ss" "k < length (seg_bytes s)"
  shows "image_byte ss (unat (seg_vaddr s) + k) = seg_bytes s ! k"
  using assms
proof (induction ss)
  case (Cons a ss)
  show ?case
  proof (cases "s = a")
    case False
    then have "seg_end a \<le> unat (seg_vaddr s)" "length (seg_bytes a) \<le> unat (seg_mem_len a)"
      using Cons.prems check_overlap_Cons [of a ss] by (auto simp: segment_ok_def)
    then have "image_byte (a # ss) (unat (seg_vaddr s) + k) = image_byte ss (unat (seg_vaddr s) + k)"
      by simp
    also have "\<dots> = seg_bytes s ! k"
      using Cons False check_overlap_Cons [of a ss] by simp
    finally show ?thesis .
  qed (use Cons.prems in simp)
qed simp

lemma sweep_all_swept:
  assumes "check_overlap (map fst ss) = Inr ()" "\<forall>x \<in> set ss. segment_ok (fst x)" "even (unat sb)"
    and "\<forall>x \<in> set ss. unat sb \<le> unat (seg_vaddr (fst x))"
    and "\<forall>x \<in> set ss. \<forall>k < length (seg_bytes (fst x)). mem (unat (seg_vaddr (fst x)) + k) = seg_bytes (fst x) ! k"
    and "\<forall>x \<in> set ss. snd x \<longrightarrow> seg_end (fst x) \<le> Suc (unat sb + 2 * length slots)"
    and "\<forall>x \<in> set ss. n \<le> (unat (seg_vaddr (fst x)) - unat sb) div 2"
    and "swept mem (unat sb) slots n"
  shows "sweep_all ss sb slots \<noteq> panic \<and>
    (\<forall>slots'. sweep_all ss sb slots = Inr slots' \<longrightarrow> length slots' = length slots \<and>
       (\<exists>m. swept mem (unat sb) slots' m))"
  using assms
proof (induction ss arbitrary: slots n)
  case (Cons x ss)
  obtain s e where x: "x = (s, e)" by fastforce
  have tail: "check_overlap (map fst ss) = Inr ()" "\<forall>y \<in> set ss. seg_end s \<le> unat (seg_vaddr (fst y))"
    using Cons.prems(1) check_overlap_Cons [of s "map fst ss"] by (auto simp: x)
  have ok: "segment_ok s" "unat sb \<le> unat (seg_vaddr s)"
    using Cons.prems(2,4) by (auto simp: x)
  show ?case
  proof (cases e)
    case False
    then show ?thesis
      using Cons.IH [of slots n] Cons.prems tail by (simp add: x)
  next
    case True
    have "swept mem (unat sb) slots ((unat (seg_vaddr s) - unat sb) div 2)"
      using Cons.prems(7,8) by (auto simp: x elim: swept_mono)
    then have swept1: "sweep s sb slots \<noteq> panic \<and> (\<forall>slots'. sweep s sb slots = Inr slots' \<longrightarrow>
        length slots' = length slots \<and>
        swept mem (unat sb) slots' ((unat (seg_vaddr s) + length (seg_bytes s) - unat sb) div 2))"
      unfolding sweep_def using ok Cons.prems(3,5,6) True
      by (intro sweep_from_swept) (auto simp: x segment_ok_def)
    show ?thesis
    proof (cases "sweep s sb slots")
      case (Inl a)
      then show ?thesis
        using swept1 True by (auto simp: x panic_def)
    next
      case (Inr slots1)
      have "(unat (seg_vaddr s) + length (seg_bytes s) - unat sb) div 2 \<le> (unat (seg_vaddr (fst y)) - unat sb) div 2"
        if "y \<in> set ss" for y
        using tail(2) that ok(1) by (intro div_le_mono diff_le_mono) (auto simp: segment_ok_def)
      then show ?thesis
        using Cons.IH [of slots1 "(unat (seg_vaddr s) + length (seg_bytes s) - unat sb) div 2"]
          Cons.prems tail swept1 Inr True by (simp add: x)
    qed
  qed
qed auto

lemma foldl_max: "foldl max (x::nat) xs = Max (insert x (set xs))"
proof (induction xs arbitrary: x)
  case (Cons a xs)
  then show ?case
    by (cases "xs = []") (simp_all add: max.assoc insert_commute max.commute)
qed simp

lemma code_end_Inr:
  assumes "code_end loaded = Inr e"
  shows "(\<exists>x \<in> set loaded. snd x \<and> e = seg_end (fst x)) \<and> (\<forall>x \<in> set loaded. snd x \<longrightarrow> seg_end (fst x) \<le> e)"
proof -
  let ?ends = "map (\<lambda>(s, _). seg_end s) (filter snd loaded)"
  obtain y ys where ys: "?ends = y # ys" "e = Max (set ?ends)"
    using assms by (auto simp: code_end_def foldl_max split: list.splits)
  have "e \<in> set ?ends"
    unfolding ys(2) by (rule Max_in) (simp_all add: ys(1) del: set_map)
  moreover have "\<forall>z \<in> set ?ends. z \<le> e"
    unfolding ys(2) by simp
  ultimately show ?thesis
    by fastforce
qed

text \<open>Everything \<open>load_elf\<close> establishes, in the form the properties below use.\<close>

definition image_ok :: "program_image \<Rightarrow> bool" where
  "image_ok im \<longleftrightarrow>
     image_segments im \<noteq> [] \<and> (\<forall>s \<in> set (image_segments im). segment_ok s) \<and>
     check_overlap (image_segments im) = Inr () \<and>
     image_slot_base im = seg_vaddr (hd (image_segments im)) \<and>
     unat (image_slot_base im) + 2 * length (image_slots im) \<le> unat RAM_ORIGIN + unat RAM_LENGTH \<and>
     (\<exists>n. swept (image_byte (image_segments im)) (unat (image_slot_base im)) (image_slots im) n) \<and>
     is_instruction (slot_at im (image_entry im))"

lemma build_image_ok:
  assumes "\<forall>x \<in> set loaded. segment_ok (fst x)" "list_ex snd loaded"
    "sorted (map (\<lambda>x. seg_vaddr (fst x)) loaded)"
  shows "build_image entry loaded \<noteq> panic \<and> (\<forall>im. build_image entry loaded = Inr im \<longrightarrow> image_ok im)"
proof (cases "check_overlap (map fst loaded)")
  case (Inl e)
  then show ?thesis
    using check_overlap_no_panic [of "map fst loaded"] by (auto simp: build_image_def panic_def)
next
  case (Inr u)
  obtain x xs where loaded: "loaded = x # xs"
    using assms(2) by (cases loaded) auto
  have "filter snd loaded \<noteq> []"
    using assms(2) by (auto simp: list_ex_iff filter_empty_conv)
  then obtain ce where ce: "code_end loaded = Inr ce"
    by (cases "filter snd loaded") (simp_all add: code_end_def)
  let ?sb = "seg_vaddr (fst x)" and ?se = "2 * ((ce + 1) div 2)"
  let ?slots = "replicate ((?se - unat ?sb) div 2) NonInstruction"
  have low: "\<forall>y \<in> set loaded. unat ?sb \<le> unat (seg_vaddr (fst y))"
    using assms(3) by (auto simp: loaded word_le_nat_alt)
  have ev: "even (unat ?sb)"
    using assms(1) by (simp add: loaded segment_ok_def)
  have top: "unat ?sb \<le> ce" "ce \<le> unat RAM_ORIGIN + unat RAM_LENGTH" "ce \<le> ?se"
    using code_end_Inr [OF ce] low assms(1) by (fastforce simp: segment_ok_def)+
  then have se: "?se \<le> unat RAM_ORIGIN + unat RAM_LENGTH"
    by (simp add: guest_memory_defs)
  have len: "unat ?sb + 2 * length ?slots = ?se"
    using ev top by simp
  have "fst y \<in> set (map fst loaded)" if "y \<in> set loaded" for y
    using that by simp
  then have mem: "\<forall>y \<in> set loaded. \<forall>k < length (seg_bytes (fst y)).
      image_byte (map fst loaded) (unat (seg_vaddr (fst y)) + k) = seg_bytes (fst y) ! k"
    using Inr assms(1) image_byte_here [of "map fst loaded"] by simp
  have "\<forall>y \<in> set loaded. snd y \<longrightarrow> seg_end (fst y) \<le> Suc (unat ?sb + 2 * length ?slots)"
    using code_end_Inr [OF ce] top(3) unfolding len by fastforce
  then have swept: "sweep_all loaded ?sb ?slots \<noteq> panic \<and>
    (\<forall>slots'. sweep_all loaded ?sb ?slots = Inr slots' \<longrightarrow> length slots' = length ?slots \<and>
       (\<exists>m. swept (image_byte (map fst loaded)) (unat ?sb) slots' m))"
    using Inr assms(1) ev low mem by (intro sweep_all_swept [where n = 0]) (simp_all add: swept_fresh)
  let ?im = "\<lambda>slots. \<lparr>image_entry = entry, image_segments = map fst loaded,
    image_slot_base = ?sb, image_slots = slots\<rparr>"
  have eq: "build_image entry loaded = bind_res (sweep_all loaded ?sb ?slots) (\<lambda>slots.
      if is_instruction (slot_at (?im slots) entry) then Inr (?im slots)
      else refuse (EntryNotAnInstruction entry))"
    using Inr ce order_trans [OF top(1,3)] 
    by (simp add: build_image_def loaded Let_def idx_def ensure_def cong: if_cong)
  have "image_ok (?im slots)"
    if "length slots = length ?slots" "\<exists>m. swept (image_byte (map fst loaded)) (unat ?sb) slots m"
      "is_instruction (slot_at (?im slots) entry)" for slots
    using that assms(1) Inr len se by (simp add: image_ok_def loaded)
  then show ?thesis
    using swept unfolding eq by (cases "sweep_all loaded ?sb ?slots") (simp_all add: panic_def)
qed

lemma load_elf_ok: "load_elf bytes \<noteq> panic \<and> (\<forall>im. load_elf bytes = Inr im \<longrightarrow> image_ok im)"
proof (cases "parse_header bytes")
  case (Inl e)
  then show ?thesis
    using parse_header_no_panic [of bytes] by (auto simp: load_elf_def panic_def)
next
  case (Inr h)
  obtain entry phoff phentsize phnum where h: "h = (entry, phoff, phentsize, phnum)"
    by (cases h)
  have p: "phentsize = PHDR_LEN"
    using Inr h parse_header_phentsize by blast
  show ?thesis
  proof (cases "read_segments bytes phoff phentsize phnum")
    case (Inl e)
    then show ?thesis
      using read_segments_no_panic [of bytes phoff phnum] Inr p
      by (auto simp: load_elf_def h panic_def)
  next
    case (Inr loaded)
    let ?sorted = "sort_key (\<lambda>(s, _). seg_vaddr s) loaded"
    have "sorted (map (\<lambda>x. seg_vaddr (fst x)) ?sorted)"
      using sorted_sort_key [of "\<lambda>(s, _). seg_vaddr s" loaded] by (simp add: case_prod_beta')
    then have "list_ex snd loaded \<Longrightarrow> build_image entry ?sorted \<noteq> panic \<and>
        (\<forall>im. build_image entry ?sorted = Inr im \<longrightarrow> image_ok im)"
      using read_segments_ok [OF Inr] by (intro build_image_ok) (auto simp: list_ex_iff)
    then show ?thesis
      using \<open>parse_header bytes = Inr h\<close> Inr by (auto simp: load_elf_def h)
  qed
qed

section \<open>What a load promises\<close>

lemma validate_segments_ok:
  "check_overlap ss = Inr () \<Longrightarrow> \<forall>s \<in> set ss. segment_ok s \<Longrightarrow>
    (case below of None \<Rightarrow> True | Some b \<Rightarrow> check_overlap (b # ss) = Inr ()) \<Longrightarrow>
    validate_segments below ss = Inr ()"
proof (induction ss arbitrary: below)
  case (Cons s ss)
  have "check_overlap ss = Inr ()"
    using Cons.prems(1) check_overlap_Cons by blast
  moreover have "\<not> (case below of None \<Rightarrow> False | Some b \<Rightarrow> unat (seg_vaddr s) < seg_end b)"
    using Cons.prems(3) by (auto split: option.splits if_splits)
  ultimately show ?case
    using Cons by (simp add: Let_def segment_ok_def not_less even_iff_mod_2_eq_zero)
qed simp

lemma validate_slots_ok:
  "\<forall>j \<in> set is. j < length slots \<and> slot_ok mem sb slots j \<Longrightarrow> validate_slots slots is = Inr ()"
  by (induction "is") (auto simp: slot_ok_def is_wide_def split: slot.splits bool.splits)

lemma image_ok_validate: "image_ok im \<Longrightarrow> validate im = Inr ()"
proof -
  assume ok: "image_ok im"
  then obtain n where "swept (image_byte (image_segments im)) (unat (image_slot_base im)) (image_slots im) n"
    by (auto simp: image_ok_def)
  then have "validate_slots (image_slots im) [0..<length (image_slots im)] = Inr ()"
    by (intro validate_slots_ok) (auto simp: swept_def)
  moreover have "validate_segments None (image_segments im) = Inr ()"
    using ok by (intro validate_segments_ok) (auto simp: image_ok_def)
  moreover have "even (unat (image_slot_base im))"
    using ok by (auto simp: image_ok_def segment_ok_def)
  ultimately show ?thesis
    using ok unfolding image_ok_def
    by (elim conjE) (simp add: validate_def even_iff_mod_2_eq_zero not_less)
qed

lemma initial_word_le32:
  "initial_word im addr = le32 (image_byte (image_segments im) (unat addr))
     (image_byte (image_segments im) (unat addr + 1)) (image_byte (image_segments im) (unat addr + 2))
     (image_byte (image_segments im) (unat addr + 3))"
  by (simp add: initial_word_def le32_def or.assoc)

lemma ucast_le32: "ucast (le32 a b c d) = le16 a b"
  by (rule bit_word_eqI) (auto simp: le32_def le16_def bit_simps dest: bit_imp_le_length)

lemma slot_at_index:
  assumes "slot_at im pc = Some s" "even (unat (image_slot_base im))"
  obtains j where "j < length (image_slots im)" "s = image_slots im ! j"
    "unat pc = unat (image_slot_base im) + 2 * j"
proof -
  let ?j = "unat (pc - image_slot_base im) div 2"
  have le: "image_slot_base im \<le> pc" and "even (unat pc)"
    using assms(1) by (auto simp: slot_at_def not_less even_iff_mod_2_eq_zero split: if_splits)
  then have "unat (pc - image_slot_base im) = unat pc - unat (image_slot_base im)"
    by (simp add: unat_sub)
  then have "unat pc = unat (image_slot_base im) + 2 * ?j"
    using le assms(2) \<open>even (unat pc)\<close> by (simp add: word_le_nat_alt)
  moreover have "?j < length (image_slots im)" "s = image_slots im ! ?j"
    using assms(1) by (auto simp: slot_at_def Let_def split: if_splits)
  ultimately show thesis
    using that by blast
qed

section \<open>A concrete load\<close>

text \<open>A 90-byte executable with one segment at \<open>RAM_ORIGIN\<close>: \<open>c.nop\<close>, then a 32-bit \<open>nop\<close>.\<close>

definition demo_elf :: "u8 list" where
  "demo_elf =
     [127, 69, 76, 70, 1, 1, 1, 0, 0, 0, 0, 0, 0, 0, 0, 0, 2, 0, 243, 0, 1, 0, 0, 0, 0, 0, 1,
     0, 52, 0, 0, 0, 0, 0, 0, 0, 0, 0, 0, 0, 0, 0, 32, 0, 1, 0, 0, 0, 0, 0, 0, 0, 1, 0, 0, 0,
     84, 0, 0, 0, 0, 0, 1, 0, 0, 0, 1, 0, 6, 0, 0, 0, 6, 0, 0, 0, 5, 0, 0, 0, 4, 0, 0, 0, 1, 0,
     19, 0, 0, 0]"

definition demo_image :: program_image where
  "demo_image = \<lparr>image_entry = 0x10000,
     image_segments = [\<lparr>seg_vaddr = 0x10000, seg_mem_len = 6, seg_bytes = [1, 0, 0x13, 0, 0, 0]\<rparr>],
     image_slot_base = 0x10000,
     image_slots = [Instruction 0x13 True, Instruction 0x13 False, MidInstruction]\<rparr>"

lemma demo_header: "parse_header demo_elf = Inr (0x10000, 52, 32, 1)"
  by (simp add: parse_header_def demo_elf_def elf_constants slice_def idx_def u16le_def u32le_def
      le16_def le32_def)

lemma demo_segments: "read_segments demo_elf 52 32 1 = Inr [(hd (image_segments demo_image), True)]"
  by (simp add: read_segments_def read_segment_def Let_def checked_add_def demo_elf_def
      demo_image_def elf_constants guest_memory_defs slice_def idx_def u16le_def u32le_def
      le16_def le32_def)

lemma demo_expand: "expand 1 = Inr 0x13"
  by (simp add: expand_def Let_def quadrant1_def ci_imm_def sext_def i_type_def OP_IMM_def)

lemma demo_sweep:
  "sweep (hd (image_segments demo_image)) 0x10000 [NonInstruction, NonInstruction, NonInstruction]
     = Inr (image_slots demo_image)"
  by (simp add: sweep_def demo_image_def sweep_from.simps [of _ "0x10000" "0x10000"]
      sweep_from.simps [of _ "0x10000" "0x10002"] sweep_from.simps [of _ "0x10000" "0x10006"]
      u16le_def u32le_def le32_def ensure_def idx_def set_at_def le16_def demo_expand)

lemma demo_loads: "load_elf demo_elf = Inr demo_image"
  using demo_sweep
  by (simp add: load_elf_def demo_header demo_segments build_image_def code_end_def idx_def
      ensure_def Let_def demo_image_def slot_at_def is_instruction_def numeral_3_eq_3
      del: bind_res_Inr One_nat_def)

section \<open>The properties\<close>

text \<open>C26: Loading any byte string returns: malformed input is an error, never a panic.\<close>

theorem load_elf_no_panic: "load_elf bytes \<noteq> Inl Panicked"
  using load_elf_ok [of bytes] by (simp add: panic_def)

text \<open>C27: Every image \<open>load_elf\<close> builds passes \<open>validate\<close>: the segments are even, sorted, disjoint and
  inside RAM, the slots pair every 32-bit instruction with its second halfword, and the entry is an
  instruction.\<close>

theorem load_elf_valid: "load_elf bytes = Inr im \<Longrightarrow> validate im = Inr ()"
  using load_elf_ok [of bytes] image_ok_validate by blast

theorem load_elf_valid_witness: "validate demo_image = Inr ()"
  by (rule load_elf_valid [OF demo_loads])

text \<open>C28: The instruction stream is the memory image: the word a slot records is the word RAM holds
  at that pc before the first cycle, or the expansion of the halfword there.\<close>

theorem load_elf_code:
  assumes "load_elf bytes = Inr im" "slot_at im pc = Some (Instruction w compressed)"
  shows "if compressed then expand (ucast (initial_word im pc)) = Inr w else w = initial_word im pc"
proof -
  have ok: "image_ok im"
    using assms(1) load_elf_ok by blast
  then have "even (unat (image_slot_base im))"
    by (auto simp: image_ok_def segment_ok_def)
  then obtain j where j: "j < length (image_slots im)" "Instruction w compressed = image_slots im ! j"
      "unat pc = unat (image_slot_base im) + 2 * j"
    by (rule slot_at_index [OF assms(2)])
  have "slot_ok (image_byte (image_segments im)) (unat (image_slot_base im)) (image_slots im) j"
    using ok j(1) by (auto simp: image_ok_def swept_def)
  then show ?thesis
    by (cases compressed)
      (simp_all add: slot_ok_def initial_word_le32 ucast_le32 j(3) flip: j(2))
qed

theorem load_elf_code_witness: "expand (ucast (initial_word demo_image 0x10000)) = Inr 0x13"
proof -
  have "slot_at demo_image 0x10000 = Some (Instruction 0x13 True)"
    by (simp add: slot_at_def demo_image_def)
  from load_elf_code [OF demo_loads this] show ?thesis by simp
qed

end
