(* ===== verification/Field.thy ===== *)
theory Field
  imports Prelude
begin

text \<open>
  The scalar field of \<open>crates/field/src/lib.rs\<close>: \<open>Fr\<close> as four little-endian 64-bit limbs in
  Montgomery form, the limb primitives with their 128-bit intermediates, the CIOS product, and the
  public operations. The loops \<open>for i in 0..4\<close> are recursions along the limb lists. The lemmas
  give every operation its meaning on the canonical integers modulo \<open>p\<close>.
\<close>

unbundle bit_operations_syntax

section \<open>Constants\<close>

definition FR_MODULUS :: "u64 list" where
  "FR_MODULUS = [0x43e1f593f0000001, 0x2833e84879b97091, 0xb85045b68181585d, 0x30644e72e131a029]"

definition FR_MODULUS_MINUS_TWO :: "u64 list" where
  "FR_MODULUS_MINUS_TWO = [0x43e1f593efffffff, 0x2833e84879b97091, 0xb85045b68181585d, 0x30644e72e131a029]"

definition FR_R :: "u64 list" where
  "FR_R = [0xac96341c4ffffffb, 0x36fc76959f60cd29, 0x666ea36f7879462e, 0x0e0a77c19a07df2f]"

definition FR_R2 :: "u64 list" where
  "FR_R2 = [0x1bb8e645ae216da7, 0x53fe3ab1e35c59e3, 0x8c49833d53bb8085, 0x0216d0b17f4e44a5]"

definition FR_INV :: u64 where
  "FR_INV = 0xc2e1f593efffffff"

definition MINUS_ONE_MONTGOMERY :: "u64 list" where
  "MINUS_ONE_MONTGOMERY = [0x974bc177a0000006, 0xf13771b2da58a367, 0x51e1a2470908122e, 0x2259d6b14729c0fa]"

section \<open>Limb primitives\<close>

definition mac :: "u64 \<Rightarrow> u64 \<Rightarrow> u64 \<Rightarrow> u64 \<Rightarrow> u64 \<times> u64" where
  "mac acc a b carry =
     (let t = (ucast acc :: u128) + ucast a * ucast b + ucast carry in (ucast t, ucast (shr t 64)))"

definition adc :: "u64 \<Rightarrow> u64 \<Rightarrow> u64 \<Rightarrow> u64 \<times> u64" where
  "adc a b carry =
     (let t = (ucast a :: u128) + ucast b + ucast carry in (ucast t, ucast (shr t 64)))"

definition sbb :: "u64 \<Rightarrow> u64 \<Rightarrow> u64 \<Rightarrow> u64 \<times> u64" where
  "sbb a b borrow =
     (let t = (ucast a :: u128) - ucast b - ucast borrow in (ucast t, ucast (shr t 64) AND 1))"

text \<open>The loops: carry and borrow threaded from the low limb up.\<close>

fun adc_limbs :: "u64 list \<Rightarrow> u64 list \<Rightarrow> u64 \<Rightarrow> u64 list \<times> u64" where
  "adc_limbs (a # as) (b # bs) carry =
     (let (s, c) = adc a b carry; (rest, out) = adc_limbs as bs c in (s # rest, out))"
| "adc_limbs _ _ carry = ([], carry)"

fun sbb_limbs :: "u64 list \<Rightarrow> u64 list \<Rightarrow> u64 \<Rightarrow> u64 list \<times> u64" where
  "sbb_limbs (a # as) (b # bs) borrow =
     (let (d, c) = sbb a b borrow; (rest, out) = sbb_limbs as bs c in (d # rest, out))"
| "sbb_limbs _ _ borrow = ([], borrow)"

fun mac_row :: "u64 list \<Rightarrow> u64 list \<Rightarrow> u64 \<Rightarrow> u64 \<Rightarrow> u64 list \<times> u64" where
  "mac_row (t # ts) (a # as) b carry =
     (let (s, c) = mac t a b carry; (rest, out) = mac_row ts as b c in (s # rest, out))"
| "mac_row _ _ _ carry = ([], carry)"

fun ge_from_top :: "(u64 \<times> u64) list \<Rightarrow> bool" where
  "ge_from_top [] = True"
| "ge_from_top ((a, m) # rest) = (if a \<noteq> m then a > m else ge_from_top rest)"

definition is_ge_modulus :: "u64 list \<Rightarrow> bool" where
  "is_ge_modulus a = ge_from_top (rev (zip a FR_MODULUS))"

definition reduce_once :: "u64 list \<Rightarrow> u64 list" where
  "reduce_once a = (if is_ge_modulus a then fst (sbb_limbs a FR_MODULUS 0) else a)"

definition add_limbs :: "u64 list \<Rightarrow> u64 list \<Rightarrow> u64 list" where
  "add_limbs a b = reduce_once (fst (adc_limbs a b 0))"

definition sub_limbs :: "u64 list \<Rightarrow> u64 list \<Rightarrow> u64 list" where
  "sub_limbs a b =
     (let (r, borrow) = sbb_limbs a b 0 in
      if borrow = 1 then fst (adc_limbs r FR_MODULUS 0) else r)"

definition neg_limbs :: "u64 list \<Rightarrow> u64 list" where
  "neg_limbs a = (if a = [0, 0, 0, 0] then [0, 0, 0, 0] else sub_limbs FR_MODULUS a)"

text \<open>One round of the CIOS product, on the six limbs of the accumulator.\<close>

definition cios_step :: "u64 list \<Rightarrow> u64 list \<Rightarrow> u64 \<Rightarrow> u64 list" where
  "cios_step a t b_i =
     (let (t03, carry) = mac_row (take 4 t) a b_i 0;
          (t4, t5) = adc (t ! 4) carry 0;
          m = hd t03 * FR_INV;
          (cancelled, carry) = mac (hd t03) m (hd FR_MODULUS) 0;
          (t02, carry) = mac_row (tl t03) (tl FR_MODULUS) m carry;
          (s, c) = adc t4 carry 0 in
      t02 @ [s, t5 + c, t5])"

definition mont_mul :: "u64 list \<Rightarrow> u64 list \<Rightarrow> u64 list" where
  "mont_mul a b = reduce_once (take 4 (foldl (cios_step a) [0, 0, 0, 0, 0, 0] b))"

definition from_montgomery :: "u64 list \<Rightarrow> u64 list" where
  "from_montgomery a = mont_mul a [1, 0, 0, 0]"

section \<open>The field element\<close>

datatype fr = Fr (fr_limbs: "u64 list")

definition fr_zero :: fr where "fr_zero = Fr [0, 0, 0, 0]"
definition fr_one :: fr where "fr_one = Fr FR_R"
definition fr_minus_one :: fr where "fr_minus_one = Fr MINUS_ONE_MONTGOMERY"

definition fr_add :: "fr \<Rightarrow> fr \<Rightarrow> fr" where
  "fr_add a b = Fr (add_limbs (fr_limbs a) (fr_limbs b))"

definition fr_sub :: "fr \<Rightarrow> fr \<Rightarrow> fr" where
  "fr_sub a b = Fr (sub_limbs (fr_limbs a) (fr_limbs b))"

definition fr_mul :: "fr \<Rightarrow> fr \<Rightarrow> fr" where
  "fr_mul a b = Fr (mont_mul (fr_limbs a) (fr_limbs b))"

definition fr_neg :: "fr \<Rightarrow> fr" where
  "fr_neg a = Fr (neg_limbs (fr_limbs a))"

definition from_u64 :: "u64 \<Rightarrow> fr" where
  "from_u64 x = Fr (mont_mul [x, 0, 0, 0] FR_R2)"

definition fr_square :: "fr \<Rightarrow> fr" where
  "fr_square a = Fr (mont_mul (fr_limbs a) (fr_limbs a))"

text \<open>Square and multiply from the top bit of the top limb down.\<close>

definition pow_bit :: "fr \<Rightarrow> u64 \<Rightarrow> fr \<Rightarrow> nat \<Rightarrow> fr" where
  "pow_bit x limb acc b =
     (let acc = fr_square acc in if shr limb b AND 1 = 1 then fr_mul acc x else acc)"

definition fr_pow :: "fr \<Rightarrow> u64 list \<Rightarrow> fr" where
  "fr_pow x e = foldl (\<lambda>acc limb. foldl (pow_bit x limb) acc (rev [0..<64])) fr_one (rev e)"

definition fr_inverse :: "fr \<Rightarrow> fr option" where
  "fr_inverse x = (if x = fr_zero then None else Some (fr_pow x FR_MODULUS_MINUS_TWO))"

section \<open>Encodings\<close>

definition u64_le_bytes :: "u64 \<Rightarrow> u8 list" where
  "u64_le_bytes w = map (\<lambda>i. ucast (shr w (8 * i))) [0, 1, 2, 3, 4, 5, 6, 7]"

definition limbs_bytes :: "u64 list \<Rightarrow> u8 list" where
  "limbs_bytes ls = concat (map u64_le_bytes ls)"

definition le_u64 :: "u8 list \<Rightarrow> u64" where
  "le_u64 b = foldr (\<lambda>x acc. ucast x OR shl acc 8) b 0"

text \<open>\<open>chunks_exact(8)\<close> over 32 bytes.\<close>

definition bytes_limbs :: "u8 list \<Rightarrow> u64 list" where
  "bytes_limbs b = map (\<lambda>i. le_u64 (take 8 (drop (8 * i) b))) [0, 1, 2, 3]"

definition to_bytes :: "fr \<Rightarrow> u8 list" where
  "to_bytes x = limbs_bytes (from_montgomery (fr_limbs x))"

definition from_bytes :: "u8 list \<Rightarrow> fr option" where
  "from_bytes b =
     (let ls = bytes_limbs b in if is_ge_modulus ls then None else Some (Fr (mont_mul ls FR_R2)))"

definition to_memory_bytes :: "fr \<Rightarrow> u8 list" where
  "to_memory_bytes x = limbs_bytes (fr_limbs x)"

definition from_memory_bytes :: "u8 list \<Rightarrow> fr option" where
  "from_memory_bytes b =
     (let ls = bytes_limbs b in if is_ge_modulus ls then None else Some (Fr ls))"

text \<open>Source literals: \<open>0x\<close> and 64 lowercase hex digits, big-endian.\<close>

definition hex_digit :: "u8 \<Rightarrow> u8 option" where
  "hex_digit c =
     (if 0x30 \<le> c \<and> c \<le> 0x39 then Some (c - 0x30)
      else if 0x61 \<le> c \<and> c \<le> 0x66 then Some (c - 0x61 + 10)
      else None)"

fun hex_pairs :: "u8 list \<Rightarrow> u8 list option" where
  "hex_pairs (h # l # rest) =
     (case (hex_digit h, hex_digit l) of
        (Some hi, Some lo) \<Rightarrow> map_option (\<lambda>bs. bs @ [shl hi 4 OR lo]) (hex_pairs rest)
      | _ \<Rightarrow> None)"
| "hex_pairs _ = Some []"

definition from_hex :: "u8 list \<Rightarrow> fr option" where
  "from_hex s =
     (if take 2 s \<noteq> [0x30, 0x78] then None
      else
        (let digits = drop 2 s in
         if length digits \<noteq> 64 then None
         else (case hex_pairs digits of None \<Rightarrow> None | Some le \<Rightarrow> from_bytes le)))"

section \<open>Batch inversion\<close>

text \<open>The prefix products and their total, then the sweep back from the last element.\<close>

fun prefix_products :: "fr \<Rightarrow> fr list \<Rightarrow> fr list \<times> fr" where
  "prefix_products running [] = ([], running)"
| "prefix_products running (x # xs) =
     (let (ps, total) = prefix_products (if x \<noteq> fr_zero then fr_mul running x else running) xs
      in (running # ps, total))"

fun invert_back :: "fr \<Rightarrow> (fr \<times> fr) list \<Rightarrow> fr list" where
  "invert_back i [] = []"
| "invert_back i ((x, prefix) # rest) =
     (if x = fr_zero then x # invert_back i rest
      else fr_mul i prefix # invert_back (fr_mul i x) rest)"

definition batch_inverse :: "fr list \<Rightarrow> unit fault + fr list" where
  "batch_inverse xs =
     (let (prefix, running) = prefix_products fr_one xs in
      case fr_inverse running of
        None \<Rightarrow> panic
      | Some i \<Rightarrow> Inr (rev (invert_back i (rev (zip xs prefix)))))"

section \<open>The limb primitives on integers\<close>

fun limbs_val :: "u64 list \<Rightarrow> nat" where
  "limbs_val [] = 0"
| "limbs_val (x # xs) = unat x + 2 ^ 64 * limbs_val xs"

lemma limbs_val_append: "limbs_val (xs @ ys) = limbs_val xs + 2 ^ (64 * length xs) * limbs_val ys"
  by (induction xs) (simp_all add: algebra_simps power_add)

lemma limbs_val_less: "limbs_val xs < 2 ^ (64 * length xs)"
proof (induction xs)
  case (Cons x xs)
  have "unat x < 2 ^ 64"
    by (rule unat_u64_less)
  moreover have "limbs_val xs + 1 \<le> 2 ^ (64 * length xs)"
    using Cons by simp
  then have "2 ^ 64 * (limbs_val xs + 1) \<le> 2 ^ 64 * (2 ^ (64 * length xs) :: nat)"
    by (rule mult_left_mono) simp
  ultimately show ?case
    by (simp add: power_add)
qed simp

lemma split_u128:
  fixes t :: u128
  shows "unat (ucast t :: u64) + 2 ^ 64 * unat (ucast (shr t 64) :: u64) = unat t"
proof -
  have "unat t div 2 ^ 64 < 2 ^ 64"
    using unat_less_pow [of t] by (simp add: less_mult_imp_div_less)
  then have "unat (ucast (shr t 64) :: u64) = unat t div 2 ^ 64"
    unfolding unsigned_ucast_eq unsigned_drop_bit_eq
    by (simp add: drop_bit_eq_div take_bit_eq_mod unat_less_pow [of t, simplified])
  moreover have "unat (ucast t :: u64) = unat t mod 2 ^ 64"
    by (simp add: unsigned_ucast_eq take_bit_eq_mod)
  ultimately show ?thesis
    by simp
qed

lemma unat_wide: "unat (ucast (x::u64) :: u128) = unat x"
  using unat_u64_less [of x] by (simp add: unsigned_ucast_eq take_bit_eq_mod)

lemma uint_wide: "uint (ucast (x::u64) :: u128) = int (unat x)"
  by (simp only: uint_nat unat_wide)

lemma mac_val:
  assumes "mac acc a b carry = (lo, hi)"
  shows "unat lo + 2 ^ 64 * unat hi = unat acc + unat a * unat b + unat carry"
proof -
  let ?t = "(ucast acc :: u128) + ucast a * ucast b + ucast carry"
  have "unat a * unat b \<le> (2 ^ 64 - 1) * (2 ^ 64 - 1)"
    using unat_u64_less [of a] unat_u64_less [of b] by (intro mult_mono) simp_all
  then have "unat acc + unat a * unat b + unat carry < 2 ^ 128"
    using unat_u64_less [of acc] unat_u64_less [of carry] by simp
  then have "unat ?t = unat acc + unat a * unat b + unat carry"
    by (simp add: unat_word_ariths unat_wide mod_simps)
  then show ?thesis
    using assms split_u128 [of ?t] by (simp add: mac_def Let_def)
qed

lemma adc_val:
  assumes "adc a b carry = (lo, hi)"
  shows "unat lo + 2 ^ 64 * unat hi = unat a + unat b + unat carry"
proof -
  let ?t = "(ucast a :: u128) + ucast b + ucast carry"
  have "unat a + unat b + unat carry < 2 ^ 128"
    using unat_u64_less [of a] unat_u64_less [of b] unat_u64_less [of carry] by simp
  then have "unat ?t = unat a + unat b + unat carry"
    by (simp add: unat_word_ariths unat_wide mod_simps)
  then show ?thesis
    using assms split_u128 [of ?t] by (simp add: adc_def Let_def)
qed

lemma borrow_arith:
  fixes A B C D H T :: nat
  assumes "A < 2 ^ 64" "B < 2 ^ 64" "C \<le> 1" "D < 2 ^ 64" "H < 2 ^ 64" "D + 2 ^ 64 * H = T"
    and t: "int T = (int A - int B - int C) mod 2 ^ 128"
  shows "if B + C \<le> A then H = 0 \<and> D + B + C = A else H = 2 ^ 64 - 1 \<and> D + B + C = A + 2 ^ 64"
proof (cases "B + C \<le> A")
  case True
  have "int T = int A - int B - int C"
    unfolding t by (rule mod_pos_pos_trivial) (use True assms(1) in simp_all)
  then have sum: "T + B + C = A"
    by linarith
  then have "H = 0"
    using assms by simp
  with True assms sum show ?thesis
    by simp
next
  case False
  have "int T = (int A - int B - int C + 2 ^ 128) mod 2 ^ 128"
    unfolding t by simp
  also have "\<dots> = int A - int B - int C + 2 ^ 128"
    by (rule mod_pos_pos_trivial) (use False assms(1-3) in simp_all)
  finally have sum: "T + B + C = A + 2 ^ 128"
    by simp
  then have "H = 2 ^ 64 - 1"
    using assms(1-6) False by simp
  with False assms(6) sum show ?thesis
    by simp
qed

lemma sbb_val:
  assumes "sbb a b borrow = (d, out)" "unat borrow \<le> 1"
  shows "unat d + unat b + unat borrow = unat a + 2 ^ 64 * unat out \<and> unat out \<le> 1"
proof -
  let ?t = "(ucast a :: u128) - ucast b - ucast borrow"
  let ?hi = "ucast (shr ?t 64) :: u64"
  have d: "d = ucast ?t" "out = ?hi AND 1"
    using assms(1) by (auto simp: sbb_def Let_def)
  have split: "unat d + 2 ^ 64 * unat ?hi = unat ?t"
    using split_u128 [of ?t] d by simp
  have "uint ?t = (int (unat a) - int (unat b) - int (unat borrow)) mod 2 ^ 128"
    unfolding uint_word_ariths uint_wide by (simp add: mod_diff_left_eq)
  then have "int (unat ?t) = (int (unat a) - int (unat b) - int (unat borrow)) mod 2 ^ 128"
    by (simp only: uint_nat)
  from borrow_arith [OF unat_u64_less unat_u64_less assms(2) unat_u64_less unat_u64_less split this]
  show ?thesis
  proof (cases "unat b + unat borrow \<le> unat a")
    case False
    then have "unat ?hi = unat (0xffffffffffffffff :: u64)"
      using borrow_arith [OF unat_u64_less unat_u64_less assms(2) unat_u64_less unat_u64_less split
          \<open>int (unat ?t) = _\<close>] by simp
    then have "?hi = 0xffffffffffffffff"
      by (simp only: word_unat_eq_iff)
    then show ?thesis
      using False d borrow_arith [OF unat_u64_less unat_u64_less assms(2) unat_u64_less unat_u64_less
          split \<open>int (unat ?t) = _\<close>] by simp
  qed (simp add: d unsigned_eq_0_iff)
qed

lemma adc_limbs_val:
  assumes "length as = length bs" "adc_limbs as bs carry = (r, out)"
  shows "limbs_val r + 2 ^ (64 * length as) * unat out = limbs_val as + limbs_val bs + unat carry \<and>
    length r = length as"
  using assms
proof (induction as bs arbitrary: carry r rule: list_induct2)
  case (Cons a as b bs)
  obtain s c where s: "adc a b carry = (s, c)" by fastforce
  obtain r' where r': "adc_limbs as bs c = (r', out)" "r = s # r'"
    using Cons.prems s by (auto split: prod.splits)
  show ?case
    using Cons.IH [OF r'(1)] adc_val [OF s] r'(2) by (simp add: power_add algebra_simps)
qed simp

lemma sbb_limbs_val:
  assumes "length as = length bs" "sbb_limbs as bs borrow = (r, out)" "unat borrow \<le> 1"
  shows "limbs_val r + limbs_val bs + unat borrow = limbs_val as + 2 ^ (64 * length as) * unat out \<and>
    length r = length as \<and> unat out \<le> 1"
  using assms
proof (induction as bs arbitrary: borrow r rule: list_induct2)
  case (Cons a as b bs)
  obtain s c where s: "sbb a b borrow = (s, c)" by fastforce
  obtain r' where r': "sbb_limbs as bs c = (r', out)" "r = s # r'"
    using Cons.prems(1) s by (auto split: prod.splits)
  show ?case
    using Cons.IH [OF r'(1)] sbb_val [OF s Cons.prems(2)] r'(2) by (simp add: power_add algebra_simps)
qed simp

lemma mac_row_val:
  assumes "length ts = length as" "mac_row ts as b carry = (r, out)"
  shows "limbs_val r + 2 ^ (64 * length ts) * unat out = limbs_val ts + limbs_val as * unat b + unat carry \<and>
    length r = length ts"
  using assms
proof (induction ts as arbitrary: carry r rule: list_induct2)
  case (Cons t ts a as)
  obtain s c where s: "mac t a b carry = (s, c)" by fastforce
  obtain r' where r': "mac_row ts as b c = (r', out)" "r = s # r'"
    using Cons.prems s by (auto split: prod.splits)
  show ?case
    using Cons.IH [OF r'(1)] mac_val [OF s] r'(2) by (simp add: power_add algebra_simps)
qed simp

section \<open>Comparison and reduction\<close>

definition fr_p :: nat where
  "fr_p = 0x30644e72e131a029b85045b68181585d2833e84879b9709143e1f593f0000001"

lemma limbs_val_modulus: "limbs_val FR_MODULUS = fr_p"
  by (simp add: FR_MODULUS_def fr_p_def)

lemma ge_from_top_append:
  "ge_from_top (xs @ ys) \<longleftrightarrow> (if \<forall>(a, m) \<in> set xs. a = m then ge_from_top ys else ge_from_top xs)"
  by (induction xs rule: ge_from_top.induct) auto

lemma digit_unique:
  fixes x y X Y N :: nat
  assumes "x < N" "y < N" "x + N * X = y + N * Y"
  shows "x = y \<and> X = Y"
proof -
  have "x = (x + N * X) mod N" "X = (x + N * X) div N"
    using assms(1) by simp_all
  moreover have "y = (y + N * Y) mod N" "Y = (y + N * Y) div N"
    using assms(2) by simp_all
  ultimately show ?thesis
    using assms(3) by metis
qed

lemma limbs_val_unique: "length as = length bs \<Longrightarrow> limbs_val as = limbs_val bs \<Longrightarrow> as = bs"
proof (induction as bs rule: list_induct2)
  case (Cons x xs y ys)
  then have "unat x = unat y \<and> limbs_val xs = limbs_val ys"
    using unat_u64_less by (intro digit_unique [of _ "2 ^ 64"]) simp_all
  then show ?case using Cons.IH by (simp add: word_unat_eq_iff)
qed simp

lemma top_limb:
  fixes x y X Y N :: nat
  assumes "x < N" "y < N" "X \<noteq> Y"
  shows "y + N * Y \<le> x + N * X \<longleftrightarrow> Y \<le> X"
proof (cases "X < Y")
  case True
  then have "N * Suc X \<le> N * Y"
    by (intro mult_le_mono2) simp
  with True assms show ?thesis by simp
next
  case False
  then have "N * Suc Y \<le> N * X"
    using assms(3) by (intro mult_le_mono2) simp
  with False assms show ?thesis by simp
qed

lemma ge_from_top_val:
  assumes "length as = length bs"
  shows "ge_from_top (rev (zip as bs)) \<longleftrightarrow> limbs_val bs \<le> limbs_val as"
  using assms
proof (induction as bs rule: list_induct2)
  case (Cons a as b bs)
  have eq: "(\<forall>(x, m) \<in> set (zip as bs). x = m) \<longleftrightarrow> as = bs"
    using Cons.hyps by (induction as bs rule: list_induct2) auto
  show ?case
  proof (cases "as = bs")
    case True
    have "(\<forall>x \<in> set (zip bs bs). case x of (y, m) \<Rightarrow> y = m)"
      by (induction bs) auto
    then show ?thesis
      using True by (auto simp: ge_from_top_append word_less_nat_alt word_unat_eq_iff)
  next
    case False
    then have "limbs_val as \<noteq> limbs_val bs"
      using limbs_val_unique Cons.hyps by blast
    have "ge_from_top (rev (zip (a # as) (b # bs))) \<longleftrightarrow> ge_from_top (rev (zip as bs))"
      using False by (simp add: ge_from_top_append eq)
    also have "\<dots> \<longleftrightarrow> limbs_val bs \<le> limbs_val as"
      by (rule Cons.IH)
    also have "\<dots> \<longleftrightarrow> limbs_val (b # bs) \<le> limbs_val (a # as)"
      unfolding limbs_val.simps
      by (intro top_limb [symmetric] unat_u64_less \<open>limbs_val as \<noteq> limbs_val bs\<close>)
    finally show ?thesis .
  qed
qed simp

definition limbs_ok :: "u64 list \<Rightarrow> bool" where
  "limbs_ok a \<longleftrightarrow> length a = 4 \<and> limbs_val a < fr_p"

lemma limbs_okD: "limbs_ok a \<Longrightarrow> length a = 4" "limbs_ok a \<Longrightarrow> limbs_val a < fr_p"
  by (simp_all add: limbs_ok_def)

lemma length_modulus: "length FR_MODULUS = 4"
  by (simp add: FR_MODULUS_def)

lemma is_ge_modulus_val: "length a = 4 \<Longrightarrow> is_ge_modulus a \<longleftrightarrow> fr_p \<le> limbs_val a"
  using ge_from_top_val [of a FR_MODULUS] by (simp add: is_ge_modulus_def length_modulus limbs_val_modulus)

text \<open>\<open>reduce_once\<close> brings a value below \<open>2 p\<close> to its residue.\<close>

lemma reduce_once_val:
  assumes "length a = 4" "limbs_val a < 2 * fr_p"
  shows "limbs_ok (reduce_once a)" "limbs_val (reduce_once a) = limbs_val a mod fr_p"
proof -
  obtain r out where r: "sbb_limbs a FR_MODULUS 0 = (r, out)" by fastforce
  note val = sbb_limbs_val [OF _ r]
  have len: "length r = 4"
    using val assms(1) length_modulus by simp
  have "limbs_ok (reduce_once a) \<and> limbs_val (reduce_once a) = limbs_val a mod fr_p"
  proof (cases "fr_p \<le> limbs_val a")
    case True
    have "limbs_val r < 2 ^ 256"
      using limbs_val_less [of r] len by simp
    then have "limbs_val r + fr_p = limbs_val a"
      using val assms length_modulus limbs_val_modulus True by (simp add: fr_p_def)
    then have "limbs_val r = limbs_val a mod fr_p"
      using assms(2) by (simp add: mod_if le_mod_geq flip: \<open>limbs_val r + fr_p = limbs_val a\<close>)
    moreover have "limbs_val r < fr_p"
      using \<open>limbs_val r + fr_p = limbs_val a\<close> assms(2) by simp
    ultimately show ?thesis
      using True len r assms(1) by (simp add: reduce_once_def is_ge_modulus_val limbs_ok_def)
  next
    case False
    then show ?thesis
      using assms(1) by (simp add: reduce_once_def is_ge_modulus_val limbs_ok_def)
  qed
  then show "limbs_ok (reduce_once a)" "limbs_val (reduce_once a) = limbs_val a mod fr_p"
    by auto
qed

lemma add_limbs_val:
  assumes "limbs_ok a" "limbs_ok b"
  shows "limbs_ok (add_limbs a b)" "limbs_val (add_limbs a b) = (limbs_val a + limbs_val b) mod fr_p"
proof -
  obtain r out where r: "adc_limbs a b 0 = (r, out)" by fastforce
  have v: "limbs_val r + 2 ^ 256 * unat out = limbs_val a + limbs_val b" "length r = 4"
    using adc_limbs_val [OF _ r] assms by (auto simp: limbs_ok_def)
  have "limbs_val a + limbs_val b < 2 * fr_p"
    using assms by (simp add: limbs_ok_def)
  moreover from this have "limbs_val r = limbs_val a + limbs_val b"
    using v by (cases "unat out") (simp_all add: fr_p_def)
  ultimately show "limbs_ok (add_limbs a b)" "limbs_val (add_limbs a b) = (limbs_val a + limbs_val b) mod fr_p"
    using reduce_once_val [of r] v(2) r by (simp_all add: add_limbs_def)
qed

lemma sub_limbs_val:
  assumes "length a = 4" "length b = 4" "limbs_val a \<le> fr_p" "limbs_val b \<le> fr_p"
    "limbs_val a < fr_p \<or> 0 < limbs_val b"
  shows "limbs_ok (sub_limbs a b)" "(limbs_val (sub_limbs a b) + limbs_val b) mod fr_p = limbs_val a mod fr_p"
proof -
  obtain r out where r: "sbb_limbs a b 0 = (r, out)" by fastforce
  have v: "limbs_val r + limbs_val b = limbs_val a + 2 ^ 256 * unat out" "length r = 4" "unat out \<le> 1"
    using sbb_limbs_val [OF _ r] assms by auto
  have lr: "limbs_val r < 2 ^ 256"
    using limbs_val_less [of r] v(2) by simp
  obtain s out' where s: "adc_limbs r FR_MODULUS 0 = (s, out')" by fastforce
  have w: "limbs_val s + 2 ^ 256 * unat out' = limbs_val r + fr_p" "length s = 4"
    using adc_limbs_val [OF _ s] v(2) by (auto simp: length_modulus limbs_val_modulus)
  have ls: "limbs_val s < 2 ^ 256"
    using limbs_val_less [of s] w(2) by simp
  have "limbs_ok (sub_limbs a b) \<and> (limbs_val (sub_limbs a b) + limbs_val b) mod fr_p = limbs_val a mod fr_p"
  proof (cases "out = 1")
    case True
    then have "limbs_val a < limbs_val b" "limbs_val r + limbs_val b = limbs_val a + 2 ^ 256"
      using v lr by simp_all
    moreover from this have "unat out' = 1"
      using w ls assms(3,4) lr by (simp add: fr_p_def)
    ultimately have "limbs_val s + limbs_val b = limbs_val a + fr_p"
      using w by simp
    moreover from this have "limbs_val s < fr_p"
      using \<open>limbs_val a < limbs_val b\<close> by simp
    ultimately show ?thesis
      using True r s w by (simp add: sub_limbs_def limbs_ok_def)
  next
    case False
    then have "unat out = 0"
      using v(3) by (cases "unat out") (auto simp: word_unat_eq_iff)
    then show ?thesis
      using False r v assms by (auto simp add: sub_limbs_def limbs_ok_def)
  qed
  then show "limbs_ok (sub_limbs a b)" "(limbs_val (sub_limbs a b) + limbs_val b) mod fr_p = limbs_val a mod fr_p"
    by auto
qed

section \<open>The CIOS product\<close>

text \<open>The multiplier \<open>m\<close> cancels the low limb, because \<open>FR_INV\<close> is \<open>- 1 / p\<close> modulo \<open>2 ^ 64\<close>.\<close>

lemma cancel_arith:
  fixes x i q k M :: nat
  assumes "1 + i * q = M * k"
  shows "(x + (x * i mod M) * q) mod M = 0"
proof -
  have "(x + (x * i mod M) * q) mod M = (x + x * i * q) mod M"
    by (metis mod_add_right_eq mod_mult_left_eq)
  also have "x + x * i * q = M * (x * k)"
    using assms by (metis distrib_left mult.assoc mult.left_commute mult_1_right)
  finally show ?thesis
    by simp
qed

lemma fr_inv_cancels: "(x + (x * unat FR_INV mod 2 ^ 64) * unat (hd FR_MODULUS)) mod 2 ^ 64 = 0"
  by (rule cancel_arith [where k = "0x33ad26d16d505ede"]) (simp add: FR_INV_def FR_MODULUS_def)

lemma list4_hd_tl: "length xs = 4 \<Longrightarrow> limbs_val xs = unat (hd xs) + 2 ^ 64 * limbs_val (tl xs) \<and> length (tl xs) = 3"
  by (cases xs) auto

lemma cios_arith:
  fixes A3 T4 ab c1 c2 c3 c t4 t5 tt h tl m p0 P1 t02 s N W :: nat
  assumes "A3 + N * W * c1 = T4 + ab" "t4 + N * t5 = tt + c1"
    "N * c2 = h + m * p0" "t02 + W * c3 = tl + P1 * m + c2" "s + N * c = t4 + c3"
    "A3 = h + N * tl"
  shows "N * (t02 + W * (s + N * (t5 + c))) = (T4 + N * W * tt) + ab + m * (p0 + N * P1)"
proof -
  have "N * t02 + N * W * c3 = N * tl + N * P1 * m + N * c2"
    using arg_cong [OF assms(4), of "\<lambda>x. N * x"] by (simp add: distrib_left mult.assoc)
  moreover have "N * W * s + N * W * N * c = N * W * t4 + N * W * c3"
    using arg_cong [OF assms(5), of "\<lambda>x. N * W * x"] by (simp add: distrib_left mult.assoc)
  moreover have "N * W * t4 + N * W * N * t5 = N * W * tt + N * W * c1"
    using arg_cong [OF assms(2), of "\<lambda>x. N * W * x"] by (simp add: distrib_left mult.assoc)
  moreover have "N * (t02 + W * (s + N * (t5 + c))) = N * t02 + N * W * s + N * W * N * t5 + N * W * N * c"
    by (simp add: distrib_left mult.assoc)
  moreover have "m * (p0 + N * P1) = m * p0 + N * P1 * m"
    by (simp add: distrib_left mult.commute mult.left_commute)
  ultimately show ?thesis
    using assms(1,3,6) by linarith
qed

lemma cios_bound:
  fixes T ab m T' p :: nat
  assumes "2 ^ 64 * T' = T + ab + m * p" "T < 2 * p" "ab \<le> (p - 1) * (2 ^ 64 - 1)" "m < 2 ^ 64"
  shows "T' < 2 * p"
proof -
  have "m * p \<le> (2 ^ 64 - 1) * p"
    using assms(4) by (intro mult_right_mono) simp_all
  then have "2 ^ 64 * T' < 2 * p + (p - 1) * (2 ^ 64 - 1) + (2 ^ 64 - 1) * p"
    using assms by linarith
  also have "\<dots> \<le> 2 ^ 64 * (2 * p)"
    by (cases p) simp_all
  finally show ?thesis
    by simp
qed

lemma cios_step_val:
  assumes "length a = 4" "length t = 6" "limbs_val a < fr_p" "limbs_val (take 5 t) < 2 * fr_p"
  shows "length (cios_step a t b) = 6 \<and> limbs_val (take 5 (cios_step a t b)) < 2 * fr_p \<and>
    (\<exists>m. 2 ^ 64 * limbs_val (take 5 (cios_step a t b)) = limbs_val (take 5 t) + limbs_val a * unat b + m * fr_p)"
proof -
  obtain t03 c1 where r1: "mac_row (take 4 t) a b 0 = (t03, c1)" by fastforce
  obtain t4 t5 where r2: "adc (t ! 4) c1 0 = (t4, t5)" by fastforce
  define m where "m = hd t03 * FR_INV"
  obtain cancelled c2 where r3: "mac (hd t03) m (hd FR_MODULUS) 0 = (cancelled, c2)" by fastforce
  obtain t02 c3 where r4: "mac_row (tl t03) (tl FR_MODULUS) m c2 = (t02, c3)" by fastforce
  obtain s c where r5: "adc t4 c3 0 = (s, c)" by fastforce
  have step: "cios_step a t b = t02 @ [s, t5 + c, t5]"
    by (simp add: cios_step_def r1 r2 r3 r4 r5 flip: m_def)
  have v1: "limbs_val t03 + 2 ^ 256 * unat c1 = limbs_val (take 4 t) + limbs_val a * unat b"
    and l1: "length t03 = 4"
    using mac_row_val [OF _ r1] assms by auto
  have v2: "unat t4 + 2 ^ 64 * unat t5 = unat (t ! 4) + unat c1"
    using adc_val [OF r2] by simp
  have v3: "unat cancelled + 2 ^ 64 * unat c2 = unat (hd t03) + unat m * unat (hd FR_MODULUS)"
    using mac_val [OF r3] by simp
  have "unat m = unat (hd t03) * unat FR_INV mod 2 ^ 64"
    by (simp add: m_def unat_word_ariths)
  then have "(unat (hd t03) + unat m * unat (hd FR_MODULUS)) mod 2 ^ 64 = 0"
    using fr_inv_cancels by simp
  then have "(unat cancelled + 2 ^ 64 * unat c2) mod 2 ^ 64 = 0"
    using v3 by simp
  then have cancelled: "unat cancelled = 0"
    using unat_u64_less [of cancelled] by simp
  have v4: "limbs_val t02 + 2 ^ 192 * unat c3 = limbs_val (tl t03) + limbs_val (tl FR_MODULUS) * unat m + unat c2"
    and l2: "length t02 = 3"
    using mac_row_val [OF _ r4] list4_hd_tl [OF l1] list4_hd_tl [OF length_modulus] by auto
  have v5: "unat s + 2 ^ 64 * unat c = unat t4 + unat c3"
    using adc_val [OF r5] by simp
  have T: "limbs_val (take 5 t) = limbs_val (take 4 t) + 2 ^ 256 * unat (t ! 4)"
    using assms(2) limbs_val_append [of "take 4 t" "[t ! 4]"] take_Suc_conv_app_nth [of 4 t] by simp
  have h1: "limbs_val t03 = unat (hd t03) + 2 ^ 64 * limbs_val (tl t03)"
    using list4_hd_tl [OF l1] by simp
  have p: "fr_p = unat (hd FR_MODULUS) + 2 ^ 64 * limbs_val (tl FR_MODULUS)"
    using list4_hd_tl [OF length_modulus] limbs_val_modulus by simp
  have ab: "limbs_val a * unat b \<le> (fr_p - 1) * (2 ^ 64 - 1)"
    using assms(3) unat_u64_less [of b] by (intro mult_mono) auto
  let ?T' = "limbs_val t02 + 2 ^ 192 * (unat s + 2 ^ 64 * (unat t5 + unat c))"
  have eq: "2 ^ 64 * ?T' = limbs_val (take 5 t) + limbs_val a * unat b + unat m * fr_p"
    using cios_arith [where N = "2 ^ 64" and W = "2 ^ 192", OF _ v2 _ v4 v5 h1] v1 v3 cancelled
    unfolding T p by simp
  have bound: "?T' < 2 * fr_p"
    by (rule cios_bound [OF eq assms(4) ab unat_u64_less])
  then have "unat t5 + unat c = 0"
    by (simp add: fr_p_def)
  then have "limbs_val (take 5 (cios_step a t b)) = ?T'"
    by (simp add: step l2 limbs_val_append unsigned_eq_0_iff)
  then show ?thesis
    using eq bound by (auto simp: step l2)
qed

lemma mont_mul_rounds:
  assumes "length a = 4" "limbs_val a < fr_p" "length t = 6" "limbs_val (take 5 t) < 2 * fr_p"
  shows "length (foldl (cios_step a) t b) = 6 \<and> limbs_val (take 5 (foldl (cios_step a) t b)) < 2 * fr_p \<and>
    (\<exists>m. 2 ^ (64 * length b) * limbs_val (take 5 (foldl (cios_step a) t b))
        = limbs_val (take 5 t) + limbs_val a * limbs_val b + m * fr_p)"
  using assms
proof (induction b arbitrary: t)
  case (Cons x b)
  let ?t = "cios_step a t x"
  obtain m where m: "2 ^ 64 * limbs_val (take 5 ?t) = limbs_val (take 5 t) + limbs_val a * unat x + m * fr_p"
    and t: "length ?t = 6" "limbs_val (take 5 ?t) < 2 * fr_p"
    using cios_step_val [of a t x] Cons.prems by auto
  from Cons.IH [OF Cons.prems(1,2) t] obtain m' where
    m': "2 ^ (64 * length b) * limbs_val (take 5 (foldl (cios_step a) ?t b))
        = limbs_val (take 5 ?t) + limbs_val a * limbs_val b + m' * fr_p"
    by auto
  have "2 ^ (64 * length (x # b)) * limbs_val (take 5 (foldl (cios_step a) ?t b))
      = 2 ^ 64 * (limbs_val (take 5 ?t) + limbs_val a * limbs_val b + m' * fr_p)"
    using m' by (simp add: power_add)
  also have "\<dots> = limbs_val (take 5 t) + limbs_val a * limbs_val (x # b) + (m + 2 ^ 64 * m') * fr_p"
    using m by (simp add: algebra_simps)
  finally have "2 ^ (64 * length (x # b)) * limbs_val (take 5 (foldl (cios_step a) t (x # b)))
      = limbs_val (take 5 t) + limbs_val a * limbs_val (x # b) + (m + 2 ^ 64 * m') * fr_p"
    by simp
  with Cons.IH [OF Cons.prems(1,2) t] show ?case
    by auto
qed auto

text \<open>The Montgomery product, for a reduced left operand and any four limbs on the right.\<close>

lemma mont_mul_val:
  assumes "limbs_ok a" "length b = 4"
  shows "limbs_ok (mont_mul a b)"
    "(2 ^ 256 * limbs_val (mont_mul a b)) mod fr_p = (limbs_val a * limbs_val b) mod fr_p"
proof -
  let ?t = "foldl (cios_step a) [0, 0, 0, 0, 0, 0] b"
  obtain m where len: "length ?t = 6" and less: "limbs_val (take 5 ?t) < 2 * fr_p"
    and m: "2 ^ 256 * limbs_val (take 5 ?t) = limbs_val a * limbs_val b + m * fr_p"
    using mont_mul_rounds [of a "[0, 0, 0, 0, 0, 0]" b] assms
    by (auto simp: limbs_ok_def fr_p_def)
  have "limbs_val (take 5 ?t) = limbs_val (take 4 ?t) + 2 ^ 256 * unat (?t ! 4)"
    using len limbs_val_append [of "take 4 ?t" "[?t ! 4]"] take_Suc_conv_app_nth [of 4 ?t] by simp
  then have eq: "limbs_val (take 5 ?t) = limbs_val (take 4 ?t)"
    using less by (cases "unat (?t ! 4)") (simp_all add: fr_p_def)
  have r: "limbs_ok (mont_mul a b)" "limbs_val (mont_mul a b) = limbs_val (take 4 ?t) mod fr_p"
    using reduce_once_val [of "take 4 ?t"] len less eq by (simp_all add: mont_mul_def)
  then show "limbs_ok (mont_mul a b)" by simp
  show "(2 ^ 256 * limbs_val (mont_mul a b)) mod fr_p = (limbs_val a * limbs_val b) mod fr_p"
    using m eq unfolding r(2) by (simp add: mod_mult_right_eq)
qed

section \<open>Canonical values\<close>

text \<open>
  \<open>canon a\<close> is the integer below \<open>p\<close> the Montgomery limbs \<open>a\<close> stand for; \<open>fr_rinv\<close> is \<open>1 / 2 ^ 256\<close>
  modulo \<open>p\<close>.
\<close>

definition fr_rinv :: nat where
  "fr_rinv = 0x15ebf95182c5551cc8260de4aeb85d5d090ef5a9e111ec87dc5ba0056db1194e"

definition fr_radix :: nat where
  "fr_radix = 2 ^ 256"

lemma rinv: "(fr_radix * fr_rinv) mod fr_p = 1"
  by (simp add: fr_rinv_def fr_p_def fr_radix_def)

lemma cancel_rinv: "(x * fr_radix * fr_rinv) mod fr_p = x mod fr_p"
proof -
  have "(x * fr_radix * fr_rinv) mod fr_p = (x * ((fr_radix * fr_rinv) mod fr_p)) mod fr_p"
    by (simp add: mod_mult_right_eq mult.assoc)
  then show ?thesis
    by (simp add: rinv)
qed

lemma cancel_radix:
  assumes "(fr_radix * x) mod fr_p = y mod fr_p" "x < fr_p"
  shows "x = (y * fr_rinv) mod fr_p"
proof -
  have "(y * fr_rinv) mod fr_p = ((fr_radix * x) mod fr_p * fr_rinv) mod fr_p"
    unfolding assms(1) by (simp add: mod_mult_left_eq)
  also have "\<dots> = (x * fr_radix * fr_rinv) mod fr_p"
    by (simp add: mod_mult_left_eq mod_mult_right_eq mult.commute)
  also have "\<dots> = x"
    using assms(2) by (simp add: cancel_rinv)
  finally show ?thesis by simp
qed

definition canon :: "fr \<Rightarrow> nat" where
  "canon x = (limbs_val (fr_limbs x) * fr_rinv) mod fr_p"

definition fr_ok :: "fr \<Rightarrow> bool" where
  "fr_ok x \<longleftrightarrow> limbs_ok (fr_limbs x)"

lemma canon_less: "canon x < fr_p"
  by (simp add: canon_def fr_p_def)

lemma fr_p_pos: "0 < fr_p"
  by (simp add: fr_p_def)

lemma fr_add_ok: "fr_ok x \<Longrightarrow> fr_ok y \<Longrightarrow> fr_ok (fr_add x y)"
  and fr_add_canon: "fr_ok x \<Longrightarrow> fr_ok y \<Longrightarrow> canon (fr_add x y) = (canon x + canon y) mod fr_p"
  using add_limbs_val [of "fr_limbs x" "fr_limbs y"]
  by (simp_all add: fr_ok_def fr_add_def canon_def mod_simps add_mult_distrib)

lemma fr_mul_ok: "fr_ok x \<Longrightarrow> fr_ok y \<Longrightarrow> fr_ok (fr_mul x y)"
  using mont_mul_val [of "fr_limbs x" "fr_limbs y"] by (simp add: fr_ok_def fr_mul_def limbs_ok_def)

lemma mont_mul_eq:
  assumes "limbs_ok a" "length b = 4"
  shows "limbs_val (mont_mul a b) = (limbs_val a * limbs_val b * fr_rinv) mod fr_p"
  using mont_mul_val [OF assms] by (intro cancel_radix) (simp_all only: limbs_ok_def fr_radix_def)

lemma fr_mul_canon:
  assumes "fr_ok x" "fr_ok y"
  shows "canon (fr_mul x y) = (canon x * canon y) mod fr_p"
proof -
  let ?a = "limbs_val (fr_limbs x)" and ?b = "limbs_val (fr_limbs y)"
  have "canon (fr_mul x y) = ((?a * ?b * fr_rinv) mod fr_p * fr_rinv) mod fr_p"
    using assms mont_mul_eq [of "fr_limbs x" "fr_limbs y"]
    by (simp add: canon_def fr_mul_def fr_ok_def limbs_ok_def)
  also have "\<dots> = ((?a * fr_rinv) * (?b * fr_rinv)) mod fr_p"
    by (simp add: mod_mult_left_eq mod_mult_right_eq mult.commute mult.left_commute)
  also have "\<dots> = (canon x * canon y) mod fr_p"
    by (simp add: canon_def mod_mult_eq)
  finally show ?thesis .
qed

lemma fr_square_mul: "fr_square x = fr_mul x x"
  by (simp add: fr_square_def fr_mul_def)

lemma fr_consts:
  "fr_ok fr_zero" "canon fr_zero = 0" "fr_ok fr_one" "canon fr_one = 1"
  "fr_ok fr_minus_one" "canon fr_minus_one = fr_p - 1"
  by (simp_all add: fr_ok_def canon_def fr_zero_def fr_one_def fr_minus_one_def limbs_ok_def FR_R_def
      MINUS_ONE_MONTGOMERY_def fr_p_def fr_rinv_def)

lemma canon_cancel:
  assumes "fr_ok x"
  shows "(canon x * fr_radix) mod fr_p = limbs_val (fr_limbs x)"
proof -
  have "(canon x * fr_radix) mod fr_p = (limbs_val (fr_limbs x) * fr_radix * fr_rinv) mod fr_p"
    by (simp add: canon_def mod_mult_right_eq mult.commute mult.left_commute)
  also have "\<dots> = limbs_val (fr_limbs x)"
    using assms by (simp add: cancel_rinv fr_ok_def limbs_ok_def)
  finally show ?thesis .
qed

text \<open>The representation is canonical: equal field elements are equal limbs.\<close>

lemma canon_inject: "fr_ok x \<Longrightarrow> fr_ok y \<Longrightarrow> canon x = canon y \<Longrightarrow> x = y"
  using canon_cancel [of x] canon_cancel [of y] limbs_val_unique [of "fr_limbs x" "fr_limbs y"]
  by (cases x; cases y) (simp add: fr_ok_def limbs_ok_def)

lemma fr_sub_ok: "fr_ok x \<Longrightarrow> fr_ok y \<Longrightarrow> fr_ok (fr_sub x y)"
  and fr_sub_canon: "fr_ok x \<Longrightarrow> fr_ok y \<Longrightarrow> (canon (fr_sub x y) + canon y) mod fr_p = canon x"
proof -
  assume ok: "fr_ok x" "fr_ok y"
  then have v: "limbs_ok (sub_limbs (fr_limbs x) (fr_limbs y))"
    "(limbs_val (sub_limbs (fr_limbs x) (fr_limbs y)) + limbs_val (fr_limbs y)) mod fr_p = limbs_val (fr_limbs x) mod fr_p"
    using sub_limbs_val [of "fr_limbs x" "fr_limbs y"] by (auto simp: fr_ok_def limbs_ok_def)
  show "fr_ok (fr_sub x y)"
    using v by (simp add: fr_ok_def fr_sub_def)
  have "(canon (fr_sub x y) + canon y) mod fr_p
      = ((limbs_val (sub_limbs (fr_limbs x) (fr_limbs y)) + limbs_val (fr_limbs y)) * fr_rinv) mod fr_p"
    by (simp add: canon_def fr_sub_def mod_simps add_mult_distrib)
  also have "\<dots> = canon x"
    using v(2) unfolding canon_def by (metis mod_mult_left_eq)
  finally show "(canon (fr_sub x y) + canon y) mod fr_p = canon x" .
qed

lemma fr_neg_ok: "fr_ok x \<Longrightarrow> fr_ok (fr_neg x)"
  and fr_neg_canon: "fr_ok x \<Longrightarrow> (canon (fr_neg x) + canon x) mod fr_p = 0"
proof -
  assume ok: "fr_ok x"
  have "fr_ok (fr_neg x) \<and> (canon (fr_neg x) + canon x) mod fr_p = 0"
  proof (cases "fr_limbs x = [0, 0, 0, 0]")
    case True
    then show ?thesis
      by (simp add: fr_neg_def neg_limbs_def canon_def fr_ok_def limbs_ok_def fr_p_pos)
  next
    case False
    have "limbs_val (fr_limbs x) \<noteq> 0"
      using False ok limbs_val_unique [of "fr_limbs x" "[0, 0, 0, 0]"]
      by (auto simp: fr_ok_def limbs_ok_def)
    then have v: "limbs_ok (sub_limbs FR_MODULUS (fr_limbs x))"
      "(limbs_val (sub_limbs FR_MODULUS (fr_limbs x)) + limbs_val (fr_limbs x)) mod fr_p = fr_p mod fr_p"
      using sub_limbs_val [of FR_MODULUS "fr_limbs x"] ok
      by (auto simp: fr_ok_def limbs_ok_def length_modulus limbs_val_modulus)
    have "(canon (fr_neg x) + canon x) mod fr_p
        = ((limbs_val (sub_limbs FR_MODULUS (fr_limbs x)) + limbs_val (fr_limbs x)) * fr_rinv) mod fr_p"
      using False by (simp add: canon_def fr_neg_def neg_limbs_def mod_simps add_mult_distrib)
    also have "\<dots> = 0"
      using v(2) by (metis mod_mult_left_eq mod_self mult_0 mod_0)
    finally show ?thesis
      using v(1) False by (simp add: fr_neg_def neg_limbs_def fr_ok_def)
  qed
  then show "fr_ok (fr_neg x)" "(canon (fr_neg x) + canon x) mod fr_p = 0"
    by auto
qed

section \<open>Exponentiation\<close>

lemma shr_and_1_u64: "shr (w::u64) n AND 1 = 1 \<longleftrightarrow> bit w n"
  by (simp add: and_one_eq odd_iff_mod_2_eq_one [symmetric] bit_iff_odd drop_bit_eq_div)

lemma pow_bit_canon:
  assumes "fr_ok x" "fr_ok acc" "canon acc = canon x ^ e mod fr_p"
  shows "fr_ok (pow_bit x limb acc b) \<and>
    canon (pow_bit x limb acc b) = canon x ^ (2 * e + of_bool (bit limb b)) mod fr_p"
proof -
  have sq: "canon (fr_mul acc acc) = canon x ^ (2 * e) mod fr_p"
    using assms by (simp add: fr_mul_canon mod_mult_eq mult_2 power_add)
  have "canon (fr_mul (fr_mul acc acc) x) = canon x ^ (2 * e + 1) mod fr_p"
    using assms sq by (simp add: fr_mul_canon fr_mul_ok mod_mult_left_eq mod_mult_right_eq mult.commute)
  with sq show ?thesis
    using assms by (auto simp: pow_bit_def Let_def fr_square_mul shr_and_1_u64 fr_mul_ok)
qed

lemma pow_limb_canon:
  assumes "fr_ok x" "fr_ok acc" "canon acc = canon x ^ e mod fr_p"
  shows "fr_ok (foldl (pow_bit x limb) acc (rev [0..<k])) \<and>
    canon (foldl (pow_bit x limb) acc (rev [0..<k])) = canon x ^ (2 ^ k * e + take_bit k (unat limb)) mod fr_p"
  using assms(2,3)
proof (induction k arbitrary: acc e)
  case (Suc k)
  let ?acc = "pow_bit x limb acc k" and ?e = "2 * e + of_bool (bit limb k)"
  have "2 ^ k * ?e + take_bit k (unat limb) = 2 ^ Suc k * e + take_bit (Suc k) (unat limb)"
    by (simp add: take_bit_Suc_from_most bit_unsigned_iff add_mult_distrib2)
  then show ?case
    using Suc.IH [of ?acc ?e] pow_bit_canon [OF assms(1) Suc.prems, of limb k] by simp
qed simp

lemma pow_limbs_canon:
  assumes "fr_ok x" "fr_ok acc" "canon acc = canon x ^ e mod fr_p"
  shows "fr_ok (foldl (\<lambda>acc limb. foldl (pow_bit x limb) acc (rev [0..<64])) acc (rev es)) \<and>
    canon (foldl (\<lambda>acc limb. foldl (pow_bit x limb) acc (rev [0..<64])) acc (rev es))
      = canon x ^ (2 ^ (64 * length es) * e + limbs_val es) mod fr_p"
proof (induction es)
  case (Cons l es)
  let ?e = "2 ^ (64 * length es) * e + limbs_val es"
  have "2 ^ 64 * ?e + take_bit 64 (unat l) = 2 ^ (64 * length (l # es)) * e + limbs_val (l # es)"
    using unat_u64_less [of l] by (simp add: take_bit_eq_mod power_add)
  then show ?case
    using pow_limb_canon [OF assms(1) Cons.IH [THEN conjunct1] Cons.IH [THEN conjunct2], of l 64]
    by (simp only: rev.simps foldl_append foldl.simps)
qed (use assms in simp)

lemma fr_pow_ok: "fr_ok x \<Longrightarrow> fr_ok (fr_pow x e)"
  and fr_pow_canon: "fr_ok x \<Longrightarrow> canon (fr_pow x e) = canon x ^ limbs_val e mod fr_p"
  using pow_limbs_canon [of x fr_one 0 e] by (simp_all add: fr_pow_def fr_consts fr_p_def)

section \<open>Encodings\<close>

lemma bit_le_u64: "bit (le_u64 b) n \<longleftrightarrow> n < 64 \<and> n div 8 < length b \<and> bit (b ! (n div 8)) (n mod 8)"
proof (induction b arbitrary: n)
  case (Cons x b)
  show ?case
  proof (cases "n < 8")
    case True
    then show ?thesis by (simp add: le_u64_def bit_simps)
  next
    case False
    then have "n div 8 = Suc ((n - 8) div 8)" "n mod 8 = (n - 8) mod 8"
      by (simp_all add: le_div_geq le_mod_geq)
    then show ?thesis
      using False Cons.IH [of "n - 8"] bit_imp_le_length [of x n]
      by (auto simp: le_u64_def bit_simps)
  qed
qed (simp add: le_u64_def)

lemma u64_le_bytes_upt: "u64_le_bytes w = map (\<lambda>i. ucast (shr w (8 * i))) [0..<8]"
  by (simp add: u64_le_bytes_def upt_0_8)

lemma length_u64_le_bytes: "length (u64_le_bytes w) = 8"
  by (simp add: u64_le_bytes_def)

lemma le_u64_bytes: "le_u64 (u64_le_bytes w) = w"
proof (rule bit_word_eqI)
  fix n assume "n < LENGTH(64)"
  then have "n div 8 < 8" "8 * (n div 8) + n mod 8 = n" "n mod 8 < 8"
    by simp_all
  then show "bit (le_u64 (u64_le_bytes w)) n = bit w n"
    using \<open>n < LENGTH(64)\<close>
    by (simp add: bit_le_u64 length_u64_le_bytes u64_le_bytes_upt bit_ucast_iff bit_drop_bit_eq del: upt_rec_numeral)
qed

lemma u64_bytes_le: "length b = 8 \<Longrightarrow> u64_le_bytes (le_u64 b) = b"
proof (rule nth_equalityI)
  fix i assume b: "length b = 8" and "i < length (u64_le_bytes (le_u64 b))"
  then have i: "i < 8" by (simp add: length_u64_le_bytes)
  show "u64_le_bytes (le_u64 b) ! i = b ! i"
  proof (rule bit_word_eqI)
    fix n assume "n < LENGTH(8)"
    then have "(8 * i + n) div 8 = i" "(8 * i + n) mod 8 = n" "8 * i + n < 64"
      using i by simp_all
    then show "bit (u64_le_bytes (le_u64 b) ! i) n = bit (b ! i) n"
      using b i \<open>n < LENGTH(8)\<close>
      by (simp add: bit_le_u64 u64_le_bytes_upt bit_ucast_iff bit_drop_bit_eq del: upt_rec_numeral)
  qed
qed (simp add: length_u64_le_bytes)

lemma length_limbs_bytes: "length (limbs_bytes ls) = 8 * length ls"
  by (induction ls) (simp_all add: limbs_bytes_def length_u64_le_bytes)

lemma list4_cases: "length ls = 4 \<Longrightarrow> \<exists>a b c d. ls = [a, b, c, d]"
  by (auto simp: length_Suc_conv numeral_eq_Suc)

lemma bytes_limbs_limbs: "length ls = 4 \<Longrightarrow> bytes_limbs (limbs_bytes ls) = ls"
  by (drule list4_cases) (auto simp: bytes_limbs_def limbs_bytes_def le_u64_bytes length_u64_le_bytes)

lemma limbs_bytes_bytes: "length b = 32 \<Longrightarrow> limbs_bytes (bytes_limbs b) = b"
proof -
  assume b: "length b = 32"
  have "b = take 8 b @ take 8 (drop 8 b) @ take 8 (drop 16 b) @ take 8 (drop 24 b)"
    using b append_take_drop_id [of 8 b] append_take_drop_id [of 8 "drop 8 b"]
      append_take_drop_id [of 8 "drop 16 b"] by simp
  then show ?thesis
    using b by (simp add: limbs_bytes_def bytes_limbs_def u64_bytes_le)
qed

lemma length_bytes_limbs: "length (bytes_limbs b) = 4"
  by (simp add: bytes_limbs_def)

lemma limbs_ok_one: "length [1, 0, 0, 0 :: u64] = 4"
  by simp

lemma from_montgomery_canon: "fr_ok x \<Longrightarrow> limbs_val (from_montgomery (fr_limbs x)) = canon x"
  using mont_mul_eq [of "fr_limbs x" "[1, 0, 0, 0]"]
  by (simp add: from_montgomery_def canon_def fr_ok_def)

lemma from_montgomery_ok: "fr_ok x \<Longrightarrow> limbs_ok (from_montgomery (fr_limbs x))"
  using mont_mul_val(1) [of "fr_limbs x" "[1, 0, 0, 0]"]
  by (simp add: from_montgomery_def fr_ok_def)

lemma fr_r2: "(limbs_val FR_R2 * fr_rinv) mod fr_p = fr_radix mod fr_p"
  by (simp add: FR_R2_def fr_rinv_def fr_p_def fr_radix_def)

text \<open>Entering Montgomery form multiplies by \<open>R ^ 2\<close>.\<close>

lemma to_mont_canon:
  assumes "limbs_ok ls"
  shows "fr_ok (Fr (mont_mul ls FR_R2))" "canon (Fr (mont_mul ls FR_R2)) = limbs_val ls"
proof -
  have len: "length FR_R2 = 4"
    by (simp add: FR_R2_def)
  show "fr_ok (Fr (mont_mul ls FR_R2))"
    using mont_mul_val(1) [OF assms len] by (simp add: fr_ok_def)
  have "limbs_val (mont_mul ls FR_R2) = (limbs_val ls * (limbs_val FR_R2 * fr_rinv mod fr_p)) mod fr_p"
    unfolding mont_mul_eq [OF assms len] by (simp add: mod_mult_right_eq mult.assoc)
  also have "\<dots> = (limbs_val ls * fr_radix) mod fr_p"
    unfolding fr_r2 by (simp add: mod_mult_right_eq)
  finally have "canon (Fr (mont_mul ls FR_R2)) = (limbs_val ls * fr_radix * fr_rinv) mod fr_p"
    by (simp add: canon_def mod_mult_left_eq)
  then show "canon (Fr (mont_mul ls FR_R2)) = limbs_val ls"
    using assms by (simp add: cancel_rinv limbs_ok_def)
qed

lemma from_bytes_Some:
  assumes "from_bytes b = Some x"
  shows "fr_ok x" "canon x = limbs_val (bytes_limbs b)"
proof -
  have "limbs_ok (bytes_limbs b)" "x = Fr (mont_mul (bytes_limbs b) FR_R2)"
    using assms by (auto simp: from_bytes_def Let_def limbs_ok_def length_bytes_limbs is_ge_modulus_val
        split: if_splits)
  then show "fr_ok x" "canon x = limbs_val (bytes_limbs b)"
    using to_mont_canon by simp_all
qed

lemma from_bytes_to_bytes: "fr_ok x \<Longrightarrow> from_bytes (to_bytes x) = Some x"
proof -
  assume ok: "fr_ok x"
  let ?ls = "from_montgomery (fr_limbs x)"
  have ls: "limbs_ok ?ls" "bytes_limbs (to_bytes x) = ?ls"
    using from_montgomery_ok [OF ok] by (simp_all add: to_bytes_def bytes_limbs_limbs limbs_ok_def)
  then have "from_bytes (to_bytes x) = Some (Fr (mont_mul ?ls FR_R2))"
    by (simp add: from_bytes_def is_ge_modulus_val limbs_ok_def)
  moreover have "Fr (mont_mul ?ls FR_R2) = x"
    using to_mont_canon [OF ls(1)] ok from_montgomery_canon by (intro canon_inject) simp_all
  ultimately show ?thesis by simp
qed

lemma to_bytes_from_bytes:
  assumes "length b = 32" "from_bytes b = Some x"
  shows "to_bytes x = b"
proof -
  have "limbs_val (from_montgomery (fr_limbs x)) = limbs_val (bytes_limbs b)"
    using from_bytes_Some [OF assms(2)] from_montgomery_canon by simp
  moreover have "length (from_montgomery (fr_limbs x)) = length (bytes_limbs b)"
    using from_montgomery_ok from_bytes_Some(1) [OF assms(2)]
    by (simp add: limbs_ok_def length_bytes_limbs)
  ultimately have "from_montgomery (fr_limbs x) = bytes_limbs b"
    using limbs_val_unique by blast
  then show ?thesis
    using limbs_bytes_bytes [OF assms(1)] by (simp add: to_bytes_def)
qed

section \<open>Batch inversion is inversion\<close>

text \<open>The product of the nonzero elements, as an integer.\<close>

definition nonzero_product :: "fr list \<Rightarrow> nat" where
  "nonzero_product xs = prod_list (map (\<lambda>x. if x = fr_zero then 1 else canon x) xs)"

lemma nonzero_product_simps [simp]:
  "nonzero_product [] = 1"
  "nonzero_product (x # xs) = (if x = fr_zero then 1 else canon x) * nonzero_product xs"
  "nonzero_product (xs @ ys) = nonzero_product xs * nonzero_product ys"
  by (simp_all add: nonzero_product_def)

lemma prefix_products_canon:
  assumes "\<forall>x \<in> set xs. fr_ok x" "fr_ok r" "prefix_products r xs = (ps, tot)"
  shows "fr_ok tot \<and> canon tot = canon r * nonzero_product xs mod fr_p \<and> length ps = length xs \<and>
    (\<forall>k < length xs. fr_ok (ps ! k) \<and> canon (ps ! k) = canon r * nonzero_product (take k xs) mod fr_p)"
  using assms
proof (induction xs arbitrary: r ps)
  case Nil
  then show ?case
    using canon_less [of r] by simp
next
  case (Cons x xs)
  let ?r = "if x \<noteq> fr_zero then fr_mul r x else r"
  obtain ps' where ps': "prefix_products ?r xs = (ps', tot)" "ps = r # ps'"
    using Cons.prems(3) by (auto split: prod.splits simp: Let_def)
  have r: "fr_ok ?r" "canon ?r = canon r * (if x = fr_zero then 1 else canon x) mod fr_p"
    using Cons.prems canon_less [of r] by (simp_all add: fr_mul_ok fr_mul_canon)
  have shift: "canon ?r * n mod fr_p = canon r * ((if x = fr_zero then 1 else canon x) * n) mod fr_p" for n
    unfolding r(2) by (simp add: mod_mult_left_eq mult.assoc)
  have ih: "fr_ok tot \<and> canon tot = canon ?r * nonzero_product xs mod fr_p \<and> length ps' = length xs \<and>
    (\<forall>k < length xs. fr_ok (ps' ! k) \<and> canon (ps' ! k) = canon ?r * nonzero_product (take k xs) mod fr_p)"
    using Cons.IH [OF _ r(1) ps'(1)] Cons.prems(1) by simp
  have "fr_ok (ps ! k) \<and> canon (ps ! k) = canon r * nonzero_product (take k (x # xs)) mod fr_p"
    if "k < length (x # xs)" for k
    using that ih Cons.prems(2) canon_less [of r] unfolding shift by (cases k) (auto simp: ps'(2))
  then show ?case
    using ih ps'(2) unfolding shift by simp
qed

text \<open>
  The sweep back, over the reversed list: the running inverse times the product of what is left is 1.
\<close>

lemma invert_back_canon:
  assumes "\<forall>x \<in> set xs. fr_ok x" "length ps = length xs" "fr_ok i"
    "\<forall>k < length xs. fr_ok (ps ! k) \<and> canon (ps ! k) = nonzero_product (take k xs) mod fr_p"
    "canon i * nonzero_product xs mod fr_p = 1"
  shows "length (invert_back i (rev (zip xs ps))) = length xs \<and>
    (\<forall>k < length xs. let y = rev (invert_back i (rev (zip xs ps))) ! k in
       if xs ! k = fr_zero then y = fr_zero else fr_ok y \<and> canon (xs ! k) * canon y mod fr_p = 1)"
  using assms
proof (induction xs arbitrary: ps i rule: rev_induct)
  case (snoc x xs)
  obtain ps' p where ps: "ps = ps' @ [p]" "length ps' = length xs"
    using snoc.prems(2) by (cases ps rule: rev_cases) auto
  have ps': "\<forall>k < length xs. fr_ok (ps' ! k) \<and> canon (ps' ! k) = nonzero_product (take k xs) mod fr_p"
    using snoc.prems(4) by (auto simp: ps nth_append dest!: spec split: if_splits)
  have p: "fr_ok p" "canon p = nonzero_product xs mod fr_p"
    using snoc.prems(4) by (auto simp: ps nth_append)
  show ?case
  proof (cases "x = fr_zero")
    case True
    then have "canon i * nonzero_product xs mod fr_p = 1"
      using snoc.prems(5) by simp
    then show ?thesis
      using snoc.IH [OF _ ps(2) snoc.prems(3) ps'] snoc.prems(1) ps True
      by (auto simp: nth_append Let_def less_Suc_eq)
  next
    case False
    have x: "fr_ok x" using snoc.prems(1) by simp
    have "canon (fr_mul i x) * nonzero_product xs mod fr_p = 1"
      using snoc.prems(3,5) x False by (simp add: fr_mul_canon mod_mult_left_eq mod_mult_right_eq mult.commute mult.left_commute)
    note ih = snoc.IH [OF _ ps(2) fr_mul_ok [OF snoc.prems(3) x] ps' this]
    have "canon x * canon (fr_mul i p) mod fr_p = canon i * (nonzero_product xs * canon x) mod fr_p"
      using snoc.prems(3) p by (simp add: fr_mul_canon mod_mult_right_eq mult.commute mult.left_commute)
    then have "canon x * canon (fr_mul i p) mod fr_p = 1"
      using snoc.prems(5) False by simp
    then show ?thesis
      using ih snoc.prems(1,3) ps p False
      by (auto simp: nth_append Let_def less_Suc_eq fr_mul_ok)
  qed
qed simp

section \<open>The properties\<close>



text \<open>C30: \<open>from_bytes\<close> and \<open>to_bytes\<close> are inverse: 32 bytes decode to an element exactly when they are
  its one canonical encoding.\<close>

theorem fr_bytes_roundtrip:
  "length b = 32 \<Longrightarrow> from_bytes b = Some x \<longleftrightarrow> fr_ok x \<and> to_bytes x = b"
  using from_bytes_to_bytes from_bytes_Some(1) to_bytes_from_bytes by blast

theorem fr_bytes_roundtrip_witness: "from_bytes (replicate 32 0) = Some fr_zero"
proof -
  have "to_bytes fr_zero = replicate 32 0"
  proof -
    have "limbs_val (from_montgomery [0, 0, 0, 0]) = limbs_val [0, 0, 0, 0]"
      "length (from_montgomery [0, 0, 0, 0]) = length [0, 0, 0, 0 :: u64]"
      using from_montgomery_canon [of fr_zero] from_montgomery_ok [of fr_zero] fr_consts
      by (simp_all add: fr_zero_def limbs_ok_def)
    then have "from_montgomery [0, 0, 0, 0] = [0, 0, 0, 0]"
      using limbs_val_unique by blast
    then show ?thesis
      by (simp add: to_bytes_def fr_zero_def limbs_bytes_def u64_le_bytes_def numeral_eq_Suc)
  qed
  then show ?thesis
    using fr_bytes_roundtrip [of "replicate 32 0" fr_zero] fr_consts by simp
qed



end
