(* ===== verification/Initial_Memory.thy ===== *)
theory Initial_Memory
  imports Image
begin

text \<open>
  What every RAM word holds before the first cycle: the layouts of the public windows
  (\<open>public_io_words\<close> of \<open>crates/verifier-core/src/statement.rs\<close>) and of the advice region
  (\<open>crates/trace/src/lib.rs\<close>), and \<open>InitialMemory\<close> of \<open>crates/trace/src/log.rs\<close>.
\<close>

unbundle bit_operations_syntax

section \<open>Regions\<close>

definition in_ram :: "u32 \<Rightarrow> bool" where
  "in_ram addr \<longleftrightarrow> addr \<ge> RAM_ORIGIN \<and> addr - RAM_ORIGIN < RAM_LENGTH"

definition addressable :: "u32 \<Rightarrow> bool" where
  "addressable addr \<longleftrightarrow>
     (let public = (addr \<ge> PUBLIC_INPUT_ORIGIN \<and> addr - PUBLIC_INPUT_ORIGIN < 2 * PUBLIC_WINDOW_BYTES) in
      in_ram addr \<or> public \<or> addr \<ge> ADVICE_ORIGIN)"

section \<open>The public windows\<close>

text \<open>\<open>chunks(4)\<close>: the last chunk may be short.\<close>

fun chunks4 :: "'a list \<Rightarrow> 'a list list" where
  "chunks4 [] = []"
| "chunks4 [a] = [[a]]"
| "chunks4 [a, b] = [[a, b]]"
| "chunks4 [a, b, c] = [[a, b, c]]"
| "chunks4 (a # b # c # d # rest) = [a, b, c, d] # chunks4 rest"

text \<open>A byte of a list, and 0 past its end.\<close>

definition byte_at :: "u8 list \<Rightarrow> nat \<Rightarrow> u8" where
  "byte_at bs i = (if i < length bs then bs ! i else 0)"

definition chunk_word :: "u8 list \<Rightarrow> u32" where
  "chunk_word chunk = le32 (byte_at chunk 0) (byte_at chunk 1) (byte_at chunk 2) (byte_at chunk 3)"

definition public_io_words :: "u8 list \<Rightarrow> 'e fault + u32 list" where
  "public_io_words bytes =
     bind_res (ensure (length bytes \<le> unat PUBLIC_PAYLOAD_BYTES)) (\<lambda>_.
       Inr (foldl (\<lambda>words (i, chunk). words[1 + i := chunk_word chunk])
         ((replicate (unat PUBLIC_WINDOW_HEIGHT) 0)[0 := of_nat (length bytes)])
         (enumerate 0 (chunks4 bytes))))"

section \<open>The advice region\<close>

text \<open>\<open>checked_sub(1)\<close> of the word index picks the length word or a payload word.\<close>

definition advice_word :: "u8 list \<Rightarrow> nat \<Rightarrow> u32" where
  "advice_word advice index =
     (case index of
        0 \<Rightarrow> of_nat (length advice)
      | Suc i \<Rightarrow>
          (let at = 4 * i in
           le32 (byte_at advice at) (byte_at advice (at + 1)) (byte_at advice (at + 2)) (byte_at advice (at + 3))))"

definition div_ceil :: "nat \<Rightarrow> nat \<Rightarrow> nat" where
  "div_ceil n d = (if n mod d = 0 then n div d else n div d + 1)"

definition advice_region_words :: "u8 list \<Rightarrow> nat" where
  "advice_region_words advice = (if advice = [] then 0 else 1 + div_ceil (length advice) 4)"

definition advice_window_count :: "u8 list \<Rightarrow> u32 \<Rightarrow> 'e fault + u32" where
  "advice_window_count advice height =
     bind_res (ensure (height \<noteq> 0)) (\<lambda>_.
       let n = div_ceil (advice_region_words advice) (unat height) in
       if n < 2 ^ 32 then Inr (of_nat n) else panic)"

section \<open>The initial word\<close>

record initial_memory =
  im_image :: program_image
  im_public_input :: "u8 list"
  im_advice :: "u8 list"

definition memory_word :: "initial_memory \<Rightarrow> u32 \<Rightarrow> 'e fault + u32" where
  "memory_word im addr =
     (if in_ram addr then Inr (initial_word (im_image im) addr)
      else if addr \<ge> ADVICE_ORIGIN then
        Inr (advice_word (im_advice im) (unat (addr - ADVICE_ORIGIN) div 4))
      else if addr \<ge> PUBLIC_INPUT_ORIGIN \<and> addr - PUBLIC_INPUT_ORIGIN < PUBLIC_WINDOW_BYTES then
        (let y = unat ((addr - PUBLIC_INPUT_ORIGIN) div 4) in
         bind_res (public_io_words (im_public_input im)) (\<lambda>words. idx words y))
      else Inr 0)"

section \<open>The layout of a public window\<close>

lemma length_chunks4: "length (chunks4 bs) = (length bs + 3) div 4"
  by (induction bs rule: chunks4.induct) auto

lemma chunks4_nth:
  "i < length (chunks4 bs) \<Longrightarrow>
    chunk_word (chunks4 bs ! i) = le32 (byte_at bs (4 * i)) (byte_at bs (4 * i + 1)) (byte_at bs (4 * i + 2)) (byte_at bs (4 * i + 3))"
proof (induction bs arbitrary: i rule: chunks4.induct)
  case (5 a b c d rest)
  have "byte_at (a # b # c # d # rest) (4 + n) = byte_at rest n" for n
    by (simp add: byte_at_def)
  then have "byte_at (a # b # c # d # rest) (4 * Suc j + k) = byte_at rest (4 * j + k)" for j k
    by (metis mult_Suc_right add.assoc)
  from this [of _ 0] this [of _ 1] this [of _ 2] this [of _ 3] 5 show ?case
    by (cases i) (simp_all add: chunk_word_def byte_at_def)
qed (auto simp: chunk_word_def byte_at_def)

lemma foldl_enumerate_update:
  "foldl (\<lambda>words (i, chunk). words[Suc i := f chunk]) ws (enumerate n cs) =
     map (\<lambda>j. if Suc n \<le> j \<and> j \<le> n + length cs then f (cs ! (j - Suc n)) else ws ! j) [0..<length ws]"
proof (induction cs arbitrary: n ws)
  case (Cons c cs)
  show ?case
    by (simp only: enumerate_simps foldl.simps case_prod_conv Cons.IH length_list_update)
      (auto simp: nth_Cons' nth_list_update)
next
  case Nil
  show ?case
    by (rule nth_equalityI) auto
qed

text \<open>Word by word: the byte length, then the payload, then zeros.\<close>

lemma public_io_words_nth:
  assumes "public_io_words bytes = Inr ws"
  shows "length ws = 4096" "length bytes \<le> 16380" "ws ! 0 = of_nat (length bytes)"
    "i < 4095 \<Longrightarrow> ws ! Suc i = le32 (byte_at bytes (4 * i)) (byte_at bytes (4 * i + 1))
        (byte_at bytes (4 * i + 2)) (byte_at bytes (4 * i + 3))"
proof -
  have len: "length bytes \<le> 16380"
    using assms by (simp add: public_io_words_def guest_memory_defs)
  have ws: "ws = map (\<lambda>j. if 1 \<le> j \<and> j \<le> length (chunks4 bytes) then chunk_word (chunks4 bytes ! (j - 1))
      else ((replicate 4096 0)[0 := of_nat (length bytes)]) ! j) [0..<4096]"
    using assms
    by (auto simp add: public_io_words_def foldl_enumerate_update [of chunk_word] guest_memory_defs
        simp del: upt_rec_numeral)
  show "length ws = 4096" "ws ! 0 = of_nat (length bytes)"
    by (simp_all add: ws del: upt_rec_numeral)
  show "length bytes \<le> 16380" by (fact len)
  show "ws ! Suc i = le32 (byte_at bytes (4 * i)) (byte_at bytes (4 * i + 1))
        (byte_at bytes (4 * i + 2)) (byte_at bytes (4 * i + 3))" if "i < 4095"
  proof (cases "i < length (chunks4 bytes)")
    case True
    then show ?thesis
      using that by (simp add: ws chunks4_nth del: upt_rec_numeral)
  next
    case False
    then have "length bytes \<le> 4 * i"
      by (simp add: length_chunks4)
    then show ?thesis
      using that False by (simp add: ws byte_at_def le32_def del: upt_rec_numeral)
  qed
qed


text \<open>The advice region is laid out the same way, without an end.\<close>

lemma le32_inject: "le32 a b c d = le32 a' b' c' d' \<longleftrightarrow> a = a' \<and> b = b' \<and> c = c' \<and> d = d'"
proof
  assume eq: "le32 a b c d = le32 a' b' c' d'"
  have bytes: "ucast (le32 p q r s) = p" "ucast (shr (le32 p q r s) 8) = q" "ucast (shr (le32 p q r s) 16) = r"
    "ucast (shr (le32 p q r s) 24) = s" for p q r s :: u8
    by (rule bit_word_eqI, auto simp: le32_def bit_simps dest: bit_imp_le_length)+
  show "a = a' \<and> b = b' \<and> c = c' \<and> d = d'"
    using bytes [of a b c d] bytes [of a' b' c' d'] eq by metis
qed simp

lemma byte_at_inject:
  "length bs = length bs' \<Longrightarrow> (\<And>i. i < length bs \<Longrightarrow> byte_at bs i = byte_at bs' i) \<Longrightarrow> bs = bs'"
  by (rule nth_equalityI) (auto simp: byte_at_def)

text \<open>C32: A public window binds its byte string: two payloads with the same window are equal, because
  word 0 is the byte length and the payload follows.\<close>

theorem public_io_words_inject:
  assumes "public_io_words bytes = Inr ws" "public_io_words bytes' = Inr ws"
  shows "bytes = bytes'"
proof (rule byte_at_inject)
  note w = public_io_words_nth [OF assms(1)] and w' = public_io_words_nth [OF assms(2)]
  have "(of_nat (length bytes) :: u32) = of_nat (length bytes')"
    using w(3) w'(3) by simp
  then have "unat (of_nat (length bytes) :: u32) = unat (of_nat (length bytes') :: u32)"
    by simp
  then show "length bytes = length bytes'"
    using w(2) w'(2) by (simp add: unat_of_nat)
  fix i assume "i < length bytes"
  then have q: "i div 4 < 4095"
    using w(2) by simp
  have "le32 (byte_at bytes (4 * (i div 4))) (byte_at bytes (4 * (i div 4) + 1))
        (byte_at bytes (4 * (i div 4) + 2)) (byte_at bytes (4 * (i div 4) + 3))
      = le32 (byte_at bytes' (4 * (i div 4))) (byte_at bytes' (4 * (i div 4) + 1))
        (byte_at bytes' (4 * (i div 4) + 2)) (byte_at bytes' (4 * (i div 4) + 3))"
    using w(4) [OF q] w'(4) [OF q] by simp
  then have bytes: "byte_at bytes (4 * (i div 4)) = byte_at bytes' (4 * (i div 4))"
    "byte_at bytes (4 * (i div 4) + 1) = byte_at bytes' (4 * (i div 4) + 1)"
    "byte_at bytes (4 * (i div 4) + 2) = byte_at bytes' (4 * (i div 4) + 2)"
    "byte_at bytes (4 * (i div 4) + 3) = byte_at bytes' (4 * (i div 4) + 3)"
    unfolding le32_inject by blast+
  have "byte_at bytes (4 * (i div 4) + r) = byte_at bytes' (4 * (i div 4) + r)" if "r < 4" for r
  proof -
    have "r = 0 \<or> r = 1 \<or> r = 2 \<or> r = 3"
      using that by linarith
    then show ?thesis
      using bytes by (elim disjE) (simp_all only: add_0_right)
  qed
  from this [of "i mod 4"] show "byte_at bytes i = byte_at bytes' i"
    by simp
qed

theorem public_io_words_inject_witness:
  "(public_io_words [7] :: unit fault + u32 list) \<noteq> public_io_words [7, 0]"
proof
  assume eq: "(public_io_words [7] :: unit fault + u32 list) = public_io_words [7, 0]"
  obtain ws where ws: "(public_io_words [7] :: unit fault + u32 list) = Inr ws"
    by (auto simp: public_io_words_def guest_memory_defs ensure_def)
  have "(public_io_words [7, 0] :: unit fault + u32 list) = Inr ws"
    unfolding eq [symmetric] by (rule ws)
  from public_io_words_inject [OF ws this] show False by simp
qed

end
