(* ===== verification/BTree.thy ===== *)
theory BTree
  imports Main
begin

text \<open>
  A \<open>BTreeMap\<close> as the list of its entries, ascending by key: \<open>entry(k).or_default()\<close> followed by an
  update in place, and the reads the code makes. Iteration in key order is the list itself.
\<close>

fun bt_update :: "'k::linorder \<Rightarrow> 'v \<Rightarrow> ('v \<Rightarrow> 'v) \<Rightarrow> ('k \<times> 'v) list \<Rightarrow> ('k \<times> 'v) list" where
  "bt_update k d f [] = [(k, f d)]"
| "bt_update k d f ((k', v) # m) =
     (if k < k' then (k, f d) # (k', v) # m
      else if k = k' then (k', f v) # m
      else (k', v) # bt_update k d f m)"

definition bt_get :: "('k \<times> 'v) list \<Rightarrow> 'k \<Rightarrow> 'v \<Rightarrow> 'v" where
  "bt_get m k d = (case map_of m k of None \<Rightarrow> d | Some v \<Rightarrow> v)"

definition bt_wf :: "('k::linorder \<times> 'v) list \<Rightarrow> bool" where
  "bt_wf m \<longleftrightarrow> sorted_wrt (<) (map fst m)"

lemma bt_wf_Nil [simp]: "bt_wf []"
  by (simp add: bt_wf_def)

lemma bt_wf_Cons: "bt_wf ((k, v) # m) \<longleftrightarrow> (\<forall>k' \<in> fst ` set m. k < k') \<and> bt_wf m"
  by (auto simp: bt_wf_def)

lemma keys_bt_update: "fst ` set (bt_update k d f m) = insert k (fst ` set m)"
  by (induction m rule: bt_update.induct) auto

lemma bt_wf_update [simp]: "bt_wf m \<Longrightarrow> bt_wf (bt_update k d f m)"
  by (induction m rule: bt_update.induct) (auto simp: bt_wf_Cons keys_bt_update)

lemma map_of_bt_update:
  "bt_wf m \<Longrightarrow> map_of (bt_update k d f m) x = (if x = k then Some (f (bt_get m k d)) else map_of m x)"
proof (induction m)
  case (Cons p m)
  obtain k' v where p: "p = (k', v)" by fastforce
  have "k \<notin> fst ` set m" if "k < k'"
    using Cons.prems that by (auto simp: p bt_wf_Cons)
  then have "map_of m k = None" if "k < k'"
    using that by (simp add: map_of_eq_None_iff)
  then show ?case
    using Cons by (auto simp: p bt_wf_Cons bt_get_def)
qed (simp add: bt_get_def)

lemma bt_get_update [simp]:
  "bt_wf m \<Longrightarrow> bt_get (bt_update k d f m) k' d' = (if k' = k then f (bt_get m k d) else bt_get m k' d')"
  by (simp add: bt_get_def map_of_bt_update)

lemma bt_wf_distinct: "bt_wf m \<Longrightarrow> distinct (map fst m)"
  unfolding bt_wf_def by (induction m) auto

text \<open>Every value is the default exactly when every key reads as the default.\<close>

lemma bt_all_default:
  assumes "bt_wf m"
  shows "(\<forall>(k, v) \<in> set m. v = d) \<longleftrightarrow> (\<forall>k. bt_get m k d = d)"
  using bt_wf_distinct [OF assms]
  by (auto simp: bt_get_def split: option.splits dest: map_of_SomeD)

lemma find_none_default:
  "bt_wf m \<Longrightarrow> find (\<lambda>(k, v). v \<noteq> d) m = None \<longleftrightarrow> (\<forall>k. bt_get m k d = d)"
  by (auto simp: find_None_iff simp flip: bt_all_default)

end
