(* ===== verification/Memory_Log.thy ===== *)
theory Memory_Log
  imports Initial_Memory BTree Field "HOL-Library.Finite_Map" "HOL-Library.Product_Lexorder"
begin

text \<open>
  The memory event log of \<open>crates/trace/src/log.rs\<close>: address spaces, events, the last-access tables
  with \<open>record\<close> and \<open>record_field\<close>, the log, and \<open>self_check\<close>, the multiset argument that judges a log.
  A refusal keeps the numbers its message prints. The balance counts are \<open>i64\<close> in the code and far
  from its bounds, so they are integers here.
\<close>

unbundle bit_operations_syntax

section \<open>Address spaces\<close>

datatype address_space =
    Reg | Ram | Pc | KeccakF | Poseidon2 | FrArith | ModMul | Sha256Comp | EcAdd
  | FrOp | P2Field | FieldIo | FqOp

definition DELEGATION_SPACES :: "address_space list" where
  "DELEGATION_SPACES =
     [KeccakF, Poseidon2, FrArith, ModMul, Sha256Comp, EcAdd, FrOp, P2Field, FieldIo, FqOp]"

fun tag :: "address_space \<Rightarrow> u8" where
  "tag Reg = 1"
| "tag Ram = 2"
| "tag Pc = 3"
| "tag KeccakF = 4"
| "tag Poseidon2 = 5"
| "tag FrArith = 6"
| "tag ModMul = 7"
| "tag Sha256Comp = 8"
| "tag EcAdd = 9"
| "tag FrOp = 11"
| "tag P2Field = 12"
| "tag FieldIo = 13"
| "tag FqOp = 14"

definition from_tag :: "u8 \<Rightarrow> address_space option" where
  "from_tag t =
     (if t = 1 then Some Reg
      else if t = 2 then Some Ram
      else if t = 3 then Some Pc
      else if t = 4 then Some KeccakF
      else if t = 5 then Some Poseidon2
      else if t = 6 then Some FrArith
      else if t = 7 then Some ModMul
      else if t = 8 then Some Sha256Comp
      else if t = 9 then Some EcAdd
      else if t = 11 then Some FrOp
      else if t = 12 then Some P2Field
      else if t = 13 then Some FieldIo
      else if t = 14 then Some FqOp
      else None)"

definition holds :: "address_space \<Rightarrow> u32 \<Rightarrow> bool" where
  "holds s addr =
     (case s of
        Reg \<Rightarrow> addr < 32
      | Ram \<Rightarrow> unat addr mod 4 = 0 \<and> addressable addr
      | Pc \<Rightarrow> addr = 0
      | _ \<Rightarrow> unat addr mod 4 = 0 \<and> in_ram addr)"

definition chains :: "address_space \<Rightarrow> bool" where
  "chains s = (case s of Reg \<Rightarrow> True | Ram \<Rightarrow> True | Pc \<Rightarrow> True | _ \<Rightarrow> False)"

text \<open>The derived order of the enumeration is declaration order, which the tags ascend along.\<close>

lemma tag_inject: "tag a = tag b \<longleftrightarrow> a = b"
  by (cases a; cases b) simp_all

instantiation address_space :: linorder
begin

definition less_eq_address_space :: "address_space \<Rightarrow> address_space \<Rightarrow> bool" where
  "less_eq_address_space a b \<longleftrightarrow> tag a \<le> tag b"

definition less_address_space :: "address_space \<Rightarrow> address_space \<Rightarrow> bool" where
  "less_address_space a b \<longleftrightarrow> tag a < tag b"

instance
  by intro_classes
    (auto simp: less_eq_address_space_def less_address_space_def tag_inject [symmetric] less_le)

end

section \<open>Events\<close>

definition TS_STEP :: u64 where "TS_STEP = 4"
definition TS_BITS :: nat where "TS_BITS = 38"

record memory_event =
  ev_space :: address_space
  ev_addr :: u32
  ev_ts :: u64
  ev_read_ts :: u64
  ev_read_value :: u32
  ev_write_value :: u32

definition ev_cycle :: "memory_event \<Rightarrow> u64" where
  "ev_cycle e = ev_ts e div TS_STEP"

definition ev_delta :: "memory_event \<Rightarrow> u64" where
  "ev_delta e = ev_ts e mod TS_STEP"

record final_value =
  fv_space :: address_space
  fv_addr :: u32
  fv_ts :: u64
  fv_value :: u32

section \<open>The last-access tables\<close>

record memory_state =
  ms_regs :: "(u64 \<times> u32) option list"
  ms_pc :: "(u64 \<times> u32) option"
  ms_ram :: "(u32, u64 \<times> u32) fmap"
  ms_field :: "(u32, u64 \<times> fr) fmap"
  ms_last_ts :: "u64 option"

definition ms_new :: memory_state where
  "ms_new = \<lparr>ms_regs = replicate 32 None, ms_pc = None, ms_ram = fmempty, ms_field = fmempty,
     ms_last_ts = None\<rparr>"

definition ms_last :: "memory_state \<Rightarrow> address_space \<Rightarrow> u32 \<Rightarrow> 'e fault + (u64 \<times> u32) option" where
  "ms_last st s addr =
     (case s of
        Reg \<Rightarrow> idx (ms_regs st) (unat addr)
      | Pc \<Rightarrow> Inr (ms_pc st)
      | Ram \<Rightarrow> Inr (fmlookup (ms_ram st) addr)
      | _ \<Rightarrow> Inr None)"

definition ms_remember :: "memory_state \<Rightarrow> memory_event \<Rightarrow> 'e fault + memory_state" where
  "ms_remember st e =
     (let last = (ev_ts e, ev_write_value e) in
      case ev_space e of
        Reg \<Rightarrow> bind_res (set_at (ms_regs st) (unat (ev_addr e)) (Some last)) (\<lambda>regs.
          Inr (st\<lparr>ms_regs := regs\<rparr>))
      | Pc \<Rightarrow> Inr (st\<lparr>ms_pc := Some last\<rparr>)
      | Ram \<Rightarrow> Inr (st\<lparr>ms_ram := fmupd (ev_addr e) last (ms_ram st)\<rparr>)
      | _ \<Rightarrow> Inr st)"

definition ms_record ::
    "memory_state \<Rightarrow> address_space \<Rightarrow> u32 \<Rightarrow> u64 \<Rightarrow> u32 \<Rightarrow> u32 \<Rightarrow> 'e fault + (memory_event \<times> memory_state)" where
  "ms_record st s addr ts read_value write_value =
     bind_res (ensure (holds s addr)) (\<lambda>_.
     bind_res (ensure (ts < shl 1 TS_BITS)) (\<lambda>_.
     bind_res (case ms_last_ts st of None \<Rightarrow> Inr () | Some prev \<Rightarrow> ensure (ts \<ge> prev)) (\<lambda>_.
     bind_res
       (if chains s
        then bind_res (ms_last st s addr) (\<lambda>l. Inr (case l of None \<Rightarrow> (0, read_value) | Some x \<Rightarrow> x))
        else Inr (0, 0)) (\<lambda>(read_ts, last_value).
     bind_res (ensure (last_value = read_value)) (\<lambda>_.
     bind_res (ensure (read_ts < ts)) (\<lambda>_.
       let event = \<lparr>ev_space = s, ev_addr = addr, ev_ts = ts, ev_read_ts = read_ts,
                    ev_read_value = read_value, ev_write_value = write_value\<rparr> in
       bind_res (ms_remember st event) (\<lambda>st. Inr (event, st\<lparr>ms_last_ts := Some ts\<rparr>))))))))"

definition ms_record_field :: "memory_state \<Rightarrow> u32 \<Rightarrow> u64 \<Rightarrow> fr \<Rightarrow> fr \<Rightarrow> 'e fault + (u64 \<times> memory_state)" where
  "ms_record_field st cell ts read write =
     (let (read_ts, last) = (case fmlookup (ms_field st) cell of None \<Rightarrow> (0, fr_zero) | Some x \<Rightarrow> x) in
      bind_res (ensure (last = read)) (\<lambda>_.
      bind_res (ensure (read_ts < ts)) (\<lambda>_.
        Inr (read_ts, st\<lparr>ms_field := fmupd cell (ts, write) (ms_field st)\<rparr>))))"

definition ms_field_windows :: "memory_state \<Rightarrow> u32 \<Rightarrow> 'e fault + u32" where
  "ms_field_windows st height =
     (case sorted_list_of_fset (fmdom (ms_field st)) of
        [] \<Rightarrow> Inr 0
      | cells \<Rightarrow> bind_res (ensure (height \<noteq> 0)) (\<lambda>_. Inr (last cells div height + 1)))"

text \<open>\<open>4 * height\<close> is computed in \<open>u64\<close>; \<open>sort_unstable\<close> then \<open>dedup\<close>.\<close>

definition touched_ram_windows :: "memory_state \<Rightarrow> u32 \<Rightarrow> 'e fault + u32 list" where
  "touched_ram_windows st height =
     bind_res (ensure (height \<noteq> 0 \<or> \<not> list_ex in_ram (sorted_list_of_fset (fmdom (ms_ram st))))) (\<lambda>_.
       Inr (remdups_adj (sort (map (\<lambda>addr. of_nat (unat addr div (4 * unat height)))
         (filter in_ram (sorted_list_of_fset (fmdom (ms_ram st))))))))"

definition final_state :: "memory_state \<Rightarrow> final_value list" where
  "final_state st =
     concat (map (\<lambda>(r, slot). case slot of
         None \<Rightarrow> []
       | Some (ts, value) \<Rightarrow> [\<lparr>fv_space = Reg, fv_addr = of_nat r, fv_ts = ts, fv_value = value\<rparr>])
       (enumerate 0 (ms_regs st)))
     @ map (\<lambda>addr. let (ts, value) = the (fmlookup (ms_ram st) addr) in
         \<lparr>fv_space = Ram, fv_addr = addr, fv_ts = ts, fv_value = value\<rparr>)
       (sorted_list_of_fset (fmdom (ms_ram st)))
     @ (case ms_pc st of
         None \<Rightarrow> []
       | Some (ts, value) \<Rightarrow> [\<lparr>fv_space = Pc, fv_addr = 0, fv_ts = ts, fv_value = value\<rparr>])"

definition touched_addresses :: "memory_state \<Rightarrow> (address_space \<times> u32) list" where
  "touched_addresses st = map (\<lambda>f. (fv_space f, fv_addr f)) (final_state st)"

section \<open>The log\<close>

record memory_event_log =
  log_events :: "memory_event list"
  log_state :: memory_state

definition log_new :: memory_event_log where
  "log_new = \<lparr>log_events = [], log_state = ms_new\<rparr>"

definition log_record ::
    "memory_event_log \<Rightarrow> address_space \<Rightarrow> u32 \<Rightarrow> u64 \<Rightarrow> u32 \<Rightarrow> u32 \<Rightarrow> 'e fault + (memory_event \<times> memory_event_log)" where
  "log_record lg s addr ts read_value write_value =
     bind_res (ms_record (log_state lg) s addr ts read_value write_value) (\<lambda>(event, st).
       Inr (event, \<lparr>log_events = log_events lg @ [event], log_state = st\<rparr>))"

fun remember_all :: "memory_state \<Rightarrow> memory_event list \<Rightarrow> 'e fault + memory_state" where
  "remember_all st [] = Inr st"
| "remember_all st (e # es) =
     bind_res (ensure (holds (ev_space e) (ev_addr e))) (\<lambda>_.
     bind_res (ms_remember st e) (\<lambda>st. remember_all st es))"

definition from_events :: "memory_event list \<Rightarrow> 'e fault + memory_event_log" where
  "from_events events =
     bind_res (remember_all ms_new events) (\<lambda>st. Inr \<lparr>log_events = events, log_state = st\<rparr>)"

section \<open>The self check\<close>

datatype check_reason =
    NotAnAddress
  | PastClock
  | OutOfOrder
  | NegativeGap u64 u64
  | SecondQuery
  | MultisetsDiffer (cr_value: u32) (cr_ts: u64) (cr_count: int) (cr_query: "(u64 \<times> u64 \<times> u32) option")

record self_check_error =
  sc_space :: address_space
  sc_addr :: u32
  sc_ts :: u64
  sc_reason :: check_reason

definition refuse_event :: "memory_event \<Rightarrow> check_reason \<Rightarrow> self_check_error fault + 'a" where
  "refuse_event e reason =
     refuse \<lparr>sc_space = ev_space e, sc_addr = ev_addr e, sc_ts = ev_ts e, sc_reason = reason\<rparr>"

text \<open>The timestamp rules, each event against the one before it and the queries seen.\<close>

fun check_rules :: "u64 option \<Rightarrow> (address_space \<times> u32 \<times> u64) list \<Rightarrow> memory_event list
    \<Rightarrow> self_check_error fault + unit" where
  "check_rules prev written [] = Inr ()"
| "check_rules prev written (e # es) =
     (if \<not> holds (ev_space e) (ev_addr e) then refuse_event e NotAnAddress
      else if ev_ts e \<ge> shl 1 TS_BITS then refuse_event e PastClock
      else if (case prev of None \<Rightarrow> False | Some ts \<Rightarrow> ts > ev_ts e) then refuse_event e OutOfOrder
      else if ev_read_ts e \<ge> ev_ts e then refuse_event e (NegativeGap (ev_read_ts e) (ev_ts e))
      else if List.member written (ev_space e, ev_addr e, ev_ts e) then refuse_event e SecondQuery
      else check_rules (Some (ev_ts e)) ((ev_space e, ev_addr e, ev_ts e) # written) es)"

type_synonym tuple = "address_space \<times> u32 \<times> u64 \<times> u32"
type_synonym balance = "(tuple \<times> int) list"
type_synonym last_table = "((address_space \<times> u32) \<times> (u64 \<times> u32)) list"

definition credit :: "tuple \<Rightarrow> balance \<Rightarrow> balance" where
  "credit k b = bt_update k 0 (\<lambda>n. n + 1) b"

definition debit :: "tuple \<Rightarrow> balance \<Rightarrow> balance" where
  "debit k b = bt_update k 0 (\<lambda>n. n - 1) b"

definition balance_event :: "balance \<times> last_table \<Rightarrow> memory_event \<Rightarrow> balance \<times> last_table" where
  "balance_event bl e =
     (let (balance, last) = bl;
          s = ev_space e; a = ev_addr e;
          balance = credit (s, a, ev_ts e, ev_write_value e) balance;
          balance = debit (s, a, ev_read_ts e, ev_read_value e) balance in
      if \<not> chains s then
        (debit (s, a, ev_ts e, ev_write_value e) (credit (s, a, 0, 0) balance), last)
      else
        (balance, bt_update (s, a) (ev_ts e, ev_write_value e)
           (\<lambda>slot. if ev_ts e \<ge> fst slot then (ev_ts e, ev_write_value e) else slot) last))"

definition initial_value :: "initial_memory \<Rightarrow> address_space \<Rightarrow> u32 \<Rightarrow> 'e fault + u32" where
  "initial_value im s addr =
     (case s of
        Reg \<Rightarrow> Inr 0
      | Pc \<Rightarrow> Inr (image_entry (im_image im))
      | Ram \<Rightarrow> memory_word im addr
      | _ \<Rightarrow> Inr 0)"

fun balance_ends :: "initial_memory \<Rightarrow> balance \<Rightarrow> last_table \<Rightarrow> 'e fault + balance" where
  "balance_ends im balance [] = Inr balance"
| "balance_ends im balance (((s, a), (ts, value)) # rest) =
     bind_res (initial_value im s a) (\<lambda>init.
       balance_ends im (debit (s, a, ts, value) (credit (s, a, 0, init) balance)) rest)"

text \<open>The replay of an unbalanced address: the first query that does not read the last write.\<close>

fun first_stale :: "u64 \<times> u32 \<Rightarrow> memory_event list \<Rightarrow> memory_event option" where
  "first_stale prev [] = None"
| "first_stale prev (e # es) =
     (if (ev_read_ts e, ev_read_value e) \<noteq> prev then Some e
      else first_stale (ev_ts e, ev_write_value e) es)"

definition self_check :: "memory_event list \<Rightarrow> initial_memory \<Rightarrow> self_check_error fault + unit" where
  "self_check events im =
     bind_res (check_rules None [] events) (\<lambda>_.
     let (balance, last) = foldl balance_event ([], []) events in
     bind_res (balance_ends im balance last) (\<lambda>balance.
     case find (\<lambda>(k, n). n \<noteq> 0) balance of
       None \<Rightarrow> Inr ()
     | Some ((s, a, ts, value), count) \<Rightarrow>
         bind_res (initial_value im s a) (\<lambda>init.
           let at = first_stale (0, init) (filter (\<lambda>e. ev_space e = s \<and> ev_addr e = a) events) in
           refuse \<lparr>sc_space = s, sc_addr = a,
             sc_ts = (case at of None \<Rightarrow> ts | Some e \<Rightarrow> ev_ts e),
             sc_reason = MultisetsDiffer value ts count
               (map_option (\<lambda>e. (ev_ts e, ev_read_ts e, ev_read_value e)) at)\<rparr>)))"

end
