(* ===== verification/Log_Check.thy ===== *)
theory Log_Check
  imports Memory_Log "HOL-Library.Multiset"
begin

text \<open>
  What \<open>self_check\<close> decides. The abstract memory is a function from addresses to the last write there;
  \<open>replays\<close> runs a log against it. The balance of tuples is per address, and under the timestamp rules
  it leaves only the chronological pairing of reads with writes.
\<close>

section \<open>The rules\<close>

definition ev_key :: "memory_event \<Rightarrow> address_space \<times> u32 \<times> u64" where
  "ev_key e = (ev_space e, ev_addr e, ev_ts e)"

definition rule_ok :: "memory_event \<Rightarrow> bool" where
  "rule_ok e \<longleftrightarrow> holds (ev_space e) (ev_addr e) \<and> ev_ts e < shl 1 TS_BITS \<and> ev_read_ts e < ev_ts e"

definition log_rules :: "memory_event list \<Rightarrow> bool" where
  "log_rules es \<longleftrightarrow> list_all rule_ok es \<and> sorted (map ev_ts es) \<and> distinct (map ev_key es)"

lemma log_rules_simps:
  "log_rules []"
  "log_rules (e # es) \<longleftrightarrow> rule_ok e \<and> (\<forall>x \<in> set es. ev_ts e \<le> ev_ts x) \<and> ev_key e \<notin> ev_key ` set es \<and> log_rules es"
  by (auto simp: log_rules_def)

lemma check_rules_Cons:
  "check_rules prev written (e # es) = Inr () \<longleftrightarrow>
     rule_ok e \<and> (\<forall>ts. prev = Some ts \<longrightarrow> ts \<le> ev_ts e) \<and> ev_key e \<notin> set written \<and>
     check_rules (Some (ev_ts e)) (ev_key e # written) es = Inr ()"
  by (simp add: rule_ok_def refuse_event_def refuse_def ev_key_def not_le not_less split: option.split)

lemma check_rules_iff:
  "check_rules prev written es = Inr () \<longleftrightarrow>
     log_rules es \<and> (\<forall>ts. prev = Some ts \<longrightarrow> (\<forall>e \<in> set es. ts \<le> ev_ts e)) \<and>
     ev_key ` set es \<inter> set written = {}"
proof (induction es arbitrary: prev written)
  case (Cons e es)
  show ?case
    unfolding check_rules_Cons Cons.IH log_rules_simps
    by (auto intro: order.trans)
qed (simp add: log_rules_simps)

lemma check_rules_no_panic: "check_rules prev written es \<noteq> Inl Panicked"
  by (induction prev written es rule: check_rules.induct) (auto simp: refuse_event_def refuse_def)

section \<open>Replaying a log against a memory\<close>

type_synonym store = "address_space \<Rightarrow> u32 \<Rightarrow> u64 \<times> u32"

definition rd :: "memory_event \<Rightarrow> u64 \<times> u32" where
  "rd e = (ev_read_ts e, ev_read_value e)"

definition wr :: "memory_event \<Rightarrow> u64 \<times> u32" where
  "wr e = (ev_ts e, ev_write_value e)"

definition store_write :: "memory_event \<Rightarrow> store \<Rightarrow> store" where
  "store_write e m = (if chains (ev_space e) then m (ev_space e := (m (ev_space e)) (ev_addr e := wr e)) else m)"

fun replays :: "store \<Rightarrow> memory_event list \<Rightarrow> bool" where
  "replays m [] \<longleftrightarrow> True"
| "replays m (e # es) \<longleftrightarrow> rd e = m (ev_space e) (ev_addr e) \<and> replays (store_write e m) es"

definition initial_store :: "initial_memory \<Rightarrow> store" where
  "initial_store im s a =
     (0, case s of Reg \<Rightarrow> 0 | Pc \<Rightarrow> image_entry (im_image im)
       | Ram \<Rightarrow> (case (memory_word im a :: unit fault + u32) of Inr v \<Rightarrow> v | Inl _ \<Rightarrow> 0) | _ \<Rightarrow> 0)"

definition at_addr :: "address_space \<Rightarrow> u32 \<Rightarrow> memory_event list \<Rightarrow> memory_event list" where
  "at_addr s a es = filter (\<lambda>e. ev_space e = s \<and> ev_addr e = a) es"

fun chained :: "u64 \<times> u32 \<Rightarrow> memory_event list \<Rightarrow> bool" where
  "chained p [] \<longleftrightarrow> True"
| "chained p (e # es) \<longleftrightarrow> rd e = p \<and> chained (wr e) es"

lemma at_addr_simps [simp]:
  "at_addr s a [] = []"
  "at_addr s a (e # es) = (if ev_space e = s \<and> ev_addr e = a then e # at_addr s a es else at_addr s a es)"
  by (simp_all add: at_addr_def)

text \<open>A replay is a chain of reads and writes at each address of a chaining space.\<close>

lemma replays_iff:
  "replays m es \<longleftrightarrow> (\<forall>s a. if chains s then chained (m s a) (at_addr s a es)
     else \<forall>e \<in> set (at_addr s a es). rd e = m s a)"
proof (induction es arbitrary: m)
  case (Cons e es)
  have upd: "store_write e m s a = (if chains s \<and> s = ev_space e \<and> a = ev_addr e then wr e else m s a)" for s a
    by (auto simp: store_write_def)
  show ?case
    unfolding replays.simps Cons.IH upd
    by (auto simp: upd split: if_splits)
qed simp

section \<open>The balance\<close>

definition at_tuple :: "address_space \<Rightarrow> u32 \<Rightarrow> u64 \<times> u32 \<Rightarrow> tuple" where
  "at_tuple s a p = (s, a, p)"

definition contribution :: "memory_event \<Rightarrow> u64 \<times> u32 \<Rightarrow> int" where
  "contribution e p =
     (if chains (ev_space e) then of_bool (p = wr e) else of_bool (p = (0, 0))) - of_bool (p = rd e)"

lemma bt_wf_credit [simp]: "bt_wf b \<Longrightarrow> bt_wf (credit k b)"
  by (simp add: credit_def)

lemma bt_wf_debit [simp]: "bt_wf b \<Longrightarrow> bt_wf (debit k b)"
  by (simp add: debit_def)

lemma bt_get_credit [simp]: "bt_wf b \<Longrightarrow> bt_get (credit k b) x 0 = bt_get b x 0 + of_bool (x = k)"
  by (simp add: credit_def)

lemma bt_get_debit [simp]: "bt_wf b \<Longrightarrow> bt_get (debit k b) x 0 = bt_get b x 0 - of_bool (x = k)"
  by (simp add: debit_def)

lemma balance_event_wf:
  "bt_wf (fst bl) \<Longrightarrow> bt_wf (fst (balance_event bl e))"
  "bt_wf (snd bl) \<Longrightarrow> bt_wf (snd (balance_event bl e))"
  by (cases bl; simp add: balance_event_def Let_def)+

lemma balance_event_get:
  "bt_wf (fst bl) \<Longrightarrow> bt_get (fst (balance_event bl e)) (s, a, p) 0 =
     bt_get (fst bl) (s, a, p) 0 + (if ev_space e = s \<and> ev_addr e = a then contribution e p else 0)"
  by (cases bl; cases p) (auto simp: balance_event_def Let_def contribution_def rd_def wr_def)

lemma balance_event_last:
  assumes "bt_wf (snd bl)" "\<forall>q. map_of (snd bl) (s, a) = Some q \<longrightarrow> fst q \<le> ev_ts e"
  shows "map_of (snd (balance_event bl e)) (s, a) =
     (if chains s \<and> ev_space e = s \<and> ev_addr e = a then Some (wr e) else map_of (snd bl) (s, a))"
  using assms
  by (cases bl; cases "map_of (snd bl) (s, a)")
    (auto simp: balance_event_def Let_def map_of_bt_update bt_get_def wr_def)

lemma balance_events:
  assumes "bt_wf (fst bl)" "bt_wf (snd bl)"
  shows "bt_wf (fst (foldl balance_event bl es))" "bt_wf (snd (foldl balance_event bl es))"
    "bt_get (fst (foldl balance_event bl es)) (s, a, p) 0 =
       bt_get (fst bl) (s, a, p) 0 + (\<Sum>e\<leftarrow>at_addr s a es. contribution e p)"
  using assms by (induction es arbitrary: bl) (auto simp: balance_event_wf balance_event_get)

lemma balance_events_last:
  assumes "bt_wf (snd bl)" "sorted (map ev_ts es)"
    "\<forall>q e. map_of (snd bl) (s, a) = Some q \<longrightarrow> e \<in> set es \<longrightarrow> fst q \<le> ev_ts e"
  shows "map_of (snd (foldl balance_event bl es)) (s, a) =
     (if chains s \<and> at_addr s a es \<noteq> [] then Some (wr (last (at_addr s a es))) else map_of (snd bl) (s, a))"
  using assms
proof (induction es arbitrary: bl)
  case (Cons e es)
  have "map_of (snd (balance_event bl e)) (s, a) =
     (if chains s \<and> ev_space e = s \<and> ev_addr e = a then Some (wr e) else map_of (snd bl) (s, a))"
    using Cons.prems by (intro balance_event_last) auto
  with Cons.prems show ?case
    by (subst foldl_Cons, subst Cons.IH) (auto simp: balance_event_wf wr_def)
qed simp

text \<open>The initial writes and the teardown reads.\<close>

lemma public_io_words_total:
  assumes "length bs \<le> unat PUBLIC_PAYLOAD_BYTES"
  obtains ws where "length ws = 4096" "(public_io_words bs :: 'e fault + u32 list) = Inr ws"
    "(public_io_words bs :: unit fault + u32 list) = Inr ws"
proof -
  obtain ws where ws: "(public_io_words bs :: unit fault + u32 list) = Inr ws"
    "(public_io_words bs :: 'e fault + u32 list) = Inr ws"
    using assms by (auto simp: public_io_words_def ensure_def)
  show thesis
    using that [OF public_io_words_nth(1) [OF ws(1)] ws(2) ws(1)] .
qed

lemma memory_word_total:
  assumes "length (im_public_input im) \<le> unat PUBLIC_PAYLOAD_BYTES"
  shows "(memory_word im a :: 'e fault + u32) = Inr (snd (initial_store im Ram a))"
proof -
  obtain ws where ws: "length ws = 4096" "(public_io_words (im_public_input im) :: 'e fault + u32 list) = Inr ws"
    "(public_io_words (im_public_input im) :: unit fault + u32 list) = Inr ws"
    using public_io_words_total [OF assms] .
  have "unat ((a - PUBLIC_INPUT_ORIGIN) div 4) < 4096" if "a - PUBLIC_INPUT_ORIGIN < PUBLIC_WINDOW_BYTES"
    using that by (simp add: guest_memory_defs unat_div word_less_nat_alt)
  with ws show ?thesis
    by (simp add: initial_store_def memory_word_def Let_def idx_def)
qed

lemma initial_value_total:
  assumes "length (im_public_input im) \<le> unat PUBLIC_PAYLOAD_BYTES"
  shows "initial_value im s a = Inr (snd (initial_store im s a))"
  by (cases s) (simp_all add: initial_value_def memory_word_total [OF assms], simp_all add: initial_store_def)

lemma fst_initial_store [simp]: "fst (initial_store im s a) = 0"
  by (simp add: initial_store_def)

lemma balance_ends_get:
  assumes "length (im_public_input im) \<le> unat PUBLIC_PAYLOAD_BYTES" "bt_wf b" "distinct (map fst l)"
  shows "\<exists>b'. (balance_ends im b l :: 'e fault + balance) = Inr b' \<and> bt_wf b' \<and> (\<forall>s a p. bt_get b' (s, a, p) 0 = bt_get b (s, a, p) 0 +
       (case map_of l (s, a) of None \<Rightarrow> 0 | Some q \<Rightarrow> of_bool (p = initial_store im s a) - of_bool (p = q)))"
  using assms(2,3)
proof (induction l arbitrary: b)
  case (Cons x rest)
  obtain s0 a0 q where x: "x = ((s0, a0), q)"
    by (metis prod.exhaust)
  let ?b = "debit (s0, a0, q) (credit (s0, a0, initial_store im s0 a0) b)"
  obtain t v where q: "q = (t, v)"
    by (cases q)
  obtain i where init: "initial_store im s0 a0 = (0, i)"
    by (metis fst_initial_store prod.collapse)
  have step: "balance_ends im b (x # rest) = balance_ends im ?b rest"
    by (simp add: x q init initial_value_total [OF assms(1)])
  have "map_of rest (s0, a0) = None"
    using Cons.prems(2) by (simp add: x map_of_eq_None_iff)
  moreover have "bt_wf ?b" "distinct (map fst rest)"
    using Cons.prems by simp_all
  from Cons.IH [OF this] obtain b' where "(balance_ends im ?b rest :: 'e fault + balance) = Inr b'" "bt_wf b'"
    "\<And>s a p. bt_get b' (s, a, p) 0 = bt_get ?b (s, a, p) 0 +
       (case map_of rest (s, a) of None \<Rightarrow> 0 | Some q \<Rightarrow> of_bool (p = initial_store im s a) - of_bool (p = q))"
    by blast
  ultimately show ?case
    unfolding step using Cons.prems(1) by (intro exI [of _ b']) (auto simp: x)
qed simp

section \<open>The pairing\<close>

text \<open>Writes in increasing time, each read before its own write: as multisets reads and writes agree
  only when every read takes the write just before it.\<close>

lemma pairing:
  assumes "sorted_wrt (<) (fst p # map ev_ts es)" "\<forall>e \<in> set es. ev_read_ts e < ev_ts e"
    "mset (map rd es) = mset (butlast (p # map wr es))"
  shows "chained p es"
  using assms
proof (induction es arbitrary: p)
  case (Cons e es)
  have "rd e \<in># mset (butlast (p # map wr (e # es)))"
    unfolding Cons.prems(3) [symmetric] by simp
  then have "rd e \<in> set (p # map wr (e # es))"
    unfolding set_mset_mset by (rule in_set_butlastD)
  moreover have "rd e \<noteq> wr x" if "x \<in> set (e # es)" for x
    using Cons.prems(1,2) that by (auto simp: rd_def wr_def)
  ultimately have rd: "rd e = p"
    by auto
  moreover have "chained (wr e) es"
    using Cons.prems rd by (intro Cons.IH) (auto simp: wr_def)
  ultimately show ?case
    by simp
qed simp

lemma chained_map: "chained p es \<longleftrightarrow> map rd es = butlast (p # map wr es)"
  by (induction es arbitrary: p) auto

lemma count_mset_map: "count (mset (map f es)) p = (\<Sum>e\<leftarrow>es. of_bool (f e = p))"
  by (induction es) auto

text \<open>One address of a chaining space: the balance is zero exactly when its accesses chain.\<close>

lemma chained_iff_balance:
  assumes "sorted_wrt (<) (map ev_ts es)" "\<forall>e \<in> set es. ev_read_ts e < ev_ts e" "es \<noteq> []"
    "\<forall>e \<in> set es. chains (ev_space e)" "fst p0 = 0"
  shows "(\<forall>p. (\<Sum>e\<leftarrow>es. contribution e p) + (of_bool (p = p0) - of_bool (p = wr (last es))) = 0)
    \<longleftrightarrow> chained p0 es"
proof -
  have sum: "(\<Sum>e\<leftarrow>es. contribution e p) = int (count (mset (map wr es)) p) - int (count (mset (map rd es)) p)" for p
    using assms(4) by (induction es) (auto simp: contribution_def)
  have writes: "mset (p0 # map wr es) = mset (butlast (p0 # map wr es)) + {#wr (last es)#}"
    using assms(3) by (subst append_butlast_last_id [of "p0 # map wr es", symmetric]) (simp_all add: last_map)
  have count: "int (count (mset (map wr es)) p) + of_bool (p = p0) =
     int (count (mset (butlast (p0 # map wr es))) p) + of_bool (p = wr (last es))" for p
    using arg_cong [OF writes, of "\<lambda>m. int (count m p)"] by (auto split: if_splits)
  have "(\<forall>p. (\<Sum>e\<leftarrow>es. contribution e p) + (of_bool (p = p0) - of_bool (p = wr (last es))) = 0)
      \<longleftrightarrow> (\<forall>p. count (mset (map rd es)) p = count (mset (butlast (p0 # map wr es))) p)"
  proof (intro iff_allI)
    fix p
    show "(\<Sum>e\<leftarrow>es. contribution e p) + (of_bool (p = p0) - of_bool (p = wr (last es))) = 0
      \<longleftrightarrow> count (mset (map rd es)) p = count (mset (butlast (p0 # map wr es))) p"
      using count [of p] unfolding sum by linarith
  qed
  also have "\<dots> \<longleftrightarrow> mset (map rd es) = mset (butlast (p0 # map wr es))"
    by (simp only: multiset_eq_iff)
  also have "\<dots> \<longleftrightarrow> chained p0 es"
  proof
    have "sorted_wrt (<) (fst p0 # map ev_ts es)"
      using assms(1,2,5) by (auto simp: word_gt_0 dest: order.strict_trans1 [OF word_zero_le])
    then show "chained p0 es" if "mset (map rd es) = mset (butlast (p0 # map wr es))"
      using pairing assms(2) that by blast
  qed (simp add: chained_map)
  finally show ?thesis .
qed

lemma unchained_iff_balance:
  assumes "\<forall>e \<in> set es. \<not> chains (ev_space e)"
  shows "(\<forall>p. (\<Sum>e\<leftarrow>es. contribution e p) = 0) \<longleftrightarrow> (\<forall>e \<in> set es. rd e = (0, 0))"
proof -
  have le: "(\<Sum>e\<leftarrow>es. contribution e (0, 0)) = int (length (filter (\<lambda>e. rd e \<noteq> (0, 0)) es))"
    using assms by (induction es) (auto simp: contribution_def)
  moreover have "(\<Sum>e\<leftarrow>es. contribution e p) = 0" if "\<forall>e \<in> set es. rd e = (0, 0)" for p
    using that assms by (induction es) (auto simp: contribution_def)
  ultimately show ?thesis
    by (auto simp: filter_empty_conv)
qed

section \<open>The verdict\<close>

lemma sorted_distinct_at:
  assumes "log_rules es"
  shows "sorted_wrt (<) (map ev_ts (at_addr s a es))"
  using assms
proof (induction es)
  case (Cons e es)
  have "ev_ts e < ev_ts x" if "ev_space e = s" "ev_addr e = a" "x \<in> set (at_addr s a es)" for x
  proof -
    have x: "x \<in> set es" "ev_space x = s" "ev_addr x = a"
      using that(3) by (auto simp: at_addr_def)
    then have "ev_key x \<noteq> ev_key e" "ev_ts e \<le> ev_ts x"
      using Cons.prems by (auto simp: log_rules_simps image_iff)
    note this x
    with that show ?thesis
      by (auto simp: ev_key_def le_less)
  qed
  with Cons show ?case
    by (auto simp: log_rules_simps)
qed simp

lemma at_addr_rules:
  "log_rules es \<Longrightarrow> e \<in> set (at_addr s a es) \<Longrightarrow> ev_read_ts e < ev_ts e \<and> ev_space e = s \<and> ev_addr e = a"
  by (auto simp: log_rules_def rule_ok_def list_all_iff at_addr_def)

lemma self_check_rules: "self_check es im = Inr () \<Longrightarrow> log_rules es"
  using check_rules_iff [of None "[]" es]
  by (cases "check_rules None [] es") (auto simp: self_check_def)

lemma self_check_balance:
  assumes "log_rules es" "length (im_public_input im) \<le> unat PUBLIC_PAYLOAD_BYTES"
  shows "self_check es im \<noteq> Inl Panicked"
    "self_check es im = Inr () \<longleftrightarrow> (\<forall>s a p. (\<Sum>e\<leftarrow>at_addr s a es. contribution e p) +
       (if chains s \<and> at_addr s a es \<noteq> []
        then of_bool (p = initial_store im s a) - of_bool (p = wr (last (at_addr s a es))) else 0) = 0)"
proof -
  have rules: "check_rules None [] es = Inr ()"
    using assms(1) by (simp add: check_rules_iff)
  obtain b l where bl: "foldl balance_event ([], []) es = (b, l)"
    by fastforce
  have wf: "bt_wf b" "bt_wf l"
    and get: "\<And>s a p. bt_get b (s, a, p) 0 = (\<Sum>e\<leftarrow>at_addr s a es. contribution e p)"
    and last: "\<And>s a. map_of l (s, a) =
      (if chains s \<and> at_addr s a es \<noteq> [] then Some (wr (last (at_addr s a es))) else None)"
    using balance_events [of "([], [])" es] balance_events_last [of "([], [])" es] assms(1)
    by (auto simp: bl bt_get_def log_rules_def)
  obtain b' where b': "(balance_ends im b l :: self_check_error fault + balance) = Inr b'" "bt_wf b'"
    "\<And>s a p. bt_get b' (s, a, p) 0 = bt_get b (s, a, p) 0 + (case map_of l (s, a) of None \<Rightarrow> 0
       | Some q \<Rightarrow> of_bool (p = initial_store im s a) - of_bool (p = q))"
    using balance_ends_get [OF assms(2) wf(1) bt_wf_distinct [OF wf(2)]] by blast
  have *: "self_check es im = (case find (\<lambda>(k, n). n \<noteq> 0) b' of None \<Rightarrow> Inr ()
     | Some ((s, a, ts, value), n) \<Rightarrow>
         (let at = first_stale (0, snd (initial_store im s a)) (filter (\<lambda>e. ev_space e = s \<and> ev_addr e = a) es) in
           refuse \<lparr>sc_space = s, sc_addr = a, sc_ts = (case at of None \<Rightarrow> ts | Some e \<Rightarrow> ev_ts e),
             sc_reason = MultisetsDiffer value ts n
               (map_option (\<lambda>e. (ev_ts e, ev_read_ts e, ev_read_value e)) at)\<rparr>))"
    by (simp add: self_check_def rules bl b'(1) initial_value_total [OF assms(2)] Let_def split: option.split)
  show "self_check es im \<noteq> Inl Panicked"
    unfolding * by (auto simp: refuse_def Let_def split: option.split)
  have total: "bt_get b' (s, a, p) 0 = (\<Sum>e\<leftarrow>at_addr s a es. contribution e p) +
       (if chains s \<and> at_addr s a es \<noteq> []
        then of_bool (p = initial_store im s a) - of_bool (p = wr (last (at_addr s a es))) else 0)" for s a p
    unfolding b'(3) get last by (cases "chains s"; cases "at_addr s a es = []") simp_all
  have "self_check es im = Inr () \<longleftrightarrow> find (\<lambda>(k, n). n \<noteq> 0) b' = None"
    unfolding * by (auto simp: refuse_def Let_def split: option.split)
  also have "\<dots> \<longleftrightarrow> (\<forall>k. bt_get b' k 0 = 0)"
    by (rule find_none_default [OF b'(2)])
  also have "\<dots> \<longleftrightarrow> (\<forall>s a p. bt_get b' (s, a, p) 0 = 0)"
    by auto
  finally show "self_check es im = Inr () \<longleftrightarrow> (\<forall>s a p. (\<Sum>e\<leftarrow>at_addr s a es. contribution e p) +
       (if chains s \<and> at_addr s a es \<noteq> []
        then of_bool (p = initial_store im s a) - of_bool (p = wr (last (at_addr s a es))) else 0) = 0)"
    unfolding total .
qed

lemma self_check_replays:
  assumes "log_rules es" "length (im_public_input im) \<le> unat PUBLIC_PAYLOAD_BYTES"
  shows "self_check es im = Inr () \<longleftrightarrow> replays (initial_store im) es"
proof -
  have "(\<forall>p. (\<Sum>e\<leftarrow>at_addr s a es. contribution e p) +
       (if chains s \<and> at_addr s a es \<noteq> []
        then of_bool (p = initial_store im s a) - of_bool (p = wr (last (at_addr s a es))) else 0) = 0)
     \<longleftrightarrow> (if chains s then chained (initial_store im s a) (at_addr s a es)
          else \<forall>e \<in> set (at_addr s a es). rd e = initial_store im s a)" for s a
  proof (cases "chains s \<and> at_addr s a es \<noteq> []")
    case True
    then show ?thesis
      using chained_iff_balance [OF sorted_distinct_at [OF assms(1)], of s a "initial_store im s a"]
        at_addr_rules [OF assms(1)] by auto
  next
    case False
    then have "chains s \<Longrightarrow> at_addr s a es = []"
      by blast
    moreover have "\<not> chains s \<Longrightarrow> initial_store im s a = (0, 0)"
      by (cases s) (auto simp: initial_store_def chains_def)
    ultimately show ?thesis
      using unchained_iff_balance [of "at_addr s a es"] at_addr_rules [OF assms(1)] by auto
  qed
  then show ?thesis
    unfolding self_check_balance(2) [OF assms] replays_iff by presburger
qed

definition demo_memory :: initial_memory where
  "demo_memory = \<lparr>im_image = \<lparr>image_entry = 0x10000, image_segments = [], image_slot_base = 0x10000,
     image_slots = []\<rparr>, im_public_input = [], im_advice = []\<rparr>"

definition demo_access :: "u64 \<Rightarrow> u64 \<Rightarrow> u32 \<Rightarrow> u32 \<Rightarrow> memory_event" where
  "demo_access ts read_ts rv wv = \<lparr>ev_space = Reg, ev_addr = 5, ev_ts = ts, ev_read_ts = read_ts,
     ev_read_value = rv, ev_write_value = wv\<rparr>"

text \<open>C10: \<open>self_check\<close> decides whether a log is the log of a memory: it accepts exactly when the events
  obey the timestamp rules and every read returns the time and value of the last write to its address,
  or the initial value; it never panics.\<close>

theorem self_check_decides:
  assumes "length (im_public_input im) \<le> unat PUBLIC_PAYLOAD_BYTES"
  shows "self_check es im \<noteq> Inl Panicked \<and>
    (self_check es im = Inr () \<longleftrightarrow> log_rules es \<and> replays (initial_store im) es)"
proof (cases "log_rules es")
  case True
  then show ?thesis
    using self_check_balance(1) self_check_replays assms by blast
next
  case False
  then have "check_rules None [] es \<noteq> Inr ()"
    by (simp add: check_rules_iff)
  then show ?thesis
    using False check_rules_no_panic [of None "[]" es]
    by (cases "check_rules None [] es") (auto simp: self_check_def)
qed

theorem self_check_decides_witness:
  "self_check [demo_access 4 0 0 7, demo_access 8 4 7 9] demo_memory = Inr ()
   \<and> self_check [demo_access 4 0 0 7, demo_access 8 4 6 9] demo_memory \<noteq> Inr ()"
proof -
  have len: "length (im_public_input demo_memory) \<le> unat PUBLIC_PAYLOAD_BYTES"
    by (simp add: demo_memory_def)
  note check = self_check_decides [OF len, THEN conjunct2]
  show ?thesis
    unfolding check
    by (simp add: log_rules_simps rule_ok_def ev_key_def holds_def TS_BITS_def rd_def wr_def
        store_write_def chains_def initial_store_def demo_access_def demo_memory_def)
qed

end
