(* ===== verification/Abi.thy ===== *)
theory Abi
  imports Prelude
begin

text \<open>
  The numbers of \<open>crates/constants/src/lib.rs\<close> the executor and its recorder share: families, ecall
  numbers, delegation frames, and the tables of the hash and curve delegations. A scalar is an input
  abbreviation under its module's name; a table is a definition.
\<close>

section \<open>Ecall numbers\<close>

abbreviation (input) ecall_EXIT :: u32 where "ecall_EXIT \<equiv> 93"
abbreviation (input) ecall_PRECOMPILE_POSEIDON2 :: u32 where "ecall_PRECOMPILE_POSEIDON2 \<equiv> 1280"
abbreviation (input) ecall_PRECOMPILE_FR_ARITH :: u32 where "ecall_PRECOMPILE_FR_ARITH \<equiv> 1282"
abbreviation (input) ecall_PRECOMPILE_MOD_MUL :: u32 where "ecall_PRECOMPILE_MOD_MUL \<equiv> 1284"
abbreviation (input) ecall_PRECOMPILE_SHA256_COMP :: u32 where "ecall_PRECOMPILE_SHA256_COMP \<equiv> 1288"
abbreviation (input) ecall_PRECOMPILE_EC_ADD :: u32 where "ecall_PRECOMPILE_EC_ADD \<equiv> 1286"
abbreviation (input) ecall_PRECOMPILE_KECCAK_F :: u32 where "ecall_PRECOMPILE_KECCAK_F \<equiv> 1287"
abbreviation (input) ecall_PRECOMPILE_FR_OP :: u32 where "ecall_PRECOMPILE_FR_OP \<equiv> 1289"
abbreviation (input) ecall_PRECOMPILE_P2_FIELD :: u32 where "ecall_PRECOMPILE_P2_FIELD \<equiv> 1290"
abbreviation (input) ecall_PRECOMPILE_FIELD_IO :: u32 where "ecall_PRECOMPILE_FIELD_IO \<equiv> 1291"
abbreviation (input) ecall_PRECOMPILE_FQ_OP :: u32 where "ecall_PRECOMPILE_FQ_OP \<equiv> 1292"
abbreviation (input) ecall_ENOSYS :: u32 where "ecall_ENOSYS \<equiv> 38"

section \<open>Families\<close>

abbreviation (input) family_ADD_SUB_LUI_AUIPC :: u32 where "family_ADD_SUB_LUI_AUIPC \<equiv> 0"
abbreviation (input) family_JUMP_BRANCH_SLT :: u32 where "family_JUMP_BRANCH_SLT \<equiv> 1"
abbreviation (input) family_SHIFT_BITWISE :: u32 where "family_SHIFT_BITWISE \<equiv> 2"
abbreviation (input) family_MUL_DIV :: u32 where "family_MUL_DIV \<equiv> 3"
abbreviation (input) family_MEM_WORD :: u32 where "family_MEM_WORD \<equiv> 4"
abbreviation (input) family_MEM_SUBWORD :: u32 where "family_MEM_SUBWORD \<equiv> 5"
abbreviation (input) family_ATOMICS :: u32 where "family_ATOMICS \<equiv> 6"
abbreviation (input) family_INIT_TEARDOWN :: u32 where "family_INIT_TEARDOWN \<equiv> 7"
abbreviation (input) family_ZERO_WINDOWS :: u32 where "family_ZERO_WINDOWS \<equiv> 8"
abbreviation (input) family_KECCAK_F :: u32 where "family_KECCAK_F \<equiv> 9"
abbreviation (input) family_POSEIDON2 :: u32 where "family_POSEIDON2 \<equiv> 10"
abbreviation (input) family_FR_ARITH :: u32 where "family_FR_ARITH \<equiv> 11"
abbreviation (input) family_PUBLIC_INPUT :: u32 where "family_PUBLIC_INPUT \<equiv> 12"
abbreviation (input) family_PUBLIC_OUTPUT :: u32 where "family_PUBLIC_OUTPUT \<equiv> 13"
abbreviation (input) family_ADVICE_WINDOWS :: u32 where "family_ADVICE_WINDOWS \<equiv> 14"
abbreviation (input) family_MOD_MUL :: u32 where "family_MOD_MUL \<equiv> 15"
abbreviation (input) family_SHA256_COMP :: u32 where "family_SHA256_COMP \<equiv> 16"
abbreviation (input) family_EC_ADD :: u32 where "family_EC_ADD \<equiv> 17"
abbreviation (input) family_FIELD_WINDOWS :: u32 where "family_FIELD_WINDOWS \<equiv> 18"
abbreviation (input) family_FR_OP :: u32 where "family_FR_OP \<equiv> 19"
abbreviation (input) family_P2_FIELD :: u32 where "family_P2_FIELD \<equiv> 20"
abbreviation (input) family_FIELD_IO :: u32 where "family_FIELD_IO \<equiv> 21"
abbreviation (input) family_FQ_OP :: u32 where "family_FQ_OP \<equiv> 22"
abbreviation (input) family_COUNT :: u32 where "family_COUNT \<equiv> 23"
abbreviation (input) family_DEFAULT_BYTECODE_SIZE_WORDS :: u32 where "family_DEFAULT_BYTECODE_SIZE_WORDS \<equiv> 0x100000"
abbreviation (input) family_CODE_VERSION :: u32 where "family_CODE_VERSION \<equiv> 0"

section \<open>Delegation\<close>

abbreviation (input) delegation_FRAME_DELTA :: u64 where "delegation_FRAME_DELTA \<equiv> 0"
abbreviation (input) delegation_MARKER_BYTES :: nat where "delegation_MARKER_BYTES \<equiv> 12"
abbreviation (input) delegation_BASE_TYPES :: nat where "delegation_BASE_TYPES \<equiv> 6"

section \<open>The keccak frame\<close>

abbreviation (input) keccak_LANES :: nat where "keccak_LANES \<equiv> 25"
abbreviation (input) keccak_STATE_WORDS :: nat where "keccak_STATE_WORDS \<equiv> 50"
abbreviation (input) keccak_ROUNDS :: nat where "keccak_ROUNDS \<equiv> 24"
abbreviation (input) keccak_ROUND_WORD :: nat where "keccak_ROUND_WORD \<equiv> 0"
abbreviation (input) keccak_STATE_WORD :: nat where "keccak_STATE_WORD \<equiv> 1"
abbreviation (input) keccak_FRAME_WORDS :: nat where "keccak_FRAME_WORDS \<equiv> 51"

section \<open>The Poseidon2 frame\<close>

abbreviation (input) poseidon2_WIDTH :: nat where "poseidon2_WIDTH \<equiv> 3"
abbreviation (input) poseidon2_WORDS_PER_LANE :: nat where "poseidon2_WORDS_PER_LANE \<equiv> 8"
abbreviation (input) poseidon2_FRAME_WORDS :: nat where "poseidon2_FRAME_WORDS \<equiv> 24"
abbreviation (input) poseidon2_ROUNDS :: nat where "poseidon2_ROUNDS \<equiv> 64"

section \<open>The field arithmetic frame\<close>

abbreviation (input) fr_arith_WORDS_PER_VALUE :: nat where "fr_arith_WORDS_PER_VALUE \<equiv> 8"
abbreviation (input) fr_arith_OPCODE_WORD :: nat where "fr_arith_OPCODE_WORD \<equiv> 0"
abbreviation (input) fr_arith_A_WORD :: nat where "fr_arith_A_WORD \<equiv> 1"
abbreviation (input) fr_arith_B_WORD :: nat where "fr_arith_B_WORD \<equiv> 9"
abbreviation (input) fr_arith_OUT_WORD :: nat where "fr_arith_OUT_WORD \<equiv> 17"
abbreviation (input) fr_arith_FRAME_WORDS :: nat where "fr_arith_FRAME_WORDS \<equiv> 25"
abbreviation (input) fr_arith_OP_ADD :: u32 where "fr_arith_OP_ADD \<equiv> 1"
abbreviation (input) fr_arith_OP_MUL :: u32 where "fr_arith_OP_MUL \<equiv> 2"
abbreviation (input) fr_arith_OP_INV :: u32 where "fr_arith_OP_INV \<equiv> 3"

section \<open>The cell operation frame\<close>

abbreviation (input) fr_op_ACCESSES :: nat where "fr_op_ACCESSES \<equiv> 3"
abbreviation (input) fr_op_OP_WORD :: nat where "fr_op_OP_WORD \<equiv> 0"
abbreviation (input) fr_op_D_WORD :: nat where "fr_op_D_WORD \<equiv> 1"
abbreviation (input) fr_op_A_WORD :: nat where "fr_op_A_WORD \<equiv> 2"
abbreviation (input) fr_op_B_WORD :: nat where "fr_op_B_WORD \<equiv> 3"
abbreviation (input) fr_op_FRAME_WORDS :: nat where "fr_op_FRAME_WORDS \<equiv> 4"
abbreviation (input) fr_op_MUL :: u32 where "fr_op_MUL \<equiv> 1"
abbreviation (input) fr_op_ADD :: u32 where "fr_op_ADD \<equiv> 2"
abbreviation (input) fr_op_SUB :: u32 where "fr_op_SUB \<equiv> 3"
abbreviation (input) fr_op_MAC :: u32 where "fr_op_MAC \<equiv> 4"
abbreviation (input) fr_op_INV :: u32 where "fr_op_INV \<equiv> 5"
abbreviation (input) fr_op_EQ :: u32 where "fr_op_EQ \<equiv> 6"
abbreviation (input) fr_op_IMM :: u32 where "fr_op_IMM \<equiv> 7"
abbreviation (input) fr_op_SHL :: u32 where "fr_op_SHL \<equiv> 8"
abbreviation (input) fr_op_DIGIT :: u32 where "fr_op_DIGIT \<equiv> 9"
abbreviation (input) fr_op_DIGIT_BITS :: u32 where "fr_op_DIGIT_BITS \<equiv> 8"
abbreviation (input) fr_op_DELTA_A :: u64 where "fr_op_DELTA_A \<equiv> 0"
abbreviation (input) fr_op_DELTA_B :: u64 where "fr_op_DELTA_B \<equiv> 1"
abbreviation (input) fr_op_DELTA_D :: u64 where "fr_op_DELTA_D \<equiv> 2"

section \<open>The cell duplex frame\<close>

abbreviation (input) p2_field_ACCESSES :: nat where "p2_field_ACCESSES \<equiv> 8"
abbreviation (input) p2_field_N_WORD :: nat where "p2_field_N_WORD \<equiv> 0"
abbreviation (input) p2_field_S_WORD :: nat where "p2_field_S_WORD \<equiv> 1"
abbreviation (input) p2_field_X_WORD :: nat where "p2_field_X_WORD \<equiv> 2"
abbreviation (input) p2_field_Y_WORD :: nat where "p2_field_Y_WORD \<equiv> 3"
abbreviation (input) p2_field_D_WORD :: nat where "p2_field_D_WORD \<equiv> 4"
abbreviation (input) p2_field_FRAME_WORDS :: nat where "p2_field_FRAME_WORDS \<equiv> 5"
abbreviation (input) p2_field_STATE_CELLS :: u32 where "p2_field_STATE_CELLS \<equiv> 3"
abbreviation (input) p2_field_DELTA_STATE :: u64 where "p2_field_DELTA_STATE \<equiv> 0"
abbreviation (input) p2_field_DELTA_X :: u64 where "p2_field_DELTA_X \<equiv> 1"
abbreviation (input) p2_field_DELTA_Y :: u64 where "p2_field_DELTA_Y \<equiv> 2"
abbreviation (input) p2_field_DELTA_NEXT :: u64 where "p2_field_DELTA_NEXT \<equiv> 3"

section \<open>The cell transfer frame\<close>

abbreviation (input) field_io_ACCESSES :: nat where "field_io_ACCESSES \<equiv> 9"
abbreviation (input) field_io_OP_WORD :: nat where "field_io_OP_WORD \<equiv> 0"
abbreviation (input) field_io_CELL_WORD :: nat where "field_io_CELL_WORD \<equiv> 1"
abbreviation (input) field_io_PTR_WORD :: nat where "field_io_PTR_WORD \<equiv> 2"
abbreviation (input) field_io_FRAME_WORDS :: nat where "field_io_FRAME_WORDS \<equiv> 3"
abbreviation (input) field_io_DATA_WORDS :: nat where "field_io_DATA_WORDS \<equiv> 8"
abbreviation (input) field_io_IMPORT :: u32 where "field_io_IMPORT \<equiv> 1"
abbreviation (input) field_io_EXPORT :: u32 where "field_io_EXPORT \<equiv> 2"
abbreviation (input) field_io_DATA_DELTA :: u64 where "field_io_DATA_DELTA \<equiv> 1"
abbreviation (input) field_io_CELL_DELTA :: u64 where "field_io_CELL_DELTA \<equiv> 0"

section \<open>The base field frame\<close>

abbreviation (input) fq_op_ACCESSES :: nat where "fq_op_ACCESSES \<equiv> 13"
abbreviation (input) fq_op_OP_WORD :: nat where "fq_op_OP_WORD \<equiv> 0"
abbreviation (input) fq_op_D_WORD :: nat where "fq_op_D_WORD \<equiv> 1"
abbreviation (input) fq_op_A_WORD :: nat where "fq_op_A_WORD \<equiv> 2"
abbreviation (input) fq_op_B_WORD :: nat where "fq_op_B_WORD \<equiv> 3"
abbreviation (input) fq_op_FRAME_WORDS :: nat where "fq_op_FRAME_WORDS \<equiv> 4"
abbreviation (input) fq_op_MUL :: u32 where "fq_op_MUL \<equiv> 1"
abbreviation (input) fq_op_ADD :: u32 where "fq_op_ADD \<equiv> 2"
abbreviation (input) fq_op_SUB :: u32 where "fq_op_SUB \<equiv> 3"
abbreviation (input) fq_op_MULEQ :: u32 where "fq_op_MULEQ \<equiv> 4"
abbreviation (input) fq_op_FROM128 :: u32 where "fq_op_FROM128 \<equiv> 5"
abbreviation (input) fq_op_CODE_BITS :: u32 where "fq_op_CODE_BITS \<equiv> 3"
abbreviation (input) fq_op_IND_D :: u32 where "fq_op_IND_D \<equiv> 8"
abbreviation (input) fq_op_IND_A :: u32 where "fq_op_IND_A \<equiv> 16"
abbreviation (input) fq_op_IND_B :: u32 where "fq_op_IND_B \<equiv> 32"
abbreviation (input) fq_op_DIGIT_SHIFT :: u32 where "fq_op_DIGIT_SHIFT \<equiv> 6"
abbreviation (input) fq_op_BUCKET_CELLS :: u32 where "fq_op_BUCKET_CELLS \<equiv> 8"
abbreviation (input) fq_op_ELEMENT_CELLS :: nat where "fq_op_ELEMENT_CELLS \<equiv> 4"
abbreviation (input) fq_op_DELTA_G :: u64 where "fq_op_DELTA_G \<equiv> 0"
abbreviation (input) fq_op_DELTA_A :: u64 where "fq_op_DELTA_A \<equiv> 1"
abbreviation (input) fq_op_DELTA_B :: u64 where "fq_op_DELTA_B \<equiv> 2"
abbreviation (input) fq_op_DELTA_D :: u64 where "fq_op_DELTA_D \<equiv> 3"

section \<open>The SHA-256 frame\<close>

abbreviation (input) sha256_STATE_WORDS :: nat where "sha256_STATE_WORDS \<equiv> 8"
abbreviation (input) sha256_BLOCK_WORDS :: nat where "sha256_BLOCK_WORDS \<equiv> 16"
abbreviation (input) sha256_ROUNDS :: nat where "sha256_ROUNDS \<equiv> 64"
abbreviation (input) sha256_ROUNDS_PER_CALL :: nat where "sha256_ROUNDS_PER_CALL \<equiv> 4"
abbreviation (input) sha256_GROUPS :: nat where "sha256_GROUPS \<equiv> 16"
abbreviation (input) sha256_GROUP_WORD :: nat where "sha256_GROUP_WORD \<equiv> 0"
abbreviation (input) sha256_STATE_WORD :: nat where "sha256_STATE_WORD \<equiv> 1"
abbreviation (input) sha256_WINDOW_WORD :: nat where "sha256_WINDOW_WORD \<equiv> 9"
abbreviation (input) sha256_FRAME_WORDS :: nat where "sha256_FRAME_WORDS \<equiv> 25"

section \<open>The point addition frame\<close>

abbreviation (input) ec_add_LIMBS :: nat where "ec_add_LIMBS \<equiv> 8"
abbreviation (input) ec_add_SECP256K1_G1 :: u32 where "ec_add_SECP256K1_G1 \<equiv> 1"
abbreviation (input) ec_add_SECP256K1_G2 :: u32 where "ec_add_SECP256K1_G2 \<equiv> 2"
abbreviation (input) ec_add_SECP256K1_G3 :: u32 where "ec_add_SECP256K1_G3 \<equiv> 3"
abbreviation (input) ec_add_BN254_G1 :: u32 where "ec_add_BN254_G1 \<equiv> 4"
abbreviation (input) ec_add_BN254_G2 :: u32 where "ec_add_BN254_G2 \<equiv> 5"
abbreviation (input) ec_add_BN254_G3 :: u32 where "ec_add_BN254_G3 \<equiv> 6"
abbreviation (input) ec_add_GROUPS :: nat where "ec_add_GROUPS \<equiv> 3"
abbreviation (input) ec_add_SELECTOR_WORD :: nat where "ec_add_SELECTOR_WORD \<equiv> 0"
abbreviation (input) ec_add_X1_WORD :: nat where "ec_add_X1_WORD \<equiv> 1"
abbreviation (input) ec_add_Y1_WORD :: nat where "ec_add_Y1_WORD \<equiv> 9"
abbreviation (input) ec_add_Z1_WORD :: nat where "ec_add_Z1_WORD \<equiv> 17"
abbreviation (input) ec_add_X2_WORD :: nat where "ec_add_X2_WORD \<equiv> 25"
abbreviation (input) ec_add_Y2_WORD :: nat where "ec_add_Y2_WORD \<equiv> 33"
abbreviation (input) ec_add_Z2_WORD :: nat where "ec_add_Z2_WORD \<equiv> 41"
abbreviation (input) ec_add_XX_WORD :: nat where "ec_add_XX_WORD \<equiv> 49"
abbreviation (input) ec_add_YY_WORD :: nat where "ec_add_YY_WORD \<equiv> 57"
abbreviation (input) ec_add_ZZ_WORD :: nat where "ec_add_ZZ_WORD \<equiv> 65"
abbreviation (input) ec_add_M4_WORD :: nat where "ec_add_M4_WORD \<equiv> 73"
abbreviation (input) ec_add_M5_WORD :: nat where "ec_add_M5_WORD \<equiv> 81"
abbreviation (input) ec_add_M6_WORD :: nat where "ec_add_M6_WORD \<equiv> 89"
abbreviation (input) ec_add_FRAME_WORDS :: nat where "ec_add_FRAME_WORDS \<equiv> 97"

section \<open>The modular product frame\<close>

abbreviation (input) mod_mul_LIMBS :: nat where "mod_mul_LIMBS \<equiv> 8"
abbreviation (input) mod_mul_SECP256K1_P :: u32 where "mod_mul_SECP256K1_P \<equiv> 1"
abbreviation (input) mod_mul_SECP256K1_N :: u32 where "mod_mul_SECP256K1_N \<equiv> 2"
abbreviation (input) mod_mul_BN254_P :: u32 where "mod_mul_BN254_P \<equiv> 3"
abbreviation (input) mod_mul_BN254_R :: u32 where "mod_mul_BN254_R \<equiv> 4"
abbreviation (input) mod_mul_SELECTOR_WORD :: nat where "mod_mul_SELECTOR_WORD \<equiv> 0"
abbreviation (input) mod_mul_A_WORD :: nat where "mod_mul_A_WORD \<equiv> 1"
abbreviation (input) mod_mul_B_WORD :: nat where "mod_mul_B_WORD \<equiv> 9"
abbreviation (input) mod_mul_OUT_WORD :: nat where "mod_mul_OUT_WORD \<equiv> 17"
abbreviation (input) mod_mul_FRAME_WORDS :: nat where "mod_mul_FRAME_WORDS \<equiv> 25"

section \<open>The extra mask\<close>

abbreviation (input) mask_add_sub_lui_auipc_SYSTEM :: u32 where "mask_add_sub_lui_auipc_SYSTEM \<equiv> 0"
abbreviation (input) mask_add_sub_lui_auipc_ADDI :: u32 where "mask_add_sub_lui_auipc_ADDI \<equiv> 1"
abbreviation (input) mask_add_sub_lui_auipc_AUIPC :: u32 where "mask_add_sub_lui_auipc_AUIPC \<equiv> 2"
abbreviation (input) mask_add_sub_lui_auipc_ADD :: u32 where "mask_add_sub_lui_auipc_ADD \<equiv> 3"
abbreviation (input) mask_add_sub_lui_auipc_SUB :: u32 where "mask_add_sub_lui_auipc_SUB \<equiv> 4"
abbreviation (input) mask_add_sub_lui_auipc_LUI :: u32 where "mask_add_sub_lui_auipc_LUI \<equiv> 5"
abbreviation (input) mask_jump_branch_slt_SLTI :: u32 where "mask_jump_branch_slt_SLTI \<equiv> 0"
abbreviation (input) mask_jump_branch_slt_SLTIU :: u32 where "mask_jump_branch_slt_SLTIU \<equiv> 1"
abbreviation (input) mask_jump_branch_slt_SLT :: u32 where "mask_jump_branch_slt_SLT \<equiv> 2"
abbreviation (input) mask_jump_branch_slt_SLTU :: u32 where "mask_jump_branch_slt_SLTU \<equiv> 3"
abbreviation (input) mask_jump_branch_slt_BEQ :: u32 where "mask_jump_branch_slt_BEQ \<equiv> 4"
abbreviation (input) mask_jump_branch_slt_BNE :: u32 where "mask_jump_branch_slt_BNE \<equiv> 5"
abbreviation (input) mask_jump_branch_slt_BLT :: u32 where "mask_jump_branch_slt_BLT \<equiv> 6"
abbreviation (input) mask_jump_branch_slt_BGE :: u32 where "mask_jump_branch_slt_BGE \<equiv> 7"
abbreviation (input) mask_jump_branch_slt_BLTU :: u32 where "mask_jump_branch_slt_BLTU \<equiv> 8"
abbreviation (input) mask_jump_branch_slt_BGEU :: u32 where "mask_jump_branch_slt_BGEU \<equiv> 9"
abbreviation (input) mask_jump_branch_slt_JALR :: u32 where "mask_jump_branch_slt_JALR \<equiv> 10"
abbreviation (input) mask_jump_branch_slt_JAL :: u32 where "mask_jump_branch_slt_JAL \<equiv> 11"
abbreviation (input) mask_shift_bitwise_SLLI :: u32 where "mask_shift_bitwise_SLLI \<equiv> 0"
abbreviation (input) mask_shift_bitwise_XORI :: u32 where "mask_shift_bitwise_XORI \<equiv> 1"
abbreviation (input) mask_shift_bitwise_SRLI :: u32 where "mask_shift_bitwise_SRLI \<equiv> 2"
abbreviation (input) mask_shift_bitwise_SRAI :: u32 where "mask_shift_bitwise_SRAI \<equiv> 3"
abbreviation (input) mask_shift_bitwise_ORI :: u32 where "mask_shift_bitwise_ORI \<equiv> 4"
abbreviation (input) mask_shift_bitwise_ANDI :: u32 where "mask_shift_bitwise_ANDI \<equiv> 5"
abbreviation (input) mask_shift_bitwise_SLL :: u32 where "mask_shift_bitwise_SLL \<equiv> 6"
abbreviation (input) mask_shift_bitwise_XOR :: u32 where "mask_shift_bitwise_XOR \<equiv> 7"
abbreviation (input) mask_shift_bitwise_SRL :: u32 where "mask_shift_bitwise_SRL \<equiv> 8"
abbreviation (input) mask_shift_bitwise_SRA :: u32 where "mask_shift_bitwise_SRA \<equiv> 9"
abbreviation (input) mask_shift_bitwise_OR :: u32 where "mask_shift_bitwise_OR \<equiv> 10"
abbreviation (input) mask_shift_bitwise_AND :: u32 where "mask_shift_bitwise_AND \<equiv> 11"
abbreviation (input) mask_mul_div_MUL :: u32 where "mask_mul_div_MUL \<equiv> 0"
abbreviation (input) mask_mul_div_MULH :: u32 where "mask_mul_div_MULH \<equiv> 1"
abbreviation (input) mask_mul_div_MULHSU :: u32 where "mask_mul_div_MULHSU \<equiv> 2"
abbreviation (input) mask_mul_div_MULHU :: u32 where "mask_mul_div_MULHU \<equiv> 3"
abbreviation (input) mask_mul_div_DIV :: u32 where "mask_mul_div_DIV \<equiv> 4"
abbreviation (input) mask_mul_div_DIVU :: u32 where "mask_mul_div_DIVU \<equiv> 5"
abbreviation (input) mask_mul_div_REM :: u32 where "mask_mul_div_REM \<equiv> 6"
abbreviation (input) mask_mul_div_REMU :: u32 where "mask_mul_div_REMU \<equiv> 7"
abbreviation (input) mask_mem_word_LW :: u32 where "mask_mem_word_LW \<equiv> 0"
abbreviation (input) mask_mem_word_SW :: u32 where "mask_mem_word_SW \<equiv> 1"
abbreviation (input) mask_mem_subword_LB :: u32 where "mask_mem_subword_LB \<equiv> 0"
abbreviation (input) mask_mem_subword_LH :: u32 where "mask_mem_subword_LH \<equiv> 1"
abbreviation (input) mask_mem_subword_LBU :: u32 where "mask_mem_subword_LBU \<equiv> 2"
abbreviation (input) mask_mem_subword_LHU :: u32 where "mask_mem_subword_LHU \<equiv> 3"
abbreviation (input) mask_mem_subword_SB :: u32 where "mask_mem_subword_SB \<equiv> 4"
abbreviation (input) mask_mem_subword_SH :: u32 where "mask_mem_subword_SH \<equiv> 5"
abbreviation (input) mask_atomics_AMOADD_W :: u32 where "mask_atomics_AMOADD_W \<equiv> 0"
abbreviation (input) mask_atomics_AMOSWAP_W :: u32 where "mask_atomics_AMOSWAP_W \<equiv> 1"
abbreviation (input) mask_atomics_LR_W :: u32 where "mask_atomics_LR_W \<equiv> 2"
abbreviation (input) mask_atomics_SC_W :: u32 where "mask_atomics_SC_W \<equiv> 3"
abbreviation (input) mask_atomics_AMOXOR_W :: u32 where "mask_atomics_AMOXOR_W \<equiv> 4"
abbreviation (input) mask_atomics_AMOOR_W :: u32 where "mask_atomics_AMOOR_W \<equiv> 5"
abbreviation (input) mask_atomics_AMOAND_W :: u32 where "mask_atomics_AMOAND_W \<equiv> 6"
abbreviation (input) mask_atomics_AMOMIN_W :: u32 where "mask_atomics_AMOMIN_W \<equiv> 7"
abbreviation (input) mask_atomics_AMOMAX_W :: u32 where "mask_atomics_AMOMAX_W \<equiv> 8"
abbreviation (input) mask_atomics_AMOMINU_W :: u32 where "mask_atomics_AMOMINU_W \<equiv> 9"
abbreviation (input) mask_atomics_AMOMAXU_W :: u32 where "mask_atomics_AMOMAXU_W \<equiv> 10"
abbreviation (input) mask_system_code_ECALL :: u32 where "mask_system_code_ECALL \<equiv> 0"
abbreviation (input) mask_system_code_EBREAK :: u32 where "mask_system_code_EBREAK \<equiv> 1"
abbreviation (input) mask_system_code_FENCE :: u32 where "mask_system_code_FENCE \<equiv> 2"

section \<open>Tables\<close>

definition family_CYCLE_OWNING :: "bool list" where
  "family_CYCLE_OWNING = [True, True, True, True, True, True, True, False,
     False, False, False, False, False, False, False, False,
     False, False, False, False, False, False, False]"

definition family_HEIGHT_MENU :: "u32 list" where
  "family_HEIGHT_MENU = [2 ^ 8, 2 ^ 12, 2 ^ 16, 2 ^ 18, 2 ^ 20, 2 ^ 22]"

definition family_DEFAULT_HEIGHTS :: "u32 list" where
  "family_DEFAULT_HEIGHTS = [2 ^ 22, 2 ^ 22, 2 ^ 22, 2 ^ 20, 2 ^ 22, 2 ^ 22, 2 ^ 20, 2 ^ 22,
     2 ^ 22, 2 ^ 18, 2 ^ 8, 2 ^ 8, 2 ^ 12, 2 ^ 12, 2 ^ 22, 2 ^ 16,
     2 ^ 18, 2 ^ 16, 2 ^ 20, 2 ^ 20, 2 ^ 18, 2 ^ 18, 2 ^ 20]"

definition delegation_MARKER_MAGIC :: "u8 list" where
  "delegation_MARKER_MAGIC = [0x41, 0x50, 0x4f, 0x47, 0x44, 0x45, 0x4c, 0x31]"

definition delegation_TYPES :: "(u32 \<times> u32 \<times> u8 \<times> nat) list" where
  "delegation_TYPES = [(family_KECCAK_F, ecall_PRECOMPILE_KECCAK_F, 4, keccak_FRAME_WORDS),
     (family_POSEIDON2, ecall_PRECOMPILE_POSEIDON2, 5, poseidon2_FRAME_WORDS),
     (family_FR_ARITH, ecall_PRECOMPILE_FR_ARITH, 6, fr_arith_FRAME_WORDS),
     (family_MOD_MUL, ecall_PRECOMPILE_MOD_MUL, 7, mod_mul_FRAME_WORDS),
     (family_SHA256_COMP, ecall_PRECOMPILE_SHA256_COMP, 8, sha256_FRAME_WORDS),
     (family_EC_ADD, ecall_PRECOMPILE_EC_ADD, 9, ec_add_FRAME_WORDS),
     (family_FR_OP, ecall_PRECOMPILE_FR_OP, 11, fr_op_FRAME_WORDS),
     (family_P2_FIELD, ecall_PRECOMPILE_P2_FIELD, 12, p2_field_FRAME_WORDS),
     (family_FIELD_IO, ecall_PRECOMPILE_FIELD_IO, 13, field_io_FRAME_WORDS),
     (family_FQ_OP, ecall_PRECOMPILE_FQ_OP, 14, fq_op_FRAME_WORDS)]"

definition keccak_ROTATIONS :: "nat list list" where
  "keccak_ROTATIONS = [ [0, 1, 62, 28, 27],
      [36, 44, 6, 55, 20],
      [3, 10, 43, 25, 39],
      [41, 45, 15, 21, 8],
      [18, 2, 61, 56, 14]]"

definition keccak_ROUND_CONSTANTS :: "u64 list" where
  "keccak_ROUND_CONSTANTS = [0x1, 0x8082, 0x800000000000808a, 0x8000000080008000,
     0x808b, 0x80000001, 0x8000000080008081, 0x8000000000008009,
     0x8a, 0x88, 0x80008009, 0x8000000a,
     0x8000808b, 0x800000000000008b, 0x8000000000008089, 0x8000000000008003,
     0x8000000000008002, 0x8000000000000080, 0x800a, 0x800000008000000a,
     0x8000000080008081, 0x8000000000008080, 0x80000001, 0x8000000080008008]"

definition sha256_ROUND_CONSTANTS :: "u32 list" where
  "sha256_ROUND_CONSTANTS =
    concat [[0x428a2f98, 0x71374491, 0xb5c0fbcf, 0xe9b5dba5],
      [0x3956c25b, 0x59f111f1, 0x923f82a4, 0xab1c5ed5],
      [0xd807aa98, 0x12835b01, 0x243185be, 0x550c7dc3],
      [0x72be5d74, 0x80deb1fe, 0x9bdc06a7, 0xc19bf174],
      [0xe49b69c1, 0xefbe4786, 0xfc19dc6, 0x240ca1cc],
      [0x2de92c6f, 0x4a7484aa, 0x5cb0a9dc, 0x76f988da],
      [0x983e5152, 0xa831c66d, 0xb00327c8, 0xbf597fc7],
      [0xc6e00bf3, 0xd5a79147, 0x6ca6351, 0x14292967],
      [0x27b70a85, 0x2e1b2138, 0x4d2c6dfc, 0x53380d13],
      [0x650a7354, 0x766a0abb, 0x81c2c92e, 0x92722c85],
      [0xa2bfe8a1, 0xa81a664b, 0xc24b8b70, 0xc76c51a3],
      [0xd192e819, 0xd6990624, 0xf40e3585, 0x106aa070],
      [0x19a4c116, 0x1e376c08, 0x2748774c, 0x34b0bcb5],
      [0x391c0cb3, 0x4ed8aa4a, 0x5b9cca4f, 0x682e6ff3],
      [0x748f82ee, 0x78a5636f, 0x84c87814, 0x8cc70208],
      [0x90befffa, 0xa4506ceb, 0xbef9a3f7, 0xc67178f2]]"

definition fq_op_Q :: "u64 list" where
  "fq_op_Q = [0x3c208c16d87cfd47, 0x97816a916871ca8d, 0xb85045b68181585d, 0x30644e72e131a029]"

definition ec_add_CODES :: "u32 list" where
  "ec_add_CODES = [ec_add_SECP256K1_G1, ec_add_SECP256K1_G2, ec_add_SECP256K1_G3, ec_add_BN254_G1, ec_add_BN254_G2, ec_add_BN254_G3]"

definition mod_mul_CODES :: "u32 list" where
  "mod_mul_CODES = [mod_mul_SECP256K1_P, mod_mul_SECP256K1_N, mod_mul_BN254_P, mod_mul_BN254_R]"

definition ec_add_CODE_CURVE :: "nat list" where
  "ec_add_CODE_CURVE = [0, 0, 0, 1, 1, 1]"

definition ec_add_CODE_GROUP :: "nat list" where
  "ec_add_CODE_GROUP = [0, 1, 2, 0, 1, 2]"

definition ec_add_CURVE_B3 :: "u32 list" where
  "ec_add_CURVE_B3 = [21, 9]"

definition mod_mul_MODULI :: "u32 list list" where
  "mod_mul_MODULI = [[0xfffffc2f, 0xfffffffe, 0xffffffff, 0xffffffff, 0xffffffff, 0xffffffff, 0xffffffff, 0xffffffff],
     [0xd0364141, 0xbfd25e8c, 0xaf48a03b, 0xbaaedce6, 0xfffffffe, 0xffffffff, 0xffffffff, 0xffffffff],
     [0xd87cfd47, 0x3c208c16, 0x6871ca8d, 0x97816a91, 0x8181585d, 0xb85045b6, 0xe131a029, 0x30644e72],
     [0xf0000001, 0x43e1f593, 0x79b97091, 0x2833e848, 0x8181585d, 0xb85045b6, 0xe131a029, 0x30644e72]]"

definition ec_add_CURVE_MODULI :: "u32 list list" where
  "ec_add_CURVE_MODULI = [mod_mul_MODULI ! 0, mod_mul_MODULI ! 2]"

section \<open>Lookups\<close>

definition a0_after :: "nat \<Rightarrow> u32 \<Rightarrow> 'e fault + u32" where
  "a0_after index base =
     (if index < delegation_BASE_TYPES then Inr 0
      else bind_res (idx delegation_TYPES index) (\<lambda>(_, _, _, words).
        let n = unat base + 4 * words in if n < 2 ^ 32 then Inr (of_nat n) else panic))"

fun index_from :: "nat \<Rightarrow> u32 list \<Rightarrow> u32 \<Rightarrow> nat option" where
  "index_from i [] code = None"
| "index_from i (c # cs) code = (if c = code then Some i else index_from (Suc i) cs code)"

definition ec_add_code_index :: "u32 \<Rightarrow> nat option" where
  "ec_add_code_index code = index_from 0 ec_add_CODES code"

definition ec_add_modulus :: "u32 \<Rightarrow> u32 list option" where
  "ec_add_modulus code =
     map_option (\<lambda>i. ec_add_CURVE_MODULI ! (ec_add_CODE_CURVE ! i)) (ec_add_code_index code)"

definition ec_add_b3 :: "u32 \<Rightarrow> u32 option" where
  "ec_add_b3 code = map_option (\<lambda>i. ec_add_CURVE_B3 ! (ec_add_CODE_CURVE ! i)) (ec_add_code_index code)"

definition ec_add_reduction_group :: "u32 \<Rightarrow> nat option" where
  "ec_add_reduction_group code = map_option (\<lambda>i. ec_add_CODE_GROUP ! i) (ec_add_code_index code)"

definition mod_mul_modulus :: "u32 \<Rightarrow> u32 list option" where
  "mod_mul_modulus code = map_option (\<lambda>i. mod_mul_MODULI ! i) (index_from 0 mod_mul_CODES code)"

end
