(* ===== verification/Wide.thy ===== *)
theory Wide
  imports Prelude
begin

text \<open>
  The 256-bit arithmetic of \<open>crates/emulator/src/lib.rs\<close>: values of eight little-endian 32-bit limbs
  held in \<open>u64\<close> lanes, the schoolbook product and the bitwise reduction. Signed intermediates (\<open>i64\<close>)
  are 64-bit words read with their sign. On 32-bit limbs no sum leaves 64 bits, which is what the
  value lemmas show: every operation is exact on the numbers its limbs spell.
\<close>

unbundle bit_operations_syntax

section \<open>Definitions\<close>

definition LIMBS :: nat where "LIMBS = 8"

type_synonym wide = "u64 list"

fun less_from_top :: "(u64 \<times> u64) list \<Rightarrow> bool" where
  "less_from_top [] = False"
| "less_from_top ((a, b) # rest) = (if a \<noteq> b then a < b else less_from_top rest)"

definition less_than :: "wide \<Rightarrow> wide \<Rightarrow> bool" where
  "less_than a b = less_from_top (rev (zip a b))"

text \<open>The carry loop of \<open>add_mod\<close> and \<open>add_wide\<close>, and the borrow loop of \<open>sub_wide\<close> and \<open>reduce\<close>.\<close>

fun add_carry :: "wide \<Rightarrow> wide \<Rightarrow> u64 \<Rightarrow> wide \<times> u64" where
  "add_carry (a # as) (b # bs) carry =
     (let sum = a + b + carry; (rest, out) = add_carry as bs (shr sum 32) in
      ((sum AND 0xffffffff) # rest, out))"
| "add_carry _ _ carry = ([], carry)"

fun sub_borrow :: "wide \<Rightarrow> wide \<Rightarrow> u64 \<Rightarrow> wide \<times> u64" where
  "sub_borrow (a # as) (b # bs) borrow =
     (let diff = a - b - borrow in
      if sint diff < 0 then (let (rest, out) = sub_borrow as bs 1 in ((diff + shl 1 32) # rest, out))
      else (let (rest, out) = sub_borrow as bs 0 in (diff # rest, out)))"
| "sub_borrow _ _ borrow = ([], borrow)"

definition add_wide :: "wide \<Rightarrow> wide \<Rightarrow> wide" where
  "add_wide a b = fst (add_carry a b 0)"

definition sub_wide :: "wide \<Rightarrow> wide \<Rightarrow> wide" where
  "sub_wide a b = fst (sub_borrow a b 0)"

definition add_mod :: "wide \<Rightarrow> wide \<Rightarrow> wide \<Rightarrow> wide" where
  "add_mod a b m =
     (let (out, carry) = add_carry a b 0 in
      if carry \<noteq> 0 \<or> \<not> less_than out m then sub_wide out m else out)"

definition sub_mod :: "wide \<Rightarrow> wide \<Rightarrow> wide \<Rightarrow> wide" where
  "sub_mod a b m = (if less_than a b then sub_wide (add_wide a m) b else sub_wide a b)"

text \<open>One row of the schoolbook product, then the carry carried up while there is one.\<close>

fun mul_row :: "u64 list \<Rightarrow> nat \<Rightarrow> u64 \<Rightarrow> wide \<Rightarrow> u64 \<Rightarrow> u64 list \<times> u64" where
  "mul_row product at a [] carry = (product, carry)"
| "mul_row product at a (b # bs) carry =
     (let sum = product ! at + a * b + carry in
      mul_row (product[at := sum AND 0xffffffff]) (Suc at) a bs (shr sum 32))"

function carry_up :: "u64 list \<Rightarrow> nat \<Rightarrow> u64 \<Rightarrow> 'e fault + u64 list" where
  "carry_up product at carry =
     (if carry = 0 then Inr product
      else if at < length product then
        (let sum = product ! at + carry in carry_up (product[at := sum AND 0xffffffff]) (Suc at) (shr sum 32))
      else panic)"
  by pat_completeness auto
termination
  by (relation "measure (\<lambda>(product, at, carry). length product - at)") auto

declare carry_up.simps [simp del]

fun mul_rows :: "u64 list \<Rightarrow> nat \<Rightarrow> wide \<Rightarrow> wide \<Rightarrow> 'e fault + u64 list" where
  "mul_rows product i [] b = Inr product"
| "mul_rows product i (a # as) b =
     (let (product, carry) = mul_row product i a b 0 in
      bind_res (carry_up product (i + LIMBS) carry) (\<lambda>product. mul_rows product (Suc i) as b))"

definition wide_product :: "wide \<Rightarrow> wide \<Rightarrow> 'e fault + u64 list" where
  "wide_product a b = mul_rows (replicate (2 * LIMBS) 0) 0 a b"

text \<open>Doubling with the next bit shifted in.\<close>

fun shift_in :: "wide \<Rightarrow> u64 \<Rightarrow> wide \<times> u64" where
  "shift_in [] carry = ([], carry)"
| "shift_in (w # ws) carry =
     (let sum = shl w 1 OR carry; (rest, out) = shift_in ws (shr sum 32) in
      ((sum AND 0xffffffff) # rest, out))"

definition reduce_bit :: "u64 list \<Rightarrow> wide \<Rightarrow> wide \<Rightarrow> nat \<Rightarrow> wide" where
  "reduce_bit product m acc at =
     (let (acc, carry) = shift_in acc (shr (product ! (at div 32)) (at mod 32) AND 1) in
      if carry = 1 \<or> \<not> less_than acc m then fst (sub_borrow acc m 0) else acc)"

definition reduce :: "u64 list \<Rightarrow> wide \<Rightarrow> wide" where
  "reduce product m = foldl (reduce_bit product m) (replicate LIMBS 0) (rev [0..<32 * 2 * LIMBS])"

definition mul_mod :: "wide \<Rightarrow> wide \<Rightarrow> wide \<Rightarrow> 'e fault + wide" where
  "mul_mod a b m = bind_res (wide_product a b) (\<lambda>product. Inr (reduce product m))"

definition scale_mod :: "u32 \<Rightarrow> wide \<Rightarrow> wide \<Rightarrow> 'e fault + wide" where
  "scale_mod k a m = mul_mod (ucast k # replicate (LIMBS - 1) 0) a m"

definition wide_of :: "u64 list \<Rightarrow> wide" where
  "wide_of x = map (\<lambda>k. shr (x ! (k div 2)) (32 * (k mod 2)) AND 0xffffffff) [0..<LIMBS]"

definition limbs_of :: "wide \<Rightarrow> u64 list" where
  "limbs_of x = map (\<lambda>k. x ! (2 * k) OR shl (x ! (2 * k + 1)) 32) [0..<4]"

section \<open>Values\<close>

fun wval :: "wide \<Rightarrow> nat" where
  "wval [] = 0"
| "wval (a # as) = unat a + 2 ^ 32 * wval as"

definition limbs32 :: "wide \<Rightarrow> bool" where
  "limbs32 as \<longleftrightarrow> list_all (\<lambda>a. unat a < 2 ^ 32) as"

definition wide_ok :: "wide \<Rightarrow> bool" where
  "wide_ok a \<longleftrightarrow> length a = LIMBS \<and> limbs32 a"

lemma limbs32_simps [simp]: "limbs32 []" "limbs32 (a # as) \<longleftrightarrow> unat a < 2 ^ 32 \<and> limbs32 as"
  by (simp_all add: limbs32_def)

lemma wval_less: "limbs32 as \<Longrightarrow> wval as < 2 ^ (32 * length as)"
proof (induction as)
  case (Cons a as)
  then have "wval as + 1 \<le> 2 ^ (32 * length as)" "unat a < 2 ^ 32"
    by auto
  then have "2 ^ 32 * (wval as + 1) \<le> 2 ^ 32 * 2 ^ (32 * length as)" "unat a < 2 ^ 32"
    by simp_all
  then show ?case
    by (simp add: power_add algebra_simps)
qed simp

text \<open>A sum below \<open>2^64\<close> splits into its low limb and its carry.\<close>

lemma unat_shr: "unat (shr t n :: u64) = unat t div 2 ^ n"
proof -
  have "unat t < 2 ^ 64"
    using unsigned_less [of t] by simp
  then show ?thesis
    unfolding unsigned_drop_bit_eq by (simp add: drop_bit_eq_div take_bit_nat_eq_self)
qed

lemma low_limb: "unat (t AND 0xffffffff :: u64) = unat t mod 2 ^ 32"
proof -
  have "t AND 0xffffffff = take_bit 32 t"
    by (simp add: take_bit_eq_mask mask_eq_exp_minus_1)
  then show ?thesis
    by (simp add: take_bit_eq_mod unat_mod)
qed

lemma high_limb: "unat (shr t 32 :: u64) = unat t div 2 ^ 32"
  by (simp add: drop_bit_eq_div unat_div)

lemma split_limb: "unat (t AND 0xffffffff :: u64) + 2 ^ 32 * unat (shr t 32) = unat t"
  unfolding low_limb high_limb by simp

lemma low_limb_less [simp]: "unat (t AND 0xffffffff :: u64) < 4294967296"
  using low_limb [of t] by simp

section \<open>Comparison, sums and differences\<close>

lemma less_from_top_append:
  "less_from_top (xs @ ys) =
     (if \<forall>(a, b) \<in> set xs. a = b then less_from_top ys else less_from_top xs)"
  by (induction xs rule: less_from_top.induct) auto

lemma less_from_top_value:
  "length a = length b \<Longrightarrow> limbs32 a \<Longrightarrow> limbs32 b \<Longrightarrow> less_from_top (rev (zip a b)) \<longleftrightarrow> wval a < wval b"
proof (induction a b rule: list_induct2)
  case (Cons x xs y ys)
  have eq: "(\<forall>(a, b) \<in> set (rev (zip xs ys)). a = b) \<longleftrightarrow> xs = ys"
    using Cons.hyps by (induction xs ys rule: list_induct2) auto
  have inj: "wval xs = wval ys \<longleftrightarrow> xs = ys"
    using Cons.hyps Cons.prems
  proof (induction xs ys rule: list_induct2)
    case (Cons u us v vs)
    have "unat u + 2 ^ 32 * wval us = unat v + 2 ^ 32 * wval vs \<longleftrightarrow> unat u = unat v \<and> wval us = wval vs"
    proof
      assume e: "unat u + 2 ^ 32 * wval us = unat v + 2 ^ 32 * wval vs"
      have "unat u = (unat u + 2 ^ 32 * wval us) mod 2 ^ 32" "unat v = (unat v + 2 ^ 32 * wval vs) mod 2 ^ 32"
        using Cons.prems by simp_all
      then have "unat u = unat v"
        unfolding e by simp
      with e show "unat u = unat v \<and> wval us = wval vs"
        by simp
    qed simp
    then show ?case
      using Cons by (simp add: word_unat_eq_iff)
  qed simp
  have x: "unat x < 2 ^ 32" and y: "unat y < 2 ^ 32"
    using Cons.prems by simp_all
  show ?case
  proof (cases "xs = ys")
    case True
    then show ?thesis
      by (simp add: less_from_top_append eq [unfolded True, simplified] word_less_nat_alt)
  next
    case False
    have "less_from_top (rev (zip xs ys)) \<longleftrightarrow> wval xs < wval ys"
      using Cons by simp
    moreover have "wval xs \<noteq> wval ys"
      using False inj by simp
    moreover have "less_from_top (rev (zip (x # xs) (y # ys))) = less_from_top (rev (zip xs ys))"
      using False eq by (simp only: zip_Cons_Cons rev.simps less_from_top_append if_False)
    ultimately show ?thesis
      using x y by simp linarith
  qed
qed simp

lemma less_than_value: "wide_ok a \<Longrightarrow> wide_ok b \<Longrightarrow> less_than a b \<longleftrightarrow> wval a < wval b"
  by (simp add: less_than_def wide_ok_def less_from_top_value)

lemma add_carry_value:
  assumes "length a = length b" "limbs32 a" "limbs32 b" "unat c \<le> 1"
  shows "wval (fst (add_carry a b c)) + 2 ^ (32 * length a) * unat (snd (add_carry a b c)) = wval a + wval b + unat c
    \<and> unat (snd (add_carry a b c)) \<le> 1 \<and> length (fst (add_carry a b c)) = length a \<and> limbs32 (fst (add_carry a b c))"
  using assms
proof (induction a b arbitrary: c rule: list_induct2)
  case (Cons x xs y ys)
  let ?s = "x + y + c"
  have s: "unat ?s = unat x + unat y + unat c"
    using Cons.prems by (simp add: unat_word_ariths)
  have c: "unat (shr ?s 32) \<le> 1"
    using Cons.prems unfolding high_limb s
    by (simp add: less_mult_imp_div_less less_Suc_eq_le [symmetric])
  obtain rest out where r: "add_carry xs ys (shr ?s 32) = (rest, out)"
    by fastforce
  then have step: "add_carry (x # xs) (y # ys) c = ((?s AND 0xffffffff) # rest, out)"
    by simp
  have IH: "wval rest + 2 ^ (32 * length xs) * unat out = wval xs + wval ys + unat (shr ?s 32)"
    "unat out \<le> 1" "length rest = length xs" "limbs32 rest"
    using Cons.IH [OF _ _ c] Cons.prems by (simp_all add: r)
  have "2 ^ 32 * (wval rest + 2 ^ (32 * length xs) * unat out) = 2 ^ 32 * (wval xs + wval ys + unat (shr ?s 32))"
    unfolding IH(1) ..
  then have "wval ((?s AND 0xffffffff) # rest) + 2 ^ (32 * length (x # xs)) * unat out = wval (x # xs) + wval (y # ys) + unat c"
    using split_limb [of ?s] unfolding s by (simp add: power_add)
  with IH show ?case
    unfolding step by simp
qed simp_all

lemma unat_of_int_small: "0 \<le> k \<Longrightarrow> k < 2 ^ 64 \<Longrightarrow> int (unat (of_int k :: u64)) = k"
  by (simp add: unsigned_of_int take_bit_int_eq_self)

lemma int_less_pow: "int n < 2 ^ 32 \<Longrightarrow> n < 2 ^ 32"
  by simp

lemma int_unat_less: "unat (x :: u64) < 2 ^ 32 \<Longrightarrow> int (unat x) < 2 ^ 32"
proof -
  assume "unat x < 2 ^ 32"
  then have "int (unat x) < int (2 ^ 32)"
    by (rule iffD2 [OF of_nat_less_iff])
  then show ?thesis
    by simp
qed

lemma int_unat_le_1: "unat (x :: u64) \<le> 1 \<Longrightarrow> int (unat x) \<le> 1"
  using of_nat_le_iff [where ?'a = int, of "unat x" 1] by simp

lemma sub_borrow_value:
  assumes "length a = length b" "limbs32 a" "limbs32 b" "unat c \<le> 1"
  shows "int (wval (fst (sub_borrow a b c))) =
      int (wval a) - int (wval b) - int (unat c) + 2 ^ (32 * length a) * int (unat (snd (sub_borrow a b c)))
    \<and> unat (snd (sub_borrow a b c)) \<le> 1 \<and> length (fst (sub_borrow a b c)) = length a \<and> limbs32 (fst (sub_borrow a b c))"
  using assms
proof (induction a b arbitrary: c rule: list_induct2)
  case (Cons x xs y ys)
  let ?d = "x - y - c"
  define i where "i = int (unat x) - int (unat y) - int (unat c)"
  have d: "?d = of_int i"
    by (simp add: i_def)
  have i: "- (2 ^ 32) \<le> i" "i < 2 ^ 32"
  proof -
    have x: "unat x < 2 ^ 32" and y: "unat y < 2 ^ 32" and c: "unat c \<le> 1"
      using Cons.prems by simp_all
    note int_unat_less [OF x] int_unat_less [OF y] int_unat_le_1 [OF c]
    moreover have "0 \<le> int (unat x)" "0 \<le> int (unat y)" "0 \<le> int (unat c)"
      by (rule of_nat_0_le_iff)+
    ultimately have "- (2 ^ 32) \<le> i \<and> i < 2 ^ 32"
      unfolding i_def by linarith
    then show "- (2 ^ 32) \<le> i" "i < 2 ^ 32"
      by blast+
  qed
  have sint: "sint ?d = i"
    using i unfolding d by (simp add: signed_of_int signed_take_bit_int_eq_self)
  have pos: "int (unat ?d) = i" if "\<not> i < 0"
    using that i unfolding d by (simp add: unsigned_of_int take_bit_int_eq_self)
  have neg: "int (unat (?d + shl 1 32)) = i + 2 ^ 32" if "i < 0"
  proof -
    have "?d + shl 1 32 = of_int (i + 2 ^ 32)"
      by (simp add: d push_bit_eq_mult)
    then show ?thesis
      using that i by (simp only:) (rule unat_of_int_small, simp_all)
  qed
  obtain rest out where r: "sub_borrow xs ys (if i < 0 then 1 else 0) = (rest, out)"
    by fastforce
  then have step: "sub_borrow (x # xs) (y # ys) c = ((if i < 0 then ?d + shl 1 32 else ?d) # rest, out)"
    by (cases "i < 0") (simp_all add: Let_def sint)
  have IH: "int (wval rest) = int (wval xs) - int (wval ys) - (if i < 0 then 1 else 0) + 2 ^ (32 * length xs) * int (unat out)"
    "unat out \<le> 1" "length rest = length xs" "limbs32 rest"
    using Cons.IH [of "if i < 0 then 1 else 0"] Cons.prems r by (simp_all split: if_splits)
  have low: "int (unat (if i < 0 then ?d + shl 1 32 else ?d)) = i + (if i < 0 then 2 ^ 32 else 0)"
    using neg pos by simp
  then have "unat (if i < 0 then ?d + shl 1 32 else ?d) < 2 ^ 32"
    using i by (intro int_less_pow, unfold low) (simp split: if_splits)
  moreover have "int (wval ((if i < 0 then ?d + shl 1 32 else ?d) # rest))
      = int (wval (x # xs)) - int (wval (y # ys)) - int (unat c) + 2 ^ (32 * length (x # xs)) * int (unat out)"
    unfolding wval.simps of_nat_add of_nat_mult low IH(1) by (simp add: i_def power_add algebra_simps)
  ultimately show ?case
    using IH(2-4) unfolding step by simp
qed simp_all

lemma wide_okD: "wide_ok a \<Longrightarrow> length a = 8" "wide_ok a \<Longrightarrow> limbs32 a"
  by (simp_all add: wide_ok_def LIMBS_def)

lemma wide_ok_less: "wide_ok a \<Longrightarrow> wval a < 2 ^ 256"
  using wval_less [of a] by (simp add: wide_ok_def LIMBS_def)

lemma add_wide_carry:
  assumes "wide_ok a" "wide_ok b"
  shows "wval (fst (add_carry a b 0)) + 2 ^ 256 * unat (snd (add_carry a b 0)) = wval a + wval b"
    "wide_ok (fst (add_carry a b 0))" "unat (snd (add_carry a b 0)) \<le> 1"
  using add_carry_value [of a b 0] assms by (simp_all add: wide_ok_def LIMBS_def)

lemma sub_wide_value:
  assumes "wide_ok a" "wide_ok b"
  shows "int (wval (sub_wide a b)) = (int (wval a) - int (wval b)) mod 2 ^ 256" "wide_ok (sub_wide a b)"
proof -
  have val: "int (wval (sub_wide a b)) = int (wval a) - int (wval b) + 2 ^ 256 * int (unat (snd (sub_borrow a b 0)))"
    and ok: "wide_ok (sub_wide a b)"
    using sub_borrow_value [of a b 0] assms by (simp_all add: sub_wide_def wide_ok_def LIMBS_def)
  from ok show "wide_ok (sub_wide a b)" .
  have "int (wval (sub_wide a b)) = int (wval (sub_wide a b)) mod 2 ^ 256"
    using wide_ok_less [OF ok] by simp
  then show "int (wval (sub_wide a b)) = (int (wval a) - int (wval b)) mod 2 ^ 256"
    unfolding val by simp
qed

lemma add_wide_value:
  assumes "wide_ok a" "wide_ok b"
  shows "wval (add_wide a b) = (wval a + wval b) mod 2 ^ 256" "wide_ok (add_wide a b)"
proof -
  have "wval (add_wide a b) = wval (add_wide a b) mod 2 ^ 256"
    using wide_ok_less [OF add_wide_carry(2) [OF assms]] by (simp add: add_wide_def)
  also have "\<dots> = (wval a + wval b) mod 2 ^ 256"
    unfolding add_wide_carry(1) [OF assms, symmetric] by (simp add: add_wide_def)
  finally show "wval (add_wide a b) = (wval a + wval b) mod 2 ^ 256" .
  show "wide_ok (add_wide a b)"
    unfolding add_wide_def by (rule add_wide_carry(2) [OF assms])
qed

lemma add_mod_value:
  assumes "wide_ok a" "wide_ok b" "wide_ok m" "wval a < wval m" "wval b < wval m"
  shows "wval (add_mod a b m) = (wval a + wval b) mod wval m" "wide_ok (add_mod a b m)"
proof -
  obtain out c where oc: "add_carry a b 0 = (out, c)"
    by fastforce
  have v: "wval out + 2 ^ 256 * unat c = wval a + wval b" and ok: "wide_ok out" and c: "unat c \<le> 1"
    using add_wide_carry [OF assms(1,2)] by (simp_all add: oc)
  have m: "wval m < 2 ^ 256"
    by (rule wide_ok_less [OF assms(3)])
  show "wide_ok (add_mod a b m)"
    using ok sub_wide_value(2) [OF ok assms(3)] by (simp add: add_mod_def oc)
  show "wval (add_mod a b m) = (wval a + wval b) mod wval m"
  proof (cases "c \<noteq> 0 \<or> \<not> less_than out m")
    case True
    have ge: "wval m \<le> wval a + wval b"
    proof (cases "c = 0")
      case True
      with \<open>c \<noteq> 0 \<or> \<not> less_than out m\<close> show ?thesis
        using v by (simp add: less_than_value [OF ok assms(3)])
    next
      case False
      then have "unat c = 1"
        using c unat_eq_zero [of c] by linarith
      then show ?thesis
        using v m by simp
    qed
    have "(int (wval out) - int (wval m)) mod 2 ^ 256 = (int (wval out + 2 ^ 256 * unat c) - int (wval m)) mod 2 ^ 256"
    proof -
      have "int (wval out + 2 ^ 256 * unat c) - int (wval m) = (int (wval out) - int (wval m)) + int (unat c) * 2 ^ 256"
        by simp
      then show ?thesis
        by (simp only: mod_mult_self1)
    qed
    also have "\<dots> = int (wval a + wval b - wval m) mod 2 ^ 256"
      unfolding v using ge by (simp add: of_nat_diff)
    also have "\<dots> = int (wval a + wval b - wval m)"
      using assms(4,5) m by simp
    finally have "wval (sub_wide out m) = wval a + wval b - wval m"
      using sub_wide_value(1) [OF ok assms(3)] by simp
    moreover have "(wval a + wval b) mod wval m = wval a + wval b - wval m"
      using ge assms(4,5) by (simp add: mod_if)
    ultimately show ?thesis
      using True by (simp add: add_mod_def oc)
  next
    case False
    then show ?thesis
      using v less_than_value [OF ok assms(3)] by (simp add: add_mod_def oc)
  qed
qed

lemma sub_mod_value:
  assumes "wide_ok a" "wide_ok b" "wide_ok m" "wval a < wval m" "wval b < wval m"
  shows "int (wval (sub_mod a b m)) = (int (wval a) - int (wval b)) mod int (wval m)" "wide_ok (sub_mod a b m)"
proof -
  have m: "wval m < 2 ^ 256"
    by (rule wide_ok_less [OF assms(3)])
  note am = add_wide_value [OF assms(1,3)]
  show "wide_ok (sub_mod a b m)"
    using sub_wide_value(2) am(2) assms by (simp add: sub_mod_def)
  show "int (wval (sub_mod a b m)) = (int (wval a) - int (wval b)) mod int (wval m)"
  proof (cases "wval a < wval b")
    case True
    have "int (wval (sub_wide (add_wide a m) b)) = (int (wval a + wval m) - int (wval b)) mod 2 ^ 256"
      unfolding sub_wide_value(1) [OF am(2) assms(2)] am(1) by (simp add: of_nat_mod mod_diff_left_eq)
    also have "\<dots> = int (wval a) - int (wval b) + int (wval m)"
      using True assms(5) m by simp
    also have "\<dots> = (int (wval a) - int (wval b) + int (wval m)) mod int (wval m)"
      using True assms(5) by (intro mod_pos_pos_trivial [symmetric]) linarith+
    finally show ?thesis
      using True by (simp add: sub_mod_def less_than_value [OF assms(1,2)])
  next
    case False
    have "int (wval (sub_wide a b)) = int (wval a) - int (wval b)"
      unfolding sub_wide_value(1) [OF assms(1,2)] using False assms(4) m by simp
    then show ?thesis
      using False assms(4) by (simp add: sub_mod_def less_than_value [OF assms(1,2)])
  qed
qed

section \<open>The reduction\<close>

lemma double_or: "unat w < 2 ^ 32 \<Longrightarrow> unat c \<le> 1 \<Longrightarrow> unat (shl w 1 OR c :: u64) = 2 * unat w + unat c"
proof -
  assume w: "unat w < 2 ^ 32" and "unat c \<le> 1"
  then have "c = 0 \<or> c = 1"
    by (simp add: word_unat_eq_iff le_Suc_eq)
  then have "shl w 1 OR c = 2 * w + c"
    by (auto simp: or_one_eq push_bit_eq_mult)
  with w \<open>unat c \<le> 1\<close> show ?thesis
    by (simp add: unat_word_ariths)
qed

lemma shift_in_value:
  assumes "limbs32 a" "unat c \<le> 1"
  shows "wval (fst (shift_in a c)) + 2 ^ (32 * length a) * unat (snd (shift_in a c)) = 2 * wval a + unat c
    \<and> unat (snd (shift_in a c)) \<le> 1 \<and> length (fst (shift_in a c)) = length a \<and> limbs32 (fst (shift_in a c))"
  using assms
proof (induction a arbitrary: c)
  case (Cons x xs)
  define t where "t = shl x 1 OR c"
  have t: "unat t = 2 * unat x + unat c"
    unfolding t_def using Cons.prems by (intro double_or) simp_all
  have c: "unat (shr t 32) \<le> 1"
    using Cons.prems unfolding high_limb t by (simp add: less_mult_imp_div_less less_Suc_eq_le [symmetric])
  obtain rest out where r: "shift_in xs (shr t 32) = (rest, out)"
    by fastforce
  then have step: "shift_in (x # xs) c = ((t AND 0xffffffff) # rest, out)"
    by (simp only: shift_in.simps Let_def t_def [symmetric] r prod.case)
  have IH: "wval rest + 2 ^ (32 * length xs) * unat out = 2 * wval xs + unat (shr t 32)"
    "unat out \<le> 1" "length rest = length xs" "limbs32 rest"
    using Cons.IH [OF _ c] Cons.prems unfolding r by simp_all
  have "2 ^ 32 * (wval rest + 2 ^ (32 * length xs) * unat out) = 2 ^ 32 * (2 * wval xs + unat (shr t 32))"
    unfolding IH(1) ..
  then have "wval ((t AND 0xffffffff) # rest) + 2 ^ (32 * length (x # xs)) * unat out = 2 * wval (x # xs) + unat c"
    using split_limb [of t] unfolding t by (simp add: power_add)
  with IH show ?case
    unfolding step by simp
qed simp

text \<open>Bit \<open>k\<close> of a value is bit \<open>k mod 32\<close> of limb \<open>k div 32\<close>.\<close>

lemma wval_limb: "limbs32 a \<Longrightarrow> k < length a \<Longrightarrow> wval a div 2 ^ (32 * k) mod 2 ^ 32 = unat (a ! k)"
proof (induction a arbitrary: k)
  case (Cons x xs)
  show ?case
  proof (cases k)
    case 0
    then show ?thesis
      using Cons.prems by simp
  next
    case (Suc j)
    have "wval (x # xs) div 2 ^ (32 * k) = (unat x + 2 ^ 32 * wval xs) div 2 ^ 32 div 2 ^ (32 * j)"
      by (simp add: Suc power_add div_mult2_eq)
    also have "(unat x + 2 ^ 32 * wval xs) div 2 ^ 32 = wval xs"
      using Cons.prems by simp
    finally show ?thesis
      using Cons Suc by simp
  qed
qed simp

lemma mod_div_mod_2: "j < 32 \<Longrightarrow> (n :: nat) mod 2 ^ 32 div 2 ^ j mod 2 = n div 2 ^ j mod 2"
  using bit_take_bit_iff [of 32 n j] unfolding bit_iff_odd take_bit_eq_mod mod2_eq_if by simp

lemma wval_bit:
  assumes "limbs32 a" "k < 32 * length a"
  shows "unat (shr (a ! (k div 32)) (k mod 32) AND 1) = wval a div 2 ^ k mod 2"
proof -
  have k: "k div 32 < length a"
    using assms(2) by (simp add: div_less_iff_less_mult mult.commute)
  have "unat (shr (a ! (k div 32)) (k mod 32) AND 1) = unat (a ! (k div 32)) div 2 ^ (k mod 32) mod 2"
    unfolding and_one_eq unat_mod unat_shr by simp
  also have "\<dots> = wval a div 2 ^ (32 * (k div 32)) mod 2 ^ 32 div 2 ^ (k mod 32) mod 2"
    unfolding wval_limb [OF assms(1) k] ..
  also have "\<dots> = wval a div 2 ^ (32 * (k div 32)) div 2 ^ (k mod 32) mod 2"
    by (rule mod_div_mod_2) simp
  also have "\<dots> = wval a div 2 ^ k mod 2"
    by (simp flip: div_mult2_eq power_add)
  finally show ?thesis .
qed

lemma int_mod_256: "n < 2 ^ 256 \<Longrightarrow> int n mod 2 ^ 256 = int n"
  by simp

lemma reduce_bit_value:
  assumes "wide_ok acc" "wide_ok m" "wval acc < wval m" "limbs32 product" "k < 32 * length product"
  shows "wide_ok (reduce_bit product m acc k)"
    "wval (reduce_bit product m acc k) = (2 * wval acc + wval product div 2 ^ k mod 2) mod wval m"
proof -
  define b0 where "b0 = shr (product ! (k div 32)) (k mod 32) AND 1"
  have b: "unat b0 = wval product div 2 ^ k mod 2"
    unfolding b0_def by (rule wval_bit [OF assms(4,5)])
  then have b1: "unat b0 \<le> 1"
    by simp
  obtain out c where oc: "shift_in acc b0 = (out, c)"
    by fastforce
  have v: "wval out + 2 ^ 256 * unat c = 2 * wval acc + unat b0" and ok: "wide_ok out" and c: "unat c \<le> 1"
    using shift_in_value [OF wide_okD(2) [OF assms(1)] b1] wide_okD(1) [OF assms(1)]
    by (simp_all add: oc wide_ok_def LIMBS_def)
  have m: "wval m < 2 ^ 256"
    by (rule wide_ok_less [OF assms(2)])
  have lt: "2 * wval acc + unat b0 < 2 * wval m"
    using assms(3) b1 by linarith
  have red: "reduce_bit product m acc k = (if c = 1 \<or> \<not> less_than out m then sub_wide out m else out)"
    by (simp add: reduce_bit_def b0_def [symmetric] oc sub_wide_def)
  show "wide_ok (reduce_bit product m acc k)"
    using ok sub_wide_value(2) [OF ok assms(2)] by (simp add: red)
  show "wval (reduce_bit product m acc k) = (2 * wval acc + wval product div 2 ^ k mod 2) mod wval m"
    unfolding b [symmetric]
  proof (cases "c = 1 \<or> \<not> less_than out m")
    case True
    have c01: "unat c = 0 \<or> unat c = 1"
      using c by linarith
    have ge: "wval m \<le> 2 * wval acc + unat b0"
      using True c01 v m less_than_value [OF ok assms(2)] by auto
    have "int (wval out) - int (wval m) + int (unat c) * 2 ^ 256 = int (2 * wval acc + unat b0 - wval m)"
      using ge by (simp only: of_nat_diff flip: v) simp
    then have "(int (wval out) - int (wval m)) mod 2 ^ 256 = int (2 * wval acc + unat b0 - wval m) mod 2 ^ 256"
      by (metis mod_mult_self1)
    also have "\<dots> = int (2 * wval acc + unat b0 - wval m)"
      using lt m by (intro int_mod_256) linarith
    finally have "wval (sub_wide out m) = 2 * wval acc + unat b0 - wval m"
      using sub_wide_value(1) [OF ok assms(2)] by simp
    moreover have "(2 * wval acc + unat b0) mod wval m = 2 * wval acc + unat b0 - wval m"
      using ge lt by (simp add: mod_if)
    ultimately show "wval (reduce_bit product m acc k) = (2 * wval acc + unat b0) mod wval m"
      using True by (simp add: red)
  next
    case False
    moreover have "unat c = 0"
      using False c by (auto simp: le_Suc_eq word_unat_eq_iff)
    ultimately show "wval (reduce_bit product m acc k) = (2 * wval acc + unat b0) mod wval m"
      using v less_than_value [OF ok assms(2)] by (simp add: red)
  qed
qed

lemma wide_ok_zero: "wide_ok (replicate LIMBS 0)" "wval (replicate n 0) = 0"
  by (simp_all add: wide_ok_def limbs32_def list_all_iff) (induction n, simp_all)

lemma reduce_value:
  assumes "limbs32 product" "length product = 2 * LIMBS" "wide_ok m" "0 < wval m"
  shows "wide_ok (reduce product m) \<and> wval (reduce product m) = wval product mod wval m"
proof -
  have step: "wide_ok (foldl (reduce_bit product m) (replicate LIMBS 0) (rev [k..<512])) \<and>
      wval (foldl (reduce_bit product m) (replicate LIMBS 0) (rev [k..<512])) = wval product div 2 ^ k mod wval m"
    if "k \<le> 512" for k
    using that
  proof (induction k rule: inc_induct)
    case base
    have "wval product < 2 ^ 512"
      using wval_less [OF assms(1)] by (simp add: assms(2) LIMBS_def)
    then show ?case
      using assms(4) by (simp add: wide_ok_zero)
  next
    case (step k)
    let ?acc = "foldl (reduce_bit product m) (replicate LIMBS 0) (rev [Suc k..<512])"
    have split: "rev [k..<512] = rev [Suc k..<512] @ [k]"
      using step.hyps by (simp add: upt_conv_Cons)
    have acc: "wide_ok ?acc" "wval ?acc < wval m" "wval ?acc = wval product div 2 ^ Suc k mod wval m"
      using step.IH assms(4) by simp_all
    note v = reduce_bit_value [OF acc(1) assms(3) acc(2) assms(1), of k]
    have "(2 * (wval product div 2 ^ Suc k mod wval m) + wval product div 2 ^ k mod 2) mod wval m
        = (2 * (wval product div 2 ^ Suc k) + wval product div 2 ^ k mod 2) mod wval m"
      by (metis mod_add_left_eq mod_mult_right_eq)
    also have "2 * (wval product div 2 ^ Suc k) + wval product div 2 ^ k mod 2 = wval product div 2 ^ k"
      by (simp add: power_Suc2 div_mult2_eq del: power_Suc)
    finally show ?case
      using v step.hyps assms(2) unfolding split acc(3) by (simp add: LIMBS_def)
  qed
  have "32 * 2 * LIMBS = 512"
    by (simp add: LIMBS_def)
  then show ?thesis
    unfolding reduce_def by (simp only:) (use step [of 0] in simp)
qed

section \<open>The product\<close>

text \<open>Replacing a limb moves the value by the difference at its weight.\<close>

lemma wval_update:
  "k < length p \<Longrightarrow> wval (p[k := x]) + 2 ^ (32 * k) * unat (p ! k) = wval p + 2 ^ (32 * k) * unat x"
proof (induction p arbitrary: k)
  case (Cons a p)
  show ?case
  proof (cases k)
    case (Suc j)
    have "2 ^ 32 * (wval (p[j := x]) + 2 ^ (32 * j) * unat (p ! j)) = 2 ^ 32 * (wval p + 2 ^ (32 * j) * unat x)"
      using Cons by (simp add: Suc)
    then show ?thesis
      by (simp add: Suc power_add)
  qed simp
qed simp

lemma limbs32_update: "limbs32 p \<Longrightarrow> unat x < 2 ^ 32 \<Longrightarrow> limbs32 (p[k := x])"
  by (auto simp: limbs32_def list_all_iff dest: set_update_subset_insert [THEN subsetD])

lemma limbs32_nth: "limbs32 p \<Longrightarrow> k < length p \<Longrightarrow> unat (p ! k) < 2 ^ 32"
  by (auto simp: limbs32_def list_all_iff)

text \<open>The multiply-accumulate of 32-bit limbs fits 64 bits.\<close>

lemma mac_fits:
  assumes "unat p < 2 ^ 32" "unat a < 2 ^ 32" "unat b < 2 ^ 32" "unat c < 2 ^ 32"
  shows "unat (p + a * b + c :: u64) = unat p + unat a * unat b + unat c"
    "unat p + unat a * unat b + unat c < 2 ^ 64"
proof -
  have "unat a * unat b \<le> (2 ^ 32 - 1) * (2 ^ 32 - 1)"
    using assms by (intro mult_le_mono) simp_all
  with assms show *: "unat p + unat a * unat b + unat c < 2 ^ 64"
    by simp
  then have "unat (a * b) = unat a * unat b"
    by (simp add: unat_word_ariths)
  with * show "unat (p + a * b + c :: u64) = unat p + unat a * unat b + unat c"
    by (simp add: unat_word_ariths)
qed

lemma mul_row_value:
  assumes "limbs32 p" "unat a < 2 ^ 32" "limbs32 b" "unat c < 2 ^ 32" "at + length b \<le> length p"
  shows "wval (fst (mul_row p at a b c)) + 2 ^ (32 * (at + length b)) * unat (snd (mul_row p at a b c))
      = wval p + 2 ^ (32 * at) * (unat a * wval b + unat c)
    \<and> limbs32 (fst (mul_row p at a b c)) \<and> length (fst (mul_row p at a b c)) = length p
    \<and> unat (snd (mul_row p at a b c)) < 2 ^ 32
    \<and> (\<forall>k. k < at \<or> at + length b \<le> k \<longrightarrow> fst (mul_row p at a b c) ! k = p ! k)"
  using assms
proof (induction p at a b c rule: mul_row.induct)
  case (2 p at a b bs c)
  define t where "t = p ! at + a * b + c"
  have at: "at < length p"
    using "2.prems" by simp
  have t: "unat t = unat (p ! at) + unat a * unat b + unat c" "unat t < 2 ^ 64"
    using mac_fits [of "p ! at" a b c] limbs32_nth [OF "2.prems"(1) at] "2.prems" by (simp_all add: t_def)
  let ?p = "p[at := t AND 0xffffffff]"
  have hi: "unat (shr t 32) < 2 ^ 32"
    using t(2) unfolding high_limb by (simp add: less_mult_imp_div_less)
  have ok: "limbs32 ?p"
    using "2.prems"(1) by (intro limbs32_update) simp_all
  have step: "mul_row p at a (b # bs) c = mul_row ?p (Suc at) a bs (shr t 32)"
    by (simp add: t_def Let_def)
  have IH: "wval (fst (mul_row ?p (Suc at) a bs (shr t 32))) + 2 ^ (32 * (Suc at + length bs)) * unat (snd (mul_row ?p (Suc at) a bs (shr t 32)))
      = wval ?p + 2 ^ (32 * Suc at) * (unat a * wval bs + unat (shr t 32))"
    "limbs32 (fst (mul_row ?p (Suc at) a bs (shr t 32)))" "length (fst (mul_row ?p (Suc at) a bs (shr t 32))) = length p"
    "unat (snd (mul_row ?p (Suc at) a bs (shr t 32))) < 2 ^ 32"
    "\<forall>k. k < Suc at \<or> Suc at + length bs \<le> k \<longrightarrow> fst (mul_row ?p (Suc at) a bs (shr t 32)) ! k = ?p ! k"
    using "2.IH" [OF t_def ok _ _ hi] "2.prems" by simp_all
  have "2 ^ (32 * at) * (unat (t AND 0xffffffff) + 2 ^ 32 * unat (shr t 32)) = 2 ^ (32 * at) * unat t"
    unfolding split_limb ..
  then have "wval ?p + 2 ^ (32 * Suc at) * (unat a * wval bs + unat (shr t 32))
      = wval p + 2 ^ (32 * at) * (unat a * wval (b # bs) + unat c)"
    using wval_update [OF at, of "t AND 0xffffffff"] unfolding t(1)
    by (simp add: power_add algebra_simps)
  then show ?case
    using IH unfolding step by (auto simp: nth_list_update)
qed simp

lemma mul_rows_value:
  assumes "limbs32 p" "length p = 2 * LIMBS" "limbs32 a" "wide_ok b" "i + length a \<le> LIMBS"
    "\<forall>k. i + LIMBS \<le> k \<longrightarrow> k < length p \<longrightarrow> p ! k = 0"
  shows "\<exists>p'. (mul_rows p i a b :: 'e fault + u64 list) = Inr p' \<and> limbs32 p' \<and> length p' = 2 * LIMBS \<and>
    wval p' = wval p + 2 ^ (32 * i) * (wval a * wval b)"
  using assms
proof (induction a arbitrary: p i)
  case (Cons x xs)
  obtain p1 c where pc: "mul_row p i x b 0 = (p1, c)"
    by fastforce
  have b: "length b = LIMBS" "limbs32 b"
    using Cons.prems(4) by (simp_all add: wide_ok_def)
  have row: "wval p1 + 2 ^ (32 * (i + LIMBS)) * unat c = wval p + 2 ^ (32 * i) * (unat x * wval b)"
    "limbs32 p1" "length p1 = 2 * LIMBS" "unat c < 2 ^ 32"
    "\<forall>k. k < i \<or> i + LIMBS \<le> k \<longrightarrow> p1 ! k = p ! k"
    using mul_row_value [of p x b 0 i] Cons.prems b by (simp_all add: pc)
  have at: "i + LIMBS < length p1"
    using row(3) Cons.prems(5) by simp
  then have zero: "p1 ! (i + LIMBS) = 0"
    using row(3,5) Cons.prems(2,6) by simp
  have c: "c AND 0xffffffff = c" "shr c 32 = 0"
    using low_limb [of c] high_limb [of c] row(4) by (simp_all add: word_unat_eq_iff)
  have up: "(carry_up p1 (i + LIMBS) c :: 'e fault + u64 list) = Inr (if c = 0 then p1 else p1[i + LIMBS := c])"
    using at by (subst carry_up.simps) (simp add: zero c carry_up.simps [of _ _ 0] Let_def)
  let ?p = "if c = 0 then p1 else p1[i + LIMBS := c]"
  have rows: "(mul_rows p i (x # xs) b :: 'e fault + u64 list) = mul_rows ?p (Suc i) xs b"
    by (simp only: mul_rows.simps pc Let_def prod.case up bind_res.simps)
  have "wval ?p = wval p + 2 ^ (32 * i) * (unat x * wval b)"
    using wval_update [OF at, of c] row(1) by (cases "c = 0") (simp_all add: zero)
  moreover have "limbs32 ?p" "length ?p = 2 * LIMBS" "\<forall>k. Suc i + LIMBS \<le> k \<longrightarrow> k < length ?p \<longrightarrow> ?p ! k = 0"
    using row Cons.prems(2,6) by (auto intro: limbs32_update simp: nth_list_update)
  moreover obtain p' where "(mul_rows ?p (Suc i) xs b :: 'e fault + u64 list) = Inr p'" "limbs32 p'" "length p' = 2 * LIMBS"
    "wval p' = wval ?p + 2 ^ (32 * Suc i) * (wval xs * wval b)"
    using Cons.IH [of ?p "Suc i"] calculation Cons.prems by auto
  ultimately show ?case
    unfolding rows by (intro exI [of _ p']) (simp add: power_add algebra_simps)
qed simp

lemma wide_product_value:
  assumes "wide_ok a" "wide_ok b"
  shows "\<exists>p. (wide_product a b :: 'e fault + u64 list) = Inr p \<and> limbs32 p \<and> length p = 2 * LIMBS \<and> wval p = wval a * wval b"
  using mul_rows_value [of "replicate (2 * LIMBS) 0" a b 0] assms wide_okD [of a]
  by (auto simp: wide_product_def wide_ok_zero limbs32_def list_all_iff LIMBS_def)

lemma mul_mod_value:
  assumes "wide_ok a" "wide_ok b" "wide_ok m" "0 < wval m"
  obtains r where "(mul_mod a b m :: 'e fault + wide) = Inr r" "wide_ok r" "wval r = wval a * wval b mod wval m"
  using wide_product_value [OF assms(1,2), where 'e = 'e] reduce_value [OF _ _ assms(3,4)]
  by (auto simp: mul_mod_def)

lemma scale_mod_value:
  assumes "wide_ok a" "wide_ok m" "0 < wval m"
  obtains r where "(scale_mod k a m :: 'e fault + wide) = Inr r" "wide_ok r" "wval r = unat k * wval a mod wval m"
proof -
  have k: "unat (ucast k :: u64) = unat k" "unat k < 2 ^ 32"
    using unat_u32_less [of k] by (simp_all add: unsigned_ucast_eq take_bit_nat_eq_self)
  then have "wide_ok (ucast k # replicate (LIMBS - 1) 0)" "wval (ucast k # replicate (LIMBS - 1) 0) = unat k"
    by (simp_all add: wide_ok_def LIMBS_def limbs32_def list_all_iff wide_ok_zero(2))
  then show thesis
    using mul_mod_value [OF _ assms, of "ucast k # replicate (LIMBS - 1) 0"] that
    unfolding scale_mod_def by metis
qed

end
