(* ===== verification/Frames.thy ===== *)
theory Frames
  imports Wide Abi Field
begin

text \<open>
  The frame of each hash, field and curve delegation of \<open>crates/emulator/src/lib.rs\<close>: a list of words
  in, the written-back frame or a named refusal out. The pc every refusal carries is an argument, and
  an error is \<open>EmuError\<close>, whose other constructors are the executor's.
\<close>

unbundle bit_operations_syntax

datatype emu_error =
    NotAnInstruction (err_pc: u32)
  | IllegalInstruction (err_pc: u32) (err_illegal: u32)
  | EbreakTrap (err_pc: u32)
  | Misaligned (err_pc: u32) (err_addr: u32) (err_width: u32)
  | OutOfBounds (err_pc: u32) (err_addr: u32)
  | ClockOverflow (err_cycle: u64)
  | PublicInputTooLong (err_input_len: nat)
  | JournalTooLong (err_len: u32)
  | DelegationFamilyAbsent (err_pc: u32) (err_number: u32)
  | DelegationFrame (err_pc: u32) (err_detail: string)

type_synonym 'a emu = "emu_error fault + 'a"

section \<open>Frame access\<close>

text \<open>\<open>frame[first + k]\<close> over \<open>n\<close> words: a short frame panics, as the index does.\<close>

definition frame_words :: "u32 list \<Rightarrow> nat \<Rightarrow> nat \<Rightarrow> 'e fault + u32 list" where
  "frame_words frame first n = slice frame first (first + n)"

fun put_words :: "u32 list \<Rightarrow> nat \<Rightarrow> u32 list \<Rightarrow> 'e fault + u32 list" where
  "put_words frame at [] = Inr frame"
| "put_words frame at (w # ws) = bind_res (set_at frame at w) (\<lambda>frame. put_words frame (Suc at) ws)"

definition value_bytes :: "u32 list \<Rightarrow> nat \<Rightarrow> 'e fault + u8 list" where
  "value_bytes frame first = bind_res (frame_words frame first 8) (\<lambda>ws. Inr (concat (map u32_le_bytes ws)))"

definition bytes_words :: "u8 list \<Rightarrow> u32 list" where
  "bytes_words bytes = map (\<lambda>k. le32 (bytes ! (4 * k)) (bytes ! (4 * k + 1)) (bytes ! (4 * k + 2)) (bytes ! (4 * k + 3))) [0..<8]"

definition write_value :: "u32 list \<Rightarrow> nat \<Rightarrow> u8 list \<Rightarrow> 'e fault + u32 list" where
  "write_value frame first bytes = put_words frame first (bytes_words bytes)"

definition frame_wide :: "u32 list \<Rightarrow> nat \<Rightarrow> 'e fault + wide" where
  "frame_wide frame first = bind_res (frame_words frame first 8) (\<lambda>ws. Inr (map ucast ws))"

definition put_wide :: "u32 list \<Rightarrow> nat \<Rightarrow> wide \<Rightarrow> 'e fault + u32 list" where
  "put_wide frame first v = put_words frame first (map ucast v)"

section \<open>Field arithmetic\<close>

definition fr_operand :: "u32 \<Rightarrow> u32 list \<Rightarrow> nat \<Rightarrow> fr emu" where
  "fr_operand pc old first =
     bind_res (value_bytes old first) (\<lambda>bytes.
       case from_memory_bytes bytes of
         None \<Rightarrow> refuse (DelegationFrame pc ''an operand is not a canonical Fr'')
       | Some x \<Rightarrow> Inr x)"

definition fr_arith_frame :: "u32 \<Rightarrow> u32 list \<Rightarrow> u32 list emu" where
  "fr_arith_frame pc old =
     bind_res (fr_operand pc old fr_arith_A_WORD) (\<lambda>a.
     bind_res (fr_operand pc old fr_arith_B_WORD) (\<lambda>b.
     bind_res (idx old fr_arith_OPCODE_WORD) (\<lambda>code.
     bind_res
       (if code = fr_arith_OP_ADD then Inr (fr_add a b)
        else if code = fr_arith_OP_MUL then Inr (fr_mul a b)
        else if code = fr_arith_OP_INV then Inr (case fr_inverse a of None \<Rightarrow> fr_zero | Some x \<Rightarrow> x)
        else refuse (DelegationFrame pc ''the operation code is not add, mul or inverse'')) (\<lambda>out.
       write_value old fr_arith_OUT_WORD (to_memory_bytes out)))))"

section \<open>Modular product\<close>

definition mod_mul_frame :: "u32 \<Rightarrow> u32 list \<Rightarrow> u32 list emu" where
  "mod_mul_frame pc old =
     bind_res (idx old mod_mul_SELECTOR_WORD) (\<lambda>code.
     case mod_mul_modulus code of
       None \<Rightarrow> refuse (DelegationFrame pc ''the modulus selector names no field'')
     | Some selected \<Rightarrow>
         let m = map ucast selected in
         bind_res (frame_wide old mod_mul_A_WORD) (\<lambda>a.
         bind_res (frame_wide old mod_mul_B_WORD) (\<lambda>b.
         if \<not> less_than a m then refuse (DelegationFrame pc ''operand a is not below the modulus'')
         else if \<not> less_than b m then refuse (DelegationFrame pc ''operand b is not below the modulus'')
         else bind_res (wide_product a b) (\<lambda>product.
           put_wide old mod_mul_OUT_WORD (reduce product m)))))"

section \<open>SHA-256\<close>

text \<open>The working variables \<open>[a, b, c, d, e, f, g, h]\<close> through one round with its constant and word.\<close>

fun sha256_round :: "u32 list \<Rightarrow> u32 \<Rightarrow> u32 \<Rightarrow> u32 list" where
  "sha256_round [a, b, c, d, e, f, g, h] k w =
     (let s1 = word_rotr 6 e XOR word_rotr 11 e XOR word_rotr 25 e;
          ch = (e AND f) XOR (NOT e AND g);
          t1 = h + s1 + ch + k + w;
          s0 = word_rotr 2 a XOR word_rotr 13 a XOR word_rotr 22 a;
          maj = (a AND b) XOR (a AND c) XOR (b AND c);
          t2 = s0 + maj in
      [t1 + t2, a, b, c, d + t1, e, f, g])"
| "sha256_round s k w = s"

definition sha256_schedule :: "u32 list \<Rightarrow> nat \<Rightarrow> u32 list" where
  "sha256_schedule x t =
     (let s0 = word_rotr 7 (x ! (t - 15)) XOR word_rotr 18 (x ! (t - 15)) XOR shr (x ! (t - 15)) 3;
          s1 = word_rotr 17 (x ! (t - 2)) XOR word_rotr 19 (x ! (t - 2)) XOR shr (x ! (t - 2)) 10 in
      x @ [x ! (t - 16) + s0 + x ! (t - 7) + s1])"

definition sha256_call :: "nat \<Rightarrow> u32 list \<Rightarrow> u32 list \<Rightarrow> 'e fault + (u32 list \<times> u32 list)" where
  "sha256_call grp state window =
     bind_res (ensure (sha256_ROUNDS_PER_CALL * grp + sha256_ROUNDS_PER_CALL \<le> length sha256_ROUND_CONSTANTS)) (\<lambda>_.
       Inr (foldl (\<lambda>s k. sha256_round s (sha256_ROUND_CONSTANTS ! (sha256_ROUNDS_PER_CALL * grp + k)) (window ! k))
              state [0..<sha256_ROUNDS_PER_CALL],
            drop sha256_ROUNDS_PER_CALL
              (foldl (\<lambda>x m. sha256_schedule x (sha256_BLOCK_WORDS + m)) window [0..<sha256_ROUNDS_PER_CALL])))"

definition sha256_frame :: "u32 \<Rightarrow> u32 list \<Rightarrow> u32 list emu" where
  "sha256_frame pc old =
     bind_res (idx old sha256_GROUP_WORD) (\<lambda>grp.
     if unat grp \<ge> sha256_GROUPS then
       refuse (DelegationFrame pc ''the group word is not a SHA-256 round group'')
     else
       bind_res (frame_words old sha256_STATE_WORD sha256_STATE_WORDS) (\<lambda>state.
       bind_res (frame_words old sha256_WINDOW_WORD sha256_BLOCK_WORDS) (\<lambda>window.
       bind_res (sha256_call (unat grp) state window) (\<lambda>(state, window).
         Inr (grp # state @ window)))))"

section \<open>Keccak\<close>

definition lanes_of :: "u32 list \<Rightarrow> u64 list" where
  "lanes_of words = map (\<lambda>i. ucast (words ! (2 * i)) OR shl (ucast (words ! (2 * i + 1))) 32) [0..<keccak_LANES]"

definition words_of :: "u64 list \<Rightarrow> u32 list" where
  "words_of lanes = map (\<lambda>j. ucast (shr (lanes ! (j div 2)) (32 * (j mod 2)))) [0..<keccak_STATE_WORDS]"

definition keccak_theta :: "u64 list \<Rightarrow> u64 list" where
  "keccak_theta lanes =
     (let c = map (\<lambda>x. lanes ! x XOR lanes ! (x + 5) XOR lanes ! (x + 10) XOR lanes ! (x + 15) XOR lanes ! (x + 20)) [0..<5] in
      foldl (\<lambda>lanes x.
        let d = c ! ((x + 4) mod 5) XOR word_rotl 1 (c ! ((x + 1) mod 5)) in
        foldl (\<lambda>lanes y. lanes[x + 5 * y := lanes ! (x + 5 * y) XOR d]) lanes [0..<5]) lanes [0..<5])"

definition keccak_rho_pi :: "u64 list \<Rightarrow> u64 list" where
  "keccak_rho_pi lanes =
     foldl (\<lambda>b x. foldl (\<lambda>b y.
       b[y + 5 * ((2 * x + 3 * y) mod 5) := word_rotl (keccak_ROTATIONS ! y ! x) (lanes ! (x + 5 * y))]) b [0..<5])
       (replicate keccak_LANES 0) [0..<5]"

definition keccak_chi :: "u64 list \<Rightarrow> u64 list \<Rightarrow> u64 list" where
  "keccak_chi lanes b =
     foldl (\<lambda>lanes x. foldl (\<lambda>lanes y.
       lanes[x + 5 * y := b ! (x + 5 * y) XOR (NOT (b ! ((x + 1) mod 5 + 5 * y)) AND b ! ((x + 2) mod 5 + 5 * y))])
       lanes [0..<5]) lanes [0..<5]"

definition keccak_round :: "u64 list \<Rightarrow> nat \<Rightarrow> 'e fault + u64 list" where
  "keccak_round lanes round =
     (let lanes = keccak_theta lanes;
          b = keccak_rho_pi lanes;
          lanes = keccak_chi lanes b in
      bind_res (idx keccak_ROUND_CONSTANTS round) (\<lambda>rc.
        Inr (lanes[0 := lanes ! 0 XOR rc])))"

definition keccak_f :: "u64 list \<Rightarrow> 'e fault + u64 list" where
  "keccak_f lanes = foldl (\<lambda>r round. bind_res r (\<lambda>lanes. keccak_round lanes round)) (Inr lanes) [0..<keccak_ROUNDS]"

definition keccak_frame :: "u32 \<Rightarrow> u32 list \<Rightarrow> u32 list emu" where
  "keccak_frame pc old =
     bind_res (idx old keccak_ROUND_WORD) (\<lambda>round.
     if unat round \<ge> keccak_ROUNDS then
       refuse (DelegationFrame pc ''the round word is not a keccak-f round'')
     else
       bind_res (frame_words old keccak_STATE_WORD keccak_STATE_WORDS) (\<lambda>state.
       bind_res (keccak_round (lanes_of state) (unat round)) (\<lambda>lanes.
         Inr (round # words_of lanes))))"

section \<open>Point addition\<close>

definition ec_add_reads :: "nat \<Rightarrow> (string \<times> nat) list" where
  "ec_add_reads g =
     (if g = 2 then
        [(''the intermediate xx is not below the modulus'', ec_add_XX_WORD),
         (''the intermediate yy is not below the modulus'', ec_add_YY_WORD),
         (''the intermediate zz is not below the modulus'', ec_add_ZZ_WORD),
         (''the intermediate m4 is not below the modulus'', ec_add_M4_WORD),
         (''the intermediate m5 is not below the modulus'', ec_add_M5_WORD),
         (''the intermediate m6 is not below the modulus'', ec_add_M6_WORD)]
      else
        [(''coordinate x1 is not below the modulus'', ec_add_X1_WORD),
         (''coordinate y1 is not below the modulus'', ec_add_Y1_WORD),
         (''coordinate z1 is not below the modulus'', ec_add_Z1_WORD),
         (''coordinate x2 is not below the modulus'', ec_add_X2_WORD),
         (''coordinate y2 is not below the modulus'', ec_add_Y2_WORD),
         (''coordinate z2 is not below the modulus'', ec_add_Z2_WORD)])"

text \<open>The six operands, each checked against the modulus in turn.\<close>

fun ec_add_operands :: "u32 \<Rightarrow> u32 list \<Rightarrow> wide \<Rightarrow> (string \<times> nat) list \<Rightarrow> wide list emu" where
  "ec_add_operands pc old m [] = Inr []"
| "ec_add_operands pc old m ((detail, first) # reads) =
     bind_res (frame_wide old first) (\<lambda>v.
     if \<not> less_than v m then refuse (DelegationFrame pc detail)
     else bind_res (ec_add_operands pc old m reads) (\<lambda>vs. Inr (v # vs)))"

definition put3 :: "u32 list \<Rightarrow> nat \<times> wide \<Rightarrow> nat \<times> wide \<Rightarrow> nat \<times> wide \<Rightarrow> 'e fault + u32 list" where
  "put3 frame a b c =
     bind_res (put_wide frame (fst a) (snd a)) (\<lambda>frame.
     bind_res (put_wide frame (fst b) (snd b)) (\<lambda>frame.
     put_wide frame (fst c) (snd c)))"

fun ec_add_group0 :: "u32 list \<Rightarrow> wide \<Rightarrow> wide list \<Rightarrow> 'e fault + u32 list" where
  "ec_add_group0 old m [x1, y1, z1, x2, y2, z2] =
     bind_res (mul_mod x1 x2 m) (\<lambda>xx.
     bind_res (mul_mod y1 y2 m) (\<lambda>yy.
     bind_res (mul_mod z1 z2 m) (\<lambda>zz.
       put3 old (ec_add_XX_WORD, xx) (ec_add_YY_WORD, yy) (ec_add_ZZ_WORD, zz))))"
| "ec_add_group0 old m _ = panic"

fun ec_add_group1 :: "u32 list \<Rightarrow> wide \<Rightarrow> wide list \<Rightarrow> 'e fault + u32 list" where
  "ec_add_group1 old m [x1, y1, z1, x2, y2, z2] =
     bind_res (mul_mod (add_mod x1 y1 m) (add_mod x2 y2 m) m) (\<lambda>m4.
     bind_res (mul_mod (add_mod y1 z1 m) (add_mod y2 z2 m) m) (\<lambda>m5.
     bind_res (mul_mod (add_mod x1 z1 m) (add_mod x2 z2 m) m) (\<lambda>m6.
       put3 old (ec_add_M4_WORD, m4) (ec_add_M5_WORD, m5) (ec_add_M6_WORD, m6))))"
| "ec_add_group1 old m _ = panic"

fun ec_add_group2 :: "u32 \<Rightarrow> u32 list \<Rightarrow> wide \<Rightarrow> wide list \<Rightarrow> 'e fault + u32 list" where
  "ec_add_group2 b3 old m [xx, yy, zz, m4, m5, m6] =
     (let xy = sub_mod (sub_mod m4 xx m) yy m;
          yz = sub_mod (sub_mod m5 yy m) zz m;
          xz = sub_mod (sub_mod m6 xx m) zz m in
      bind_res (scale_mod b3 zz m) (\<lambda>bzz3.
      let ym = sub_mod yy bzz3 m; yp = add_mod yy bzz3 m in
      bind_res (scale_mod b3 yz m) (\<lambda>byz3.
      bind_res (scale_mod 3 xx m) (\<lambda>xx3.
      bind_res (scale_mod (3 * b3) xx m) (\<lambda>bxx9.
      bind_res (mul_mod xy ym m) (\<lambda>xyym.
      bind_res (mul_mod byz3 xz m) (\<lambda>byz3xz.
      bind_res (mul_mod yp ym m) (\<lambda>ypym.
      bind_res (mul_mod bxx9 xz m) (\<lambda>bxx9xz.
      bind_res (mul_mod yz yp m) (\<lambda>yzyp.
      bind_res (mul_mod xx3 xy m) (\<lambda>xx3xy.
        put3 old (ec_add_X1_WORD, sub_mod xyym byz3xz m)
                 (ec_add_Y1_WORD, add_mod ypym bxx9xz m)
                 (ec_add_Z1_WORD, add_mod yzyp xx3xy m))))))))))))"
| "ec_add_group2 b3 old m _ = panic"

definition ec_add_frame :: "u32 \<Rightarrow> u32 list \<Rightarrow> u32 list emu" where
  "ec_add_frame pc old =
     bind_res (idx old ec_add_SELECTOR_WORD) (\<lambda>code.
     case (ec_add_modulus code, ec_add_b3 code, ec_add_reduction_group code) of
       (Some selected, Some b3, Some g) \<Rightarrow>
         (let m = map ucast selected in
          bind_res (ec_add_operands pc old m (ec_add_reads g)) (\<lambda>vs.
          if g = 0 then ec_add_group0 old m vs
          else if g = 1 then ec_add_group1 old m vs
          else ec_add_group2 b3 old m vs))
     | _ \<Rightarrow> refuse (DelegationFrame pc ''the selector names no curve and group''))"

end
