(* ===== verification/Arith_Frames.thy ===== *)
theory Arith_Frames
  imports Frames
begin

text \<open>
  What the modular product and the point addition write back: the product modulo the selected prime, and,
  over the three invocations of one addition, the complete addition formulas in its field.
\<close>

unbundle bit_operations_syntax

section \<open>Frame words\<close>

lemma frame_words_eq [simp]:
  "first + n \<le> length old \<Longrightarrow> frame_words old first n = Inr (take n (drop first old))"
  by (simp add: frame_words_def slice_def)

lemma put_words_eq [simp]:
  "at + length ws \<le> length frame \<Longrightarrow>
    put_words frame at ws = (Inr (take at frame @ ws @ drop (at + length ws) frame) :: 'e fault + u32 list)"
proof (induction ws arbitrary: frame at)
  case (Cons w ws)
  have "put_words frame at (w # ws) = (put_words (frame[at := w]) (Suc at) ws :: 'e fault + u32 list)"
    using Cons.prems by (simp add: set_at_def del: bind_res_Inr)
  also have "\<dots> = Inr (take (Suc at) (frame[at := w]) @ ws @ drop (Suc at + length ws) (frame[at := w]))"
    using Cons.prems by (intro Cons.IH) simp
  finally show ?case
    using Cons.prems by (simp add: take_Suc_conv_app_nth take_update_cancel)
qed simp

definition wide_at :: "u32 list \<Rightarrow> nat \<Rightarrow> nat" where
  "wide_at frame first = wval (map ucast (take 8 (drop first frame)))"

text \<open>Eight words holding a number below \<open>2 ^ 256\<close>, the least significant first.\<close>

definition words8 :: "nat \<Rightarrow> u32 list" where
  "words8 n = map (\<lambda>k. of_nat (n div 2 ^ (32 * k))) [0..<8]"

lemma unat_widen: "unat (ucast (w :: u32) :: u64) = unat w"
  using unat_u32_less [of w] by (simp add: unsigned_ucast_eq take_bit_nat_eq_self)

lemma wide_ok_words: "length ws = 8 \<Longrightarrow> wide_ok (map ucast (ws :: u32 list))"
  using unat_u32_less unat_widen by (auto simp: wide_ok_def LIMBS_def limbs32_def list_all_iff)

lemma words8_wide:
  assumes "wide_ok v"
  shows "map ucast v = words8 (wval v)"
proof (rule nth_equalityI)
  fix k assume "k < length (map ucast v :: u32 list)"
  then have k: "k < 8"
    using wide_okD [OF assms] by simp
  have "unat (v ! k) < 2 ^ 32"
    using assms k by (simp add: wide_ok_def limbs32_def list_all_length LIMBS_def)
  then have "(ucast (v ! k) :: u32) = of_nat (wval v div 2 ^ (32 * k) mod 2 ^ 32)"
    using wval_limb [of v k] wide_okD [OF assms] k by (simp add: word_unat_eq_iff unsigned_ucast_eq take_bit_nat_eq_self)
  also have "\<dots> = of_nat (wval v div 2 ^ (32 * k))"
    by (simp add: word_unat_eq_iff unat_of_nat)
  finally show "map ucast v ! k = words8 (wval v) ! k"
    using k wide_okD [OF assms] by (simp add: words8_def)
qed (simp add: words8_def wide_okD [OF assms])

lemma length_words8 [simp]: "length (words8 n) = 8"
  by (simp add: words8_def)

lemma frame_wide_eq:
  "first + 8 \<le> length old \<Longrightarrow> frame_wide old first = Inr (map ucast (take 8 (drop first old)))"
  by (simp add: frame_wide_def del: bind_res_Inr)

lemma frame_wide_ok: "first + 8 \<le> length old \<Longrightarrow> wide_ok (map ucast (take 8 (drop first (old :: u32 list))))"
  by (intro wide_ok_words) simp

lemma put_wide_eq:
  "wide_ok v \<Longrightarrow> at + 8 \<le> length frame \<Longrightarrow>
    put_wide frame at v = Inr (take at frame @ words8 (wval v) @ drop (at + 8) frame)"
  by (simp add: put_wide_def words8_wide)

section \<open>The modular product\<close>

lemma mod_mul_modulus_ok:
  assumes "mod_mul_modulus code = Some m"
  shows "wide_ok (map ucast m)" "0 < wval (map ucast m)"
proof -
  have "m \<in> set mod_mul_MODULI"
    using assms by (auto simp: mod_mul_modulus_def mod_mul_CODES_def mod_mul_MODULI_def split: if_splits)
  then show "wide_ok (map ucast m)" "0 < wval (map ucast m)"
    by (auto simp: mod_mul_MODULI_def wide_ok_def LIMBS_def)
qed

lemma mod_mul_frame_value:
  assumes "length old = mod_mul_FRAME_WORDS"
  shows "mod_mul_frame pc old =
     (case mod_mul_modulus (old ! mod_mul_SELECTOR_WORD) of
        None \<Rightarrow> refuse (DelegationFrame pc ''the modulus selector names no field'')
      | Some selected \<Rightarrow>
          let m = wval (map ucast selected); a = wide_at old mod_mul_A_WORD; b = wide_at old mod_mul_B_WORD in
          if m \<le> a then refuse (DelegationFrame pc ''operand a is not below the modulus'')
          else if m \<le> b then refuse (DelegationFrame pc ''operand b is not below the modulus'')
          else Inr (take mod_mul_OUT_WORD old @ words8 (a * b mod m)))"
proof (cases "mod_mul_modulus (old ! 0)")
  case None
  then show ?thesis
    using assms by (simp add: mod_mul_frame_def idx_def del: bind_res_Inr)
next
  case (Some sel)
  let ?m = "map ucast sel" and ?a = "map ucast (take 8 (drop 1 old))" and ?b = "map ucast (take 8 (drop 9 old))"
  have m: "wide_ok ?m" "0 < wval ?m"
    using mod_mul_modulus_ok [OF Some] by simp_all
  have ab: "wide_ok ?a" "wide_ok ?b"
    using assms by (simp_all add: frame_wide_ok)
  obtain p where p: "(wide_product ?a ?b :: emu_error fault + u64 list) = Inr p" "limbs32 p" "length p = 2 * LIMBS"
    "wval p = wval ?a * wval ?b"
    using wide_product_value [OF ab] by blast
  have "wide_ok (reduce p ?m)" "wval (reduce p ?m) = wval p mod wval ?m"
    using reduce_value [OF p(2,3) m] by simp_all
  then have out: "put_wide old 17 (reduce p ?m) = (Inr (take 17 old @ words8 (wval ?a * wval ?b mod wval ?m)) :: u32 list emu)"
    using assms p(4) by (simp add: put_wide_eq)
  have fw: "frame_wide old 1 = (Inr ?a :: wide emu)" "frame_wide old 9 = (Inr ?b :: wide emu)"
    using assms by (simp_all add: frame_wide_eq)
  have less: "less_than ?a ?m \<longleftrightarrow> wval ?a < wval ?m" "less_than ?b ?m \<longleftrightarrow> wval ?b < wval ?m"
    using less_than_value ab m by simp_all
  have "mod_mul_frame pc old =
      (if \<not> less_than ?a ?m then refuse (DelegationFrame pc ''operand a is not below the modulus'')
       else if \<not> less_than ?b ?m then refuse (DelegationFrame pc ''operand b is not below the modulus'')
       else Inr (take 17 old @ words8 (wval ?a * wval ?b mod wval ?m)))"
    using assms by (cases "less_than ?a ?m"; cases "less_than ?b ?m")
      (simp_all only: mod_mul_frame_def idx_def fw p(1) out bind_res.simps Let_def option.simps Some if_True
        if_False simp_thms zero_less_numeral)
  then show ?thesis
    by (simp only: Some option.simps less wide_at_def Let_def not_less)
qed

text \<open>C16: One \<open>MOD_MUL\<close> invocation writes the product of its operands modulo the prime its selector
  names into the eight result words and changes nothing else; it refuses a selector naming no field and
  an operand at or above the modulus, and never panics on a frame of its 25 words.\<close>

theorem mod_mul_frame_computes:
  assumes "length old = mod_mul_FRAME_WORDS"
  shows "mod_mul_frame pc old =
     (case mod_mul_modulus (old ! mod_mul_SELECTOR_WORD) of
        None \<Rightarrow> refuse (DelegationFrame pc ''the modulus selector names no field'')
      | Some selected \<Rightarrow>
          let m = wval (map ucast selected); a = wide_at old mod_mul_A_WORD; b = wide_at old mod_mul_B_WORD in
          if m \<le> a then refuse (DelegationFrame pc ''operand a is not below the modulus'')
          else if m \<le> b then refuse (DelegationFrame pc ''operand b is not below the modulus'')
          else Inr (take mod_mul_OUT_WORD old @ words8 (a * b mod m)))"
  using assms by (rule mod_mul_frame_value)

theorem mod_mul_frame_computes_witness:
  "mod_mul_frame 0 (1 # replicate 24 0) = Inr (1 # replicate 16 0 @ words8 0)"
proof -
  let ?f = "1 # replicate 24 (0 :: u32)"
  have "take 8 (drop 1 ?f) = replicate 8 0" "take 8 (drop 9 ?f) = replicate 8 0"
    by (simp_all add: numeral_eq_Suc)
  then have at: "wide_at ?f 1 = 0" "wide_at ?f 9 = 0"
    by (simp_all only: wide_at_def map_replicate unsigned_0 wide_ok_zero(2))
  have m: "mod_mul_modulus 1 = Some (mod_mul_MODULI ! 0)"
    by (simp add: mod_mul_modulus_def mod_mul_CODES_def)
  have len: "length ?f = 25" "take 17 ?f = 1 # replicate 16 0"
    by (simp_all add: numeral_eq_Suc)
  have "\<not> wval (map ucast (mod_mul_MODULI ! 0)) \<le> 0"
    using mod_mul_modulus_ok(2) [OF m] by simp
  then show ?thesis
    unfolding mod_mul_frame_computes [OF len(1), of 0] nth_Cons_0 m option.simps Let_def at len(2)
    by (simp only: if_False mult_0 mod_0 append_Cons)
qed

section \<open>Residues\<close>

text \<open>\<open>v\<close> holds the residue of \<open>x\<close> modulo \<open>m\<close>.\<close>

definition residue :: "wide \<Rightarrow> wide \<Rightarrow> int \<Rightarrow> bool" where
  "residue m v x \<longleftrightarrow> wide_ok v \<and> int (wval v) = x mod int (wval m)"

definition modulus_ok :: "wide \<Rightarrow> bool" where
  "modulus_ok m \<longleftrightarrow> wide_ok m \<and> 0 < wval m"

lemma residueD:
  assumes "modulus_ok m" "residue m v x"
  shows "wide_ok v" "wval v < wval m" "int (wval v) = x mod int (wval m)"
proof -
  show v: "wide_ok v" "int (wval v) = x mod int (wval m)"
    using assms(2) by (simp_all add: residue_def)
  have "int (wval v) < int (wval m)"
    unfolding v(2) using assms(1) by (simp add: modulus_ok_def)
  then show "wval v < wval m"
    by simp
qed

lemma residue_add:
  assumes "modulus_ok m" "residue m a x" "residue m b y"
  shows "residue m (add_mod a b m) (x + y)"
  using add_mod_value [of a b m] residueD [OF assms(1,2)] residueD [OF assms(1,3)] assms(1)
  by (simp add: residue_def modulus_ok_def zmod_int mod_add_eq)

lemma residue_sub:
  assumes "modulus_ok m" "residue m a x" "residue m b y"
  shows "residue m (sub_mod a b m) (x - y)"
  using sub_mod_value [of a b m] residueD [OF assms(1,2)] residueD [OF assms(1,3)] assms(1)
  by (simp add: residue_def modulus_ok_def mod_diff_eq)

lemma residue_mul:
  assumes "modulus_ok m" "residue m a x" "residue m b y"
  obtains v where "(mul_mod a b m :: 'e fault + wide) = Inr v" "residue m v (x * y)"
proof -
  obtain v where v: "(mul_mod a b m :: 'e fault + wide) = Inr v" "wide_ok v" "wval v = wval a * wval b mod wval m"
    using mul_mod_value [of a b m] residueD [OF assms(1,2)] residueD [OF assms(1,3)] assms(1)
    unfolding modulus_ok_def by blast
  have r: "int (wval v) = x * y mod int (wval m)"
    unfolding v(3) zmod_int of_nat_mult residueD(3) [OF assms(1,2)] residueD(3) [OF assms(1,3)] by (rule mod_mult_eq)
  show thesis
    by (rule that [OF v(1)]) (unfold residue_def, use v(2) r in blast)
qed

lemma residue_scale:
  assumes "modulus_ok m" "residue m a x"
  obtains v where "(scale_mod k a m :: 'e fault + wide) = Inr v" "residue m v (int (unat k) * x)"
proof -
  obtain v where v: "(scale_mod k a m :: 'e fault + wide) = Inr v" "wide_ok v" "wval v = unat k * wval a mod wval m"
    using scale_mod_value [of a m k] residueD [OF assms] assms(1) unfolding modulus_ok_def by blast
  have r: "int (wval v) = int (unat k) * x mod int (wval m)"
    unfolding v(3) zmod_int of_nat_mult residueD(3) [OF assms] by (rule mod_mult_right_eq)
  show thesis
    by (rule that [OF v(1)]) (unfold residue_def, use v(2) r in blast)
qed

section \<open>Writes into the frame\<close>

definition put8 :: "nat \<Rightarrow> nat \<Rightarrow> u32 list \<Rightarrow> u32 list" where
  "put8 at n frame = take at frame @ words8 n @ drop (at + 8) frame"

lemma length_put8 [simp]: "at + 8 \<le> length f \<Longrightarrow> length (put8 at n f) = length f"
  by (simp add: put8_def)

lemma put8_nth [simp]: "i < at \<Longrightarrow> at + 8 \<le> length f \<Longrightarrow> put8 at n f ! i = f ! i"
  by (simp add: put8_def nth_append)

lemma unat_div_mod: "unat (of_nat (n div 2 ^ k) :: u32) = n div 2 ^ k mod 2 ^ 32"
  by (simp add: unat_of_nat)

lemma wval_words8: "n < 2 ^ 256 \<Longrightarrow> wval (map ucast (words8 n)) = n"
proof -
  assume n: "n < 2 ^ 256"
  have step: "x mod 2 ^ 32 + 2 ^ 32 * (x div 2 ^ 32) = x" for x :: nat
    by simp
  have "wval (map (\<lambda>k. ucast (of_nat (n div 2 ^ (32 * k)) :: u32)) [8 - j..<8]) = n div 2 ^ (32 * (8 - j))" if "j \<le> 8" for j
    using that
  proof (induction j)
    case 0
    then show ?case
      using n by simp
  next
    case (Suc j)
    then have e: "[8 - Suc j..<8] = (8 - Suc j) # [8 - j..<8]" "32 * (8 - j) = 32 * (8 - Suc j) + 32"
      using upt_conv_Cons [of "8 - Suc j" 8] Suc_diff_Suc [of j 8] by simp_all
    let ?x = "n div 2 ^ (32 * (8 - Suc j))"
    have "wval (map (\<lambda>k. ucast (of_nat (n div 2 ^ (32 * k)) :: u32)) [8 - Suc j..<8]) =
        ?x mod 2 ^ 32 + 2 ^ 32 * (n div 2 ^ (32 * (8 - j)))"
      unfolding e(1) list.map wval.simps unat_widen unat_div_mod using Suc by simp
    also have "n div 2 ^ (32 * (8 - j)) = ?x div 2 ^ 32"
      unfolding e(2) power_add by (simp add: div_mult2_eq)
    finally show ?case
      unfolding step .
  qed
  from this [of 8] show ?thesis
    by (simp add: words8_def comp_def)
qed

lemma wide_at_put8:
  assumes "at + 8 \<le> length f" "n < 2 ^ 256"
  shows "wide_at (put8 at n f) at = n"
proof -
  have "take 8 (drop at (put8 at n f)) = words8 n"
    using assms(1) by (simp add: put8_def)
  then show ?thesis
    using wval_words8 [OF assms(2)] by (simp add: wide_at_def)
qed

lemma wide_at_put8_other:
  assumes "at + 8 \<le> length f" "first + 8 \<le> length f" "first + 8 \<le> at \<or> at + 8 \<le> first"
  shows "wide_at (put8 at n f) first = wide_at f first"
proof -
  have "take 8 (drop first (put8 at n f)) = take 8 (drop first f)"
    using assms(3)
  proof
    assume "first + 8 \<le> at"
    then show ?thesis
      using assms(1) by (auto simp: put8_def drop_take min_def)
  next
    assume "at + 8 \<le> first"
    then show ?thesis
      using assms(1) by (simp add: put8_def)
  qed
  then show ?thesis
    by (simp add: wide_at_def)
qed

lemma wide_at_update0: "0 < first \<Longrightarrow> wide_at (f[0 := c]) first = wide_at f first"
  by (simp add: wide_at_def drop_update_cancel)

definition wide_in :: "u32 list \<Rightarrow> nat \<Rightarrow> wide" where
  "wide_in old first = map ucast (take 8 (drop first old))"

lemma wval_wide_in: "wval (wide_in old first) = wide_at old first"
  by (simp add: wide_in_def wide_at_def)

lemma residue_wide_in:
  assumes "first + 8 \<le> length old" "wide_at old first < wval m"
  shows "residue m (wide_in old first) (int (wide_at old first))"
  using assms frame_wide_ok [OF assms(1)] wval_wide_in [of old first] by (simp add: residue_def wide_in_def)

lemma put3_residues:
  assumes m: "modulus_ok m" and "residue m a x" "residue m b y" "residue m c z"
    "at1 + 8 \<le> length f" "at2 + 8 \<le> length f" "at3 + 8 \<le> length f"
  shows "put3 f (at1, a) (at2, b) (at3, c) =
    (Inr (put8 at3 (nat (z mod int (wval m))) (put8 at2 (nat (y mod int (wval m)))
      (put8 at1 (nat (x mod int (wval m))) f))) :: 'e fault + u32 list)"
proof -
  have w: "put_wide g at v = (Inr (put8 at (nat (u mod int (wval m))) g) :: 'e fault + u32 list)"
    if "residue m v u" "at + 8 \<le> length g" for g at v u
    using residueD [OF m that(1)] that(2) put_wide_eq [of v at g] by (metis nat_int put8_def)
  show ?thesis
    using assms by (simp add: put3_def w del: bind_res_Inr)
qed

section \<open>The three invocations of an addition\<close>

lemma ec_add_operands_eq:
  assumes m: "modulus_ok m"
    and "list_all (\<lambda>(d, first). first + 8 \<le> length old \<and> wide_at old first < wval m) reads"
  shows "ec_add_operands pc old m reads = Inr (map (\<lambda>(d, first). wide_in old first) reads)"
  using assms(2)
proof (induction reads)
  case (Cons r reads)
  obtain d first where r: "r = (d, first)"
    by fastforce
  with Cons.prems have f: "first + 8 \<le> length old" "wide_at old first < wval m"
    by simp_all
  then have "less_than (wide_in old first) m"
    using m frame_wide_ok [OF f(1)] less_than_value [of "wide_in old first" m] wval_wide_in [of old first]
    by (simp add: modulus_ok_def wide_in_def)
  with Cons f show ?case
    by (simp add: r frame_wide_eq wide_in_def del: bind_res_Inr)
qed simp

text \<open>The complete addition formulas on \<open>y\<^sup>2 = x\<^sup>3 + b\<close> in projective coordinates, with \<open>b3 = 3 b\<close>.\<close>

fun complete_add :: "int \<Rightarrow> int \<Rightarrow> int \<times> int \<times> int \<Rightarrow> int \<times> int \<times> int \<Rightarrow> int \<times> int \<times> int" where
  "complete_add b3 m (x1, y1, z1) (x2, y2, z2) =
     (let xx = x1 * x2; yy = y1 * y2; zz = z1 * z2;
          xy = x1 * y2 + x2 * y1; yz = y1 * z2 + y2 * z1; xz = x1 * z2 + x2 * z1 in
      ((xy * (yy - b3 * zz) - b3 * yz * xz) mod m,
       ((yy + b3 * zz) * (yy - b3 * zz) + 3 * b3 * xx * xz) mod m,
       (yz * (yy + b3 * zz) + 3 * xx * xy) mod m))"

definition ec_add_calls :: "u32 \<Rightarrow> u32 \<Rightarrow> u32 list \<Rightarrow> u32 list emu" where
  "ec_add_calls pc code old =
     bind_res (ec_add_frame pc (old[0 := code])) (\<lambda>f.
     bind_res (ec_add_frame pc (f[0 := code + 1])) (\<lambda>f.
     ec_add_frame pc (f[0 := code + 2])))"

definition below :: "wide \<Rightarrow> u32 list \<Rightarrow> nat list \<Rightarrow> bool" where
  "below m f ats \<longleftrightarrow> list_all (\<lambda>at. wide_at f at < wval m) ats"

lemma below_put8:
  "at + 8 \<le> length f \<Longrightarrow> n < 2 ^ 256 \<Longrightarrow> n < wval m \<Longrightarrow> below m f ats \<Longrightarrow>
    list_all (\<lambda>a. a + 8 \<le> length f \<and> (a = at \<or> a + 8 \<le> at \<or> at + 8 \<le> a)) ats \<Longrightarrow> below m (put8 at n f) ats"
  unfolding below_def list_all_iff using wide_at_put8 [of at f n] wide_at_put8_other [of at f _ n] by metis

lemma group_reads:
  assumes "modulus_ok m" "length old = 97" "below m old (map snd (ec_add_reads g))"
  shows "ec_add_operands pc old m (ec_add_reads g) = Inr (map (wide_in old \<circ> snd) (ec_add_reads g))"
proof -
  have "list_all (\<lambda>r. snd r + 8 \<le> length old) (ec_add_reads g)"
    by (simp add: ec_add_reads_def assms(2))
  then have "list_all (\<lambda>(d, first). first + 8 \<le> length old \<and> wide_at old first < wval m) (ec_add_reads g)"
    using assms(3) by (simp add: below_def list_all_iff case_prod_beta)
  from ec_add_operands_eq [OF assms(1) this] show ?thesis
    by (simp add: comp_def case_prod_beta)
qed

lemma ec_add_group0_value:
  assumes m: "modulus_ok m" "length old = 97" "below m old [1, 9, 17, 25, 33, 41]"
  shows "ec_add_group0 old m (map (wide_in old) [1, 9, 17, 25, 33, 41]) =
    (Inr (put8 65 (wide_at old 17 * wide_at old 41 mod wval m) (put8 57 (wide_at old 9 * wide_at old 33 mod wval m)
      (put8 49 (wide_at old 1 * wide_at old 25 mod wval m) old))) :: 'e fault + u32 list)"
proof -
  have r: "residue m (wide_in old at) (int (wide_at old at))" if "at \<in> set [1, 9, 17, 25, 33, 41]" for at
    using that m by (intro residue_wide_in) (auto simp: below_def)
  obtain xx where xx: "mul_mod (wide_in old 1) (wide_in old 25) m = (Inr xx :: 'e fault + wide)"
    "residue m xx (int (wide_at old 1) * int (wide_at old 25))"
    using residue_mul [OF m(1) r [of 1] r [of 25]] by auto
  obtain yy where yy: "mul_mod (wide_in old 9) (wide_in old 33) m = (Inr yy :: 'e fault + wide)"
    "residue m yy (int (wide_at old 9) * int (wide_at old 33))"
    using residue_mul [OF m(1) r [of 9] r [of 33]] by auto
  obtain zz where zz: "mul_mod (wide_in old 17) (wide_in old 41) m = (Inr zz :: 'e fault + wide)"
    "residue m zz (int (wide_at old 17) * int (wide_at old 41))"
    using residue_mul [OF m(1) r [of 17] r [of 41]] by auto
  have n: "nat (int x * int y mod int (wval m)) = x * y mod wval m" for x y
    by (metis nat_int of_nat_mult zmod_int)
  show ?thesis
    using put3_residues [OF m(1) xx(2) yy(2) zz(2), of 49 old 57 65, where ?'e = 'e] m(2)
    by (simp only: list.map ec_add_group0.simps xx(1) yy(1) zz(1) bind_res.simps n)
qed

lemma ec_add_group1_value:
  assumes m: "modulus_ok m" "length old = 97" "below m old [1, 9, 17, 25, 33, 41]"
  shows "ec_add_group1 old m (map (wide_in old) [1, 9, 17, 25, 33, 41]) =
    (Inr (put8 89 ((wide_at old 1 + wide_at old 17) * (wide_at old 25 + wide_at old 41) mod wval m)
      (put8 81 ((wide_at old 9 + wide_at old 17) * (wide_at old 33 + wide_at old 41) mod wval m)
      (put8 73 ((wide_at old 1 + wide_at old 9) * (wide_at old 25 + wide_at old 33) mod wval m) old)))
     :: 'e fault + u32 list)"
proof -
  have r: "residue m (wide_in old at) (int (wide_at old at))" if "at \<in> set [1, 9, 17, 25, 33, 41]" for at
    using that m by (intro residue_wide_in) (auto simp: below_def)
  have s: "residue m (add_mod (wide_in old a) (wide_in old b) m) (int (wide_at old a + wide_at old b))"
    if "a \<in> set [1, 9, 17, 25, 33, 41]" "b \<in> set [1, 9, 17, 25, 33, 41]" for a b
    using residue_add [OF m(1) r [OF that(1)] r [OF that(2)]] by simp
  obtain m4 where m4: "mul_mod (add_mod (wide_in old 1) (wide_in old 9) m) (add_mod (wide_in old 25) (wide_in old 33) m) m
      = (Inr m4 :: 'e fault + wide)"
    "residue m m4 (int (wide_at old 1 + wide_at old 9) * int (wide_at old 25 + wide_at old 33))"
    using residue_mul [OF m(1) s [of 1 9] s [of 25 33]] by auto
  obtain m5 where m5: "mul_mod (add_mod (wide_in old 9) (wide_in old 17) m) (add_mod (wide_in old 33) (wide_in old 41) m) m
      = (Inr m5 :: 'e fault + wide)"
    "residue m m5 (int (wide_at old 9 + wide_at old 17) * int (wide_at old 33 + wide_at old 41))"
    using residue_mul [OF m(1) s [of 9 17] s [of 33 41]] by auto
  obtain m6 where m6: "mul_mod (add_mod (wide_in old 1) (wide_in old 17) m) (add_mod (wide_in old 25) (wide_in old 41) m) m
      = (Inr m6 :: 'e fault + wide)"
    "residue m m6 (int (wide_at old 1 + wide_at old 17) * int (wide_at old 25 + wide_at old 41))"
    using residue_mul [OF m(1) s [of 1 17] s [of 25 41]] by auto
  have n: "nat (int x * int y mod int (wval m)) = x * y mod wval m" for x y
    by (metis nat_int of_nat_mult zmod_int)
  show ?thesis
    using put3_residues [OF m(1) m4(2) m5(2) m6(2), of 73 old 81 89, where ?'e = 'e] m(2)
    by (simp only: list.map ec_add_group1.simps m4(1) m5(1) m6(1) bind_res.simps n)
qed

text \<open>The last group, on the residues the first two left.\<close>

lemma ec_add_group2_value:
  assumes m: "modulus_ok m" "length old = 97"
    and r: "residue m xx (x1 * x2)" "residue m yy (y1 * y2)" "residue m zz (z1 * z2)"
      "residue m m4 ((x1 + y1) * (x2 + y2))" "residue m m5 ((y1 + z1) * (y2 + z2))" "residue m m6 ((x1 + z1) * (x2 + z2))"
    and b3: "unat (3 * b3) = 3 * unat b3"
  shows "ec_add_group2 b3 old m [xx, yy, zz, m4, m5, m6] =
    (let (x, y, z) = complete_add (int (unat b3)) (int (wval m)) (x1, y1, z1) (x2, y2, z2) in
     Inr (put8 17 (nat z) (put8 9 (nat y) (put8 1 (nat x) old))) :: 'e fault + u32 list)"
proof -
  let ?b = "int (unat b3)"
  define xy where "xy = sub_mod (sub_mod m4 xx m) yy m"
  define yz where "yz = sub_mod (sub_mod m5 yy m) zz m"
  define xz where "xz = sub_mod (sub_mod m6 xx m) zz m"
  have xy: "residue m xy (x1 * y2 + x2 * y1)"
    using residue_sub [OF m(1) residue_sub [OF m(1) r(4) r(1)] r(2)] by (simp add: xy_def algebra_simps)
  have yz: "residue m yz (y1 * z2 + y2 * z1)"
    using residue_sub [OF m(1) residue_sub [OF m(1) r(5) r(2)] r(3)] by (simp add: yz_def algebra_simps)
  have xz: "residue m xz (x1 * z2 + x2 * z1)"
    using residue_sub [OF m(1) residue_sub [OF m(1) r(6) r(1)] r(3)] by (simp add: xz_def algebra_simps)
  obtain bzz3 where bzz3: "scale_mod b3 zz m = (Inr bzz3 :: 'e fault + wide)" "residue m bzz3 (?b * (z1 * z2))"
    using residue_scale [OF m(1) r(3)] by blast
  define ym where "ym = sub_mod yy bzz3 m"
  define yp where "yp = add_mod yy bzz3 m"
  have ym: "residue m ym (y1 * y2 - ?b * (z1 * z2))"
    unfolding ym_def by (rule residue_sub [OF m(1) r(2) bzz3(2)])
  have yp: "residue m yp (y1 * y2 + ?b * (z1 * z2))"
    unfolding yp_def by (rule residue_add [OF m(1) r(2) bzz3(2)])
  obtain byz3 where byz3: "scale_mod b3 yz m = (Inr byz3 :: 'e fault + wide)" "residue m byz3 (?b * (y1 * z2 + y2 * z1))"
    using residue_scale [OF m(1) yz] by blast
  obtain xx3 where xx3: "scale_mod 3 xx m = (Inr xx3 :: 'e fault + wide)" "residue m xx3 (int (unat (3 :: u32)) * (x1 * x2))"
    using residue_scale [OF m(1) r(1)] by blast
  obtain bxx9 where bxx9: "scale_mod (3 * b3) xx m = (Inr bxx9 :: 'e fault + wide)"
    "residue m bxx9 (int (unat (3 * b3)) * (x1 * x2))"
    using residue_scale [OF m(1) r(1)] by blast
  obtain p1 where p1: "mul_mod xy ym m = (Inr p1 :: 'e fault + wide)"
    "residue m p1 ((x1 * y2 + x2 * y1) * (y1 * y2 - ?b * (z1 * z2)))"
    using residue_mul [OF m(1) xy ym] by blast
  obtain p2 where p2: "mul_mod byz3 xz m = (Inr p2 :: 'e fault + wide)"
    "residue m p2 (?b * (y1 * z2 + y2 * z1) * (x1 * z2 + x2 * z1))"
    using residue_mul [OF m(1) byz3(2) xz] by blast
  obtain p3 where p3: "mul_mod yp ym m = (Inr p3 :: 'e fault + wide)"
    "residue m p3 ((y1 * y2 + ?b * (z1 * z2)) * (y1 * y2 - ?b * (z1 * z2)))"
    using residue_mul [OF m(1) yp ym] by blast
  obtain p4 where p4: "mul_mod bxx9 xz m = (Inr p4 :: 'e fault + wide)"
    "residue m p4 (int (unat (3 * b3)) * (x1 * x2) * (x1 * z2 + x2 * z1))"
    using residue_mul [OF m(1) bxx9(2) xz] by blast
  obtain p5 where p5: "mul_mod yz yp m = (Inr p5 :: 'e fault + wide)"
    "residue m p5 ((y1 * z2 + y2 * z1) * (y1 * y2 + ?b * (z1 * z2)))"
    using residue_mul [OF m(1) yz yp] by blast
  obtain p6 where p6: "mul_mod xx3 xy m = (Inr p6 :: 'e fault + wide)"
    "residue m p6 (int (unat (3 :: u32)) * (x1 * x2) * (x1 * y2 + x2 * y1))"
    using residue_mul [OF m(1) xx3(2) xy] by blast
  have three: "int (unat (3 * b3)) = 3 * ?b" "int (unat (3 :: u32)) = 3"
    unfolding b3 by simp_all
  note out = put3_residues [OF m(1) residue_sub [OF m(1) p1(2) p2(2)] residue_add [OF m(1) p3(2) p4(2)]
      residue_add [OF m(1) p5(2) p6(2)], of 1 old 9 17, unfolded three, where ?'e = 'e]
  have "ec_add_group2 b3 old m [xx, yy, zz, m4, m5, m6] =
      (put3 old (1, sub_mod p1 p2 m) (9, add_mod p3 p4 m) (17, add_mod p5 p6 m) :: 'e fault + u32 list)"
    by (simp only: ec_add_group2.simps Let_def xy_def [symmetric] yz_def [symmetric] xz_def [symmetric] bzz3(1)
        bind_res.simps ym_def [symmetric] yp_def [symmetric] byz3(1) xx3(1) bxx9(1) p1(1) p2(1) p3(1) p4(1) p5(1) p6(1))
  then show ?thesis
    using out m(2) by (simp add: Let_def mult.assoc)
qed

lemma curve_modulus_ok:
  assumes "ec_add_modulus code = Some sel"
  shows "modulus_ok (map ucast sel)"
proof -
  have "sel \<in> set ec_add_CURVE_MODULI"
    using assms by (auto simp: ec_add_modulus_def ec_add_code_index_def ec_add_CODES_def ec_add_CODE_CURVE_def
        ec_add_CURVE_MODULI_def split: if_splits)
  then show ?thesis
    by (auto simp: modulus_ok_def ec_add_CURVE_MODULI_def mod_mul_MODULI_def wide_ok_def LIMBS_def)
qed

lemma curve_codes:
  assumes "code = ec_add_SECP256K1_G1 \<or> code = ec_add_BN254_G1"
  shows "ec_add_modulus (code + 1) = ec_add_modulus code" "ec_add_modulus (code + 2) = ec_add_modulus code"
    "ec_add_b3 (code + 1) = ec_add_b3 code" "ec_add_b3 (code + 2) = ec_add_b3 code"
    "ec_add_reduction_group code = Some 0" "ec_add_reduction_group (code + 1) = Some 1"
    "ec_add_reduction_group (code + 2) = Some 2" "\<exists>sel. ec_add_modulus code = Some sel"
    "\<exists>b3. ec_add_b3 code = Some b3 \<and> unat (3 * b3) = 3 * unat b3"
  using assms
  by (auto simp: ec_add_modulus_def ec_add_b3_def ec_add_reduction_group_def ec_add_code_index_def ec_add_CODES_def
      ec_add_CODE_CURVE_def ec_add_CODE_GROUP_def ec_add_CURVE_B3_def)

lemma ec_add_frame_group:
  assumes "ec_add_modulus (old ! 0) = Some sel" "ec_add_b3 (old ! 0) = Some b3"
    "ec_add_reduction_group (old ! 0) = Some g" "length old = 97" "modulus_ok (map ucast sel)"
    "below (map ucast sel) old (map snd (ec_add_reads g))"
  shows "ec_add_frame pc old =
     (let m = map ucast sel; vs = map (wide_in old \<circ> snd) (ec_add_reads g) in
      if g = 0 then ec_add_group0 old m vs
      else if g = 1 then ec_add_group1 old m vs
      else ec_add_group2 b3 old m vs)"
  using group_reads [OF assms(5,4,6)] assms(1-4)
  by (simp add: ec_add_frame_def idx_def Let_def del: bind_res_Inr)

text \<open>C17: The three invocations of one point addition, on a frame whose coordinates are below the curve's
  prime, leave in the first point the complete addition formulas' sum of the two, in that prime's field,
  and the second point as it was. None of them panics or refuses.\<close>

theorem ec_add_calls_complete:
  assumes code: "code = ec_add_SECP256K1_G1 \<or> code = ec_add_BN254_G1"
    and len: "length old = ec_add_FRAME_WORDS"
    and sel: "ec_add_modulus code = Some sel" "ec_add_b3 code = Some b3" "m = wval (map ucast sel)"
    and coords: "list_all (\<lambda>at. wide_at old at < m) [1, 9, 17, 25, 33, 41]"
  shows "\<exists>f. ec_add_calls pc code old = Inr f \<and> length f = ec_add_FRAME_WORDS \<and>
    (int (wide_at f ec_add_X1_WORD), int (wide_at f ec_add_Y1_WORD), int (wide_at f ec_add_Z1_WORD)) =
      complete_add (int (unat b3)) (int m)
        (int (wide_at old ec_add_X1_WORD), int (wide_at old ec_add_Y1_WORD), int (wide_at old ec_add_Z1_WORD))
        (int (wide_at old ec_add_X2_WORD), int (wide_at old ec_add_Y2_WORD), int (wide_at old ec_add_Z2_WORD)) \<and>
    wide_at f ec_add_X2_WORD = wide_at old ec_add_X2_WORD \<and> wide_at f ec_add_Y2_WORD = wide_at old ec_add_Y2_WORD \<and>
    wide_at f ec_add_Z2_WORD = wide_at old ec_add_Z2_WORD"
proof -
  let ?m = "map ucast sel :: wide"
  have ok: "modulus_ok ?m"
    by (rule curve_modulus_ok [OF sel(1)])
  then have m: "0 < m" "m < 2 ^ 256"
    using wide_ok_less by (auto simp: modulus_ok_def sel(3))
  have mod: "n mod m < m" "n mod m < 2 ^ 256" for n
    using m less_trans [of "n mod m" m "2 ^ 256"] by simp_all
  note at = wide_at_put8 wide_at_put8_other wide_at_update0
  define x1 y1 z1 where "x1 = wide_at old 1" and "y1 = wide_at old 9" and "z1 = wide_at old 17"
  define x2 y2 z2 where "x2 = wide_at old 25" and "y2 = wide_at old 33" and "z2 = wide_at old 41"
  note xyz = x1_def [symmetric] y1_def [symmetric] z1_def [symmetric] x2_def [symmetric] y2_def [symmetric] z2_def [symmetric]
  define xx yy zz where "xx = x1 * x2 mod m" and "yy = y1 * y2 mod m" and "zz = z1 * z2 mod m"
  define m4 m5 m6 where "m4 = (x1 + y1) * (x2 + y2) mod m" and "m5 = (y1 + z1) * (y2 + z2) mod m"
    and "m6 = (x1 + z1) * (x2 + z2) mod m"
  have less: "xx < 2 ^ 256" "yy < 2 ^ 256" "zz < 2 ^ 256" "m4 < 2 ^ 256" "m5 < 2 ^ 256" "m6 < 2 ^ 256"
    "xx < m" "yy < m" "zz < m" "m4 < m" "m5 < m" "m6 < m"
    unfolding xx_def yy_def zz_def m4_def m5_def m6_def by (rule mod)+
  define f0 where "f0 = old[0 := code]"
  have f0: "length f0 = 97" "f0 ! 0 = code" "map (wide_at f0) [1, 9, 17, 25, 33, 41] = [x1, y1, z1, x2, y2, z2]"
    using len by (simp_all add: f0_def at xyz del: One_nat_def)
  define f1 where "f1 = (put8 65 zz (put8 57 yy (put8 49 xx f0)))[0 := code + 1]"
  have f1: "length f1 = 97" "f1 ! 0 = code + 1" "map (wide_at f1) [1, 9, 17, 25, 33, 41] = [x1, y1, z1, x2, y2, z2]"
    "map (wide_at f1) [49, 57, 65] = [xx, yy, zz]"
    using f0 less(1-6) by (simp_all add: f1_def at del: One_nat_def)
  define f2 where "f2 = (put8 89 m6 (put8 81 m5 (put8 73 m4 f1)))[0 := code + 2]"
  have f2: "length f2 = 97" "f2 ! 0 = code + 2" "map (wide_at f2) [25, 33, 41] = [x2, y2, z2]"
    "map (wide_at f2) [49, 57, 65, 73, 81, 89] = [xx, yy, zz, m4, m5, m6]"
    using f1 less(1-6) by (simp_all add: f2_def at del: One_nat_def)
  have c: "below ?m f0 [1, 9, 17, 25, 33, 41]" "below ?m f1 [1, 9, 17, 25, 33, 41]"
    "below ?m f2 [49, 57, 65, 73, 81, 89]"
    using coords f0(3) f1(3) f2(4) less(7-12) by (simp_all add: below_def xyz sel(3) del: One_nat_def)
  have s0: "ec_add_frame pc f0 = Inr (put8 65 zz (put8 57 yy (put8 49 xx f0)))"
    using ec_add_frame_group [of f0 sel b3 0 pc] ec_add_group0_value [OF ok f0(1) c(1), where ?'e = "emu_error"]
      curve_codes [OF code] sel f0 c(1) ok
    by (simp add: ec_add_reads_def comp_def xx_def yy_def zz_def Let_def del: ec_add_group0.simps ec_add_group1.simps ec_add_group2.simps complete_add.simps bind_res_Inr One_nat_def)
  have s1: "ec_add_frame pc f1 = Inr (put8 89 m6 (put8 81 m5 (put8 73 m4 f1)))"
    using ec_add_frame_group [of f1 sel b3 1 pc] ec_add_group1_value [OF ok f1(1) c(2), where ?'e = "emu_error"]
      curve_codes [OF code] sel f1 c(2) ok
    by (simp add: ec_add_reads_def comp_def m4_def m5_def m6_def Let_def del: ec_add_group0.simps ec_add_group1.simps ec_add_group2.simps complete_add.simps bind_res_Inr One_nat_def)
  have r: "residue ?m (wide_in f2 at) n" if "wide_at f2 at = nn" "at + 8 \<le> 97" "int nn = n mod int m" "nn < m" for at nn n
    using residue_wide_in [of at f2 ?m] that f2(1) unfolding residue_def sel(3) by (simp add: wval_wide_in)
  obtain X Y Z where XYZ: "complete_add (int (unat b3)) (int m) (int x1, int y1, int z1) (int x2, int y2, int z2) = (X, Y, Z)"
    by (metis prod_cases3)
  then have XYZ_mod: "int (nat X) = X" "nat X < m" "int (nat Y) = Y" "nat Y < m" "int (nat Z) = Z" "nat Z < m"
    using m(1) by (auto simp: Let_def nat_less_iff)
  have "ec_add_group2 b3 f2 ?m (map (wide_in f2) [49, 57, 65, 73, 81, 89]) =
      (Inr (put8 17 (nat Z) (put8 9 (nat Y) (put8 1 (nat X) f2))) :: u32 list emu)"
    using ec_add_group2_value [OF ok f2(1), of "wide_in f2 49" "int x1" "int x2" "wide_in f2 57" "int y1" "int y2"
        "wide_in f2 65" "int z1" "int z2" "wide_in f2 73" "wide_in f2 81" "wide_in f2 89" b3, where ?'e = emu_error]
      r [of 49 xx] r [of 57 yy] r [of 65 zz] r [of 73 m4] r [of 81 m5] r [of 89 m6] f2(4) less(7-12)
      curve_codes(9) [OF code] sel(2) XYZ
    by (simp add: xx_def yy_def zz_def m4_def m5_def m6_def zmod_int sel(3) [symmetric] del: ec_add_group0.simps ec_add_group1.simps ec_add_group2.simps complete_add.simps bind_res_Inr One_nat_def)
  then have s2: "ec_add_frame pc f2 = Inr (put8 17 (nat Z) (put8 9 (nat Y) (put8 1 (nat X) f2)))"
    using ec_add_frame_group [of f2 sel b3 2 pc] curve_codes [OF code] sel f2 c(3) ok
    by (simp add: ec_add_reads_def comp_def Let_def del: ec_add_group0.simps ec_add_group1.simps ec_add_group2.simps complete_add.simps bind_res_Inr One_nat_def)
  let ?f = "put8 17 (nat Z) (put8 9 (nat Y) (put8 1 (nat X) f2))"
  have "ec_add_calls pc code old = Inr ?f"
    using s0 s1 s2 by (simp add: ec_add_calls_def f0_def [symmetric] f1_def [symmetric] f2_def [symmetric] del: bind_res_Inr)
  moreover have "length ?f = 97" "wide_at ?f 25 = x2" "wide_at ?f 33 = y2" "wide_at ?f 41 = z2"
    using f2 by (simp_all add: at del: One_nat_def)
  moreover have "nat X < 2 ^ 256" "nat Y < 2 ^ 256" "nat Z < 2 ^ 256"
    using XYZ_mod m(2) by simp_all
  then have "wide_at ?f 1 = nat X" "wide_at ?f 9 = nat Y" "wide_at ?f 17 = nat Z"
    using f2 by (simp_all add: at del: One_nat_def)
  ultimately show ?thesis
    using XYZ XYZ_mod by (intro exI [of _ ?f]) (simp add: xyz del: complete_add.simps One_nat_def)
qed

theorem ec_add_calls_complete_witness:
  "\<exists>f. ec_add_calls 0 ec_add_BN254_G1 (put8 33 1 (put8 9 1 (replicate 97 0))) = Inr f \<and>
    wide_at f ec_add_X1_WORD = 0 \<and> wide_at f ec_add_Y1_WORD = 1 \<and> wide_at f ec_add_Z1_WORD = 0"
proof -
  let ?f = "put8 33 1 (put8 9 1 (replicate 97 0))"
  have zero: "wide_at (replicate 97 0) at = 0" for at
    by (simp only: wide_at_def drop_replicate take_replicate map_replicate unsigned_0 wide_ok_zero(2))
  have at: "wide_at ?f 1 = 0" "wide_at ?f 9 = 1" "wide_at ?f 17 = 0" "wide_at ?f 25 = 0" "wide_at ?f 33 = 1"
      "wide_at ?f 41 = 0"
    by (simp_all add: wide_at_put8 wide_at_put8_other zero del: One_nat_def)
  have c: "ec_add_modulus 4 = Some (mod_mul_MODULI ! 2)" "ec_add_b3 4 = Some 9"
    by (simp_all add: ec_add_modulus_def ec_add_b3_def ec_add_code_index_def ec_add_CODES_def ec_add_CODE_CURVE_def
        ec_add_CURVE_MODULI_def ec_add_CURVE_B3_def)
  define m where "m = wval (map ucast (mod_mul_MODULI ! 2))"
  have m: "1 < m"
    by (simp add: m_def mod_mul_MODULI_def)
  have "list_all (\<lambda>at. wide_at ?f at < m) [1, 9, 17, 25, 33, 41]"
    using m by (simp add: at del: One_nat_def)
  from ec_add_calls_complete [OF _ _ c m_def this, of 0] show ?thesis
    using m by (auto simp add: at simp del: One_nat_def)
qed

end
