(* ===== verification/Sha256.thy ===== *)
theory Sha256
  imports Frames
begin

text \<open>
  The SHA-256 delegation against the compression of FIPS 180-4: the standard's functions, its message
  schedule as a recurrence and its round constants as cube roots; sixteen invocations on one frame are
  the sixty-four rounds.
\<close>

unbundle bit_operations_syntax

section \<open>The standard\<close>

definition fips_Ch :: "u32 \<Rightarrow> u32 \<Rightarrow> u32 \<Rightarrow> u32" where
  "fips_Ch x y z = (x AND y) XOR (NOT x AND z)"

definition fips_Maj :: "u32 \<Rightarrow> u32 \<Rightarrow> u32 \<Rightarrow> u32" where
  "fips_Maj x y z = (x AND y) XOR (x AND z) XOR (y AND z)"

definition fips_Sigma0 :: "u32 \<Rightarrow> u32" where
  "fips_Sigma0 x = word_rotr 2 x XOR word_rotr 13 x XOR word_rotr 22 x"

definition fips_Sigma1 :: "u32 \<Rightarrow> u32" where
  "fips_Sigma1 x = word_rotr 6 x XOR word_rotr 11 x XOR word_rotr 25 x"

definition fips_sigma0 :: "u32 \<Rightarrow> u32" where
  "fips_sigma0 x = word_rotr 7 x XOR word_rotr 18 x XOR shr x 3"

definition fips_sigma1 :: "u32 \<Rightarrow> u32" where
  "fips_sigma1 x = word_rotr 17 x XOR word_rotr 19 x XOR shr x 10"

text \<open>The schedule word \<open>W\<^sub>t\<close> of a block \<open>M\<close>.\<close>

fun fips_W :: "u32 list \<Rightarrow> nat \<Rightarrow> u32" where
  "fips_W M t =
     (if t < 16 then M ! t
      else fips_sigma1 (fips_W M (t - 2)) + fips_W M (t - 7) + fips_sigma0 (fips_W M (t - 15)) + fips_W M (t - 16))"

declare fips_W.simps [simp del]

text \<open>\<open>K\<^sub>t\<close> is the first 32 bits of the fractional part of the cube root of the \<open>t\<close>-th prime.\<close>

definition primes64 :: "nat list" where
  "primes64 = [2, 3, 5, 7, 11, 13, 17, 19, 23, 29, 31, 37, 41, 43, 47, 53, 59, 61, 67, 71, 73, 79, 83, 89, 97, 101,
     103, 107, 109, 113, 127, 131, 137, 139, 149, 151, 157, 163, 167, 173, 179, 181, 191, 193, 197, 199, 211, 223,
     227, 229, 233, 239, 241, 251, 257, 263, 269, 271, 277, 281, 283, 293, 307, 311]"

definition cube_root_bits :: "nat \<Rightarrow> nat \<Rightarrow> bool" where
  "cube_root_bits p k \<longleftrightarrow>
     (let r = (if p < 8 then 1 else if p < 27 then 2 else if p < 64 then 3 else if p < 125 then 4
               else if p < 216 then 5 else 6) * 2 ^ 32 + k in
      k < 2 ^ 32 \<and> r ^ 3 \<le> p * 2 ^ 96 \<and> p * 2 ^ 96 < (r + 1) ^ 3)"

definition fips_round :: "u32 list \<Rightarrow> u32 list \<Rightarrow> nat \<Rightarrow> u32 list" where
  "fips_round M s t =
     (let a = s ! 0; b = s ! 1; c = s ! 2; d = s ! 3; e = s ! 4; f = s ! 5; g = s ! 6; h = s ! 7;
          T1 = h + fips_Sigma1 e + fips_Ch e f g + sha256_ROUND_CONSTANTS ! t + fips_W M t;
          T2 = fips_Sigma0 a + fips_Maj a b c in
      [T1 + T2, a, b, c, d + T1, e, f, g])"

definition fips_compression :: "u32 list \<Rightarrow> u32 list \<Rightarrow> u32 list" where
  "fips_compression s M = foldl (fips_round M) s [0..<64]"

lemma round_constants_cube_roots: "list_all2 cube_root_bits primes64 (map unat sha256_ROUND_CONSTANTS)"
  by (simp add: primes64_def sha256_ROUND_CONSTANTS_def cube_root_bits_def)

section \<open>One invocation\<close>

lemma length_fips_round [simp]: "length (fips_round M s t) = 8"
  by (simp add: fips_round_def Let_def)

lemma fold_fips_length: "length s = 8 \<Longrightarrow> length (foldl (fips_round M) s ts) = 8"
  by (induction ts arbitrary: s) simp_all

lemma eight: "length s = 8 \<Longrightarrow> \<exists>a b c d e f g h. s = [a, b, c, d, e, f, g, h]"
  by (auto simp: numeral_eq_Suc length_Suc_conv)

lemma sha256_round_fips:
  "length s = 8 \<Longrightarrow> w = fips_W M t \<Longrightarrow> sha256_round s (sha256_ROUND_CONSTANTS ! t) w = fips_round M s t"
  by (drule eight) (auto simp: fips_round_def fips_Sigma0_def fips_Sigma1_def fips_Ch_def fips_Maj_def Let_def)

definition schedule_window :: "u32 list \<Rightarrow> nat \<Rightarrow> nat \<Rightarrow> u32 list" where
  "schedule_window M from n = map (fips_W M) [from..<from + n]"

lemma schedule_extend:
  assumes "16 \<le> n"
  shows "sha256_schedule (schedule_window M from n) n = schedule_window M from (Suc n)"
proof -
  have w: "schedule_window M from n ! i = fips_W M (from + i)" if "i < n" for i
    using that by (simp add: schedule_window_def)
  have "fips_W M (from + n) = fips_sigma1 (fips_W M (from + (n - 2))) + fips_W M (from + (n - 7)) +
      fips_sigma0 (fips_W M (from + (n - 15))) + fips_W M (from + (n - 16))"
    using assms by (subst fips_W.simps) simp
  then have "sha256_schedule (schedule_window M from n) n = schedule_window M from n @ [fips_W M (from + n)]"
    using assms by (simp add: sha256_schedule_def w fips_sigma0_def fips_sigma1_def Let_def ac_simps)
  then show ?thesis
    by (simp add: schedule_window_def)
qed

lemma schedule_extends:
  "foldl (\<lambda>x m. sha256_schedule x (16 + m)) (schedule_window M from 16) [0..<k] = schedule_window M from (16 + k)"
  by (induction k) (simp_all add: schedule_extend)

lemma rounds_prefix:
  assumes "length s = 8" "k \<le> 16"
  shows "foldl (\<lambda>s k. sha256_round s (sha256_ROUND_CONSTANTS ! (4 * grp + k)) (schedule_window M (4 * grp) 16 ! k)) s [0..<k]
    = foldl (fips_round M) s [4 * grp..<4 * grp + k]"
  using assms(2)
proof (induction k)
  case (Suc k)
  then show ?case
    using fold_fips_length [OF assms(1)] sha256_round_fips [of _ "fips_W M (4 * grp + k)" M "4 * grp + k"]
    by (simp add: schedule_window_def)
qed simp

lemma sha256_call_fips:
  assumes "length s = 8" "grp < 16"
  shows "sha256_call grp s (schedule_window M (4 * grp) 16) =
    (Inr (foldl (fips_round M) s [4 * grp..<4 * grp + 4], schedule_window M (4 * Suc grp) 16) :: 'e fault + _)"
proof -
  have "drop 4 (schedule_window M (4 * grp) 20) = schedule_window M (4 * Suc grp) 16"
    by (simp add: schedule_window_def drop_map add.commute)
  then show ?thesis
    using assms rounds_prefix [OF assms(1), of 4 grp M] schedule_extends [of M "4 * grp" 4]
    by (simp add: sha256_call_def ensure_def sha256_ROUND_CONSTANTS_def del: bind_res_Inr)
qed

section \<open>Sixteen invocations\<close>

definition sha256_calls :: "u32 \<Rightarrow> nat \<Rightarrow> u32 list \<Rightarrow> u32 list emu" where
  "sha256_calls pc n frame =
     foldl (\<lambda>r grp. bind_res r (\<lambda>f. sha256_frame pc (f[0 := of_nat grp]))) (Inr frame) [0..<n]"

lemma sha256_frame_call:
  assumes "length s = 8" "length w = 16" "grp < 16"
  shows "sha256_frame pc (of_nat grp # s @ w) = bind_res (sha256_call grp s w) (\<lambda>(s, w). Inr (of_nat grp # s @ w))"
proof -
  have "unat (of_nat grp :: u32) = grp"
    using assms(3) by (simp add: unat_of_nat)
  then show ?thesis
    using assms by (simp add: sha256_frame_def idx_def frame_words_def slice_def del: bind_res_Inr)
qed

lemma sha256_calls_prefix:
  assumes "length s = 8" "length M = 16" "n < 16"
  shows "sha256_calls pc (Suc n) (g # s @ M) =
    Inr (of_nat n # foldl (fips_round M) s [0..<4 * Suc n] @ schedule_window M (4 * Suc n) 16)"
  using assms(3)
proof (induction n)
  case 0
  have "M = schedule_window M 0 16"
    using assms(2) by (intro nth_equalityI) (simp_all add: schedule_window_def fips_W.simps)
  then show ?case
    using sha256_frame_call [OF assms(1,2), of 0 pc] sha256_call_fips [OF assms(1), of 0 M, where ?'e = emu_error]
    by (simp add: sha256_calls_def del: bind_res_Inr)
next
  case (Suc n)
  let ?s = "foldl (fips_round M) s [0..<4 * Suc n]"
  have len: "length ?s = 8" "length (schedule_window M (4 * Suc n) 16) = 16"
    using fold_fips_length [OF assms(1)] by (simp_all add: schedule_window_def)
  have "[0..<4 * Suc (Suc n)] = [0..<4 * Suc n] @ [4 * Suc n..<4 * Suc n + 4]"
    using upt_add_eq_append [of 0 "4 * Suc n" 4] by (simp add: algebra_simps)
  then have "foldl (fips_round M) ?s [4 * Suc n..<4 * Suc n + 4] = foldl (fips_round M) s [0..<4 * Suc (Suc n)]"
    by simp
  moreover have "sha256_calls pc (Suc (Suc n)) (g # s @ M) =
      bind_res (sha256_calls pc (Suc n) (g # s @ M)) (\<lambda>f. sha256_frame pc (f[0 := of_nat (Suc n)]))"
    unfolding sha256_calls_def by simp
  ultimately show ?case
    using Suc sha256_frame_call [OF len, of "Suc n" pc] sha256_call_fips [OF len(1), of "Suc n" M, where ?'e = emu_error]
    by (simp del: bind_res_Inr foldl_append upt_Suc)
qed

text \<open>C18: Sixteen \<open>SHA256_COMP\<close> invocations, groups 0 to 15, on a frame whose window starts as a message
  block, run the sixty-four rounds of the FIPS 180-4 compression on its working variables, and a group
  word at or above sixteen is refused.\<close>

theorem sha256_calls_compress:
  assumes "length s = sha256_STATE_WORDS" "length M = sha256_BLOCK_WORDS"
  shows "sha256_calls pc sha256_GROUPS (g # s @ M) = Inr (15 # fips_compression s M @ schedule_window M 64 16) \<and>
    (16 \<le> unat g \<longrightarrow>
       sha256_frame pc (g # s @ M) = refuse (DelegationFrame pc ''the group word is not a SHA-256 round group''))"
proof -
  have "sha256_calls pc (Suc 15) (g # s @ M) = Inr (15 # fips_compression s M @ schedule_window M 64 16)"
    using sha256_calls_prefix [OF assms, of 15 pc g] by (simp add: fips_compression_def)
  then show ?thesis
    by (simp add: sha256_frame_def idx_def del: bind_res_Inr)
qed

theorem sha256_calls_compress_witness:
  "sha256_calls 0 16 (0 # replicate 8 0 @ replicate 16 0) =
     Inr (15 # fips_compression (replicate 8 0) (replicate 16 0) @ schedule_window (replicate 16 0) 64 16)"
  using sha256_calls_compress [of "replicate 8 0" "replicate 16 0" 0 0] by simp

end
