(* ===== verification/Keccak.thy ===== *)
theory Keccak
  imports Frames
begin

text \<open>
  The keccak-f delegation against FIPS 202: the five step mappings on a state indexed by coordinates, the
  rotation offsets as the standard's walk and the round constants as its shift register; twenty-four
  invocations on one frame are the permutation.
\<close>

unbundle bit_operations_syntax

section \<open>The standard\<close>

type_synonym lane_state = "nat \<Rightarrow> nat \<Rightarrow> u64"

definition fips_theta :: "lane_state \<Rightarrow> lane_state" where
  "fips_theta A x y =
     (let C = (\<lambda>x. A x 0 XOR A x 1 XOR A x 2 XOR A x 3 XOR A x 4) in
      A x y XOR (C ((x + 4) mod 5) XOR word_rotl 1 (C ((x + 1) mod 5))))"

text \<open>The offsets along the walk from \<open>(1, 0)\<close>, the triangular numbers.\<close>

fun rho_walk :: "nat \<Rightarrow> nat \<Rightarrow> nat \<times> nat \<Rightarrow> ((nat \<times> nat) \<times> nat) list" where
  "rho_walk 0 t p = []"
| "rho_walk (Suc n) t (x, y) = ((x, y), (t + 1) * (t + 2) div 2 mod 64) # rho_walk n (t + 1) (y, (2 * x + 3 * y) mod 5)"

definition fips_offset :: "nat \<Rightarrow> nat \<Rightarrow> nat" where
  "fips_offset x y = (case map_of (rho_walk 24 0 (1, 0)) (x, y) of None \<Rightarrow> 0 | Some n \<Rightarrow> n)"

definition fips_rho :: "lane_state \<Rightarrow> lane_state" where
  "fips_rho A x y = word_rotl (fips_offset x y) (A x y)"

definition fips_pi :: "lane_state \<Rightarrow> lane_state" where
  "fips_pi A x y = A ((x + 3 * y) mod 5) x"

definition fips_chi :: "lane_state \<Rightarrow> lane_state" where
  "fips_chi A x y = A x y XOR (NOT (A ((x + 1) mod 5) y) AND A ((x + 2) mod 5) y)"

text \<open>The register of \<open>rc\<close>: eight bits, shifted with the top one fed back.\<close>

fun lfsr_step :: "bool list \<Rightarrow> bool list" where
  "lfsr_step [r0, r1, r2, r3, r4, r5, r6, r7] = [r7, r0, r1, r2, r3 \<noteq> r7, r4 \<noteq> r7, r5 \<noteq> r7, r6]"
| "lfsr_step r = r"

fun lfsr_bits :: "nat \<Rightarrow> bool list \<Rightarrow> bool list" where
  "lfsr_bits 0 r = []"
| "lfsr_bits (Suc n) r = hd r # lfsr_bits n (lfsr_step r)"

fun rc_words :: "bool list \<Rightarrow> u64 list" where
  "rc_words (b0 # b1 # b2 # b3 # b4 # b5 # b6 # bs) =
     ((if b0 then 1 else 0) + (if b1 then 2 else 0) + (if b2 then 2 ^ 3 else 0) + (if b3 then 2 ^ 7 else 0) +
      (if b4 then 2 ^ 15 else 0) + (if b5 then 2 ^ 31 else 0) + (if b6 then 2 ^ 63 else 0)) # rc_words bs"
| "rc_words _ = []"

definition fips_RC :: "u64 list" where
  "fips_RC = rc_words (lfsr_bits 168 [True, False, False, False, False, False, False, False])"

definition fips_iota :: "nat \<Rightarrow> lane_state \<Rightarrow> lane_state" where
  "fips_iota ir A x y = (if x = 0 \<and> y = 0 then A x y XOR fips_RC ! ir else A x y)"

definition fips_round :: "nat \<Rightarrow> lane_state \<Rightarrow> lane_state" where
  "fips_round ir A = fips_iota ir (fips_chi (fips_pi (fips_rho (fips_theta A))))"

definition fips_keccak_f :: "nat \<Rightarrow> lane_state \<Rightarrow> lane_state" where
  "fips_keccak_f n A = foldl (\<lambda>A ir. fips_round ir A) A [0..<n]"

text \<open>The 25 lanes in the code's order.\<close>

definition lane_list :: "lane_state \<Rightarrow> u64 list" where
  "lane_list A = map (\<lambda>i. A (i mod 5) (i div 5)) [0..<25]"

lemma round_constants: "keccak_ROUND_CONSTANTS = fips_RC"
  by (simp add: fips_RC_def numeral_eq_Suc keccak_ROUND_CONSTANTS_def)

lemma upt_0_5: "[0..<5] = [0, 1, 2, 3, 4]"
  by (simp add: numeral_eq_Suc)

lemma upt_0_25: "[0..<25] = [0, 1, 2, 3, 4, 5, 6, 7, 8, 9, 10, 11, 12, 13, 14, 15, 16, 17, 18, 19, 20, 21, 22, 23, 24]"
  by (simp add: numeral_eq_Suc)

lemma offsets: "keccak_ROTATIONS ! y ! x = fips_offset x y" if "x < 5" "y < 5"
proof -
  have "list_all (\<lambda>y. list_all (\<lambda>x. keccak_ROTATIONS ! y ! x = fips_offset x y) [0, 1, 2, 3, 4]) [0, 1, 2, 3, 4]"
    by code_simp
  moreover have "x \<in> set [0, 1, 2, 3, 4]" "y \<in> set [0, 1, 2, 3, 4]"
    using that by auto
  ultimately show ?thesis
    by (simp only: list_all_iff)
qed

section \<open>One round\<close>

lemma lane_list_nth: "x < 5 \<Longrightarrow> y < 5 \<Longrightarrow> lane_list A ! (x + 5 * y) = A x y"
  by (simp add: lane_list_def)

lemma length_lane_list [simp]: "length (lane_list A) = 25"
  by (simp add: lane_list_def)

text \<open>Two nested loops over the 25 positions write each once.\<close>

lemma lane_updates:
  assumes "length l = 25"
  shows "foldl (\<lambda>l x. foldl (\<lambda>l y. l[x + 5 * y := f x y (l ! (x + 5 * y))]) l [0..<5]) l [0..<5] =
    map (\<lambda>i. f (i mod 5) (i div 5) (l ! i)) [0..<25]"
proof -
  obtain l0 l1 l2 l3 l4 l5 l6 l7 l8 l9 l10 l11 l12 l13 l14 l15 l16 l17 l18 l19 l20 l21 l22 l23 l24 where
    "l = [l0, l1, l2, l3, l4, l5, l6, l7, l8, l9, l10, l11, l12, l13, l14, l15, l16, l17, l18, l19, l20, l21, l22, l23, l24]"
    using assms by (auto simp: numeral_eq_Suc length_Suc_conv)
  then show ?thesis
    by (simp add: upt_0_5 upt_0_25)
qed

lemma theta_step: "keccak_theta (lane_list A) = lane_list (fips_theta A)"
proof -
  let ?C = "\<lambda>x. A x 0 XOR A x 1 XOR A x 2 XOR A x 3 XOR A x 4"
  have c: "map (\<lambda>x. lane_list A ! x XOR lane_list A ! (x + 5) XOR lane_list A ! (x + 10) XOR lane_list A ! (x + 15) XOR
      lane_list A ! (x + 20)) [0..<5] = map ?C [0..<5]"
    using lane_list_nth [of _ 0 A] lane_list_nth [of _ 1 A] lane_list_nth [of _ 2 A] lane_list_nth [of _ 3 A]
      lane_list_nth [of _ 4 A] by simp
  have "keccak_theta (lane_list A) =
      map (\<lambda>i. lane_list A ! i XOR (?C ((i mod 5 + 4) mod 5) XOR word_rotl 1 (?C ((i mod 5 + 1) mod 5)))) [0..<25]"
    unfolding keccak_theta_def c Let_def
    using lane_updates [of "lane_list A" "\<lambda>x y v. v XOR (map ?C [0..<5] ! ((x + 4) mod 5) XOR
        word_rotl 1 (map ?C [0..<5] ! ((x + 1) mod 5)))"] by simp
  also have "\<dots> = lane_list (fips_theta A)"
    by (simp add: lane_list_def fips_theta_def)
  finally show ?thesis .
qed

lemma permuted_updates:
  assumes "length l = 25"
  shows "foldl (\<lambda>b x. foldl (\<lambda>b y. b[y + 5 * ((2 * x + 3 * y) mod 5) := g x y]) b [0..<5]) l [0..<5] =
    map (\<lambda>i. g ((i mod 5 + 3 * (i div 5)) mod 5) (i mod 5)) [0..<25]"
proof -
  obtain l0 l1 l2 l3 l4 l5 l6 l7 l8 l9 l10 l11 l12 l13 l14 l15 l16 l17 l18 l19 l20 l21 l22 l23 l24 where
    "l = [l0, l1, l2, l3, l4, l5, l6, l7, l8, l9, l10, l11, l12, l13, l14, l15, l16, l17, l18, l19, l20, l21, l22, l23, l24]"
    using assms by (auto simp: numeral_eq_Suc length_Suc_conv)
  then show ?thesis
    by (simp add: upt_0_5 upt_0_25)
qed

lemma rho_pi_step: "keccak_rho_pi (lane_list A) = lane_list (fips_pi (fips_rho A))"
proof -
  have "keccak_rho_pi (lane_list A) = map (\<lambda>i. let x = (i mod 5 + 3 * (i div 5)) mod 5; y = i mod 5 in
      word_rotl (keccak_ROTATIONS ! y ! x) (lane_list A ! (x + 5 * y))) [0..<25]"
    unfolding keccak_rho_pi_def Let_def
    by (rule permuted_updates [of _ "\<lambda>x y. word_rotl (keccak_ROTATIONS ! y ! x) (lane_list A ! (x + 5 * y))"]) simp
  also have "\<dots> = lane_list (fips_pi (fips_rho A))"
  proof (unfold lane_list_def [of "fips_pi (fips_rho A)"], rule map_cong [OF refl])
    fix i assume "i \<in> set [0..<25 :: nat]"
    have "(i mod 5 + 3 * (i div 5)) mod 5 < 5" "i mod 5 < 5"
      by simp_all
    then show "(let x = (i mod 5 + 3 * (i div 5)) mod 5; y = i mod 5 in
      word_rotl (keccak_ROTATIONS ! y ! x) (lane_list A ! (x + 5 * y))) = fips_pi (fips_rho A) (i mod 5) (i div 5)"
      unfolding Let_def fips_pi_def fips_rho_def by (simp only: offsets lane_list_nth)
  qed
  finally show ?thesis .
qed

lemma chi_step: "keccak_chi l (lane_list B) = lane_list (fips_chi B)" if "length l = 25"
proof -
  have n: "lane_list B ! (x + 5 * y) = B x y" if "x < 5" "y < 5" for x y
    by (rule lane_list_nth [OF that])
  have "keccak_chi l (lane_list B) = map (\<lambda>i. let x = i mod 5; y = i div 5 in lane_list B ! (x + 5 * y) XOR
      (NOT (lane_list B ! ((x + 1) mod 5 + 5 * y)) AND lane_list B ! ((x + 2) mod 5 + 5 * y))) [0..<25]"
    unfolding keccak_chi_def Let_def
    using lane_updates [OF that, of "\<lambda>x y v. lane_list B ! (x + 5 * y) XOR
      (NOT (lane_list B ! ((x + 1) mod 5 + 5 * y)) AND lane_list B ! ((x + 2) mod 5 + 5 * y))"] by simp
  also have "\<dots> = lane_list (fips_chi B)"
  proof (unfold lane_list_def [of "fips_chi B"], rule map_cong [OF refl])
    fix i assume "i \<in> set [0..<25 :: nat]"
    then have "i mod 5 < 5" "i div 5 < 5" "(i mod 5 + 1) mod 5 < 5" "(i mod 5 + 2) mod 5 < 5"
      by auto
    then show "(let x = i mod 5; y = i div 5 in lane_list B ! (x + 5 * y) XOR
      (NOT (lane_list B ! ((x + 1) mod 5 + 5 * y)) AND lane_list B ! ((x + 2) mod 5 + 5 * y))) =
      fips_chi B (i mod 5) (i div 5)"
      unfolding Let_def fips_chi_def by (simp only: n)
  qed
  finally show ?thesis .
qed

lemma iota_step: "(lane_list A)[0 := lane_list A ! 0 XOR fips_RC ! ir] = lane_list (fips_iota ir A)"
  by (simp add: lane_list_def upt_0_25 fips_iota_def)

lemma keccak_round_fips:
  assumes "ir < 24"
  shows "keccak_round (lane_list A) ir = (Inr (lane_list (fips_round ir A)) :: 'e fault + u64 list)"
proof -
  have "length fips_RC = 24"
    unfolding round_constants [symmetric] by (simp add: keccak_ROUND_CONSTANTS_def)
  then show ?thesis
    using assms iota_step [of "fips_chi (fips_pi (fips_rho (fips_theta A)))" ir]
    by (simp add: keccak_round_def theta_step rho_pi_step chi_step round_constants idx_def fips_round_def
        del: bind_res_Inr)
qed

lemma keccak_f_fips:
  "n \<le> 24 \<Longrightarrow> foldl (\<lambda>r round. bind_res r (\<lambda>lanes. keccak_round lanes round)) (Inr (lane_list A)) [0..<n] =
    (Inr (lane_list (fips_keccak_f n A)) :: 'e fault + u64 list)"
  by (induction n) (simp_all add: fips_keccak_f_def keccak_round_fips del: bind_res_Inr)

section \<open>Lanes and words\<close>

lemma length_words_of [simp]: "length (words_of l) = 50"
  by (simp add: words_of_def)

lemma join_words: "ucast (ucast (l :: u64) :: u32) OR shl (ucast (ucast (shr l 32) :: u32)) 32 = l"
  by (rule bit_word_eqI) (auto simp: bit_simps)

lemma lanes_words: "length l = 25 \<Longrightarrow> lanes_of (words_of l) = l"
  by (rule nth_equalityI) (simp_all add: lanes_of_def words_of_def join_words)

definition coordinates :: "u64 list \<Rightarrow> lane_state" where
  "coordinates l x y = l ! (x + 5 * y)"

lemma lane_list_coordinates: "length l = 25 \<Longrightarrow> lane_list (coordinates l) = l"
  by (rule nth_equalityI) (simp_all add: lane_list_def coordinates_def)

section \<open>Twenty-four invocations\<close>

definition keccak_calls :: "u32 \<Rightarrow> nat \<Rightarrow> u32 list \<Rightarrow> u32 list emu" where
  "keccak_calls pc n frame =
     foldl (\<lambda>r round. bind_res r (\<lambda>f. keccak_frame pc (f[0 := of_nat round]))) (Inr frame) [0..<n]"

lemma keccak_frame_round:
  assumes "ir < 24"
  shows "keccak_frame pc (of_nat ir # words_of (lane_list A)) = Inr (of_nat ir # words_of (lane_list (fips_round ir A)))"
proof -
  have "unat (of_nat ir :: u32) = ir"
    using assms by (simp add: unat_of_nat)
  then show ?thesis
    using assms keccak_round_fips [OF assms, of A, where ?'e = emu_error]
    by (simp add: keccak_frame_def idx_def frame_words_def slice_def lanes_words del: bind_res_Inr)
qed

lemma keccak_calls_prefix:
  "n < 24 \<Longrightarrow> keccak_calls pc (Suc n) (g # words_of (lane_list A)) =
    Inr (of_nat n # words_of (lane_list (fips_keccak_f (Suc n) A)))"
proof (induction n)
  case 0
  then show ?case
    using keccak_frame_round [of 0 pc A] by (simp add: keccak_calls_def fips_keccak_f_def del: bind_res_Inr)
next
  case (Suc n)
  then have "keccak_calls pc (Suc n) (g # words_of (lane_list A)) =
    Inr (of_nat n # words_of (lane_list (fips_keccak_f (Suc n) A)))"
    by simp
  then have "keccak_calls pc (Suc (Suc n)) (g # words_of (lane_list A)) =
      keccak_frame pc (of_nat (Suc n) # words_of (lane_list (fips_keccak_f (Suc n) A)))"
    by (simp add: keccak_calls_def del: bind_res_Inr)
  then show ?case
    using keccak_frame_round [OF Suc.prems, of pc "fips_keccak_f (Suc n) A"] by (simp add: fips_keccak_f_def)
qed

text \<open>C19: Twenty-four \<open>KECCAK_F\<close> invocations, rounds 0 to 23, on a frame holding a state's 25 lanes leave the
  lanes of keccak-f[1600] of FIPS 202; the host's own \<open>keccak_f\<close> computes the same, and a round word at or
  above 24 is refused.\<close>

theorem keccak_calls_permute:
  assumes "length l = keccak_LANES"
  shows "keccak_calls pc keccak_ROUNDS (g # words_of l) =
      Inr (23 # words_of (lane_list (fips_keccak_f 24 (coordinates l)))) \<and>
    keccak_f l = (Inr (lane_list (fips_keccak_f 24 (coordinates l))) :: unit fault + u64 list) \<and>
    lanes_of (words_of l) = l \<and>
    (24 \<le> unat g \<longrightarrow>
       keccak_frame pc (g # words_of l) = refuse (DelegationFrame pc ''the round word is not a keccak-f round''))"
proof -
  have l: "lane_list (coordinates l) = l"
    by (rule lane_list_coordinates [OF assms])
  have "keccak_calls pc (Suc 23) (g # words_of l) = Inr (23 # words_of (lane_list (fips_keccak_f 24 (coordinates l))))"
    using keccak_calls_prefix [of 23 pc g "coordinates l"] by (simp add: l)
  moreover have "keccak_f l = (Inr (lane_list (fips_keccak_f 24 (coordinates l))) :: unit fault + u64 list)"
    using keccak_f_fips [of 24 "coordinates l", where ?'e = unit] by (simp add: keccak_f_def l del: bind_res_Inr)
  ultimately show ?thesis
    using lanes_words [OF assms] by (simp add: keccak_frame_def idx_def del: bind_res_Inr)
qed

theorem keccak_calls_permute_witness: "\<exists>l. keccak_f (replicate 25 0) = (Inr l :: unit fault + u64 list) \<and> length l = 25"
  using keccak_calls_permute [of "replicate 25 0" 0 0] by simp

end
