(* ===== verification/Poseidon.thy ===== *)
theory Poseidon
  imports Field "HOL-Library.Char_ord"
begin

text \<open>
  The Poseidon2 permutation of \<open>crates/transcript/src/lib.rs\<close>: width 3 over the scalar field, eight
  full rounds around 56 partial ones. A round constant is decoded from its hex literal at every use,
  and a malformed literal panics; the last section shows that none is malformed.
\<close>

section \<open>Round constants\<close>

definition POSEIDON2_RC3_INITIAL :: "string list list" where
  "POSEIDON2_RC3_INITIAL =
    [[''0x1d066a255517b7fd8bddd3a93f7804ef7f8fcde48bb4c37a59a09a1a97052816'',
      ''0x29daefb55f6f2dc6ac3f089cebcc6120b7c6fef31367b68eb7238547d32c1610'',
      ''0x1f2cb1624a78ee001ecbd88ad959d7012572d76f08ec5c4f9e8b7ad7b0b4e1d1''],
     [''0x0aad2e79f15735f2bd77c0ed3d14aa27b11f092a53bbc6e1db0672ded84f31e5'',
      ''0x2252624f8617738cd6f661dd4094375f37028a98f1dece66091ccf1595b43f28'',
      ''0x1a24913a928b38485a65a84a291da1ff91c20626524b2b87d49f4f2c9018d735''],
     [''0x22fc468f1759b74d7bfc427b5f11ebb10a41515ddff497b14fd6dae1508fc47a'',
      ''0x1059ca787f1f89ed9cd026e9c9ca107ae61956ff0b4121d5efd65515617f6e4d'',
      ''0x02be9473358461d8f61f3536d877de982123011f0bf6f155a45cbbfae8b981ce''],
     [''0x0ec96c8e32962d462778a749c82ed623aba9b669ac5b8736a1ff3a441a5084a4'',
      ''0x292f906e073677405442d9553c45fa3f5a47a7cdb8c99f9648fb2e4d814df57e'',
      ''0x274982444157b86726c11b9a0f5e39a5cc611160a394ea460c63f0b2ffe5657e'']]"

definition POSEIDON2_RC3_INTERNAL :: "string list" where
  "POSEIDON2_RC3_INTERNAL =
    [''0x1a1d063e54b1e764b63e1855bff015b8cedd192f47308731499573f23597d4b5'',
     ''0x26abc66f3fdf8e68839d10956259063708235dccc1aa3793b91b002c5b257c37'',
     ''0x0c7c64a9d887385381a578cfed5aed370754427aabca92a70b3c2b12ff4d7be8'',
     ''0x1cf5998769e9fab79e17f0b6d08b2d1eba2ebac30dc386b0edd383831354b495'',
     ''0x0f5e3a8566be31b7564ca60461e9e08b19828764a9669bc17aba0b97e66b0109'',
     ''0x18df6a9d19ea90d895e60e4db0794a01f359a53a180b7d4b42bf3d7a531c976e'',
     ''0x04f7bf2c5c0538ac6e4b782c3c6e601ad0ea1d3a3b9d25ef4e324055fa3123dc'',
     ''0x29c76ce22255206e3c40058523748531e770c0584aa2328ce55d54628b89ebe6'',
     ''0x198d425a45b78e85c053659ab4347f5d65b1b8e9c6108dbe00e0e945dbc5ff15'',
     ''0x25ee27ab6296cd5e6af3cc79c598a1daa7ff7f6878b3c49d49d3a9a90c3fdf74'',
     ''0x138ea8e0af41a1e024561001c0b6eb1505845d7d0c55b1b2c0f88687a96d1381'',
     ''0x306197fb3fab671ef6e7c2cba2eefd0e42851b5b9811f2ca4013370a01d95687'',
     ''0x1a0c7d52dc32a4432b66f0b4894d4f1a21db7565e5b4250486419eaf00e8f620'',
     ''0x2b46b418de80915f3ff86a8e5c8bdfccebfbe5f55163cd6caa52997da2c54a9f'',
     ''0x12d3e0dc0085873701f8b777b9673af9613a1af5db48e05bfb46e312b5829f64'',
     ''0x263390cf74dc3a8870f5002ed21d089ffb2bf768230f648dba338a5cb19b3a1f'',
     ''0x0a14f33a5fe668a60ac884b4ca607ad0f8abb5af40f96f1d7d543db52b003dcd'',
     ''0x28ead9c586513eab1a5e86509d68b2da27be3a4f01171a1dd847df829bc683b9'',
     ''0x1c6ab1c328c3c6430972031f1bdb2ac9888f0ea1abe71cffea16cda6e1a7416c'',
     ''0x1fc7e71bc0b819792b2500239f7f8de04f6decd608cb98a932346015c5b42c94'',
     ''0x03e107eb3a42b2ece380e0d860298f17c0c1e197c952650ee6dd85b93a0ddaa8'',
     ''0x2d354a251f381a4669c0d52bf88b772c46452ca57c08697f454505f6941d78cd'',
     ''0x094af88ab05d94baf687ef14bc566d1c522551d61606eda3d14b4606826f794b'',
     ''0x19705b783bf3d2dc19bcaeabf02f8ca5e1ab5b6f2e3195a9d52b2d249d1396f7'',
     ''0x09bf4acc3a8bce3f1fcc33fee54fc5b28723b16b7d740a3e60cef6852271200e'',
     ''0x1803f8200db6013c50f83c0c8fab62843413732f301f7058543a073f3f3b5e4e'',
     ''0x0f80afb5046244de30595b160b8d1f38bf6fb02d4454c0add41f7fef2faf3e5c'',
     ''0x126ee1f8504f15c3d77f0088c1cfc964abcfcf643f4a6fea7dc3f98219529d78'',
     ''0x23c203d10cfcc60f69bfb3d919552ca10ffb4ee63175ddf8ef86f991d7d0a591'',
     ''0x2a2ae15d8b143709ec0d09705fa3a6303dec1ee4eec2cf747c5a339f7744fb94'',
     ''0x07b60dee586ed6ef47e5c381ab6343ecc3d3b3006cb461bbb6b5d89081970b2b'',
     ''0x27316b559be3edfd885d95c494c1ae3d8a98a320baa7d152132cfe583c9311bd'',
     ''0x1d5c49ba157c32b8d8937cb2d3f84311ef834cc2a743ed662f5f9af0c0342e76'',
     ''0x2f8b124e78163b2f332774e0b850b5ec09c01bf6979938f67c24bd5940968488'',
     ''0x1e6843a5457416b6dc5b7aa09a9ce21b1d4cba6554e51d84665f75260113b3d5'',
     ''0x11cdf00a35f650c55fca25c9929c8ad9a68daf9ac6a189ab1f5bc79f21641d4b'',
     ''0x21632de3d3bbc5e42ef36e588158d6d4608b2815c77355b7e82b5b9b7eb560bc'',
     ''0x0de625758452efbd97b27025fbd245e0255ae48ef2a329e449d7b5c51c18498a'',
     ''0x2ad253c053e75213e2febfd4d976cc01dd9e1e1c6f0fb6b09b09546ba0838098'',
     ''0x1d6b169ed63872dc6ec7681ec39b3be93dd49cdd13c813b7d35702e38d60b077'',
     ''0x1660b740a143664bb9127c4941b67fed0be3ea70a24d5568c3a54e706cfef7fe'',
     ''0x0065a92d1de81f34114f4ca2deef76e0ceacdddb12cf879096a29f10376ccbfe'',
     ''0x1f11f065202535987367f823da7d672c353ebe2ccbc4869bcf30d50a5871040d'',
     ''0x26596f5c5dd5a5d1b437ce7b14a2c3dd3bd1d1a39b6759ba110852d17df0693e'',
     ''0x16f49bc727e45a2f7bf3056efcf8b6d38539c4163a5f1e706743db15af91860f'',
     ''0x1abe1deb45b3e3119954175efb331bf4568feaf7ea8b3dc5e1a4e7438dd39e5f'',
     ''0x0e426ccab66984d1d8993a74ca548b779f5db92aaec5f102020d34aea15fba59'',
     ''0x0e7c30c2e2e8957f4933bd1942053f1f0071684b902d534fa841924303f6a6c6'',
     ''0x0812a017ca92cf0a1622708fc7edff1d6166ded6e3528ead4c76e1f31d3fc69d'',
     ''0x21a5ade3df2bc1b5bba949d1db96040068afe5026edd7a9c2e276b47cf010d54'',
     ''0x01f3035463816c84ad711bf1a058c6c6bd101945f50e5afe72b1a5233f8749ce'',
     ''0x0b115572f038c0e2028c2aafc2d06a5e8bf2f9398dbd0fdf4dcaa82b0f0c1c8b'',
     ''0x1c38ec0b99b62fd4f0ef255543f50d2e27fc24db42bc910a3460613b6ef59e2f'',
     ''0x1c89c6d9666272e8425c3ff1f4ac737b2f5d314606a297d4b1d0b254d880c53e'',
     ''0x03326e643580356bf6d44008ae4c042a21ad4880097a5eb38b71e2311bb88f8f'',
     ''0x268076b0054fb73f67cee9ea0e51e3ad50f27a6434b5dceb5bdde2299910a4c9'']"

definition POSEIDON2_RC3_TERMINAL :: "string list list" where
  "POSEIDON2_RC3_TERMINAL =
    [[''0x1acd63c67fbc9ab1626ed93491bda32e5da18ea9d8e4f10178d04aa6f8747ad0'',
      ''0x19f8a5d670e8ab66c4e3144be58ef6901bf93375e2323ec3ca8c86cd2a28b5a5'',
      ''0x1c0dc443519ad7a86efa40d2df10a011068193ea51f6c92ae1cfbb5f7b9b6893''],
     [''0x14b39e7aa4068dbe50fe7190e421dc19fbeab33cb4f6a2c4180e4c3224987d3d'',
      ''0x1d449b71bd826ec58f28c63ea6c561b7b820fc519f01f021afb1e35e28b0795e'',
      ''0x1ea2c9a89baaddbb60fa97fe60fe9d8e89de141689d1252276524dc0a9e987fc''],
     [''0x0478d66d43535a8cb57e9c1c3d6a2bd7591f9a46a0e9c058134d5cefdb3c7ff1'',
      ''0x19272db71eece6a6f608f3b2717f9cd2662e26ad86c400b21cde5e4a7b00bebe'',
      ''0x14226537335cab33c749c746f09208abb2dd1bd66a87ef75039be846af134166''],
     [''0x01fd6af15956294f9dfe38c0d976a088b21c21e4a1c2e823f912f44961f9a9ce'',
      ''0x18e5abedd626ec307bca190b8b2cab1aaee2e62ed229ba5a5ad8518d4e5f2a57'',
      ''0x0fc1bbceba0590f5abbdffa6d3b35e3297c021a3a409926d0e2d54dc1c84fda6'']]"

definition G1_INFINITY_SENTINEL :: string where
  "G1_INFINITY_SENTINEL = ''0x0000000000000000000000000000000100000000000000000000000000000000''"

text \<open>A string literal is its bytes.\<close>

definition str_bytes :: "string \<Rightarrow> u8 list" where
  "str_bytes s = map of_char s"

section \<open>The permutation\<close>

definition rc :: "string \<Rightarrow> 'e fault + fr" where
  "rc hex = (case from_hex (str_bytes hex) of None \<Rightarrow> panic | Some x \<Rightarrow> Inr x)"

definition sbox :: "fr \<Rightarrow> fr" where
  "sbox x = (let x2 = fr_square x; x4 = fr_square x2 in fr_mul x4 x)"

fun external_matrix :: "fr list \<Rightarrow> fr list" where
  "external_matrix [a, b, c] =
     (let s = fr_add (fr_add a b) c in [fr_add a s, fr_add b s, fr_add c s])"
| "external_matrix s = s"

fun internal_matrix :: "fr list \<Rightarrow> fr list" where
  "internal_matrix [a, b, c] =
     (let s = fr_add (fr_add a b) c in [fr_add a s, fr_add b s, fr_add (fr_add c c) s])"
| "internal_matrix s = s"

fun sbox_lanes :: "fr list \<Rightarrow> string list \<Rightarrow> 'e fault + fr list" where
  "sbox_lanes (x # xs) (c # cs) =
     bind_res (rc c) (\<lambda>k. bind_res (sbox_lanes xs cs) (\<lambda>ys. Inr (sbox (fr_add x k) # ys)))"
| "sbox_lanes [] [] = Inr []"
| "sbox_lanes _ _ = panic"

definition full_round :: "fr list \<Rightarrow> string list \<Rightarrow> 'e fault + fr list" where
  "full_round state row = bind_res (sbox_lanes state row) (\<lambda>s. Inr (external_matrix s))"

fun partial_round :: "fr list \<Rightarrow> string \<Rightarrow> 'e fault + fr list" where
  "partial_round (x # xs) c = bind_res (rc c) (\<lambda>k. Inr (internal_matrix (sbox (fr_add x k) # xs)))"
| "partial_round [] c = panic"

definition rounds :: "(fr list \<Rightarrow> 'c \<Rightarrow> 'e fault + fr list) \<Rightarrow> 'c list \<Rightarrow> fr list \<Rightarrow> 'e fault + fr list" where
  "rounds f cs state = foldl (\<lambda>r c. bind_res r (\<lambda>s. f s c)) (Inr state) cs"

definition poseidon2_permute :: "fr list \<Rightarrow> 'e fault + fr list" where
  "poseidon2_permute state =
     bind_res (rounds full_round POSEIDON2_RC3_INITIAL (external_matrix state)) (\<lambda>s.
     bind_res (rounds partial_round POSEIDON2_RC3_INTERNAL s) (\<lambda>s.
     rounds full_round POSEIDON2_RC3_TERMINAL s))"

section \<open>Literals\<close>

text \<open>
  A literal of 64 lowercase digits whose first four spell a number below \<open>0x3064\<close>, the top two bytes
  of the modulus, decodes.
\<close>

definition hex_value :: "u8 \<Rightarrow> nat" where
  "hex_value c = (case hex_digit c of None \<Rightarrow> 16 | Some d \<Rightarrow> unat d)"

definition hex_number :: "u8 list \<Rightarrow> nat" where
  "hex_number ds = foldl (\<lambda>n c. 16 * n + hex_value c) 0 ds"

definition hex_string :: "u8 list \<Rightarrow> bool" where
  "hex_string ds \<longleftrightarrow> list_all (\<lambda>c. hex_value c < 16) ds"

definition literal_ok :: "u8 list \<Rightarrow> bool" where
  "literal_ok s \<longleftrightarrow> take 2 s = [0x30, 0x78] \<and> length s = 66 \<and> hex_string (drop 2 s) \<and>
     hex_number (take 4 (drop 2 s)) < 0x3064"

fun bytes_val :: "u8 list \<Rightarrow> nat" where
  "bytes_val [] = 0"
| "bytes_val (b # bs) = unat b + 256 * bytes_val bs"

lemma bytes_val_append: "bytes_val (as @ bs) = bytes_val as + 256 ^ length as * bytes_val bs"
  by (induction as) (simp_all add: algebra_simps)

lemma bytes_val_less: "bytes_val bs < 256 ^ length bs"
proof (induction bs)
  case (Cons b bs)
  have "unat b < 256"
    using unat_less_pow [of b] by simp
  then show ?case
    using Cons by simp
qed simp

lemma le_u64_val: "length b \<le> 8 \<Longrightarrow> unat (le_u64 b) = bytes_val b"
proof (induction b)
  case (Cons x b)
  have "bytes_val b < 256 ^ 7"
    using bytes_val_less [of b] Cons.prems power_increasing [of "length b" 7 "256 :: nat"] by simp
  moreover have "unat (ucast x :: u64) = unat x"
    using unat_less_pow [of x] by (simp add: unsigned_ucast_eq take_bit_nat_eq_self)
  moreover have "unat x < 256"
    using unat_less_pow [of x] by simp
  moreover have "le_u64 (x # b) = ucast x + shl (le_u64 b) 8"
  proof -
    have "\<not> bit (ucast x :: u64) n \<or> \<not> bit (shl (le_u64 b) 8) n" for n
      using bit_imp_le_length [of x n] by (auto simp: bit_simps)
    then show ?thesis
      by (simp add: le_u64_def disjunctive_add)
  qed
  ultimately show ?case
    using Cons by (simp add: push_bit_eq_mult unat_word_ariths)
qed (simp add: le_u64_def)

lemma split_8: "8 \<le> length b \<Longrightarrow> \<exists>b0 b'. b = b0 @ b' \<and> length b0 = 8 \<and> length b' = length b - 8"
  by (intro exI [of _ "take 8 b"] exI [of _ "drop 8 b"]) simp

lemma bytes_limbs_val: "length b = 32 \<Longrightarrow> limbs_val (bytes_limbs b) = bytes_val b"
proof -
  assume "length b = 32"
  then obtain b0 r0 where r0: "b = b0 @ r0" "length b0 = 8" "length r0 = 24"
    using split_8 [of b] by auto
  moreover from r0 obtain b1 r1 where r1: "r0 = b1 @ r1" "length b1 = 8" "length r1 = 16"
    using split_8 [of r0] by auto
  moreover from r1 obtain b2 b3 where "r1 = b2 @ b3" "length b2 = 8" "length b3 = 8"
    using split_8 [of r1] by auto
  ultimately have b: "b = b0 @ b1 @ b2 @ b3" "length b0 = 8" "length b1 = 8" "length b2 = 8" "length b3 = 8"
    by simp_all
  then have "bytes_limbs b = [le_u64 b0, le_u64 b1, le_u64 b2, le_u64 b3]"
    by (simp add: bytes_limbs_def)
  moreover have "bytes_val b = bytes_val b0 + 256 ^ 8 * (bytes_val b1 + 256 ^ 8 * (bytes_val b2 + 256 ^ 8 * bytes_val b3))"
    by (simp only: b bytes_val_append)
  ultimately show ?thesis
    using b(2-5) by (simp add: le_u64_val)
qed

lemma from_bytes_ok:
  assumes "length b = 32" "bytes_val b < fr_p"
  obtains x where "from_bytes b = Some x" "fr_ok x" "canon x = bytes_val b"
proof -
  have "limbs_ok (bytes_limbs b)"
    using assms by (simp add: limbs_ok_def length_bytes_limbs bytes_limbs_val)
  then obtain x where "from_bytes b = Some x"
    by (simp add: from_bytes_def is_ge_modulus_val limbs_ok_def)
  with from_bytes_Some [OF this] that show thesis
    using assms(1) by (simp add: bytes_limbs_val)
qed

definition hex_step :: "nat \<Rightarrow> u8 \<Rightarrow> nat" where
  "hex_step n c = 16 * n + hex_value c"

lemma hex_number_step: "hex_number ds = foldl hex_step 0 ds"
  by (simp add: hex_number_def hex_step_def [abs_def])

lemma hex_number_append: "hex_number (as @ bs) = hex_number as * 16 ^ length bs + hex_number bs"
proof -
  have "foldl hex_step k bs = k * 16 ^ length bs + foldl hex_step 0 bs" for k
  proof (induction bs arbitrary: k)
    case (Cons b bs)
    show ?case
      unfolding foldl_Cons Cons.IH [of "hex_step k b"] Cons.IH [of "hex_step 0 b"]
      by (simp add: hex_step_def add_mult_distrib)
  qed simp
  from this [of "foldl hex_step 0 as"] show ?thesis
    by (simp only: hex_number_step foldl_append)
qed

lemma hex_number_less: "hex_string ds \<Longrightarrow> hex_number ds < 16 ^ length ds"
proof (induction ds rule: rev_induct)
  case (snoc d ds)
  then have "hex_number ds + 1 \<le> 16 ^ length ds" "hex_value d < 16"
    by (simp_all add: hex_string_def)
  then show ?case
    unfolding hex_number_append by (simp add: hex_number_def)
qed (simp add: hex_number_def)

lemma hex_value_digit: "hex_value c < 16 \<Longrightarrow> \<exists>d. hex_digit c = Some d \<and> unat d = hex_value c"
  by (auto simp: hex_value_def split: option.splits)

lemma nibbles: "unat h < 16 \<Longrightarrow> unat l < 16 \<Longrightarrow> unat (shl h 4 OR l :: u8) = 16 * unat h + unat l"
proof -
  assume h: "unat h < 16" and l: "unat l < 16"
  then have "\<not> bit (shl h 4) n \<or> \<not> bit l n" for n
  proof -
    have "take_bit 4 l = l"
      using l by (simp add: take_bit_eq_mod word_unat_eq_iff unat_mod)
    then show ?thesis
      by (metis bit_take_bit_iff bit_push_bit_iff not_le)
  qed
  then have "shl h 4 OR l = shl h 4 + l"
    by (simp add: disjunctive_add)
  with h l show ?thesis
    by (simp add: push_bit_eq_mult unat_word_ariths)
qed

lemma hex_pairs_value:
  "hex_string ds \<Longrightarrow> even (length ds) \<Longrightarrow>
    \<exists>bs. hex_pairs ds = Some bs \<and> 2 * length bs = length ds \<and> bytes_val bs = hex_number ds"
proof (induction ds rule: hex_pairs.induct)
  case (1 h l rest)
  obtain hi lo where d: "hex_digit h = Some hi" "hex_digit l = Some lo" "unat hi = hex_value h" "unat lo = hex_value l"
    "hex_value h < 16" "hex_value l < 16"
    using 1 hex_value_digit [of h] hex_value_digit [of l] by (auto simp: hex_string_def)
  obtain bs where bs: "hex_pairs rest = Some bs" "2 * length bs = length rest" "bytes_val bs = hex_number rest"
    using 1 d by (auto simp: hex_string_def)
  have "hex_number (h # l # rest) = hex_number ([h, l] @ rest)"
    by simp
  also have "\<dots> = (16 * hex_value h + hex_value l) * 16 ^ length rest + hex_number rest"
    unfolding hex_number_append by (simp add: hex_number_def)
  also have "(16 :: nat) ^ length rest = 256 ^ length bs"
    unfolding bs(2) [symmetric] power_mult by simp
  finally show ?case
    using bs d nibbles [of hi lo] by (simp add: bytes_val_append)
qed (auto simp: hex_number_def)

lemma literal_decodes:
  assumes "literal_ok s"
  obtains x where "from_hex s = Some x" "fr_ok x" "canon x = hex_number (drop 2 s)"
proof -
  let ?d = "drop 2 s"
  have d: "length ?d = 64" "hex_string ?d" "hex_number (take 4 ?d) < 0x3064" "take 2 s = [0x30, 0x78]"
    using assms by (simp_all add: literal_ok_def)
  obtain bs where bs: "hex_pairs ?d = Some bs" "length bs = 32" "bytes_val bs = hex_number ?d"
    using hex_pairs_value [OF d(2)] unfolding d(1) by auto
  have len: "length (drop 4 ?d) = 60"
    unfolding length_drop [of 4 ?d] d(1) by simp
  note hex_number_append [of "take 4 ?d" "drop 4 ?d", unfolded len append_take_drop_id]
  moreover have "hex_string (drop 4 ?d)"
    using d(2) unfolding hex_string_def list_all_iff by (metis in_set_dropD)
  then have "hex_number (drop 4 ?d) < 16 ^ 60"
    using hex_number_less [of "drop 4 ?d"] unfolding len by blast
  ultimately have "hex_number ?d < fr_p"
    using d(3) by (simp add: fr_p_def)
  then obtain x where "from_bytes bs = Some x" "fr_ok x" "canon x = hex_number ?d"
    using from_bytes_ok [of bs] bs by auto
  then show thesis
    using that d bs by (simp add: from_hex_def Let_def)
qed

lemma hex_value_chars:
  "hex_value 48 = 0"
  "hex_value 49 = 1"
  "hex_value 50 = 2"
  "hex_value 51 = 3"
  "hex_value 52 = 4"
  "hex_value 53 = 5"
  "hex_value 54 = 6"
  "hex_value 55 = 7"
  "hex_value 56 = 8"
  "hex_value 57 = 9"
  "hex_value 97 = 10"
  "hex_value 98 = 11"
  "hex_value 99 = 12"
  "hex_value 100 = 13"
  "hex_value 101 = 14"
  "hex_value 102 = 15"
  by (simp_all add: hex_value_def hex_digit_def)

lemmas literal_eval = literal_ok_def hex_string_def hex_number_def str_bytes_def hex_value_chars

definition constant_ok :: "string \<Rightarrow> bool" where
  "constant_ok s \<longleftrightarrow> literal_ok (str_bytes s)"

lemma initial_constants_ok: "list_all (list_all constant_ok) POSEIDON2_RC3_INITIAL"
  by (simp add: POSEIDON2_RC3_INITIAL_def constant_ok_def literal_eval)

lemma internal_constants_ok: "list_all constant_ok POSEIDON2_RC3_INTERNAL"
  by (simp add: POSEIDON2_RC3_INTERNAL_def constant_ok_def literal_eval)

lemma terminal_constants_ok: "list_all (list_all constant_ok) POSEIDON2_RC3_TERMINAL"
  by (simp add: POSEIDON2_RC3_TERMINAL_def constant_ok_def literal_eval)

lemma constant_lengths:
  "list_all (\<lambda>row. length row = 3) POSEIDON2_RC3_INITIAL"
  "list_all (\<lambda>row. length row = 3) POSEIDON2_RC3_TERMINAL"
  by (simp_all add: POSEIDON2_RC3_INITIAL_def POSEIDON2_RC3_TERMINAL_def)

section \<open>The permutation over the integers\<close>

text \<open>
  The same rounds on numbers modulo \<open>p\<close>, as the papers write them: the power map, the circulant
  matrices as inner products, the constants as the hexadecimal numbers they spell.
\<close>

definition constant_value :: "string \<Rightarrow> nat" where
  "constant_value s = hex_number (drop 2 (str_bytes s))"

definition power_map :: "nat \<Rightarrow> nat" where
  "power_map x = x ^ 5 mod fr_p"

definition dot :: "nat list \<Rightarrow> nat list \<Rightarrow> nat" where
  "dot ms xs = sum_list (map2 (*) ms xs) mod fr_p"

definition external_layer :: "nat list \<Rightarrow> nat list" where
  "external_layer xs = map (\<lambda>ms. dot ms xs) [[2, 1, 1], [1, 2, 1], [1, 1, 2]]"

definition internal_layer :: "nat list \<Rightarrow> nat list" where
  "internal_layer xs = map (\<lambda>ms. dot ms xs) [[2, 1, 1], [1, 2, 1], [1, 1, 3]]"

definition full_layer :: "nat list \<Rightarrow> string list \<Rightarrow> nat list" where
  "full_layer xs cs = external_layer (map2 (\<lambda>x c. power_map (x + constant_value c)) xs cs)"

definition partial_layer :: "nat list \<Rightarrow> string \<Rightarrow> nat list" where
  "partial_layer xs c = internal_layer (power_map (hd xs + constant_value c) # tl xs)"

definition poseidon2_reference :: "nat list \<Rightarrow> nat list" where
  "poseidon2_reference xs =
     foldl full_layer
       (foldl partial_layer
         (foldl full_layer (external_layer xs) POSEIDON2_RC3_INITIAL)
         POSEIDON2_RC3_INTERNAL)
       POSEIDON2_RC3_TERMINAL"

text \<open>A state of the sponge: three canonical lanes.\<close>

definition lanes_ok :: "fr list \<Rightarrow> bool" where
  "lanes_ok s \<longleftrightarrow> length s = 3 \<and> list_all fr_ok s"

lemma lanes_okE:
  assumes "lanes_ok s"
  obtains a b c where "s = [a, b, c]" "fr_ok a" "fr_ok b" "fr_ok c"
  using assms by (auto simp: lanes_ok_def numeral_3_eq_3 length_Suc_conv)

lemma rc_ok:
  assumes "constant_ok c"
  obtains x where "rc c = (Inr x :: 'e fault + fr)" "fr_ok x" "canon x = constant_value c"
  using assms literal_decodes [of "str_bytes c"] unfolding constant_ok_def rc_def constant_value_def
  by (metis option.simps(5))

lemma sbox_value: "fr_ok x \<Longrightarrow> fr_ok (sbox x) \<and> canon (sbox x) = power_map (canon x)"
  by (simp add: sbox_def Let_def fr_square_mul fr_mul_ok fr_mul_canon power_map_def mod_mult_left_eq
      mod_mult_right_eq numeral_eq_Suc mult.assoc)

lemma power_map_mod: "power_map (x mod fr_p) = power_map x"
  by (simp add: power_map_def power_mod)

lemma sbox_step:
  assumes "fr_ok x" "constant_ok c"
  obtains k where "rc c = (Inr k :: 'e fault + fr)" "fr_ok (sbox (fr_add x k))"
    "canon (sbox (fr_add x k)) = power_map (canon x + constant_value c)"
  using rc_ok [OF assms(2)] assms(1) sbox_value [OF fr_add_ok [OF assms(1)]]
  by (metis fr_add_canon power_map_mod)

lemma external_matrix_value:
  "lanes_ok s \<Longrightarrow> lanes_ok (external_matrix s) \<and> map canon (external_matrix s) = external_layer (map canon s)"
  apply (elim lanes_okE)
  apply (simp add: lanes_ok_def Let_def fr_add_ok fr_add_canon external_layer_def dot_def mod_add_left_eq mod_add_right_eq)
  apply (simp add: numeral_eq_Suc ac_simps)
  done

lemma internal_matrix_value:
  "lanes_ok s \<Longrightarrow> lanes_ok (internal_matrix s) \<and> map canon (internal_matrix s) = internal_layer (map canon s)"
  apply (elim lanes_okE)
  apply (simp add: lanes_ok_def Let_def fr_add_ok fr_add_canon internal_layer_def dot_def mod_add_left_eq mod_add_right_eq)
  apply (simp add: numeral_eq_Suc ac_simps)
  done

lemma sbox_lanes_value:
  "list_all fr_ok s \<Longrightarrow> list_all constant_ok cs \<Longrightarrow> length s = length cs \<Longrightarrow>
    \<exists>t. sbox_lanes s cs = (Inr t :: 'e fault + fr list) \<and> list_all fr_ok t \<and> length t = length s \<and>
      map canon t = map2 (\<lambda>x c. power_map (x + constant_value c)) (map canon s) cs"
proof (induction s arbitrary: cs)
  case (Cons x xs)
  then obtain c cs' where cs: "cs = c # cs'" "constant_ok c" "list_all constant_ok cs'" "length xs = length cs'" "fr_ok x"
    by (cases cs) auto
  then obtain k where "rc c = (Inr k :: 'e fault + fr)" "fr_ok (sbox (fr_add x k))"
    "canon (sbox (fr_add x k)) = power_map (canon x + constant_value c)"
    using sbox_step [of x c] by blast
  moreover from Cons cs obtain t where "sbox_lanes xs cs' = (Inr t :: 'e fault + fr list)" "list_all fr_ok t"
    "length t = length xs" "map canon t = map2 (\<lambda>x c. power_map (x + constant_value c)) (map canon xs) cs'"
    by (metis list.pred_inject(2))
  ultimately show ?case
    using cs by simp
qed simp

lemma full_round_value:
  assumes "lanes_ok s" "list_all constant_ok cs" "length cs = 3"
  shows "\<exists>t. full_round s cs = (Inr t :: 'e fault + fr list) \<and> lanes_ok t \<and> map canon t = full_layer (map canon s) cs"
proof -
  from assms sbox_lanes_value [of s cs] obtain t where t: "sbox_lanes s cs = (Inr t :: 'e fault + fr list)"
    "lanes_ok t" "map canon t = map2 (\<lambda>x c. power_map (x + constant_value c)) (map canon s) cs"
    unfolding lanes_ok_def by metis
  then show ?thesis
    using external_matrix_value [OF t(2)] by (simp add: full_round_def full_layer_def)
qed

lemma partial_round_value:
  assumes "lanes_ok s" "constant_ok c"
  shows "\<exists>t. partial_round s c = (Inr t :: 'e fault + fr list) \<and> lanes_ok t \<and> map canon t = partial_layer (map canon s) c"
proof -
  obtain x y z where s: "s = [x, y, z]" "fr_ok x" "fr_ok y" "fr_ok z"
    using assms(1) by (rule lanes_okE)
  obtain k where k: "rc c = (Inr k :: 'e fault + fr)" "fr_ok (sbox (fr_add x k))"
    "canon (sbox (fr_add x k)) = power_map (canon x + constant_value c)"
    using sbox_step [OF s(2) assms(2)] by blast
  then have "lanes_ok [sbox (fr_add x k), y, z]"
    using s by (simp add: lanes_ok_def)
  from internal_matrix_value [OF this] k show ?thesis
    by (simp add: s partial_layer_def del: internal_matrix.simps)
qed

text \<open>Rounds that each return, and whose values follow a reference step, run to its fold.\<close>

lemma rounds_value:
  assumes "\<And>s c. lanes_ok s \<Longrightarrow> P c \<Longrightarrow>
      \<exists>t. f s c = (Inr t :: 'e fault + fr list) \<and> lanes_ok t \<and> map canon t = g (map canon s) c"
    and "list_all P cs" "lanes_ok s"
  shows "\<exists>t. rounds f cs s = Inr t \<and> lanes_ok t \<and> map canon t = foldl g (map canon s) cs"
  using assms(2,3)
proof (induction cs arbitrary: s)
  case (Cons c cs)
  then obtain t where t: "f s c = Inr t" "lanes_ok t" "map canon t = g (map canon s) c"
    using assms(1) [of s c] by auto
  moreover from Cons.IH [OF _ t(2)] Cons.prems obtain u where "rounds f cs t = Inr u" "lanes_ok u" "map canon u = foldl g (map canon t) cs"
    by auto
  ultimately show ?case
    by (simp add: rounds_def)
qed (simp add: rounds_def)

lemma full_rounds_value:
  assumes "list_all (list_all constant_ok) rows" "list_all (\<lambda>row. length row = 3) rows" "lanes_ok s"
  shows "\<exists>t. rounds full_round rows s = (Inr t :: 'e fault + fr list) \<and> lanes_ok t \<and>
    map canon t = foldl full_layer (map canon s) rows"
proof (rule rounds_value [where P = "\<lambda>cs. list_all constant_ok cs \<and> length cs = 3"])
  show "list_all (\<lambda>cs. list_all constant_ok cs \<and> length cs = 3) rows"
    using assms(1,2) by (auto simp: list_all_iff)
qed (use assms(3) full_round_value in auto)

lemma poseidon2_permute_value:
  assumes "lanes_ok s"
  obtains t where "poseidon2_permute s = (Inr t :: 'e fault + fr list)" "lanes_ok t"
    "map canon t = poseidon2_reference (map canon s)"
proof -
  note s = external_matrix_value [OF assms]
  obtain t1 where t1: "rounds full_round POSEIDON2_RC3_INITIAL (external_matrix s) = (Inr t1 :: 'e fault + fr list)"
    "lanes_ok t1" "map canon t1 = foldl full_layer (map canon (external_matrix s)) POSEIDON2_RC3_INITIAL"
    using full_rounds_value [OF initial_constants_ok constant_lengths(1)] s by blast
  obtain t2 where t2: "rounds partial_round POSEIDON2_RC3_INTERNAL t1 = (Inr t2 :: 'e fault + fr list)"
    "lanes_ok t2" "map canon t2 = foldl partial_layer (map canon t1) POSEIDON2_RC3_INTERNAL"
    using rounds_value [of constant_ok partial_round, OF partial_round_value internal_constants_ok t1(2)] by blast
  obtain t3 where t3: "rounds full_round POSEIDON2_RC3_TERMINAL t2 = (Inr t3 :: 'e fault + fr list)"
    "lanes_ok t3" "map canon t3 = foldl full_layer (map canon t2) POSEIDON2_RC3_TERMINAL"
    using full_rounds_value [OF terminal_constants_ok constant_lengths(2) t2(2)] by blast
  show thesis
    by (rule that [of t3]) (simp_all add: poseidon2_permute_def poseidon2_reference_def t1 t2 t3 s)
qed

text \<open>C15: The permutation never panics on three canonical lanes: all eighty constant literals decode,
  the lanes stay canonical, and their values are those of Poseidon2 over the integers modulo \<open>p\<close>.\<close>

theorem poseidon2_permute_refines:
  assumes "lanes_ok s"
  shows "\<exists>t. poseidon2_permute s = (Inr t :: unit fault + fr list) \<and> lanes_ok t \<and>
    map canon t = poseidon2_reference (map canon s)"
  using poseidon2_permute_value [OF assms] by metis

theorem poseidon2_permute_refines_witness:
  "\<exists>t. poseidon2_permute [fr_zero, fr_one, fr_minus_one] = (Inr t :: unit fault + fr list) \<and> lanes_ok t \<and>
    map canon t = poseidon2_reference [0, 1, fr_p - 1]"
  using poseidon2_permute_refines [of "[fr_zero, fr_one, fr_minus_one]"]
  by (simp add: lanes_ok_def fr_consts)

end
