(* ===== verification/Transcript.thy ===== *)
theory Transcript
  imports Poseidon
begin

text \<open>
  The duplex transcript of \<open>crates/transcript/src/lib.rs\<close>: the sponge and its two buffers, the typed
  layer over it, snapshots, the public I/O digest and the limbs of a \<open>G1\<close> point; then the sponge a
  transcript implements, with its buffers as the lists they hold.
\<close>

section \<open>The transcript\<close>

abbreviation (input) RATE :: nat where "RATE \<equiv> 2"
abbreviation (input) PUBLIC_INPUT_STREAM :: u64 where "PUBLIC_INPUT_STREAM \<equiv> 20"
abbreviation (input) PUBLIC_OUTPUT_STREAM :: u64 where "PUBLIC_OUTPUT_STREAM \<equiv> 21"

datatype transcript_event = Absorb u64 nat | Challenge u64

record transcript =
  tr_state :: "fr list"
  tr_input :: "fr list"
  tr_input_len :: nat
  tr_output :: "fr list"
  tr_output_len :: nat
  tr_events :: "transcript_event list"

record snapshot =
  sn_state :: "fr list"
  sn_input :: "fr list"
  sn_input_len :: u8
  sn_output :: "fr list"
  sn_output_len :: u8

definition transcript_new :: transcript where
  "transcript_new = \<lparr>tr_state = replicate 3 fr_zero, tr_input = replicate RATE fr_zero, tr_input_len = 0,
     tr_output = replicate RATE fr_zero, tr_output_len = 0, tr_events = []\<rparr>"

text \<open>The pending lanes move into the rate, each leaving a zero behind.\<close>

fun absorb_lanes :: "nat list \<Rightarrow> fr list \<Rightarrow> fr list \<Rightarrow> 'e fault + (fr list \<times> fr list)" where
  "absorb_lanes [] state input = Inr (state, input)"
| "absorb_lanes (i # is) state input =
     bind_res (idx input i) (\<lambda>x.
     bind_res (set_at state i x) (\<lambda>state.
     bind_res (set_at input i fr_zero) (\<lambda>input. absorb_lanes is state input)))"

definition duplex :: "transcript \<Rightarrow> 'e fault + transcript" where
  "duplex t =
     (let n = tr_input_len t in
      bind_res (ensure (n \<le> RATE)) (\<lambda>_.
      bind_res (absorb_lanes [0..<n] (tr_state t) (tr_input t)) (\<lambda>(state, input).
      bind_res
        (if n > 0 then
           bind_res (slice state n RATE) (\<lambda>lanes.
           let state = take n state @ map (\<lambda>_. fr_zero) lanes @ drop RATE state in
           bind_res (idx state RATE) (\<lambda>c. set_at state RATE (fr_add c (from_u64 (of_nat n)))))
         else Inr state) (\<lambda>state.
      bind_res (poseidon2_permute state) (\<lambda>state.
        Inr (t\<lparr>tr_state := state, tr_input := input, tr_input_len := 0,
          tr_output := take RATE state, tr_output_len := RATE\<rparr>))))))"

definition observe :: "fr \<Rightarrow> transcript \<Rightarrow> 'e fault + transcript" where
  "observe x t =
     bind_res (set_at (tr_input t) (tr_input_len t) x) (\<lambda>input.
     let t = t\<lparr>tr_output := replicate RATE fr_zero, tr_output_len := 0, tr_input := input,
               tr_input_len := tr_input_len t + 1\<rparr> in
     if tr_input_len t = RATE then duplex t else Inr t)"

definition sample :: "transcript \<Rightarrow> 'e fault + (fr \<times> transcript)" where
  "sample t =
     bind_res (if tr_input_len t > 0 \<or> tr_output_len t = 0 then duplex t else Inr t) (\<lambda>t.
     bind_res (ensure (tr_output_len t > 0)) (\<lambda>_.
     let k = tr_output_len t - 1 in
     bind_res (idx (tr_output t) k) (\<lambda>out.
     bind_res (set_at (tr_output t) k fr_zero) (\<lambda>output.
       Inr (out, t\<lparr>tr_output := output, tr_output_len := k\<rparr>)))))"

section \<open>The typed layer\<close>

fun observe_all :: "fr list \<Rightarrow> transcript \<Rightarrow> 'e fault + transcript" where
  "observe_all [] t = Inr t"
| "observe_all (x # xs) t = bind_res (observe x t) (observe_all xs)"

definition append_scalars :: "u64 \<Rightarrow> fr list \<Rightarrow> transcript \<Rightarrow> 'e fault + transcript" where
  "append_scalars tag xs t =
     bind_res (observe (from_u64 tag) t) (\<lambda>t.
     bind_res (observe (from_u64 (of_nat (length xs))) t) (\<lambda>t.
     bind_res (observe_all xs t) (\<lambda>t.
       Inr (t\<lparr>tr_events := tr_events t @ [Absorb tag (length xs)]\<rparr>))))"

definition append_scalar :: "u64 \<Rightarrow> fr \<Rightarrow> transcript \<Rightarrow> 'e fault + transcript" where
  "append_scalar tag x t = append_scalars tag [x] t"

function chunks :: "nat \<Rightarrow> 'a list \<Rightarrow> 'a list list" where
  "chunks n xs = (if n = 0 \<or> xs = [] then [] else take n xs # chunks n (drop n xs))"
  by auto
termination
  by (relation "measure (length \<circ> snd)") auto

declare chunks.simps [simp del]

definition pad32 :: "u8 list \<Rightarrow> u8 list" where
  "pad32 bytes = bytes @ replicate (32 - length bytes) 0"

definition byte_limb :: "u8 list \<Rightarrow> 'e fault + fr" where
  "byte_limb chunk = (case from_bytes (pad32 chunk) of None \<Rightarrow> panic | Some x \<Rightarrow> Inr x)"

fun observe_chunks :: "u8 list list \<Rightarrow> transcript \<Rightarrow> 'e fault + transcript" where
  "observe_chunks [] t = Inr t"
| "observe_chunks (c # cs) t =
     bind_res (byte_limb c) (\<lambda>x. bind_res (observe x t) (observe_chunks cs))"

definition append_bytes :: "u64 \<Rightarrow> u8 list \<Rightarrow> transcript \<Rightarrow> 'e fault + transcript" where
  "append_bytes tag bytes t =
     bind_res (observe (from_u64 tag) t) (\<lambda>t.
     bind_res (observe (from_u64 (of_nat (length bytes))) t) (\<lambda>t.
     bind_res (observe_chunks (chunks 31 bytes) t) (\<lambda>t.
       Inr (t\<lparr>tr_events := tr_events t @ [Absorb tag ((length bytes + 30) div 31)]\<rparr>))))"

definition challenge_scalar :: "u64 \<Rightarrow> transcript \<Rightarrow> 'e fault + (fr \<times> transcript)" where
  "challenge_scalar tag t =
     bind_res (observe (from_u64 tag) t) (\<lambda>t.
     bind_res (sample t) (\<lambda>(c, t).
       Inr (c, t\<lparr>tr_events := tr_events t @ [Challenge tag]\<rparr>)))"

definition take_snapshot :: "transcript \<Rightarrow> snapshot" where
  "take_snapshot t = \<lparr>sn_state = tr_state t, sn_input = tr_input t, sn_input_len = of_nat (tr_input_len t),
     sn_output = tr_output t, sn_output_len = of_nat (tr_output_len t)\<rparr>"

definition restore :: "snapshot \<Rightarrow> transcript" where
  "restore s = \<lparr>tr_state = sn_state s, tr_input = sn_input s, tr_input_len = unat (sn_input_len s),
     tr_output = sn_output s, tr_output_len = unat (sn_output_len s), tr_events = []\<rparr>"

text \<open>The shape check of \<open>Deserialize\<close>, on the five fields it has read.\<close>

definition admit_snapshot :: "snapshot \<Rightarrow> snapshot option" where
  "admit_snapshot s =
     (if unat (sn_input_len s) \<ge> RATE \<or> unat (sn_output_len s) > RATE \<or>
         list_ex (\<lambda>x. x \<noteq> fr_zero) (drop (unat (sn_input_len s)) (sn_input s)) \<or>
         list_ex (\<lambda>x. x \<noteq> fr_zero) (drop (unat (sn_output_len s)) (sn_output s))
      then None else Some s)"

definition io_digest :: "u8 list \<Rightarrow> u8 list \<Rightarrow> 'e fault + fr" where
  "io_digest public_input public_output =
     bind_res (append_bytes PUBLIC_INPUT_STREAM public_input transcript_new) (\<lambda>sponge.
     bind_res (append_bytes PUBLIC_OUTPUT_STREAM public_output sponge) (\<lambda>sponge.
     bind_res (sample sponge) (\<lambda>(d, _). Inr d)))"

section \<open>Points\<close>

definition g1_limb :: "u8 list \<Rightarrow> 'e fault + fr" where
  "g1_limb half = (case from_bytes (half @ replicate 16 0) of None \<Rightarrow> panic | Some x \<Rightarrow> Inr x)"

definition g1_limbs :: "u8 list \<Rightarrow> 'e fault + fr list" where
  "g1_limbs point =
     (if list_all (\<lambda>b. b = 0) point then
        (case from_hex (str_bytes G1_INFINITY_SENTINEL) of
           None \<Rightarrow> panic
         | Some sentinel \<Rightarrow> Inr (replicate 4 sentinel))
      else
        bind_res (g1_limb (take 16 point)) (\<lambda>a.
        bind_res (g1_limb (take 16 (drop 16 point))) (\<lambda>b.
        bind_res (g1_limb (take 16 (drop 32 point))) (\<lambda>c.
        bind_res (g1_limb (drop 48 point)) (\<lambda>d. Inr [a, b, c, d])))))"

fun points_limbs :: "u8 list list \<Rightarrow> 'e fault + fr list" where
  "points_limbs [] = Inr []"
| "points_limbs (p # ps) = bind_res (g1_limbs p) (\<lambda>l. bind_res (points_limbs ps) (\<lambda>ls. Inr (l @ ls)))"

definition append_g1_points :: "u64 \<Rightarrow> u8 list list \<Rightarrow> transcript \<Rightarrow> 'e fault + transcript" where
  "append_g1_points tag points t = bind_res (points_limbs points) (\<lambda>limbs. append_scalars tag limbs t)"

section \<open>The sponge a transcript implements\<close>

text \<open>
  The buffers as the lists they hold: \<open>pending\<close> what is absorbed and not yet permuted, \<open>ready\<close> what
  is squeezed and not yet handed out, from its end.
\<close>

datatype sponge = Sponge (lanes: "fr list") (pending: "fr list") (ready: "fr list")

definition permuted :: "fr list \<Rightarrow> fr list" where
  "permuted s = (case poseidon2_permute s :: unit fault + fr list of Inl _ \<Rightarrow> s | Inr t \<Rightarrow> t)"

definition sponge_new :: sponge where
  "sponge_new = Sponge [fr_zero, fr_zero, fr_zero] [] []"

definition sponge_squeeze :: "sponge \<Rightarrow> sponge" where
  "sponge_squeeze sp =
     (let n = length (pending sp);
          s = (if n = 0 then lanes sp
               else pending sp @ replicate (2 - n) fr_zero @ [fr_add (lanes sp ! 2) (from_u64 (of_nat n))]);
          t = permuted s in
      Sponge t [] (take 2 t))"

definition sponge_observe :: "sponge \<Rightarrow> fr \<Rightarrow> sponge" where
  "sponge_observe sp x =
     (let q = pending sp @ [x] in
      if length q = 2 then sponge_squeeze (Sponge (lanes sp) q []) else Sponge (lanes sp) q [])"

definition sponge_sample :: "sponge \<Rightarrow> fr \<times> sponge" where
  "sponge_sample sp =
     (let sp = (if pending sp \<noteq> [] \<or> ready sp = [] then sponge_squeeze sp else sp) in
      (last (ready sp), Sponge (lanes sp) (pending sp) (butlast (ready sp))))"

definition sponge_of :: "transcript \<Rightarrow> sponge" where
  "sponge_of t = Sponge (tr_state t) (take (tr_input_len t) (tr_input t)) (take (tr_output_len t) (tr_output t))"

text \<open>A buffer holds two canonical lanes, zero at and past its length.\<close>

definition buffer_ok :: "fr list \<Rightarrow> nat \<Rightarrow> bool" where
  "buffer_ok b n \<longleftrightarrow> length b = 2 \<and> list_all fr_ok b \<and> n \<le> 2 \<and> list_all (\<lambda>x. x = fr_zero) (drop n b)"

definition sponge_ok :: "transcript \<Rightarrow> bool" where
  "sponge_ok t \<longleftrightarrow> lanes_ok (tr_state t) \<and> buffer_ok (tr_input t) (tr_input_len t) \<and>
     buffer_ok (tr_output t) (tr_output_len t)"

definition transcript_ok :: "transcript \<Rightarrow> bool" where
  "transcript_ok t \<longleftrightarrow> sponge_ok t \<and> tr_input_len t < 2"

lemma from_u64_value: "fr_ok (from_u64 x) \<and> canon (from_u64 x) = unat x"
proof -
  have "limbs_ok [x, 0, 0, 0]"
    using unat_u64_less [of x] by (simp add: limbs_ok_def fr_p_def)
  from to_mont_canon [OF this] show ?thesis
    by (simp add: from_u64_def)
qed

lemma fr_zero_ok: "fr_ok fr_zero"
  by (simp add: fr_consts)

lemma buffer_ok_pair: "buffer_ok b n \<Longrightarrow> \<exists>x y. b = [x, y] \<and> fr_ok x \<and> fr_ok y"
  by (auto simp: buffer_ok_def numeral_2_eq_2 length_Suc_conv)

lemma buffer_ok_Cons: "buffer_ok [x, y] n \<longleftrightarrow> fr_ok x \<and> fr_ok y \<and>
    (n = 2 \<or> (n = 1 \<and> y = fr_zero) \<or> (n = 0 \<and> x = fr_zero \<and> y = fr_zero))"
  by (auto simp: buffer_ok_def le_Suc_eq numeral_2_eq_2)

lemma buffer_ok_zero: "buffer_ok [fr_zero, fr_zero] 0"
  by (simp add: buffer_ok_Cons fr_zero_ok)

lemma lanes_inject: "lanes_ok s \<Longrightarrow> lanes_ok t \<Longrightarrow> map canon s = map canon t \<Longrightarrow> s = t"
  by (elim lanes_okE) (simp add: canon_inject)

lemma permuted_eq:
  assumes "lanes_ok s"
  shows "poseidon2_permute s = (Inr (permuted s) :: 'e fault + fr list)" "lanes_ok (permuted s)"
proof -
  obtain t where t: "poseidon2_permute s = (Inr t :: unit fault + fr list)" "lanes_ok t"
      "map canon t = poseidon2_reference (map canon s)"
    using poseidon2_permute_value [OF assms] by blast
  obtain u where u: "poseidon2_permute s = (Inr u :: 'e fault + fr list)" "lanes_ok u"
      "map canon u = poseidon2_reference (map canon s)"
    using poseidon2_permute_value [OF assms] by blast
  have "t = u"
    using t u by (intro lanes_inject) simp_all
  with t u show "poseidon2_permute s = (Inr (permuted s) :: 'e fault + fr list)" "lanes_ok (permuted s)"
    by (simp_all add: permuted_def)
qed

lemma lanes_ok_take2: "lanes_ok s \<Longrightarrow> buffer_ok (take 2 s) 2"
  by (elim lanes_okE) (simp add: buffer_ok_Cons)

lemma upt_small: "[0..<Suc 0] = [0]" "[0..<2] = [0, 1]"
  by (simp_all add: numeral_2_eq_2)

lemma duplex_refines:
  assumes "sponge_ok t"
  obtains t' where "duplex t = (Inr t' :: 'e fault + transcript)" "transcript_ok t'"
    "sponge_of t' = sponge_squeeze (sponge_of t)" "tr_input_len t' = 0" "tr_output_len t' = 2"
proof -
  obtain a b c where s: "tr_state t = [a, b, c]" "fr_ok a" "fr_ok b" "fr_ok c"
    using assms by (auto simp: sponge_ok_def elim!: lanes_okE)
  obtain x y where i: "tr_input t = [x, y]" "fr_ok x" "fr_ok y" "buffer_ok [x, y] (tr_input_len t)"
    using assms buffer_ok_pair unfolding sponge_ok_def by metis
  let ?n = "tr_input_len t"
  define s0 where "s0 = (if ?n = 0 then [a, b, c]
     else take ?n [x, y] @ replicate (2 - ?n) fr_zero @ [fr_add c (from_u64 (of_nat ?n))])"
  have ok: "lanes_ok s0"
    using s i by (auto simp: s0_def lanes_ok_def buffer_ok_Cons fr_add_ok from_u64_value fr_zero_ok)
  let ?t = "t\<lparr>tr_state := permuted s0, tr_input := [fr_zero, fr_zero], tr_input_len := 0,
    tr_output := take 2 (permuted s0), tr_output_len := 2\<rparr>"
  have "duplex t = (Inr ?t :: 'e fault + transcript)"
    using i(4) permuted_eq(1) [OF ok, where ?'e = 'e]
    by (auto simp: buffer_ok_Cons duplex_def Let_def s i s0_def upt_small idx_def set_at_def slice_def
        ensure_def numeral_2_eq_2 simp del: bind_res_Inr)
  moreover have "transcript_ok ?t"
    using permuted_eq(2) [OF ok] by (simp add: transcript_ok_def sponge_ok_def buffer_ok_zero lanes_ok_take2)
  moreover have "sponge_of ?t = sponge_squeeze (sponge_of t)"
    using i(4) by (auto simp: buffer_ok_Cons sponge_of_def sponge_squeeze_def Let_def s i s0_def)
  ultimately show thesis
    using that [of ?t] by simp
qed

lemma observe_refines:
  assumes "transcript_ok t" "fr_ok x"
  obtains t' where "observe x t = (Inr t' :: 'e fault + transcript)" "transcript_ok t'"
    "sponge_of t' = sponge_observe (sponge_of t) x"
proof -
  obtain a b where i: "tr_input t = [a, b]" "buffer_ok [a, b] (tr_input_len t)" "tr_input_len t < 2"
    using assms(1) buffer_ok_pair unfolding transcript_ok_def sponge_ok_def by metis
  let ?t = "t\<lparr>tr_output := [fr_zero, fr_zero], tr_output_len := 0,
    tr_input := (tr_input t)[tr_input_len t := x], tr_input_len := tr_input_len t + 1\<rparr>"
  have ok: "sponge_ok ?t"
    using assms i by (auto simp: transcript_ok_def sponge_ok_def buffer_ok_Cons fr_zero_ok)
  have ob: "observe x t = (if tr_input_len t = 1 then duplex ?t else Inr ?t :: 'e fault + transcript)"
    using i by (auto simp: observe_def Let_def set_at_def numeral_2_eq_2)
  show thesis
  proof (cases "tr_input_len t = 1")
    case True
    obtain t' where "duplex ?t = (Inr t' :: 'e fault + transcript)" "transcript_ok t'"
      "sponge_of t' = sponge_squeeze (sponge_of ?t)"
      using duplex_refines [OF ok] by metis
    then show thesis
      using True i by (intro that [of t']) (simp_all add: ob sponge_of_def sponge_observe_def Let_def)
  next
    case False
    with i(3) have "tr_input_len t = 0"
      by simp
    then show thesis
      using ok i by (intro that [of ?t]) (simp_all add: ob sponge_of_def sponge_observe_def transcript_ok_def)
  qed
qed

lemma sample_refines:
  assumes "transcript_ok t"
  obtains c t' where "sample t = (Inr (c, t') :: 'e fault + _)" "transcript_ok t'" "fr_ok c"
    "(c, sponge_of t') = sponge_sample (sponge_of t)"
proof -
  let ?f = "tr_input_len t > 0 \<or> tr_output_len t = 0"
  obtain u where u: "(if ?f then duplex t else Inr t) = (Inr u :: 'e fault + transcript)" "transcript_ok u"
    "sponge_of u = (if ?f then sponge_squeeze (sponge_of t) else sponge_of t)"
    "tr_input_len u = 0" "tr_output_len u > 0"
    using assms duplex_refines [of t, where ?'e = 'e] unfolding transcript_ok_def
    by (metis gr0I zero_less_numeral)
  obtain x y where o: "tr_output u = [x, y]" "fr_ok x" "fr_ok y" "buffer_ok [x, y] (tr_output_len u)"
    using u(2) buffer_ok_pair unfolding transcript_ok_def sponge_ok_def by metis
  let ?k = "tr_output_len u - 1"
  let ?t = "u\<lparr>tr_output := (tr_output u)[?k := fr_zero], tr_output_len := ?k\<rparr>"
  have k: "tr_output_len u = 1 \<or> tr_output_len u = 2"
    using o u(5) by (auto simp: buffer_ok_Cons)
  have "sample t = (Inr (tr_output u ! ?k, ?t) :: 'e fault + _)"
    using k by (elim disjE) (simp_all add: sample_def u(1) o(1) Let_def idx_def set_at_def ensure_def del: bind_res_Inr)
  moreover have "transcript_ok ?t"
    using u(2) o k by (auto simp: transcript_ok_def sponge_ok_def buffer_ok_Cons fr_zero_ok)
  moreover have "?f \<longleftrightarrow> pending (sponge_of t) \<noteq> [] \<or> ready (sponge_of t) = []"
    using assms by (auto simp: sponge_of_def transcript_ok_def sponge_ok_def buffer_ok_def)
  then have eq: "(if pending (sponge_of t) \<noteq> [] \<or> ready (sponge_of t) = [] then sponge_squeeze (sponge_of t)
      else sponge_of t) = sponge_of u"
    using u(3) by simp
  have "(tr_output u ! ?k, sponge_of ?t) = sponge_sample (sponge_of t)"
    unfolding sponge_sample_def eq Let_def using k
    by (elim disjE) (simp_all add: sponge_of_def u(4) o(1))
  moreover have "fr_ok (tr_output u ! ?k)"
    using o k by auto
  ultimately show thesis
    using that by blast
qed

section \<open>Runs of operations\<close>

text \<open>The calls a holder of a transcript makes; a run collects the elements they return.\<close>

datatype transcript_op =
    Observe fr
  | Sample
  | AppendScalars u64 "fr list"
  | AppendBytes u64 "u8 list"
  | AppendPoints u64 "u8 list list"
  | ChallengeScalar u64

fun run_op :: "transcript_op \<Rightarrow> transcript \<Rightarrow> 'e fault + (fr list \<times> transcript)" where
  "run_op (Observe x) t = bind_res (observe x t) (\<lambda>t. Inr ([], t))"
| "run_op Sample t = bind_res (sample t) (\<lambda>(c, t). Inr ([c], t))"
| "run_op (AppendScalars tag xs) t = bind_res (append_scalars tag xs t) (\<lambda>t. Inr ([], t))"
| "run_op (AppendBytes tag bytes) t = bind_res (append_bytes tag bytes t) (\<lambda>t. Inr ([], t))"
| "run_op (AppendPoints tag points) t = bind_res (append_g1_points tag points t) (\<lambda>t. Inr ([], t))"
| "run_op (ChallengeScalar tag) t = bind_res (challenge_scalar tag t) (\<lambda>(c, t). Inr ([c], t))"

fun run_ops :: "transcript_op list \<Rightarrow> transcript \<Rightarrow> 'e fault + (fr list \<times> transcript)" where
  "run_ops [] t = Inr ([], t)"
| "run_ops (op # ops) t =
     bind_res (run_op op t) (\<lambda>(cs, t). bind_res (run_ops ops t) (\<lambda>(ds, t). Inr (cs @ ds, t)))"

text \<open>What an operation absorbs, and its effect on the sponge.\<close>

definition chunk_element :: "u8 list \<Rightarrow> fr" where
  "chunk_element chunk = the (from_bytes (pad32 chunk))"

definition point_elements :: "u8 list \<Rightarrow> fr list" where
  "point_elements point = (case g1_limbs point :: unit fault + fr list of Inl _ \<Rightarrow> [] | Inr l \<Rightarrow> l)"

definition framed :: "u64 \<Rightarrow> nat \<Rightarrow> fr list \<Rightarrow> fr list" where
  "framed tag n xs = from_u64 tag # from_u64 (of_nat n) # xs"

definition byte_message :: "u64 \<Rightarrow> u8 list \<Rightarrow> fr list" where
  "byte_message tag bytes = framed tag (length bytes) (map chunk_element (chunks 31 bytes))"

fun absorbed :: "transcript_op \<Rightarrow> fr list" where
  "absorbed (Observe x) = [x]"
| "absorbed Sample = []"
| "absorbed (AppendScalars tag xs) = framed tag (length xs) xs"
| "absorbed (AppendBytes tag bytes) = byte_message tag bytes"
| "absorbed (AppendPoints tag points) =
     (let limbs = concat (map point_elements points) in framed tag (length limbs) limbs)"
| "absorbed (ChallengeScalar tag) = [from_u64 tag]"

fun draws :: "transcript_op \<Rightarrow> bool" where
  "draws Sample = True"
| "draws (ChallengeScalar tag) = True"
| "draws _ = False"

definition sponge_op :: "transcript_op \<Rightarrow> sponge \<Rightarrow> fr list \<times> sponge" where
  "sponge_op op sp =
     (let sp = foldl sponge_observe sp (absorbed op) in
      if draws op then (let (c, sp) = sponge_sample sp in ([c], sp)) else ([], sp))"

fun sponge_ops :: "transcript_op list \<Rightarrow> sponge \<Rightarrow> fr list \<times> sponge" where
  "sponge_ops [] sp = ([], sp)"
| "sponge_ops (op # ops) sp =
     (let (cs, sp) = sponge_op op sp; (ds, sp) = sponge_ops ops sp in (cs @ ds, sp))"

text \<open>The types of the arguments: canonical elements, 64-byte points.\<close>

fun op_ok :: "transcript_op \<Rightarrow> bool" where
  "op_ok (Observe x) \<longleftrightarrow> fr_ok x"
| "op_ok (AppendScalars tag xs) \<longleftrightarrow> list_all fr_ok xs"
| "op_ok (AppendPoints tag points) \<longleftrightarrow> list_all (\<lambda>p. length p = 64) points"
| "op_ok _ \<longleftrightarrow> True"

lemma transcript_new_ok: "transcript_ok transcript_new" "sponge_of transcript_new = sponge_new"
  by (simp_all add: transcript_ok_def sponge_ok_def transcript_new_def buffer_ok_def lanes_ok_def fr_zero_ok
      sponge_of_def sponge_new_def numeral_3_eq_3 numeral_2_eq_2)

lemma transcript_ok_events: "transcript_ok (t\<lparr>tr_events := e\<rparr>) \<longleftrightarrow> transcript_ok t"
    "sponge_of (t\<lparr>tr_events := e\<rparr>) = sponge_of t"
  by (simp_all add: transcript_ok_def sponge_ok_def sponge_of_def)

lemma observe_all_refines:
  assumes "transcript_ok t" "list_all fr_ok xs"
  shows "\<exists>t'. observe_all xs t = (Inr t' :: 'e fault + transcript) \<and> transcript_ok t' \<and>
    sponge_of t' = foldl sponge_observe (sponge_of t) xs"
  using assms
proof (induction xs arbitrary: t)
  case (Cons x xs)
  then obtain u where u: "observe x t = (Inr u :: 'e fault + transcript)" "transcript_ok u"
    "sponge_of u = sponge_observe (sponge_of t) x"
    using observe_refines [of t x] by auto
  from Cons.IH [OF u(2)] Cons.prems show ?case
    by (simp add: u)
qed simp

lemma bind_res_assoc: "bind_res (bind_res m f) g = bind_res m (\<lambda>x. bind_res (f x) g)"
  by (cases m) simp_all

text \<open>The limbs of a chunk or of half a coordinate are canonical, their values the bytes'.\<close>

lemma bytes_val_zeros [simp]: "bytes_val (replicate n 0) = 0"
  by (induction n) simp_all

lemma padded_element:
  assumes "length b + k = 32" "length b \<le> 31"
  obtains x where "from_bytes (b @ replicate k 0) = Some x" "fr_ok x" "canon x = bytes_val b"
proof -
  have "bytes_val b < 256 ^ length b"
    by (rule bytes_val_less)
  also have "\<dots> \<le> (256 :: nat) ^ 31"
    using assms(2) by (intro power_increasing) simp_all
  also have "\<dots> < fr_p"
    by (simp add: fr_p_def)
  finally have "bytes_val (b @ replicate k 0) < fr_p"
    by (simp add: bytes_val_append)
  then show thesis
    using from_bytes_ok [of "b @ replicate k 0"] assms that by (auto simp: bytes_val_append)
qed

lemma byte_limb_ok:
  assumes "length c \<le> 31"
  shows "byte_limb c = (Inr (chunk_element c) :: 'e fault + fr)" "fr_ok (chunk_element c)"
    "canon (chunk_element c) = bytes_val c"
proof -
  obtain x where x: "from_bytes (pad32 c) = Some x" "fr_ok x" "canon x = bytes_val c"
    using padded_element [of c "32 - length c"] assms unfolding pad32_def by auto
  then show "byte_limb c = (Inr (chunk_element c) :: 'e fault + fr)" "fr_ok (chunk_element c)"
    "canon (chunk_element c) = bytes_val c"
    by (simp_all add: byte_limb_def chunk_element_def)
qed

lemma length_chunks: "c \<in> set (chunks n xs) \<Longrightarrow> length c \<le> n \<and> c \<noteq> []"
proof (induction n xs rule: chunks.induct)
  case (1 n xs)
  then show ?case
    by (subst (asm) chunks.simps) (auto split: if_splits)
qed

lemma observe_chunks_all:
  "list_all (\<lambda>c. length c \<le> 31) cs \<Longrightarrow>
    observe_chunks cs t = (observe_all (map chunk_element cs) t :: 'e fault + transcript)"
proof (induction cs arbitrary: t)
  case (Cons c cs)
  then have "observe_chunks cs = (observe_all (map chunk_element cs) :: _ \<Rightarrow> 'e fault + transcript)"
    by auto
  with Cons.prems show ?case
    by (simp add: byte_limb_ok(1))
qed simp

lemma g1_limb_ok:
  assumes "length h = 16"
  obtains x where "g1_limb h = (Inr x :: 'e fault + fr)" "fr_ok x" "canon x = bytes_val h"
proof -
  obtain x where "from_bytes (h @ replicate 16 0) = Some x" "fr_ok x" "canon x = bytes_val h"
    using padded_element [of h 16] assms by auto
  then show thesis
    by (intro that [of x]) (simp_all add: g1_limb_def)
qed

lemma sentinel_ok:
  obtains x where "from_hex (str_bytes G1_INFINITY_SENTINEL) = Some x" "fr_ok x" "canon x = 2 ^ 128"
proof -
  have "literal_ok (str_bytes G1_INFINITY_SENTINEL)"
    by (simp add: G1_INFINITY_SENTINEL_def literal_eval)
  then show thesis
  proof (rule literal_decodes)
    fix x assume "from_hex (str_bytes G1_INFINITY_SENTINEL) = Some x" "fr_ok x"
      "canon x = hex_number (drop 2 (str_bytes G1_INFINITY_SENTINEL))"
    moreover have "hex_number (drop 2 (str_bytes G1_INFINITY_SENTINEL)) = 2 ^ 128"
      by (simp add: G1_INFINITY_SENTINEL_def literal_eval)
    ultimately show thesis
      using that by simp
  qed
qed

lemma g1_limbs_ok:
  assumes "length p = 64"
  shows "g1_limbs p = (Inr (point_elements p) :: 'e fault + fr list)" "list_all fr_ok (point_elements p)"
    "map canon (point_elements p) =
       (if list_all (\<lambda>b. b = 0) p then replicate 4 (2 ^ 128)
        else map bytes_val [take 16 p, take 16 (drop 16 p), take 16 (drop 32 p), drop 48 p])"
proof -
  have "\<exists>l. g1_limbs p = (Inr l :: 'e fault + fr list) \<and> g1_limbs p = (Inr l :: unit fault + fr list) \<and>
    list_all fr_ok l \<and> map canon l =
       (if list_all (\<lambda>b. b = 0) p then replicate 4 (2 ^ 128)
        else map bytes_val [take 16 p, take 16 (drop 16 p), take 16 (drop 32 p), drop 48 p])"
  proof (cases "list_all (\<lambda>b. b = 0) p")
    case True
    obtain x where "from_hex (str_bytes G1_INFINITY_SENTINEL) = Some x" "fr_ok x" "canon x = 2 ^ 128"
      by (rule sentinel_ok)
    with True show ?thesis
      by (intro exI [of _ "replicate 4 x"]) (simp add: g1_limbs_def list_all_iff)
  next
    case False
    have limb: "\<exists>x. g1_limb h = (Inr x :: 'e fault + fr) \<and> g1_limb h = (Inr x :: unit fault + fr) \<and>
        fr_ok x \<and> canon x = bytes_val h" if "length h = 16" for h
    proof -
      obtain x where "from_bytes (h @ replicate 16 0) = Some x" "fr_ok x" "canon x = bytes_val h"
        using padded_element [of h 16] \<open>length h = 16\<close> by auto
      then show ?thesis
        by (simp add: g1_limb_def)
    qed
    obtain a where a: "g1_limb (take 16 p) = (Inr a :: 'e fault + fr)" "g1_limb (take 16 p) = (Inr a :: unit fault + fr)"
      "fr_ok a" "canon a = bytes_val (take 16 p)"
      using limb [of "take 16 p"] assms by auto
    obtain b where b: "g1_limb (take 16 (drop 16 p)) = (Inr b :: 'e fault + fr)"
      "g1_limb (take 16 (drop 16 p)) = (Inr b :: unit fault + fr)" "fr_ok b" "canon b = bytes_val (take 16 (drop 16 p))"
      using limb [of "take 16 (drop 16 p)"] assms by auto
    obtain c where c: "g1_limb (take 16 (drop 32 p)) = (Inr c :: 'e fault + fr)"
      "g1_limb (take 16 (drop 32 p)) = (Inr c :: unit fault + fr)" "fr_ok c" "canon c = bytes_val (take 16 (drop 32 p))"
      using limb [of "take 16 (drop 32 p)"] assms by auto
    obtain d where d: "g1_limb (drop 48 p) = (Inr d :: 'e fault + fr)" "g1_limb (drop 48 p) = (Inr d :: unit fault + fr)"
      "fr_ok d" "canon d = bytes_val (drop 48 p)"
      using limb [of "drop 48 p"] assms by auto
    show ?thesis
      using False by (intro exI [of _ "[a, b, c, d]"]) (simp add: g1_limbs_def a b c d del: bind_res_Inr)
  qed
  then show "g1_limbs p = (Inr (point_elements p) :: 'e fault + fr list)" "list_all fr_ok (point_elements p)"
    "map canon (point_elements p) =
       (if list_all (\<lambda>b. b = 0) p then replicate 4 (2 ^ 128)
        else map bytes_val [take 16 p, take 16 (drop 16 p), take 16 (drop 32 p), drop 48 p])"
    by (auto simp: point_elements_def)
qed

lemma points_limbs_ok:
  "list_all (\<lambda>p. length p = 64) ps \<Longrightarrow>
    points_limbs ps = (Inr (concat (map point_elements ps)) :: 'e fault + fr list) \<and>
    list_all fr_ok (concat (map point_elements ps))"
  by (induction ps) (simp_all add: g1_limbs_ok del: bind_res_Inr)

lemma observe_all_Cons: "observe_all (x # xs) = (\<lambda>t. bind_res (observe x t) (observe_all xs))"
  by (rule ext) simp

lemma framed_refines:
  assumes "transcript_ok t" "list_all fr_ok xs"
  shows "\<exists>t'. bind_res (observe (from_u64 tag) t) (\<lambda>t. bind_res (observe (from_u64 (of_nat n)) t) (observe_all xs))
      = (Inr t' :: 'e fault + transcript) \<and> transcript_ok t' \<and>
    sponge_of t' = foldl sponge_observe (sponge_of t) (framed tag n xs)"
  using observe_all_refines [of t "framed tag n xs", where ?'e = 'e] assms
  by (simp add: framed_def from_u64_value observe_all_Cons del: bind_res_Inr observe_all.simps)

lemma append_scalars_refines:
  assumes "transcript_ok t" "list_all fr_ok xs"
  obtains t' where "append_scalars tag xs t = (Inr t' :: 'e fault + transcript)" "transcript_ok t'"
    "sponge_of t' = foldl sponge_observe (sponge_of t) (framed tag (length xs) xs)"
  using framed_refines [OF assms, where ?'e = 'e, of tag "length xs"] that
  by (auto simp: append_scalars_def transcript_ok_events)

lemma append_bytes_refines:
  assumes "transcript_ok t"
  obtains t' where "append_bytes tag bytes t = (Inr t' :: 'e fault + transcript)" "transcript_ok t'"
    "sponge_of t' = foldl sponge_observe (sponge_of t) (byte_message tag bytes)"
proof -
  have cs: "list_all (\<lambda>c. length c \<le> 31) (chunks 31 bytes)" "list_all fr_ok (map chunk_element (chunks 31 bytes))"
    using length_chunks [of _ 31 bytes] byte_limb_ok(2) by (auto simp: list_all_iff)
  show thesis
    using framed_refines [OF assms cs(2), where ?'e = 'e, of tag "length bytes"] that
    by (auto simp: append_bytes_def byte_message_def transcript_ok_events observe_chunks_all [OF cs(1)])
qed

lemma challenge_scalar_refines:
  assumes "transcript_ok t"
  obtains c t' where "challenge_scalar tag t = (Inr (c, t') :: 'e fault + _)" "transcript_ok t'" "fr_ok c"
    "(c, sponge_of t') = sponge_sample (sponge_observe (sponge_of t) (from_u64 tag))"
proof -
  obtain u where u: "observe (from_u64 tag) t = (Inr u :: 'e fault + transcript)" "transcript_ok u"
    "sponge_of u = sponge_observe (sponge_of t) (from_u64 tag)"
    using observe_refines [OF assms] from_u64_value by blast
  obtain c v where "sample u = (Inr (c, v) :: 'e fault + _)" "transcript_ok v" "fr_ok c"
    "(c, sponge_of v) = sponge_sample (sponge_of u)"
    using sample_refines [OF u(2)] by blast
  with u that show thesis
    by (simp add: challenge_scalar_def transcript_ok_events)
qed

lemma run_op_refines:
  assumes "transcript_ok t" "op_ok op"
  obtains cs t' where "run_op op t = (Inr (cs, t') :: 'e fault + _)" "transcript_ok t'" "list_all fr_ok cs"
    "(cs, sponge_of t') = sponge_op op (sponge_of t)"
proof (cases op)
  case (Observe x)
  with assms that show thesis
    using observe_refines [of t x, where ?'e = 'e] by (auto simp: sponge_op_def)
next
  case Sample
  obtain c u where u: "sample t = (Inr (c, u) :: 'e fault + _)" "transcript_ok u" "fr_ok c"
    "(c, sponge_of u) = sponge_sample (sponge_of t)"
    using sample_refines [OF assms(1)] by blast
  show thesis
    using u(1-3) by (intro that [of "[c]" u]) (simp_all add: Sample sponge_op_def u(4) [symmetric])
next
  case (AppendScalars tag xs)
  with assms that show thesis
    using append_scalars_refines [of t xs, where ?'e = 'e, of tag] by (auto simp: sponge_op_def)
next
  case (AppendBytes tag bytes)
  with assms that show thesis
    using append_bytes_refines [of t, where ?'e = 'e, of tag bytes] by (auto simp: sponge_op_def)
next
  case (AppendPoints tag points)
  let ?ls = "concat (map point_elements points)"
  have ls: "points_limbs points = (Inr ?ls :: 'e fault + fr list)" "list_all fr_ok ?ls"
    using points_limbs_ok [of points] assms(2) AppendPoints by auto
  obtain u where u: "append_scalars tag ?ls t = (Inr u :: 'e fault + transcript)" "transcript_ok u"
    "sponge_of u = foldl sponge_observe (sponge_of t) (framed tag (length ?ls) ?ls)"
    using append_scalars_refines [OF assms(1) ls(2)] by blast
  show thesis
    by (rule that [of "[]" u]) (simp_all add: AppendPoints sponge_op_def append_g1_points_def Let_def ls u del: bind_res_Inr)
next
  case (ChallengeScalar tag)
  obtain c u where u: "challenge_scalar tag t = (Inr (c, u) :: 'e fault + _)" "transcript_ok u" "fr_ok c"
    "(c, sponge_of u) = sponge_sample (sponge_observe (sponge_of t) (from_u64 tag))"
    using challenge_scalar_refines [OF assms(1)] by blast
  show thesis
    using u(1-3) by (intro that [of "[c]" u]) (simp_all add: ChallengeScalar sponge_op_def u(4) [symmetric])
qed

lemma run_ops_refines:
  assumes "transcript_ok t" "list_all op_ok ops"
  shows "\<exists>cs t'. run_ops ops t = (Inr (cs, t') :: 'e fault + _) \<and> transcript_ok t' \<and> list_all fr_ok cs \<and>
    (cs, sponge_of t') = sponge_ops ops (sponge_of t)"
  using assms
proof (induction ops arbitrary: t)
  case (Cons op ops)
  then obtain cs u where u: "run_op op t = (Inr (cs, u) :: 'e fault + _)" "transcript_ok u" "list_all fr_ok cs"
    "(cs, sponge_of u) = sponge_op op (sponge_of t)"
    using run_op_refines [of t op] by auto
  obtain ds v where "run_ops ops u = (Inr (ds, v) :: 'e fault + _)" "transcript_ok v" "list_all fr_ok ds"
    "(ds, sponge_of v) = sponge_ops ops (sponge_of u)"
    using Cons.IH [OF u(2)] Cons.prems by auto
  with u show ?case
    by (auto simp: u(4) [symmetric] split: prod.splits)
qed simp

section \<open>The absorbed stream\<close>

text \<open>A framed byte message parses back: the length says how many chunks follow.\<close>

lemma chunks_Nil [simp]: "chunks n [] = []"
  by (simp add: chunks.simps)

lemma chunks_Cons: "0 < n \<Longrightarrow> xs \<noteq> [] \<Longrightarrow> chunks n xs = take n xs # chunks n (drop n xs)"
  by (simp add: chunks.simps [of n xs])

lemma bytes_val_inject: "length as = length bs \<Longrightarrow> bytes_val as = bytes_val bs \<Longrightarrow> as = bs"
proof (induction as bs rule: list_induct2)
  case (Cons a as b bs)
  have "unat a < 256" "unat b < 256"
    using unat_less_pow [of a] unat_less_pow [of b] by simp_all
  then have "unat a = unat b" "bytes_val as = bytes_val bs"
    using Cons.prems digit_unique [of "unat a" 256 "unat b"] by simp_all
  with Cons.IH show ?case
    by (simp add: word_unat_eq_iff)
qed simp

lemma chunk_element_inject:
  assumes "length c = length d" "length c \<le> 31" "chunk_element c = chunk_element d"
  shows "c = d"
proof -
  have "bytes_val c = bytes_val d"
    using byte_limb_ok(3) [of c] byte_limb_ok(3) [of d] assms by simp
  with assms(1) show ?thesis
    by (rule bytes_val_inject)
qed

lemma chunk_stream_inject:
  "length as = length bs \<Longrightarrow>
    map chunk_element (chunks 31 as) @ xs = map chunk_element (chunks 31 bs) @ ys \<Longrightarrow> as = bs \<and> xs = ys"
proof (induction "length as" arbitrary: as bs rule: less_induct)
  case less
  show ?case
  proof (cases "as = []")
    case False
    then have "bs \<noteq> []"
      using less.prems(1) by auto
    then have c: "chunk_element (take 31 as) = chunk_element (take 31 bs)"
      "map chunk_element (chunks 31 (drop 31 as)) @ xs = map chunk_element (chunks 31 (drop 31 bs)) @ ys"
      using less.prems(2) False by (simp_all add: chunks_Cons)
    have "take 31 as = take 31 bs"
      using c(1) less.prems(1) by (intro chunk_element_inject) simp_all
    moreover have "length (drop 31 as) < length as"
      using False by simp
    then have "drop 31 as = drop 31 bs \<and> xs = ys"
      by (rule less.hyps [OF _ _ c(2)]) (simp add: less.prems(1))
    ultimately show ?thesis
      by (metis append_take_drop_id)
  qed (use less.prems in simp)
qed

lemma from_u64_inject: "from_u64 x = from_u64 y \<Longrightarrow> x = y"
  using from_u64_value [of x] from_u64_value [of y] by (simp add: word_unat_eq_iff)

lemma byte_message_inject:
  assumes "length as < 2 ^ 64" "length bs < 2 ^ 64" "byte_message s as @ xs = byte_message t bs @ ys"
  shows "s = t \<and> as = bs \<and> xs = ys"
proof -
  have "s = t" "(of_nat (length as) :: u64) = of_nat (length bs)"
    "map chunk_element (chunks 31 as) @ xs = map chunk_element (chunks 31 bs) @ ys"
    using assms(3) by (auto simp: byte_message_def framed_def dest: from_u64_inject)
  moreover from this(2) have "length as = length bs"
    by (rule of_nat_u64_inject [OF assms(1,2)])
  ultimately show ?thesis
    using chunk_stream_inject by blast
qed

section \<open>Properties\<close>

text \<open>C11: Every run of transcript operations on well-typed arguments returns: no buffer is indexed past
  its end, no limb fails to decode. It keeps both buffers canonical, and what it returns and the sponge
  it leaves are those of the abstract sponge, whose buffers are lists.\<close>

theorem transcript_refines_sponge:
  assumes "transcript_ok t" "list_all op_ok ops"
  shows "\<exists>cs t'. run_ops ops t = (Inr (cs, t') :: unit fault + _) \<and> transcript_ok t' \<and> list_all fr_ok cs \<and>
    (cs, sponge_of t') = sponge_ops ops (sponge_of t)"
  using run_ops_refines [OF assms] .

theorem transcript_refines_sponge_witness:
  "\<exists>cs t'. run_ops [AppendBytes 20 [1, 2, 3], AppendPoints 7 [replicate 64 0], ChallengeScalar 9, Sample]
     transcript_new = (Inr (cs, t') :: unit fault + _) \<and> transcript_ok t'"
  using transcript_refines_sponge [of transcript_new
      "[AppendBytes 20 [1, 2, 3], AppendPoints 7 [replicate 64 0], ChallengeScalar 9, Sample]"] transcript_new_ok
  by auto

lemma buffer_determined:
  assumes "buffer_ok b n" "buffer_ok c m" "take n b = take m c"
  shows "b = c \<and> n = m"
proof -
  have n: "n = m"
    using arg_cong [OF assms(3), of length] assms(1,2) by (simp add: buffer_ok_def)
  have "drop n b = drop m c"
    using assms(1,2) n by (intro nth_equalityI) (auto simp: buffer_ok_def list_all_length)
  then show ?thesis
    using assms(3) n by (metis append_take_drop_id)
qed

lemma sponge_of_snapshot:
  "transcript_ok u \<Longrightarrow> transcript_ok v \<Longrightarrow> sponge_of u = sponge_of v \<Longrightarrow> take_snapshot u = take_snapshot v"
  using buffer_determined [of "tr_input u" "tr_input_len u" "tr_input v" "tr_input_len v"]
    buffer_determined [of "tr_output u" "tr_output_len u" "tr_output v" "tr_output_len v"]
  by (simp add: transcript_ok_def sponge_ok_def sponge_of_def take_snapshot_def)

text \<open>C12: A snapshot of any transcript passes the shape check, and the transcript restored from it
  emits, under every later run of operations, the very stream the original would have.\<close>

theorem snapshot_resumes:
  assumes "transcript_ok t" "list_all op_ok ops"
  shows "admit_snapshot (take_snapshot t) = Some (take_snapshot t) \<and>
    transcript_ok (restore (take_snapshot t)) \<and>
    (\<exists>cs u v. run_ops ops t = (Inr (cs, u) :: unit fault + _) \<and>
       run_ops ops (restore (take_snapshot t)) = (Inr (cs, v) :: unit fault + _) \<and> take_snapshot u = take_snapshot v)"
proof -
  have len: "tr_input_len t < 2" "tr_output_len t \<le> 2"
    using assms(1) by (auto simp: transcript_ok_def sponge_ok_def buffer_ok_def)
  then have nat: "unat (of_nat (tr_input_len t) :: u8) = tr_input_len t" "unat (of_nat (tr_output_len t) :: u8) = tr_output_len t"
    by (simp_all add: unsigned_of_nat take_bit_nat_eq_self)
  have r: "restore (take_snapshot t) = t\<lparr>tr_events := []\<rparr>"
    by (simp add: restore_def take_snapshot_def nat)
  then have ok: "transcript_ok (restore (take_snapshot t))" "sponge_of (restore (take_snapshot t)) = sponge_of t"
    using assms(1) by (simp_all add: transcript_ok_events)
  have "admit_snapshot (take_snapshot t) = Some (take_snapshot t)"
    using assms(1) len by (auto simp: admit_snapshot_def take_snapshot_def nat transcript_ok_def sponge_ok_def
        buffer_ok_def list_ex_iff list_all_iff)
  moreover obtain cs u where u: "run_ops ops t = (Inr (cs, u) :: unit fault + _)" "transcript_ok u"
    "(cs, sponge_of u) = sponge_ops ops (sponge_of t)"
    using run_ops_refines [OF assms] by blast
  moreover obtain ds v where v: "run_ops ops (restore (take_snapshot t)) = (Inr (ds, v) :: unit fault + _)"
    "transcript_ok v" "(ds, sponge_of v) = sponge_ops ops (sponge_of t)"
    using run_ops_refines [OF ok(1) assms(2)] ok(2) by metis
  moreover have "cs = ds" "sponge_of u = sponge_of v"
    using u(3) v(3) by (metis prod.inject)+
  moreover have "take_snapshot u = take_snapshot v"
    using sponge_of_snapshot [OF u(2) v(2)] \<open>sponge_of u = sponge_of v\<close> .
  ultimately show ?thesis
    using ok(1) by blast
qed

theorem snapshot_resumes_witness: "admit_snapshot (take_snapshot transcript_new) = Some (take_snapshot transcript_new)"
  using snapshot_resumes [of transcript_new "[]"] transcript_new_ok by simp

text \<open>What \<open>io_digest\<close> absorbs.\<close>

definition io_stream :: "u8 list \<Rightarrow> u8 list \<Rightarrow> fr list" where
  "io_stream i out = byte_message PUBLIC_INPUT_STREAM i @ byte_message PUBLIC_OUTPUT_STREAM out"

text \<open>C13: The public I/O digest is the first element squeezed after one absorbed stream, and that stream
  determines both byte strings: appending a zero byte or swapping the two changes it.\<close>

theorem io_digest_binds:
  assumes "length i < 2 ^ 64" "length out < 2 ^ 64" "length i' < 2 ^ 64" "length out' < 2 ^ 64"
  shows "io_digest i out = (Inr (fst (sponge_sample (foldl sponge_observe sponge_new (io_stream i out)))) :: unit fault + fr) \<and>
    (io_stream i out = io_stream i' out' \<longleftrightarrow> i = i' \<and> out = out')"
proof -
  obtain t where t: "append_bytes PUBLIC_INPUT_STREAM i transcript_new = (Inr t :: unit fault + transcript)" "transcript_ok t"
    "sponge_of t = foldl sponge_observe sponge_new (byte_message PUBLIC_INPUT_STREAM i)"
    using append_bytes_refines [OF transcript_new_ok(1)] transcript_new_ok(2) by metis
  obtain u where u: "append_bytes PUBLIC_OUTPUT_STREAM out t = (Inr u :: unit fault + transcript)" "transcript_ok u"
    "sponge_of u = foldl sponge_observe (sponge_of t) (byte_message PUBLIC_OUTPUT_STREAM out)"
    using append_bytes_refines [OF t(2)] by metis
  obtain d v where "sample u = (Inr (d, v) :: unit fault + _)" "(d, sponge_of v) = sponge_sample (sponge_of u)"
    using sample_refines [OF u(2)] by metis
  then have "io_digest i out = (Inr (fst (sponge_sample (foldl sponge_observe sponge_new (io_stream i out)))) :: unit fault + fr)"
    using t u by (simp add: io_digest_def io_stream_def prod_eq_iff del: bind_res_Inr)
  moreover have "io_stream i out = io_stream i' out' \<longleftrightarrow> i = i' \<and> out = out'"
    using byte_message_inject [OF assms(1,3)] byte_message_inject [OF assms(2,4), of _ "[]" _ "[]"]
    unfolding io_stream_def by (metis append_Nil2)
  ultimately show ?thesis
    by blast
qed

theorem io_digest_binds_witness: "io_stream [1] [] \<noteq> io_stream [1, 0] [] \<and> io_stream [1] [2] \<noteq> io_stream [2] [1]"
  using io_digest_binds [of "[1]" "[]" "[1, 0]" "[]"] io_digest_binds [of "[1]" "[2]" "[2]" "[1]"] by simp

lemma half_limb_less: "length h = 16 \<Longrightarrow> bytes_val h < 2 ^ 128"
  using bytes_val_less [of h] by simp

text \<open>C14: The four limbs of a point determine its 64 bytes: no half of a coordinate is the infinity
  sentinel.\<close>

theorem g1_limbs_inject:
  assumes "length p = 64" "length q = 64"
  shows "(g1_limbs p :: unit fault + fr list) = g1_limbs q \<longleftrightarrow> p = q"
proof
  let ?h = "\<lambda>p :: u8 list. [take 16 p, take 16 (drop 16 p), take 16 (drop 32 p), drop 48 p]"
  let ?z = "\<lambda>p :: u8 list. list_all (\<lambda>b. b = 0) p"
  assume eq: "(g1_limbs p :: unit fault + fr list) = g1_limbs q"
  have joined: "p = concat (?h p)" if "length p = 64" for p
  proof -
    have "drop 16 p = take 16 (drop 16 p) @ take 16 (drop 32 p) @ drop 48 p"
      using append_take_drop_id [of 16 "drop 16 p"] append_take_drop_id [of 16 "drop 32 p"] by simp
    then show ?thesis
      using append_take_drop_id [of 16 p] by simp
  qed
  have halves: "list_all (\<lambda>h. length h = 16) (?h p)" "list_all (\<lambda>h. length h = 16) (?h q)"
    using assms by simp_all
  have "map canon (point_elements p) = map canon (point_elements q)"
    using eq g1_limbs_ok(1) [OF assms(1), where ?'e = unit] g1_limbs_ok(1) [OF assms(2), where ?'e = unit]
    by simp
  then have m: "(if ?z p then replicate 4 (2 ^ 128) else map bytes_val (?h p)) =
      (if ?z q then replicate 4 (2 ^ 128) else map bytes_val (?h q))"
    unfolding g1_limbs_ok(3) [OF assms(1)] g1_limbs_ok(3) [OF assms(2)] .
  have no: "map bytes_val (?h r) \<noteq> replicate 4 (2 ^ 128)" if "list_all (\<lambda>h. length h = 16) (?h r)" for r
  proof
    assume "map bytes_val (?h r) = replicate 4 (2 ^ 128)"
    from arg_cong [OF this, of hd] have "bytes_val (take 16 r) = 2 ^ 128"
      by simp
    then show False
      using half_limb_less [of "take 16 r"] that by simp
  qed
  show "p = q"
  proof (cases "?z p")
    case True
    then have "?z q"
      using m no [OF halves(2)] by (metis (no_types, lifting))
    with True have "p = replicate 64 0" "q = replicate 64 0"
      using assms by (auto simp: list_all_iff intro!: replicate_eqI)
    then show ?thesis
      by simp
  next
    case False
    then have "\<not> ?z q" "map bytes_val (?h p) = map bytes_val (?h q)"
      using m no [OF halves(1)] by (metis (no_types, lifting))+
    then have "?h p = ?h q"
      using halves bytes_val_inject by auto
    then have "concat (?h p) = concat (?h q)"
      by simp
    then show ?thesis
      using joined [OF assms(1)] joined [OF assms(2)] by metis
  qed
qed simp

theorem g1_limbs_inject_witness: "(g1_limbs (replicate 64 0) :: unit fault + fr list) \<noteq> g1_limbs (1 # replicate 63 0)"
  using g1_limbs_inject [of "replicate 64 0" "1 # replicate 63 0"] by (simp add: numeral_eq_Suc)

end
