(* ===== verification/Field_Frames.thy ===== *)
theory Field_Frames
  imports Arith_Frames Transcript
begin

text \<open>
  The delegations over scalar field elements: the Poseidon2 permutation over three canonical lanes
  (\<open>poseidon2_frame\<close>) and one field operation over two operands in memory form (\<open>fr_arith_frame\<close>).
\<close>

unbundle bit_operations_syntax

section \<open>The Poseidon2 frame\<close>

fun poseidon2_lanes :: "u32 \<Rightarrow> u32 list \<Rightarrow> nat list \<Rightarrow> fr list emu" where
  "poseidon2_lanes pc old [] = Inr []"
| "poseidon2_lanes pc old (i # is) =
     bind_res (value_bytes old (poseidon2_WORDS_PER_LANE * i)) (\<lambda>bytes.
     case from_bytes bytes of
       None \<Rightarrow> refuse (DelegationFrame pc ''a lane is not a canonical Fr'')
     | Some x \<Rightarrow> bind_res (poseidon2_lanes pc old is) (\<lambda>xs. Inr (x # xs)))"

fun write_lanes :: "u32 list \<Rightarrow> nat \<Rightarrow> fr list \<Rightarrow> u32 list emu" where
  "write_lanes out i [] = Inr out"
| "write_lanes out i (x # xs) =
     bind_res (write_value out (poseidon2_WORDS_PER_LANE * i) (to_bytes x)) (\<lambda>out. write_lanes out (Suc i) xs)"

definition poseidon2_frame :: "u32 \<Rightarrow> u32 list \<Rightarrow> u32 list emu" where
  "poseidon2_frame pc old =
     bind_res (poseidon2_lanes pc old [0..<poseidon2_WIDTH]) (\<lambda>state.
     bind_res (poseidon2_permute state) (\<lambda>state.
     write_lanes old 0 state))"

section \<open>Values as bytes and words\<close>

lemma unat_byte: "unat (ucast (w :: u32) :: u8) = unat w mod 256"
  unfolding unsigned_ucast_eq take_bit_eq_mod by simp

lemma bytes_val_word: "bytes_val (u32_le_bytes w) = unat w"
proof -
  have b: "unat (ucast (shr w n) :: u8) = unat w div 2 ^ n mod 256" for n
    unfolding unat_byte unat_shr_u32 ..
  have "unat w div 2 ^ 24 < 256"
    using unat_u32_less [of w] by (simp add: div_less_iff_less_mult)
  moreover have "x mod 256 + 256 * (x div 2 ^ 8 mod 256 + 256 * (x div 2 ^ 16 mod 256 + 256 * (x div 2 ^ 24))) = x" for x :: nat
  proof -
    have "x div 2 ^ 8 = x div 256" "x div 2 ^ 16 = x div 256 div 256" "x div 2 ^ 24 = x div 256 div 256 div 256"
      by (simp_all flip: div_mult2_eq)
    then show ?thesis
      by (simp only: mod_mult_div_eq)
  qed
  ultimately show ?thesis
    using b [of 0] b [of 8] b [of 16] b [of 24] by (simp add: u32_le_bytes_def)
qed

lemma bytes_val_words: "bytes_val (concat (map u32_le_bytes ws)) = wval (map ucast ws)"
  by (induction ws) (simp_all add: bytes_val_append bytes_val_word unat_widen u32_le_bytes_def [of "hd _"]
      del: bytes_val.simps, simp_all add: u32_le_bytes_def)

lemma length_words_bytes: "length (concat (map u32_le_bytes ws)) = 4 * length ws"
  by (induction ws) simp_all

lemma narrow_widen: "ucast (ucast (w :: u32) :: u64) = w"
  by (rule bit_word_eqI) (auto simp: bit_simps)

lemma bytes_words_value:
  assumes "length bs = 32"
  shows "bytes_words bs = words8 (bytes_val bs)"
proof -
  obtain b0 b1 b2 b3 b4 b5 b6 b7 b8 b9 b10 b11 b12 b13 b14 b15 b16 b17 b18 b19 b20 b21 b22 b23 b24 b25 b26 b27 b28 b29 b30 b31
    where bs: "bs = [b0, b1, b2, b3, b4, b5, b6, b7, b8, b9, b10, b11, b12, b13, b14, b15, b16, b17, b18, b19, b20, b21, b22,
      b23, b24, b25, b26, b27, b28, b29, b30, b31]"
    using assms by (auto simp: numeral_eq_Suc length_Suc_conv)
  have "concat (map u32_le_bytes (bytes_words bs)) = bs"
    by (simp add: bytes_words_def upt_0_8 word_bytes_le32 bs)
  then have "bytes_val bs = wval (map ucast (bytes_words bs))"
    using bytes_val_words [of "bytes_words bs"] by simp
  moreover have len: "length (bytes_words bs) = 8"
    by (simp add: bytes_words_def)
  moreover have "map ucast (map ucast (bytes_words bs) :: wide) = bytes_words bs"
    unfolding map_map comp_def by (rule map_idI) (rule narrow_widen)
  ultimately show ?thesis
    using words8_wide [OF wide_ok_words [OF len]] by metis
qed

lemma value_bytes_eq:
  "first + 8 \<le> length old \<Longrightarrow>
    value_bytes old first = (Inr (concat (map u32_le_bytes (take 8 (drop first old)))) :: 'e fault + u8 list)"
  by (simp add: value_bytes_def del: bind_res_Inr)

lemma value_bytes_val:
  "bytes_val (concat (map u32_le_bytes (take 8 (drop first old)))) = wide_at old first"
  by (simp add: bytes_val_words wide_at_def)

lemma length_value_bytes:
  "first + 8 \<le> length old \<Longrightarrow> length (concat (map u32_le_bytes (take 8 (drop first old)))) = 32"
  by (simp add: length_words_bytes)

lemma to_bytes_val: "fr_ok x \<Longrightarrow> length (to_bytes x) = 32 \<and> bytes_val (to_bytes x) = canon x"
proof -
  assume x: "fr_ok x"
  have len: "length (from_montgomery (fr_limbs x)) = 4"
    using from_montgomery_ok [OF x] by (simp add: limbs_ok_def)
  then have "length (to_bytes x) = 32" "bytes_limbs (to_bytes x) = from_montgomery (fr_limbs x)"
    by (simp_all add: to_bytes_def length_limbs_bytes bytes_limbs_limbs)
  then show ?thesis
    using bytes_limbs_val [of "to_bytes x"] from_montgomery_canon [OF x] by simp
qed

lemma write_value_eq:
  "length bs = 32 \<Longrightarrow> first + 8 \<le> length frame \<Longrightarrow>
    write_value frame first bs = (Inr (put8 first (bytes_val bs) frame) :: 'e fault + u32 list)"
  by (simp add: write_value_def bytes_words_value put8_def)

lemma from_bytes_frame:
  assumes "first + 8 \<le> length old"
  shows "if wide_at old first < fr_p
    then \<exists>x. from_bytes (concat (map u32_le_bytes (take 8 (drop first old)))) = Some x \<and> fr_ok x \<and> canon x = wide_at old first
    else from_bytes (concat (map u32_le_bytes (take 8 (drop first old)))) = None"
proof -
  let ?b = "concat (map u32_le_bytes (take 8 (drop first old)))"
  have b: "length ?b = 32" "bytes_val ?b = wide_at old first"
    using length_value_bytes [OF assms] value_bytes_val by simp_all
  then have "from_bytes ?b = None" if "\<not> wide_at old first < fr_p"
    using that by (simp add: from_bytes_def is_ge_modulus_val length_bytes_limbs bytes_limbs_val)
  then show ?thesis
    using from_bytes_ok [of ?b] b by auto
qed

lemma poseidon2_frame_value:
  assumes "length old = poseidon2_FRAME_WORDS"
  shows "poseidon2_frame pc old =
    (let vs = map (\<lambda>i. wide_at old (8 * i)) [0..<3] in
     if list_all (\<lambda>v. v < fr_p) vs then Inr (concat (map words8 (poseidon2_reference vs)))
     else refuse (DelegationFrame pc ''a lane is not a canonical Fr''))"
proof -
  have three: "[0..<3] = [0, 1, 2 :: nat]"
    by (simp add: numeral_eq_Suc)
  let ?v = "\<lambda>i. wide_at old (8 * i)"
  have lane: "if ?v i < fr_p
      then \<exists>x. from_bytes (concat (map u32_le_bytes (take 8 (drop (8 * i) old)))) = Some x \<and> fr_ok x \<and> canon x = ?v i
      else from_bytes (concat (map u32_le_bytes (take 8 (drop (8 * i) old)))) = None" if "i < 3" for i
    using that assms by (intro from_bytes_frame) simp
  have bytes: "value_bytes old (8 * i) = (Inr (concat (map u32_le_bytes (take 8 (drop (8 * i) old)))) :: u8 list emu)" if "i < 3" for i
    using that assms by (intro value_bytes_eq) simp
  show ?thesis
  proof (cases "list_all (\<lambda>i. ?v i < fr_p) [0, 1, 2]")
    case False
    then have "poseidon2_lanes pc old [0, 1, 2] = refuse (DelegationFrame pc ''a lane is not a canonical Fr'')"
      using lane [of 0] lane [of 1] lane [of 2] bytes [of 0] bytes [of 1] bytes [of 2]
      by (auto split: if_splits simp del: bind_res_Inr)
    then show ?thesis
      using False by (simp add: poseidon2_frame_def three Let_def del: bind_res_Inr poseidon2_lanes.simps)
  next
    case True
    then obtain x y z where xyz: "poseidon2_lanes pc old [0, 1, 2] = Inr [x, y, z]" "fr_ok x" "fr_ok y" "fr_ok z"
      "canon x = ?v 0" "canon y = ?v 1" "canon z = ?v 2"
      using lane [of 0] lane [of 1] lane [of 2] bytes [of 0] bytes [of 1] bytes [of 2]
      by (auto simp del: bind_res_Inr)
    then have "lanes_ok [x, y, z]"
      by (simp add: lanes_ok_def)
    then obtain t where t: "poseidon2_permute [x, y, z] = (Inr t :: fr list emu)" "lanes_ok t"
        "map canon t = poseidon2_reference [?v 0, ?v 1, ?v 2]"
      using poseidon2_permute_value xyz(5-7) by (metis list.map)
    then obtain a b c where abc: "t = [a, b, c]" "fr_ok a" "fr_ok b" "fr_ok c"
      by (auto elim: lanes_okE)
    have "write_lanes old 0 [a, b, c] = Inr (put8 16 (canon c) (put8 8 (canon b) (put8 0 (canon a) old)))"
      using assms abc(2-4) to_bytes_val by (simp add: write_value_eq del: bind_res_Inr)
    then have "write_lanes old 0 t = Inr (concat (map words8 (map canon t)))"
      using assms by (simp add: abc(1) put8_def del: write_lanes.simps)
    then have "poseidon2_frame pc old = Inr (concat (map words8 (poseidon2_reference [?v 0, ?v 1, ?v 2])))"
      unfolding poseidon2_frame_def three xyz(1) bind_res.simps t(1) t(3) .
    then show ?thesis
      using True by (simp add: three Let_def)
  qed
qed

text \<open>C20: \<open>POSEIDON2\<close> replaces three lanes below \<open>p\<close> by the permutation of their values, and refuses a frame
  with a lane at or above \<open>p\<close>.\<close>

theorem poseidon2_frame_permutes:
  assumes "length old = poseidon2_FRAME_WORDS"
  shows "poseidon2_frame pc old =
    (let vs = map (\<lambda>i. wide_at old (8 * i)) [0..<3] in
     if list_all (\<lambda>v. v < fr_p) vs then Inr (concat (map words8 (poseidon2_reference vs)))
     else refuse (DelegationFrame pc ''a lane is not a canonical Fr''))"
  using assms by (rule poseidon2_frame_value)

theorem poseidon2_frame_permutes_witness:
  "poseidon2_frame 0 (replicate 24 0) = Inr (concat (map words8 (poseidon2_reference [0, 0, 0])))"
proof -
  have zero: "wide_at (replicate 24 0) at = 0" for at
    by (simp only: wide_at_def drop_replicate take_replicate map_replicate unsigned_0 wide_ok_zero(2))
  have "[0..<3] = [0, 1, 2 :: nat]"
    by (simp add: numeral_eq_Suc)
  then show ?thesis
    using poseidon2_frame_permutes [of "replicate 24 0" 0] by (simp add: zero fr_p_pos)
qed

end
