(* ===== verification/Statement.thy ===== *)
theory Statement
  imports Initial_Memory Abi Transcript
begin

text \<open>
  The static shape of a VM and the rules over a statement's windows, of
  \<open>crates/verifier-core/src/statement.rs\<close>: \<open>VmConfig\<close> with its wire form, \<open>window_height\<close>,
  \<open>check_memory_windows\<close>, the statement order of the shards and what the transcript absorbs.
\<close>

unbundle bit_operations_syntax

section \<open>The static shape\<close>

record vm_config =
  vc_families :: "(u32 \<times> u32) list"
  vc_bytecode_size_words :: u32

definition config_height :: "vm_config \<Rightarrow> u32 \<Rightarrow> u32 option" where
  "config_height config family = map_option snd (List.find (\<lambda>(f, _). f = family) (vc_families config))"

definition is_recursion :: "vm_config \<Rightarrow> bool" where
  "is_recursion config \<longleftrightarrow> config_height config family_FIELD_WINDOWS \<noteq> None"

definition config_to_bytes :: "vm_config \<Rightarrow> u8 list" where
  "config_to_bytes config =
     u32_le_bytes (of_nat (length (vc_families config)))
     @ concat (map (\<lambda>(f, h). u32_le_bytes f @ u32_le_bytes h) (vc_families config))
     @ u32_le_bytes (vc_bytecode_size_words config)"

definition window_height :: "vm_config \<Rightarrow> string + u32" where
  "window_height config =
     bind_res
       (case (config_height config family_INIT_TEARDOWN, config_height config family_ZERO_WINDOWS,
              config_height config family_ADVICE_WINDOWS) of
          (Some init, Some zero, Some advice) \<Rightarrow>
            if init = zero \<and> init = advice then Inr init
            else Inl ''INIT_TEARDOWN, ZERO_WINDOWS and ADVICE_WINDOWS have one height''
        | _ \<Rightarrow> Inl ''INIT_TEARDOWN, ZERO_WINDOWS and ADVICE_WINDOWS are in every VmConfig'') (\<lambda>height.
     bind_res
       (case (config_height config family_PUBLIC_INPUT, config_height config family_PUBLIC_OUTPUT) of
          (Some a, Some b) \<Rightarrow>
            if a = PUBLIC_WINDOW_HEIGHT \<and> b = PUBLIC_WINDOW_HEIGHT then Inr ()
            else Inl ''the public value families are at family::PUBLIC_WINDOW_HEIGHT''
        | _ \<Rightarrow> Inl ''PUBLIC_INPUT and PUBLIC_OUTPUT are in every VmConfig'') (\<lambda>_.
     if 4 * unat height < unat PUBLIC_OUTPUT_ORIGIN + unat PUBLIC_WINDOW_BYTES
     then Inl ''the window height puts a public window outside RAM window 0''
     else Inr height))"

text \<open>\<open>from_bytes\<close> reads the words by index; \<open>None\<close> where a word is past the end.\<close>

definition wire_word :: "u8 list \<Rightarrow> nat \<Rightarrow> u32 option" where
  "wire_word bytes i =
     (if 4 * i + 4 \<le> length bytes
      then Some (le32 (bytes ! (4 * i)) (bytes ! (4 * i + 1)) (bytes ! (4 * i + 2)) (bytes ! (4 * i + 3))) else None)"

fun config_families :: "u8 list \<Rightarrow> nat list \<Rightarrow> (u32 \<times> u32) list \<Rightarrow> (u32 \<times> u32) list option" where
  "config_families bytes [] families = Some families"
| "config_families bytes (j # js) families =
     (case (wire_word bytes (1 + 2 * j), wire_word bytes (2 + 2 * j)) of
        (Some f, Some h) \<Rightarrow>
          if f \<ge> family_COUNT \<or> h \<notin> set family_HEIGHT_MENU then None
          else if families \<noteq> [] \<and> fst (last families) \<ge> f then None
          else config_families bytes js (families @ [(f, h)])
      | _ \<Rightarrow> None)"

definition config_from_bytes :: "u8 list \<Rightarrow> vm_config option" where
  "config_from_bytes bytes =
     (case wire_word bytes 0 of
        None \<Rightarrow> None
      | Some k \<Rightarrow>
          if unat k > unat family_COUNT \<or> length bytes \<noteq> 4 * (2 * unat k + 2) then None
          else
            (case (config_families bytes [0..<unat k] [], wire_word bytes (1 + 2 * unat k)) of
               (Some families, Some words) \<Rightarrow>
                 (let config = \<lparr>vc_families = families, vc_bytecode_size_words = words\<rparr> in
                  case window_height config of Inl _ \<Rightarrow> None | Inr _ \<Rightarrow> Some config)
             | _ \<Rightarrow> None))"

section \<open>The windows\<close>

definition advice_first_window :: "u32 \<Rightarrow> 'e fault + u32" where
  "advice_first_window height =
     bind_res (ensure (height \<noteq> 0)) (\<lambda>_. Inr (of_nat (unat ADVICE_ORIGIN div (4 * unat height))))"

text \<open>\<open>position\<close> of a family, then the shard count there.\<close>

fun position :: "('a \<Rightarrow> bool) \<Rightarrow> 'a list \<Rightarrow> nat option" where
  "position P [] = None"
| "position P (x # xs) = (if P x then Some 0 else map_option Suc (position P xs))"

definition shard_count :: "vm_config \<Rightarrow> u32 list \<Rightarrow> u32 \<Rightarrow> 'e fault + u32" where
  "shard_count config shard_counts family =
     (case position (\<lambda>(f, _). f = family) (vc_families config) of None \<Rightarrow> panic | Some i \<Rightarrow> idx shard_counts i)"

definition rule :: "bool \<Rightarrow> string \<Rightarrow> string fault + unit" where
  "rule broken what = (if broken then refuse what else Inr ())"

definition check_memory_windows :: "vm_config \<Rightarrow> u32 list \<Rightarrow> u32 list \<Rightarrow> string fault + unit" where
  "check_memory_windows config shard_counts windows =
     bind_res (ensure (length shard_counts = length (vc_families config))) (\<lambda>_.
     bind_res (case window_height config of Inl e \<Rightarrow> refuse e | Inr h \<Rightarrow> Inr h) (\<lambda>height.
     bind_res (shard_count config shard_counts family_INIT_TEARDOWN) (\<lambda>init.
     bind_res (rule (init \<noteq> 1) ''INIT_TEARDOWN proves exactly one shard'') (\<lambda>_.
     bind_res (shard_count config shard_counts family_ZERO_WINDOWS) (\<lambda>zero.
     bind_res (rule (length windows \<noteq> unat zero) ''the window list has one id per ZERO_WINDOWS shard'') (\<lambda>_.
     bind_res (rule (list_ex (\<lambda>(a, b). a \<ge> b) (zip windows (tl windows)))
       ''the window ids are strictly increasing'') (\<lambda>_.
     bind_res (ensure (height \<noteq> 0)) (\<lambda>_.
     let n = 2 ^ 29 div unat height in
     bind_res (rule (list_ex (\<lambda>w. w = 0 \<or> unat w \<ge> n) windows) ''every window id is in [1, 2^29 / h - 1]'') (\<lambda>_.
     bind_res (shard_count config shard_counts family_PUBLIC_INPUT) (\<lambda>input.
     bind_res (rule (input \<noteq> 1) ''PUBLIC_INPUT proves exactly one shard'') (\<lambda>_.
     bind_res (shard_count config shard_counts family_PUBLIC_OUTPUT) (\<lambda>output.
     bind_res (rule (output \<noteq> 1) ''PUBLIC_OUTPUT proves exactly one shard'') (\<lambda>_.
     bind_res (shard_count config shard_counts family_ADVICE_WINDOWS) (\<lambda>advice.
     bind_res (advice_first_window height) (\<lambda>first.
     bind_res (rule (unat first + unat advice > 2 ^ 30 div unat height)
       ''the advice windows do not fit below the top of the address space'') (\<lambda>_.
     case config_height config family_FIELD_WINDOWS of
       None \<Rightarrow> Inr ()
     | Some h \<Rightarrow>
         bind_res (shard_count config shard_counts family_FIELD_WINDOWS) (\<lambda>field.
         rule (unat field * unat h > 2 ^ 32) ''the field windows do not fit the 2^32 cells'')))))))))))))))))"

definition shard_window :: "u32 \<Rightarrow> u32 \<Rightarrow> u32 list \<Rightarrow> u32 \<Rightarrow> 'e fault + u32 option" where
  "shard_window family index windows trace_vars =
     (if family = family_INIT_TEARDOWN then Inr (Some 0)
      else if family = family_ZERO_WINDOWS then bind_res (idx windows (unat index)) (\<lambda>w. Inr (Some w))
      else if family = family_PUBLIC_INPUT then Inr (Some (PUBLIC_INPUT_ORIGIN div PUBLIC_WINDOW_BYTES))
      else if family = family_PUBLIC_OUTPUT then Inr (Some (PUBLIC_OUTPUT_ORIGIN div PUBLIC_WINDOW_BYTES))
      else if family = family_ADVICE_WINDOWS then
        bind_res (advice_first_window (shl 1 (unat trace_vars))) (\<lambda>first. Inr (Some (first + index)))
      else if family = family_FIELD_WINDOWS then Inr (Some index)
      else Inr None)"

section \<open>The statement order\<close>

definition groups :: "vm_config \<Rightarrow> u32 list \<Rightarrow> (u32 \<times> u32) list" where
  "groups config shard_counts =
     (let pairs = map (\<lambda>((f, _), c). (f, c)) (zip (vc_families config) shard_counts) in
      filter (\<lambda>(f, _). f = family_INIT_TEARDOWN) pairs
      @ filter (\<lambda>(f, _). f = family_ZERO_WINDOWS) pairs
      @ filter (\<lambda>(f, _). f \<noteq> family_INIT_TEARDOWN \<and> f \<noteq> family_ZERO_WINDOWS) pairs)"

definition statement_shards :: "vm_config \<Rightarrow> u32 list \<Rightarrow> 'e fault + (u32 \<times> u32) list" where
  "statement_shards config shard_counts =
     bind_res (ensure (length shard_counts = length (vc_families config))) (\<lambda>_.
       Inr (concat (map (\<lambda>(family, n). map (\<lambda>i. (family, of_nat i)) [0..<unat n]) (groups config shard_counts))))"

section \<open>The descriptor\<close>

abbreviation (input) tags_VM_CONFIG :: u64 where "tags_VM_CONFIG \<equiv> 23"
abbreviation (input) tags_SHARD_COUNTS :: u64 where "tags_SHARD_COUNTS \<equiv> 24"
abbreviation (input) tags_MEMORY_WINDOWS :: u64 where "tags_MEMORY_WINDOWS \<equiv> 30"

definition word_element :: "u32 \<Rightarrow> fr" where
  "word_element w = from_u64 (ucast w)"

definition absorb_vm_config :: "vm_config \<Rightarrow> transcript \<Rightarrow> 'e fault + transcript" where
  "absorb_vm_config config tr =
     append_scalars tags_VM_CONFIG
       (map (word_element \<circ> fst) (vc_families config) @ map (word_element \<circ> snd) (vc_families config)
        @ [word_element (vc_bytecode_size_words config)]) tr"

definition absorb_statement_descriptor ::
    "vm_config \<Rightarrow> u32 list \<Rightarrow> u32 list \<Rightarrow> transcript \<Rightarrow> 'e fault + transcript" where
  "absorb_statement_descriptor config shard_counts windows tr =
     bind_res (ensure (length shard_counts = length (vc_families config))) (\<lambda>_.
     bind_res (absorb_vm_config config tr) (\<lambda>tr.
     bind_res (append_scalars tags_SHARD_COUNTS (map word_element shard_counts) tr) (\<lambda>tr.
     append_scalars tags_MEMORY_WINDOWS (map word_element windows) tr)))"

end
