(* ===== verification/Poly_Backing.thy ===== *)
theory Poly_Backing
  imports Field
begin

text \<open>How a polynomial's table is stored, \<open>PolyBacking\<close> of \<open>crates/poly/src/lib.rs\<close>.\<close>

unbundle bit_operations_syntax

datatype poly_backing = U1 "u64 list" nat | U8 "u8 list" | U16 "u16 list" | U32 "u32 list" | FrB "fr list"

fun entries :: "poly_backing \<Rightarrow> nat" where
  "entries (U1 _ n) = n"
| "entries (U8 v) = length v"
| "entries (U16 v) = length v"
| "entries (U32 v) = length v"
| "entries (FrB v) = length v"

fun backing_entry :: "poly_backing \<Rightarrow> nat \<Rightarrow> 'e fault + fr" where
  "backing_entry (U1 limbs _) i =
     bind_res (idx limbs (i div 64)) (\<lambda>l. Inr (if shr l (i mod 64) AND 1 = 1 then fr_one else fr_zero))"
| "backing_entry (U8 v) i = bind_res (idx v i) (\<lambda>x. Inr (from_u64 (ucast x)))"
| "backing_entry (U16 v) i = bind_res (idx v i) (\<lambda>x. Inr (from_u64 (ucast x)))"
| "backing_entry (U32 v) i = bind_res (idx v i) (\<lambda>x. Inr (from_u64 (ucast x)))"
| "backing_entry (FrB v) i = idx v i"

end
