(* ===== verification/Program.thy ===== *)
theory Program
  imports Isa Poly_Backing Statement
begin

text \<open>
  Preprocessing, \<open>crates/program/src/lib.rs\<close>: the family that claims an instruction, the decoded tables
  of a program image and the \<open>VmConfig\<close> they derive. The identity digests, which commit to the tables
  with the curve library, are not here.
\<close>

unbundle bit_operations_syntax

section \<open>Families\<close>

definition FAMILIES :: "u32 list" where
  "FAMILIES =
     [family_ADD_SUB_LUI_AUIPC, family_JUMP_BRANCH_SLT, family_SHIFT_BITWISE, family_MUL_DIV, family_MEM_WORD,
      family_MEM_SUBWORD, family_ATOMICS, family_INIT_TEARDOWN, family_ZERO_WINDOWS, family_KECCAK_F,
      family_POSEIDON2, family_FR_ARITH, family_PUBLIC_INPUT, family_PUBLIC_OUTPUT, family_ADVICE_WINDOWS,
      family_MOD_MUL, family_SHA256_COMP, family_EC_ADD, family_FIELD_WINDOWS, family_FR_OP, family_P2_FIELD,
      family_FIELD_IO, family_FQ_OP]"

abbreviation (input) DELEGATIONS :: "(u32 \<times> u32 \<times> u8 \<times> nat) list" where
  "DELEGATIONS \<equiv> delegation_TYPES"

definition FIELD_DELEGATIONS :: "u32 list" where
  "FIELD_DELEGATIONS = [family_FR_OP, family_P2_FIELD, family_FIELD_IO, family_FQ_OP]"

definition delegation_family :: "u32 \<Rightarrow> u32 option" where
  "delegation_family number = map_option (\<lambda>(f, _). f) (List.find (\<lambda>(_, n, _). n = number) DELEGATIONS)"

definition delegation_ecall :: "u32 \<Rightarrow> u32 option" where
  "delegation_ecall family = map_option (\<lambda>(_, n, _). n) (List.find (\<lambda>(f, _). f = family) DELEGATIONS)"

definition delegation_space :: "u32 \<Rightarrow> u8 option" where
  "delegation_space family = map_option (\<lambda>(_, _, space, _). space) (List.find (\<lambda>(f, _). f = family) DELEGATIONS)"

definition delegation_frame_words :: "u32 \<Rightarrow> nat option" where
  "delegation_frame_words family = map_option (\<lambda>(_, _, _, w). w) (List.find (\<lambda>(f, _). f = family) DELEGATIONS)"

definition delegation_accesses :: "u32 \<Rightarrow> nat" where
  "delegation_accesses family =
     (if family = family_FR_OP then fr_op_ACCESSES
      else if family = family_P2_FIELD then p2_field_ACCESSES
      else if family = family_FIELD_IO then field_io_ACCESSES
      else if family = family_FQ_OP then fq_op_ACCESSES
      else 0)"

definition claims_pcs :: "u32 \<Rightarrow> 'e fault + bool" where
  "claims_pcs family = idx family_CYCLE_OWNING (unat family)"

section \<open>Row kinds and row fields\<close>

fun row_kind :: "instr \<Rightarrow> u32 \<times> u32" where
  "row_kind Ecall = (family_ADD_SUB_LUI_AUIPC, mask_add_sub_lui_auipc_SYSTEM)"
| "row_kind Ebreak = (family_ADD_SUB_LUI_AUIPC, mask_add_sub_lui_auipc_SYSTEM)"
| "row_kind (Fence _ _ _) = (family_ADD_SUB_LUI_AUIPC, mask_add_sub_lui_auipc_SYSTEM)"
| "row_kind (Addi _ _ _) = (family_ADD_SUB_LUI_AUIPC, mask_add_sub_lui_auipc_ADDI)"
| "row_kind (Auipc _ _) = (family_ADD_SUB_LUI_AUIPC, mask_add_sub_lui_auipc_AUIPC)"
| "row_kind (Add _ _ _) = (family_ADD_SUB_LUI_AUIPC, mask_add_sub_lui_auipc_ADD)"
| "row_kind (Sub _ _ _) = (family_ADD_SUB_LUI_AUIPC, mask_add_sub_lui_auipc_SUB)"
| "row_kind (Lui _ _) = (family_ADD_SUB_LUI_AUIPC, mask_add_sub_lui_auipc_LUI)"
| "row_kind (Slti _ _ _) = (family_JUMP_BRANCH_SLT, mask_jump_branch_slt_SLTI)"
| "row_kind (Sltiu _ _ _) = (family_JUMP_BRANCH_SLT, mask_jump_branch_slt_SLTIU)"
| "row_kind (Slt _ _ _) = (family_JUMP_BRANCH_SLT, mask_jump_branch_slt_SLT)"
| "row_kind (Sltu _ _ _) = (family_JUMP_BRANCH_SLT, mask_jump_branch_slt_SLTU)"
| "row_kind (Beq _ _ _) = (family_JUMP_BRANCH_SLT, mask_jump_branch_slt_BEQ)"
| "row_kind (Bne _ _ _) = (family_JUMP_BRANCH_SLT, mask_jump_branch_slt_BNE)"
| "row_kind (Blt _ _ _) = (family_JUMP_BRANCH_SLT, mask_jump_branch_slt_BLT)"
| "row_kind (Bge _ _ _) = (family_JUMP_BRANCH_SLT, mask_jump_branch_slt_BGE)"
| "row_kind (Bltu _ _ _) = (family_JUMP_BRANCH_SLT, mask_jump_branch_slt_BLTU)"
| "row_kind (Bgeu _ _ _) = (family_JUMP_BRANCH_SLT, mask_jump_branch_slt_BGEU)"
| "row_kind (Jalr _ _ _) = (family_JUMP_BRANCH_SLT, mask_jump_branch_slt_JALR)"
| "row_kind (Jal _ _) = (family_JUMP_BRANCH_SLT, mask_jump_branch_slt_JAL)"
| "row_kind (Slli _ _ _) = (family_SHIFT_BITWISE, mask_shift_bitwise_SLLI)"
| "row_kind (Xori _ _ _) = (family_SHIFT_BITWISE, mask_shift_bitwise_XORI)"
| "row_kind (Srli _ _ _) = (family_SHIFT_BITWISE, mask_shift_bitwise_SRLI)"
| "row_kind (Srai _ _ _) = (family_SHIFT_BITWISE, mask_shift_bitwise_SRAI)"
| "row_kind (Ori _ _ _) = (family_SHIFT_BITWISE, mask_shift_bitwise_ORI)"
| "row_kind (Andi _ _ _) = (family_SHIFT_BITWISE, mask_shift_bitwise_ANDI)"
| "row_kind (Sll _ _ _) = (family_SHIFT_BITWISE, mask_shift_bitwise_SLL)"
| "row_kind (Xor _ _ _) = (family_SHIFT_BITWISE, mask_shift_bitwise_XOR)"
| "row_kind (Srl _ _ _) = (family_SHIFT_BITWISE, mask_shift_bitwise_SRL)"
| "row_kind (Sra _ _ _) = (family_SHIFT_BITWISE, mask_shift_bitwise_SRA)"
| "row_kind (Or _ _ _) = (family_SHIFT_BITWISE, mask_shift_bitwise_OR)"
| "row_kind (And _ _ _) = (family_SHIFT_BITWISE, mask_shift_bitwise_AND)"
| "row_kind (Mul _ _ _) = (family_MUL_DIV, mask_mul_div_MUL)"
| "row_kind (Mulh _ _ _) = (family_MUL_DIV, mask_mul_div_MULH)"
| "row_kind (Mulhsu _ _ _) = (family_MUL_DIV, mask_mul_div_MULHSU)"
| "row_kind (Mulhu _ _ _) = (family_MUL_DIV, mask_mul_div_MULHU)"
| "row_kind (Div _ _ _) = (family_MUL_DIV, mask_mul_div_DIV)"
| "row_kind (Divu _ _ _) = (family_MUL_DIV, mask_mul_div_DIVU)"
| "row_kind (Rem _ _ _) = (family_MUL_DIV, mask_mul_div_REM)"
| "row_kind (Remu _ _ _) = (family_MUL_DIV, mask_mul_div_REMU)"
| "row_kind (Lw _ _ _) = (family_MEM_WORD, mask_mem_word_LW)"
| "row_kind (Sw _ _ _) = (family_MEM_WORD, mask_mem_word_SW)"
| "row_kind (Lb _ _ _) = (family_MEM_SUBWORD, mask_mem_subword_LB)"
| "row_kind (Lh _ _ _) = (family_MEM_SUBWORD, mask_mem_subword_LH)"
| "row_kind (Lbu _ _ _) = (family_MEM_SUBWORD, mask_mem_subword_LBU)"
| "row_kind (Lhu _ _ _) = (family_MEM_SUBWORD, mask_mem_subword_LHU)"
| "row_kind (Sb _ _ _) = (family_MEM_SUBWORD, mask_mem_subword_SB)"
| "row_kind (Sh _ _ _) = (family_MEM_SUBWORD, mask_mem_subword_SH)"
| "row_kind (AmoaddW _ _ _ _ _) = (family_ATOMICS, mask_atomics_AMOADD_W)"
| "row_kind (AmoswapW _ _ _ _ _) = (family_ATOMICS, mask_atomics_AMOSWAP_W)"
| "row_kind (LrW _ _ _ _) = (family_ATOMICS, mask_atomics_LR_W)"
| "row_kind (ScW _ _ _ _ _) = (family_ATOMICS, mask_atomics_SC_W)"
| "row_kind (AmoxorW _ _ _ _ _) = (family_ATOMICS, mask_atomics_AMOXOR_W)"
| "row_kind (AmoorW _ _ _ _ _) = (family_ATOMICS, mask_atomics_AMOOR_W)"
| "row_kind (AmoandW _ _ _ _ _) = (family_ATOMICS, mask_atomics_AMOAND_W)"
| "row_kind (AmominW _ _ _ _ _) = (family_ATOMICS, mask_atomics_AMOMIN_W)"
| "row_kind (AmomaxW _ _ _ _ _) = (family_ATOMICS, mask_atomics_AMOMAX_W)"
| "row_kind (AmominuW _ _ _ _ _) = (family_ATOMICS, mask_atomics_AMOMINU_W)"
| "row_kind (AmomaxuW _ _ _ _ _) = (family_ATOMICS, mask_atomics_AMOMAXU_W)"

datatype (plugins only: code) row_field = FPc | FNextPc | FRs1 | FRs2 | FRd | FImm | FFunct3 | FExtraMask

definition ROW_FIELDS :: "row_field list" where
  "ROW_FIELDS = [FPc, FNextPc, FRs1, FRs2, FRd, FImm, FFunct3, FExtraMask]"

text \<open>The derived order of the fields is their column order.\<close>

fun field_rank :: "row_field \<Rightarrow> nat" where
  "field_rank FPc = 0"
| "field_rank FNextPc = 1"
| "field_rank FRs1 = 2"
| "field_rank FRs2 = 3"
| "field_rank FRd = 4"
| "field_rank FImm = 5"
| "field_rank FFunct3 = 6"
| "field_rank FExtraMask = 7"

definition lookup_tuple :: "u32 \<Rightarrow> 'e fault + row_field list" where
  "lookup_tuple family =
     (if family \<in> set [family_ADD_SUB_LUI_AUIPC, family_JUMP_BRANCH_SLT, family_SHIFT_BITWISE, family_MEM_WORD,
           family_MEM_SUBWORD]
      then Inr [FPc, FNextPc, FRs1, FRs2, FRd, FImm, FExtraMask]
      else if family \<in> set [family_MUL_DIV, family_ATOMICS]
      then Inr [FPc, FNextPc, FRs1, FRs2, FRd, FExtraMask]
      else if family \<in> set [family_INIT_TEARDOWN, family_ZERO_WINDOWS, family_KECCAK_F, family_POSEIDON2,
           family_FR_ARITH, family_MOD_MUL, family_SHA256_COMP, family_EC_ADD, family_PUBLIC_INPUT,
           family_PUBLIC_OUTPUT, family_ADVICE_WINDOWS, family_FIELD_WINDOWS, family_FR_OP, family_P2_FIELD,
           family_FIELD_IO, family_FQ_OP]
      then Inr []
      else panic)"

definition field_mask :: "u32 \<Rightarrow> 'e fault + u8" where
  "field_mask family =
     bind_res (lookup_tuple family) (\<lambda>tuple.
     let (mask, pushed) = foldl (\<lambda>(mask, pushed) (k, field).
           if field \<in> set tuple then (mask OR shl 1 k, Suc pushed) else (mask, pushed))
           (0, 0) (enumerate 0 ROW_FIELDS) in
     bind_res (ensure (pushed = length tuple)) (\<lambda>_.
     bind_res (ensure (list_all (\<lambda>(a, b). field_rank a < field_rank b) (zip tuple (tl tuple)))) (\<lambda>_.
     bind_res (claims_pcs family) (\<lambda>claims.
     bind_res (ensure (\<not> claims \<or> take 2 tuple = [FPc, FNextPc])) (\<lambda>_. Inr mask)))))"

fun system_imm :: "instr \<Rightarrow> u32 option" where
  "system_imm Ecall = Some mask_system_code_ECALL"
| "system_imm Ebreak = Some mask_system_code_EBREAK"
| "system_imm (Fence _ _ _) = Some mask_system_code_FENCE"
| "system_imm _ = None"

definition row_values :: "instr \<Rightarrow> u32 \<Rightarrow> bool \<Rightarrow> u32 list" where
  "row_values instr pc compressed =
     (let (_, kind) = row_kind instr;
          fs = fields_of instr;
          imm = (case system_imm instr of Some code \<Rightarrow> code
                 | None \<Rightarrow> (case f_imm fs of None \<Rightarrow> 0 | Some i \<Rightarrow> i));
          reg = (\<lambda>r. case r of None \<Rightarrow> 0 | Some r \<Rightarrow> ucast (r :: u8)) in
      [pc, pc + (if compressed then 2 else 4), reg (f_rs1 fs), reg (f_rs2 fs), reg (f_rd fs), imm,
       reg (f_funct3 fs), shl 1 (unat kind)])"

section \<open>Parameters\<close>

record program_params =
  pp_bytecode_size_words :: u32
  pp_heights :: "u32 list"
  pp_code_version :: u32

definition params_defaults :: program_params where
  "params_defaults = \<lparr>pp_bytecode_size_words = family_DEFAULT_BYTECODE_SIZE_WORDS,
     pp_heights = family_DEFAULT_HEIGHTS, pp_code_version = family_CODE_VERSION\<rparr>"

datatype program_error =
    UnsupportedCodeVersion u32
  | HeightNotOnMenu u32 u32
  | ProgramTooLarge nat u32
  | NotAllOpcodesSupported u32 u32 string
  | TableTooShort u32 u32 u32
  | ImageOutsideWindow nat u32
  | WindowRule string
  | UnknownDelegation u32 u32

type_synonym 'a prog = "program_error fault + 'a"

section \<open>The decoded tables\<close>

record family_table =
  ft_family :: u32
  ft_height :: u32
  ft_live :: poly_backing
  ft_columns :: "(row_field \<times> poly_backing) list"

record decoded_tables =
  dt_code_version :: u32
  dt_families :: "family_table list"

definition read_backing :: "poly_backing \<Rightarrow> nat \<Rightarrow> 'e fault + u32" where
  "read_backing backing i =
     (case backing of
        U1 limbs _ \<Rightarrow> bind_res (idx limbs (i div 64)) (\<lambda>l. Inr (ucast (shr l (i mod 64) AND 1)))
      | U8 v \<Rightarrow> bind_res (idx v i) (\<lambda>x. Inr (ucast x))
      | U16 v \<Rightarrow> bind_res (idx v i) (\<lambda>x. Inr (ucast x))
      | U32 v \<Rightarrow> idx v i
      | FrB _ \<Rightarrow> panic)"

definition is_live :: "family_table \<Rightarrow> nat \<Rightarrow> 'e fault + bool" where
  "is_live t row =
     (if row < unat (ft_height t) then bind_res (read_backing (ft_live t) row) (\<lambda>b. Inr (b = 1)) else Inr False)"

definition table_get :: "family_table \<Rightarrow> nat \<Rightarrow> nat \<Rightarrow> 'e fault + u32 option" where
  "table_get t column row =
     bind_res (is_live t row) (\<lambda>live.
       if live then bind_res (idx (ft_columns t) column) (\<lambda>(_, values).
         bind_res (read_backing values row) (\<lambda>v. Inr (Some v)))
       else Inr None)"

definition table_of :: "decoded_tables \<Rightarrow> u32 \<Rightarrow> family_table option" where
  "table_of tables family = List.find (\<lambda>t. ft_family t = family) (dt_families tables)"

text \<open>The bits of a column, packed 64 to a limb.\<close>

definition pack_bits :: "u32 list \<Rightarrow> u64 list" where
  "pack_bits values =
     foldl (\<lambda>limbs (i, v). limbs[i div 64 := limbs ! (i div 64) OR shl (ucast v) (i mod 64)])
       (replicate (div_ceil (length values) 64) 0) (enumerate 0 values)"

definition narrowest :: "u32 list \<Rightarrow> poly_backing" where
  "narrowest values =
     (let m = fold max values 0 in
      if m \<le> 1 then U1 (pack_bits values) (length values)
      else if m \<le> 0xff then U8 (map ucast values)
      else if m \<le> 0xffff then U16 (map ucast values)
      else U32 values)"

section \<open>Declarations\<close>

fun scan_markers :: "u32 \<Rightarrow> u8 list \<Rightarrow> nat list \<Rightarrow> u32 list \<Rightarrow> u32 list prog" where
  "scan_markers vaddr bytes [] found = Inr found"
| "scan_markers vaddr bytes (at # ats) found =
     (let n = length delegation_MARKER_MAGIC in
      bind_res (slice bytes at (at + n)) (\<lambda>marker.
      if marker \<noteq> delegation_MARKER_MAGIC then scan_markers vaddr bytes ats found
      else
        bind_res (u32le bytes (at + n)) (\<lambda>number.
        case delegation_family number of
          None \<Rightarrow> refuse (UnknownDelegation (vaddr + of_nat at) number)
        | Some family \<Rightarrow>
            scan_markers vaddr bytes ats (if family \<in> set found then found else found @ [family]))))"

fun scan_segments :: "segment list \<Rightarrow> u32 list \<Rightarrow> u32 list prog" where
  "scan_segments [] found = Inr found"
| "scan_segments (s # ss) found =
     bind_res (scan_markers (seg_vaddr s) (seg_bytes s) [0..<length (seg_bytes s) - (delegation_MARKER_BYTES - 1)] found)
       (\<lambda>found. scan_segments ss found)"

definition declared_delegations :: "program_image \<Rightarrow> u32 list prog" where
  "declared_delegations im =
     bind_res (scan_segments (sort_key seg_vaddr (filter (\<lambda>s. seg_bytes s \<noteq> []) (image_segments im))) [])
       (\<lambda>found. Inr (sort found))"

section \<open>Derivation\<close>

definition height_of :: "u32 \<Rightarrow> program_params \<Rightarrow> 'e fault + u32" where
  "height_of family params =
     (if family = family_PUBLIC_INPUT \<or> family = family_PUBLIC_OUTPUT then Inr PUBLIC_WINDOW_HEIGHT
      else idx (pp_heights params) (unat family))"

definition file_bytes_end :: "program_image \<Rightarrow> nat option" where
  "file_bytes_end im =
     (case map (\<lambda>s. unat (seg_vaddr s) + length (seg_bytes s)) (filter (\<lambda>s. seg_bytes s \<noteq> []) (image_segments im)) of
        [] \<Rightarrow> None
      | e # es \<Rightarrow> Some (fold max es e))"

fun check_heights :: "program_params \<Rightarrow> u32 list \<Rightarrow> unit prog" where
  "check_heights params [] = Inr ()"
| "check_heights params (family # families) =
     bind_res (height_of family params) (\<lambda>height.
     if height \<notin> set family_HEIGHT_MENU then refuse (HeightNotOnMenu family height)
     else check_heights params families)"

type_synonym claims = "(nat \<times> u32 list) list list"

fun claim_slots :: "u32 \<Rightarrow> u32 list \<Rightarrow> (nat \<times> slot) list \<Rightarrow> claims \<Rightarrow> claims prog" where
  "claim_slots slot_base detached [] claims = Inr claims"
| "claim_slots slot_base detached ((i, slot) # slots) claims =
     (case slot of
        Instruction word compressed \<Rightarrow>
          (let pc = slot_base + 2 * of_nat i in
           case decode word of
             Inl e \<Rightarrow> refuse (NotAllOpcodesSupported pc word (err_reason e))
           | Inr instr \<Rightarrow>
               (let (family, _) = row_kind instr in
                if family \<in> set detached then
                  refuse (NotAllOpcodesSupported pc word ''the family that owns this instruction is detached'')
                else
                  bind_res (idx claims (unat family)) (\<lambda>rows.
                  bind_res (set_at claims (unat family) (rows @ [(unat pc div 2, row_values instr pc compressed)])) (\<lambda>claims.
                  claim_slots slot_base detached slots claims))))
      | _ \<Rightarrow> claim_slots slot_base detached slots claims)"

fun set_rows :: "('a \<Rightarrow> 'e fault + u32) \<Rightarrow> (nat \<times> 'a) list \<Rightarrow> u32 list \<Rightarrow> 'e fault + u32 list" where
  "set_rows f [] values = Inr values"
| "set_rows f ((row, x) # rows) values =
     bind_res (f x) (\<lambda>v. bind_res (set_at values row v) (\<lambda>values. set_rows f rows values))"

fun build_columns :: "u32 \<Rightarrow> (nat \<times> u32 list) list \<Rightarrow> u8 \<Rightarrow> (nat \<times> row_field) list \<Rightarrow>
    (row_field \<times> poly_backing) list prog" where
  "build_columns height rows fmask [] = Inr []"
| "build_columns height rows fmask ((k, field) # ks) =
     (if fmask AND shl 1 k \<noteq> 0 then
        bind_res (set_rows (\<lambda>vs. idx vs k) rows (replicate (unat height) 0)) (\<lambda>values.
        bind_res (build_columns height rows fmask ks) (\<lambda>columns. Inr ((field, narrowest values) # columns)))
      else build_columns height rows fmask ks)"

definition build_table :: "u32 \<Rightarrow> u32 \<Rightarrow> (nat \<times> u32 list) list \<Rightarrow> family_table prog" where
  "build_table family height rows =
     bind_res (set_rows (\<lambda>_. Inr 1) rows (replicate (unat height) 0)) (\<lambda>live.
     bind_res (field_mask family) (\<lambda>fmask.
     bind_res (build_columns height rows fmask (enumerate 0 ROW_FIELDS)) (\<lambda>columns.
       Inr \<lparr>ft_family = family, ft_height = height, ft_live = narrowest live, ft_columns = columns\<rparr>)))"

definition always_present :: "u32 list \<Rightarrow> u32 list \<Rightarrow> u32 \<Rightarrow> bool" where
  "always_present declared detached family \<longleftrightarrow>
     (let field = (family = family_FIELD_WINDOWS \<and> list_ex (\<lambda>f. f \<in> set FIELD_DELEGATIONS) declared) in
      (family = family_INIT_TEARDOWN \<or> family = family_ZERO_WINDOWS \<or> family = family_ADVICE_WINDOWS \<or>
       family = family_PUBLIC_INPUT \<or> family = family_PUBLIC_OUTPUT \<or> field \<or> family \<in> set declared) \<and>
      family \<notin> set detached)"

fun build_tables :: "program_params \<Rightarrow> u32 list \<Rightarrow> u32 list \<Rightarrow> claims \<Rightarrow> u32 list \<Rightarrow>
    ((u32 \<times> u32) list \<times> family_table list) prog" where
  "build_tables params declared detached claims [] = Inr ([], [])"
| "build_tables params declared detached claims (family # families) =
     bind_res (idx claims (unat family)) (\<lambda>rows.
     if rows = [] \<and> \<not> always_present declared detached family
     then build_tables params declared detached claims families
     else
       bind_res (height_of family params) (\<lambda>height.
       bind_res
         (if rows = [] then Inr ()
          else if fst (last rows) + 1 \<ge> unat height
          then bind_res (idx (snd (last rows)) 0) (\<lambda>pc. refuse (TableTooShort family pc height))
          else Inr ()) (\<lambda>_.
       bind_res (build_table family height rows) (\<lambda>table.
       bind_res (build_tables params declared detached claims families) (\<lambda>(fs, ts).
         Inr ((family, height) # fs, table # ts))))))"

section \<open>The partition assertion\<close>

fun owners_of :: "nat \<Rightarrow> family_table list \<Rightarrow> 'e fault + family_table list" where
  "owners_of row [] = Inr []"
| "owners_of row (t # ts) =
     bind_res (is_live t row) (\<lambda>live. bind_res (owners_of row ts) (\<lambda>os. Inr (if live then t # os else os)))"

fun count_live :: "family_table \<Rightarrow> nat list \<Rightarrow> 'e fault + nat" where
  "count_live t [] = Inr 0"
| "count_live t (row # rows) =
     bind_res (is_live t row) (\<lambda>live. bind_res (count_live t rows) (\<lambda>n. Inr (if live then Suc n else n)))"

fun count_all_live :: "family_table list \<Rightarrow> 'e fault + nat" where
  "count_all_live [] = Inr 0"
| "count_all_live (t # ts) =
     bind_res (count_live t [0..<unat (ft_height t)]) (\<lambda>n. bind_res (count_all_live ts) (\<lambda>m. Inr (n + m)))"

fun check_slots :: "u32 \<Rightarrow> family_table list \<Rightarrow> (nat \<times> slot) list \<Rightarrow> nat \<Rightarrow> 'e fault + nat" where
  "check_slots slot_base tables [] instructions = Inr instructions"
| "check_slots slot_base tables ((i, slot) # slots) instructions =
     (case slot of
        Instruction _ _ \<Rightarrow>
          (let row = unat (slot_base div 2) + i in
           bind_res (owners_of row tables) (\<lambda>owners.
           bind_res (ensure (length owners = 1)) (\<lambda>_.
           bind_res (table_get (hd owners) 0 row) (\<lambda>v.
           bind_res (ensure (v = Some (2 * of_nat row))) (\<lambda>_.
             check_slots slot_base tables slots (Suc instructions))))))
      | _ \<Rightarrow> check_slots slot_base tables slots instructions)"

definition check_partition :: "program_image \<Rightarrow> decoded_tables \<Rightarrow> 'e fault + unit" where
  "check_partition im tables =
     bind_res (check_slots (image_slot_base im) (dt_families tables) (enumerate 0 (image_slots im)) 0) (\<lambda>instructions.
     bind_res (count_all_live (dt_families tables)) (\<lambda>live.
     ensure (live = instructions)))"

definition decode_program_detaching ::
    "program_image \<Rightarrow> program_params \<Rightarrow> u32 list \<Rightarrow> (decoded_tables \<times> vm_config) prog" where
  "decode_program_detaching im params detached =
     (if pp_code_version params \<noteq> family_CODE_VERSION then refuse (UnsupportedCodeVersion (pp_code_version params))
      else
        bind_res (check_heights params FAMILIES) (\<lambda>_.
        let image_end = (case file_bytes_end im of None \<Rightarrow> unat RAM_ORIGIN | Some e \<Rightarrow> e);
            words = div_ceil (image_end - unat RAM_ORIGIN) 4 in
        if words > unat (pp_bytecode_size_words params)
        then refuse (ProgramTooLarge words (pp_bytecode_size_words params))
        else
          bind_res (claim_slots (image_slot_base im) detached (enumerate 0 (image_slots im))
            (replicate (unat family_COUNT) [])) (\<lambda>claims.
          bind_res (declared_delegations im) (\<lambda>declared.
          bind_res (build_tables params declared detached claims FAMILIES) (\<lambda>(families, ts).
          let config = \<lparr>vc_families = families, vc_bytecode_size_words = pp_bytecode_size_words params\<rparr>;
              tables = \<lparr>dt_code_version = pp_code_version params, dt_families = ts\<rparr> in
          bind_res (case window_height config of Inl r \<Rightarrow> refuse (WindowRule r) | Inr h \<Rightarrow> Inr h) (\<lambda>height.
          bind_res
            (case file_bytes_end im of
               None \<Rightarrow> Inr ()
             | Some e \<Rightarrow> if e > 4 * unat height then refuse (ImageOutsideWindow e height) else Inr ()) (\<lambda>_.
          bind_res (check_partition im tables) (\<lambda>_. Inr (tables, config)))))))))"

definition decode_program :: "program_image \<Rightarrow> program_params \<Rightarrow> (decoded_tables \<times> vm_config) prog" where
  "decode_program im params = decode_program_detaching im params []"

end
