(* ===== verification/Family_Trace.thy ===== *)
theory Family_Trace
  imports Program Memory_Log
begin

text \<open>
  The per-family trace buffers of \<open>crates/trace/src/family.rs\<close>, column-major, with \<open>push\<close> and the rows
  gathered back; the cycle profile and the shard plan of \<open>crates/trace/src/lib.rs\<close>.
\<close>

unbundle bit_operations_syntax

section \<open>Roles and rows\<close>

datatype (plugins only: code) role = RoleRs1 | RoleRs2 | RoleLoad | RoleRam | RoleRd | RoleDelegate

definition ROLES :: "role list" where
  "ROLES = [RoleRs1, RoleRs2, RoleLoad, RoleRam, RoleRd, RoleDelegate]"

text \<open>\<open>role as usize\<close>.\<close>

fun role_index :: "role \<Rightarrow> nat" where
  "role_index RoleRs1 = 0"
| "role_index RoleRs2 = 1"
| "role_index RoleLoad = 2"
| "role_index RoleRam = 3"
| "role_index RoleRd = 4"
| "role_index RoleDelegate = 5"

fun role_delta :: "role \<Rightarrow> u64" where
  "role_delta RoleRs1 = 1"
| "role_delta RoleRs2 = 2"
| "role_delta RoleLoad = 2"
| "role_delta RoleRam = 3"
| "role_delta RoleRd = 3"
| "role_delta RoleDelegate = 3"

fun role_space :: "role \<Rightarrow> address_space option \<Rightarrow> 'e fault + address_space" where
  "role_space RoleLoad delegation = Inr Ram"
| "role_space RoleRam delegation = Inr Ram"
| "role_space RoleDelegate delegation = (case delegation of None \<Rightarrow> panic | Some s \<Rightarrow> Inr s)"
| "role_space RoleRs1 delegation = Inr Reg"
| "role_space RoleRs2 delegation = Inr Reg"
| "role_space RoleRd delegation = Inr Reg"

record query =
  q_addr :: u32
  q_read_ts :: u64
  q_read_value :: u32
  q_write_value :: u32

definition ABSENT :: query where
  "ABSENT = \<lparr>q_addr = 0, q_read_ts = 0, q_read_value = 0, q_write_value = 0\<rparr>"

record row =
  row_cycle :: u64
  row_pc :: u32
  row_next_pc :: u32
  row_present :: u8
  row_queries :: "query list"

definition row_query :: "row \<Rightarrow> role \<Rightarrow> query option" where
  "row_query r role =
     (if row_present r AND shl 1 (role_index role) \<noteq> 0 then Some (row_queries r ! role_index role) else None)"

definition row_delegation_space :: "row \<Rightarrow> 'e fault + address_space option" where
  "row_delegation_space r =
     (case row_query r RoleDelegate of
        None \<Rightarrow> Inr None
      | Some _ \<Rightarrow>
          (case row_query r RoleRs1 of
             None \<Rightarrow> panic
           | Some a7 \<Rightarrow>
               (case delegation_family (q_read_value a7) of
                  None \<Rightarrow> panic
                | Some family \<Rightarrow> Inr (case delegation_space family of None \<Rightarrow> None | Some t \<Rightarrow> from_tag t))))"

section \<open>Family buffers\<close>

record query_columns =
  qc_addr :: "u32 list"
  qc_read_ts :: "u64 list"
  qc_read_value :: "u32 list"
  qc_write_value :: "u32 list"

definition columns_empty :: query_columns where
  "columns_empty = \<lparr>qc_addr = [], qc_read_ts = [], qc_read_value = [], qc_write_value = []\<rparr>"

definition columns_push :: "query_columns \<Rightarrow> query \<Rightarrow> query_columns" where
  "columns_push c q = \<lparr>qc_addr = qc_addr c @ [q_addr q], qc_read_ts = qc_read_ts c @ [q_read_ts q],
     qc_read_value = qc_read_value c @ [q_read_value q], qc_write_value = qc_write_value c @ [q_write_value q]\<rparr>"

definition columns_get :: "query_columns \<Rightarrow> nat \<Rightarrow> 'e fault + query" where
  "columns_get c i =
     bind_res (idx (qc_addr c) i) (\<lambda>addr. bind_res (idx (qc_read_ts c) i) (\<lambda>read_ts.
     bind_res (idx (qc_read_value c) i) (\<lambda>read_value. bind_res (idx (qc_write_value c) i) (\<lambda>write_value.
       Inr \<lparr>q_addr = addr, q_read_ts = read_ts, q_read_value = read_value, q_write_value = write_value\<rparr>))))"

record family_trace =
  tr_family :: u32
  tr_height :: u32
  tr_cycle :: "u64 list"
  tr_pc :: "u32 list"
  tr_next_pc :: "u32 list"
  tr_present :: "u8 list"
  tr_queries :: "query_columns list"

definition trace_new :: "u32 \<Rightarrow> u32 \<Rightarrow> family_trace" where
  "trace_new family height = \<lparr>tr_family = family, tr_height = height, tr_cycle = [], tr_pc = [], tr_next_pc = [],
     tr_present = [], tr_queries = replicate 8 columns_empty\<rparr>"

definition trace_len :: "family_trace \<Rightarrow> nat" where
  "trace_len t = length (tr_cycle t)"

definition trace_push :: "family_trace \<Rightarrow> row \<Rightarrow> family_trace" where
  "trace_push t r = t\<lparr>tr_cycle := tr_cycle t @ [row_cycle r], tr_pc := tr_pc t @ [row_pc r],
     tr_next_pc := tr_next_pc t @ [row_next_pc r], tr_present := tr_present t @ [row_present r],
     tr_queries := map2 columns_push (tr_queries t) (row_queries r)\<rparr>"

fun query_all :: "query_columns list \<Rightarrow> nat \<Rightarrow> 'e fault + query list" where
  "query_all [] i = Inr []"
| "query_all (c # cs) i = bind_res (columns_get c i) (\<lambda>q. bind_res (query_all cs i) (\<lambda>qs. Inr (q # qs)))"

definition trace_row :: "family_trace \<Rightarrow> nat \<Rightarrow> 'e fault + row" where
  "trace_row t i =
     bind_res (query_all (tr_queries t) i) (\<lambda>queries.
     bind_res (idx (tr_cycle t) i) (\<lambda>cycle. bind_res (idx (tr_pc t) i) (\<lambda>pc.
     bind_res (idx (tr_next_pc t) i) (\<lambda>next_pc. bind_res (idx (tr_present t) i) (\<lambda>present.
       Inr \<lparr>row_cycle = cycle, row_pc = pc, row_next_pc = next_pc, row_present = present,
            row_queries = queries\<rparr>)))))"

section \<open>Delegation buffers\<close>

record access =
  ac_addr :: u32
  ac_read_ts :: u64
  ac_read :: fr
  ac_write :: fr

record access_columns =
  acc_live :: "bool list"
  acc_addr :: "u32 list"
  acc_read_ts :: "u64 list"
  acc_read :: "fr list"
  acc_write :: "fr list"

definition access_push :: "access_columns \<Rightarrow> access option \<Rightarrow> access_columns" where
  "access_push c a =
     (let v = (case a of None \<Rightarrow> \<lparr>ac_addr = 0, ac_read_ts = 0, ac_read = fr_zero, ac_write = fr_zero\<rparr> | Some v \<Rightarrow> v) in
      \<lparr>acc_live = acc_live c @ [a \<noteq> None], acc_addr = acc_addr c @ [ac_addr v],
       acc_read_ts = acc_read_ts c @ [ac_read_ts v], acc_read = acc_read c @ [ac_read v],
       acc_write = acc_write c @ [ac_write v]\<rparr>)"

record delegation_trace =
  dg_family :: u32
  dg_height :: u32
  dg_cycle :: "u64 list"
  dg_base :: "u32 list"
  dg_words :: "query_columns list"
  dg_accesses :: "access_columns list"

definition delegation_new :: "u32 \<Rightarrow> u32 \<Rightarrow> nat \<Rightarrow> delegation_trace" where
  "delegation_new family height width = \<lparr>dg_family = family, dg_height = height, dg_cycle = [], dg_base = [],
     dg_words = replicate width columns_empty,
     dg_accesses = replicate (delegation_accesses family)
       \<lparr>acc_live = [], acc_addr = [], acc_read_ts = [], acc_read = [], acc_write = []\<rparr>\<rparr>"

definition delegation_len :: "delegation_trace \<Rightarrow> nat" where
  "delegation_len t = length (dg_cycle t)"

definition delegation_push ::
    "delegation_trace \<Rightarrow> u64 \<Rightarrow> u32 \<Rightarrow> query list \<Rightarrow> access option list \<Rightarrow> 'e fault + delegation_trace" where
  "delegation_push t cycle base words accesses =
     bind_res (ensure (length accesses = length (dg_accesses t))) (\<lambda>_.
     bind_res (ensure (length words = length (dg_words t))) (\<lambda>_.
       Inr (t\<lparr>dg_accesses := map2 access_push (dg_accesses t) accesses, dg_cycle := dg_cycle t @ [cycle],
              dg_base := dg_base t @ [base], dg_words := map2 columns_push (dg_words t) words\<rparr>)))"

definition delegation_frame_at :: "delegation_trace \<Rightarrow> nat \<Rightarrow> 'e fault + query list" where
  "delegation_frame_at t i = query_all (dg_words t) i"

section \<open>Every buffer of an execution\<close>

record family_traces =
  fts_families :: "family_trace list"
  fts_delegations :: "delegation_trace list"

definition traces_family :: "family_traces \<Rightarrow> u32 \<Rightarrow> family_trace option" where
  "traces_family ts family = List.find (\<lambda>t. tr_family t = family) (fts_families ts)"

definition traces_delegation :: "family_traces \<Rightarrow> u32 \<Rightarrow> delegation_trace option" where
  "traces_delegation ts family = List.find (\<lambda>t. dg_family t = family) (fts_delegations ts)"

definition row_counts :: "family_traces \<Rightarrow> (u32 \<times> u64) list" where
  "row_counts ts = sort_key fst
     (map (\<lambda>t. (tr_family t, of_nat (trace_len t))) (fts_families ts)
      @ map (\<lambda>t. (dg_family t, of_nat (delegation_len t))) (fts_delegations ts))"

section \<open>Shards\<close>

text \<open>\<open>RowSlice::shard\<close>: the start and length of shard \<open>index\<close> of \<open>len\<close> rows.\<close>

definition shard_cut :: "nat \<Rightarrow> u32 \<Rightarrow> nat \<Rightarrow> nat \<times> nat" where
  "shard_cut len index height =
     (let start = min (unat index * height) len in (start, min (start + height) len - start))"

definition slice_row :: "family_trace \<Rightarrow> nat \<times> nat \<Rightarrow> nat \<Rightarrow> 'e fault + row" where
  "slice_row t bounds i = bind_res (ensure (i < snd bounds)) (\<lambda>_. trace_row t (fst bounds + i))"

definition slice_cycles :: "family_trace \<Rightarrow> nat \<times> nat \<Rightarrow> 'e fault + u64 list" where
  "slice_cycles t bounds = slice (tr_cycle t) (fst bounds) (fst bounds + snd bounds)"

fun profile_total :: "(u32 \<times> u64) list \<Rightarrow> 'e fault + u64" where
  "profile_total [] = Inr 0"
| "profile_total ((f, n) # counts) =
     bind_res (claims_pcs f) (\<lambda>claims. bind_res (profile_total counts) (\<lambda>total. Inr (if claims then n + total else total)))"

definition shards_of :: "(u32 \<times> u64) \<times> (u32 \<times> u32) \<Rightarrow> 'e fault + (u32 \<times> u32)" where
  "shards_of = (\<lambda>((family, n), (_, height)).
     bind_res (ensure (height \<noteq> 0)) (\<lambda>_.
     let k = div_ceil (unat n) (unat height) in
     if k < 2 ^ 32 then Inr (family, of_nat k) else panic))"

definition plan_shards :: "(u32 \<times> u64) list \<Rightarrow> vm_config \<Rightarrow> 'e fault + (u32 \<times> u32) list" where
  "plan_shards counts config =
     bind_res (ensure (map fst counts = map fst (vc_families config))) (\<lambda>_.
       map_res shards_of (zip counts (vc_families config)))"

definition init_windows :: "memory_state \<Rightarrow> u32 \<Rightarrow> 'e fault + u32 list" where
  "init_windows st height = bind_res (touched_ram_windows st height) (\<lambda>ws. Inr (filter (\<lambda>w. w \<noteq> 0) ws))"

end
