(* ===== verification/Cells.thy ===== *)
theory Cells
  imports Frames Poseidon
begin

text \<open>
  The field memory of the recursion families and the three operations that touch nothing else:
  \<open>cell\<close>, \<open>fr_op\<close>, \<open>p2_field\<close> and \<open>fq_op\<close> of \<open>crates/emulator/src/lib.rs\<close>, with the accesses each
  reports (\<open>Extra\<close>).
\<close>

unbundle bit_operations_syntax

section \<open>Cells and accesses\<close>

type_synonym cells = "u32 \<Rightarrow> fr option"

datatype extra =
    Cell (x_cell: u32) (x_delta: u64) (x_old: fr) (x_new: fr)
  | Word (w_addr: u32) (w_old: u32) (w_new: u32)

definition cell_at :: "cells \<Rightarrow> u32 \<Rightarrow> fr" where
  "cell_at field cell = (case field cell of None \<Rightarrow> fr_zero | Some x \<Rightarrow> x)"

section \<open>FR_OP\<close>

text \<open>What an op reads of \<open>a\<close> and \<open>b\<close>, and the value it writes to \<open>d\<close>, if any.\<close>

definition fr_op_value :: "u32 \<Rightarrow> u32 \<Rightarrow> fr \<Rightarrow> fr \<Rightarrow> fr \<Rightarrow> fr \<Rightarrow> (bool \<times> bool \<times> fr option) emu" where
  "fr_op_value pc op a b d imm =
     (if op = fr_op_MUL then Inr (True, True, Some (fr_mul a b))
      else if op = fr_op_ADD then Inr (True, True, Some (fr_add a b))
      else if op = fr_op_SUB then Inr (True, True, Some (fr_sub a b))
      else if op = fr_op_MAC then Inr (True, True, Some (fr_add d (fr_mul a b)))
      else if op = fr_op_INV then Inr (True, False, Some (case fr_inverse a of None \<Rightarrow> fr_zero | Some x \<Rightarrow> x))
      else if op = fr_op_EQ then
        (if a = b then Inr (True, True, None)
         else refuse (DelegationFrame pc ''EQ's two cells hold different values''))
      else if op = fr_op_IMM then Inr (False, False, Some imm)
      else if op = fr_op_SHL then Inr (True, False, Some (fr_add (fr_mul a (from_u64 (shl 1 32))) imm))
      else refuse (DelegationFrame pc ''the op is not one FR_OP answers''))"

text \<open>\<open>DIGIT\<close> writes \<open>b\<close> before it reads and writes \<open>d\<close>.\<close>

definition fr_op_digit :: "u32 \<Rightarrow> u32 \<Rightarrow> u32 \<Rightarrow> cells \<Rightarrow> 'e fault + (extra option list \<times> cells)" where
  "fr_op_digit dc ac bc field =
     (let a = cell_at field ac; b = cell_at field bc in
      bind_res (idx (to_bytes a) 0) (\<lambda>low.
      let digit = from_u64 (ucast low AND (shl 1 (unat fr_op_DIGIT_BITS) - 1)) in
      case fr_inverse (from_u64 (shl 1 (unat fr_op_DIGIT_BITS))) of
        None \<Rightarrow> panic
      | Some unit \<Rightarrow>
          (let rest = fr_mul (fr_sub a digit) unit;
               field' = field(bc \<mapsto> rest);
               d = cell_at field' dc in
           Inr ([Some (Cell ac fr_op_DELTA_A a a), Some (Cell bc fr_op_DELTA_B b rest),
                 Some (Cell dc fr_op_DELTA_D d digit)], field'(dc \<mapsto> digit)))))"

definition fr_op :: "u32 \<Rightarrow> u32 list \<Rightarrow> cells \<Rightarrow> (extra option list \<times> cells) emu" where
  "fr_op pc frame field =
     bind_res (idx frame fr_op_OP_WORD) (\<lambda>op. bind_res (idx frame fr_op_D_WORD) (\<lambda>dc.
     bind_res (idx frame fr_op_A_WORD) (\<lambda>ac. bind_res (idx frame fr_op_B_WORD) (\<lambda>bc.
     if op = fr_op_DIGIT then fr_op_digit dc ac bc field
     else
       (let a = cell_at field ac; b = cell_at field bc; d = cell_at field dc in
        bind_res (fr_op_value pc op a b d (from_u64 (ucast bc))) (\<lambda>(reads_a, reads_b, new).
          Inr ([if reads_a then Some (Cell ac fr_op_DELTA_A a a) else None,
                if reads_b then Some (Cell bc fr_op_DELTA_B b b) else None,
                map_option (\<lambda>v. Cell dc fr_op_DELTA_D d v) new],
               case new of None \<Rightarrow> field | Some v \<Rightarrow> field(dc \<mapsto> v))))))))"

section \<open>P2_FIELD\<close>

text \<open>The next state's lanes, each reported with what its cell held.\<close>

fun put_lanes :: "u32 \<Rightarrow> fr list \<Rightarrow> cells \<Rightarrow> extra option list \<times> cells" where
  "put_lanes cell [] field = ([], field)"
| "put_lanes cell (lane # lanes) field =
     (let (out, field') = put_lanes (cell + 1) lanes (field(cell \<mapsto> lane)) in
      (Some (Cell cell p2_field_DELTA_NEXT (cell_at field cell) lane) # out, field'))"

definition p2_field :: "u32 \<Rightarrow> u32 list \<Rightarrow> cells \<Rightarrow> (extra option list \<times> cells) emu" where
  "p2_field pc frame field =
     bind_res (idx frame p2_field_N_WORD) (\<lambda>n. bind_res (idx frame p2_field_S_WORD) (\<lambda>s.
     bind_res (idx frame p2_field_X_WORD) (\<lambda>x. bind_res (idx frame p2_field_Y_WORD) (\<lambda>y.
     bind_res (idx frame p2_field_D_WORD) (\<lambda>d.
     if n > 2 \<or> s > - 1 - p2_field_STATE_CELLS \<or> d > - 1 - p2_field_STATE_CELLS then
       refuse (DelegationFrame pc ''absorbs more than the rate, or its states leave the cells'')
     else
       (let state = [cell_at field s, cell_at field (s + 1), cell_at field (s + 2)];
            xv = cell_at field x; yv = cell_at field y;
            lanes = [if n \<ge> 1 then xv else state ! 0,
                     if n = 2 then yv else if n = 1 then fr_zero else state ! 1,
                     fr_add (state ! 2) (from_u64 (ucast n))] in
        bind_res (poseidon2_permute lanes) (\<lambda>lanes.
        let (next, field') = put_lanes d lanes field in
        Inr (map (\<lambda>i. Some (Cell (s + of_nat i) p2_field_DELTA_STATE (state ! i) (state ! i))) [0..<3]
             @ [if n \<ge> 1 then Some (Cell x p2_field_DELTA_X xv xv) else None,
                if n = 2 then Some (Cell y p2_field_DELTA_Y yv yv) else None]
             @ next, field'))))))))"

section \<open>FQ_OP\<close>

text \<open>A field element's integer, when it is below \<open>2^128\<close>.\<close>

definition le_u128 :: "u8 list \<Rightarrow> u128" where
  "le_u128 bytes = ucast (le_u64 (take 8 bytes)) OR shl (ucast (le_u64 (drop 8 bytes))) 64"

definition small :: "fr \<Rightarrow> u128 option" where
  "small v = (let b = to_bytes v in
     if list_all (\<lambda>x. x = 0) (drop 16 b) then Some (le_u128 (take 16 b)) else None)"

text \<open>The first cell of an operand: its frame word, plus eight cells per digit where it is indirect.\<close>

definition element_at :: "u32 \<Rightarrow> u32 \<Rightarrow> u32 \<Rightarrow> u32 \<Rightarrow> u32 \<Rightarrow> u32 emu" where
  "element_at pc word digit flag base =
     (let offset = (if word AND flag \<noteq> 0 then fq_op_BUCKET_CELLS * digit else 0) in
      if unat base + unat offset < 2 ^ 32 \<and> base + offset \<le> - 1 - of_nat fq_op_ELEMENT_CELLS
      then Inr (base + offset)
      else refuse (DelegationFrame pc ''an element leaves the cells''))"

definition element_cells :: "cells \<Rightarrow> u32 \<Rightarrow> fr list" where
  "element_cells field c = map (\<lambda>k. cell_at field (c + of_nat k)) [0..<4]"

fun fq_element :: "u32 \<Rightarrow> fr list \<Rightarrow> u64 list emu" where
  "fq_element pc [] = Inr []"
| "fq_element pc (x # xs) =
     (case small x of
        Some l \<Rightarrow>
          if shr l 64 = 0 then bind_res (fq_element pc xs) (\<lambda>ls. Inr (ucast l # ls))
          else refuse (DelegationFrame pc ''an operand is not an element'')
      | None \<Rightarrow> refuse (DelegationFrame pc ''an operand is not an element''))"

definition fq_reduced :: "u64 list \<Rightarrow> wide" where
  "fq_reduced x = reduce (wide_of x @ replicate LIMBS 0) (wide_of fq_op_Q)"

definition fq_half :: "u32 \<Rightarrow> fr \<Rightarrow> u128 emu" where
  "fq_half pc x = (case small x of
     None \<Rightarrow> refuse (DelegationFrame pc ''FROM128's cells pass 2^128'') | Some v \<Rightarrow> Inr v)"

text \<open>The result's four limbs.\<close>

definition fq_value :: "u32 \<Rightarrow> u32 \<Rightarrow> fr list \<Rightarrow> fr list \<Rightarrow> fr list \<Rightarrow> u64 list emu" where
  "fq_value pc code av bv dv =
     (let q = wide_of fq_op_Q in
      if code = fq_op_FROM128 then
        bind_res (fq_half pc (av ! 0)) (\<lambda>lo. bind_res (fq_half pc (av ! 1)) (\<lambda>hi.
          Inr [ucast lo, ucast (shr lo 64), ucast hi, ucast (shr hi 64)]))
      else if code = fq_op_MUL \<or> code = fq_op_ADD \<or> code = fq_op_SUB \<or> code = fq_op_MULEQ then
        bind_res (fq_element pc av) (\<lambda>a. bind_res (fq_element pc bv) (\<lambda>b.
        bind_res
          (if code = fq_op_ADD then Inr (add_mod (fq_reduced a) (fq_reduced b) q)
           else if code = fq_op_SUB then Inr (sub_mod (fq_reduced a) (fq_reduced b) q)
           else mul_mod (wide_of a) (wide_of b) q) (\<lambda>r.
        if code = fq_op_MULEQ then
          bind_res (fq_element pc dv) (\<lambda>d.
            if fq_reduced d \<noteq> r then refuse (DelegationFrame pc ''MULEQ's product is not d'') else Inr d)
        else Inr (limbs_of r))))
      else refuse (DelegationFrame pc ''the op is not one FQ_OP answers''))"

fun put_cells :: "u32 \<Rightarrow> fr list \<Rightarrow> cells \<Rightarrow> cells" where
  "put_cells c [] field = field"
| "put_cells c (v # vs) field = put_cells (c + 1) vs (field(c \<mapsto> v))"

definition cell_reads :: "u32 \<Rightarrow> u64 \<Rightarrow> fr list \<Rightarrow> fr list \<Rightarrow> extra option list" where
  "cell_reads c delta olds news =
     map (\<lambda>(k, old, new). Some (Cell (c + of_nat k) delta old new)) (enumerate 0 (zip olds news))"

definition fq_op :: "u32 \<Rightarrow> u32 list \<Rightarrow> cells \<Rightarrow> (extra option list \<times> cells) emu" where
  "fq_op pc frame field =
     bind_res (idx frame fq_op_OP_WORD) (\<lambda>word.
     let code = word AND (shl 1 (unat fq_op_CODE_BITS) - 1);
         g = shr word (unat fq_op_DIGIT_SHIFT);
         digit_value = cell_at field g in
     bind_res (case small digit_value of
         Some v \<Rightarrow> if v < shl 1 24 then Inr (ucast v) else refuse (DelegationFrame pc ''the digit cell holds no digit'')
       | None \<Rightarrow> refuse (DelegationFrame pc ''the digit cell holds no digit'')) (\<lambda>digit.
     bind_res (idx frame fq_op_D_WORD) (\<lambda>dw. bind_res (element_at pc word digit fq_op_IND_D dw) (\<lambda>dc.
     bind_res (idx frame fq_op_A_WORD) (\<lambda>aw. bind_res (element_at pc word digit fq_op_IND_A aw) (\<lambda>ac.
     bind_res (idx frame fq_op_B_WORD) (\<lambda>bw. bind_res (element_at pc word digit fq_op_IND_B bw) (\<lambda>bc.
     let av = element_cells field ac; bv = element_cells field bc; dv = element_cells field dc in
     bind_res (fq_value pc code av bv dv) (\<lambda>new.
     let news = map from_u64 new in
     Inr ([Some (Cell g fq_op_DELTA_G digit_value digit_value)]
          @ cell_reads ac fq_op_DELTA_A av av @ cell_reads bc fq_op_DELTA_B bv bv
          @ cell_reads dc fq_op_DELTA_D dv news,
          put_cells dc news field))))))))))"

end
