(* ===== verification/Recorder.thy ===== *)
theory Recorder
  imports Cells Family_Trace
begin

text \<open>
  The tracing path of \<open>crates/emulator/src/lib.rs\<close>: one cycle's staged queries (\<open>Cycle\<close>), the two
  memories a recorder can keep (\<open>Keep\<close>) and the recorder, which logs each cycle and routes its row to
  the family that owns its pc, handing full buffers away when streaming.
\<close>

unbundle bit_operations_syntax

section \<open>One cycle's queries\<close>

text \<open>An invocation: the family, the frame base, the frame's \<open>(address, old, new)\<close> words and its accesses.\<close>

type_synonym word_access = "u32 \<times> u32 \<times> u32"
type_synonym invocation = "u32 \<times> u32 \<times> word_access list \<times> extra option list"

record cycle =
  cy_queries :: "word_access option list"
  cy_delegation :: "invocation option"

definition cycle_new :: cycle where
  "cycle_new = \<lparr>cy_queries = replicate 8 None, cy_delegation = None\<rparr>"

definition stage :: "role \<Rightarrow> u32 \<Rightarrow> u32 \<Rightarrow> u32 \<Rightarrow> cycle \<Rightarrow> 'e fault + cycle" where
  "stage role addr read write c =
     bind_res (idx (cy_queries c) (role_index role)) (\<lambda>slot.
     bind_res (ensure (slot = None)) (\<lambda>_.
       Inr (c\<lparr>cy_queries := (cy_queries c)[role_index role := Some (addr, read, write)]\<rparr>)))"

section \<open>What a recorder keeps\<close>

datatype keep = Whole memory_event_log | Streaming memory_state

fun keep_record :: "keep \<Rightarrow> address_space \<Rightarrow> u32 \<Rightarrow> u64 \<Rightarrow> u32 \<Rightarrow> u32 \<Rightarrow> 'e fault + (memory_event \<times> keep)" where
  "keep_record (Whole log) s addr ts old new =
     bind_res (log_record log s addr ts old new) (\<lambda>(e, log). Inr (e, Whole log))"
| "keep_record (Streaming st) s addr ts old new =
     bind_res (ms_record st s addr ts old new) (\<lambda>(e, st). Inr (e, Streaming st))"

text \<open>\<open>MemoryEventLog::record_field\<close> is its tables' own.\<close>

fun keep_record_field :: "keep \<Rightarrow> u32 \<Rightarrow> u64 \<Rightarrow> fr \<Rightarrow> fr \<Rightarrow> 'e fault + (u64 \<times> keep)" where
  "keep_record_field (Whole log) cell ts read write =
     bind_res (ms_record_field (log_state log) cell ts read write) (\<lambda>(t, st). Inr (t, Whole (log\<lparr>log_state := st\<rparr>)))"
| "keep_record_field (Streaming st) cell ts read write =
     bind_res (ms_record_field st cell ts read write) (\<lambda>(t, st). Inr (t, Streaming st))"

definition is_streaming :: "keep \<Rightarrow> bool" where
  "is_streaming k = (case k of Whole _ \<Rightarrow> False | Streaming _ \<Rightarrow> True)"

section \<open>The recorder\<close>

datatype chunk_rows = Cycles family_trace | Invocations delegation_trace

record shard_chunk =
  sc_family :: u32
  sc_index :: u32
  sc_rows :: chunk_rows

record recorder =
  rc_tables :: decoded_tables
  rc_memory :: keep
  rc_traces :: family_traces
  rc_family_rows :: "u64 list"
  rc_deleg_rows :: "u64 list"
  rc_ready :: "shard_chunk list"

definition recorder_new :: "decoded_tables \<Rightarrow> vm_config \<Rightarrow> keep \<Rightarrow> recorder" where
  "recorder_new tables config memory =
     (let families = map (\<lambda>(f, h). trace_new f h)
            (filter (\<lambda>(f, _). delegation_frame_words f = None) (vc_families config));
          delegations = concat (map (\<lambda>(f, h). case delegation_frame_words f of
              None \<Rightarrow> [] | Some width \<Rightarrow> [delegation_new f h width]) (vc_families config)) in
      \<lparr>rc_tables = tables, rc_memory = memory,
       rc_traces = \<lparr>fts_families = families, fts_delegations = delegations\<rparr>,
       rc_family_rows = replicate (length families) 0, rc_deleg_rows = replicate (length delegations) 0,
       rc_ready = []\<rparr>)"

text \<open>The frame's words, each a RAM event at the invocation's slot.\<close>

fun record_frame :: "u64 \<Rightarrow> word_access list \<Rightarrow> keep \<Rightarrow> 'e fault + (query list \<times> keep)" where
  "record_frame base [] mem = Inr ([], mem)"
| "record_frame base ((addr, read, write) # frame) mem =
     bind_res (keep_record mem Ram addr (base + delegation_FRAME_DELTA) read write) (\<lambda>(event, mem).
     bind_res (record_frame base frame mem) (\<lambda>(queries, mem).
       Inr (\<lparr>q_addr = addr, q_read_ts = ev_read_ts event, q_read_value = read, q_write_value = write\<rparr> # queries, mem)))"

fun record_extra :: "u64 \<Rightarrow> extra \<Rightarrow> keep \<Rightarrow> 'e fault + (access \<times> keep)" where
  "record_extra base (Word addr old new) mem =
     bind_res (keep_record mem Ram addr (base + field_io_DATA_DELTA) old new) (\<lambda>(event, mem).
       Inr (\<lparr>ac_addr = addr, ac_read_ts = ev_read_ts event, ac_read = from_u64 (ucast old),
             ac_write = from_u64 (ucast new)\<rparr>, mem))"
| "record_extra base (Cell cell delta old new) mem =
     bind_res (keep_record_field mem cell (base + delta) old new) (\<lambda>(read_ts, mem).
       Inr (\<lparr>ac_addr = cell, ac_read_ts = read_ts, ac_read = old, ac_write = new\<rparr>, mem))"

fun record_extras :: "u64 \<Rightarrow> extra option list \<Rightarrow> keep \<Rightarrow> 'e fault + (access option list \<times> keep)" where
  "record_extras base [] mem = Inr ([], mem)"
| "record_extras base (None # es) mem =
     bind_res (record_extras base es mem) (\<lambda>(accesses, mem). Inr (None # accesses, mem))"
| "record_extras base (Some e # es) mem =
     bind_res (record_extra base e mem) (\<lambda>(a, mem).
     bind_res (record_extras base es mem) (\<lambda>(accesses, mem). Inr (Some a # accesses, mem)))"

text \<open>The row's queries, in role order.\<close>

fun record_roles :: "u64 \<Rightarrow> address_space option \<Rightarrow> cycle \<Rightarrow> role list \<Rightarrow> row \<Rightarrow> keep \<Rightarrow> 'e fault + (row \<times> keep)" where
  "record_roles base delegation c [] row mem = Inr (row, mem)"
| "record_roles base delegation c (role # roles) row mem =
     bind_res (idx (cy_queries c) (role_index role)) (\<lambda>slot.
     case slot of
       None \<Rightarrow> record_roles base delegation c roles row mem
     | Some (addr, read, write) \<Rightarrow>
         bind_res (role_space role delegation) (\<lambda>space.
         bind_res (keep_record mem space addr (base + role_delta role) read write) (\<lambda>(event, mem).
         record_roles base delegation c roles
           (row\<lparr>row_queries := (row_queries row)[role_index role :=
                  \<lparr>q_addr = addr, q_read_ts = ev_read_ts event, q_read_value = read, q_write_value = write\<rparr>],
                row_present := row_present row OR shl 1 (role_index role)\<rparr>) mem)))"

definition flush_family :: "nat \<Rightarrow> recorder \<Rightarrow> 'e fault + recorder" where
  "flush_family at r =
     (if \<not> is_streaming (rc_memory r) then Inr r
      else
        bind_res (idx (fts_families (rc_traces r)) at) (\<lambda>buffer.
        if trace_len buffer < unat (tr_height buffer) then Inr r
        else
          bind_res (idx (rc_family_rows r) at) (\<lambda>rows.
          bind_res (ensure (tr_height buffer \<noteq> 0)) (\<lambda>_.
            Inr (r\<lparr>rc_traces := (rc_traces r)\<lparr>fts_families :=
                    (fts_families (rc_traces r))[at := trace_new (tr_family buffer) (tr_height buffer)]\<rparr>,
                  rc_ready := rc_ready r @ [\<lparr>sc_family = tr_family buffer,
                    sc_index = ucast (rows div ucast (tr_height buffer) - 1), sc_rows = Cycles buffer\<rparr>]\<rparr>)))))"

definition flush_delegation :: "nat \<Rightarrow> recorder \<Rightarrow> 'e fault + recorder" where
  "flush_delegation at r =
     (if \<not> is_streaming (rc_memory r) then Inr r
      else
        bind_res (idx (fts_delegations (rc_traces r)) at) (\<lambda>buffer.
        if delegation_len buffer < unat (dg_height buffer) then Inr r
        else
          bind_res (idx (rc_deleg_rows r) at) (\<lambda>rows.
          bind_res (ensure (dg_height buffer \<noteq> 0)) (\<lambda>_.
            Inr (r\<lparr>rc_traces := (rc_traces r)\<lparr>fts_delegations :=
                    (fts_delegations (rc_traces r))[at :=
                      delegation_new (dg_family buffer) (dg_height buffer) (length (dg_words buffer))]\<rparr>,
                  rc_ready := rc_ready r @ [\<lparr>sc_family = dg_family buffer,
                    sc_index = ucast (rows div ucast (dg_height buffer) - 1), sc_rows = Invocations buffer\<rparr>]\<rparr>)))))"

text \<open>The one family whose table claims the pc. \<open>owners_of\<close> scans every table, as finding no second owner does.\<close>

definition owner :: "recorder \<Rightarrow> u32 \<Rightarrow> instr \<Rightarrow> 'e fault + u32" where
  "owner r pc instr =
     bind_res (owners_of (unat (pc div 2)) (dt_families (rc_tables r))) (\<lambda>owners.
     case owners of
       [table] \<Rightarrow> bind_res (ensure (ft_family table = fst (row_kind instr))) (\<lambda>_. Inr (ft_family table))
     | _ \<Rightarrow> panic)"

definition push_invocation :: "u64 \<Rightarrow> u32 \<Rightarrow> u32 \<Rightarrow> query list \<Rightarrow> access option list \<Rightarrow> recorder \<Rightarrow> 'e fault + recorder" where
  "push_invocation cyc family frame_base queries accesses r =
     (case position (\<lambda>t. dg_family t = family) (fts_delegations (rc_traces r)) of
        None \<Rightarrow> panic
      | Some at \<Rightarrow>
          bind_res (idx (fts_delegations (rc_traces r)) at) (\<lambda>buffer.
          bind_res (delegation_push buffer cyc frame_base queries accesses) (\<lambda>buffer.
          bind_res (idx (rc_deleg_rows r) at) (\<lambda>rows.
            flush_delegation at
              (r\<lparr>rc_traces := (rc_traces r)\<lparr>fts_delegations := (fts_delegations (rc_traces r))[at := buffer]\<rparr>,
                 rc_deleg_rows := (rc_deleg_rows r)[at := rows + 1]\<rparr>)))))"

definition push_row :: "u32 \<Rightarrow> instr \<Rightarrow> row \<Rightarrow> recorder \<Rightarrow> 'e fault + recorder" where
  "push_row pc instr row r =
     bind_res (owner r pc instr) (\<lambda>family.
     case position (\<lambda>t. tr_family t = family) (fts_families (rc_traces r)) of
       None \<Rightarrow> panic
     | Some at \<Rightarrow>
         bind_res (idx (fts_families (rc_traces r)) at) (\<lambda>buffer.
         bind_res (idx (rc_family_rows r) at) (\<lambda>rows.
           flush_family at
             (r\<lparr>rc_traces := (rc_traces r)\<lparr>fts_families := (fts_families (rc_traces r))[at := trace_push buffer row]\<rparr>,
                rc_family_rows := (rc_family_rows r)[at := rows + 1]\<rparr>))))"

definition invocation_space :: "cycle \<Rightarrow> address_space option" where
  "invocation_space c =
     (case cy_delegation c of
        None \<Rightarrow> None
      | Some (family, _) \<Rightarrow> (case delegation_space family of None \<Rightarrow> None | Some t \<Rightarrow> from_tag t))"

definition recorder_record :: "u64 \<Rightarrow> u32 \<Rightarrow> u32 \<Rightarrow> instr \<Rightarrow> cycle \<Rightarrow> recorder \<Rightarrow> 'e fault + recorder" where
  "recorder_record cyc pc next_pc instr c r =
     (let base = TS_STEP * cyc in
      bind_res (keep_record (rc_memory r) Pc 0 base pc next_pc) (\<lambda>(_, mem).
      bind_res
        (case cy_delegation c of
           None \<Rightarrow> Inr ([], [], mem)
         | Some (_, _, frame, extra) \<Rightarrow>
             bind_res (record_frame base frame mem) (\<lambda>(queries, mem).
             bind_res (record_extras base extra mem) (\<lambda>(accesses, mem). Inr (queries, accesses, mem))))
        (\<lambda>(queries, accesses, mem).
      bind_res (record_roles base (invocation_space c) c ROLES
          \<lparr>row_cycle = cyc, row_pc = pc, row_next_pc = next_pc, row_present = 0, row_queries = replicate 8 ABSENT\<rparr> mem)
        (\<lambda>(row, mem).
      bind_res
        (case cy_delegation c of
           None \<Rightarrow> Inr (r\<lparr>rc_memory := mem\<rparr>)
         | Some (family, frame_base, _, _) \<Rightarrow>
             push_invocation cyc family frame_base queries accesses (r\<lparr>rc_memory := mem\<rparr>)) (\<lambda>r.
      push_row pc instr row r)))))"

section \<open>The end of a run\<close>

text \<open>Every partial buffer as a final shard, the cycle families first.\<close>

fun flush_cycles :: "family_trace list \<Rightarrow> u64 list \<Rightarrow> 'e fault + (shard_chunk list \<times> family_trace list)" where
  "flush_cycles (buffer # buffers) rows =
     (if tr_cycle buffer = [] then
        bind_res (flush_cycles buffers (tl rows)) (\<lambda>(out, rest). Inr (out, buffer # rest))
      else
        bind_res (idx rows 0) (\<lambda>n.
        bind_res (ensure (tr_height buffer \<noteq> 0)) (\<lambda>_.
        bind_res (flush_cycles buffers (tl rows)) (\<lambda>(out, rest).
          Inr (\<lparr>sc_family = tr_family buffer, sc_index = ucast (n div ucast (tr_height buffer)), sc_rows = Cycles buffer\<rparr> # out,
               trace_new (tr_family buffer) (tr_height buffer) # rest)))))"
| "flush_cycles [] rows = Inr ([], [])"

fun flush_invocations :: "delegation_trace list \<Rightarrow> u64 list \<Rightarrow> 'e fault + (shard_chunk list \<times> delegation_trace list)" where
  "flush_invocations (buffer # buffers) rows =
     (if dg_cycle buffer = [] then
        bind_res (flush_invocations buffers (tl rows)) (\<lambda>(out, rest). Inr (out, buffer # rest))
      else
        bind_res (idx rows 0) (\<lambda>n.
        bind_res (ensure (dg_height buffer \<noteq> 0)) (\<lambda>_.
        bind_res (flush_invocations buffers (tl rows)) (\<lambda>(out, rest).
          Inr (\<lparr>sc_family = dg_family buffer, sc_index = ucast (n div ucast (dg_height buffer)), sc_rows = Invocations buffer\<rparr> # out,
               delegation_new (dg_family buffer) (dg_height buffer) (length (dg_words buffer)) # rest)))))"
| "flush_invocations [] rows = Inr ([], [])"

definition flush_partial :: "recorder \<Rightarrow> 'e fault + (shard_chunk list \<times> recorder)" where
  "flush_partial r =
     bind_res (flush_cycles (fts_families (rc_traces r)) (rc_family_rows r)) (\<lambda>(cycles, families).
     bind_res (flush_invocations (fts_delegations (rc_traces r)) (rc_deleg_rows r)) (\<lambda>(invocations, delegations).
       Inr (cycles @ invocations, r\<lparr>rc_traces := \<lparr>fts_families = families, fts_delegations = delegations\<rparr>\<rparr>)))"

definition profile :: "recorder \<Rightarrow> (u32 \<times> u64) list" where
  "profile r = sort_key fst
     (map (\<lambda>(t, n). (tr_family t, n)) (zip (fts_families (rc_traces r)) (rc_family_rows r))
      @ map (\<lambda>(t, n). (dg_family t, n)) (zip (fts_delegations (rc_traces r)) (rc_deleg_rows r)))"

end
