(* ===== verification/Ram.thy ===== *)
theory Ram
  imports Prelude Image
begin

text \<open>
  The emulator's RAM, 4 KiB pages by page number with an absent page all zeros (\<open>page\<close>, \<open>word\<close> and
  \<open>set_word\<close> of \<open>crates/emulator/src/lib.rs\<close>), and the contract its users rely on: a word memory, where
  a store is read back and leaves every other word.
\<close>

unbundle bit_operations_syntax

section \<open>Pages\<close>

abbreviation (input) PAGE :: u32 where "PAGE \<equiv> 4096"

type_synonym ram = "u32 \<Rightarrow> u8 list option"

text \<open>The entry of a page, inserted as zeros.\<close>

definition ram_page :: "ram \<Rightarrow> u32 \<Rightarrow> u8 list" where
  "ram_page ram addr = (case ram (addr div PAGE) of None \<Rightarrow> replicate (unat PAGE) 0 | Some page \<Rightarrow> page)"

definition ram_set_byte :: "ram \<Rightarrow> u32 \<Rightarrow> u8 \<Rightarrow> 'e fault + ram" where
  "ram_set_byte ram addr byte =
     bind_res (set_at (ram_page ram addr) (unat (addr mod PAGE)) byte) (\<lambda>page.
       Inr (ram(addr div PAGE \<mapsto> page)))"

definition ram_word :: "ram \<Rightarrow> u32 \<Rightarrow> 'e fault + u32" where
  "ram_word ram addr =
     (case ram (addr div PAGE) of
        Some page \<Rightarrow> u32le page (unat (addr mod PAGE))
      | None \<Rightarrow> Inr 0)"

definition ram_set_word :: "ram \<Rightarrow> u32 \<Rightarrow> u32 \<Rightarrow> 'e fault + ram" where
  "ram_set_word ram addr v =
     (let at = unat (addr mod PAGE); page = ram_page ram addr in
      bind_res (slice page at (at + 4)) (\<lambda>_.
        Inr (ram(addr div PAGE \<mapsto> take at page @ u32_le_bytes v @ drop (at + 4) page))))"

section \<open>The contract\<close>

locale word_memory =
  fixes good :: "'m \<Rightarrow> bool"
    and get :: "'m \<Rightarrow> u32 \<Rightarrow> 'e fault + u32"
    and put :: "'m \<Rightarrow> u32 \<Rightarrow> u32 \<Rightarrow> 'e fault + 'm"
  assumes get_returns: "good m \<Longrightarrow> unat a mod 4 = 0 \<Longrightarrow> \<exists>v. get m a = Inr v"
    and put_returns: "good m \<Longrightarrow> unat a mod 4 = 0 \<Longrightarrow>
      \<exists>m'. put m a v = Inr m' \<and> good m' \<and> get m' a = Inr v \<and>
        (\<forall>b. unat b mod 4 = 0 \<longrightarrow> b \<noteq> a \<longrightarrow> get m' b = get m b)"
begin

fun get_all :: "'m \<Rightarrow> u32 list \<Rightarrow> 'e fault + u32 list" where
  "get_all m [] = Inr []"
| "get_all m (a # as) = bind_res (get m a) (\<lambda>v. bind_res (get_all m as) (\<lambda>vs. Inr (v # vs)))"

fun put_all :: "'m \<Rightarrow> (u32 \<times> u32) list \<Rightarrow> 'e fault + 'm" where
  "put_all m [] = Inr m"
| "put_all m ((a, v) # ws) = bind_res (put m a v) (\<lambda>m. put_all m ws)"

definition word_at :: "'m \<Rightarrow> u32 \<Rightarrow> u32" where
  "word_at m a = (case get m a of Inl _ \<Rightarrow> 0 | Inr v \<Rightarrow> v)"

lemma get_eq: "good m \<Longrightarrow> unat a mod 4 = 0 \<Longrightarrow> get m a = Inr (word_at m a)"
  using get_returns [of m a] by (auto simp: word_at_def)

lemma get_all_returns:
  "good m \<Longrightarrow> \<forall>a \<in> set as. unat a mod 4 = 0 \<Longrightarrow> get_all m as = Inr (map (word_at m) as)"
  by (induction as) (simp_all add: get_eq del: bind_res_Inr)

lemma put_all_returns:
  "good m \<Longrightarrow> \<forall>a \<in> fst ` set ws. unat a mod 4 = 0 \<Longrightarrow>
    \<exists>m'. put_all m ws = Inr m' \<and> good m' \<and>
      (\<forall>b. unat b mod 4 = 0 \<longrightarrow> word_at m' b = (case map_of (rev ws) b of None \<Rightarrow> word_at m b | Some v \<Rightarrow> v))"
proof (induction ws arbitrary: m)
  case (Cons w ws)
  obtain a v where w: "w = (a, v)"
    by fastforce
  obtain m1 where m1: "put m a v = Inr m1" "good m1" "get m1 a = Inr v"
    "\<forall>b. unat b mod 4 = 0 \<longrightarrow> b \<noteq> a \<longrightarrow> get m1 b = get m b"
    using put_returns [of m a v] Cons.prems w by auto
  obtain m2 where m2: "put_all m1 ws = Inr m2" "good m2"
    "\<forall>b. unat b mod 4 = 0 \<longrightarrow> word_at m2 b = (case map_of (rev ws) b of None \<Rightarrow> word_at m1 b | Some v \<Rightarrow> v)"
    using Cons.IH [OF m1(2)] Cons.prems(2) by auto
  have "word_at m1 b = (if b = a then v else word_at m b)" if "unat b mod 4 = 0" for b
    using m1(3,4) that by (simp add: word_at_def)
  then show ?case
    using m1(1) m2 by (auto simp: w map_add_def split: option.splits)
qed simp

text \<open>Words written at distinct addresses are all read back.\<close>

lemma put_all_get_all:
  assumes "good m" "\<forall>a \<in> set as. unat a mod 4 = 0" "distinct as" "length vs = length as"
  shows "\<exists>m'. put_all m (zip as vs) = Inr m' \<and> good m' \<and> get_all m' as = Inr vs \<and>
    (\<forall>b. unat b mod 4 = 0 \<longrightarrow> b \<notin> set as \<longrightarrow> word_at m' b = word_at m b)"
proof -
  have aligned: "\<forall>a \<in> fst ` set (zip as vs). unat a mod 4 = 0"
    using assms(2) by (auto dest: set_zip_leftD)
  obtain m' where m': "put_all m (zip as vs) = Inr m'" "good m'"
    "\<forall>b. unat b mod 4 = 0 \<longrightarrow> word_at m' b = (case map_of (rev (zip as vs)) b of None \<Rightarrow> word_at m b | Some v \<Rightarrow> v)"
    using put_all_returns [of m "zip as vs"] aligned assms(1) by blast
  have "distinct (map fst (rev (zip as vs)))"
    using assms(3,4) by (simp add: rev_map [symmetric])
  then have rev: "map_of (rev (zip as vs)) = map_of (zip as vs)"
    using assms(3,4) by (intro map_of_inject_set [THEN iffD2]) simp_all
  have "map (word_at m') as = vs"
    using assms m'(3) unfolding rev by (intro nth_equalityI) (simp_all add: map_of_zip_nth)
  moreover have "map_of (zip as vs) b = None" if "b \<notin> set as" for b
    using that assms(4) by (simp add: map_of_zip_is_None)
  ultimately show ?thesis
    using m' get_all_returns [OF m'(2) assms(2)] unfolding rev by simp
qed

end

section \<open>The pages are a word memory\<close>

definition ram_ok :: "ram \<Rightarrow> bool" where
  "ram_ok ram \<longleftrightarrow> (\<forall>n page. ram n = Some page \<longrightarrow> length page = 4096)"

lemma page_offset:
  fixes a :: u32
  assumes "unat a mod 4 = 0"
  shows "unat (a mod PAGE) + 4 \<le> 4096" "unat (a mod PAGE) mod 4 = 0"
proof -
  have m: "unat (a mod PAGE) = unat a mod 4096"
    by (simp add: unat_mod)
  have "unat a mod 4096 mod 4 = 0"
    using assms by (simp add: mod_mod_cancel)
  moreover have "n + 4 \<le> 4096" if "n mod 4 = 0" "n < 4096" for n :: nat
    using that by presburger
  ultimately show "unat (a mod PAGE) + 4 \<le> 4096" "unat (a mod PAGE) mod 4 = 0"
    unfolding m by simp_all
qed

lemma same_word:
  fixes a b :: u32
  assumes "a div PAGE = b div PAGE" "unat (a mod PAGE) = unat (b mod PAGE)"
  shows "a = b"
proof -
  have "unat a div 4096 = unat b div 4096" "unat a mod 4096 = unat b mod 4096"
    using assms by (simp_all add: word_unat_eq_iff unat_div unat_mod)
  then have "unat a = unat b"
    by (metis div_mult_mod_eq)
  then show ?thesis
    by (simp add: word_unat_eq_iff)
qed

lemma ram_page_length: "ram_ok ram \<Longrightarrow> length (ram_page ram a) = 4096"
  by (auto simp: ram_ok_def ram_page_def split: option.splits)

lemma ram_word_eq:
  assumes "ram_ok ram" "unat a mod 4 = 0"
  shows "ram_word ram a = Inr (let p = ram_page ram a; at = unat (a mod PAGE) in
    le32 (p ! at) (p ! (at + 1)) (p ! (at + 2)) (p ! (at + 3)))"
proof (cases "ram (a div PAGE)")
  case None
  then show ?thesis
    using page_offset [OF assms(2)] by (simp add: ram_word_def ram_page_def le32_def)
next
  case (Some p)
  then have "length p = 4096"
    using assms(1) by (auto simp: ram_ok_def)
  then show ?thesis
    using page_offset [OF assms(2)] Some by (simp add: ram_word_def ram_page_def Let_def)
qed

lemma ram_set_word_returns:
  assumes "ram_ok ram" "unat a mod 4 = 0"
  shows "\<exists>ram'. ram_set_word ram a v = Inr ram' \<and> ram_ok ram' \<and> ram_word ram' a = Inr v \<and>
    (\<forall>b. unat b mod 4 = 0 \<longrightarrow> b \<noteq> a \<longrightarrow> ram_word ram' b = ram_word ram b)"
proof -
  let ?at = "unat (a mod PAGE)" and ?p = "ram_page ram a"
  let ?p' = "take ?at ?p @ u32_le_bytes v @ drop (?at + 4) ?p"
  let ?r = "ram(a div PAGE \<mapsto> ?p')"
  have at: "?at + 4 \<le> 4096" "length ?p = 4096"
    using page_offset [OF assms(2)] ram_page_length [OF assms(1)] by simp_all
  have set: "ram_set_word ram a v = Inr ?r"
    using at by (simp add: ram_set_word_def Let_def)
  have ok: "ram_ok ?r"
    using assms(1) at by (auto simp: ram_ok_def)
  have "ram_page ?r a = ?p'"
    by (simp add: ram_page_def)
  moreover have "?p' ! ?at = ucast v" "?p' ! (?at + 1) = ucast (shr v 8)" "?p' ! (?at + 2) = ucast (shr v 16)"
    "?p' ! (?at + 3) = ucast (shr v 24)"
    using at by (simp_all add: nth_append u32_le_bytes_def)
  ultimately have same: "ram_word ?r a = Inr v"
    unfolding ram_word_eq [OF ok assms(2)] Let_def by (simp only: le32_word_bytes)
  have other: "ram_word ?r b = ram_word ram b" if b: "unat b mod 4 = 0" "b \<noteq> a" for b
  proof (cases "a div PAGE = b div PAGE")
    case True
    let ?bt = "unat (b mod PAGE)"
    have "?at \<noteq> ?bt"
      using same_word [of a b] True b(2) by blast
    then have "?bt + 4 \<le> ?at \<or> ?at + 4 \<le> ?bt"
      using page_offset(2) [OF assms(2)] page_offset(2) [OF b(1)] by presburger
    then have "?p' ! (?bt + k) = ?p ! (?bt + k)" if "k < 4" for k
      using at that page_offset(1) [OF b(1)] by (auto simp: nth_append)
    from this [of 0] this [of 1] this [of 2] this [of 3]
    have "?p' ! ?bt = ?p ! ?bt" "?p' ! (?bt + 1) = ?p ! (?bt + 1)" "?p' ! (?bt + 2) = ?p ! (?bt + 2)"
      "?p' ! (?bt + 3) = ?p ! (?bt + 3)"
      by simp_all
    moreover have "ram_page ?r b = ?p'" "ram_page ram b = ?p"
      using True by (simp_all add: ram_page_def)
    ultimately show ?thesis
      unfolding ram_word_eq [OF ok b(1)] ram_word_eq [OF assms(1) b(1)] Let_def by (simp only:)
  next
    case False
    then show ?thesis
      by (auto simp: ram_word_def)
  qed
  show ?thesis
    using set ok same other by blast
qed

interpretation pages: word_memory ram_ok ram_word ram_set_word
proof
  show "\<exists>v. ram_word m a = Inr v" if "ram_ok m" "unat a mod 4 = 0" for m a
    using ram_word_eq [OF that] by blast
qed (rule ram_set_word_returns)

end
