(* ===== verification/Machine.thy ===== *)
theory Machine
  imports Recorder Ram Field_Frames "HOL-Library.Signed_Division"
begin

text \<open>
  The emulator of \<open>crates/emulator/src/lib.rs\<close>: the machine with its registers, paged RAM, field memory
  and clock; instruction fetch and every instruction; delegation calls and the other ecalls; and \<open>run\<close>,
  \<open>trace_run\<close> and the streaming run. An operation returns the new machine, or the named refusal, or
  \<open>Panicked\<close>. A cycle's queries are staged in a \<open>cycle\<close> that each operation threads.

  Shift amounts are below 32 in every instruction \<open>decode\<close> returns, so \<open><<\<close> and \<open>>>\<close> on a
  \<open>shamt\<close> never overflow.
\<close>

unbundle bit_operations_syntax

section \<open>State\<close>

datatype fetched = Code instr bool | Illegal u32 | NotCode

record guest_io =
  io_input :: "u8 list"
  io_advice :: "u8 list"

record execution =
  ex_regs :: "u32 list"
  ex_exit_code :: i32
  ex_cycle_count :: u64
  ex_input :: "u8 list"
  ex_output :: "u8 list"

record machine =
  mc_code :: "fetched list"
  mc_slot_base :: u32
  mc_regs :: "u32 list"
  mc_pc :: u32
  mc_ram :: ram
  mc_cycle :: u64
  mc_public_input :: "u8 list"
  mc_advice_end :: u64
  mc_field :: cells
  mc_exit :: "i32 option"
  mc_recorder :: "recorder option"

section \<open>Setup\<close>

definition fetched_of :: "slot \<Rightarrow> fetched" where
  "fetched_of slot =
     (case slot of
        Instruction word compressed \<Rightarrow> (case decode word of Inr instr \<Rightarrow> Code instr compressed | Inl _ \<Rightarrow> Illegal word)
      | _ \<Rightarrow> NotCode)"

text \<open>A segment's nonzero bytes, then the nonzero words of a window.\<close>

fun load_bytes :: "u32 \<Rightarrow> u8 list \<Rightarrow> ram \<Rightarrow> 'e fault + ram" where
  "load_bytes addr [] ram = Inr ram"
| "load_bytes addr (byte # bytes) ram =
     bind_res (if byte \<noteq> 0 then ram_set_byte ram addr byte else Inr ram) (\<lambda>ram. load_bytes (addr + 1) bytes ram)"

fun load_segments :: "segment list \<Rightarrow> ram \<Rightarrow> 'e fault + ram" where
  "load_segments [] ram = Inr ram"
| "load_segments (s # ss) ram = bind_res (load_bytes (seg_vaddr s) (seg_bytes s) ram) (\<lambda>ram. load_segments ss ram)"

fun load_words :: "u32 \<Rightarrow> u32 list \<Rightarrow> ram \<Rightarrow> 'e fault + ram" where
  "load_words addr [] ram = Inr ram"
| "load_words addr (w # ws) ram =
     bind_res (if w \<noteq> 0 then ram_set_word ram addr w else Inr ram) (\<lambda>ram. load_words (addr + 4) ws ram)"

definition machine_new :: "program_image \<Rightarrow> guest_io \<Rightarrow> machine emu" where
  "machine_new im io =
     bind_res (load_segments (image_segments im) (\<lambda>_. None)) (\<lambda>ram.
     bind_res (public_io_words (io_input io)) (\<lambda>words.
     bind_res (load_words PUBLIC_INPUT_ORIGIN words ram) (\<lambda>ram.
     bind_res (load_words ADVICE_ORIGIN
         (map (advice_word (io_advice io)) [0..<advice_region_words (io_advice io)]) ram) (\<lambda>ram.
       Inr \<lparr>mc_code = map fetched_of (image_slots im), mc_slot_base = image_slot_base im,
         mc_regs = replicate 32 0, mc_pc = image_entry im, mc_ram = ram, mc_cycle = 1,
         mc_public_input = io_input io,
         mc_advice_end = ucast ADVICE_ORIGIN + 4 * of_nat (advice_region_words (io_advice io)),
         mc_field = (\<lambda>_. None), mc_exit = None, mc_recorder = None\<rparr>))))"

section \<open>Registers\<close>

definition reg_read :: "role \<Rightarrow> u8 \<Rightarrow> machine \<Rightarrow> cycle \<Rightarrow> (u32 \<times> cycle) emu" where
  "reg_read role r m c =
     bind_res (idx (mc_regs m) (unat r)) (\<lambda>v.
     bind_res (stage role (ucast r) v v c) (\<lambda>c. Inr (v, c)))"

definition reg_write :: "u8 \<Rightarrow> u32 \<Rightarrow> machine \<Rightarrow> cycle \<Rightarrow> (machine \<times> cycle) emu" where
  "reg_write rd value m c =
     bind_res (idx (mc_regs m) (unat rd)) (\<lambda>old.
     let value = (if rd = 0 then 0 else value) in
     bind_res (stage RoleRd (ucast rd) old value c) (\<lambda>c.
       Inr (m\<lparr>mc_regs := (mc_regs m)[unat rd := value]\<rparr>, c)))"

section \<open>Memory\<close>

definition mem_word :: "machine \<Rightarrow> u32 \<Rightarrow> u32 emu" where
  "mem_word m addr = ram_word (mc_ram m) addr"

definition mem_set_word :: "u32 \<Rightarrow> u32 \<Rightarrow> machine \<Rightarrow> machine emu" where
  "mem_set_word addr value m = bind_res (ram_set_word (mc_ram m) addr value) (\<lambda>ram. Inr (m\<lparr>mc_ram := ram\<rparr>))"

definition data_word :: "machine \<Rightarrow> u32 \<Rightarrow> u32 \<Rightarrow> u32 \<Rightarrow> u32 emu" where
  "data_word m pc addr width =
     (if addr mod width \<noteq> 0 then refuse (Misaligned pc addr width)
      else
        (let word = addr AND NOT 3 in
         if addressable word \<and> (word < ADVICE_ORIGIN \<or> ucast word < mc_advice_end m) then Inr word
         else refuse (OutOfBounds pc addr)))"

definition ram_write :: "u32 \<Rightarrow> u32 \<Rightarrow> u32 \<Rightarrow> machine \<Rightarrow> cycle \<Rightarrow> (machine \<times> cycle) emu" where
  "ram_write word old new m c =
     bind_res (stage RoleRam word old new c) (\<lambda>c.
     bind_res (mem_set_word word new m) (\<lambda>m. Inr (m, c)))"

section \<open>Delegation\<close>

fun mem_words :: "machine \<Rightarrow> u32 list \<Rightarrow> u32 list emu" where
  "mem_words m [] = Inr []"
| "mem_words m (a # as) = bind_res (mem_word m a) (\<lambda>v. bind_res (mem_words m as) (\<lambda>vs. Inr (v # vs)))"

definition frame_addrs :: "u32 \<Rightarrow> nat \<Rightarrow> u32 list" where
  "frame_addrs base words = map (\<lambda>j. base + 4 * of_nat j) [0..<words]"

text \<open>The bound is computed in \<open>u64\<close>, so it is one over naturals here.\<close>

definition delegation_frame :: "machine \<Rightarrow> u32 \<Rightarrow> u32 \<Rightarrow> nat \<Rightarrow> u32 list emu" where
  "delegation_frame m pc base words =
     (if base mod 4 \<noteq> 0 then refuse (Misaligned pc base 4)
      else if unat base < unat RAM_ORIGIN \<or> unat base + 4 * words > unat RAM_ORIGIN + unat RAM_LENGTH
      then refuse (OutOfBounds pc base)
      else mem_words m (frame_addrs base words))"

fun delegation_writeback :: "u32 \<Rightarrow> u32 list \<Rightarrow> u32 list \<Rightarrow> machine \<Rightarrow> (word_access list \<times> machine) emu" where
  "delegation_writeback addr [] new m = Inr ([], m)"
| "delegation_writeback addr (o0 # old) new m =
     bind_res (idx new 0) (\<lambda>n0.
     bind_res (mem_set_word addr n0 m) (\<lambda>m.
     bind_res (delegation_writeback (addr + 4) old (tl new) m) (\<lambda>(frame, m).
       Inr ((addr, o0, n0) # frame, m))))"

text \<open>The eight data words of \<open>FIELD_IO\<close>: \<open>checked_add\<close> of each offset, then \<open>data_word\<close>.\<close>

fun data_addrs :: "machine \<Rightarrow> u32 \<Rightarrow> u32 \<Rightarrow> nat list \<Rightarrow> u32 list emu" where
  "data_addrs m pc ptr [] = Inr []"
| "data_addrs m pc ptr (k # ks) =
     (if unat ptr + 4 * k < 2 ^ 32
      then bind_res (data_word m pc (ptr + 4 * of_nat k) 4) (\<lambda>a.
           bind_res (data_addrs m pc ptr ks) (\<lambda>as. Inr (a # as)))
      else refuse (OutOfBounds pc ptr))"

fun put_data :: "u32 list \<Rightarrow> u32 list \<Rightarrow> u32 list \<Rightarrow> machine \<Rightarrow> (extra option list \<times> machine) emu" where
  "put_data (a # as) (w # ws) (v # vs) m =
     bind_res (mem_set_word a v m) (\<lambda>m.
     bind_res (put_data as ws vs m) (\<lambda>(out, m). Inr (Some (Word a w v) # out, m)))"
| "put_data _ _ _ m = Inr ([], m)"

definition import_value :: "u32 list \<Rightarrow> fr" where
  "import_value words =
     foldl (\<lambda>v word. fr_add (fr_mul v (from_u64 (shl 1 32))) (from_u64 (ucast word))) fr_zero (rev words)"

definition field_io :: "u32 \<Rightarrow> u32 list \<Rightarrow> machine \<Rightarrow> (extra option list \<times> machine) emu" where
  "field_io pc frame m =
     bind_res (idx frame field_io_OP_WORD) (\<lambda>op. bind_res (idx frame field_io_CELL_WORD) (\<lambda>cell.
     bind_res (idx frame field_io_PTR_WORD) (\<lambda>ptr.
     bind_res (data_addrs m pc ptr [0..<field_io_DATA_WORDS]) (\<lambda>addrs.
     bind_res (mem_words m addrs) (\<lambda>words.
     let old = cell_at (mc_field m) cell in
     bind_res
       (if op = field_io_IMPORT then Inr (import_value words, words)
        else if op = field_io_EXPORT then Inr (old, bytes_words (to_bytes old))
        else refuse (DelegationFrame pc ''the op is not one FIELD_IO answers'')) (\<lambda>(new, written).
     bind_res (put_data addrs words written m) (\<lambda>(out, m).
       Inr (out @ [Some (Cell cell field_io_CELL_DELTA old new)],
            m\<lparr>mc_field := (mc_field m)(cell \<mapsto> new)\<rparr>))))))))"

definition delegate_frame :: "u32 \<Rightarrow> u32 \<Rightarrow> u32 list \<Rightarrow> u32 list emu" where
  "delegate_frame family pc old =
     (if family = family_KECCAK_F then keccak_frame pc old
      else if family = family_POSEIDON2 then poseidon2_frame pc old
      else if family = family_FR_ARITH then fr_arith_frame pc old
      else if family = family_MOD_MUL then mod_mul_frame pc old
      else if family = family_SHA256_COMP then sha256_frame pc old
      else if family = family_EC_ADD then ec_add_frame pc old
      else if family = family_FR_OP \<or> family = family_P2_FIELD \<or> family = family_FIELD_IO \<or> family = family_FQ_OP
      then Inr old
      else panic)"

text \<open>An operation on the field memory alone, inside the machine.\<close>

definition on_cells :: "(cells \<Rightarrow> (extra option list \<times> cells) emu) \<Rightarrow> machine \<Rightarrow> (extra option list \<times> machine) emu" where
  "on_cells f m = bind_res (f (mc_field m)) (\<lambda>(out, field). Inr (out, m\<lparr>mc_field := field\<rparr>))"

definition delegate_extra :: "u32 \<Rightarrow> u32 \<Rightarrow> u32 list \<Rightarrow> machine \<Rightarrow> (extra option list \<times> machine) emu" where
  "delegate_extra family pc old m =
     (if family = family_FR_OP then on_cells (fr_op pc old) m
      else if family = family_P2_FIELD then on_cells (p2_field pc old) m
      else if family = family_FIELD_IO then field_io pc old m
      else if family = family_FQ_OP then on_cells (fq_op pc old) m
      else Inr ([], m))"

definition delegate :: "u32 \<Rightarrow> u32 \<Rightarrow> u32 \<Rightarrow> machine \<Rightarrow> ((word_access list \<times> extra option list) \<times> machine) emu" where
  "delegate family pc base m =
     (case delegation_frame_words family of
        None \<Rightarrow> panic
      | Some words \<Rightarrow>
          bind_res (delegation_frame m pc base words) (\<lambda>old.
          bind_res (delegate_frame family pc old) (\<lambda>new.
          bind_res (ensure (length new = words)) (\<lambda>_.
          bind_res (delegation_writeback base old new m) (\<lambda>(frame, m).
          bind_res (delegate_extra family pc old m) (\<lambda>(extra, m).
            Inr ((frame, extra), m)))))))"

section \<open>Instructions\<close>

definition exec_op :: "machine \<Rightarrow> cycle \<Rightarrow> u8 \<Rightarrow> u8 \<Rightarrow> u8 \<Rightarrow> (u32 \<Rightarrow> u32 \<Rightarrow> u32) \<Rightarrow> (machine \<times> cycle) emu" where
  "exec_op m c rd rs1 rs2 f =
     bind_res (reg_read RoleRs1 rs1 m c) (\<lambda>(a, c).
     bind_res (reg_read RoleRs2 rs2 m c) (\<lambda>(b, c). reg_write rd (f a b) m c))"

definition exec_op_imm :: "machine \<Rightarrow> cycle \<Rightarrow> u8 \<Rightarrow> u8 \<Rightarrow> i32 \<Rightarrow> (u32 \<Rightarrow> u32 \<Rightarrow> u32) \<Rightarrow> (machine \<times> cycle) emu" where
  "exec_op_imm m c rd rs1 imm f =
     bind_res (reg_read RoleRs1 rs1 m c) (\<lambda>(a, c). reg_write rd (f a imm) m c)"

definition exec_branch ::
    "machine \<Rightarrow> cycle \<Rightarrow> u8 \<Rightarrow> u8 \<Rightarrow> u32 \<Rightarrow> u32 \<Rightarrow> (u32 \<Rightarrow> u32 \<Rightarrow> bool) \<Rightarrow> (u32 \<times> machine \<times> cycle) emu" where
  "exec_branch m c rs1 rs2 target fall taken =
     bind_res (reg_read RoleRs1 rs1 m c) (\<lambda>(a, c).
     bind_res (reg_read RoleRs2 rs2 m c) (\<lambda>(b, c).
       Inr (if taken a b then target else fall, m, c)))"

definition exec_load ::
    "machine \<Rightarrow> cycle \<Rightarrow> u32 \<Rightarrow> u8 \<Rightarrow> u8 \<Rightarrow> i32 \<Rightarrow> u32 \<Rightarrow> (u32 \<Rightarrow> u32) \<Rightarrow> (machine \<times> cycle) emu" where
  "exec_load m c pc rd rs1 imm width ext =
     bind_res (reg_read RoleRs1 rs1 m c) (\<lambda>(a, c).
     let addr = a + imm in
     bind_res (data_word m pc addr width) (\<lambda>word.
     bind_res (mem_word m word) (\<lambda>value.
     bind_res (stage RoleLoad word value value c) (\<lambda>c.
       reg_write rd (ext (shr value (unat (8 * (addr AND 3))))) m c))))"

text \<open>The word with the low \<open>width\<close> bytes of \<open>value\<close> merged in at the address's byte offset.\<close>

definition store_merge :: "u32 \<Rightarrow> u32 \<Rightarrow> u32 \<Rightarrow> u32 \<Rightarrow> u32" where
  "store_merge addr width old value =
     (let shift = unat (8 * (addr AND 3));
          msk = shl (shr (- 1) (unat (32 - 8 * width))) shift in
      (old AND NOT msk) OR (shl value shift AND msk))"

definition exec_store :: "machine \<Rightarrow> cycle \<Rightarrow> u32 \<Rightarrow> u8 \<Rightarrow> u8 \<Rightarrow> i32 \<Rightarrow> u32 \<Rightarrow> (machine \<times> cycle) emu" where
  "exec_store m c pc rs1 rs2 imm width =
     bind_res (reg_read RoleRs1 rs1 m c) (\<lambda>(a, c).
     let addr = a + imm in
     bind_res (reg_read RoleRs2 rs2 m c) (\<lambda>(value, c).
     bind_res (data_word m pc addr width) (\<lambda>word.
     bind_res (mem_word m word) (\<lambda>old.
       ram_write word old (store_merge addr width old value) m c))))"

definition exec_amo :: "machine \<Rightarrow> cycle \<Rightarrow> u32 \<Rightarrow> u8 \<Rightarrow> u8 \<Rightarrow> u8 \<Rightarrow> (u32 \<Rightarrow> u32 \<Rightarrow> u32) \<Rightarrow> (machine \<times> cycle) emu" where
  "exec_amo m c pc rd rs1 rs2 f =
     bind_res (reg_read RoleRs1 rs1 m c) (\<lambda>(addr, c).
     bind_res (reg_read RoleRs2 rs2 m c) (\<lambda>(src, c).
     bind_res (data_word m pc addr 4) (\<lambda>word.
     bind_res (mem_word m word) (\<lambda>old.
     bind_res (ram_write word old (f old src) m c) (\<lambda>(m, c). reg_write rd old m c)))))"

definition falls :: "u32 \<Rightarrow> (machine \<times> cycle) emu \<Rightarrow> (u32 \<times> machine \<times> cycle) emu" where
  "falls next r = bind_res r (\<lambda>(m, c). Inr (next, m, c))"

definition bool_word :: "bool \<Rightarrow> u32" where
  "bool_word b = (if b then 1 else 0)"

text \<open>Every instruction but \<open>ecall\<close>: its queries staged, and the next pc.\<close>

fun execute :: "instr \<Rightarrow> u32 \<Rightarrow> u32 \<Rightarrow> machine \<Rightarrow> cycle \<Rightarrow> (u32 \<times> machine \<times> cycle) emu" where
  "execute (Lui rd imm) pc fall m c = falls fall (reg_write rd imm m c)"
| "execute (Auipc rd imm) pc fall m c = falls fall (reg_write rd (pc + imm) m c)"
| "execute (Jal rd imm) pc fall m c = falls (pc + imm) (reg_write rd fall m c)"
| "execute (Jalr rd rs1 imm) pc fall m c = 
     bind_res (reg_read RoleRs1 rs1 m c) (\<lambda>(base, c).
       falls ((base + imm) AND NOT 1) (reg_write rd fall m c))"
| "execute (Beq rs1 rs2 imm) pc fall m c = exec_branch m c rs1 rs2 (pc + imm) fall (\<lambda>a b. a = b)"
| "execute (Bne rs1 rs2 imm) pc fall m c = exec_branch m c rs1 rs2 (pc + imm) fall (\<lambda>a b. a \<noteq> b)"
| "execute (Blt rs1 rs2 imm) pc fall m c = exec_branch m c rs1 rs2 (pc + imm) fall (\<lambda>a b. sint a < sint b)"
| "execute (Bge rs1 rs2 imm) pc fall m c = exec_branch m c rs1 rs2 (pc + imm) fall (\<lambda>a b. sint a \<ge> sint b)"
| "execute (Bltu rs1 rs2 imm) pc fall m c = exec_branch m c rs1 rs2 (pc + imm) fall (\<lambda>a b. a < b)"
| "execute (Bgeu rs1 rs2 imm) pc fall m c = exec_branch m c rs1 rs2 (pc + imm) fall (\<lambda>a b. a \<ge> b)"
| "execute (Lb rd rs1 imm) pc fall m c = falls fall (exec_load m c pc rd rs1 imm 1 (\<lambda>v. scast (ucast v :: u8)))"
| "execute (Lh rd rs1 imm) pc fall m c = falls fall (exec_load m c pc rd rs1 imm 2 (\<lambda>v. scast (ucast v :: u16)))"
| "execute (Lw rd rs1 imm) pc fall m c = falls fall (exec_load m c pc rd rs1 imm 4 (\<lambda>v. v))"
| "execute (Lbu rd rs1 imm) pc fall m c = falls fall (exec_load m c pc rd rs1 imm 1 (\<lambda>v. ucast (ucast v :: u8)))"
| "execute (Lhu rd rs1 imm) pc fall m c = falls fall (exec_load m c pc rd rs1 imm 2 (\<lambda>v. ucast (ucast v :: u16)))"
| "execute (Sb rs1 rs2 imm) pc fall m c = falls fall (exec_store m c pc rs1 rs2 imm 1)"
| "execute (Sh rs1 rs2 imm) pc fall m c = falls fall (exec_store m c pc rs1 rs2 imm 2)"
| "execute (Sw rs1 rs2 imm) pc fall m c = falls fall (exec_store m c pc rs1 rs2 imm 4)"
| "execute (Addi rd rs1 imm) pc fall m c = falls fall (exec_op_imm m c rd rs1 imm (\<lambda>a i. a + i))"
| "execute (Slti rd rs1 imm) pc fall m c = falls fall (exec_op_imm m c rd rs1 imm (\<lambda>a i. bool_word (sint a < sint i)))"
| "execute (Sltiu rd rs1 imm) pc fall m c = falls fall (exec_op_imm m c rd rs1 imm (\<lambda>a i. bool_word (a < i)))"
| "execute (Xori rd rs1 imm) pc fall m c = falls fall (exec_op_imm m c rd rs1 imm (\<lambda>a i. a XOR i))"
| "execute (Ori rd rs1 imm) pc fall m c = falls fall (exec_op_imm m c rd rs1 imm (\<lambda>a i. a OR i))"
| "execute (Andi rd rs1 imm) pc fall m c = falls fall (exec_op_imm m c rd rs1 imm (\<lambda>a i. a AND i))"
| "execute (Slli rd rs1 shamt) pc fall m c = falls fall (exec_op_imm m c rd rs1 (ucast shamt) (\<lambda>a s. shl a (unat s)))"
| "execute (Srli rd rs1 shamt) pc fall m c = falls fall (exec_op_imm m c rd rs1 (ucast shamt) (\<lambda>a s. shr a (unat s)))"
| "execute (Srai rd rs1 shamt) pc fall m c = falls fall (exec_op_imm m c rd rs1 (ucast shamt) (\<lambda>a s. sar a (unat s)))"
| "execute (Add rd rs1 rs2) pc fall m c = falls fall (exec_op m c rd rs1 rs2 (\<lambda>a b. a + b))"
| "execute (Sub rd rs1 rs2) pc fall m c = falls fall (exec_op m c rd rs1 rs2 (\<lambda>a b. a - b))"
| "execute (Sll rd rs1 rs2) pc fall m c = falls fall (exec_op m c rd rs1 rs2 (\<lambda>a b. shl a (unat (b AND 31))))"
| "execute (Slt rd rs1 rs2) pc fall m c = falls fall (exec_op m c rd rs1 rs2 (\<lambda>a b. bool_word (sint a < sint b)))"
| "execute (Sltu rd rs1 rs2) pc fall m c = falls fall (exec_op m c rd rs1 rs2 (\<lambda>a b. bool_word (a < b)))"
| "execute (Xor rd rs1 rs2) pc fall m c = falls fall (exec_op m c rd rs1 rs2 (\<lambda>a b. a XOR b))"
| "execute (Srl rd rs1 rs2) pc fall m c = falls fall (exec_op m c rd rs1 rs2 (\<lambda>a b. shr a (unat (b AND 31))))"
| "execute (Sra rd rs1 rs2) pc fall m c = falls fall (exec_op m c rd rs1 rs2 (\<lambda>a b. sar a (unat (b AND 31))))"
| "execute (Or rd rs1 rs2) pc fall m c = falls fall (exec_op m c rd rs1 rs2 (\<lambda>a b. a OR b))"
| "execute (And rd rs1 rs2) pc fall m c = falls fall (exec_op m c rd rs1 rs2 (\<lambda>a b. a AND b))"
| "execute (Fence p s f) pc fall m c = Inr (fall, m, c)"
| "execute Ebreak pc fall m c = refuse (EbreakTrap pc)"
| "execute Ecall pc fall m c = panic"
| "execute (Mul rd rs1 rs2) pc fall m c = falls fall (exec_op m c rd rs1 rs2 (\<lambda>a b. a * b))"
| "execute (Mulh rd rs1 rs2) pc fall m c = falls fall (exec_op m c rd rs1 rs2 (\<lambda>a b. ucast (sar (scast a * scast b :: u64) 32)))"
| "execute (Mulhsu rd rs1 rs2) pc fall m c = falls fall (exec_op m c rd rs1 rs2 (\<lambda>a b. ucast (sar (scast a * ucast b :: u64) 32)))"
| "execute (Mulhu rd rs1 rs2) pc fall m c = falls fall (exec_op m c rd rs1 rs2 (\<lambda>a b. ucast (shr (ucast a * ucast b :: u64) 32)))"
| "execute (Div rd rs1 rs2) pc fall m c = falls fall (exec_op m c rd rs1 rs2 (\<lambda>a b. if b = 0 then - 1 else word_of_int (sint a sdiv sint b)))"
| "execute (Divu rd rs1 rs2) pc fall m c = falls fall (exec_op m c rd rs1 rs2 (\<lambda>a b. if b = 0 then - 1 else a div b))"
| "execute (Rem rd rs1 rs2) pc fall m c = falls fall (exec_op m c rd rs1 rs2 (\<lambda>a b. if b = 0 then a else word_of_int (sint a smod sint b)))"
| "execute (Remu rd rs1 rs2) pc fall m c = falls fall (exec_op m c rd rs1 rs2 (\<lambda>a b. if b = 0 then a else a mod b))"
| "execute (LrW rd rs1 aq rl) pc fall m c = 
     bind_res (reg_read RoleRs1 rs1 m c) (\<lambda>(addr, c).
     bind_res (data_word m pc addr 4) (\<lambda>word.
     bind_res (mem_word m word) (\<lambda>old.
     bind_res (ram_write word old old m c) (\<lambda>(m, c). falls fall (reg_write rd old m c)))))"
| "execute (ScW rd rs1 rs2 aq rl) pc fall m c = 
     bind_res (reg_read RoleRs1 rs1 m c) (\<lambda>(addr, c).
     bind_res (reg_read RoleRs2 rs2 m c) (\<lambda>(src, c).
     bind_res (data_word m pc addr 4) (\<lambda>word.
     bind_res (mem_word m word) (\<lambda>old.
     bind_res (ram_write word old src m c) (\<lambda>(m, c). falls fall (reg_write rd 0 m c))))))"
| "execute (AmoswapW rd rs1 rs2 aq rl) pc fall m c = falls fall (exec_amo m c pc rd rs1 rs2 (\<lambda>_ b. b))"
| "execute (AmoaddW rd rs1 rs2 aq rl) pc fall m c = falls fall (exec_amo m c pc rd rs1 rs2 (\<lambda>a b. a + b))"
| "execute (AmoxorW rd rs1 rs2 aq rl) pc fall m c = falls fall (exec_amo m c pc rd rs1 rs2 (\<lambda>a b. a XOR b))"
| "execute (AmoandW rd rs1 rs2 aq rl) pc fall m c = falls fall (exec_amo m c pc rd rs1 rs2 (\<lambda>a b. a AND b))"
| "execute (AmoorW rd rs1 rs2 aq rl) pc fall m c = falls fall (exec_amo m c pc rd rs1 rs2 (\<lambda>a b. a OR b))"
| "execute (AmominW rd rs1 rs2 aq rl) pc fall m c = falls fall (exec_amo m c pc rd rs1 rs2 (\<lambda>a b. if sint b < sint a then b else a))"
| "execute (AmomaxW rd rs1 rs2 aq rl) pc fall m c = falls fall (exec_amo m c pc rd rs1 rs2 (\<lambda>a b. if sint a < sint b then b else a))"
| "execute (AmominuW rd rs1 rs2 aq rl) pc fall m c = falls fall (exec_amo m c pc rd rs1 rs2 (\<lambda>a b. min a b))"
| "execute (AmomaxuW rd rs1 rs2 aq rl) pc fall m c = falls fall (exec_amo m c pc rd rs1 rs2 (\<lambda>a b. max a b))"

section \<open>Steps\<close>

abbreviation (input) HALT_PC :: u32 where "HALT_PC \<equiv> 1"

definition fetch :: "machine \<Rightarrow> u32 \<Rightarrow> (instr \<times> bool) emu" where
  "fetch m pc =
     (let d = pc - mc_slot_base m; i = unat (d div 2) in
      if mc_slot_base m \<le> pc \<and> d mod 2 = 0 \<and> i < length (mc_code m)
      then (case mc_code m ! i of
              Code instr compressed \<Rightarrow> Inr (instr, compressed)
            | Illegal word \<Rightarrow> refuse (IllegalInstruction pc word)
            | NotCode \<Rightarrow> refuse (NotAnInstruction pc))
      else refuse (NotAnInstruction pc))"

definition commit :: "cycle \<Rightarrow> instr \<Rightarrow> u32 \<Rightarrow> u32 \<Rightarrow> machine \<Rightarrow> machine emu" where
  "commit c instr pc next_pc m =
     (let number = mc_cycle m in
      if TS_STEP * number + (TS_STEP - 1) \<ge> shl 1 TS_BITS then refuse (ClockOverflow number)
      else
        bind_res
          (case mc_recorder m of
             None \<Rightarrow> Inr m
           | Some r \<Rightarrow> bind_res (recorder_record number pc next_pc instr c r) (\<lambda>r. Inr (m\<lparr>mc_recorder := Some r\<rparr>)))
          (\<lambda>m. Inr (m\<lparr>mc_cycle := mc_cycle m + 1, mc_pc := next_pc\<rparr>)))"

definition ecall_index :: "u32 \<Rightarrow> nat option" where
  "ecall_index n = position (\<lambda>(_, number, _). number = n) DELEGATIONS"

text \<open>The delegation arm: the family must have a buffer when tracing; \<open>a0\<close> gets the base past the frame.\<close>

definition ecall_delegate :: "u32 \<Rightarrow> u32 \<Rightarrow> u32 \<Rightarrow> machine \<Rightarrow> cycle \<Rightarrow> (u32 \<times> machine \<times> cycle) emu" where
  "ecall_delegate family number pc m c =
     bind_res (reg_read RoleRs2 10 m c) (\<lambda>(base, c).
     bind_res
       (case mc_recorder m of
          Some r \<Rightarrow> if traces_delegation (rc_traces r) family = None
                    then refuse (DelegationFamilyAbsent pc number) else Inr ()
        | None \<Rightarrow> Inr ()) (\<lambda>_.
     bind_res (delegate family pc base m) (\<lambda>((frame, extra), m).
     bind_res (stage RoleDelegate base 0 0 c) (\<lambda>c.
     case ecall_index number of
       None \<Rightarrow> panic
     | Some index \<Rightarrow>
         bind_res (a0_after index base) (\<lambda>result.
           Inr (result, m, c\<lparr>cy_delegation := Some (family, base, frame, extra)\<rparr>))))))"

definition ecall :: "instr \<Rightarrow> u32 \<Rightarrow> u32 \<Rightarrow> machine \<Rightarrow> machine emu" where
  "ecall instr pc fall m =
     bind_res (reg_read RoleRs1 17 m cycle_new) (\<lambda>(number, c).
     bind_res
       (if number = ecall_EXIT then
          bind_res (reg_read RoleRs2 10 m c) (\<lambda>(status, c). Inr (status, m\<lparr>mc_exit := Some status\<rparr>, c))
        else
          (case delegation_family number of
             Some family \<Rightarrow> ecall_delegate family number pc m c
           | None \<Rightarrow> Inr (- ecall_ENOSYS, m, c))) (\<lambda>(result, m, c).
     bind_res (reg_write 10 result m c) (\<lambda>(m, c).
       commit c instr pc (if number = ecall_EXIT then HALT_PC else fall) m)))"

definition step :: "machine \<Rightarrow> machine emu" where
  "step m =
     (let pc = mc_pc m in
      bind_res (fetch m pc) (\<lambda>(instr, compressed).
      let fall = pc + (if compressed then 2 else 4) in
      if instr = Ecall then ecall instr pc fall m
      else
        bind_res (execute instr pc fall m cycle_new) (\<lambda>(next_pc, m, c).
          commit c instr pc next_pc m)))"

end
