(* ===== verification/Outcome.thy ===== *)
theory Outcome
  imports Prelude
begin

text \<open>
  The two ends a checked operation may have: \<open>returns r P\<close> says that \<open>r\<close> is not a panic and that what it
  returns, if it is not refused, satisfies \<open>P\<close>. The rules follow the error monad, so that the safety of
  an operation is proved call by call.
\<close>

definition returns :: "'e fault + 'a \<Rightarrow> ('a \<Rightarrow> bool) \<Rightarrow> bool" where
  "returns r P \<longleftrightarrow> (case r of Inl f \<Rightarrow> f \<noteq> Panicked | Inr x \<Rightarrow> P x)"

named_theorems safe \<open>operations that do not panic, with what they return\<close>

lemma returns_simps [simp]: "returns (Inr x) P = P x" "returns (refuse e) P" "\<not> returns panic P"
  by (simp_all add: returns_def refuse_def panic_def)

lemma returns_bind: "returns r P \<Longrightarrow> (\<And>x. P x \<Longrightarrow> returns (f x) Q) \<Longrightarrow> returns (bind_res r f) Q"
  by (cases r) (auto simp: returns_def split: fault.splits)

lemma returns_mono: "returns r P \<Longrightarrow> (\<And>x. P x \<Longrightarrow> Q x) \<Longrightarrow> returns r Q"
  by (auto simp: returns_def split: sum.splits)

lemma returns_conj: "returns r P \<Longrightarrow> returns r Q \<Longrightarrow> returns r (\<lambda>x. P x \<and> Q x)"
  by (auto simp: returns_def split: sum.splits)

lemma returns_eq: "returns r (\<lambda>x. r = Inr x) \<longleftrightarrow> r \<noteq> panic"
  by (cases r) (auto simp: returns_def panic_def)

lemma returnsD: "returns r P \<Longrightarrow> r \<noteq> panic" "returns r P \<Longrightarrow> r = Inr x \<Longrightarrow> P x"
  by (auto simp: returns_def panic_def)

lemma returns_panicked: "returns r P \<Longrightarrow> r \<noteq> Inl Panicked"
  by (auto simp: returns_def)

lemma returnsI: "r \<noteq> panic \<Longrightarrow> (\<And>x. r = Inr x \<Longrightarrow> P x) \<Longrightarrow> returns r P"
  by (cases r) (auto simp: returns_def panic_def)

text \<open>What holds whenever the operation returns, panicking or not.\<close>

definition yields :: "'e + 'a \<Rightarrow> ('a \<Rightarrow> bool) \<Rightarrow> bool" where
  "yields r P \<longleftrightarrow> (\<forall>x. r = Inr x \<longrightarrow> P x)"

lemma yields_simps [simp]: "yields (Inr x) P = P x" "yields (Inl e) P" "yields (refuse f) P" "yields panic P"
  by (simp_all add: yields_def)

lemma yields_bind: "yields r P \<Longrightarrow> (\<And>x. P x \<Longrightarrow> yields (f x) Q) \<Longrightarrow> yields (bind_res r f) Q"
  by (cases r) (auto simp: yields_def)

lemma yields_any: "(\<And>x. yields (f x) Q) \<Longrightarrow> yields (bind_res r f) Q"
  by (cases r) (auto simp: yields_def)

lemma yieldsD: "yields r P \<Longrightarrow> r = Inr x \<Longrightarrow> P x"
  by (simp add: yields_def)

lemma yieldsI: "(\<And>x. r = Inr x \<Longrightarrow> P x) \<Longrightarrow> yields r P"
  by (simp add: yields_def)

lemma returns_yields: "returns r P \<Longrightarrow> yields r P"
  by (auto simp: returns_def yields_def)

section \<open>Bounds checks\<close>

lemma returns_idx [safe]: "i < length xs \<Longrightarrow> returns (idx xs i) (\<lambda>x. x = xs ! i)"
  by (simp add: idx_def)

lemma returns_set_at [safe]: "i < length xs \<Longrightarrow> returns (set_at xs i v) (\<lambda>ys. ys = xs[i := v])"
  by (simp add: set_at_def)

lemma returns_slice [safe]:
  "from \<le> to \<Longrightarrow> to \<le> length xs \<Longrightarrow> returns (slice xs from to) (\<lambda>ys. ys = take (to - from) (drop from xs))"
  by (simp add: slice_def)

lemma returns_ensure [safe]: "b \<Longrightarrow> returns (ensure b) (\<lambda>_. True)"
  by (simp add: ensure_def)

text \<open>A bind whose first half is known: the checks that cannot fail.\<close>

lemma bind_idx: "i < length xs \<Longrightarrow> bind_res (idx xs i) f = f (xs ! i)"
  by (simp add: idx_def)

lemma bind_set_at: "i < length xs \<Longrightarrow> bind_res (set_at xs i v) f = f (xs[i := v])"
  by (simp add: set_at_def)

lemma bind_ensure: "b \<Longrightarrow> bind_res (ensure b) f = f ()"
  by (simp add: ensure_def)

text \<open>Congruence for recursion through the error monad.\<close>

lemma bind_res_cong [fundef_cong]:
  "r = r' \<Longrightarrow> (\<And>x. r' = Inr x \<Longrightarrow> f x = g x) \<Longrightarrow> bind_res r f = bind_res r' g"
  by (cases r') auto

end
