(* ===== verification/Frame_Safety.thy ===== *)
theory Frame_Safety
  imports Machine Outcome Arith_Frames Sha256 Keccak
begin

text \<open>
  No delegation frame and no field operation panics: over a frame of its family's width, and a field
  memory of canonical elements, each is answered in full or refused by name.
\<close>

unbundle bit_operations_syntax

section \<open>Hash and field frames\<close>

lemma keccak_frame_returns:
  assumes "length old = keccak_FRAME_WORDS"
  shows "returns (keccak_frame pc old) (\<lambda>new. length new = keccak_FRAME_WORDS)"
proof -
  have "length (keccak_ROUND_CONSTANTS) = 24"
    by (simp add: keccak_ROUND_CONSTANTS_def)
  then have "returns (keccak_round l (unat (old ! 0))) (\<lambda>_. True)" if "unat (old ! 0) < 24" for l
    using that by (simp add: keccak_round_def Let_def bind_idx)
  then show ?thesis
    using assms
    by (auto simp: keccak_frame_def bind_idx frame_words_def Let_def intro!: returns_bind [where P = "\<lambda>_. True"]
        simp: slice_def not_le)
qed

lemma sha256_call_lengths:
  assumes "sha256_call grp s w = Inr (s', w')" "length s = 8" "length w = 16"
  shows "length s' = 8" "length w' = 16"
proof -
  have round: "length (sha256_round s k x) = length s" for s k x
    by (cases "(s, k, x)" rule: sha256_round.cases) (simp_all add: Let_def)
  have "length (foldl (\<lambda>s k. sha256_round s (K k) (W k)) s ks) = length s" for K W s and ks :: "nat list"
    by (induction ks arbitrary: s) (simp_all add: round)
  moreover have "length (foldl (\<lambda>x m. sha256_schedule x (n + m)) w ms) = length w + length ms" for n w and ms :: "nat list"
    by (induction ms arbitrary: w) (simp_all add: sha256_schedule_def Let_def)
  ultimately show "length s' = 8" "length w' = 16"
    using assms by (auto simp: sha256_call_def)
qed

lemma sha256_frame_returns:
  assumes "length old = sha256_FRAME_WORDS"
  shows "returns (sha256_frame pc old) (\<lambda>new. length new = sha256_FRAME_WORDS)"
proof -
  have "returns (sha256_call (unat (old ! 0)) s w :: (u32 list \<times> u32 list) emu)
      (\<lambda>(s', w'). length s' = 8 \<and> length w' = 16)"
    if "unat (old ! 0) < 16" "length s = 8" "length w = 16" for s w
    using that sha256_call_lengths [of "unat (old ! 0)" s w] by (intro returnsI)
      (auto simp: sha256_call_def ensure_def sha256_ROUND_CONSTANTS_def)
  then show ?thesis
    using assms
    by (auto simp: sha256_frame_def bind_idx frame_words_def slice_def not_le
        intro!: returns_bind [where P = "\<lambda>(s', w'). length s' = 8 \<and> length w' = 16"])
qed

lemma length_reference: "length vs = 3 \<Longrightarrow> length (poseidon2_reference vs) = 3"
proof -
  have layers: "length (external_layer s) = 3" "length (internal_layer s) = 3" for s
    by (simp_all add: external_layer_def internal_layer_def)
  have "length (foldl full_layer s rows) = 3" if "length s = 3" for s rows
    using that by (induction rows arbitrary: s) (simp_all add: full_layer_def layers)
  moreover have "length (foldl partial_layer s cs) = 3" if "length s = 3" for s cs
    using that by (induction cs arbitrary: s) (simp_all add: partial_layer_def layers)
  ultimately show ?thesis
    by (simp add: poseidon2_reference_def layers)
qed

lemma length_words8_concat: "length (concat (map words8 vs)) = 8 * length vs"
  by (induction vs) simp_all

lemma poseidon2_frame_returns:
  assumes "length old = poseidon2_FRAME_WORDS"
  shows "returns (poseidon2_frame pc old) (\<lambda>new. length new = poseidon2_FRAME_WORDS)"
  using poseidon2_frame_value [OF assms, of pc]
  by (simp add: Let_def length_words8_concat length_reference)

lemma mod_mul_frame_returns:
  assumes "length old = mod_mul_FRAME_WORDS"
  shows "returns (mod_mul_frame pc old) (\<lambda>new. length new = mod_mul_FRAME_WORDS)"
  using mod_mul_frame_value [OF assms, of pc] assms
  by (simp add: Let_def split: option.splits)

lemma from_memory_bytes_ok: "from_memory_bytes bs = Some x \<Longrightarrow> fr_ok x"
  by (auto simp: from_memory_bytes_def Let_def fr_ok_def limbs_ok_def length_bytes_limbs is_ge_modulus_val
      split: if_splits)

lemma fr_inverse_ok: "fr_ok x \<Longrightarrow> fr_inverse x = Some y \<Longrightarrow> fr_ok y"
  by (auto simp: fr_inverse_def fr_pow_ok split: if_splits)

lemma length_memory_bytes: "fr_ok x \<Longrightarrow> length (to_memory_bytes x) = 32"
  by (simp add: to_memory_bytes_def fr_ok_def limbs_ok_def length_limbs_bytes)

lemma fr_operand_returns:
  "first + 8 \<le> length old \<Longrightarrow> returns (fr_operand pc old first) fr_ok"
  by (auto simp: fr_operand_def value_bytes_eq from_memory_bytes_ok split: option.splits)

lemma fr_arith_frame_returns:
  assumes "length old = fr_arith_FRAME_WORDS"
  shows "returns (fr_arith_frame pc old) (\<lambda>new. length new = fr_arith_FRAME_WORDS)"
  unfolding fr_arith_frame_def
proof (rule returns_bind [OF fr_operand_returns], use assms in simp, rule returns_bind [OF fr_operand_returns],
    use assms in simp)
  fix a b
  assume ab: "fr_ok a" "fr_ok b"
  have inv: "fr_ok (case fr_inverse a of None \<Rightarrow> fr_zero | Some x \<Rightarrow> x)"
    using fr_inverse_ok [OF ab(1)] by (simp add: fr_consts split: option.split)
  have "returns (write_value old 17 (to_memory_bytes r) :: u32 list emu) (\<lambda>new. length new = 25)" if "fr_ok r" for r
    using assms length_memory_bytes [OF that] by (simp add: write_value_eq)
  then show "returns
     (bind_res (idx old fr_arith_OPCODE_WORD) (\<lambda>code.
      bind_res
       (if code = fr_arith_OP_ADD then Inr (fr_add a b)
        else if code = fr_arith_OP_MUL then Inr (fr_mul a b)
        else if code = fr_arith_OP_INV then Inr (case fr_inverse a of None \<Rightarrow> fr_zero | Some x \<Rightarrow> x)
        else refuse (DelegationFrame pc ''the operation code is not add, mul or inverse'')) (\<lambda>out.
       write_value old fr_arith_OUT_WORD (to_memory_bytes out))))
     (\<lambda>new. length new = fr_arith_FRAME_WORDS)"
    using assms ab inv by (auto simp: bind_idx fr_add_ok fr_mul_ok intro!: returns_bind [where P = fr_ok])
qed

section \<open>Point addition\<close>

text \<open>A value below the modulus, and the operations that stay there.\<close>

definition element :: "wide \<Rightarrow> wide \<Rightarrow> bool" where
  "element m v \<longleftrightarrow> wide_ok v \<and> wval v < wval m"

lemma element_residue: "modulus_ok m \<Longrightarrow> element m v \<Longrightarrow> residue m v (int (wval v))"
  by (simp add: element_def residue_def)

lemma residue_element: "modulus_ok m \<Longrightarrow> residue m v x \<Longrightarrow> element m v"
  using residueD [of m v x] by (simp add: element_def)

lemma element_add: "modulus_ok m \<Longrightarrow> element m a \<Longrightarrow> element m b \<Longrightarrow> element m (add_mod a b m)"
  and element_sub: "modulus_ok m \<Longrightarrow> element m a \<Longrightarrow> element m b \<Longrightarrow> element m (sub_mod a b m)"
  by (blast intro: residue_element residue_add residue_sub element_residue)+

lemma mul_mod_returns:
  assumes "modulus_ok m" "element m a" "element m b"
  shows "returns (mul_mod a b m :: 'e fault + wide) (element m)"
  using residue_mul [OF assms(1) element_residue [OF assms(1,2)] element_residue [OF assms(1,3)]]
    residue_element [OF assms(1)] by (metis returns_simps(1))

lemma scale_mod_returns:
  assumes "modulus_ok m" "element m a"
  shows "returns (scale_mod k a m :: 'e fault + wide) (element m)"
  using residue_scale [OF assms(1) element_residue [OF assms]] residue_element [OF assms(1)]
  by (metis returns_simps(1))

lemma put3_returns:
  assumes "element m a" "element m b" "element m c"
    "at1 + 8 \<le> length f" "at2 + 8 \<le> length f" "at3 + 8 \<le> length f"
  shows "returns (put3 f (at1, a) (at2, b) (at3, c) :: 'e fault + u32 list) (\<lambda>new. length new = length f)"
proof -
  have w: "returns (put_wide g at v :: 'e fault + u32 list) (\<lambda>h. length h = length f)"
    if "element m v" "at + 8 \<le> length f" "length g = length f" for g at v
    using that put_wide_eq [of v at g, where 'a = 'e] by (simp add: element_def)
  show ?thesis
    unfolding put3_def fst_conv snd_conv using assms by (intro returns_bind [OF w] w) auto
qed

lemmas ec_steps = returns_bind [OF mul_mod_returns] returns_bind [OF scale_mod_returns] element_add element_sub

lemma ec_add_groups_return:
  assumes m: "modulus_ok m" "length old = 97" and vs: "length vs = 6" "list_all (element m) vs"
  shows "returns (ec_add_group0 old m vs :: 'e fault + u32 list) (\<lambda>new. length new = 97)"
    "returns (ec_add_group1 old m vs :: 'e fault + u32 list) (\<lambda>new. length new = 97)"
    "returns (ec_add_group2 b3 old m vs :: 'e fault + u32 list) (\<lambda>new. length new = 97)"
proof -
  obtain a b c d e f where v: "vs = [a, b, c, d, e, f]"
    using vs(1) by (auto simp: eval_nat_numeral length_Suc_conv)
  then have el: "element m a" "element m b" "element m c" "element m d" "element m e" "element m f"
    using vs(2) by simp_all
  have put: "returns (put3 old (at1, x) (at2, y) (at3, z) :: 'e fault + u32 list) (\<lambda>new. length new = 97)"
    if "element m x" "element m y" "element m z" "at1 + 8 \<le> 97" "at2 + 8 \<le> 97" "at3 + 8 \<le> 97" for x y z at1 at2 at3
    using put3_returns [OF that(1-3), of at1 old at2 at3] that(4-6) m(2) by simp
  show "returns (ec_add_group0 old m vs :: 'e fault + u32 list) (\<lambda>new. length new = 97)"
    "returns (ec_add_group1 old m vs :: 'e fault + u32 list) (\<lambda>new. length new = 97)"
    "returns (ec_add_group2 b3 old m vs :: 'e fault + u32 list) (\<lambda>new. length new = 97)"
    unfolding v ec_add_group0.simps ec_add_group1.simps ec_add_group2.simps Let_def
    by ((intro ec_steps put m(1) el | assumption | simp)+)
qed

lemma ec_add_operands_return:
  assumes m: "modulus_ok m" and "list_all (\<lambda>(d, first). first + 8 \<le> length old) reads"
  shows "returns (ec_add_operands pc old m reads) (\<lambda>vs. length vs = length reads \<and> list_all (element m) vs)"
  using assms(2)
proof (induction reads)
  case (Cons r reads)
  obtain d first where r: "r = (d, first)"
    by fastforce
  let ?v = "map ucast (take 8 (drop first old))"
  have v: "frame_wide old first = Inr ?v" "wide_ok ?v"
    using Cons.prems frame_wide_eq frame_wide_ok by (auto simp: r)
  have less: "less_than ?v m \<longleftrightarrow> element m ?v"
    using v(2) less_than_value [of ?v m] m by (simp add: element_def modulus_ok_def)
  show ?case
    using Cons by (auto simp: r v(1) less intro: returns_bind)
qed simp

lemma ec_add_frame_returns:
  assumes "length old = ec_add_FRAME_WORDS"
  shows "returns (ec_add_frame pc old) (\<lambda>new. length new = ec_add_FRAME_WORDS)"
proof -
  have old: "length old = 97"
    using assms by simp
  have *: "returns (bind_res (ec_add_operands pc old m (ec_add_reads g)) (\<lambda>vs.
          if g = 0 then ec_add_group0 old m vs else if g = 1 then ec_add_group1 old m vs
          else ec_add_group2 b3 old m vs)) (\<lambda>new. length new = 97)"
    if "modulus_ok m" for m b3 g
  proof (rule returns_bind [OF ec_add_operands_return [OF that]])
    show "list_all (\<lambda>(d, first). first + 8 \<le> length old) (ec_add_reads g)"
      using old by (simp add: ec_add_reads_def)
    fix vs
    assume "length vs = length (ec_add_reads g) \<and> list_all (element m) vs"
    moreover have "length (ec_add_reads g) = 6"
      by (simp add: ec_add_reads_def)
    ultimately show "returns (if g = 0 then ec_add_group0 old m vs else if g = 1 then ec_add_group1 old m vs
        else ec_add_group2 b3 old m vs) (\<lambda>new. length new = 97)"
      using ec_add_groups_return [OF that old, of vs] by auto
  qed
  show ?thesis
    using assms * curve_modulus_ok
    by (auto simp: ec_add_frame_def bind_idx Let_def split: option.splits)
qed

section \<open>The field memory\<close>

definition cells_ok :: "cells \<Rightarrow> bool" where
  "cells_ok field \<longleftrightarrow> (\<forall>c v. field c = Some v \<longrightarrow> fr_ok v)"

lemma cells_ok_empty [simp]: "cells_ok (\<lambda>_. None)"
  by (simp add: cells_ok_def)

lemma cells_ok_update: "cells_ok field \<Longrightarrow> fr_ok v \<Longrightarrow> cells_ok (field(c \<mapsto> v))"
  by (simp add: cells_ok_def)

lemma cell_at_ok: "cells_ok field \<Longrightarrow> fr_ok (cell_at field c)"
  by (auto simp: cell_at_def cells_ok_def fr_consts split: option.split)

lemma from_u64_ok [simp]: "fr_ok (from_u64 x)"
  using from_u64_value by simp

lemma length_to_bytes: "fr_ok x \<Longrightarrow> length (to_bytes x) = 32"
  using to_bytes_val by simp

lemma fr_op_value_returns:
  assumes "fr_ok a" "fr_ok b" "fr_ok d" "fr_ok imm"
  shows "returns (fr_op_value pc op a b d imm) (\<lambda>(_, _, new). \<forall>v. new = Some v \<longrightarrow> fr_ok v)"
  using assms fr_inverse_ok [OF assms(1)]
  by (simp add: fr_op_value_def fr_add_ok fr_sub_ok fr_mul_ok fr_consts split: option.split)

lemma fr_op_digit_returns:
  assumes "cells_ok field"
  shows "returns (fr_op_digit dc ac bc field :: (extra option list \<times> cells) emu) (\<lambda>(out, field'). length out = 3 \<and> cells_ok field')"
proof -
  let ?n = "shl 1 (unat fr_op_DIGIT_BITS) :: u64"
  have "canon (from_u64 ?n) = 256"
    using from_u64_value [of ?n] by simp
  then have "from_u64 ?n \<noteq> fr_zero"
    using fr_consts(2) by auto
  then obtain y where y: "fr_inverse (from_u64 ?n) = Some y" "fr_ok y"
    using fr_inverse_ok [of "from_u64 ?n"] by (auto simp: fr_inverse_def)
  show ?thesis
    using assms y
    by (simp add: fr_op_digit_def bind_idx length_to_bytes cell_at_ok Let_def cells_ok_update fr_mul_ok fr_sub_ok)
qed

lemma fr_op_returns:
  assumes "length frame = fr_op_FRAME_WORDS" "cells_ok field"
  shows "returns (fr_op pc frame field) (\<lambda>(out, field'). length out = fr_op_ACCESSES \<and> cells_ok field')"
proof -
  have "returns (bind_res (fr_op_value pc (frame ! 0) (cell_at field (frame ! 2)) (cell_at field (frame ! 3))
        (cell_at field (frame ! 1)) (from_u64 (ucast (frame ! 3)))) (\<lambda>(reads_a, reads_b, new).
          Inr ([if reads_a then Some (Cell (frame ! 2) fr_op_DELTA_A (cell_at field (frame ! 2)) (cell_at field (frame ! 2))) else None,
                if reads_b then Some (Cell (frame ! 3) fr_op_DELTA_B (cell_at field (frame ! 3)) (cell_at field (frame ! 3))) else None,
                map_option (\<lambda>v. Cell (frame ! 1) fr_op_DELTA_D (cell_at field (frame ! 1)) v) new],
               case new of None \<Rightarrow> field | Some v \<Rightarrow> field(frame ! 1 \<mapsto> v))))
      (\<lambda>(out, field'). length out = fr_op_ACCESSES \<and> cells_ok field')"
    by (rule returns_bind [OF fr_op_value_returns])
      (use assms in \<open>auto simp: cell_at_ok cells_ok_update split: option.splits\<close>)
  then show ?thesis
    using assms fr_op_digit_returns [OF assms(2)] by (simp add: fr_op_def bind_idx Let_def del: One_nat_def)
qed

lemma put_lanes_ok:
  "cells_ok field \<Longrightarrow> list_all fr_ok ls \<Longrightarrow> put_lanes cell ls field = (out, field') \<Longrightarrow>
    length out = length ls \<and> cells_ok field'"
proof (induction ls arbitrary: cell field out field')
  case (Cons v vs)
  obtain out1 field1 where r: "put_lanes (cell + 1) vs (field(cell \<mapsto> v)) = (out1, field1)"
    by fastforce
  have "cells_ok (field(cell \<mapsto> v))"
    using Cons.prems by (simp add: cells_ok_update)
  from Cons.IH [OF this _ r] show ?case
    using Cons.prems r by auto
qed simp

lemma p2_field_returns:
  assumes "length frame = p2_field_FRAME_WORDS" "cells_ok field"
  shows "returns (p2_field pc frame field) (\<lambda>(out, field'). length out = p2_field_ACCESSES \<and> cells_ok field')"
proof -
  have permute: "returns (poseidon2_permute ls :: fr list emu) lanes_ok" if "lanes_ok ls" for ls
    using poseidon2_permute_value [OF that, where 'e = emu_error] by (metis returns_simps(1))
  have main: "returns (bind_res (poseidon2_permute ls) (\<lambda>ls. case put_lanes d ls field of (next, field') \<Rightarrow>
        Inr (A @ x # y # next, field')) :: (extra option list \<times> cells) emu)
      (\<lambda>(out, field'). length out = p2_field_ACCESSES \<and> cells_ok field')"
    if "lanes_ok ls" "length A = 3" for ls d A x y
  proof (rule returns_bind [OF permute [OF that(1)]])
    fix ls'
    assume "lanes_ok ls'"
    then show "returns (case put_lanes d ls' field of (next, field') \<Rightarrow> Inr (A @ x # y # next, field'))
      (\<lambda>(out, field'). length out = p2_field_ACCESSES \<and> cells_ok field')"
      using put_lanes_ok [OF assms(2), of ls' d] that(2) by (cases "put_lanes d ls' field") (simp add: lanes_ok_def)
  qed
  have ok: "lanes_ok [x, y, fr_add z (from_u64 w)]" if "fr_ok x" "fr_ok y" "fr_ok z" for x y z w
    using that by (simp add: lanes_ok_def fr_add_ok)
  show ?thesis
    using assms by (auto simp: p2_field_def bind_idx Let_def cell_at_ok fr_consts intro!: main ok)
qed

lemma fq_modulus_ok: "modulus_ok (wide_of fq_op_Q)"
proof -
  have "wide_of fq_op_Q = map (\<lambda>k. shr (fq_op_Q ! (k div 2)) (32 * (k mod 2)) AND 0xffffffff) [0, 1, 2, 3, 4, 5, 6, 7]"
    by (simp add: wide_of_def LIMBS_def upt_0_8)
  then show ?thesis
    by (simp add: modulus_ok_def wide_ok_def LIMBS_def fq_op_Q_def)
qed

lemma wide_of_ok: "wide_ok (wide_of x)"
  by (auto simp: wide_ok_def wide_of_def limbs32_def list_all_iff)

lemma fq_reduced_element: "element (wide_of fq_op_Q) (fq_reduced x)"
proof -
  have "limbs32 (wide_of x @ replicate LIMBS 0)" "length (wide_of x @ replicate LIMBS 0) = 2 * LIMBS"
    using wide_of_ok [of x] wide_ok_zero(1) by (auto simp: wide_ok_def limbs32_def)
  then show ?thesis
    using reduce_value fq_modulus_ok by (simp add: fq_reduced_def element_def modulus_ok_def)
qed

lemma fq_element_returns: "returns (fq_element pc xs) (\<lambda>ls. length ls = length xs)"
  by (induction xs) (auto split: option.split intro: returns_bind)

lemma fq_half_returns: "returns (fq_half pc x) (\<lambda>_. True)"
  by (simp add: fq_half_def split: option.split)

lemma fq_product_returns: "returns (mul_mod (wide_of a) (wide_of b) (wide_of fq_op_Q) :: wide emu) (\<lambda>_. True)"
  using mul_mod_value [OF wide_of_ok wide_of_ok, of "wide_of fq_op_Q" a b, where 'e = emu_error] fq_modulus_ok
  unfolding modulus_ok_def by (metis returns_simps(1))

lemma fq_value_returns:
  assumes "length av = 4" "length bv = 4" "length dv = 4"
  shows "returns (fq_value pc code av bv dv) (\<lambda>ls. length ls = 4)"
proof -
  have limbs: "length (limbs_of r) = 4" for r
    by (simp add: limbs_of_def)
  have el: "returns (fq_element pc v) (\<lambda>ls. length ls = 4)" if "length v = 4" for v
    using fq_element_returns [of pc v] that by simp
  have "returns (bind_res (fq_element pc dv) (\<lambda>d.
            if fq_reduced d \<noteq> r then refuse (DelegationFrame pc ''MULEQ's product is not d'') else Inr d))
        (\<lambda>ls. length ls = 4)" for r
    by (rule returns_bind [OF el [OF assms(3)]]) simp
  then show ?thesis
    unfolding fq_value_def Let_def
    by (auto simp: limbs intro!: returns_bind [OF fq_half_returns] returns_bind [OF el] returns_bind [OF fq_product_returns] assms)
qed

lemma put_cells_ok: "cells_ok field \<Longrightarrow> list_all fr_ok vs \<Longrightarrow> cells_ok (put_cells c vs field)"
  by (induction c vs field rule: put_cells.induct) (simp_all add: cells_ok_update)

lemma element_at_returns: "returns (element_at pc word digit flag base) (\<lambda>_. True)"
  by (simp add: element_at_def Let_def)

lemma fq_op_returns:
  assumes "length frame = fq_op_FRAME_WORDS" "cells_ok field"
  shows "returns (fq_op pc frame field) (\<lambda>(out, field'). length out = fq_op_ACCESSES \<and> cells_ok field')"
proof -
  have four: "length (element_cells field c) = 4" for c
    by (simp add: element_cells_def)
  have len: "length (cell_reads c delta olds news) = min (length olds) (length news)" for c delta olds news
    by (simp add: cell_reads_def)
  note el = returns_bind [OF element_at_returns]
  have digit: "returns ((case small v of
         Some v \<Rightarrow> if v < shl 1 24 then Inr (ucast v) else refuse (DelegationFrame pc ''the digit cell holds no digit'')
       | None \<Rightarrow> refuse (DelegationFrame pc ''the digit cell holds no digit'')) :: u32 emu) (\<lambda>_. True)" for v
    by (simp split: option.split)
  show ?thesis
    using assms unfolding fq_op_def
    apply (simp only: bind_idx Let_def)
    apply (intro returns_bind [OF digit] el returns_bind [OF fq_value_returns])
         apply (simp_all add: four len put_cells_ok list_all_iff)
    done
qed

end
