(* ===== verification/Machine_Safety.thy ===== *)
theory Machine_Safety
  imports Frame_Safety Encoding
begin

text \<open>
  The machine's invariant, 32 registers with \<open>x0\<close> zero, whole pages, canonical cells and decoded code,
  and the proof that every instruction and every ecall keeps it and never panics. The one part of a step
  that is left to a hypothesis is the recorder, which is the tracing path's.
\<close>

unbundle bit_operations_syntax

section \<open>The invariant\<close>

definition machine_ok :: "machine \<Rightarrow> bool" where
  "machine_ok m \<longleftrightarrow> length (mc_regs m) = 32 \<and> mc_regs m ! 0 = 0 \<and> ram_ok (mc_ram m) \<and> cells_ok (mc_field m) \<and>
     (\<forall>i c. Code i c \<in> set (mc_code m) \<longrightarrow> wf_instr i)"

text \<open>An operation inside a cycle touches registers, RAM, cells and the exit status only.\<close>

definition within :: "machine \<Rightarrow> machine \<Rightarrow> bool" where
  "within m m' \<longleftrightarrow> m' = m\<lparr>mc_regs := mc_regs m', mc_ram := mc_ram m', mc_field := mc_field m', mc_exit := mc_exit m'\<rparr>"

lemma within_refl [simp]: "within m m"
  by (simp add: within_def)

lemma within_trans: "within a b \<Longrightarrow> within b c \<Longrightarrow> within a c"
  unfolding within_def by (cases a; cases b; cases c) simp

lemma within_fields: "within m m' \<Longrightarrow> mc_code m' = mc_code m \<and> mc_slot_base m' = mc_slot_base m \<and> mc_pc m' = mc_pc m \<and>
    mc_cycle m' = mc_cycle m \<and> mc_public_input m' = mc_public_input m \<and> mc_advice_end m' = mc_advice_end m \<and>
    mc_recorder m' = mc_recorder m"
  unfolding within_def by (cases m; cases m') simp

lemma within_regs [simp]: "within m (m\<lparr>mc_regs := x\<rparr>)"
  and within_ram [simp]: "within m (m\<lparr>mc_ram := y\<rparr>)"
  and within_field [simp]: "within m (m\<lparr>mc_field := z\<rparr>)"
  and within_exit [simp]: "within m (m\<lparr>mc_exit := e\<rparr>)"
  by (simp_all add: within_def)

definition good_step :: "machine \<Rightarrow> machine \<Rightarrow> bool" where
  "good_step m m' \<longleftrightarrow> machine_ok m' \<and> within m m'"

lemma good_stepI: "machine_ok m' \<Longrightarrow> within m m' \<Longrightarrow> good_step m m'"
  by (simp add: good_step_def)

lemma good_step_trans: "good_step a b \<Longrightarrow> good_step b c \<Longrightarrow> good_step a c"
  by (auto simp: good_step_def intro: within_trans)

section \<open>Staging\<close>

lemma role_index_less [simp]: "role_index r < 8"
  by (cases r) simp_all

lemma role_index_inject [simp]: "role_index r = role_index s \<longleftrightarrow> r = s"
  by (cases r; cases s) simp_all

text \<open>The roles staged so far are among \<open>R\<close>.\<close>

definition staged :: "role set \<Rightarrow> cycle \<Rightarrow> bool" where
  "staged R c \<longleftrightarrow> length (cy_queries c) = 8 \<and> (\<forall>r. cy_queries c ! role_index r \<noteq> None \<longrightarrow> r \<in> R)"

lemma staged_new [simp]: "staged {} cycle_new"
  by (simp add: staged_def cycle_new_def)

lemma stage_returns:
  assumes "staged R c" "role \<notin> R"
  shows "returns (stage role a r w c) (staged (insert role R))"
proof -
  have "cy_queries c ! role_index role = None"
    using assms unfolding staged_def by blast
  then show ?thesis
    using assms by (auto simp: stage_def staged_def bind_idx ensure_def nth_list_update)
qed

section \<open>Registers and memory\<close>

lemma reg_read_returns:
  assumes "machine_ok m" "r < 32" "staged R c" "role \<notin> R"
  shows "returns (reg_read role r m c) (\<lambda>(v, c'). staged (insert role R) c')"
proof -
  have "unat r < length (mc_regs m)"
    using assms(1,2) by (simp add: machine_ok_def word_less_nat_alt)
  then show ?thesis
    by (simp add: reg_read_def bind_idx) (rule returns_bind [OF stage_returns [OF assms(3,4)]], simp)
qed

lemma reg_write_returns:
  assumes "machine_ok m" "rd < 32" "staged R c" "RoleRd \<notin> R"
  shows "returns (reg_write rd v m c) (\<lambda>(m', c'). good_step m m' \<and> staged (insert RoleRd R) c')"
proof -
  have rd: "unat rd < length (mc_regs m)"
    using assms(1,2) by (simp add: machine_ok_def word_less_nat_alt)
  have "machine_ok (m\<lparr>mc_regs := (mc_regs m)[unat rd := if rd = 0 then 0 else v]\<rparr>)"
    using assms(1) by (auto simp: machine_ok_def nth_list_update unat_eq_zero)
  then show ?thesis
    unfolding reg_write_def bind_idx [OF rd] Let_def
    by (intro returns_bind [OF stage_returns [OF assms(3,4)]]) (simp add: good_step_def)
qed

lemma aligned_mask: "unat (a AND NOT 3 :: u32) mod 4 = 0"
proof -
  have "a AND NOT 3 = a AND NOT (mask 2)"
    by (simp add: mask_eq_exp_minus_1)
  then have "take_bit 2 (a AND NOT 3) = 0"
    by (simp add: take_bit_eq_mask ac_simps)
  then have "take_bit 2 (unat (a AND NOT 3)) = 0"
    by (metis unsigned_take_bit_eq unsigned_0)
  then show ?thesis
    by (simp add: take_bit_eq_mod)
qed

lemma data_word_returns: "returns (data_word m pc addr width) (\<lambda>w. unat w mod 4 = 0)"
  using aligned_mask [of addr] by (simp add: data_word_def Let_def)

lemma mem_word_returns:
  assumes "machine_ok m" "unat a mod 4 = 0"
  shows "returns (mem_word m a) (\<lambda>_. True)"
proof -
  obtain v where "ram_word (mc_ram m) a = (Inr v :: u32 emu)"
    using pages.get_returns [of "mc_ram m" a] assms by (auto simp: machine_ok_def)
  then show ?thesis
    by (simp add: mem_word_def)
qed

lemma mem_set_word_returns:
  assumes "machine_ok m" "unat a mod 4 = 0"
  shows "returns (mem_set_word a v m) (good_step m)"
proof -
  obtain ram' where "ram_set_word (mc_ram m) a v = (Inr ram' :: ram emu)" "ram_ok ram'"
    using pages.put_returns [of "mc_ram m" a v] assms by (auto simp: machine_ok_def)
  then show ?thesis
    using assms(1) by (simp add: mem_set_word_def good_step_def machine_ok_def del: bind_res_Inr)
qed

lemma ram_write_returns:
  assumes "machine_ok m" "unat a mod 4 = 0" "staged R c" "RoleRam \<notin> R"
  shows "returns (ram_write a old new m c) (\<lambda>(m', c'). good_step m m' \<and> staged (insert RoleRam R) c')"
  unfolding ram_write_def
  by (intro returns_bind [OF stage_returns [OF assms(3,4)]] returns_bind [OF mem_set_word_returns [OF assms(1,2)]]) simp

section \<open>Instructions\<close>

abbreviation (input) good_exec :: "machine \<Rightarrow> machine \<times> cycle \<Rightarrow> bool" where
  "good_exec m \<equiv> \<lambda>(m', c). good_step m m'"

text \<open>A read by role \<open>r1\<close>, then one by \<open>r2\<close>, from a fresh cycle.\<close>

lemma read1:
  assumes "machine_ok m" "rs1 < 32" "\<And>v c. staged {RoleRs1} c \<Longrightarrow> returns (f v c) Q"
  shows "returns (bind_res (reg_read RoleRs1 rs1 m cycle_new) (\<lambda>(v, c). f v c)) Q"
  by (rule returns_bind [OF reg_read_returns [OF assms(1,2) staged_new]]) (use assms(3) in auto)

lemma read2:
  assumes "machine_ok m" "rs2 < 32" "staged {RoleRs1} c" "\<And>v c. staged {RoleRs1, RoleRs2} c \<Longrightarrow> returns (f v c) Q"
  shows "returns (bind_res (reg_read RoleRs2 rs2 m c) (\<lambda>(v, c). f v c)) Q"
proof (rule returns_bind [OF reg_read_returns [OF assms(1-3)]])
  fix x :: "u32 \<times> cycle"
  assume "case x of (v, c') \<Rightarrow> staged (insert RoleRs2 {RoleRs1}) c'"
  then show "returns (case x of (v, c) \<Rightarrow> f v c) Q"
    using assms(4) by (cases x) (simp add: insert_commute)
qed simp

lemma write_good:
  assumes "machine_ok m" "rd < 32" "staged R c" "RoleRd \<notin> R"
  shows "returns (reg_write rd v m c) (good_exec m)"
  by (rule returns_mono [OF reg_write_returns [OF assms]]) auto

lemma exec_op_returns:
  assumes "machine_ok m" "rd < 32" "rs1 < 32" "rs2 < 32"
  shows "returns (exec_op m cycle_new rd rs1 rs2 f) (good_exec m)"
  unfolding exec_op_def using assms by (intro read1 read2 write_good) auto

lemma exec_op_imm_returns:
  assumes "machine_ok m" "rd < 32" "rs1 < 32"
  shows "returns (exec_op_imm m cycle_new rd rs1 imm f) (good_exec m)"
  unfolding exec_op_imm_def using assms by (intro read1 write_good) auto

lemma exec_branch_returns:
  assumes "machine_ok m" "rs1 < 32" "rs2 < 32"
  shows "returns (exec_branch m cycle_new rs1 rs2 target fall taken) (\<lambda>(_, m', _). good_step m m')"
  unfolding exec_branch_def using assms by (intro read1 read2) (auto simp: good_step_def)

lemma exec_load_returns:
  assumes "machine_ok m" "rd < 32" "rs1 < 32"
  shows "returns (exec_load m cycle_new pc rd rs1 imm width ext) (good_exec m)"
  unfolding exec_load_def Let_def
  by (intro read1 returns_bind [OF data_word_returns] returns_bind [OF mem_word_returns]
      returns_bind [OF stage_returns] write_good assms | assumption | simp)+

lemma exec_store_returns:
  assumes "machine_ok m" "rs1 < 32" "rs2 < 32"
  shows "returns (exec_store m cycle_new pc rs1 rs2 imm width) (good_exec m)"
  unfolding exec_store_def Let_def
  by (intro read1 read2 returns_bind [OF data_word_returns] returns_bind [OF mem_word_returns]
      returns_mono [OF ram_write_returns] assms | assumption | simp)+ auto

text \<open>A RAM write and then the destination register.\<close>

lemma write_then_rd:
  assumes "machine_ok m" "unat a mod 4 = 0" "staged R c" "RoleRam \<notin> R" "RoleRd \<notin> R" "rd < 32"
  shows "returns (bind_res (ram_write a old new m c) (\<lambda>(m, c). reg_write rd v m c)) (good_exec m)"
proof (rule returns_bind [OF ram_write_returns [OF assms(1-4)]])
  fix x
  assume x: "case x of (m', c') \<Rightarrow> good_step m m' \<and> staged (insert RoleRam R) c'"
  obtain m1 c1 where eq: "x = (m1, c1)"
    by fastforce
  show "returns (case x of (m, c) \<Rightarrow> reg_write rd v m c) (good_exec m)"
    using x assms(5,6) unfolding eq
    by (auto intro!: returns_mono [OF write_good [of m1 rd "insert RoleRam R"]] intro: within_trans simp: good_step_def)
qed

lemma exec_amo_returns:
  assumes "machine_ok m" "rd < 32" "rs1 < 32" "rs2 < 32"
  shows "returns (exec_amo m cycle_new pc rd rs1 rs2 f) (good_exec m)"
  unfolding exec_amo_def
  by (intro read1 read2 returns_bind [OF data_word_returns] returns_bind [OF mem_word_returns] write_then_rd assms
      | assumption | simp)+

lemma falls_returns: "returns r (good_exec m) \<Longrightarrow> returns (falls next r) (\<lambda>(_, m', _). good_step m m')"
  unfolding falls_def by (rule returns_bind) auto

lemmas exec_returns = falls_returns exec_op_returns exec_op_imm_returns exec_branch_returns exec_load_returns
  exec_store_returns exec_amo_returns write_good [OF _ _ staged_new]

lemma good_step_refl: "machine_ok m \<Longrightarrow> good_step m m"
  by (simp add: good_step_def)

lemma falls_bind: "bind_res r (\<lambda>(m, c). falls next (f m c)) = falls next (bind_res r (\<lambda>(m, c). f m c))"
  by (cases r) (auto simp: falls_def split: prod.splits)

lemma execute_returns:
  assumes "machine_ok m" "wf_instr i" "i \<noteq> Ecall"
  shows "returns (execute i pc fall m cycle_new) (\<lambda>(_, m', _). good_step m m')"
proof (cases i)
  case (LrW rd rs1 aq rl)
  then have "rd < 32" "rs1 < 32"
    using assms(2) by simp_all
  then show ?thesis
    unfolding LrW execute.simps falls_bind
    by (intro read1 returns_bind [OF data_word_returns] returns_bind [OF mem_word_returns] falls_returns
        write_then_rd assms(1) | assumption | simp)+
next
  case (ScW rd rs1 rs2 aq rl)
  then have "rd < 32" "rs1 < 32" "rs2 < 32"
    using assms(2) by simp_all
  then show ?thesis
    unfolding ScW execute.simps falls_bind
    by (intro read1 read2 returns_bind [OF data_word_returns] returns_bind [OF mem_word_returns] falls_returns
        write_then_rd assms(1) | assumption | simp)+
next
  case (Jalr rd rs1 imm)
  then have "rd < 32" "rs1 < 32"
    using assms(2) by simp_all
  then show ?thesis
    unfolding Jalr execute.simps by (intro read1 falls_returns write_good assms(1) | assumption | simp)+
qed (use assms in \<open>auto intro!: exec_returns simp: good_step_refl\<close>)

section \<open>Delegation\<close>

lemma aligned_add:
  assumes "unat a mod 4 = 0" "unat b mod 4 = 0"
  shows "unat (a + b :: u32) mod 4 = 0"
proof -
  have "unat (a + b) mod 4 = (unat a + unat b) mod 2 ^ 32 mod 4"
    by (simp add: unat_word_ariths)
  also have "\<dots> = (unat a + unat b) mod 4"
    by (rule mod_mod_cancel) simp
  finally show ?thesis
    using assms by presburger
qed

lemma aligned_word: "(a :: u32) mod 4 = 0 \<longleftrightarrow> unat a mod 4 = 0"
  by (simp add: word_unat_eq_iff unat_mod)

lemma aligned_times: "unat (4 * of_nat j :: u32) mod 4 = 0"
proof (induction j)
  case (Suc j)
  have "4 * of_nat (Suc j) = (4 * of_nat j + 4 :: u32)"
    by (simp add: algebra_simps)
  moreover have "unat (4 * of_nat j + 4 :: u32) mod 4 = 0"
    by (rule aligned_add [OF Suc]) simp
  ultimately show ?case
    by argo
qed simp

lemma frame_addrs_aligned: "unat base mod 4 = 0 \<Longrightarrow> a \<in> set (frame_addrs base n) \<Longrightarrow> unat a mod 4 = 0"
  by (auto simp: frame_addrs_def simp del: mod_0_imp_dvd intro: aligned_add aligned_times)

lemma mem_words_returns:
  "machine_ok m \<Longrightarrow> \<forall>a \<in> set as. unat a mod 4 = 0 \<Longrightarrow> returns (mem_words m as) (\<lambda>vs. length vs = length as)"
  by (induction as) (auto intro!: returns_bind [OF mem_word_returns] intro: returns_bind)

lemma delegation_frame_returns:
  assumes "machine_ok m"
  shows "returns (delegation_frame m pc base n)
    (\<lambda>old. length old = n \<and> unat base mod 4 = 0 \<and> unat base + 4 * n \<le> 2 ^ 31)"
proof -
  have "length (frame_addrs base n) = n"
    by (simp add: frame_addrs_def)
  then have "returns (mem_words m (frame_addrs base n)) (\<lambda>old. length old = n)" if "unat base mod 4 = 0"
    using mem_words_returns [OF assms, of "frame_addrs base n"] frame_addrs_aligned [OF that] by simp
  then show ?thesis
    unfolding delegation_frame_def
    by (auto simp: aligned_word guest_memory_defs intro: returns_mono)
qed

lemma delegation_writeback_returns:
  "machine_ok m \<Longrightarrow> unat addr mod 4 = 0 \<Longrightarrow> length new = length old \<Longrightarrow>
    returns (delegation_writeback addr old new m) (\<lambda>(frame, m'). length frame = length old \<and> good_step m m')"
proof (induction old arbitrary: addr new m)
  case (Cons o0 old)
  then obtain n0 ns where new: "new = n0 # ns" "length ns = length old"
    by (cases new) auto
  have next_addr: "unat (addr + 4) mod 4 = 0"
    using aligned_add [OF Cons.prems(2), of 4] by simp
  have rest: "returns (bind_res (delegation_writeback (addr + 4) old ns m1) (\<lambda>(frame, m). Inr ((addr, o0, n0) # frame, m)))
      (\<lambda>(frame, m'). length frame = length (o0 # old) \<and> good_step m m')" if "good_step m m1" for m1
    by (rule returns_bind [OF Cons.IH [OF _ next_addr new(2)]]) (use that good_step_trans in \<open>auto simp: good_step_def\<close>)
  show ?case
    unfolding new(1) using rest by (auto simp: bind_idx intro!: returns_bind [OF mem_set_word_returns [OF Cons.prems(1,2)]])
qed (simp add: good_step_refl)

text \<open>The data words of \<open>FIELD_IO\<close>.\<close>

lemma data_addrs_returns:
  "returns (data_addrs m pc ptr ks) (\<lambda>as. length as = length ks \<and> (\<forall>a \<in> set as. unat a mod 4 = 0))"
  by (induction ks) (auto intro!: returns_bind [OF data_word_returns] intro: returns_bind)

lemma put_data_returns:
  "machine_ok m \<Longrightarrow> \<forall>a \<in> set as. unat a mod 4 = 0 \<Longrightarrow> length ws = length as \<Longrightarrow> length vs = length as \<Longrightarrow>
    returns (put_data as ws vs m) (\<lambda>(out, m'). length out = length as \<and> good_step m m')"
proof (induction as ws vs m rule: put_data.induct)
  case (1 a as w ws v vs m)
  have rest: "returns (bind_res (put_data as ws vs m1) (\<lambda>(out, m). Inr (Some (Word a w v) # out, m)))
      (\<lambda>(out, m'). length out = length (a # as) \<and> good_step m m')" if m1: "good_step m m1" for m1
  proof (rule returns_bind)
    show "returns (put_data as ws vs m1) (\<lambda>(out, m'). length out = length as \<and> good_step m1 m')"
      using "1.IH" [of m1] "1.prems" m1 by (simp add: good_step_def)
  qed (use m1 good_step_trans in auto)
  show ?case
    using rest "1.prems" by (auto intro!: returns_bind [OF mem_set_word_returns])
qed (auto simp: good_step_refl)

lemma import_value_ok: "fr_ok (import_value words)"
proof -
  have "fr_ok (foldl (\<lambda>v word. fr_add (fr_mul v (from_u64 (shl 1 32))) (from_u64 (ucast word))) x ws)" if "fr_ok x" for x ws
    using that by (induction ws arbitrary: x) (simp_all add: fr_add_ok fr_mul_ok)
  note this [of fr_zero "rev words"]
  then show ?thesis
    unfolding import_value_def by (blast intro: fr_consts)
qed

lemma field_io_returns:
  assumes "machine_ok m" "length frame = field_io_FRAME_WORDS"
  shows "returns (field_io pc frame m) (\<lambda>(out, m'). length out = field_io_ACCESSES \<and> good_step m m')"
proof -
  let ?old = "cell_at (mc_field m) (frame ! 1)"
  have old: "fr_ok ?old"
    using assms(1) cell_at_ok by (simp add: machine_ok_def)
  have put: "returns (bind_res (put_data as ws written m) (\<lambda>(out, m).
          Inr (out @ [Some (Cell (frame ! 1) field_io_CELL_DELTA ?old new)], m\<lparr>mc_field := (mc_field m)(frame ! 1 \<mapsto> new)\<rparr>)))
        (\<lambda>(out, m'). length out = field_io_ACCESSES \<and> good_step m m')"
    if "length as = 8" "\<forall>a \<in> set as. unat a mod 4 = 0" "length ws = 8" "length written = 8" "fr_ok new" for as ws written new
  proof (rule returns_bind [OF put_data_returns [OF assms(1) that(2)]])
    fix x :: "extra option list \<times> machine"
    assume "case x of (out, m') \<Rightarrow> length out = length as \<and> good_step m m'"
    then show "returns (case x of (out, m) \<Rightarrow> Inr (out @ [Some (Cell (frame ! 1) field_io_CELL_DELTA ?old new)],
        m\<lparr>mc_field := (mc_field m)(frame ! 1 \<mapsto> new)\<rparr>)) (\<lambda>(out, m'). length out = field_io_ACCESSES \<and> good_step m m')"
      using that by (auto simp: good_step_def machine_ok_def cells_ok_update intro: within_trans [OF _ within_field])
  qed (use that in simp_all)
  have "length (bytes_words bs) = 8" for bs
    by (simp add: bytes_words_def)
  note words = returns_bind [OF mem_words_returns [OF assms(1)]]
  show ?thesis
    unfolding field_io_def using assms(2) put old
    by (auto simp: bind_idx Let_def import_value_ok bytes_words_def intro!: returns_bind [OF data_addrs_returns] words)
qed

lemma on_cells_returns:
  assumes "machine_ok m" "returns (f (mc_field m)) (\<lambda>(out, field). P out \<and> cells_ok field)"
  shows "returns (on_cells f m) (\<lambda>(out, m'). P out \<and> good_step m m')"
  unfolding on_cells_def using assms(1) by (intro returns_bind [OF assms(2)]) (auto simp: good_step_def machine_ok_def)

text \<open>Each family answers a frame of its own width.\<close>

lemma delegate_frame_returns:
  assumes "delegation_frame_words family = Some words" "length old = words"
  shows "returns (delegate_frame family pc old) (\<lambda>new. length new = words)"
  using assms keccak_frame_returns [of old pc] poseidon2_frame_returns [of old pc] fr_arith_frame_returns [of old pc]
    mod_mul_frame_returns [of old pc] sha256_frame_returns [of old pc] ec_add_frame_returns [of old pc]
  by (auto simp: delegation_frame_words_def delegation_TYPES_def delegate_frame_def split: if_splits)

lemma delegate_extra_returns:
  assumes "machine_ok m" "delegation_frame_words family = Some words" "length old = words"
  shows "returns (delegate_extra family pc old m) (\<lambda>(out, m'). length out = delegation_accesses family \<and> good_step m m')"
proof -
  have cells: "cells_ok (mc_field m)"
    using assms(1) by (simp add: machine_ok_def)
  note on = on_cells_returns [OF assms(1), where P = "\<lambda>out. length out = n" for n]
  note fr = on [where f = "fr_op pc old", OF fr_op_returns [OF _ cells]]
    and p2 = on [where f = "p2_field pc old", OF p2_field_returns [OF _ cells]]
    and fq = on [where f = "fq_op pc old", OF fq_op_returns [OF _ cells]]
  show ?thesis
    using assms(2,3) fr p2 fq field_io_returns [OF assms(1), of old pc]
    by (auto simp: delegation_frame_words_def delegation_TYPES_def delegate_extra_def delegation_accesses_def
        good_step_refl [OF assms(1)] split: if_splits)
qed

lemma delegate_returns:
  assumes "machine_ok m" "delegation_frame_words family = Some words"
  shows "returns (delegate family pc base m) (\<lambda>(_, m'). good_step m m' \<and> unat base + 4 * words \<le> 2 ^ 31)"
proof -
  have extra: "returns (bind_res (delegate_extra family pc old m1) (\<lambda>(extra, m). Inr ((frame, extra), m)))
      (\<lambda>(_, m'). good_step m m' \<and> unat base + 4 * words \<le> 2 ^ 31)"
    if "good_step m m1" "length old = words" "unat base + 4 * words \<le> 2 ^ 31" for old m1 and frame :: "word_access list"
    using that good_step_trans [OF that(1)]
    by (intro returns_bind [OF delegate_extra_returns [OF _ assms(2)]]) (auto simp: good_step_def)
  have written: "returns (bind_res (delegation_writeback base old new m) (\<lambda>(frame, m).
         bind_res (delegate_extra family pc old m) (\<lambda>(extra, m). Inr ((frame, extra), m))))
      (\<lambda>(_, m'). good_step m m' \<and> unat base + 4 * words \<le> 2 ^ 31)"
    if "length old = words" "length new = words" "unat base mod 4 = 0" "unat base + 4 * words \<le> 2 ^ 31" for old new
    using that extra [of _ old] by (intro returns_bind [OF delegation_writeback_returns [OF assms(1)]]) auto
  show ?thesis
    unfolding delegate_def assms(2) option.case
    by (rule returns_bind [OF delegation_frame_returns [OF assms(1)]], elim conjE,
      rule returns_bind [OF delegate_frame_returns [OF assms(2)]], assumption, use written in \<open>simp add: bind_ensure\<close>)
qed

section \<open>Steps\<close>

text \<open>Every call number of a family has the family's entry of the ABI table, and \<open>a0\<close> does not overflow.\<close>

lemma ecall_index_entry:
  assumes "delegation_family number = Some family"
  shows "\<exists>index words space. ecall_index number = Some index \<and> delegation_frame_words family = Some words \<and>
    index < length DELEGATIONS \<and> DELEGATIONS ! index = (family, number, space, words)"
  using assms by (auto simp: delegation_family_def ecall_index_def delegation_frame_words_def delegation_TYPES_def
      split: if_splits)

lemma fetch_returns:
  assumes "machine_ok m"
  shows "returns (fetch m pc) (\<lambda>(i, _). wf_instr i)"
proof -
  have "wf_instr i" if "mc_code m ! k = Code i c" "k < length (mc_code m)" for i c k
    using assms nth_mem [OF that(2)] that(1) by (auto simp: machine_ok_def)
  then show ?thesis
    by (simp add: fetch_def Let_def split: fetched.split)
qed

text \<open>A committed cycle: the clock moves by one, and the program and the inputs stay.\<close>

definition stepped :: "machine \<Rightarrow> machine \<Rightarrow> bool" where
  "stepped m m' \<longleftrightarrow> machine_ok m' \<and> mc_code m' = mc_code m \<and> mc_slot_base m' = mc_slot_base m \<and>
     mc_public_input m' = mc_public_input m \<and> mc_advice_end m' = mc_advice_end m \<and>
     mc_recorder m' = mc_recorder m \<and> mc_cycle m' = mc_cycle m + 1 \<and> TS_STEP * mc_cycle m + (TS_STEP - 1) < shl 1 TS_BITS"

lemma commit_returns:
  assumes "good_step m m1" "mc_recorder m = None"
  shows "returns (commit c i pc nxt m1) (stepped m)"
  using assms within_fields [of m m1] by (auto simp: commit_def good_step_def stepped_def machine_ok_def Let_def not_le)

lemma ecall_delegate_returns:
  assumes "machine_ok m" "mc_recorder m = None" "delegation_family number = Some family" "staged {RoleRs1} c"
  shows "returns (ecall_delegate family number pc m c)
    (\<lambda>(_, m', c'). good_step m m' \<and> staged {RoleRs1, RoleRs2, RoleDelegate} c')"
proof -
  obtain index words sp where index: "ecall_index number = Some index" "delegation_frame_words family = Some words"
    "index < length DELEGATIONS" "DELEGATIONS ! index = (family, number, sp, words)"
    using ecall_index_entry [OF assms(3)] by blast
  have a0: "returns (a0_after index base) (\<lambda>_. True)" if "unat base + 4 * words \<le> 2 ^ 31" for base
    using index(3,4) that by (simp add: a0_after_def bind_idx Let_def)
  have rest: "returns (bind_res (delegate family pc base m) (\<lambda>((frame, extra), m).
       bind_res (stage RoleDelegate base 0 0 c) (\<lambda>c. case ecall_index number of
           None \<Rightarrow> panic
         | Some index \<Rightarrow> bind_res (a0_after index base) (\<lambda>result.
             Inr (result, m, c\<lparr>cy_delegation := Some (family, base, frame, extra)\<rparr>)))))
      (\<lambda>(_, m', c'). good_step m m' \<and> staged {RoleRs1, RoleRs2, RoleDelegate} c')"
    if c: "staged {RoleRs1, RoleRs2} c" for base c
    by (rule returns_bind [OF delegate_returns [OF assms(1) index(2)]])
      (use c in \<open>auto simp: index(1) insert_commute staged_def
        intro!: returns_bind [OF stage_returns [OF c]] returns_bind [OF a0]\<close>)
  show ?thesis
    unfolding ecall_delegate_def using assms(1,4)
    by (intro read2) (auto simp: assms(2) intro: rest)
qed

lemma ecall_returns:
  assumes "machine_ok m" "mc_recorder m = None"
  shows "returns (ecall i pc fall m) (stepped m)"
proof -
  have tail: "returns (bind_res (reg_write 10 result m1 c) (\<lambda>(m, c). commit c i pc nxt m)) (stepped m)"
    if "good_step m m1" "staged {RoleRs1, RoleRs2, RoleDelegate} c" for result m1 c nxt
  proof (rule returns_bind [OF reg_write_returns [OF _ _ that(2)]])
    fix x
    assume "case x of (m', c') \<Rightarrow> good_step m1 m' \<and> staged (insert RoleRd {RoleRs1, RoleRs2, RoleDelegate}) c'"
    then show "returns (case x of (m, c) \<Rightarrow> commit c i pc nxt m) (stepped m)"
      using good_step_trans [OF that(1)] by (auto intro!: commit_returns [OF _ assms(2)])
  qed (use that(1) in \<open>simp_all add: good_step_def\<close>)
  have more: "staged {RoleRs1, RoleRs2, RoleDelegate} c" if "staged R c" "R \<subseteq> {RoleRs1, RoleRs2}" for R c
    using that unfolding staged_def by blast
  have exit: "good_step m (m\<lparr>mc_exit := e\<rparr>)" for e
    using assms(1) by (simp add: good_step_def machine_ok_def)
  have arms: "returns (if number = ecall_EXIT then
          bind_res (reg_read RoleRs2 10 m c) (\<lambda>(status, c). Inr (status, m\<lparr>mc_exit := Some status\<rparr>, c))
        else (case delegation_family number of
             Some family \<Rightarrow> ecall_delegate family number pc m c
           | None \<Rightarrow> Inr (- ecall_ENOSYS, m, c)))
       (\<lambda>(_, m', c'). good_step m m' \<and> staged {RoleRs1, RoleRs2, RoleDelegate} c')"
    if "staged {RoleRs1} c" for number c
    using assms that ecall_delegate_returns exit more
    by (auto intro!: read2 split: option.split intro: good_step_refl)
  show ?thesis
    unfolding ecall_def by (intro read1 assms(1) returns_bind [OF arms]) (auto intro: tail)
qed

lemma step_returns:
  assumes "machine_ok m" "mc_recorder m = None"
  shows "returns (step m) (stepped m)"
proof -
  have plain: "returns (bind_res (execute i pc fall m cycle_new) (\<lambda>(next_pc, m, c). commit c i pc next_pc m)) (stepped m)"
    if "wf_instr i" "i \<noteq> Ecall" for i pc fall
    by (rule returns_bind [OF execute_returns [OF assms(1) that]]) (auto intro: commit_returns [OF _ assms(2)])
  show ?thesis
    unfolding step_def Let_def
    by (rule returns_bind [OF fetch_returns [OF assms(1)]]) (auto intro: ecall_returns [OF assms] plain)
qed

end
