(* ===== verification/Machine_Start.thy ===== *)
theory Machine_Start
  imports Machine_Safety Log_Check Loader
begin

text \<open>
  The machine before its first cycle (\<open>Machine::new\<close>): every word of its paged RAM is the word
  \<open>InitialMemory\<close> of \<open>crates/trace/src/log.rs\<close> gives the memory argument.
\<close>

unbundle bit_operations_syntax

section \<open>RAM by bytes\<close>

definition ram_byte :: "ram \<Rightarrow> u32 \<Rightarrow> u8" where
  "ram_byte ram a = ram_page ram a ! unat (a mod PAGE)"

lemma page_index: "unat ((a :: u32) mod PAGE) < 4096"
  by (simp add: unat_mod)

lemma ram_byte_empty [simp]: "ram_byte (\<lambda>_. None) a = 0"
  using page_index [of a] by (simp add: ram_byte_def ram_page_def)

lemma ram_set_byte_returns:
  assumes "ram_ok ram"
  obtains ram' where "(ram_set_byte ram a v :: 'e fault + ram) = Inr ram'" "ram_ok ram'"
    "\<forall>x. ram_byte ram' x = (if x = a then v else ram_byte ram x)"
proof -
  let ?r = "ram(a div PAGE \<mapsto> (ram_page ram a)[unat (a mod PAGE) := v])"
  have len: "length (ram_page ram x) = 4096" for x
    using ram_page_length [OF assms] .
  have page: "ram_page ?r x = (if x div PAGE = a div PAGE then (ram_page ram a)[unat (a mod PAGE) := v] else ram_page ram x)" for x
    by (simp add: ram_page_def)
  have same: "ram_page ram x = ram_page ram a" if "x div PAGE = a div PAGE" for x
    using that by (simp add: ram_page_def)
  have "ram_byte ?r x = (if x = a then v else ram_byte ram x)" for x
    using page_index [of a] same_word [of x a] same [of x]
    by (auto simp: ram_byte_def page len nth_list_update)
  moreover have "ram_ok ?r"
    using assms len by (auto simp: ram_ok_def)
  moreover have "(ram_set_byte ram a v :: 'e fault + ram) = Inr ?r"
    using page_index [of a] by (simp add: ram_set_byte_def len)
  ultimately show thesis
    using that by blast
qed

lemma offset_add:
  fixes a :: u32
  assumes "unat a mod 4 = 0" "k < 4"
  shows "(a + of_nat k) div PAGE = a div PAGE" "unat ((a + of_nat k) mod PAGE) = unat (a mod PAGE) + k"
    "unat (a + of_nat k) = unat a + k"
proof -
  have "n mod 4 = 0 \<Longrightarrow> n < 4294967296 \<Longrightarrow> n + k < 4294967296" for n :: nat
    using assms(2) by presburger
  from this [OF assms(1)] have "unat a + k < 2 ^ 32"
    using unat_u32_less [of a] by simp
  then show sum: "unat (a + of_nat k) = unat a + k"
    using assms(2) by (simp add: unat_word_ariths unat_of_nat)
  have r: "unat a mod 4096 + k < 4096"
    using page_offset(1) [OF assms(1)] assms(2) by (simp add: unat_mod)
  have "(4096 * q + t) div 4096 = q \<and> (4096 * q + t) mod 4096 = t" if "t < 4096" for q t :: nat
    using that by simp
  from this [OF r, of "unat a div 4096"]
  have "(unat a + k) div 4096 = unat a div 4096 \<and> (unat a + k) mod 4096 = unat a mod 4096 + k"
    using mult_div_mod_eq [of 4096 "unat a"] by (simp only: add.assoc [symmetric])
  then show "(a + of_nat k) div PAGE = a div PAGE" "unat ((a + of_nat k) mod PAGE) = unat (a mod PAGE) + k"
    using sum by (simp_all add: word_unat_eq_iff unat_div unat_mod)
qed

lemma ram_word_bytes:
  assumes "ram_ok ram" "unat a mod 4 = 0"
  shows "ram_word ram a = Inr (le32 (ram_byte ram a) (ram_byte ram (a + 1)) (ram_byte ram (a + 2)) (ram_byte ram (a + 3)))"
proof -
  have "ram_byte ram (a + of_nat k) = ram_page ram a ! (unat (a mod PAGE) + k)" if "k < 4" for k
    using offset_add [OF assms(2) that] by (simp add: ram_byte_def ram_page_def)
  from this [of 1] this [of 2] this [of 3] show ?thesis
    by (simp add: ram_word_eq [OF assms] ram_byte_def [of ram a] Let_def)
qed

section \<open>Loading\<close>

lemma load_bytes_returns:
  "ram_ok ram \<Longrightarrow> unat addr + length bytes \<le> 2 ^ 32 \<Longrightarrow>
    \<exists>ram'. (load_bytes addr bytes ram :: 'e fault + ram) = Inr ram' \<and> ram_ok ram' \<and>
      (\<forall>x. ram_byte ram' x =
        (let i = unat x - unat addr in
         if unat addr \<le> unat x \<and> i < length bytes \<and> bytes ! i \<noteq> 0 then bytes ! i else ram_byte ram x))"
proof (induction bytes arbitrary: addr ram)
  case (Cons b bs)
  obtain ram0 where ram0: "(ram_set_byte ram addr b :: 'e fault + ram) = Inr ram0" "ram_ok ram0"
    "\<forall>x. ram_byte ram0 x = (if x = addr then b else ram_byte ram x)"
    using ram_set_byte_returns [OF Cons.prems(1), of addr b, where ?'e = 'e] by blast
  define ram1 where "ram1 = (if b \<noteq> 0 then ram0 else ram)"
  have ram1: "(if b \<noteq> 0 then ram_set_byte ram addr b else Inr ram :: 'e fault + ram) = Inr ram1" "ram_ok ram1"
    "\<forall>x. ram_byte ram1 x = (if x = addr \<and> b \<noteq> 0 then b else ram_byte ram x)"
    using ram0 Cons.prems(1) by (simp_all add: ram1_def)
  show ?case
  proof (cases "bs = []")
    case True
    then show ?thesis
      using ram1 by (auto simp: Let_def word_unat_eq_iff)
  next
    case False
    then have "unat addr + 1 < 2 ^ 32"
      using Cons.prems(2) by (cases bs) auto
    then have succ: "unat (addr + 1) = unat addr + 1"
      by (simp add: unat_word_ariths)
    then obtain ram2 where ram2: "(load_bytes (addr + 1) bs ram1 :: 'e fault + ram) = Inr ram2" "ram_ok ram2"
      "\<forall>x. ram_byte ram2 x = (let i = unat x - unat (addr + 1) in
         if unat (addr + 1) \<le> unat x \<and> i < length bs \<and> bs ! i \<noteq> 0 then bs ! i else ram_byte ram1 x)"
      using Cons.IH [OF ram1(2), of "addr + 1"] Cons.prems(2) by auto
    have "unat x - unat addr = Suc (unat x - unat (addr + 1))" if "unat addr < unat x" for x
      using that succ by simp
    then have "ram_byte ram2 x = (let i = unat x - unat addr in
         if unat addr \<le> unat x \<and> i < length (b # bs) \<and> (b # bs) ! i \<noteq> 0 then (b # bs) ! i else ram_byte ram x)" for x
      using ram1(3) ram2(3) succ by (cases "unat x = unat addr") (auto simp: Let_def word_unat_eq_iff)
    then show ?thesis
      using ram1(1) ram2(1,2) by auto
  qed
qed (simp add: Let_def)

lemma validate_segments_Cons:
  assumes "validate_segments prev (s # ss) = Inr ()"
  shows "validate_segments (Some s) ss = Inr ()" "length (seg_bytes s) \<le> unat (seg_mem_len s)"
    "unat RAM_ORIGIN \<le> unat (seg_vaddr s)" "unat (seg_vaddr s) + unat (seg_mem_len s) \<le> unat RAM_ORIGIN + unat RAM_LENGTH"
    "\<forall>b. prev = Some b \<longrightarrow> unat (seg_vaddr b) + unat (seg_mem_len b) \<le> unat (seg_vaddr s)"
  using assms by (auto simp: Let_def split: if_splits option.splits)

lemma image_byte_below:
  "validate_segments (Some b) ss = Inr () \<Longrightarrow> at < unat (seg_vaddr b) + unat (seg_mem_len b) \<Longrightarrow> image_byte ss at = 0"
proof (induction ss arbitrary: b)
  case (Cons s ss)
  note v = validate_segments_Cons [OF Cons.prems(1)]
  then show ?case
    using Cons.IH [of s] Cons.prems(2) by auto
qed simp

lemma image_byte_outside:
  "validate_segments prev ss = Inr () \<Longrightarrow> at < unat RAM_ORIGIN \<or> unat RAM_ORIGIN + unat RAM_LENGTH \<le> at \<Longrightarrow>
    image_byte ss at = 0"
proof (induction ss arbitrary: prev)
  case (Cons s ss)
  note v = validate_segments_Cons [OF Cons.prems(1)]
  then show ?case
    using Cons.IH [of "Some s"] Cons.prems(2) by auto
qed simp

lemma load_segments_returns:
  "validate_segments prev ss = Inr () \<Longrightarrow> ram_ok ram \<Longrightarrow>
    \<exists>ram'. (load_segments ss ram :: 'e fault + ram) = Inr ram' \<and> ram_ok ram' \<and>
      (\<forall>x. ram_byte ram' x = (let b = image_byte ss (unat x) in if b \<noteq> 0 then b else ram_byte ram x))"
proof (induction ss arbitrary: prev ram)
  case (Cons s ss)
  note v = validate_segments_Cons [OF Cons.prems(1)]
  have "unat (seg_vaddr s) + length (seg_bytes s) \<le> 2 ^ 32"
    using v(2,4) by (simp add: guest_memory_defs)
  then obtain ram1 where ram1: "(load_bytes (seg_vaddr s) (seg_bytes s) ram :: 'e fault + ram) = Inr ram1" "ram_ok ram1"
    "\<forall>x. ram_byte ram1 x =
        (let i = unat x - unat (seg_vaddr s) in
         if unat (seg_vaddr s) \<le> unat x \<and> i < length (seg_bytes s) \<and> seg_bytes s ! i \<noteq> 0 then seg_bytes s ! i
         else ram_byte ram x)"
    using load_bytes_returns [OF Cons.prems(2)] by blast
  obtain ram2 where ram2: "(load_segments ss ram1 :: 'e fault + ram) = Inr ram2" "ram_ok ram2"
    "\<forall>x. ram_byte ram2 x = (let b = image_byte ss (unat x) in if b \<noteq> 0 then b else ram_byte ram1 x)"
    using Cons.IH [OF v(1) ram1(2)] by blast
  have "image_byte ss (unat x) = 0" if "unat x < unat (seg_vaddr s) + length (seg_bytes s)" for x :: u32
    using image_byte_below [OF v(1)] that v(2) by simp
  then have "ram_byte ram2 x = (let b = image_byte (s # ss) (unat x) in if b \<noteq> 0 then b else ram_byte ram x)" for x
    using ram1(3) ram2(3) by (auto simp: Let_def)
  then show ?case
    using ram1(1) ram2(1,2) by auto
qed (simp add: Let_def)

lemma load_words_returns:
  "ram_ok ram \<Longrightarrow> unat addr mod 4 = 0 \<Longrightarrow> unat addr + 4 * length ws \<le> 2 ^ 32 \<Longrightarrow>
    \<exists>ram'. (load_words addr ws ram :: 'e fault + ram) = Inr ram' \<and> ram_ok ram' \<and>
      (\<forall>x. unat x mod 4 = 0 \<longrightarrow> (ram_word ram' x :: 'e fault + u32) =
        (let i = (unat x - unat addr) div 4 in
         if unat addr \<le> unat x \<and> i < length ws \<and> ws ! i \<noteq> 0 then Inr (ws ! i) else ram_word ram x))"
proof (induction ws arbitrary: addr ram)
  case (Cons w ws)
  obtain ram1 where ram1: "(if w \<noteq> 0 then ram_set_word ram addr w else Inr ram :: 'e fault + ram) = Inr ram1" "ram_ok ram1"
    "\<forall>x. unat x mod 4 = 0 \<longrightarrow> (ram_word ram1 x :: 'e fault + u32) = (if x = addr \<and> w \<noteq> 0 then Inr w else ram_word ram x)"
    using pages.put_returns [OF Cons.prems(1,2), of w, where ?'a = 'e] Cons.prems(1) by (cases "w = 0") auto
  show ?case
  proof (cases "ws = []")
    case True
    have "x = addr" if "unat addr \<le> unat x" "(unat x - unat addr) div 4 = 0" "unat x mod 4 = 0" for x
      using that Cons.prems(2) by (auto simp: word_unat_eq_iff) presburger
    then show ?thesis
      using ram1 True by (auto simp: Let_def)
  next
    case False
    then have "unat addr + 4 < 2 ^ 32"
      using Cons.prems(3) by (cases ws) auto
    then have succ: "unat (addr + 4) = unat addr + 4"
      by (simp add: unat_word_ariths)
    moreover have "unat (addr + 4) mod 4 = 0"
      using succ Cons.prems(2) by simp
    ultimately obtain ram2 where ram2: "(load_words (addr + 4) ws ram1 :: 'e fault + ram) = Inr ram2" "ram_ok ram2"
      "\<forall>x. unat x mod 4 = 0 \<longrightarrow> (ram_word ram2 x :: 'e fault + u32) = (let i = (unat x - unat (addr + 4)) div 4 in
         if unat (addr + 4) \<le> unat x \<and> i < length ws \<and> ws ! i \<noteq> 0 then Inr (ws ! i) else ram_word ram1 x)"
      using Cons.IH [OF ram1(2), of "addr + 4"] Cons.prems(3) by auto
    have "(ram_word ram2 x :: 'e fault + u32) = (let i = (unat x - unat addr) div 4 in
         if unat addr \<le> unat x \<and> i < length (w # ws) \<and> (w # ws) ! i \<noteq> 0 then Inr ((w # ws) ! i) else ram_word ram x)"
      if x: "unat x mod 4 = 0" for x
    proof (cases "unat x \<le> unat addr")
      case True
      then show ?thesis
        using ram1(3) ram2(3) x succ by (auto simp: Let_def word_unat_eq_iff)
    next
      case False
      then have far: "unat addr + 4 \<le> unat x"
        using x Cons.prems(2) by presburger
      then have "(unat x - unat addr) div 4 = Suc ((unat x - unat (addr + 4)) div 4)"
        using succ by (simp add: div_if)
      moreover have "x \<noteq> addr"
        using False by auto
      ultimately show ?thesis
        using ram1(3) ram2(3) x succ far by (auto simp: Let_def)
    qed
    then show ?thesis
      using ram1(1) ram2(1,2) by auto
  qed
qed (simp add: Let_def)

section \<open>The whole of RAM\<close>

text \<open>Inputs the program can be given: a public input that fits its window, and advice that fits the addresses left.\<close>

definition io_ok :: "guest_io \<Rightarrow> bool" where
  "io_ok io \<longleftrightarrow> length (io_input io) \<le> unat PUBLIC_PAYLOAD_BYTES \<and> length (io_advice io) \<le> 2 ^ 31 - 4"

abbreviation (input) memory_of :: "program_image \<Rightarrow> guest_io \<Rightarrow> initial_memory" where
  "memory_of im io \<equiv> \<lparr>im_image = im, im_public_input = io_input io, im_advice = io_advice io\<rparr>"

lemma validated_segments:
  assumes "validate im = Inr ()"
  shows "validate_segments None (image_segments im) = Inr ()"
  using assms by (auto simp: validate_def split: if_splits)

lemma advice_words_bound:
  assumes "length adv \<le> 2 ^ 31 - 4"
  shows "4 * advice_region_words adv \<le> 2 ^ 31"
proof -
  have "n \<le> 2147483644 \<Longrightarrow> n div 4 + (if n mod 4 = 0 then 0 else 1) \<le> 536870911" for n :: nat
    by (simp split: if_split) presburger
  from this [of "length adv"] show ?thesis
    using assms by (simp add: advice_region_words_def div_ceil_def split: if_splits)
qed

lemma advice_word_past:
  assumes "advice_region_words adv \<le> i"
  shows "advice_word adv i = 0"
proof (cases i)
  case 0
  then show ?thesis
    using assms by (simp add: advice_word_def advice_region_words_def split: if_splits)
next
  case (Suc k)
  have "length adv \<le> 4 * k"
  proof (cases "adv = []")
    case False
    then have "div_ceil (length adv) 4 \<le> k"
      using assms Suc by (simp add: advice_region_words_def)
    then show ?thesis
      unfolding div_ceil_def by (auto split: if_splits)
  qed simp
  then show ?thesis
    by (simp add: advice_word_def Suc byte_at_def le32_def Let_def)
qed

text \<open>The regions in naturals.\<close>

lemma in_ram_iff: "in_ram a \<longleftrightarrow> 65536 \<le> unat a \<and> unat a < 2147483648"
  by (auto simp: in_ram_def guest_memory_defs word_le_nat_alt word_less_nat_alt unat_sub)

lemma in_window_iff:
  "a \<ge> PUBLIC_INPUT_ORIGIN \<and> a - PUBLIC_INPUT_ORIGIN < PUBLIC_WINDOW_BYTES \<longleftrightarrow> 32768 \<le> unat a \<and> unat a < 49152"
  by (auto simp: guest_memory_defs word_le_nat_alt word_less_nat_alt unat_sub)

lemma window_index: "32768 \<le> unat a \<Longrightarrow> unat ((a - PUBLIC_INPUT_ORIGIN) div 4) = (unat a - 32768) div 4"
  by (simp add: guest_memory_defs word_le_nat_alt unat_sub unat_div)

lemma advice_index: "2147483648 \<le> unat a \<Longrightarrow> unat (a - ADVICE_ORIGIN) = unat a - 2147483648"
  by (simp add: guest_memory_defs word_le_nat_alt unat_sub)

lemma image_word_outside:
  assumes "validate im = Inr ()" "unat a mod 4 = 0" "\<not> in_ram a"
  shows "initial_word im a = 0"
proof -
  have "n < 65536 \<Longrightarrow> n mod 4 = 0 \<Longrightarrow> n + 3 < 65536" for n :: nat
    by presburger
  from this [of "unat a"] have out: "unat a + 3 < unat RAM_ORIGIN \<or> unat RAM_ORIGIN + unat RAM_LENGTH \<le> unat a"
    using assms(2,3) by (auto simp: in_ram_iff guest_memory_defs)
  have "image_byte (image_segments im) (unat a + k) = 0" if "k < 4" for k
    using image_byte_outside [OF validated_segments [OF assms(1)], of "unat a + k"] out that by linarith
  from this [of 0] this [of 1] this [of 2] this [of 3] show ?thesis
    by (simp add: initial_word_le32 le32_def)
qed

lemma machine_new_memory_value:
  assumes "validate im = Inr ()" "io_ok io"
  shows "\<exists>m. machine_new im io = Inr m \<and> machine_ok m \<and> mc_recorder m = None \<and> mc_cycle m = 1 \<and>
    mc_pc m = image_entry im \<and> mc_regs m = replicate 32 0 \<and> mc_public_input m = io_input io \<and> mc_exit m = None \<and>
    mc_field m = (\<lambda>_. None) \<and> mc_code m = map fetched_of (image_slots im) \<and> mc_slot_base m = image_slot_base im \<and>
    (\<forall>a. unat a mod 4 = 0 \<longrightarrow> mem_word m a = memory_word (memory_of im io) a)"
proof -
  have io: "length (io_input io) \<le> unat PUBLIC_PAYLOAD_BYTES" "length (io_advice io) \<le> 2 ^ 31 - 4"
    using assms(2) by (simp_all add: io_ok_def)
  have empty: "ram_ok (\<lambda>_. None)"
    by (simp add: ram_ok_def)
  obtain r1 where r1: "(load_segments (image_segments im) (\<lambda>_. None) :: ram emu) = Inr r1" "ram_ok r1"
    "\<forall>x. ram_byte r1 x = (let b = image_byte (image_segments im) (unat x) in if b \<noteq> 0 then b else ram_byte (\<lambda>_. None) x)"
    using load_segments_returns [OF validated_segments [OF assms(1)] empty, where 'e = emu_error] by blast
  have w1: "ram_word r1 a = (Inr (initial_word im a) :: u32 emu)" if a: "unat a mod 4 = 0" for a
    using r1(3) offset_add(3) [OF a, of 1] offset_add(3) [OF a, of 2] offset_add(3) [OF a, of 3]
    by (simp add: ram_word_bytes [OF r1(2) a] initial_word_le32 Let_def)
  obtain ws where ws: "length ws = 4096" "(public_io_words (io_input io) :: u32 list emu) = Inr ws"
    using public_io_words_total [OF io(1), where 'e = emu_error] by blast
  obtain r2 where r2: "(load_words PUBLIC_INPUT_ORIGIN ws r1 :: ram emu) = Inr r2" "ram_ok r2"
    "\<forall>x. unat x mod 4 = 0 \<longrightarrow> (ram_word r2 x :: u32 emu) =
        (let i = (unat x - unat PUBLIC_INPUT_ORIGIN) div 4 in
         if unat PUBLIC_INPUT_ORIGIN \<le> unat x \<and> i < length ws \<and> ws ! i \<noteq> 0 then Inr (ws ! i) else ram_word r1 x)"
    using load_words_returns [OF r1(2), of PUBLIC_INPUT_ORIGIN ws, where 'e = emu_error] ws(1)
    by (auto simp: guest_memory_defs)
  let ?advice = "map (advice_word (io_advice io)) [0..<advice_region_words (io_advice io)]"
  obtain r3 where r3: "(load_words ADVICE_ORIGIN ?advice r2 :: ram emu) = Inr r3" "ram_ok r3"
    "\<forall>x. unat x mod 4 = 0 \<longrightarrow> (ram_word r3 x :: u32 emu) =
        (let i = (unat x - unat ADVICE_ORIGIN) div 4 in
         if unat ADVICE_ORIGIN \<le> unat x \<and> i < length ?advice \<and> ?advice ! i \<noteq> 0 then Inr (?advice ! i) else ram_word r2 x)"
    using load_words_returns [OF r2(2), of ADVICE_ORIGIN ?advice, where 'e = emu_error] advice_words_bound [OF io(2)]
    by (auto simp: guest_memory_defs)
  have words: "(ram_word r3 a :: u32 emu) = memory_word (memory_of im io) a" if a: "unat a mod 4 = 0" for a
  proof -
    have out: "initial_word im a = 0" if "\<not> in_ram a"
      using image_word_outside [OF assms(1) a that] .
    consider (ram) "in_ram a" | (advice) "2147483648 \<le> unat a" | (input) "32768 \<le> unat a" "unat a < 49152"
      | (rest) "\<not> in_ram a" "unat a < 2147483648" "\<not> (32768 \<le> unat a \<and> unat a < 49152)"
      unfolding in_ram_iff by linarith
    moreover have "(n - 32768) div 4 < 4096 \<longleftrightarrow> n < 49152" if "32768 \<le> n" for n :: nat
      using that by (simp add: less_mult_imp_div_less div_less_iff_less_mult) linarith
    then have r2a: "(ram_word r2 a :: u32 emu) = (if 32768 \<le> unat a \<and> unat a < 49152 \<and> ws ! ((unat a - 32768) div 4) \<noteq> 0
        then Inr (ws ! ((unat a - 32768) div 4)) else Inr (initial_word im a))"
      using r2(3) [rule_format, OF a] w1 [OF a] ws(1) by (auto simp: Let_def guest_memory_defs)
    have r3a: "(ram_word r3 a :: u32 emu) = (let w = advice_word (io_advice io) ((unat a - 2147483648) div 4) in
        if 2147483648 \<le> unat a \<and> w \<noteq> 0 then Inr w else ram_word r2 a)"
      using r3(3) [rule_format, OF a] advice_word_past [of "io_advice io" "(unat a - 2147483648) div 4"]
      by (auto simp: Let_def guest_memory_defs not_le)
    ultimately show ?thesis
    proof cases
      case ram
      then show ?thesis
        using r2a r3a by (simp add: memory_word_def in_ram_iff Let_def)
    next
      case advice
      then have "\<not> in_ram a" "ADVICE_ORIGIN \<le> a"
        by (simp_all add: in_ram_iff guest_memory_defs word_le_nat_alt)
      then show ?thesis
        using advice r2a r3a out by (simp add: memory_word_def advice_index Let_def)
    next
      case input
      then have "\<not> in_ram a" "\<not> ADVICE_ORIGIN \<le> a" "(unat a - 32768) div 4 < 4096"
        by (simp_all add: in_ram_iff guest_memory_defs word_le_nat_alt less_mult_imp_div_less)
      then show ?thesis
        using input in_window_iff [of a] r2a r3a ws out window_index [OF input(1)]
        by (simp add: memory_word_def Let_def idx_def)
    next
      case rest
      then have "\<not> ADVICE_ORIGIN \<le> a"
        by (simp add: guest_memory_defs word_le_nat_alt)
      then show ?thesis
        using rest in_window_iff [of a] r2a r3a out by (auto simp: memory_word_def Let_def)
    qed
  qed
  have code: "wf_instr i" if "Code i c \<in> fetched_of ` set slots" for i c slots
    using that decode_wf by (auto simp: fetched_of_def split: slot.splits sum.splits)
  let ?m = "\<lparr>mc_code = map fetched_of (image_slots im), mc_slot_base = image_slot_base im,
         mc_regs = replicate 32 0, mc_pc = image_entry im, mc_ram = r3, mc_cycle = 1,
         mc_public_input = io_input io,
         mc_advice_end = ucast ADVICE_ORIGIN + 4 * of_nat (advice_region_words (io_advice io)),
         mc_field = (\<lambda>_. None), mc_exit = None, mc_recorder = None\<rparr>"
  have "machine_new im io = Inr ?m"
    using r1(1) ws(2) r2(1) r3(1) by (simp add: machine_new_def del: bind_res_Inr)
  moreover have "machine_ok ?m"
    using r3(2) code by (auto simp: machine_ok_def)
  ultimately show ?thesis
    using words by (intro exI [of _ ?m]) (simp add: mem_word_def)
qed

end
