(* ===== verification/Machine_Run.thy ===== *)
theory Machine_Run
  imports Machine_Start
begin

text \<open>
  The run loop, the journal and the three ways to execute a program (\<open>run\<close>, \<open>trace_run\<close> and the
  streaming run of \<open>crates/emulator/src/lib.rs\<close>). The loops end because every step moves the clock and
  \<open>commit\<close> refuses a cycle past the 38-bit clock.
\<close>

unbundle bit_operations_syntax

section \<open>What an operation leaves alone\<close>

text \<open>Whatever the operands, what returns has touched registers, RAM, cells and the exit status only.\<close>

lemma mem_set_word_within: "mem_set_word a v m = Inr m' \<Longrightarrow> within m m'"
  by (auto simp: mem_set_word_def)

lemma reg_write_within: "reg_write dst v m c = Inr (m', c') \<Longrightarrow> within m m'"
  by (auto simp: reg_write_def Let_def)

lemma ram_write_within: "ram_write a old new m c = Inr (m', c') \<Longrightarrow> within m m'"
  by (auto simp: ram_write_def dest: mem_set_word_within)

lemmas op_within = reg_write_within ram_write_within mem_set_word_within

lemma exec_within:
  "exec_op m c dst rs1 rs2 f = Inr (m', c') \<Longrightarrow> within m m'"
  "exec_op_imm m c dst rs1 imm f = Inr (m', c') \<Longrightarrow> within m m'"
  "exec_branch m c rs1 rs2 target fall taken = Inr (n, m', c') \<Longrightarrow> within m m'"
  "exec_load m c pc dst rs1 imm width ext = Inr (m', c') \<Longrightarrow> within m m'"
  "exec_store m c pc rs1 rs2 imm width = Inr (m', c') \<Longrightarrow> within m m'"
  "exec_amo m c pc dst rs1 rs2 f = Inr (m', c') \<Longrightarrow> within m m'"
  by (auto simp: exec_op_def exec_op_imm_def exec_branch_def exec_load_def exec_store_def exec_amo_def Let_def
      dest!: op_within intro: within_trans)

lemma falls_Inr [simp]: "falls nxt r = Inr (n, m, c) \<longleftrightarrow> r = Inr (m, c) \<and> n = nxt"
  by (auto simp: falls_def)

lemma execute_within: "execute i pc fall m c = Inr (n, m', c') \<Longrightarrow> within m m'"
  by (cases i) (auto dest!: exec_within op_within intro: within_trans)

lemma delegation_writeback_within: "delegation_writeback a old new m = Inr (f, m') \<Longrightarrow> within m m'"
  by (induction a old new m arbitrary: f m' rule: delegation_writeback.induct)
    (auto dest!: op_within intro: within_trans)

lemma put_data_within: "put_data as ws vs m = Inr (out, m') \<Longrightarrow> within m m'"
  by (induction as ws vs m arbitrary: out m' rule: put_data.induct) (auto dest!: op_within intro: within_trans)

lemma delegate_extra_within: "delegate_extra family pc old m = Inr (out, m') \<Longrightarrow> within m m'"
  by (auto simp: delegate_extra_def on_cells_def field_io_def Let_def split: if_splits
      dest!: put_data_within intro: within_trans)

lemma delegate_within: "delegate family pc base m = Inr (x, m') \<Longrightarrow> within m m'"
  by (auto simp: delegate_def split: option.splits dest!: delegate_extra_within delegation_writeback_within
      intro: within_trans)

lemma ecall_delegate_within: "ecall_delegate family number pc m c = Inr (n, m', c') \<Longrightarrow> within m m'"
  by (auto simp: ecall_delegate_def split: option.splits if_splits dest!: delegate_within)

section \<open>The clock\<close>

lemma commit_clock:
  "commit c i pc nxt m = Inr m' \<Longrightarrow> mc_cycle m' = mc_cycle m + 1 \<and> TS_STEP * mc_cycle m + (TS_STEP - 1) < shl 1 TS_BITS"
  by (auto simp: commit_def Let_def not_le split: if_splits option.splits)

lemma step_clock:
  assumes "step m = Inr m'"
  shows "mc_cycle m' = mc_cycle m + 1" "TS_STEP * mc_cycle m + (TS_STEP - 1) < shl 1 TS_BITS"
proof -
  have ex: "mc_cycle m1 = mc_cycle m" if "execute i pc fall m c = Inr (n, m1, c')" for i pc fall c n m1 c'
    using within_fields [OF execute_within [OF that]] by simp
  have ec: "mc_cycle m1 = mc_cycle m" if "ecall_delegate f n pc m c = Inr (r, m1, c')" for f n pc c r m1 c'
    using within_fields [OF ecall_delegate_within [OF that]] by simp
  have rw: "mc_cycle m2 = mc_cycle m1" if "reg_write dst v m1 c = Inr (m2, c')" for dst v m1 c m2 c'
    using within_fields [OF reg_write_within [OF that]] by simp
  have "mc_cycle m' = mc_cycle m + 1 \<and> TS_STEP * mc_cycle m + (TS_STEP - 1) < shl 1 TS_BITS"
    using assms by (auto simp: step_def ecall_def Let_def split: if_splits option.splits dest!: commit_clock rw ex ec)
  then show "mc_cycle m' = mc_cycle m + 1" "TS_STEP * mc_cycle m + (TS_STEP - 1) < shl 1 TS_BITS"
    by simp_all
qed

text \<open>The cycles left; the comparison is over \<open>u64\<close>, so a clock past \<open>2^62\<close> would wrap.\<close>

definition cycles_left :: "machine \<Rightarrow> nat" where
  "cycles_left m = 2 ^ 62 - unat (mc_cycle m) mod 2 ^ 62"

lemma clock_bound:
  assumes "TS_STEP * c + (TS_STEP - 1) < (shl 1 TS_BITS :: u64)"
  shows "unat c mod 2 ^ 62 < 2 ^ 36" "unat (c + 1) mod 2 ^ 62 = unat c mod 2 ^ 62 + 1"
proof -
  have wrapped: "(4 * unat c mod 2 ^ 64 + 3) mod 2 ^ 64 < 2 ^ 38"
    using assms by (simp add: TS_STEP_def TS_BITS_def word_less_nat_alt unat_word_ariths)
  have "4 * unat c mod 2 ^ 64 = 4 * (unat c mod 2 ^ 62)"
    by (simp add: mult_mod_right)
  then have small: "unat c mod 2 ^ 62 < 2 ^ 36"
    using wrapped mod_less_divisor [of "2 ^ 62" "unat c"] by simp
  have "unat (c + 1) mod 2 ^ 62 = (unat c + 1) mod 2 ^ 62"
    by (simp add: unat_word_ariths mod_mod_cancel)
  also have "\<dots> = (unat c mod 2 ^ 62 + 1) mod 2 ^ 62"
    by (simp add: mod_simps)
  finally show "unat c mod 2 ^ 62 < 2 ^ 36" "unat (c + 1) mod 2 ^ 62 = unat c mod 2 ^ 62 + 1"
    using small by simp_all
qed

lemma step_cycles_left: "step m = Inr m' \<Longrightarrow> cycles_left m' < cycles_left m"
  using step_clock [of m m'] clock_bound [of "mc_cycle m"] by (simp add: cycles_left_def)

section \<open>Running\<close>

definition check_io :: "guest_io \<Rightarrow> unit emu" where
  "check_io io =
     (if length (io_input io) > unat PUBLIC_PAYLOAD_BYTES then refuse (PublicInputTooLong (length (io_input io))) else Inr ())"

function machine_run :: "machine \<Rightarrow> machine emu" where
  "machine_run m = (if mc_exit m \<noteq> None then Inr m else bind_res (step m) (\<lambda>m. machine_run m))"
  by auto
termination
  by (relation "measure cycles_left") (simp_all add: step_cycles_left)

declare machine_run.simps [simp del]

definition journal :: "machine \<Rightarrow> u8 list emu" where
  "journal m =
     bind_res (mem_word m PUBLIC_OUTPUT_ORIGIN) (\<lambda>len.
     if len > PUBLIC_PAYLOAD_BYTES then refuse (JournalTooLong len)
     else
       bind_res (mem_words m (map (\<lambda>y. PUBLIC_OUTPUT_ORIGIN + 4 + 4 * of_nat y) [0..<div_ceil (unat len) 4])) (\<lambda>words.
         Inr (take (unat len) (concat (map u32_le_bytes words)))))"

definition machine_finish :: "machine \<Rightarrow> execution emu" where
  "machine_finish m =
     bind_res (journal m) (\<lambda>output.
     case mc_exit m of
       None \<Rightarrow> panic
     | Some status \<Rightarrow> Inr \<lparr>ex_regs = mc_regs m, ex_exit_code = status, ex_cycle_count = mc_cycle m - 1,
         ex_input = mc_public_input m, ex_output = output\<rparr>)"

definition run :: "program_image \<Rightarrow> guest_io \<Rightarrow> execution emu" where
  "run im io =
     bind_res (check_io io) (\<lambda>_.
     bind_res (machine_new im io) (\<lambda>m.
     bind_res (machine_run m) machine_finish))"

section \<open>The traced run\<close>

text \<open>The assertion of \<open>trace_run\<close> and \<open>StreamingRun::new\<close>: tables and configuration list the same families.\<close>

definition same_vm :: "decoded_tables \<Rightarrow> vm_config \<Rightarrow> bool" where
  "same_vm tables config \<longleftrightarrow> length (dt_families tables) = length (vc_families config) \<and>
     list_all2 (\<lambda>t (f, h). ft_family t = f \<and> ft_height t = h) (dt_families tables) (vc_families config)"

definition trace_run ::
    "program_image \<Rightarrow> guest_io \<Rightarrow> decoded_tables \<Rightarrow> vm_config \<Rightarrow>
      (family_traces \<times> memory_event_log \<times> (u32 \<times> u64) list \<times> execution) emu" where
  "trace_run im io tables config =
     bind_res (ensure (same_vm tables config)) (\<lambda>_.
     bind_res (check_io io) (\<lambda>_.
     bind_res (machine_new im io) (\<lambda>m.
     bind_res (machine_run (m\<lparr>mc_recorder := Some (recorder_new tables config (Whole log_new))\<rparr>)) (\<lambda>m.
     case mc_recorder m of
       None \<Rightarrow> panic
     | Some r \<Rightarrow>
         bind_res (machine_finish m) (\<lambda>execution.
         bind_res (profile_total (profile r)) (\<lambda>total.
         bind_res (ensure (total = ex_cycle_count execution)) (\<lambda>_.
         case rc_memory r of
           Whole log \<Rightarrow> Inr (rc_traces r, log, profile r, execution)
         | Streaming _ \<Rightarrow> panic)))))))"

section \<open>The streaming run\<close>

record streamed_execution =
  se_state :: memory_state
  se_profile :: "(u32 \<times> u64) list"
  se_execution :: execution

definition streaming_new ::
    "program_image \<Rightarrow> guest_io \<Rightarrow> decoded_tables \<Rightarrow> vm_config \<Rightarrow> machine emu" where
  "streaming_new im io tables config =
     bind_res (ensure (same_vm tables config)) (\<lambda>_.
     bind_res (check_io io) (\<lambda>_.
     bind_res (machine_new im io) (\<lambda>m.
       Inr (m\<lparr>mc_recorder := Some (recorder_new tables config (Streaming ms_new))\<rparr>))))"

text \<open>\<open>mem::take\<close> leaves the ready list empty.\<close>

function next_shards :: "machine \<Rightarrow> (shard_chunk list \<times> machine) emu" where
  "next_shards m =
     (case mc_recorder m of
        None \<Rightarrow> panic
      | Some r \<Rightarrow>
          if rc_ready r \<noteq> [] then Inr (rc_ready r, m\<lparr>mc_recorder := Some (r\<lparr>rc_ready := []\<rparr>)\<rparr>)
          else if mc_exit m \<noteq> None then Inr ([], m)
          else bind_res (step m) (\<lambda>m. next_shards m))"
  by auto
termination
  by (relation "measure cycles_left") (simp_all add: step_cycles_left)

declare next_shards.simps [simp del]

definition streaming_finish :: "machine \<Rightarrow> (shard_chunk list \<times> streamed_execution) emu" where
  "streaming_finish m =
     bind_res (ensure (mc_exit m \<noteq> None)) (\<lambda>_.
     case mc_recorder m of
       None \<Rightarrow> panic
     | Some r \<Rightarrow>
         bind_res (ensure (rc_ready r = [])) (\<lambda>_.
         bind_res (flush_partial r) (\<lambda>(tail, r).
         bind_res (machine_finish m) (\<lambda>execution.
         bind_res (profile_total (profile r)) (\<lambda>total.
         bind_res (ensure (total = ex_cycle_count execution)) (\<lambda>_.
         case rc_memory r of
           Streaming state \<Rightarrow> Inr (tail, \<lparr>se_state = state, se_profile = profile r, se_execution = execution\<rparr>)
         | Whole _ \<Rightarrow> panic))))))"

section \<open>Safety of a run\<close>

lemma machine_run_induct [case_names machine_run]:
  "(\<And>m. (\<And>m'. mc_exit m = None \<Longrightarrow> step m = Inr m' \<Longrightarrow> P m') \<Longrightarrow> P m) \<Longrightarrow> P m"
  by (rule machine_run.induct) auto

definition clock_ok :: "machine \<Rightarrow> bool" where
  "clock_ok m \<longleftrightarrow> 1 \<le> unat (mc_cycle m) \<and> unat (mc_cycle m) \<le> 2 ^ 36"

lemma step_clock_ok:
  assumes "step m = Inr m'" "clock_ok m"
  shows "clock_ok m'" "unat (mc_cycle m') = unat (mc_cycle m) + 1"
proof -
  have "unat (mc_cycle m) < 2 ^ 36"
    using clock_bound(1) [OF step_clock(2) [OF assms(1)]] assms(2) by (simp add: clock_ok_def)
  then show "unat (mc_cycle m') = unat (mc_cycle m) + 1"
    using step_clock(1) [OF assms(1)] by (simp add: unat_word_ariths)
  then show "clock_ok m'"
    using \<open>unat (mc_cycle m) < 2 ^ 36\<close> by (simp add: clock_ok_def)
qed

text \<open>A machine at its exit, and the execution it leaves.\<close>

definition ran :: "u8 list \<Rightarrow> machine \<Rightarrow> bool" where
  "ran input m \<longleftrightarrow> machine_ok m \<and> clock_ok m \<and> mc_exit m \<noteq> None \<and> mc_public_input m = input"

definition execution_ok :: "u8 list \<Rightarrow> execution \<Rightarrow> bool" where
  "execution_ok input ex \<longleftrightarrow> length (ex_regs ex) = 32 \<and> ex_regs ex ! 0 = 0 \<and> unat (ex_cycle_count ex) < 2 ^ 36 \<and>
     ex_input ex = input \<and> length (ex_output ex) \<le> unat PUBLIC_PAYLOAD_BYTES"

lemma machine_run_returns:
  "machine_ok m \<Longrightarrow> mc_recorder m = None \<Longrightarrow> clock_ok m \<Longrightarrow>
    returns (machine_run m) (ran (mc_public_input m))"
proof (induction m rule: machine_run_induct)
  case (machine_run m)
  show ?case
  proof (cases "mc_exit m = None")
    case True
    have "returns (bind_res (step m) (\<lambda>m. machine_run m))
        (ran (mc_public_input m))"
    proof (rule returns_bind [OF returns_conj [OF step_returns]])
      show "returns (step m) (\<lambda>m'. step m = Inr m')"
        using step_returns [OF machine_run.prems(1,2)] by (auto intro: returnsI dest: returnsD)
      fix m'
      assume "stepped m m' \<and> step m = Inr m'"
      then show "returns (machine_run m')
          (ran (mc_public_input m))"
        using machine_run.IH [OF True, of m'] machine_run.prems step_clock_ok(1) [of m m'] by (simp add: stepped_def)
    qed (use machine_run.prems in simp_all)
    then show ?thesis
      using True by (simp add: machine_run.simps [of m])
  qed (use machine_run.prems in \<open>simp add: machine_run.simps [of m] ran_def\<close>)
qed

lemma journal_returns:
  assumes "machine_ok m"
  shows "returns (journal m) (\<lambda>out. length out \<le> unat PUBLIC_PAYLOAD_BYTES)"
proof -
  have "unat (PUBLIC_OUTPUT_ORIGIN + 4 + 4 * of_nat y :: u32) mod 4 = 0" for y
    by (intro aligned_add aligned_times) (simp_all add: guest_memory_defs)
  then have words: "returns (mem_words m (map (\<lambda>y. PUBLIC_OUTPUT_ORIGIN + 4 + 4 * of_nat y) ys)) (\<lambda>_. True)" for ys
    by (intro returns_mono [OF mem_words_returns [OF assms]]) auto
  have "unat PUBLIC_OUTPUT_ORIGIN mod 4 = 0"
    by (simp add: guest_memory_defs)
  then show ?thesis
    unfolding journal_def
    by (intro returns_bind [OF mem_word_returns [OF assms]])
      (auto simp: word_le_nat_alt not_less intro!: returns_bind [OF words])
qed

lemma machine_finish_returns:
  assumes "ran input m"
  shows "returns (machine_finish m) (execution_ok input)"
proof -
  note assms = assms [unfolded ran_def]
  have "1 \<le> mc_cycle m" "unat (mc_cycle m) - 1 < 2 ^ 36"
    using assms by (auto simp: clock_ok_def word_le_nat_alt)
  then have "unat (mc_cycle m - 1) < 2 ^ 36"
    by (simp add: unat_sub)
  then show ?thesis
    unfolding machine_finish_def
    by (intro returns_bind [OF journal_returns [OF conjunct1 [OF assms]]]) (use assms in \<open>auto simp: machine_ok_def execution_ok_def\<close>)
qed

lemma run_returns:
  assumes "validate im = Inr ()" "length (io_advice io) \<le> 2 ^ 31 - 4"
  shows "returns (run im io) (execution_ok (io_input io))"
proof (cases "io_ok io")
  case True
  obtain m where m: "machine_new im io = Inr m" "machine_ok m" "mc_recorder m = None" "mc_cycle m = 1"
    "mc_public_input m = io_input io"
    using machine_new_memory_value [OF assms(1) True] by blast
  have "clock_ok m"
    using m(4) by (simp add: clock_ok_def)
  then have "returns (bind_res (machine_run m) machine_finish) (execution_ok (io_input io))"
    using machine_finish_returns m(5) by (intro returns_bind [OF machine_run_returns [OF m(2,3)]]) simp_all
  then show ?thesis
    using True m(1) by (simp add: run_def check_io_def io_ok_def)
next
  case False
  then show ?thesis
    using assms(2) by (simp add: run_def check_io_def io_ok_def)
qed

section \<open>Executions as step sequences\<close>

inductive exec_step :: "machine \<Rightarrow> machine \<Rightarrow> bool" where
  "mc_exit m = None \<Longrightarrow> step m = Inr m' \<Longrightarrow> exec_step m m'"

inductive_simps exec_step_iff: "exec_step m m'"

lemma exec_steps_clock: "(exec_step ^^ n) m m' \<Longrightarrow> clock_ok m \<Longrightarrow> clock_ok m' \<and> unat (mc_cycle m') = unat (mc_cycle m) + n"
proof (induction n arbitrary: m')
  case (Suc n)
  then obtain m1 where m1: "(exec_step ^^ n) m m1" "exec_step m1 m'"
    by auto
  then show ?case
    using Suc.IH [OF m1(1) Suc.prems(2)] step_clock_ok [of m1 m'] by (simp add: exec_step_iff)
qed simp

lemma exec_steps_invariant:
  "exec_step\<^sup>*\<^sup>* m m' \<Longrightarrow> machine_ok m \<and> mc_recorder m = None \<Longrightarrow> machine_ok m' \<and> mc_recorder m' = None"
proof (induction rule: rtranclp_induct)
  case (step m1 m2)
  then show ?case
    using returnsD(2) [OF step_returns [of m1]] by (auto simp: exec_step_iff stepped_def)
qed

lemma machine_run_reaches:
  "machine_ok m \<Longrightarrow> mc_recorder m = None \<Longrightarrow>
    \<exists>m'. exec_step\<^sup>*\<^sup>* m m' \<and>
      (mc_exit m' \<noteq> None \<and> machine_run m = Inr m' \<or>
       mc_exit m' = None \<and> (\<exists>e. step m' = refuse e \<and> machine_run m = refuse e))"
proof (induction m rule: machine_run_induct)
  case (machine_run m)
  note step_ok = step_returns [OF machine_run.prems]
  show ?case
  proof (cases "mc_exit m = None")
    case True
    show ?thesis
    proof (cases "step m")
      case (Inl f)
      then obtain e where "step m = refuse e"
        using returnsD(1) [OF step_ok] by (cases f) (auto simp: refuse_def panic_def)
      then show ?thesis
        using True by (intro exI [of _ m]) (simp add: machine_run.simps [of m])
    next
      case (Inr m1)
      then have "machine_ok m1" "mc_recorder m1 = None"
        using returnsD(2) [OF step_ok] machine_run.prems(2) by (auto simp: stepped_def)
      then obtain m' where "exec_step\<^sup>*\<^sup>* m1 m'" "mc_exit m' \<noteq> None \<and> machine_run m1 = Inr m' \<or>
          mc_exit m' = None \<and> (\<exists>e. step m' = refuse e \<and> machine_run m1 = refuse e)"
        using machine_run.IH [OF True Inr] by blast
      moreover have "exec_step m m1"
        using True Inr by (rule exec_step.intros)
      moreover have "machine_run m = machine_run m1"
        using True Inr by (simp add: machine_run.simps [of m])
      ultimately show ?thesis
        by (metis converse_rtranclp_into_rtranclp)
    qed
  next
    case False
    then show ?thesis
      by (intro exI [of _ m]) (simp add: machine_run.simps [of m])
  qed
qed

section \<open>Tracing\<close>

abbreviation (input) traced_by :: "recorder option \<Rightarrow> machine \<Rightarrow> machine" where
  "traced_by r m \<equiv> m\<lparr>mc_recorder := r\<rparr>"

lemma reads_traced [simp]:
  "reg_read role a (traced_by r m) c = reg_read role a m c" "mem_word (traced_by r m) x = mem_word m x"
  "data_word (traced_by r m) pc x w = data_word m pc x w" "mem_words (traced_by r m) xs = mem_words m xs"
  "delegation_frame (traced_by r m) pc base n = delegation_frame m pc base n"
  "data_addrs (traced_by r m) pc ptr ks = data_addrs m pc ptr ks" "fetch (traced_by r m) pc = fetch m pc"
  "journal (traced_by r m) = journal m" "machine_finish (traced_by r m) = machine_finish m"
proof -
  show w: "mem_word (traced_by r m) x = mem_word m x" for x
    by (simp add: mem_word_def)
  show ws: "mem_words (traced_by r m) xs = mem_words m xs" for xs
    by (induction xs) (simp_all add: w)
  show d: "data_word (traced_by r m) pc x w = data_word m pc x w" for x w
    by (simp add: data_word_def)
  show "data_addrs (traced_by r m) pc ptr ks = data_addrs m pc ptr ks"
    by (induction ks) (simp_all add: d)
  show j: "journal (traced_by r m) = journal m"
    by (simp only: journal_def w ws)
  show "machine_finish (traced_by r m) = machine_finish m"
    by (simp add: machine_finish_def j cong: option.case_cong)
  show "delegation_frame (traced_by r m) pc base n = delegation_frame m pc base n"
    by (simp add: delegation_frame_def ws)
qed (simp_all add: reg_read_def fetch_def Let_def)

text \<open>The equations push a map through a bind, to where the machine is.\<close>

lemma map_bind_res: "map_sum id g (bind_res x f) = bind_res x (\<lambda>y. map_sum id g (f y))"
  by (cases x) simp_all

lemma bind_res_map: "bind_res (map_sum id g x) f = bind_res x (\<lambda>y. f (g y))"
  by (cases x) simp_all

lemma map_ends: "map_sum id g (refuse e) = refuse e" "map_sum id g panic = panic"
  by (simp_all add: refuse_def panic_def)

text \<open>The recorder's update last.\<close>

lemma traced_updates:
  "m\<lparr>mc_recorder := r, mc_ram := x\<rparr> = m\<lparr>mc_ram := x, mc_recorder := r\<rparr>"
  "m\<lparr>mc_recorder := r, mc_regs := y\<rparr> = m\<lparr>mc_regs := y, mc_recorder := r\<rparr>"
  "m\<lparr>mc_recorder := r, mc_field := z\<rparr> = m\<lparr>mc_field := z, mc_recorder := r\<rparr>"
  "m\<lparr>mc_recorder := r, mc_exit := e\<rparr> = m\<lparr>mc_exit := e, mc_recorder := r\<rparr>"
  by simp_all

lemmas traced_rules = traced_updates map_bind_res bind_res_map map_ends split_def Let_def

abbreviation (input) retrace :: "recorder option \<Rightarrow> (machine \<times> cycle) emu \<Rightarrow> (machine \<times> cycle) emu" where
  "retrace r \<equiv> map_sum id (\<lambda>x. (traced_by r (fst x), snd x))"

lemma op_traced:
  "mem_set_word a v (traced_by r m) = map_sum id (traced_by r) (mem_set_word a v m)"
  "reg_write dst v (traced_by r m) c = retrace r (reg_write dst v m c)"
  by (simp_all add: mem_set_word_def reg_write_def traced_rules del: bind_res_Inr)

lemma ram_write_traced: "ram_write a old new (traced_by r m) c = retrace r (ram_write a old new m c)"
  by (simp add: ram_write_def op_traced traced_rules)

lemma exec_traced:
  "exec_op (traced_by r m) c dst rs1 rs2 f = retrace r (exec_op m c dst rs1 rs2 f)"
  "exec_op_imm (traced_by r m) c dst rs1 imm f = retrace r (exec_op_imm m c dst rs1 imm f)"
  "exec_branch (traced_by r m) c rs1 rs2 target fall taken =
    map_sum id (\<lambda>x. (fst x, traced_by r (fst (snd x)), snd (snd x))) (exec_branch m c rs1 rs2 target fall taken)"
  "exec_load (traced_by r m) c pc dst rs1 imm width ext = retrace r (exec_load m c pc dst rs1 imm width ext)"
  "exec_store (traced_by r m) c pc rs1 rs2 imm width = retrace r (exec_store m c pc rs1 rs2 imm width)"
  "exec_amo (traced_by r m) c pc dst rs1 rs2 f = retrace r (exec_amo m c pc dst rs1 rs2 f)"
  by (simp_all add: exec_op_def exec_op_imm_def exec_branch_def exec_load_def exec_store_def exec_amo_def
      op_traced ram_write_traced traced_rules)

lemma falls_traced:
  "falls nxt (retrace r x) = map_sum id (\<lambda>x. (fst x, traced_by r (fst (snd x)), snd (snd x))) (falls nxt x)"
  by (simp add: falls_def traced_rules)

lemma execute_traced:
  "execute i pc fall (traced_by r m) c =
    map_sum id (\<lambda>x. (fst x, traced_by r (fst (snd x)), snd (snd x))) (execute i pc fall m c)"
  by (cases i) (simp_all add: exec_traced op_traced ram_write_traced falls_traced traced_rules)

lemma delegation_writeback_traced:
  "delegation_writeback a old new (traced_by r m) =
    map_sum id (\<lambda>x. (fst x, traced_by r (snd x))) (delegation_writeback a old new m)"
  by (induction old arbitrary: a new m) (simp_all add: op_traced traced_rules)

lemma put_data_traced:
  "put_data as ws vs (traced_by r m) = map_sum id (\<lambda>x. (fst x, traced_by r (snd x))) (put_data as ws vs m)"
proof (induction as arbitrary: ws vs m)
  case (Cons a as)
  then show ?case
    by (cases ws; cases vs) (simp_all add: op_traced [unfolded id_def] traced_rules [unfolded id_def] id_def)
qed simp

lemma on_cells_traced:
  "on_cells f (traced_by r m) = map_sum id (\<lambda>x. (fst x, traced_by r (snd x))) (on_cells f m)"
  by (simp add: on_cells_def traced_rules)

lemma map_if: "map_sum id g (if b then x else y) = (if b then map_sum id g x else map_sum id g y)"
  by simp

lemma field_io_traced:
  "field_io pc frame (traced_by r m) = map_sum id (\<lambda>x. (fst x, traced_by r (snd x))) (field_io pc frame m)"
  by (simp add: field_io_def put_data_traced traced_rules)

lemma delegate_extra_traced:
  "delegate_extra family pc old (traced_by r m) =
    map_sum id (\<lambda>x. (fst x, traced_by r (snd x))) (delegate_extra family pc old m)"
  by (simp add: delegate_extra_def on_cells_traced field_io_traced)

lemma delegate_traced:
  "delegate family pc base (traced_by r m) =
    map_sum id (\<lambda>x. (fst x, traced_by r (snd x))) (delegate family pc base m)"
  by (cases "delegation_frame_words family")
    (simp_all add: delegate_def delegation_writeback_traced delegate_extra_traced traced_rules)

section \<open>The tracing path adds nothing to the execution\<close>

lemma ecall_delegate_untraced:
  assumes "ecall_delegate family number pc m c = Inr (v, m', c')"
  shows "ecall_delegate family number pc (traced_by None m) c = Inr (v, traced_by None m', c')"
  using assms by (auto simp: ecall_delegate_def delegate_traced split: option.splits)

lemma commit_untraced: "commit c i pc nxt m = Inr m' \<Longrightarrow> commit c i pc nxt (traced_by None m) = Inr (traced_by None m')"
  by (auto simp: commit_def Let_def split: if_splits option.splits)

definition ecall_arms :: "u32 \<Rightarrow> u32 \<Rightarrow> machine \<Rightarrow> cycle \<Rightarrow> (u32 \<times> machine \<times> cycle) emu" where
  "ecall_arms number pc m c =
     (if number = ecall_EXIT then
        bind_res (reg_read RoleRs2 10 m c) (\<lambda>(status, c). Inr (status, m\<lparr>mc_exit := Some status\<rparr>, c))
      else
        (case delegation_family number of
           Some family \<Rightarrow> ecall_delegate family number pc m c
         | None \<Rightarrow> Inr (- ecall_ENOSYS, m, c)))"

lemma ecall_steps:
  "ecall i pc fall m = Inr m' \<longleftrightarrow> (\<exists>number c result m1 c1 m2 c2.
     reg_read RoleRs1 17 m cycle_new = Inr (number, c) \<and> ecall_arms number pc m c = Inr (result, m1, c1) \<and>
     reg_write 10 result m1 c1 = Inr (m2, c2) \<and> commit c2 i pc (if number = ecall_EXIT then HALT_PC else fall) m2 = Inr m')"
  unfolding ecall_def ecall_arms_def [symmetric] by (fastforce simp: split_paired_all)

lemma ecall_arms_untraced:
  assumes "ecall_arms number pc m c = Inr (v, m', c')"
  shows "ecall_arms number pc (traced_by None m) c = Inr (v, traced_by None m', c')"
  using assms by (auto simp: ecall_arms_def dest: ecall_delegate_untraced split: if_splits option.splits)

lemma step_untraced:
  assumes "step m = Inr m'"
  shows "step (traced_by None m) = Inr (traced_by None m')"
proof -
  have ecall: "ecall i pc fall (traced_by None m) = Inr (traced_by None m')" if ec: "ecall i pc fall m = Inr m'" for i pc fall
  proof -
    obtain number c result m1 c1 m2 c2 where st: "reg_read RoleRs1 17 m cycle_new = Inr (number, c)"
      "ecall_arms number pc m c = Inr (result, m1, c1)" "reg_write 10 result m1 c1 = Inr (m2, c2)"
      "commit c2 i pc (if number = ecall_EXIT then HALT_PC else fall) m2 = Inr m'"
      using ec unfolding ecall_steps by blast
    have "reg_write 10 result (traced_by None m1) c1 = Inr (traced_by None m2, c2)"
      using st(3) by (simp add: op_traced)
    then show ?thesis
      unfolding ecall_steps using st(1) ecall_arms_untraced [OF st(2)] commit_untraced [OF st(4)] by auto
  qed
  show ?thesis
  proof (cases "fetch m (mc_pc m)")
    case (Inr x)
    obtain i z where x: "x = (i, z)"
      by fastforce
    let ?fall = "mc_pc m + (if z then 2 else 4)"
    have step_eq: "step n = (if i = Ecall then ecall i (mc_pc m) ?fall n
        else bind_res (execute i (mc_pc m) ?fall n cycle_new) (\<lambda>(next_pc, n, c). commit c i (mc_pc m) next_pc n))"
      if "fetch n (mc_pc n) = Inr (i, z)" "mc_pc n = mc_pc m" for n
      using that by (simp add: step_def Let_def)
    show ?thesis
    proof (cases "i = Ecall")
      case True
      then show ?thesis
        using assms ecall Inr x step_eq [of m] step_eq [of "traced_by None m"] by simp
    next
      case False
      then obtain n m1 c where st: "execute i (mc_pc m) ?fall m cycle_new = Inr (n, m1, c)"
        "commit c i (mc_pc m) n m1 = Inr m'"
        using assms Inr x step_eq [of m] by auto
      then show ?thesis
        using False Inr x step_eq [of "traced_by None m"] commit_untraced [OF st(2)]
        by (simp add: execute_traced)
    qed
  qed (use assms in \<open>simp add: step_def\<close>)
qed

lemma machine_run_untraced: "machine_run m = Inr m' \<Longrightarrow> machine_run (traced_by None m) = Inr (traced_by None m')"
proof (induction m rule: machine_run_induct)
  case (machine_run m)
  show ?case
  proof (cases "mc_exit m = None")
    case True
    then obtain m1 where m1: "step m = Inr m1" "machine_run m1 = Inr m'"
      using machine_run.prems by (auto simp: machine_run.simps [of m])
    have "machine_run (traced_by None m1) = Inr (traced_by None m')"
      using machine_run.IH [OF True m1] .
    then show ?thesis
      using True step_untraced [OF m1(1)] by (simp add: machine_run.simps [of "traced_by None m"])
  next
    case False
    then have "m' = m"
      using machine_run.prems by (simp add: machine_run.simps [of m])
    then show ?thesis
      using False by (simp add: machine_run.simps [of "traced_by None m"])
  qed
qed

lemma trace_run_parts:
  assumes "trace_run im io tables config = Inr (traces, log, counts, ex)"
  obtains m m' r where "check_io io = Inr ()" "machine_new im io = Inr m"
    "machine_run (traced_by (Some (recorder_new tables config (Whole log_new))) m) = Inr m'"
    "mc_recorder m' = Some r" "machine_finish m' = Inr ex" "rc_memory r = Whole log" "rc_traces r = traces"
    "profile r = counts" "profile_total counts = (Inr (ex_cycle_count ex) :: u64 emu)"
proof -
  have rest: "rc_memory r = Whole log \<and> rc_traces r = traces \<and> profile r = counts \<and> e = ex"
    if "(case rc_memory r of Whole log \<Rightarrow> Inr (rc_traces r, log, profile r, e) | Streaming _ \<Rightarrow> panic) =
      (Inr (traces, log, counts, ex) :: (family_traces \<times> memory_event_log \<times> (u32 \<times> u64) list \<times> execution) emu)" for r e
    using that by (cases "rc_memory r") auto
  show thesis
    using assms unfolding trace_run_def by (auto simp del: keep.case split: option.split_asm dest!: rest intro!: that)
qed

lemma trace_run_execution:
  assumes "trace_run im io tables config = Inr (traces, log, counts, ex)"
  shows "run im io = Inr ex"
proof -
  obtain m m' where tr: "check_io io = Inr ()" "machine_new im io = Inr m"
    "machine_run (traced_by (Some (recorder_new tables config (Whole log_new))) m) = Inr m'" "machine_finish m' = Inr ex"
    using trace_run_parts [OF assms] by metis
  have "mc_recorder m = None"
    using tr(2) by (auto simp: machine_new_def)
  then have "traced_by None m = m"
    by (cases m) simp
  then have "machine_run m = Inr (traced_by None m')"
    using machine_run_untraced [OF tr(3)] by simp
  then show ?thesis
    using tr by (simp add: run_def del: bind_res_Inr)
qed

end
