(* ===== verification/Trace_Log.thy ===== *)
theory Trace_Log
  imports Machine_Run
begin

text \<open>
  The log a traced run returns. Each cycle's recorded accesses, in the order the recorder logs them, are
  consistent with the values the machine holds before it and lead to those it holds after it, so the
  whole log replays from the initial memory and passes \<open>self_check\<close>.
\<close>

unbundle bit_operations_syntax

section \<open>Accesses by value\<close>

text \<open>An access: space, address, value read, value written.\<close>

type_synonym touch = "address_space \<times> u32 \<times> u32 \<times> u32"
type_synonym vmem = "address_space \<Rightarrow> u32 \<Rightarrow> u32"

fun leads :: "vmem \<Rightarrow> touch list \<Rightarrow> vmem \<Rightarrow> bool" where
  "leads v [] v' \<longleftrightarrow> v' = v"
| "leads v ((s, a, r, w) # ts) v' \<longleftrightarrow> r = v s a \<and> leads (v (s := (v s) (a := w))) ts v'"

lemma leads_append: "leads v (xs @ ys) v' \<longleftrightarrow> (\<exists>u. leads v xs u \<and> leads u ys v')"
  by (induction v xs v' rule: leads.induct) (simp_all del: fun_upd_apply)

lemma leads_same: "w = v s a \<Longrightarrow> leads v [(s, a, w, w)] v"
  by simp

lemma unat_reg: "unat (ucast (r :: u8) :: u32) = unat r"
  by (simp add: unsigned_ucast_eq take_bit_nat_eq_self unat_less_pow [where 'a = 8, simplified, THEN less_trans])

text \<open>The values a machine holds, with the pc apart.\<close>

definition vals :: "u32 \<Rightarrow> machine \<Rightarrow> vmem" where
  "vals p m s a =
     (case s of
        Reg \<Rightarrow> if unat a < 32 then mc_regs m ! unat a else 0
      | Pc \<Rightarrow> if a = 0 then p else 0
      | Ram \<Rightarrow> if unat a mod 4 = 0 then (case mem_word m a of Inr w \<Rightarrow> w | Inl _ \<Rightarrow> 0) else 0
      | _ \<Rightarrow> 0)"

lemma vals_reg: "machine_ok m \<Longrightarrow> r < 32 \<Longrightarrow> vals p m Reg (ucast (r :: u8)) = mc_regs m ! unat r"
  by (simp add: vals_def unat_reg word_less_nat_alt)

lemma vals_ram: "unat a mod 4 = 0 \<Longrightarrow> mem_word m a = Inr w \<Longrightarrow> vals p m Ram a = w"
  by (simp add: vals_def)

lemma vals_pc: "(vals p m) (Pc := (vals p m Pc) (0 := q)) = vals q m"
  by (rule ext, rule ext) (simp add: vals_def split: address_space.split)

lemma vals_same: "mc_regs m' = mc_regs m \<Longrightarrow> mc_ram m' = mc_ram m \<Longrightarrow> vals p m' = vals p m"
  by (rule ext, rule ext) (simp add: vals_def mem_word_def split: address_space.split)

lemma vals_set_word:
  assumes "machine_ok m" "unat a mod 4 = 0" "mem_set_word a v m = Inr m'"
  shows "vals p m' = (vals p m) (Ram := (vals p m Ram) (a := v))"
proof -
  obtain ram' where ram': "ram_set_word (mc_ram m) a v = (Inr ram' :: ram emu)" "ram_word ram' a = (Inr v :: u32 emu)"
    "\<forall>b. unat b mod 4 = 0 \<longrightarrow> b \<noteq> a \<longrightarrow> (ram_word ram' b :: u32 emu) = ram_word (mc_ram m) b"
    using pages.put_returns [of "mc_ram m" a v, where ?'a = emu_error] assms(1,2) by (auto simp: machine_ok_def)
  then have m': "m' = m\<lparr>mc_ram := ram'\<rparr>"
    using assms(3) by (simp add: mem_set_word_def del: bind_res_Inr)
  show ?thesis
    by (rule ext, rule ext) (use ram' assms(2) in \<open>simp add: vals_def m' mem_word_def split: address_space.split\<close>)
qed

lemma vals_set_reg:
  assumes "machine_ok m" "r < 32"
  shows "vals p (m\<lparr>mc_regs := (mc_regs m)[unat r := v]\<rparr>) = (vals p m) (Reg := (vals p m Reg) (ucast (r :: u8) := v))"
proof (intro ext)
  fix s and a :: u32
  have len: "length (mc_regs m) = 32" "unat r < 32"
    using assms by (simp_all add: machine_ok_def word_less_nat_alt)
  have same: "unat r = unat a \<longleftrightarrow> a = ucast r"
    unfolding word_unat_eq_iff unat_reg by auto
  show "vals p (m\<lparr>mc_regs := (mc_regs m)[unat r := v]\<rparr>) s a = ((vals p m) (Reg := (vals p m Reg) (ucast r := v))) s a"
  proof (cases s)
    case Reg
    then show ?thesis
      using len by (simp add: vals_def nth_list_update same unat_reg)
  qed (simp_all add: vals_def mem_word_def)
qed

section \<open>The roles of a cycle\<close>

text \<open>The accesses of the five roles of registers and RAM, in role order.\<close>

fun plain_space :: "role \<Rightarrow> address_space" where
  "plain_space RoleLoad = Ram"
| "plain_space RoleRam = Ram"
| "plain_space _ = Reg"

definition role_touch :: "cycle \<Rightarrow> role \<Rightarrow> touch list" where
  "role_touch c r = (case cy_queries c ! role_index r of None \<Rightarrow> [] | Some (a, x, w) \<Rightarrow> [(plain_space r, a, x, w)])"

definition touches :: "cycle \<Rightarrow> touch list" where
  "touches c = concat (map (role_touch c) [RoleRs1, RoleRs2, RoleLoad, RoleRam, RoleRd])"

text \<open>A role staged after every earlier one adds its access at the end.\<close>

lemma touches_stage:
  assumes "stage role a x w c = Inr c'" "staged R c" "\<forall>r \<in> R. r = RoleDelegate \<or> role_index r < role_index role" "role \<noteq> RoleDelegate"
  shows "touches c' = touches c @ [(plain_space role, a, x, w)]" "staged (insert role R) c'"
proof -
  have role: "role \<notin> R"
    using assms(3,4) by auto
  then show "staged (insert role R) c'"
    using returnsD(2) [OF stage_returns [OF assms(2) role] assms(1)] by simp
  have c': "c' = c\<lparr>cy_queries := (cy_queries c)[role_index role := Some (a, x, w)]\<rparr>" "length (cy_queries c) = 8"
    using assms(1,2) by (auto simp: stage_def staged_def)
  have none: "role_touch c r = []" if "role_index role \<le> role_index r" "r \<noteq> RoleDelegate" for r
    using assms(2,3) that by (fastforce simp: staged_def role_touch_def split: option.split)
  have "role_touch c' r = (if r = role then [(plain_space role, a, x, w)] else role_touch c r)" for r
    using c' by (simp add: role_touch_def nth_list_update)
  then show "touches c' = touches c @ [(plain_space role, a, x, w)]"
    using none assms(4) by (cases role) (simp_all add: touches_def)
qed

lemma touches_delegate: "stage RoleDelegate a x w c = Inr c' \<Longrightarrow> touches c' = touches c"
  by (auto simp: stage_def touches_def role_touch_def nth_list_update)

lemma touches_new [simp]: "touches cycle_new = []"
  by (simp add: touches_def role_touch_def cycle_new_def)

section \<open>Instructions\<close>

text \<open>The accesses staged so far lead from the machine at the start of the cycle to the machine now.\<close>

definition track :: "machine \<Rightarrow> machine \<Rightarrow> cycle \<Rightarrow> role set \<Rightarrow> bool" where
  "track m0 m c R \<longleftrightarrow> machine_ok m \<and> staged R c \<and> (\<forall>p. leads (vals p m0) (touches c) (vals p m))"

lemma track_new: "machine_ok m \<Longrightarrow> track m m cycle_new {}"
  by (simp add: track_def)

lemma track_stage:
  assumes "track m0 m c R" "stage role a x w c = Inr c'" "\<forall>r \<in> R. r = RoleDelegate \<or> role_index r < role_index role" "role \<noteq> RoleDelegate"
    "machine_ok m'" "\<And>p. leads (vals p m) [(plain_space role, a, x, w)] (vals p m')"
  shows "track m0 m' c' (insert role R)"
  using touches_stage [OF assms(2) _ assms(3,4)] assms(1,5,6) by (auto simp: track_def leads_append simp del: leads.simps)

abbreviation (input) follows :: "role \<Rightarrow> role set \<Rightarrow> bool" where
  "follows role R \<equiv> \<forall>r \<in> R. r = RoleDelegate \<or> role_index r < role_index role"

lemma track_read:
  assumes "track m0 m c R" "r < 32" "follows role R" "role \<in> {RoleRs1, RoleRs2}"
  shows "yields (reg_read role r m c) (\<lambda>(v, c'). track m0 m c' (insert role R))"
proof (rule yieldsI, clarify)
  fix v c'
  assume "reg_read role r m c = Inr (v, c')"
  then have st: "(stage role (ucast r) (mc_regs m ! unat r) (mc_regs m ! unat r) c :: cycle emu) = Inr c'"
    by (auto simp: reg_read_def)
  have ok: "machine_ok m"
    using assms(1) by (simp add: track_def)
  show "track m0 m c' (insert role R)"
    by (rule track_stage [OF assms(1) st assms(3)])
      (use assms(4) ok vals_reg [OF ok assms(2)] in \<open>auto intro!: leads_same simp del: leads.simps\<close>)
qed

lemma track_write:
  assumes "track m0 m c R" "d < 32" "follows RoleRd R"
  shows "yields (reg_write d v m c) (\<lambda>(m', c'). track m0 m' c' (insert RoleRd R))"
proof (rule yieldsI, clarify)
  fix m' c'
  assume rw: "reg_write d v m c = Inr (m', c')"
  let ?v = "if d = 0 then 0 else v"
  have st: "(stage RoleRd (ucast d) (mc_regs m ! unat d) ?v c :: cycle emu) = Inr c'" "m' = m\<lparr>mc_regs := (mc_regs m)[unat d := ?v]\<rparr>"
    using rw by (auto simp: reg_write_def Let_def split: if_splits)
  have ok: "machine_ok m" "staged R c"
    using assms(1) by (simp_all add: track_def)
  have "RoleRd \<notin> R"
    using assms(3) by auto
  then have ok': "machine_ok m'"
    using returnsD(2) [OF reg_write_returns [OF ok(1) assms(2) ok(2)] rw] by (simp add: good_step_def)
  show "track m0 m' c' (insert RoleRd R)"
    by (rule track_stage [OF assms(1) st(1) assms(3) _ ok'])
      (use vals_reg [OF ok(1) assms(2)] in \<open>simp_all add: st(2) vals_set_reg [OF ok(1) assms(2)]\<close>)
qed

lemma track_load:
  assumes "track m0 m c R" "unat a mod 4 = 0" "mem_word m a = Inr w" "follows RoleLoad R"
  shows "yields (stage RoleLoad a w w c) (\<lambda>c'. track m0 m c' (insert RoleLoad R))"
proof (rule yieldsI)
  fix c'
  assume "stage RoleLoad a w w c = Inr c'"
  then show "track m0 m c' (insert RoleLoad R)"
    by (rule track_stage [OF assms(1) _ assms(4)])
      (use assms(1) vals_ram [OF assms(2,3)] in \<open>auto intro!: leads_same simp: track_def simp del: leads.simps\<close>)
qed

lemma track_ram:
  assumes "track m0 m c R" "unat a mod 4 = 0" "mem_word m a = Inr old" "follows RoleRam R"
  shows "yields (ram_write a old new m c) (\<lambda>(m', c'). track m0 m' c' (insert RoleRam R))"
proof (rule yieldsI, clarify)
  fix m' c'
  assume "ram_write a old new m c = Inr (m', c')"
  then have st: "(stage RoleRam a old new c :: cycle emu) = Inr c'" "mem_set_word a new m = Inr m'"
    by (auto simp: ram_write_def)
  have ok: "machine_ok m"
    using assms(1) by (simp add: track_def)
  have ok': "machine_ok m'"
    using returnsD(2) [OF mem_set_word_returns [OF ok assms(2)] st(2)] by (simp add: good_step_def)
  show "track m0 m' c' (insert RoleRam R)"
    by (rule track_stage [OF assms(1) st(1) assms(4) _ ok'])
      (use vals_ram [OF assms(2,3)] in \<open>simp_all add: vals_set_word [OF ok assms(2) st(2)]\<close>)
qed

text \<open>What an instruction leaves: the machine reached by the cycle's accesses.\<close>

abbreviation (input) exec_tracked :: "machine \<Rightarrow> machine \<times> cycle \<Rightarrow> bool" where
  "exec_tracked m \<equiv> \<lambda>(m', c). \<exists>R. track m m' c R"

lemma t_read1:
  assumes "machine_ok m" "rs1 < 32" "\<And>v c. track m m c {RoleRs1} \<Longrightarrow> yields (f v c) Q"
  shows "yields (bind_res (reg_read RoleRs1 rs1 m cycle_new) (\<lambda>(v, c). f v c)) Q"
  by (rule yields_bind [OF track_read [OF track_new [OF assms(1)] assms(2)]]) (use assms(3) in auto)

lemma t_read2:
  assumes "track m m c {RoleRs1}" "rs2 < 32" "\<And>v c. track m m c {RoleRs1, RoleRs2} \<Longrightarrow> yields (f v c) Q"
  shows "yields (bind_res (reg_read RoleRs2 rs2 m c) (\<lambda>(v, c). f v c)) Q"
  by (rule yields_bind [OF track_read [OF assms(1,2)]]) (use assms(3) in \<open>auto simp: insert_commute\<close>)

lemma t_write:
  assumes "track m0 m c R" "d < 32" "follows RoleRd R"
  shows "yields (reg_write d v m c) (exec_tracked m0)"
  using track_write [OF assms] by (auto simp: yields_def)

lemma t_word:
  assumes "\<And>w. unat w mod 4 = 0 \<Longrightarrow> yields (f w) Q"
  shows "yields (bind_res (data_word m pc a n) f) Q"
  by (rule yields_bind [OF returns_yields [OF data_word_returns]]) (rule assms)

lemma t_mem:
  assumes "\<And>v. mem_word m w = Inr v \<Longrightarrow> yields (f v) Q"
  shows "yields (bind_res (mem_word m w) f) Q"
  by (rule yields_bind [where P = "\<lambda>v. mem_word m w = Inr v"]) (rule yieldsI, assumption, rule assms)

lemma t_ram_rd:
  assumes "track m0 m c R" "unat a mod 4 = 0" "mem_word m a = Inr old" "follows RoleRam R" "d < 32"
    "follows RoleRd (insert RoleRam R)"
  shows "yields (bind_res (ram_write a old new m c) (\<lambda>(m, c). reg_write d v m c)) (exec_tracked m0)"
  by (rule yields_bind [OF track_ram [OF assms(1-4)]]) (use t_write [OF _ assms(5,6)] in auto)

lemma t_ram:
  assumes "track m0 m c R" "unat a mod 4 = 0" "mem_word m a = Inr old" "follows RoleRam R"
  shows "yields (ram_write a old new m c) (exec_tracked m0)"
  using track_ram [OF assms] by (auto simp: yields_def)

lemma t_load:
  assumes "track m0 m c R" "unat a mod 4 = 0" "mem_word m a = Inr w" "follows RoleLoad R"
    "\<And>c. track m0 m c (insert RoleLoad R) \<Longrightarrow> yields (f c) Q"
  shows "yields (bind_res (stage RoleLoad a w w c) f) Q"
  by (rule yields_bind [OF track_load [OF assms(1-4)]]) (rule assms(5))

lemma exec_op_tracks:
  assumes "machine_ok m" "d < 32" "rs1 < 32" "rs2 < 32"
  shows "yields (exec_op m cycle_new d rs1 rs2 f) (exec_tracked m)"
  unfolding exec_op_def by (intro t_read1 t_read2 t_write assms | assumption | simp)+

lemma exec_op_imm_tracks:
  assumes "machine_ok m" "d < 32" "rs1 < 32"
  shows "yields (exec_op_imm m cycle_new d rs1 imm f) (exec_tracked m)"
  unfolding exec_op_imm_def by (intro t_read1 t_write assms | assumption | simp)+

lemma exec_load_tracks:
  assumes "machine_ok m" "d < 32" "rs1 < 32"
  shows "yields (exec_load m cycle_new pc d rs1 imm width ext) (exec_tracked m)"
  unfolding exec_load_def Let_def by (intro t_read1 t_word t_mem t_load t_write assms | assumption | simp)+

lemma exec_store_tracks:
  assumes "machine_ok m" "rs1 < 32" "rs2 < 32"
  shows "yields (exec_store m cycle_new pc rs1 rs2 imm width) (exec_tracked m)"
  unfolding exec_store_def Let_def by (intro t_read1 t_read2 t_word t_mem t_ram assms | assumption | simp)+

lemma exec_amo_tracks:
  assumes "machine_ok m" "d < 32" "rs1 < 32" "rs2 < 32"
  shows "yields (exec_amo m cycle_new pc d rs1 rs2 f) (exec_tracked m)"
  unfolding exec_amo_def by (intro t_read1 t_read2 t_word t_mem t_ram_rd assms | assumption | simp)+

abbreviation (input) step_tracked :: "machine \<Rightarrow> u32 \<times> machine \<times> cycle \<Rightarrow> bool" where
  "step_tracked m \<equiv> \<lambda>(_, m', c). \<exists>R. track m m' c R"

lemma falls_tracks: "yields r (exec_tracked m) \<Longrightarrow> yields (falls nxt r) (step_tracked m)"
  by (auto simp: yields_def falls_def)

lemma exec_branch_tracks:
  assumes "machine_ok m" "rs1 < 32" "rs2 < 32"
  shows "yields (exec_branch m cycle_new rs1 rs2 target fall taken) (step_tracked m)"
  unfolding exec_branch_def by (intro t_read1 t_read2 assms | assumption | auto)+

lemmas exec_tracks = falls_tracks exec_op_tracks exec_op_imm_tracks exec_branch_tracks exec_load_tracks
  exec_store_tracks exec_amo_tracks t_write [OF track_new]

lemma execute_tracks:
  assumes "machine_ok m" "wf_instr i" "i \<noteq> Ecall"
  shows "yields (execute i pc fall m cycle_new) (step_tracked m)"
proof (cases i)
  case (LrW d rs1 aq rl)
  then have "d < 32" "rs1 < 32"
    using assms(2) by simp_all
  then show ?thesis
    unfolding LrW execute.simps falls_bind
    by (intro t_read1 t_word t_mem falls_tracks t_ram_rd assms(1) | assumption | simp)+
next
  case (ScW d rs1 rs2 aq rl)
  then have "d < 32" "rs1 < 32" "rs2 < 32"
    using assms(2) by simp_all
  then show ?thesis
    unfolding ScW execute.simps falls_bind
    by (intro t_read1 t_read2 t_word t_mem falls_tracks t_ram_rd assms(1) | assumption | simp)+
next
  case (Jalr d rs1 imm)
  then have "d < 32" "rs1 < 32"
    using assms(2) by simp_all
  then show ?thesis
    unfolding Jalr execute.simps by (intro t_read1 falls_tracks t_write assms(1) | assumption | simp)+
qed (use assms track_new in \<open>auto intro!: exec_tracks\<close>)

section \<open>Delegation\<close>

definition frame_touches :: "word_access list \<Rightarrow> touch list" where
  "frame_touches frame = map (\<lambda>(a, x, w). (Ram, a, x, w)) frame"

fun extra_touch :: "extra option \<Rightarrow> touch list" where
  "extra_touch (Some (Word a x w)) = [(Ram, a, x, w)]"
| "extra_touch _ = []"

definition extra_touches :: "extra option list \<Rightarrow> touch list" where
  "extra_touches es = concat (map extra_touch es)"

lemma mem_set_word_facts:
  assumes "machine_ok m" "unat a mod 4 = 0" "mem_set_word a v m = Inr m'"
  shows "machine_ok m'" "mc_regs m' = mc_regs m" "unat b mod 4 = 0 \<Longrightarrow> b \<noteq> a \<Longrightarrow> mem_word m' b = mem_word m b"
proof -
  show "machine_ok m'"
    using returnsD(2) [OF mem_set_word_returns [OF assms(1,2)] assms(3)] by (simp add: good_step_def)
  show "mc_regs m' = mc_regs m"
    using assms(3) by (auto simp: mem_set_word_def)
  show "mem_word m' b = mem_word m b" if "unat b mod 4 = 0" "b \<noteq> a"
    using pages.put_returns [of "mc_ram m" a v, where ?'a = emu_error] assms that
    by (auto simp: machine_ok_def mem_set_word_def mem_word_def)
qed

text \<open>Words read before a sequence of writes to distinct addresses are what each write replaces.\<close>

abbreviation (input) reads :: "machine \<Rightarrow> u32 list \<Rightarrow> u32 list \<Rightarrow> bool" where
  "reads m as vs \<equiv> list_all2 (\<lambda>a v. mem_word m a = Inr v) as vs"

lemma mem_words_reads: "mem_words m as = Inr vs \<Longrightarrow> reads m as vs"
  by (induction as arbitrary: vs) auto

lemma reads_set_word:
  assumes "machine_ok m" "unat a mod 4 = 0" "mem_set_word a v m = Inr m'" "reads m as vs" "a \<notin> set as"
    "\<forall>b \<in> set as. unat b mod 4 = 0"
  shows "reads m' as vs"
  using assms(4-6) by (induction rule: list_all2_induct) (auto simp: mem_set_word_facts(3) [OF assms(1-3)])

lemma put_data_leads:
  "put_data as ws vs m = Inr (out, m') \<Longrightarrow> machine_ok m \<Longrightarrow> \<forall>a \<in> set as. unat a mod 4 = 0 \<Longrightarrow> distinct as \<Longrightarrow>
    reads m as ws \<Longrightarrow> length vs = length as \<Longrightarrow>
    machine_ok m' \<and> mc_regs m' = mc_regs m \<and> leads (vals p m) (extra_touches out) (vals p m')"
proof (induction as ws vs m arbitrary: out m' rule: put_data.induct)
  case (1 a as w ws v vs m)
  then obtain m1 out1 where m1: "mem_set_word a v m = Inr m1" "put_data as ws vs m1 = Inr (out1, m')"
    "out = Some (Word a w v) # out1"
    by auto
  have a: "unat a mod 4 = 0" "mem_word m a = Inr w"
    using "1.prems" by simp_all
  note facts = mem_set_word_facts [OF "1.prems"(2) a(1) m1(1)]
  have "reads m1 as ws"
    using reads_set_word [OF "1.prems"(2) a(1) m1(1)] "1.prems"(3-5) by simp
  then have "machine_ok m' \<and> mc_regs m' = mc_regs m1 \<and> leads (vals p m1) (extra_touches out1) (vals p m')"
    using "1.IH" [OF m1(2) facts(1)] "1.prems"(3,4,6) by simp
  then show ?case
    using facts(2) vals_ram [OF a] vals_set_word [OF "1.prems"(2) a(1) m1(1)] by (simp add: m1(3) extra_touches_def)
qed (auto simp: extra_touches_def)

lemma frame_addrs_Suc: "frame_addrs base (Suc n) = base # frame_addrs (base + 4) n"
proof -
  have "[0..<Suc n] = 0 # map Suc [0..<n]"
    by (simp add: map_Suc_upt upt_conv_Cons)
  then show ?thesis
    by (simp add: frame_addrs_def algebra_simps del: upt_Suc)
qed

lemma unat_offset: "unat base + 4 * j < 2 ^ 32 \<Longrightarrow> unat (base + 4 * of_nat j :: u32) = unat base + 4 * j"
  by (simp add: unat_word_ariths unat_of_nat mod_simps)

lemma distinct_frame_addrs:
  assumes "unat base + 4 * n \<le> 2 ^ 32"
  shows "distinct (frame_addrs base n)"
proof -
  have "inj_on (\<lambda>j. base + 4 * of_nat j :: u32) {0..<n}"
  proof (rule inj_onI)
    fix i j
    assume ij: "i \<in> {0..<n}" "j \<in> {0..<n}" and eq: "base + 4 * of_nat i = (base + 4 * of_nat j :: u32)"
    have "unat base + 4 * i < 2 ^ 32" "unat base + 4 * j < 2 ^ 32"
      using assms ij by auto
    from unat_offset [OF this(1)] unat_offset [OF this(2)] show "i = j"
      unfolding eq by linarith
  qed
  then show ?thesis
    by (simp add: frame_addrs_def distinct_map)
qed

lemma writeback_leads:
  "delegation_writeback base old new m = Inr (frame, m') \<Longrightarrow> machine_ok m \<Longrightarrow> unat base mod 4 = 0 \<Longrightarrow>
    unat base + 4 * length old \<le> 2 ^ 32 \<Longrightarrow> reads m (frame_addrs base (length old)) old \<Longrightarrow>
    machine_ok m' \<and> mc_regs m' = mc_regs m \<and> leads (vals p m) (frame_touches frame) (vals p m')"
proof (induction old arbitrary: base new m frame)
  case (Cons o0 old)
  then obtain n0 m1 frame1 where m1: "mem_set_word base n0 m = Inr m1"
    "delegation_writeback (base + 4) old (tl new) m1 = Inr (frame1, m')" "frame = (base, o0, n0) # frame1"
    by auto
  have rd: "mem_word m base = Inr o0" "reads m (frame_addrs (base + 4) (length old)) old"
    using Cons.prems(5) by (simp_all add: frame_addrs_Suc)
  note facts = mem_set_word_facts [OF Cons.prems(2,3) m1(1)]
  have al: "unat (base + 4) mod 4 = 0"
    by (rule aligned_add [OF Cons.prems(3)]) simp
  have far: "base \<notin> set (frame_addrs (base + 4) (length old))"
    using distinct_frame_addrs [of base "Suc (length old)"] Cons.prems(4) by (simp add: frame_addrs_Suc)
  have "reads m1 (frame_addrs (base + 4) (length old)) old"
    using reads_set_word [OF Cons.prems(2,3) m1(1) rd(2) far] frame_addrs_aligned [OF al] by blast
  moreover have "unat (base + 4) + 4 * length old \<le> 2 ^ 32" if "old \<noteq> []"
    using Cons.prems(4) unat_offset [of base 1] that by (cases old) simp_all
  ultimately have "machine_ok m' \<and> mc_regs m' = mc_regs m1 \<and> leads (vals p m1) (frame_touches frame1) (vals p m')"
    using Cons.IH [OF m1(2) facts(1) al] facts(1) m1(2) by (cases "old = []") (simp_all add: frame_touches_def)
  then show ?case
    using facts(2) vals_ram [OF Cons.prems(3) rd(1)] vals_set_word [OF Cons.prems(2,3) m1(1)]
    by (simp add: m1(3) frame_touches_def)
qed (simp add: frame_touches_def)

text \<open>The field operations touch cells alone.\<close>

lemma extra_touches_append: "extra_touches (xs @ ys) = extra_touches xs @ extra_touches ys"
  by (simp add: extra_touches_def)

lemma fr_op_touches: "fr_op pc frame field = Inr (out, field') \<Longrightarrow> extra_touches out = []"
  by (auto simp: fr_op_def fr_op_digit_def fr_op_value_def extra_touches_def Let_def split: if_splits option.splits)

lemma no_touches: "extra_touches es = [] \<longleftrightarrow> (\<forall>e \<in> set es. extra_touch e = [])"
  by (simp add: extra_touches_def)

lemma put_lanes_touches: "extra_touches (fst (put_lanes cell ls field)) = []"
  by (induction ls arbitrary: cell field) (simp_all add: extra_touches_def split_def Let_def)

lemma p2_field_touches: "p2_field pc frame field = Inr (out, field') \<Longrightarrow> extra_touches out = []"
  by (auto simp: p2_field_def split_def Let_def no_touches put_lanes_touches [unfolded no_touches, rule_format]
      split: if_splits)

lemma cell_reads_touches: "extra_touches (cell_reads c delta olds news) = []"
  by (auto simp: no_touches cell_reads_def)

lemma fq_op_touches: "fq_op pc frame field = Inr (out, field') \<Longrightarrow> extra_touches out = []"
  using cell_reads_touches by (auto simp: fq_op_def no_touches Let_def)

lemma on_cells_leads:
  assumes "on_cells f m = Inr (out, m')" "\<And>out field. f (mc_field m) = Inr (out, field) \<Longrightarrow> extra_touches out = []"
  shows "mc_regs m' = mc_regs m \<and> leads (vals p m) (extra_touches out) (vals p m')"
proof -
  have "mc_regs m' = mc_regs m" "mc_ram m' = mc_ram m" "extra_touches out = []"
    using assms by (auto simp: on_cells_def)
  then show ?thesis
    using vals_same [of m' m p] by simp
qed

text \<open>\<open>FIELD_IO\<close>'s data words are eight different ones.\<close>

lemma data_word_4: "data_word m pc a 4 = Inr w \<Longrightarrow> w = a \<and> unat a mod 4 = 0"
proof -
  assume a: "data_word m pc a 4 = Inr w"
  then have al: "unat a mod 4 = 0" "w = a AND NOT 3"
    by (auto simp: data_word_def Let_def aligned_word split: if_splits)
  have "take_bit 2 (unat a) = 0"
    using al(1) by (simp add: take_bit_eq_mod)
  then have "take_bit 2 a = 0"
    by (metis unsigned_take_bit_eq unsigned_0 word_unat_eq_iff)
  then have "\<not> bit (take_bit 2 a) n" for n
    by simp
  then have low: "n < 2 \<Longrightarrow> \<not> bit a n" for n
    by (simp add: bit_take_bit_iff)
  have "a AND NOT (mask 2) = a"
    by (rule bit_word_eqI) (use low in \<open>auto simp: bit_simps\<close>)
  then show ?thesis
    using al by (simp add: mask_eq_exp_minus_1)
qed

lemma data_addrs_eq:
  "data_addrs m pc ptr ks = Inr as \<Longrightarrow>
    as = map (\<lambda>k. ptr + 4 * of_nat k) ks \<and> (\<forall>k \<in> set ks. unat ptr + 4 * k < 2 ^ 32) \<and> (\<forall>a \<in> set as. unat a mod 4 = 0)"
proof (induction ks arbitrary: as)
  case (Cons k ks)
  then show ?case
    using data_word_4 [of m pc "ptr + 4 * of_nat k"] by (fastforce split: if_splits)
qed simp

lemma data_addrs_distinct:
  assumes "data_addrs m pc ptr ks = Inr as" "distinct ks"
  shows "distinct as"
proof -
  note eq = data_addrs_eq [OF assms(1)]
  have "inj_on (\<lambda>k. ptr + 4 * of_nat k :: u32) (set ks)"
  proof (rule inj_onI)
    fix i j
    assume ij: "i \<in> set ks" "j \<in> set ks" and same: "ptr + 4 * of_nat i = (ptr + 4 * of_nat j :: u32)"
    have "unat ptr + 4 * i < 2 ^ 32" "unat ptr + 4 * j < 2 ^ 32"
      using eq ij by auto
    from unat_offset [OF this(1)] unat_offset [OF this(2)] show "i = j"
      unfolding same by linarith
  qed
  then show ?thesis
    using eq assms(2) by (simp add: distinct_map)
qed

lemma field_io_leads:
  assumes "field_io pc frame m = Inr (out, m')" "machine_ok m"
  shows "mc_regs m' = mc_regs m \<and> leads (vals p m) (extra_touches out) (vals p m')"
proof -
  obtain as words written out1 m1 x where st: "data_addrs m pc (frame ! field_io_PTR_WORD) [0..<field_io_DATA_WORDS] = Inr as"
    "mem_words m as = Inr words" "put_data as words written m = Inr (out1, m1)" "written = words \<or> length written = 8"
    "out = out1 @ [Some x]" "\<forall>a u w. x \<noteq> Word a u w" "mc_regs m' = mc_regs m1" "mc_ram m' = mc_ram m1"
    using assms(1) by (auto simp: field_io_def Let_def bytes_words_def split: if_splits)
  have "length as = 8"
    using data_addrs_eq [OF st(1)] by simp
  then have "machine_ok m1 \<and> mc_regs m1 = mc_regs m \<and> leads (vals p m) (extra_touches out1) (vals p m1)"
    using put_data_leads [OF st(3) assms(2)] data_addrs_eq [OF st(1)] data_addrs_distinct [OF st(1)]
      mem_words_reads [OF st(2)] list_all2_lengthD [OF mem_words_reads [OF st(2)]] st(4) by auto
  moreover have "extra_touches out = extra_touches out1"
    using st(6) by (cases x) (simp_all add: st(5) extra_touches_def)
  ultimately show ?thesis
    using vals_same [OF st(7,8)] st(7) by simp
qed

lemma delegate_extra_leads:
  assumes "delegate_extra family pc old m = Inr (out, m')" "machine_ok m"
  shows "mc_regs m' = mc_regs m \<and> leads (vals p m) (extra_touches out) (vals p m')"
proof -
  consider (fr) "delegate_extra family pc old m = on_cells (fr_op pc old) m"
    | (p2) "delegate_extra family pc old m = on_cells (p2_field pc old) m"
    | (io) "delegate_extra family pc old m = field_io pc old m"
    | (fq) "delegate_extra family pc old m = on_cells (fq_op pc old) m"
    | (none) "delegate_extra family pc old m = Inr ([], m)"
    unfolding delegate_extra_def by presburger
  then show ?thesis
  proof cases
    case fr
    then show ?thesis
      using assms(1) fr_op_touches by (intro on_cells_leads) auto
  next
    case p2
    then show ?thesis
      using assms(1) p2_field_touches by (intro on_cells_leads) auto
  next
    case io
    then show ?thesis
      using assms(1) by (intro field_io_leads [OF _ assms(2)]) simp
  next
    case fq
    then show ?thesis
      using assms(1) fq_op_touches by (intro on_cells_leads) auto
  next
    case none
    then show ?thesis
      using assms(1) by (simp add: extra_touches_def)
  qed
qed

lemma delegate_leads:
  assumes "delegate family pc base m = Inr ((frame, extra), m')" "machine_ok m"
  shows "mc_regs m' = mc_regs m \<and> leads (vals p m) (frame_touches frame @ extra_touches extra) (vals p m')"
proof -
  obtain words old new m1 where st: "delegation_frame m pc base words = Inr old"
    "delegation_writeback base old new m = Inr (frame, m1)" "delegate_extra family pc old m1 = Inr (extra, m')"
    using assms(1) by (auto simp: delegate_def split: option.splits)
  have fr: "length old = words" "unat base mod 4 = 0" "unat base + 4 * words \<le> 2 ^ 31"
    using returnsD(2) [OF delegation_frame_returns [OF assms(2)] st(1)] by simp_all
  have "reads m (frame_addrs base words) old"
    using st(1) mem_words_reads by (auto simp: delegation_frame_def split: if_splits)
  then have m1: "machine_ok m1" "mc_regs m1 = mc_regs m" "leads (vals p m) (frame_touches frame) (vals p m1)"
    using writeback_leads [OF st(2) assms(2) fr(2)] fr by auto
  then show ?thesis
    using delegate_extra_leads [OF st(3) m1(1), of p] by (auto simp: leads_append)
qed

text \<open>Register accesses alone do not see RAM.\<close>

lemma leads_regs:
  "leads v ts v' \<Longrightarrow> \<forall>t \<in> set ts. fst t = Reg \<Longrightarrow> u Reg = v Reg \<Longrightarrow> leads u ts (u (Reg := v' Reg))"
proof (induction v ts v' arbitrary: u rule: leads.induct)
  case (2 v s a r w ts v')
  then show ?case
    using "2.IH" [of "u (s := (u s) (a := w))"] by (simp del: fun_upd_apply) (simp add: fun_upd_def)
next
  case (1 v v')
  then have "u (Reg := v' Reg) = u"
    by (simp add: fun_upd_idem)
  then show ?case
    by simp
qed

lemma touches_regs:
  assumes "staged R c" "RoleLoad \<notin> R" "RoleRam \<notin> R" "t \<in> set (touches c)"
  shows "fst t = Reg"
proof -
  have "cy_queries c ! role_index RoleLoad = None" "cy_queries c ! role_index RoleRam = None"
    using assms(1-3) unfolding staged_def by blast+
  then show ?thesis
    using assms(4) by (auto simp: touches_def role_touch_def split: option.splits)
qed

section \<open>A cycle\<close>

definition delegation_touches :: "cycle \<Rightarrow> touch list" where
  "delegation_touches c = (case cy_delegation c of
     None \<Rightarrow> [] | Some (_, _, frame, extra) \<Rightarrow> frame_touches frame @ extra_touches extra)"

text \<open>What a finished cycle has staged, and where its accesses lead.\<close>

definition cycle_tracks :: "machine \<Rightarrow> machine \<Rightarrow> cycle \<Rightarrow> bool" where
  "cycle_tracks m m' c \<longleftrightarrow> machine_ok m' \<and> (\<exists>R. staged R c) \<and>
     (\<forall>p. leads (vals p m) (delegation_touches c @ touches c) (vals p m')) \<and>
     (case cy_delegation c of
        None \<Rightarrow> cy_queries c ! role_index RoleDelegate = None
      | Some (family, base, _, _) \<Rightarrow> (\<exists>number. delegation_family number = Some family) \<and>
          cy_queries c ! role_index RoleDelegate = Some (base, 0, 0))"

text \<open>Only a delegation call stages the delegate role.\<close>

definition keeps :: "cycle \<Rightarrow> cycle \<Rightarrow> bool" where
  "keeps c c' \<longleftrightarrow> cy_delegation c' = cy_delegation c \<and>
     cy_queries c' ! role_index RoleDelegate = cy_queries c ! role_index RoleDelegate"

lemma keeps_refl: "keeps c c"
  by (simp add: keeps_def)

lemma keeps_trans: "keeps a b \<Longrightarrow> keeps b c \<Longrightarrow> keeps a c"
  by (simp add: keeps_def)

lemma stage_keeps: "stage role a x w c = Inr c' \<Longrightarrow> role \<noteq> RoleDelegate \<Longrightarrow> keeps c c'"
  by (cases role) (auto simp: stage_def keeps_def)

lemma op_keeps:
  "reg_read role a m c = Inr (v, c') \<Longrightarrow> role \<noteq> RoleDelegate \<Longrightarrow> keeps c c'"
  "reg_write d v m c = Inr (m', c') \<Longrightarrow> keeps c c'"
  "ram_write w old new m c = Inr (m', c') \<Longrightarrow> keeps c c'"
  by (auto simp: reg_read_def reg_write_def ram_write_def Let_def dest!: stage_keeps)

lemma exec_keeps:
  "exec_op m c d rs1 rs2 f = Inr (m', c') \<Longrightarrow> keeps c c'"
  "exec_op_imm m c d rs1 imm f = Inr (m', c') \<Longrightarrow> keeps c c'"
  "exec_branch m c rs1 rs2 target fall taken = Inr (n, m', c') \<Longrightarrow> keeps c c'"
  "exec_load m c pc d rs1 imm width ext = Inr (m', c') \<Longrightarrow> keeps c c'"
  "exec_store m c pc rs1 rs2 imm width = Inr (m', c') \<Longrightarrow> keeps c c'"
  "exec_amo m c pc d rs1 rs2 f = Inr (m', c') \<Longrightarrow> keeps c c'"
  by (auto simp: exec_op_def exec_op_imm_def exec_branch_def exec_load_def exec_store_def exec_amo_def Let_def
      dest!: op_keeps stage_keeps intro: keeps_trans)

lemma execute_keeps: "execute i pc fall m c = Inr (n, m', c') \<Longrightarrow> keeps c c'"
  by (cases i) (auto dest!: exec_keeps op_keeps intro: keeps_trans keeps_refl)

lemma track_cycle:
  assumes "track m m' c R" "keeps cycle_new c"
  shows "cycle_tracks m m' c"
proof -
  have "cy_delegation c = None" "cy_queries c ! role_index RoleDelegate = None"
    using assms(2) by (simp_all add: keeps_def cycle_new_def)
  then show ?thesis
    using assms(1) by (auto simp: cycle_tracks_def track_def delegation_touches_def)
qed

text \<open>The delegation arm: the frame's accesses, and a cycle to go on with from the machine after them.\<close>

lemma ecall_delegate_tracks:
  assumes "ecall_delegate family number pc m c = Inr (result, m', c')" "track m m c {RoleRs1}" "machine_ok m"
  obtains base frame extra where "cy_delegation c' = Some (family, base, frame, extra)"
    "cy_queries c' ! role_index RoleDelegate = Some (base, 0, 0)"
    "\<And>p. leads (vals p m) (frame_touches frame @ extra_touches extra) (vals p m')"
    "track m' m' c' {RoleRs1, RoleRs2, RoleDelegate}"
proof -
  obtain base c1 frame extra c2 where st: "reg_read RoleRs2 10 m c = Inr (base, c1)"
    "delegate family pc base m = Inr ((frame, extra), m')" "(stage RoleDelegate base 0 0 c1 :: cycle emu) = Inr c2"
    "c' = c2\<lparr>cy_delegation := Some (family, base, frame, extra)\<rparr>"
    using assms(1) by (auto simp: ecall_delegate_def split: option.splits if_splits)
  have c1: "track m m c1 {RoleRs1, RoleRs2}"
    using yieldsD [OF track_read [OF assms(2), of 10 RoleRs2] st(1)] by (simp add: insert_commute)
  have ok: "machine_ok m'"
    using returnsD(2) [OF delegate_returns [OF assms(3)] st(2)] st(2) by (auto simp: delegate_def good_step_def split: option.splits)
  have lead: "mc_regs m' = mc_regs m \<and> leads (vals p m) (frame_touches frame @ extra_touches extra) (vals p m')" for p
    by (rule delegate_leads [OF st(2) assms(3)])
  have "leads (vals p m') (touches c1) (vals p m')" for p
  proof -
    have reg: "vals p m' Reg = vals p m Reg"
      using lead by (simp add: vals_def fun_eq_iff)
    have "leads (vals p m') (touches c1) ((vals p m') (Reg := vals p m Reg))"
      by (rule leads_regs) (use c1 reg touches_regs in \<open>auto simp: track_def\<close>)
    then show ?thesis
      using reg by (simp add: fun_upd_idem)
  qed
  moreover have "staged {RoleRs1, RoleRs2, RoleDelegate} c2"
    using returnsD(2) [OF stage_returns [of _ c1] st(3)] c1 by (simp add: track_def insert_commute)
  moreover have "touches c' = touches c1" "cy_queries c' ! role_index RoleDelegate = Some (base, 0, 0)"
    using touches_delegate [OF st(3)] st(3,4) by (auto simp: touches_def role_touch_def stage_def)
  ultimately show thesis
    using ok lead st(4) by (intro that [of base frame extra]) (simp_all add: track_def staged_def)
qed

lemma ecall_tracks:
  assumes "ecall i pc fall m = Inr m'" "machine_ok m"
  shows "\<exists>nxt c m1. cycle_tracks m m1 c \<and> within m m1 \<and> commit c i pc nxt m1 = Inr m'"
proof -
  obtain number c result m1 c1 m2 c2 where st: "reg_read RoleRs1 17 m cycle_new = Inr (number, c)"
    "ecall_arms number pc m c = Inr (result, m1, c1)" "reg_write 10 result m1 c1 = Inr (m2, c2)"
    "commit c2 i pc (if number = ecall_EXIT then HALT_PC else fall) m2 = Inr m'"
    using assms(1) unfolding ecall_steps by blast
  have c: "track m m c {RoleRs1}" "keeps cycle_new c"
    using yieldsD [OF track_read [OF track_new [OF assms(2)], of 17 RoleRs1] st(1)] op_keeps(1) [OF st(1)] by simp_all
  have w: "within m m2"
    using st(2) reg_write_within [OF st(3)]
    by (auto simp: ecall_arms_def split: if_splits option.splits dest!: ecall_delegate_within intro: within_trans within_trans [OF within_exit])
  have "cycle_tracks m m2 c2"
  proof (cases "number = ecall_EXIT \<or> delegation_family number = None")
    case True
    have "\<exists>R. track m m1 c1 R \<and> R \<subseteq> {RoleRs1, RoleRs2} \<and> keeps c c1"
    proof (cases "number = ecall_EXIT")
      case True
      then have rd: "reg_read RoleRs2 10 m c = Inr (result, c1)" "m1 = m\<lparr>mc_exit := Some result\<rparr>"
        using st(2) by (auto simp: ecall_arms_def)
      have "track m m c1 {RoleRs1, RoleRs2}"
        using yieldsD [OF track_read [OF c(1), of 10 RoleRs2] rd(1)] by (simp add: insert_commute)
      then have "track m m1 c1 {RoleRs1, RoleRs2}"
        using vals_same [of m1 m] by (simp add: track_def rd(2) machine_ok_def)
      then show ?thesis
        using op_keeps(1) [OF rd(1)] by blast
    next
      case False
      then show ?thesis
        using True st(2) c(1) keeps_refl by (auto simp: ecall_arms_def)
    qed
    then obtain R where R: "track m m1 c1 R" "R \<subseteq> {RoleRs1, RoleRs2}" "keeps c c1"
      by blast
    have "follows RoleRd R"
      using R(2) by auto
    then show ?thesis
      using yieldsD [OF track_write [OF R(1), of 10] st(3)] keeps_trans [OF keeps_trans [OF c(2) R(3)] op_keeps(2) [OF st(3)]]
      by (auto intro: track_cycle)
  next
    case False
    then obtain family where fam: "delegation_family number = Some family"
      "ecall_delegate family number pc m c = Inr (result, m1, c1)"
      using st(2) by (auto simp: ecall_arms_def)
    obtain base frame extra where d: "cy_delegation c1 = Some (family, base, frame, extra)"
      "cy_queries c1 ! role_index RoleDelegate = Some (base, 0, 0)"
      "\<And>p. leads (vals p m) (frame_touches frame @ extra_touches extra) (vals p m1)"
      "track m1 m1 c1 {RoleRs1, RoleRs2, RoleDelegate}"
      using ecall_delegate_tracks [OF fam(2) c(1) assms(2)] by blast
    have t: "track m1 m2 c2 (insert RoleRd {RoleRs1, RoleRs2, RoleDelegate})"
      using yieldsD [OF track_write [OF d(4), of 10] st(3)] by simp
    have k: "keeps c1 c2"
      by (rule op_keeps(2) [OF st(3)])
    have "leads (vals p m) ((frame_touches frame @ extra_touches extra) @ touches c2) (vals p m2)" for p
      unfolding leads_append [of _ "frame_touches frame @ extra_touches extra"] using d(3) t by (auto simp: track_def)
    then show ?thesis
      using t k d(1,2) fam(1) unfolding cycle_tracks_def track_def keeps_def delegation_touches_def by auto
  qed
  then show ?thesis
    using w st(4) by blast
qed

lemma step_cycle:
  assumes "step m = Inr m'" "machine_ok m"
  shows "\<exists>i nxt c m1. cycle_tracks m m1 c \<and> within m m1 \<and> commit c i (mc_pc m) nxt m1 = Inr m'"
proof -
  obtain i z where f: "fetch m (mc_pc m) = Inr (i, z)" "wf_instr i"
    using assms(1) returnsD(2) [OF fetch_returns [OF assms(2)]] by (auto simp: step_def Let_def)
  let ?fall = "mc_pc m + (if z then 2 else 4)"
  show ?thesis
  proof (cases "i = Ecall")
    case True
    then have "ecall i (mc_pc m) ?fall m = Inr m'"
      using assms(1) f(1) by (simp add: step_def Let_def)
    then show ?thesis
      using ecall_tracks [OF _ assms(2)] by blast
  next
    case False
    then obtain n m1 c where st: "execute i (mc_pc m) ?fall m cycle_new = Inr (n, m1, c)"
      "commit c i (mc_pc m) n m1 = Inr m'"
      using assms(1) f(1) by (auto simp: step_def Let_def)
    obtain R where "track m m1 c R"
      using yieldsD [OF execute_tracks [OF assms(2) f(2) False] st(1)] by auto
    then have "cycle_tracks m m1 c"
      using track_cycle execute_keeps [OF st(1)] by blast
    then show ?thesis
      using execute_within [OF st(1)] st(2) by blast
  qed
qed

end
