(* ===== verification/Trace_Check.thy ===== *)
theory Trace_Check
  imports Trace_Log
begin

text \<open>
  The recorder's side of a traced run: what it logs for a cycle are the cycle's accesses, each with the time
  of the last write to its address; and the log of a whole run, which \<open>self_check\<close> accepts.
\<close>

section \<open>The log as a store\<close>

definition log_store :: "initial_memory \<Rightarrow> memory_event list \<Rightarrow> store" where
  "log_store im es = foldl (\<lambda>m e. store_write e m) (initial_store im) es"

lemma log_store_simps:
  "log_store im [] = initial_store im"
  "log_store im (es @ [e]) = store_write e (log_store im es)"
  by (simp_all add: log_store_def)

lemma replays_append: "replays m (es @ [e]) \<longleftrightarrow> replays m es \<and> rd e = foldl (\<lambda>m e. store_write e m) m es (ev_space e) (ev_addr e)"
  by (induction es arbitrary: m) auto

lemma log_store_unchained: "\<not> chains s \<Longrightarrow> log_store im es s a = (0, 0)"
  by (induction es rule: rev_induct)
    (auto simp: log_store_simps initial_store_def store_write_def chains_def split: address_space.splits)

text \<open>The entry of the last-access tables.\<close>

definition table_entry :: "memory_state \<Rightarrow> address_space \<Rightarrow> u32 \<Rightarrow> (u64 \<times> u32) option" where
  "table_entry st s a =
     (case s of Reg \<Rightarrow> ms_regs st ! unat a | Pc \<Rightarrow> ms_pc st | Ram \<Rightarrow> fmlookup (ms_ram st) a | _ \<Rightarrow> None)"

text \<open>A log and its tables: the timestamp rules hold, every read returns the last write, and the tables hold it.\<close>

definition log_inv :: "initial_memory \<Rightarrow> memory_event_log \<Rightarrow> bool" where
  "log_inv im lg \<longleftrightarrow>
     log_rules (log_events lg) \<and> replays (initial_store im) (log_events lg) \<and> length (ms_regs (log_state lg)) = 32 \<and>
     (\<forall>s a. chains s \<longrightarrow> holds s a \<longrightarrow>
        (case table_entry (log_state lg) s a of
           None \<Rightarrow> log_store im (log_events lg) s a = initial_store im s a
         | Some x \<Rightarrow> log_store im (log_events lg) s a = x)) \<and>
     (case ms_last_ts (log_state lg) of None \<Rightarrow> log_events lg = [] | Some t \<Rightarrow> \<forall>e \<in> set (log_events lg). ev_ts e \<le> t) \<and>
     (\<forall>e \<in> set (log_events lg). chains (ev_space e) \<longrightarrow> ev_ts e \<le> fst (log_store im (log_events lg) (ev_space e) (ev_addr e)))"

lemma log_inv_new: "log_inv im log_new"
  by (auto simp: log_inv_def log_new_def ms_new_def log_rules_def log_store_simps table_entry_def holds_def
      word_less_nat_alt split: address_space.split)

lemma table_entry_other: "table_entry (st\<lparr>ms_field := x\<rparr>) s a = table_entry st s a" "table_entry (st\<lparr>ms_last_ts := t\<rparr>) s a = table_entry st s a"
  by (simp_all add: table_entry_def split: address_space.split)

lemma log_inv_field: "log_inv im lg \<Longrightarrow> log_inv im (lg\<lparr>log_state := (log_state lg)\<lparr>ms_field := x\<rparr>\<rparr>)"
  by (simp add: log_inv_def table_entry_other cong: option.case_cong)

lemma ms_last_entry: "length (ms_regs st) = 32 \<Longrightarrow> holds s a \<Longrightarrow> ms_last st s a = Inr (table_entry st s a)"
  by (auto simp: ms_last_def table_entry_def holds_def idx_def word_less_nat_alt split: address_space.split)

lemma ms_remember_entry:
  assumes "ms_remember st e = (Inr st' :: 'e fault + memory_state)" "holds (ev_space e) (ev_addr e)" "length (ms_regs st) = 32"
  shows "length (ms_regs st') = 32" "ms_last_ts st' = ms_last_ts st"
    "holds s a \<Longrightarrow> chains s \<Longrightarrow>
      table_entry st' s a = (if s = ev_space e \<and> a = ev_addr e then Some (wr e) else table_entry st s a)"
proof -
  show "length (ms_regs st') = 32" "ms_last_ts st' = ms_last_ts st"
    using assms(1,3) by (auto simp: ms_remember_def Let_def split: address_space.splits)
  have ne: "unat a \<noteq> unat b" if "a \<noteq> b" for a b :: u32
    using that by (simp add: word_unat_eq_iff)
  show "table_entry st' s a = (if s = ev_space e \<and> a = ev_addr e then Some (wr e) else table_entry st s a)"
    if "holds s a" "chains s"
  proof (cases "ev_space e")
    case Reg
    then show ?thesis
      using assms that ne [of a "ev_addr e"]
      by (cases s) (auto simp: ms_remember_def Let_def table_entry_def wr_def holds_def chains_def word_less_nat_alt nth_list_update)
  qed (use assms that in \<open>cases s; auto simp: ms_remember_def Let_def table_entry_def wr_def holds_def chains_def\<close>)+
qed

lemma log_rules_append:
  "log_rules es \<Longrightarrow> rule_ok e \<Longrightarrow> \<forall>x \<in> set es. ev_ts x \<le> ev_ts e \<Longrightarrow> ev_key e \<notin> ev_key ` set es \<Longrightarrow> log_rules (es @ [e])"
  by (auto simp: log_rules_def sorted_append)

lemma log_record_parts:
  assumes "log_record lg s a ts r w = (Inr (e, lg') :: 'e fault + (memory_event \<times> memory_event_log))" "length (ms_regs (log_state lg)) = 32"
  obtains st where "holds s a" "ts < shl 1 TS_BITS" "\<forall>t. ms_last_ts (log_state lg) = Some t \<longrightarrow> t \<le> ts"
    "(ev_read_ts e, r) = (if chains s then (case table_entry (log_state lg) s a of None \<Rightarrow> (0, r) | Some x \<Rightarrow> x) else (0, 0))"
    "ev_read_ts e < ts" "e = \<lparr>ev_space = s, ev_addr = a, ev_ts = ts, ev_read_ts = ev_read_ts e, ev_read_value = r, ev_write_value = w\<rparr>"
    "(ms_remember (log_state lg) e :: 'e fault + memory_state) = Inr st"
    "lg' = \<lparr>log_events = log_events lg @ [e], log_state = st\<lparr>ms_last_ts := Some ts\<rparr>\<rparr>"
  using assms ms_last_entry [OF assms(2), of s a, where ?'a = 'e]
  by (auto simp: log_record_def ms_record_def Let_def split: option.splits if_splits)

lemma log_record_inv:
  assumes inv: "log_inv im lg" and rec: "log_record lg s a ts r w = (Inr (e, lg') :: 'e fault + (memory_event \<times> memory_event_log))"
    and val: "chains s \<Longrightarrow> holds s a \<Longrightarrow> r = snd (log_store im (log_events lg) s a)"
    and fresh: "\<not> chains s \<Longrightarrow> \<forall>e \<in> set (log_events lg). ev_space e = s \<longrightarrow> ev_ts e < ts"
  shows "log_inv im lg'" "log_events lg' = log_events lg @ [e]" "ev_space e = s" "ev_addr e = a" "ev_ts e = ts"
    "ev_write_value e = w" "holds s a"
proof -
  have len: "length (ms_regs (log_state lg)) = 32"
    using inv by (simp add: log_inv_def)
  obtain st where p: "holds s a" "ts < shl 1 TS_BITS" "\<forall>t. ms_last_ts (log_state lg) = Some t \<longrightarrow> t \<le> ts"
    "(ev_read_ts e, r) = (if chains s then (case table_entry (log_state lg) s a of None \<Rightarrow> (0, r) | Some x \<Rightarrow> x) else (0, 0))"
    "ev_read_ts e < ts" "e = \<lparr>ev_space = s, ev_addr = a, ev_ts = ts, ev_read_ts = ev_read_ts e, ev_read_value = r, ev_write_value = w\<rparr>"
    "(ms_remember (log_state lg) e :: 'e fault + memory_state) = Inr st"
    "lg' = \<lparr>log_events = log_events lg @ [e], log_state = st\<lparr>ms_last_ts := Some ts\<rparr>\<rparr>"
    by (rule log_record_parts [OF rec len])
  have ev: "ev_space e = s" "ev_addr e = a" "ev_ts e = ts" "ev_read_value e = r" "ev_write_value e = w"
    using arg_cong [OF p(6), of ev_space] arg_cong [OF p(6), of ev_addr] arg_cong [OF p(6), of ev_ts]
      arg_cong [OF p(6), of ev_read_value] arg_cong [OF p(6), of ev_write_value] by simp_all
  show "log_events lg' = log_events lg @ [e]" "ev_space e = s" "ev_addr e = a" "ev_ts e = ts" "ev_write_value e = w" "holds s a"
    using p(1,8) ev by simp_all
  let ?m = "log_store im (log_events lg)"
  have tab: "case table_entry (log_state lg) s' a' of None \<Rightarrow> ?m s' a' = initial_store im s' a' | Some x \<Rightarrow> ?m s' a' = x"
    if "chains s'" "holds s' a'" for s' a'
    using inv that by (simp add: log_inv_def)
  have rd: "rd e = ?m s a"
  proof (cases "chains s")
    case True
    then show ?thesis
      using p(4) tab [OF True p(1)] val [OF True p(1)]
      by (cases "table_entry (log_state lg) s a") (auto simp: rd_def ev prod_eq_iff)
  next
    case False
    then show ?thesis
      using p(4) log_store_unchained [OF False] by (simp add: rd_def ev)
  qed
  have before: "\<forall>x \<in> set (log_events lg). ev_ts x \<le> ts"
  proof (cases "ms_last_ts (log_state lg)")
    case (Some t)
    then show ?thesis
      using inv p(3) by (auto simp: log_inv_def intro: order.trans)
  qed (use inv in \<open>simp add: log_inv_def\<close>)
  have "ev_key e \<notin> ev_key ` set (log_events lg)"
  proof
    assume "ev_key e \<in> ev_key ` set (log_events lg)"
    then obtain x where x: "x \<in> set (log_events lg)" "ev_space x = s" "ev_addr x = a" "ev_ts x = ts"
      by (auto simp: ev_key_def ev)
    show False
    proof (cases "chains s")
      case True
      then have "ts \<le> fst (?m s a)"
        using inv x by (auto simp: log_inv_def)
      then show False
        using rd p(5) by (simp add: rd_def flip: rd)
    next
      case False
      then show False
        using fresh x by auto
    qed
  qed
  moreover have "rule_ok e"
    using p(1,2,5) by (simp add: rule_ok_def ev)
  ultimately have rules: "log_rules (log_events lg @ [e])"
    using log_rules_append [of "log_events lg" e] inv before by (simp add: log_inv_def ev)
  have replay: "replays (initial_store im) (log_events lg @ [e])"
    using inv rd by (simp add: replays_append log_inv_def log_store_def ev)
  have after: "store_write e ?m s' a' = (if chains s' \<and> s' = s \<and> a' = a then (ts, w) else ?m s' a')" for s' a'
    by (auto simp: store_write_def ev wr_def)
  have hs: "holds (ev_space e) (ev_addr e)"
    using p(1) by (simp add: ev)
  note entry = ms_remember_entry [OF p(7) hs len]
  have tables: "case table_entry (log_state lg') s' a' of None \<Rightarrow> store_write e ?m s' a' = initial_store im s' a'
      | Some x \<Rightarrow> store_write e ?m s' a' = x" if "chains s'" "holds s' a'" for s' a'
  proof (cases "s' = s \<and> a' = a")
    case True
    then have "store_write e ?m s' a' = (ts, w)"
      using after that(1) by simp
    then show ?thesis
      using entry(3) [OF that(2,1)] True by (simp add: p(8) table_entry_other ev wr_def)
  next
    case False
    then have "store_write e ?m s' a' = ?m s' a'"
      using after by auto
    moreover have "table_entry (log_state lg') s' a' = table_entry (log_state lg) s' a'"
      using entry(3) [OF that(2,1)] False by (auto simp: p(8) table_entry_other ev)
    ultimately show ?thesis
      using tab [OF that] by (simp cong: option.case_cong)
  qed
  have late: "ev_ts x \<le> fst (store_write e ?m (ev_space x) (ev_addr x))"
    if "x \<in> set (log_events lg @ [e])" "chains (ev_space x)" for x
  proof (cases "ev_space x = s \<and> ev_addr x = a")
    case True
    have "ev_ts x \<le> ts"
      using that(1) before by (auto simp: ev)
    then show ?thesis
      using after [of s a] True that(2) by simp
  next
    case False
    then have "x \<in> set (log_events lg)"
      using that(1) by (auto simp: ev)
    moreover have "store_write e ?m (ev_space x) (ev_addr x) = ?m (ev_space x) (ev_addr x)"
      using after [of "ev_space x" "ev_addr x"] False by auto
    ultimately show ?thesis
      using inv that(2) by (simp add: log_inv_def)
  qed
  have es: "log_events lg' = log_events lg @ [e]" and store: "log_store im (log_events lg') = store_write e ?m"
    and regs: "length (ms_regs (log_state lg')) = 32" and time: "ms_last_ts (log_state lg') = Some ts"
    using entry(1) by (simp_all add: p(8) log_store_simps)
  have times: "\<forall>x \<in> set (log_events lg'). ev_ts x \<le> ts"
    using before by (simp add: es ev)
  have lates: "\<forall>x \<in> set (log_events lg'). chains (ev_space x) \<longrightarrow> ev_ts x \<le> fst (store_write e ?m (ev_space x) (ev_addr x))"
    using late unfolding es by blast
  have tabs: "\<forall>s' a'. chains s' \<longrightarrow> holds s' a' \<longrightarrow> (case table_entry (log_state lg') s' a' of
      None \<Rightarrow> store_write e ?m s' a' = initial_store im s' a' | Some x \<Rightarrow> store_write e ?m s' a' = x)"
    using tables by blast
  show "log_inv im lg'"
    unfolding log_inv_def store time option.case
    by (intro conjI regs times lates tabs) (simp_all only: es rules replay)
qed

section \<open>A cycle's records\<close>

text \<open>The log kept is consistent and holds the values \<open>v\<close>; its events are before \<open>b + 4\<close>, the mirror
  events of delegation before \<open>b\<close>.\<close>

definition logged :: "initial_memory \<Rightarrow> keep \<Rightarrow> vmem \<Rightarrow> u64 \<Rightarrow> bool" where
  "logged im k v b \<longleftrightarrow> (\<exists>lg. k = Whole lg \<and> log_inv im lg \<and>
     (\<forall>s a. chains s \<longrightarrow> holds s a \<longrightarrow> v s a = snd (log_store im (log_events lg) s a)) \<and>
     (\<forall>e \<in> set (log_events lg). ev_ts e < b + 4 \<and> (chains (ev_space e) \<or> ev_ts e < b)))"

text \<open>The slots of a cycle do not wrap.\<close>

definition base_ok :: "u64 \<Rightarrow> bool" where
  "base_ok b \<longleftrightarrow> unat b + 4 < 2 ^ 64"

lemma base_slot: "base_ok b \<Longrightarrow> d < 4 \<Longrightarrow> b + d < b + 4 \<and> b \<le> b + d"
proof -
  assume "base_ok b" "d < 4"
  then have "unat b + unat d < 2 ^ 64" "unat d < 4" "unat b + 4 < 2 ^ 64"
    by (simp_all add: base_ok_def word_less_nat_alt)
  then show ?thesis
    by (simp add: word_less_nat_alt word_le_nat_alt unat_word_ariths)
qed

lemma keep_touch:
  assumes "logged im k v b" "leads v ((s, a, r, w) # ts) v'" "keep_record k s a (b + d) r w = (Inr (e, k') :: (memory_event \<times> keep) emu)" "chains s"
    "base_ok b" "d < 4"
  shows "logged im k' (v (s := (v s) (a := w))) b" "leads (v (s := (v s) (a := w))) ts v'"
proof -
  obtain lg where lg: "k = Whole lg" "log_inv im lg"
    "\<forall>s a. chains s \<longrightarrow> holds s a \<longrightarrow> v s a = snd (log_store im (log_events lg) s a)"
    "\<forall>e \<in> set (log_events lg). ev_ts e < b + 4 \<and> (chains (ev_space e) \<or> ev_ts e < b)"
    using assms(1) by (auto simp: logged_def)
  obtain lg' where lg': "log_record lg s a (b + d) r w = (Inr (e, lg') :: (memory_event \<times> memory_event_log) emu)" "k' = Whole lg'"
    using assms(3) by (auto simp: lg(1))
  have rv: "chains s \<Longrightarrow> holds s a \<Longrightarrow> r = snd (log_store im (log_events lg) s a)"
    using assms(2) lg(3) by simp
  have fresh: "\<not> chains s \<Longrightarrow> \<forall>e \<in> set (log_events lg). ev_space e = s \<longrightarrow> ev_ts e < b + d"
    using assms(4) by simp
  note rec = log_record_inv [OF lg(2) lg'(1) rv fresh]
  have "log_store im (log_events lg') s' a' = (if s' = s \<and> a' = a then (b + d, w) else log_store im (log_events lg) s' a')" for s' a'
    using assms(4) rec(2-6) by (auto simp: log_store_simps store_write_def wr_def)
  then have "\<forall>s' a'. chains s' \<longrightarrow> holds s' a' \<longrightarrow> (v (s := (v s) (a := w))) s' a' = snd (log_store im (log_events lg') s' a')"
    using lg(3) by simp
  then show "logged im k' (v (s := (v s) (a := w))) b"
    using rec lg(4) lg'(2) assms(4) base_slot [OF assms(5,6)] by (auto simp: logged_def)
  show "leads (v (s := (v s) (a := w))) ts v'"
    using assms(2) by simp
qed

lemma record_frame_logged:
  "record_frame b frame k = (Inr (qs, k') :: (query list \<times> keep) emu) \<Longrightarrow> logged im k v b \<Longrightarrow> leads v (frame_touches frame @ ts) v' \<Longrightarrow> base_ok b \<Longrightarrow>
    \<exists>u. logged im k' u b \<and> leads u ts v'"
proof (induction frame arbitrary: k v qs)
  case (Cons x frame)
  obtain a r w where x: "x = (a, r, w)"
    using prod_cases3 by blast
  obtain e k1 qs1 where st: "keep_record k Ram a (b + delegation_FRAME_DELTA) r w = (Inr (e, k1) :: (memory_event \<times> keep) emu)"
    "record_frame b frame k1 = (Inr (qs1, k') :: (query list \<times> keep) emu)"
    using Cons.prems(1) by (auto simp: x)
  have l: "leads v ((Ram, a, r, w) # (frame_touches frame @ ts)) v'"
    using Cons.prems(3) by (simp add: x frame_touches_def)
  note t = keep_touch [OF Cons.prems(2) l st(1) _ Cons.prems(4)]
  show ?case
    by (rule Cons.IH [OF st(2) t Cons.prems(4)]) (simp_all add: chains_def)
qed (auto simp: frame_touches_def)

lemma record_extras_logged:
  "record_extras b es k = (Inr (acs, k') :: (access option list \<times> keep) emu) \<Longrightarrow> logged im k v b \<Longrightarrow> leads v (extra_touches es @ ts) v' \<Longrightarrow> base_ok b \<Longrightarrow>
    \<exists>u. logged im k' u b \<and> leads u ts v'"
proof (induction es arbitrary: k v acs)
  case (Cons x es)
  show ?case
  proof (cases x)
    case None
    then show ?thesis
      using Cons.IH [of k _ v] Cons.prems by (auto simp: extra_touches_def)
  next
    case (Some e)
    obtain ac k1 acs1 where st: "record_extra b e k = (Inr (ac, k1) :: (access \<times> keep) emu)"
      "record_extras b es k1 = (Inr (acs1, k') :: (access option list \<times> keep) emu)"
      using Cons.prems(1) by (auto simp: Some)
    show ?thesis
    proof (cases e)
      case (Word a r w)
      obtain ev where ev: "keep_record k Ram a (b + field_io_DATA_DELTA) r w = (Inr (ev, k1) :: (memory_event \<times> keep) emu)"
        using st(1) by (auto simp: Word)
      have l: "leads v ((Ram, a, r, w) # (extra_touches es @ ts)) v'"
        using Cons.prems(3) by (simp add: Some Word extra_touches_def)
      note t = keep_touch [OF Cons.prems(2) l ev _ Cons.prems(4)]
      show ?thesis
        by (rule Cons.IH [OF st(2) t Cons.prems(4)]) (simp_all add: chains_def)
    next
      case (Cell c d old new)
      obtain lg where lg: "k = Whole lg" "log_inv im lg"
        using Cons.prems(2) by (auto simp: logged_def)
      obtain x where "k1 = Whole (lg\<lparr>log_state := (log_state lg)\<lparr>ms_field := x\<rparr>\<rparr>)"
        using st(1) by (auto simp: Cell lg(1) ms_record_field_def Let_def split: prod.splits)
      then have "logged im k1 v b"
        using Cons.prems(2) log_inv_field [OF lg(2)] by (auto simp: logged_def lg(1))
      then show ?thesis
        using Cons.IH [OF st(2)] Cons.prems(3,4) by (simp add: Some Cell extra_touches_def)
    qed
  qed
qed (auto simp: extra_touches_def)

text \<open>The five roles of registers and RAM, then the delegate role.\<close>

lemma record_roles_append:
  "record_roles b d c (xs @ ys) row k = bind_res (record_roles b d c xs row k) (\<lambda>(row, k). record_roles b d c ys row k)"
proof (induction xs arbitrary: row k)
  case (Cons r xs)
  show ?case
    by (cases "role_index r < length (cy_queries c)"; cases "cy_queries c ! role_index r")
      (simp_all add: idx_def Cons.IH bind_res_assoc split_def)
qed simp

lemma plain_role_space: "role \<noteq> RoleDelegate \<Longrightarrow> role_space role d = Inr (plain_space role)"
  by (cases role) simp_all

lemma role_delta_less: "role_delta role < 4"
  by (cases role) simp_all

lemma record_roles_logged:
  "record_roles b d c roles row k = (Inr (row', k') :: (row \<times> keep) emu) \<Longrightarrow> RoleDelegate \<notin> set roles \<Longrightarrow> logged im k v b \<Longrightarrow>
    leads v (concat (map (role_touch c) roles)) v' \<Longrightarrow> base_ok b \<Longrightarrow> logged im k' v' b"
proof (induction roles arbitrary: row k v)
  case (Cons r roles)
  have plain: "role_space r d = (Inr (plain_space r) :: address_space emu)"
    using Cons.prems(2) by (intro plain_role_space) auto
  show ?case
  proof (cases "cy_queries c ! role_index r")
    case None
    then show ?thesis
      using Cons.IH [of row k v] Cons.prems by (auto simp: role_touch_def)
  next
    case (Some q)
    obtain a x w where q: "q = (a, x, w)"
      using prod_cases3 by blast
    obtain e k1 row1 where st: "keep_record k (plain_space r) a (b + role_delta r) x w = (Inr (e, k1) :: (memory_event \<times> keep) emu)"
      "record_roles b d c roles row1 k1 = (Inr (row', k') :: (row \<times> keep) emu)"
      using Cons.prems(1) by (auto simp: Some q plain)
    have l: "leads v ((plain_space r, a, x, w) # concat (map (role_touch c) roles)) v'"
      using Cons.prems(4) by (simp add: role_touch_def [of c r] Some q)
    have "chains (plain_space r)"
      by (cases r) (simp_all add: chains_def)
    note t = keep_touch [OF Cons.prems(3) l st(1) this Cons.prems(5) role_delta_less]
    show ?thesis
      by (rule Cons.IH [OF st(2) _ t Cons.prems(5)]) (use Cons.prems(2) in simp)
  qed
qed simp

text \<open>The log after a whole cycle.\<close>

definition logged_to :: "initial_memory \<Rightarrow> keep \<Rightarrow> vmem \<Rightarrow> u64 \<Rightarrow> bool" where
  "logged_to im k v b \<longleftrightarrow> (\<exists>lg. k = Whole lg \<and> log_inv im lg \<and>
     (\<forall>s a. chains s \<longrightarrow> holds s a \<longrightarrow> v s a = snd (log_store im (log_events lg) s a)) \<and>
     (\<forall>e \<in> set (log_events lg). ev_ts e < b))"

lemma logged_start: "logged_to im k v b \<Longrightarrow> base_ok b \<Longrightarrow> logged im k v b"
proof -
  assume l: "logged_to im k v b" and b: "base_ok b"
  have "t < b + 4" if "t < b" for t
    using base_slot [OF b, of 3] that by auto
  then show ?thesis
    using l by (auto simp: logged_to_def logged_def)
qed

lemma delegation_unchained:
  "delegation_family number = Some family \<Longrightarrow> delegation_space family = Some t \<Longrightarrow> from_tag t = Some s \<Longrightarrow> \<not> chains s"
  by (auto simp: delegation_family_def delegation_space_def delegation_TYPES_def from_tag_def chains_def split: if_splits)

lemma record_delegate_logged:
  assumes "record_roles b (invocation_space c) c [RoleDelegate] row k = (Inr (row', k') :: (row \<times> keep) emu)"
    "logged im k v b" "base_ok b"
    "case cy_delegation c of
        None \<Rightarrow> cy_queries c ! role_index RoleDelegate = None
      | Some (family, base, _, _) \<Rightarrow> (\<exists>number. delegation_family number = Some family) \<and>
          cy_queries c ! role_index RoleDelegate = Some (base, 0, 0)"
  shows "logged_to im k' v (b + 4)"
proof (cases "cy_delegation c")
  case None
  then have "k' = k"
    using assms(1,4) by (auto split: option.splits)
  then show ?thesis
    using assms(2) by (auto simp: logged_def logged_to_def)
next
  case (Some inv)
  obtain family base frame extra where inv: "inv = (family, base, frame, extra)"
    using prod_cases4 by blast
  obtain number where number: "delegation_family number = Some family" "cy_queries c ! 5 = Some (base, 0, 0)"
    using assms(4) by (auto simp: Some inv)
  obtain s e where s: "invocation_space c = Some s" "keep_record k s base (b + 3) 0 0 = (Inr (e, k') :: (memory_event \<times> keep) emu)"
    using assms(1) number(2) by (auto split: option.splits)
  have un: "\<not> chains s"
    using s(1) delegation_unchained [OF number(1)] by (auto simp: invocation_space_def Some inv split: option.splits)
  obtain lg where lg: "k = Whole lg" "log_inv im lg"
    "\<forall>s a. chains s \<longrightarrow> holds s a \<longrightarrow> v s a = snd (log_store im (log_events lg) s a)"
    "\<forall>e \<in> set (log_events lg). ev_ts e < b + 4 \<and> (chains (ev_space e) \<or> ev_ts e < b)"
    using assms(2) by (auto simp: logged_def)
  obtain lg' where lg': "log_record lg s base (b + 3) 0 0 = (Inr (e, lg') :: (memory_event \<times> memory_event_log) emu)" "k' = Whole lg'"
    using s(2) by (auto simp: lg(1))
  have slot: "b + 3 < b + 4" "b \<le> b + 3"
    using base_slot [OF assms(3), of 3] by simp_all
  have fresh: "\<forall>e \<in> set (log_events lg). ev_space e = s \<longrightarrow> ev_ts e < b + 3"
    using lg(4) un slot(2) by fastforce
  note rec = log_record_inv [OF lg(2) lg'(1) _ fresh]
  have "log_store im (log_events lg') s' a' = log_store im (log_events lg) s' a'" if "chains s'" for s' a'
    using rec(2,3) un that by (auto simp: log_store_simps store_write_def)
  then show ?thesis
    using rec(1-5) un lg(3,4) lg'(2) slot(1) by (auto simp: logged_to_def)
qed

text \<open>Routing a row to its buffer leaves the log alone.\<close>

lemma flush_memory:
  "flush_family at r = Inr r' \<Longrightarrow> rc_memory r' = rc_memory r"
  "flush_delegation at r = Inr r' \<Longrightarrow> rc_memory r' = rc_memory r"
  by (auto simp: flush_family_def flush_delegation_def split: if_splits)

lemma push_memory:
  "push_row pc i row r = Inr r' \<Longrightarrow> rc_memory r' = rc_memory r"
  "push_invocation cyc family base queries accesses r = Inr r' \<Longrightarrow> rc_memory r' = rc_memory r"
  by (auto simp: push_row_def push_invocation_def split: option.splits dest!: flush_memory)

lemma recorder_record_logged:
  assumes "recorder_record cyc pc nxt i c r = (Inr r' :: recorder emu)" "logged_to im (rc_memory r) (vals pc m) (TS_STEP * cyc)"
    "base_ok (TS_STEP * cyc)" "cycle_tracks m m1 c"
  shows "logged_to im (rc_memory r') (vals nxt m1) (TS_STEP * cyc + 4)"
proof -
  let ?b = "TS_STEP * cyc" and ?row = "\<lparr>row_cycle = cyc, row_pc = pc, row_next_pc = nxt, row_present = 0, row_queries = replicate 8 ABSENT\<rparr>"
  obtain e0 k0 queries accesses k1 row k2 r1 where
    st0: "keep_record (rc_memory r) Pc 0 ?b pc nxt = (Inr (e0, k0) :: (memory_event \<times> keep) emu)"
    and st1: "(case cy_delegation c of
           None \<Rightarrow> Inr ([], [], k0)
         | Some (_, _, frame, extra) \<Rightarrow>
             bind_res (record_frame ?b frame k0) (\<lambda>(queries, mem).
             bind_res (record_extras ?b extra mem) (\<lambda>(accesses, mem). Inr (queries, accesses, mem))))
         = (Inr (queries, accesses, k1) :: (query list \<times> access option list \<times> keep) emu)"
    and st2: "record_roles ?b (invocation_space c) c ROLES ?row k1 = (Inr (row, k2) :: (row \<times> keep) emu)"
    and st3: "(case cy_delegation c of
           None \<Rightarrow> Inr (r\<lparr>rc_memory := k2\<rparr>)
         | Some (family, frame_base, _, _) \<Rightarrow>
             push_invocation cyc family frame_base queries accesses (r\<lparr>rc_memory := k2\<rparr>)) = (Inr r1 :: recorder emu)"
    and st4: "push_row pc i row r1 = (Inr r' :: recorder emu)"
    using assms(1) unfolding recorder_record_def Let_def by (simp only: bind_res_Inr split_paired_Ex prod.case) blast
  have lead: "leads (vals nxt m) (delegation_touches c @ touches c) (vals nxt m1)"
    using assms(4) by (simp add: cycle_tracks_def)
  then obtain u where u: "leads (vals nxt m) (delegation_touches c) u" "leads u (touches c) (vals nxt m1)"
    by (auto simp: leads_append)
  have "leads (vals pc m) ((Pc, 0, pc, nxt) # delegation_touches c @ touches c) (vals nxt m1)"
    using lead vals_pc [of pc m nxt] by (simp add: vals_def [of pc m Pc])
  note t0 = keep_touch [OF logged_start [OF assms(2,3)] this _ _ assms(3), of 0 e0 k0]
  have k0: "logged im k0 (vals nxt m) ?b"
    using t0(1) st0 vals_pc [of pc m nxt] by (simp add: chains_def)
  have k1: "\<exists>u. logged im k1 u ?b \<and> leads u (touches c) (vals nxt m1)"
  proof (cases "cy_delegation c")
    case None
    then show ?thesis
      using st1 k0 lead by (auto simp: delegation_touches_def)
  next
    case (Some inv)
    obtain family base frame extra where inv: "inv = (family, base, frame, extra)"
      using prod_cases4 by blast
    obtain kf where kf: "record_frame ?b frame k0 = (Inr (queries, kf) :: (query list \<times> keep) emu)"
      "record_extras ?b extra kf = (Inr (accesses, k1) :: (access option list \<times> keep) emu)"
      using st1 by (auto simp: Some inv)
    have l: "leads (vals nxt m) (frame_touches frame @ (extra_touches extra @ touches c)) (vals nxt m1)"
      using lead by (simp add: delegation_touches_def Some inv)
    obtain u where "logged im kf u ?b" "leads u (extra_touches extra @ touches c) (vals nxt m1)"
      using record_frame_logged [OF kf(1) k0 l assms(3)] by blast
    then show ?thesis
      using record_extras_logged [OF kf(2) _ _ assms(3)] by blast
  qed
  then obtain u where u: "logged im k1 u ?b" "leads u (touches c) (vals nxt m1)"
    by blast
  have roles: "ROLES = [RoleRs1, RoleRs2, RoleLoad, RoleRam, RoleRd] @ [RoleDelegate]"
    by (simp add: ROLES_def)
  obtain row1 k3 where k3: "record_roles ?b (invocation_space c) c [RoleRs1, RoleRs2, RoleLoad, RoleRam, RoleRd] ?row k1
      = (Inr (row1, k3) :: (row \<times> keep) emu)"
    "record_roles ?b (invocation_space c) c [RoleDelegate] row1 k3 = (Inr (row, k2) :: (row \<times> keep) emu)"
    using st2 unfolding roles record_roles_append by (simp only: bind_res_Inr split_paired_Ex prod.case) blast
  have "logged im k3 (vals nxt m1) ?b"
    using record_roles_logged [OF k3(1) _ u(1) _ assms(3)] u(2) by (simp add: touches_def)
  then have "logged_to im k2 (vals nxt m1) (?b + 4)"
    using record_delegate_logged [OF k3(2) _ assms(3)] assms(4) by (simp add: cycle_tracks_def)
  moreover have "rc_memory r1 = k2"
    using st3 by (auto split: option.splits dest!: push_memory(2))
  ultimately show ?thesis
    using push_memory(1) [OF st4] by simp
qed

section \<open>The run's log\<close>

definition trace_inv :: "initial_memory \<Rightarrow> machine \<Rightarrow> bool" where
  "trace_inv im m \<longleftrightarrow> machine_ok m \<and> clock_ok m \<and>
     (\<exists>r. mc_recorder m = Some r \<and> logged_to im (rc_memory r) (vals (mc_pc m) m) (TS_STEP * mc_cycle m))"

lemma trace_inv_step:
  assumes "step m = Inr m'" "trace_inv im m"
  shows "trace_inv im m'"
proof -
  have ok: "machine_ok m" "clock_ok m"
    using assms(2) by (simp_all add: trace_inv_def)
  obtain r where r: "mc_recorder m = Some r" "logged_to im (rc_memory r) (vals (mc_pc m) m) (TS_STEP * mc_cycle m)"
    using assms(2) by (auto simp: trace_inv_def)
  obtain i nxt c m1 where c: "cycle_tracks m m1 c" "within m m1" "commit c i (mc_pc m) nxt m1 = Inr m'"
    using step_cycle [OF assms(1) ok(1)] by blast
  note same = within_fields [OF c(2)]
  obtain r' where r': "recorder_record (mc_cycle m) (mc_pc m) nxt i c r = (Inr r' :: recorder emu)"
    "m' = m1\<lparr>mc_recorder := Some r', mc_cycle := mc_cycle m + 1, mc_pc := nxt\<rparr>"
    using c(3) same r(1) by (auto simp: commit_def Let_def split: if_splits)
  have "unat (TS_STEP * mc_cycle m) = 4 * unat (mc_cycle m)"
    using ok(2) by (simp add: TS_STEP_def clock_ok_def unat_word_ariths)
  then have b: "base_ok (TS_STEP * mc_cycle m)"
    using ok(2) by (simp add: base_ok_def clock_ok_def)
  have "logged_to im (rc_memory r') (vals nxt m1) (TS_STEP * mc_cycle m + 4)"
    by (rule recorder_record_logged [OF r'(1) r(2) b c(1)])
  moreover have "TS_STEP * (mc_cycle m + 1) = TS_STEP * mc_cycle m + 4"
    by (simp add: TS_STEP_def algebra_simps)
  moreover have "vals nxt m' = vals nxt m1"
    by (rule vals_same) (simp_all add: r'(2))
  moreover have "machine_ok m'"
    using c(1) by (simp add: cycle_tracks_def machine_ok_def r'(2))
  ultimately show ?thesis
    using step_clock_ok(1) [OF assms(1) ok(2)] by (simp add: trace_inv_def r'(2))
qed

lemma trace_inv_run: "machine_run m = Inr m' \<Longrightarrow> trace_inv im m \<Longrightarrow> trace_inv im m'"
proof (induction m rule: machine_run_induct)
  case (machine_run m)
  show ?case
  proof (cases "mc_exit m = None")
    case True
    then obtain m1 where m1: "step m = Inr m1" "machine_run m1 = Inr m'"
      using machine_run.prems(1) by (auto simp: machine_run.simps [of m])
    show ?thesis
      by (rule machine_run.IH [OF True m1 trace_inv_step [OF m1(1) machine_run.prems(2)]])
  next
    case False
    then show ?thesis
      using machine_run.prems by (simp add: machine_run.simps [of m])
  qed
qed

lemma trace_inv_start:
  assumes "machine_new im io = Inr m" "validate im = Inr ()" "io_ok io"
  shows "trace_inv (memory_of im io) (traced_by (Some (recorder_new tables config (Whole log_new))) m)"
proof -
  let ?im = "memory_of im io"
  have m: "machine_ok m" "mc_cycle m = 1" "mc_pc m = image_entry im" "mc_regs m = replicate 32 0"
    "\<forall>a. unat a mod 4 = 0 \<longrightarrow> mem_word m a = memory_word ?im a"
    using machine_new_memory_value [OF assms(2,3)] assms(1) by auto
  have len: "length (im_public_input ?im) \<le> unat PUBLIC_PAYLOAD_BYTES"
    using assms(3) by (simp add: io_ok_def)
  have "vals (mc_pc m) m s a = snd (initial_store ?im s a)" if "chains s" "holds s a" for s a
  proof (cases s)
    case Reg
    then show ?thesis
      using that m(4) by (simp add: vals_def initial_store_def holds_def word_less_nat_alt)
  next
    case Pc
    then show ?thesis
      using that m(3) by (simp add: vals_def initial_store_def holds_def)
  next
    case Ram
    then show ?thesis
      using that m(5) memory_word_total [OF len, of a, where 'e = emu_error] by (simp add: vals_def holds_def)
  qed (use that in \<open>simp_all add: chains_def\<close>)
  then have "logged_to ?im (Whole log_new) (vals (mc_pc m) m) 4"
    using log_inv_new by (auto simp: logged_to_def log_new_def log_store_simps)
  moreover have "vals p (traced_by r m) = vals p m" for p r
    by (rule vals_same) simp_all
  ultimately show ?thesis
    using m(1,2) by (simp add: trace_inv_def clock_ok_def machine_ok_def recorder_new_def Let_def TS_STEP_def)
qed

lemma trace_run_log:
  assumes "trace_run im io tables config = Inr (traces, log, counts, ex)" "validate im = Inr ()"
    "length (io_advice io) \<le> 2 ^ 31 - 4"
  shows "self_check (log_events log) (memory_of im io) = Inr ()"
proof -
  obtain m m' r where tr: "check_io io = Inr ()" "machine_new im io = Inr m"
    "machine_run (traced_by (Some (recorder_new tables config (Whole log_new))) m) = Inr m'"
    "mc_recorder m' = Some r" "rc_memory r = Whole log"
    using trace_run_parts [OF assms(1)] by metis
  have io: "io_ok io"
    using tr(1) assms(3) by (simp add: check_io_def io_ok_def split: if_splits)
  have "trace_inv (memory_of im io) m'"
    by (rule trace_inv_run [OF tr(3) trace_inv_start [OF tr(2) assms(2) io]])
  then have "log_inv (memory_of im io) log"
    using tr(4,5) by (auto simp: trace_inv_def logged_to_def)
  then show ?thesis
    using self_check_replays [of "log_events log" "memory_of im io"] io by (simp add: log_inv_def io_ok_def)
qed

end
