(* ===== verification/Exit_Program.thy ===== *)
theory Exit_Program
  imports Trace_Check
begin

text \<open>
  A concrete program, evaluated: it sets \<open>a7\<close> to 93 and \<open>a0\<close> to 7 and exits. Its traced run and its
  streaming run are computed here, so that the properties of the emulator have an input to be applied to.
\<close>

unbundle bit_operations_syntax

lemma clock_room: "unat (c :: u64) < 2 ^ 36 \<Longrightarrow> TS_STEP * c + (TS_STEP - 1) < shl 1 TS_BITS"
  by (simp add: TS_STEP_def TS_BITS_def word_less_nat_alt unat_word_ariths)

section \<open>The program that exits\<close>

text \<open>\<open>addi x17, x0, 93; addi x10, x0, 7; ecall\<close>, at the bottom of RAM, with no input and no advice.\<close>

definition exit_program :: program_image where
  "exit_program = \<lparr>image_entry = 0x10000,
     image_segments = [\<lparr>seg_vaddr = 0x10000, seg_mem_len = 12,
       seg_bytes = [0x93, 0x08, 0xD0, 0x05, 0x13, 0x05, 0x70, 0x00, 0x73, 0x00, 0x00, 0x00]\<rparr>],
     image_slot_base = 0x10000,
     image_slots = [Instruction 0x05D00893 False, MidInstruction, Instruction 0x00700513 False, MidInstruction,
       Instruction 0x73 False, MidInstruction]\<rparr>"

abbreviation (input) no_io :: guest_io where
  "no_io \<equiv> \<lparr>io_input = [], io_advice = []\<rparr>"

definition exit_code :: "fetched list" where
  "exit_code = [Code (Addi 17 0 93) False, NotCode, Code (Addi 10 0 7) False, NotCode, Code Ecall False, NotCode]"

lemma exit_valid: "validate exit_program = Inr ()"
  by (simp add: validate_def exit_program_def slot_at_def is_instruction_def is_wide_def guest_memory_defs upt_rec Let_def)

lemma exit_decodes: "decode 0x05D00893 = Inr (Addi 17 0 93)" "decode 0x00700513 = Inr (Addi 10 0 7)" "decode 0x73 = Inr Ecall"
  by (simp_all add: decode_def decode_op_imm rd_of_def rs1_of_def funct3_of_def imm_i_of_def signed_drop_bit_word_numeral)

lemma exit_fetched: "map fetched_of (image_slots exit_program) = exit_code"
  by (simp add: exit_program_def exit_code_def fetched_of_def exit_decodes)

lemma no_io_ok: "io_ok no_io"
  by (simp add: io_ok_def)

text \<open>The machine the program starts on.\<close>

lemma exit_start:
  obtains m where "machine_new exit_program no_io = Inr m" "machine_ok m" "mc_recorder m = None" "mc_cycle m = 1"
    "mc_pc m = 0x10000" "mc_regs m = replicate 32 0" "mc_public_input m = []" "mc_exit m = None"
    "mc_code m = exit_code" "mc_slot_base m = 0x10000" "mem_word m PUBLIC_OUTPUT_ORIGIN = Inr 0"
proof -
  have "(memory_word (memory_of exit_program no_io) PUBLIC_OUTPUT_ORIGIN :: u32 emu) = Inr 0"
    by (simp add: memory_word_def guest_memory_defs in_ram_def)
  moreover have "unat PUBLIC_OUTPUT_ORIGIN mod 4 = 0"
    by (simp add: guest_memory_defs)
  ultimately show thesis
    using machine_new_memory_value [OF exit_valid no_io_ok] that unfolding exit_fetched
    by (auto simp: exit_program_def)
qed

text \<open>One family claims every pc of the program: rows 0, 2 and 4 past \<open>0x10000 / 2\<close> of its table are live.\<close>

definition exit_tables :: decoded_tables where
  "exit_tables = \<lparr>dt_code_version = 1, dt_families = [\<lparr>ft_family = family_ADD_SUB_LUI_AUIPC, ft_height = 65536,
     ft_live = U1 (replicate 512 0 @ [21]) 65536, ft_columns = []\<rparr>]\<rparr>"

definition exit_config :: vm_config where
  "exit_config = \<lparr>vc_families = [(family_ADD_SUB_LUI_AUIPC, 65536)], vc_bytecode_size_words = 3\<rparr>"

definition exit_execution :: execution where
  "exit_execution = \<lparr>ex_regs = (replicate 32 0)[17 := 93, 10 := 7], ex_exit_code = 7, ex_cycle_count = 3,
     ex_input = [], ex_output = []\<rparr>"

definition exit_recorder :: "keep \<Rightarrow> family_trace \<Rightarrow> u64 \<Rightarrow> recorder" where
  "exit_recorder kept t n = \<lparr>rc_tables = exit_tables, rc_memory = kept,
     rc_traces = \<lparr>fts_families = [t], fts_delegations = []\<rparr>, rc_family_rows = [n], rc_deleg_rows = [], rc_ready = []\<rparr>"

lemma exit_recorder_new:
  "recorder_new exit_tables exit_config kept = exit_recorder kept (trace_new family_ADD_SUB_LUI_AUIPC 65536) 0"
  by (simp add: recorder_new_def exit_config_def exit_recorder_def delegation_frame_words_def delegation_TYPES_def)

lemma exit_push:
  assumes "pc \<in> {0x10000, 0x10004, 0x10008}" "fst (row_kind i) = family_ADD_SUB_LUI_AUIPC"
    "tr_family t = family_ADD_SUB_LUI_AUIPC" "tr_height t = 65536" "trace_len t < 65535"
  shows "(push_row pc i row (exit_recorder kept t n) :: 'e fault + recorder) = Inr (exit_recorder kept (trace_push t row) (n + 1))"
proof -
  have "(owner (exit_recorder kept t n) pc i :: 'e fault + u32) = Inr family_ADD_SUB_LUI_AUIPC"
    using assms(1,2)
    by (auto simp: owner_def exit_recorder_def exit_tables_def is_live_def read_backing_def idx_def nth_append ensure_def)
  then show ?thesis
    using assms(3-5) by (simp add: push_row_def exit_recorder_def flush_family_def idx_def trace_len_def trace_push_def)
qed

text \<open>A cycle without a delegation records its pc and its roles, in the log or in the tables it would keep.\<close>

fun keep_state :: "keep \<Rightarrow> memory_state" where
  "keep_state (Whole log) = log_state log"
| "keep_state (Streaming st) = st"

definition kept_as :: "keep \<Rightarrow> memory_state \<Rightarrow> keep \<Rightarrow> bool" where
  "kept_as kept st kept' \<longleftrightarrow> keep_state kept' = st \<and> is_streaming kept' = is_streaming kept"

definition exit_buffer :: "nat \<Rightarrow> family_trace \<Rightarrow> bool" where
  "exit_buffer n t \<longleftrightarrow> tr_family t = family_ADD_SUB_LUI_AUIPC \<and> tr_height t = 65536 \<and> trace_len t = n"

lemma exit_buffer_new: "exit_buffer 0 (trace_new family_ADD_SUB_LUI_AUIPC 65536)"
  by (simp add: exit_buffer_def trace_new_def trace_len_def)

lemma exit_buffer_push: "exit_buffer n t \<Longrightarrow> exit_buffer (Suc n) (trace_push t row)"
  by (simp add: exit_buffer_def trace_push_def trace_len_def)

lemma exit_commit:
  assumes "mc_recorder m = Some (exit_recorder kept t k)" "unat (mc_cycle m) < 2 ^ 36"
    "pc \<in> {0x10000, 0x10004, 0x10008}" "fst (row_kind i) = family_ADD_SUB_LUI_AUIPC" "exit_buffer l t" "l < 65535"
    "cy_delegation c = None" "keep_record kept Pc 0 (TS_STEP * mc_cycle m) pc n = (Inr (e, kept1) :: _ emu)"
    "record_roles (TS_STEP * mc_cycle m) None c ROLES
       \<lparr>row_cycle = mc_cycle m, row_pc = pc, row_next_pc = n, row_present = 0, row_queries = replicate 8 ABSENT\<rparr> kept1
     = (Inr (row, kept2) :: _ emu)"
  obtains t' where "commit c i pc n m = Inr (m\<lparr>mc_recorder := Some (exit_recorder kept2 t' (k + 1)),
    mc_cycle := mc_cycle m + 1, mc_pc := n\<rparr>)" "exit_buffer (Suc l) t'"
proof -
  have "(recorder_record (mc_cycle m) pc n i c (exit_recorder kept t k) :: recorder emu) =
      Inr (exit_recorder kept2 (trace_push t row) (k + 1))"
    using assms(5-9) exit_push [OF assms(3,4), of t row, where 'e = emu_error]
    by (simp add: exit_buffer_def recorder_record_def invocation_space_def exit_recorder_def Let_def del: bind_res_Inr)
  then have "commit c i pc n m = Inr (m\<lparr>mc_recorder := Some (exit_recorder kept2 (trace_push t row) (k + 1)),
      mc_cycle := mc_cycle m + 1, mc_pc := n\<rparr>)"
    using clock_room [OF assms(2)] assms(1) by (simp add: commit_def Let_def not_le del: bind_res_Inr)
  then show thesis
    using that exit_buffer_push [OF assms(5)] by blast
qed

lemmas step_eval = step_def fetch_def exit_code_def exec_op_imm_def reg_read_def reg_write_def stage_def
  cycle_new_def idx_def ensure_def falls_def Let_def

lemmas record_eval = log_record_def ms_record_def ms_remember_def ms_last_def ROLES_def holds_def chains_def
  TS_STEP_def TS_BITS_def idx_def set_at_def ensure_def kept_as_def is_streaming_def

abbreviation (input) exit_row :: "u64 \<Rightarrow> u32 \<Rightarrow> u32 \<Rightarrow> row" where
  "exit_row n pc next_pc \<equiv> \<lparr>row_cycle = n, row_pc = pc, row_next_pc = next_pc, row_present = 0, row_queries = replicate 8 ABSENT\<rparr>"

text \<open>The tables after each cycle: the last access of each register touched.\<close>

abbreviation (input) exit_state :: "(u64 \<times> u32) option list \<Rightarrow> u64 \<Rightarrow> u32 \<Rightarrow> u64 \<Rightarrow> memory_state" where
  "exit_state regs pc_ts pc ts \<equiv> \<lparr>ms_regs = regs, ms_pc = Some (pc_ts, pc), ms_ram = fmempty, ms_field = fmempty, ms_last_ts = Some ts\<rparr>"

definition exit_regs1 :: "(u64 \<times> u32) option list" where
  "exit_regs1 = (replicate 32 None)[0 := Some (5, 0), 17 := Some (7, 93)]"

definition exit_regs2 :: "(u64 \<times> u32) option list" where
  "exit_regs2 = (replicate 32 None)[0 := Some (9, 0), 17 := Some (7, 93), 10 := Some (11, 7)]"

lemma exit_step1:
  assumes m: "mc_pc m = 0x10000" "mc_regs m = replicate 32 0" "mc_code m = exit_code" "mc_slot_base m = 0x10000" "mc_cycle m = 1"
    and r: "mc_recorder m = Some (exit_recorder kept t 0)" "keep_state kept = ms_new" "exit_buffer 0 t"
  obtains t' kept' where "step m = Inr (m\<lparr>mc_regs := (replicate 32 0)[17 := 93],
      mc_recorder := Some (exit_recorder kept' t' 1), mc_cycle := 2, mc_pc := 0x10004\<rparr>)"
    "kept_as kept (exit_state exit_regs1 4 0x10004 7) kept'" "exit_buffer 1 t'"
proof -
  let ?c = "\<lparr>cy_queries = (replicate 8 None)[0 := Some (0, 0, 0), 4 := Some (17, 0, 93)], cy_delegation = None\<rparr>"
  obtain e kept1 where pc: "keep_record kept Pc 0 (TS_STEP * 1) 0x10000 0x10004 = (Inr (e, kept1) :: _ emu)"
     "kept_as kept (exit_state (replicate 32 None) 4 0x10004 4) kept1"
    using r(2) by (cases kept) (simp_all add: record_eval ms_new_def)
  then obtain row kept2 where roles: "record_roles (TS_STEP * 1) None ?c ROLES (exit_row 1 0x10000 0x10004) kept1 = (Inr (row, kept2) :: _ emu)"
     "kept_as kept (exit_state exit_regs1 4 0x10004 7) kept2"
    by (cases kept1) (simp_all add: record_eval exit_regs1_def)
  let ?m = "m\<lparr>mc_regs := (replicate 32 0)[17 := 93]\<rparr>"
  obtain t' where "commit ?c (Addi 17 0 93) 0x10000 0x10004 ?m = Inr (?m\<lparr>mc_recorder := Some (exit_recorder kept2 t' (0 + 1)),
      mc_cycle := mc_cycle ?m + 1, mc_pc := 0x10004\<rparr>)" "exit_buffer (Suc 0) t'"
    by (rule exit_commit [of ?m kept t 0 "0x10000" "Addi 17 0 93" 0 ?c "0x10004" e kept1 row kept2]) (use m r pc(1) roles(1) in simp_all)
  moreover have "step m = commit ?c (Addi 17 0 93) 0x10000 0x10004 ?m"
    using m by (simp add: step_eval del: bind_res_Inr)
  ultimately show thesis
    using that [of kept2 t'] roles(2) m(5) by simp
qed

lemma exit_step2:
  assumes m: "mc_pc m = 0x10004" "mc_regs m = (replicate 32 0)[17 := 93]" "mc_code m = exit_code" "mc_slot_base m = 0x10000" "mc_cycle m = 2"
    and r: "mc_recorder m = Some (exit_recorder kept t 1)" "keep_state kept = exit_state exit_regs1 4 0x10004 7" "exit_buffer 1 t"
  obtains t' kept' where "step m = Inr (m\<lparr>mc_regs := (replicate 32 0)[17 := 93, 10 := 7],
      mc_recorder := Some (exit_recorder kept' t' 2), mc_cycle := 3, mc_pc := 0x10008\<rparr>)"
    "kept_as kept (exit_state exit_regs2 8 0x10008 11) kept'" "exit_buffer 2 t'"
proof -
  let ?c = "\<lparr>cy_queries = (replicate 8 None)[0 := Some (0, 0, 0), 4 := Some (10, 0, 7)], cy_delegation = None\<rparr>"
  obtain e kept1 where pc: "keep_record kept Pc 0 (TS_STEP * 2) 0x10004 0x10008 = (Inr (e, kept1) :: _ emu)"
     "kept_as kept (exit_state exit_regs1 8 0x10008 8) kept1"
    using r(2) by (cases kept) (simp_all add: record_eval)
  then obtain row kept2 where roles: "record_roles (TS_STEP * 2) None ?c ROLES (exit_row 2 0x10004 0x10008) kept1 = (Inr (row, kept2) :: _ emu)"
     "kept_as kept (exit_state exit_regs2 8 0x10008 11) kept2"
    by (cases kept1) (simp_all add: record_eval exit_regs1_def exit_regs2_def list_update_swap)
  let ?m = "m\<lparr>mc_regs := (replicate 32 0)[17 := 93, 10 := 7]\<rparr>"
  obtain t' where "commit ?c (Addi 10 0 7) 0x10004 0x10008 ?m = Inr (?m\<lparr>mc_recorder := Some (exit_recorder kept2 t' (1 + 1)),
      mc_cycle := mc_cycle ?m + 1, mc_pc := 0x10008\<rparr>)" "exit_buffer (Suc 1) t'"
    by (rule exit_commit [of ?m kept t 1 "0x10004" "Addi 10 0 7" 1 ?c "0x10008" e kept1 row kept2]) (use m r pc(1) roles(1) in simp_all)
  moreover have "step m = commit ?c (Addi 10 0 7) 0x10004 0x10008 ?m"
    using m by (simp add: step_eval del: bind_res_Inr)
  ultimately show thesis
    using that [of kept2 t'] roles(2) m(5) by (simp add: numeral_2_eq_2)
qed

lemma exit_step3:
  assumes m: "mc_pc m = 0x10008" "mc_regs m = (replicate 32 0)[17 := 93, 10 := 7]" "mc_code m = exit_code" "mc_slot_base m = 0x10000" "mc_cycle m = 3"
    and r: "mc_recorder m = Some (exit_recorder kept t 2)" "keep_state kept = exit_state exit_regs2 8 0x10008 11" "exit_buffer 2 t"
  obtains t' kept' st where "step m = Inr (m\<lparr>mc_exit := Some 7, mc_regs := (replicate 32 0)[17 := 93, 10 := 7],
      mc_recorder := Some (exit_recorder kept' t' 3), mc_cycle := 4, mc_pc := HALT_PC\<rparr>)"
    "kept_as kept st kept'" "exit_buffer 3 t'"
proof -
  let ?c = "\<lparr>cy_queries = (replicate 8 None)[0 := Some (17, 93, 93), 1 := Some (10, 7, 7), 4 := Some (10, 7, 7)], cy_delegation = None\<rparr>"
  obtain e kept1 where pc: "keep_record kept Pc 0 (TS_STEP * 3) 0x10008 HALT_PC = (Inr (e, kept1) :: _ emu)"
     "kept_as kept (exit_state exit_regs2 12 HALT_PC 12) kept1"
    using r(2) by (cases kept) (simp_all add: record_eval)
  then obtain row kept2 st where roles: "record_roles (TS_STEP * 3) None ?c ROLES (exit_row 3 0x10008 HALT_PC) kept1 = (Inr (row, kept2) :: _ emu)"
     "kept_as kept st kept2"
    by (cases kept1) (simp_all add: record_eval exit_regs2_def)
  let ?m = "m\<lparr>mc_exit := Some 7, mc_regs := (replicate 32 0)[17 := 93, 10 := 7]\<rparr>"
  obtain t' where "commit ?c Ecall 0x10008 HALT_PC ?m = Inr (?m\<lparr>mc_recorder := Some (exit_recorder kept2 t' (2 + 1)),
      mc_cycle := mc_cycle ?m + 1, mc_pc := HALT_PC\<rparr>)" "exit_buffer (Suc 2) t'"
    by (rule exit_commit [of ?m kept t 2 "0x10008" Ecall 2 ?c HALT_PC e kept1 row kept2]) (use m r pc(1) roles(1) in simp_all)
  moreover have "step m = commit ?c Ecall 0x10008 HALT_PC ?m"
    using m by (simp add: step_eval ecall_def del: bind_res_Inr)
  ultimately show thesis
    using that [of kept2 t'] roles(2) m(5) by (simp add: numeral_3_eq_3 numeral_2_eq_2)
qed

section \<open>Its runs\<close>

text \<open>A machine about to run the program, recording, and the machine it ends as.\<close>

definition exit_ready :: "keep \<Rightarrow> machine \<Rightarrow> bool" where
  "exit_ready kept m \<longleftrightarrow> mc_pc m = 0x10000 \<and> mc_regs m = replicate 32 0 \<and> mc_code m = exit_code \<and> mc_slot_base m = 0x10000 \<and>
     mc_cycle m = 1 \<and> mc_exit m = None \<and> keep_state kept = ms_new \<and>
     mc_recorder m = Some (exit_recorder kept (trace_new family_ADD_SUB_LUI_AUIPC 65536) 0)"

lemma exit_steps:
  assumes "exit_ready kept m"
  obtains m1 m2 t kept' st where "mc_exit m = None" "step m = Inr m1" "mc_exit m1 = None" "step m1 = Inr m2" "mc_exit m2 = None"
    "step m2 = Inr (m\<lparr>mc_exit := Some 7, mc_regs := (replicate 32 0)[17 := 93, 10 := 7],
      mc_recorder := Some (exit_recorder kept' t 3), mc_cycle := 4, mc_pc := HALT_PC\<rparr>)" "kept_as kept st kept'" "exit_buffer 3 t"
    "\<exists>r. mc_recorder m1 = Some r \<and> rc_ready r = []" "\<exists>r. mc_recorder m2 = Some r \<and> rc_ready r = []"
proof -
  note m = assms [unfolded exit_ready_def]
  let ?t = "trace_new family_ADD_SUB_LUI_AUIPC 65536"
  obtain t1 kept1 where s1: "step m = Inr (m\<lparr>mc_regs := (replicate 32 0)[17 := 93],
      mc_recorder := Some (exit_recorder kept1 t1 1), mc_cycle := 2, mc_pc := 0x10004\<rparr>)"
    "kept_as kept (exit_state exit_regs1 4 0x10004 7) kept1" "exit_buffer 1 t1"
    by (rule exit_step1 [of m kept ?t]) (use m exit_buffer_new in auto)
  define m1 where "m1 = m\<lparr>mc_regs := (replicate 32 0)[17 := 93],
      mc_recorder := Some (exit_recorder kept1 t1 1), mc_cycle := 2, mc_pc := 0x10004\<rparr>"
  obtain t2 kept2 where s2: "step m1 = Inr (m1\<lparr>mc_regs := (replicate 32 0)[17 := 93, 10 := 7],
      mc_recorder := Some (exit_recorder kept2 t2 2), mc_cycle := 3, mc_pc := 0x10008\<rparr>)"
    "kept_as kept1 (exit_state exit_regs2 8 0x10008 11) kept2" "exit_buffer 2 t2"
    by (rule exit_step2 [of m1 kept1 t1]) (use m s1(2,3) in \<open>auto simp: m1_def kept_as_def\<close>)
  define m2 where "m2 = m1\<lparr>mc_regs := (replicate 32 0)[17 := 93, 10 := 7],
      mc_recorder := Some (exit_recorder kept2 t2 2), mc_cycle := 3, mc_pc := 0x10008\<rparr>"
  obtain t3 kept3 st where s3: "step m2 = Inr (m2\<lparr>mc_exit := Some 7, mc_regs := (replicate 32 0)[17 := 93, 10 := 7],
      mc_recorder := Some (exit_recorder kept3 t3 3), mc_cycle := 4, mc_pc := HALT_PC\<rparr>)" "kept_as kept2 st kept3" "exit_buffer 3 t3"
    by (rule exit_step3 [of m2 kept2 t2]) (use m s2(2,3) in \<open>auto simp: m1_def m2_def kept_as_def\<close>)
  show thesis
  proof (rule that [of m1 m2 kept3 t3 st])
    show "step m = Inr m1" "step m1 = Inr m2" "mc_exit m = None" "mc_exit m1 = None" "mc_exit m2 = None" "exit_buffer 3 t3"
      using m s1(1) s2(1) s3(3) by (simp_all add: m1_def m2_def)
    show "step m2 = Inr (m\<lparr>mc_exit := Some 7, mc_regs := (replicate 32 0)[17 := 93, 10 := 7],
      mc_recorder := Some (exit_recorder kept3 t3 3), mc_cycle := 4, mc_pc := HALT_PC\<rparr>)"
      using s3(1) by (simp add: m1_def m2_def)
    show "kept_as kept st kept3"
      using s1(2) s2(2) s3(2) by (simp add: kept_as_def)
  qed (auto simp: m1_def m2_def exit_recorder_def)
qed

lemma machine_run_step: "mc_exit m = None \<Longrightarrow> step m = Inr m' \<Longrightarrow> machine_run m = machine_run m'"
  by (simp add: machine_run.simps [of m] del: bind_res_Inr)

lemma machine_run_exit: "mc_exit m \<noteq> None \<Longrightarrow> machine_run m = Inr m"
  by (simp add: machine_run.simps [of m] del: bind_res_Inr)

text \<open>What the run leaves.\<close>

lemma exit_finish:
  assumes "mc_public_input m = []" "mem_word m PUBLIC_OUTPUT_ORIGIN = Inr 0"
  shows "machine_finish (m\<lparr>mc_exit := Some 7, mc_regs := (replicate 32 0)[17 := 93, 10 := 7],
      mc_recorder := r, mc_cycle := 4, mc_pc := HALT_PC\<rparr>) = Inr exit_execution"
  using assms by (simp add: machine_finish_def journal_def mem_word_def exit_execution_def div_ceil_def del: bind_res_Inr)

lemma exit_profile: "exit_buffer n t \<Longrightarrow> profile_total (profile (exit_recorder kept t k)) = (Inr k :: _ emu)"
  by (simp add: profile_def exit_recorder_def exit_buffer_def claims_pcs_def family_CYCLE_OWNING_def idx_def del: bind_res_Inr)

lemma exit_same_vm: "same_vm exit_tables exit_config"
  by (simp add: same_vm_def exit_tables_def exit_config_def)

lemma exit_ready_machine:
  obtains m where "machine_new exit_program no_io = Inr m" "\<And>kept. keep_state kept = ms_new \<Longrightarrow>
      exit_ready kept (m\<lparr>mc_recorder := Some (recorder_new exit_tables exit_config kept)\<rparr>)"
    "mc_public_input m = []" "mem_word m PUBLIC_OUTPUT_ORIGIN = Inr 0"
proof -
  obtain m where "machine_new exit_program no_io = Inr m" "mc_cycle m = 1"
    "mc_pc m = 0x10000" "mc_regs m = replicate 32 0" "mc_public_input m = []" "mc_exit m = None"
    "mc_code m = exit_code" "mc_slot_base m = 0x10000" "mem_word m PUBLIC_OUTPUT_ORIGIN = Inr 0"
    using exit_start by metis
  then show thesis
    by (intro that [of m]) (simp_all add: exit_ready_def exit_recorder_new)
qed

lemma exit_trace:
  obtains traces log counts where "trace_run exit_program no_io exit_tables exit_config = Inr (traces, log, counts, exit_execution)"
proof -
  obtain m where m: "machine_new exit_program no_io = Inr m"
    "exit_ready (Whole log_new) (m\<lparr>mc_recorder := Some (recorder_new exit_tables exit_config (Whole log_new))\<rparr>)"
    "mc_public_input m = []" "mem_word m PUBLIC_OUTPUT_ORIGIN = Inr 0"
    using exit_ready_machine by (metis keep_state.simps(1) log_new_def memory_event_log.select_convs(2))
  let ?m0 = "m\<lparr>mc_recorder := Some (recorder_new exit_tables exit_config (Whole log_new))\<rparr>"
  obtain m1 m2 t kept st where s: "mc_exit ?m0 = None" "step ?m0 = Inr m1" "mc_exit m1 = None" "step m1 = Inr m2" "mc_exit m2 = None"
    "step m2 = Inr (?m0\<lparr>mc_exit := Some 7, mc_regs := (replicate 32 0)[17 := 93, 10 := 7],
      mc_recorder := Some (exit_recorder kept t 3), mc_cycle := 4, mc_pc := HALT_PC\<rparr>)" "kept_as (Whole log_new) st kept" "exit_buffer 3 t"
    using exit_steps [OF m(2)] by metis
  obtain log where log: "kept = Whole log"
    using s(7) by (cases kept) (auto simp: kept_as_def is_streaming_def)
  have "machine_run ?m0 = Inr (?m0\<lparr>mc_exit := Some 7, mc_regs := (replicate 32 0)[17 := 93, 10 := 7],
      mc_recorder := Some (exit_recorder kept t 3), mc_cycle := 4, mc_pc := HALT_PC\<rparr>)"
    using machine_run_step [OF s(1,2)] machine_run_step [OF s(3,4)] machine_run_step [OF s(5,6)] by (simp add: machine_run_exit)
  then have "trace_run exit_program no_io exit_tables exit_config = Inr (rc_traces (exit_recorder kept t 3), log,
      profile (exit_recorder kept t 3), exit_execution)"
    using m(1,3,4) exit_finish [OF m(3,4)] exit_profile [OF s(8)] exit_same_vm
    by (simp add: trace_run_def check_io_def ensure_def exit_execution_def exit_recorder_def log del: bind_res_Inr)
  then show thesis
    by (rule that)
qed

text \<open>The streaming run of the same program: no shard fills, and the tail is its one partial buffer.\<close>

lemma next_shards_step:
  "mc_recorder m = Some r \<Longrightarrow> rc_ready r = [] \<Longrightarrow> mc_exit m = None \<Longrightarrow> step m = Inr m' \<Longrightarrow> next_shards m = next_shards m'"
  by (simp add: next_shards.simps [of m] del: bind_res_Inr)

lemma next_shards_exit:
  "mc_recorder m = Some r \<Longrightarrow> rc_ready r = [] \<Longrightarrow> mc_exit m \<noteq> None \<Longrightarrow> next_shards m = Inr ([], m)"
  by (simp add: next_shards.simps [of m] del: bind_res_Inr)

lemma exit_flush:
  "exit_buffer 3 t \<Longrightarrow> \<exists>r. flush_partial (exit_recorder kept t 3) = (Inr ([\<lparr>sc_family = family_ADD_SUB_LUI_AUIPC, sc_index = 0, sc_rows = Cycles t\<rparr>], r) :: _ emu) \<and>
    profile r = profile (exit_recorder kept t 3) \<and> rc_memory r = kept"
  by (auto simp: flush_partial_def exit_recorder_def exit_buffer_def trace_len_def profile_def trace_new_def idx_def ensure_def simp del: bind_res_Inr)

lemma exit_stream:
  obtains m0 m1 tail s where "streaming_new exit_program no_io exit_tables exit_config = Inr m0" "next_shards m0 = Inr ([], m1)"
    "streaming_finish m1 = Inr (tail, s)" "se_execution s = exit_execution" "length tail = 1"
proof -
  obtain m where m: "machine_new exit_program no_io = Inr m"
    "exit_ready (Streaming ms_new) (m\<lparr>mc_recorder := Some (recorder_new exit_tables exit_config (Streaming ms_new))\<rparr>)"
    "mc_public_input m = []" "mem_word m PUBLIC_OUTPUT_ORIGIN = Inr 0"
    using exit_ready_machine by (metis keep_state.simps(2))
  let ?m0 = "m\<lparr>mc_recorder := Some (recorder_new exit_tables exit_config (Streaming ms_new))\<rparr>"
  obtain m1 m2 t kept st where s: "mc_exit ?m0 = None" "step ?m0 = Inr m1" "mc_exit m1 = None" "step m1 = Inr m2" "mc_exit m2 = None"
    "step m2 = Inr (?m0\<lparr>mc_exit := Some 7, mc_regs := (replicate 32 0)[17 := 93, 10 := 7],
      mc_recorder := Some (exit_recorder kept t 3), mc_cycle := 4, mc_pc := HALT_PC\<rparr>)" "kept_as (Streaming ms_new) st kept" "exit_buffer 3 t"
    and r: "\<exists>r. mc_recorder m1 = Some r \<and> rc_ready r = []" "\<exists>r. mc_recorder m2 = Some r \<and> rc_ready r = []"
    using exit_steps [OF m(2)] by metis
  obtain st' where kept: "kept = Streaming st'"
    using s(7) by (cases kept) (auto simp: kept_as_def is_streaming_def)
  let ?m3 = "?m0\<lparr>mc_exit := Some 7, mc_regs := (replicate 32 0)[17 := 93, 10 := 7],
      mc_recorder := Some (exit_recorder kept t 3), mc_cycle := 4, mc_pc := HALT_PC\<rparr>"
  have "\<exists>r. mc_recorder ?m0 = Some r \<and> rc_ready r = []"
    by (simp add: recorder_new_def Let_def)
  then have "next_shards ?m0 = next_shards m1" "next_shards m1 = next_shards m2" "next_shards m2 = next_shards ?m3"
    using next_shards_step s(1-6) r by blast+
  moreover have "next_shards ?m3 = Inr ([], ?m3)"
    by (rule next_shards_exit [where r = "exit_recorder kept t 3"]) (simp_all add: exit_recorder_def)
  ultimately have shards: "next_shards ?m0 = Inr ([], ?m3)"
    by simp
  obtain r' where flush: "flush_partial (exit_recorder kept t 3) =
      (Inr ([\<lparr>sc_family = family_ADD_SUB_LUI_AUIPC, sc_index = 0, sc_rows = Cycles t\<rparr>], r') :: _ emu)"
    "profile r' = profile (exit_recorder kept t 3)" "rc_memory r' = kept"
    using exit_flush [OF s(8)] by metis
  have "rc_ready (exit_recorder kept t 3) = []"
    by (simp add: exit_recorder_def)
  then have "streaming_finish ?m3 = Inr ([\<lparr>sc_family = family_ADD_SUB_LUI_AUIPC, sc_index = 0, sc_rows = Cycles t\<rparr>],
      \<lparr>se_state = st', se_profile = profile r', se_execution = exit_execution\<rparr>)"
    using flush exit_finish [OF m(3,4)] exit_profile [OF s(8)]
    by (simp add: streaming_finish_def ensure_def exit_execution_def kept del: bind_res_Inr)
  moreover have "streaming_new exit_program no_io exit_tables exit_config = Inr ?m0"
    using m(1) exit_same_vm by (simp add: streaming_new_def check_io_def ensure_def del: bind_res_Inr)
  ultimately show thesis
    using shards that by simp
qed

end
