(* ===== verification/Byte_Memory.thy ===== *)
theory Byte_Memory
  imports Machine_Start
begin

text \<open>
  The paged RAM as a memory of bytes: little-endian integers of one, two and four bytes, what an aligned
  load reads of the word it lies in, and what \<open>store_merge\<close> leaves of one.
\<close>

unbundle bit_operations_syntax

section \<open>Integers in memory\<close>

text \<open>Little-endian integers of so many bytes, and their two's complement reading.\<close>

fun get_bytes :: "(u32 \<Rightarrow> u8) \<Rightarrow> u32 \<Rightarrow> nat \<Rightarrow> int" where
  "get_bytes mem a 0 = 0"
| "get_bytes mem a (Suc n) = uint (mem a) + 256 * get_bytes mem (a + 1) n"

fun put_bytes :: "u32 \<Rightarrow> nat \<Rightarrow> int \<Rightarrow> (u32 \<Rightarrow> u8) \<Rightarrow> (u32 \<Rightarrow> u8)" where
  "put_bytes a 0 v mem = mem"
| "put_bytes a (Suc n) v mem = put_bytes (a + 1) n (v div 256) (mem(a := word_of_int v))"

definition twos_complement :: "nat \<Rightarrow> int \<Rightarrow> int" where
  "twos_complement n v = (if 2 ^ (8 * n - 1) \<le> v then v - 2 ^ (8 * n) else v)"
text \<open>The register value of a load, as \<open>extend\<close> gets it from the shifted word.\<close>

definition extended :: "bool \<Rightarrow> u32 \<Rightarrow> u32 \<Rightarrow> u32 \<Rightarrow> u32" where
  "extended sg width a value =
     (let v = shr value (unat (8 * (a AND 3))) in
      if width = 1 then if sg then scast (ucast v :: u8) else ucast (ucast v :: u8)
      else if width = 2 then if sg then scast (ucast v :: u16) else ucast (ucast v :: u16)
      else v)"

lemma get_bytes_digits:
  "(\<And>j. j < n \<Longrightarrow> mem (a + of_nat j) = word_of_int (z div 256 ^ j)) \<Longrightarrow> get_bytes mem a n = z mod 256 ^ n"
proof (induction n arbitrary: a z)
  case (Suc n)
  have "mem (a + 1 + of_nat j) = word_of_int (z div 256 div 256 ^ j)" if "j < n" for j
    using Suc.prems [of "Suc j"] that by (simp add: ac_simps zdiv_zmult2_eq)
  then have "get_bytes mem (a + 1) n = z div 256 mod 256 ^ n"
    by (rule Suc.IH)
  moreover have "uint (mem a) = z mod 256"
    using Suc.prems [of 0] by (simp add: unsigned_of_int take_bit_eq_mod)
  ultimately show ?case
    by (simp add: zmod_zmult2_eq)
qed simp

lemma put_bytes_at:
  "unat a + n \<le> 2 ^ 32 \<Longrightarrow> put_bytes a n v mem x =
    (if unat a \<le> unat x \<and> unat x < unat a + n then word_of_int (v div 256 ^ (unat x - unat a)) else mem x)"
proof (induction n arbitrary: a v mem)
  case (Suc n)
  show ?case
  proof (cases n)
    case 0
    then show ?thesis
      by (auto simp: word_unat_eq_iff)
  next
    case (Suc k)
    then have succ: "unat (a + 1) = unat a + 1"
      using Suc.prems by (simp add: unat_word_ariths)
    have "v div 256 div 256 ^ (unat x - Suc (unat a)) = v div 256 ^ (unat x - unat a)" if "unat a < unat x"
      using that by (simp add: zdiv_zmult2_eq [symmetric] Suc_diff_Suc flip: power_Suc)
    have "unat (a + 1) + n \<le> 2 ^ 32"
      using Suc.prems succ by simp
    from Suc.IH [OF this, of "v div 256" "mem(a := word_of_int v)"]
    have IH: "put_bytes a (Suc n) v mem x = (if unat a + 1 \<le> unat x \<and> unat x < unat a + 1 + n
        then word_of_int (v div 256 div 256 ^ (unat x - (unat a + 1))) else (mem(a := word_of_int v)) x)"
      by (simp only: put_bytes.simps succ)
    consider "unat x < unat a" | "x = a" | "unat a < unat x"
      using word_unat_eq_iff [of x a] by linarith
    then show ?thesis
      unfolding IH using \<open>unat a < unat x \<Longrightarrow> _\<close> by cases auto
  qed
qed auto

lemma low_bits: "unat ((a :: u32) AND 3) = unat a mod 4"
proof -
  have "a AND 3 = take_bit 2 a"
    by (simp only: take_bit_eq_mask mask_eq_exp_minus_1) simp
  then have "unat (a AND 3) = take_bit 2 (unat a)"
    by (simp only: unsigned_take_bit_eq)
  then show ?thesis
    by (simp add: take_bit_eq_mod)
qed

lemma byte_shift: "unat (8 * (a AND 3) :: u32) = 8 * (unat a mod 4)"
  by (simp add: unat_word_ariths low_bits)

lemma split_bits: "(a AND NOT 3) + (a AND 3) = (a :: u32)"
proof -
  have "(a AND NOT 3) + (a AND 3) = (a AND NOT 3) OR (a AND 3)"
    by (rule disjunctive_add) (auto simp: bit_simps)
  also have "\<dots> = a"
    by (rule bit_word_eqI) (auto simp: bit_simps)
  finally show ?thesis .
qed

lemma high_bits: "unat ((a :: u32) AND NOT 3) = 4 * (unat a div 4)"
proof -
  have "a AND NOT 3 = a - (a AND 3)"
    using split_bits [of a] by (metis add_diff_cancel_right')
  moreover have "a AND 3 \<le> a"
    by (simp add: word_le_nat_alt low_bits)
  ultimately have "unat (a AND NOT 3) = unat a - unat a mod 4"
    by (simp add: unat_sub low_bits)
  then show ?thesis
    by (simp add: minus_mod_eq_mult_div)
qed
lemma signed_reading:
  fixes z :: int
  assumes "0 \<le> z" "z < 2 * h"
  shows "(z + h) mod (2 * h) - h = (if h \<le> z then z - 2 * h else z)"
  using assms mod_pos_pos_trivial [of "z + h" "2 * h"] mod_pos_pos_trivial [of "z - h" "2 * h"] mod_add_self2 [of "z - h" "2 * h"]
  by (auto simp: algebra_simps)

lemma sint_twos: "sint (w :: u8) = twos_complement 1 (uint w)" "sint (v :: u16) = twos_complement 2 (uint v)"
  "sint (u :: u32) = twos_complement 4 (uint u)"
  using uint_bounded [of w] uint_bounded [of v] uint_bounded [of u]
    signed_reading [of "uint w" "2 ^ 7"] signed_reading [of "uint v" "2 ^ 15"] signed_reading [of "uint u" "2 ^ 31"]
  by (simp_all add: sint_uint signed_take_bit_eq_take_bit_shift take_bit_eq_mod twos_complement_def)

lemma uint_shr: "uint (shr w n) = uint w div 2 ^ n"
  by (simp only: unsigned_drop_bit_eq) (simp add: drop_bit_eq_div bintr_uint)

lemma sint_int [simp]: "(word_of_int (sint a) :: u32) = a" for a :: u32
  by simp

section \<open>Bytes of a word\<close>

lemma le32_bytes:
  "ucast (le32 a b c d) = a" "ucast (shr (le32 a b c d) 8) = b" "ucast (shr (le32 a b c d) 16) = c"
  "ucast (shr (le32 a b c d) 24) = d"
  by (rule bit_word_eqI; auto simp: le32_def bit_simps dest: bit_imp_le_length)+

lemma int_byte: "d < 4 \<Longrightarrow> (word_of_int (v div 256 ^ d) :: u8) = ucast (shr (word_of_int v :: u32) (8 * d))"
proof -
  assume d: "d < 4"
  have "v div 256 ^ d = drop_bit (8 * d) v"
    by (simp add: drop_bit_eq_div power_mult)
  then show ?thesis
    using d by (intro bit_word_eqI) (auto simp: bit_simps)
qed

lemma low_word: "of_nat (unat x mod 4) = (x :: u32) AND 3"
  by (simp only: low_bits [symmetric]) simp

lemma byte_view:
  assumes "ram_ok ram" "(ram_word ram (x AND NOT 3) :: u32 emu) = Inr v"
  shows "ram_byte ram x = ucast (shr v (8 * (unat x mod 4)))"
proof -
  let ?w = "x AND NOT 3"
  have v: "v = le32 (ram_byte ram ?w) (ram_byte ram (?w + 1)) (ram_byte ram (?w + 2)) (ram_byte ram (?w + 3))"
    using assms(2) by (simp only: ram_word_bytes [OF assms(1) aligned_mask] sum.inject)
  have "ram_byte ram (?w + of_nat k) = ucast (shr v (8 * k))" if "k < 4" for k
  proof -
    have "k \<in> {0, 1, 2, 3}"
      using that by auto
    then show ?thesis
      unfolding v by (auto simp only: insert_iff empty_iff le32_bytes) (simp_all add: le32_bytes)
  qed
  from this [of "unat x mod 4"] show ?thesis
    by (simp only: low_word split_bits)
qed

text \<open>The word a byte lies in.\<close>

lemma same_word_iff: "x AND NOT 3 = (a :: u32) AND NOT 3 \<longleftrightarrow> unat x div 4 = unat a div 4"
  by (simp only: word_unat_eq_iff high_bits) simp

lemma within_word:
  assumes "unat (a :: u32) mod n = 0" "n \<in> {1, 2, 4}" "j < n"
  shows "unat a mod 4 + j < 4" "unat (a + of_nat j) = unat a + j" "unat (a + of_nat j) div 4 = unat a div 4"
    "unat (a + of_nat j) mod 4 = unat a mod 4 + j" "unat a + n \<le> 2 ^ 32"
proof -
  have "unat a mod 4 + n \<le> 4"
    using assms(1,2) by auto presburger
  then show k: "unat a mod 4 + j < 4"
    using assms(3) by simp
  have "4 * (unat a div 4) + 4 \<le> 2 ^ 32"
    using unat_u32_less [of a] by simp
  then show "unat a + n \<le> 2 ^ 32"
    using \<open>unat a mod 4 + n \<le> 4\<close> mult_div_mod_eq [of 4 "unat a"] by linarith
  moreover have "take_bit 32 j = j"
    using assms(2,3) by (auto simp: take_bit_nat_eq_self_iff)
  ultimately show sum: "unat (a + of_nat j) = unat a + j"
    using assms(3) by (simp add: unat_word_ariths unsigned_of_nat)
  have split: "(4 * q + t) div 4 = q \<and> (4 * q + t) mod 4 = t" if "t < 4" for q t :: nat
    using that by simp
  show "unat (a + of_nat j) div 4 = unat a div 4" "unat (a + of_nat j) mod 4 = unat a mod 4 + j"
    unfolding sum using split [OF k, of "unat a div 4"] mult_div_mod_eq [of 4 "unat a"] by (simp_all add: add.assoc [symmetric])
qed

section \<open>Loads\<close>

lemma load_bytes_read:
  assumes "ram_ok ram" "(ram_word ram (a AND NOT 3) :: u32 emu) = Inr v" "unat a mod n = 0" "n \<in> {1, 2, 4}"
  shows "get_bytes (ram_byte ram) a n = uint (shr v (8 * (unat a mod 4))) mod 256 ^ n"
proof -
  have "ram_byte ram (a + of_nat j) = word_of_int (uint (shr v (8 * (unat a mod 4))) div 256 ^ j)" if "j < n" for j
  proof -
    note w = within_word [OF assms(3,4) that]
    have "(a + of_nat j) AND NOT 3 = a AND NOT 3"
      unfolding same_word_iff by (rule w(3))
    then have "ram_byte ram (a + of_nat j) = ucast (shr v (8 * (unat a mod 4 + j)))"
      using byte_view [OF assms(1), of "a + of_nat j" v] assms(2) w(4) by simp
    also have "\<dots> = (ucast (shr (shr v (8 * (unat a mod 4))) (8 * j)) :: u8)"
      by (simp add: drop_bit_drop_bit algebra_simps)
    also have "\<dots> = word_of_int (uint (shr v (8 * (unat a mod 4))) div 256 ^ j)"
      using w(1) by (simp add: int_byte)
    finally show ?thesis .
  qed
  then show ?thesis
    by (rule get_bytes_digits)
qed

lemma extended_int:
  assumes "unat a mod n = 0" "n \<in> {1, 2, 4}"
  shows "extended sg (of_nat n) a v =
    word_of_int (let x = uint (shr v (8 * (unat a mod 4))) mod 256 ^ n in if sg then twos_complement n x else x)"
proof -
  define s where "s = shr v (8 * (unat a mod 4))"
  have b: "uint (ucast s :: u8) = uint s mod 256" "uint (ucast s :: u16) = uint s mod 65536" "uint s mod 4294967296 = uint s"
    using uint_bounded [of s] by (simp_all add: unsigned_ucast_eq take_bit_eq_mod)
  have "(scast (ucast s :: u8) :: u32) = word_of_int (twos_complement 1 (uint s mod 256))"
    "(scast (ucast s :: u16) :: u32) = word_of_int (twos_complement 2 (uint s mod 65536))"
    "(ucast (ucast s :: u8) :: u32) = word_of_int (uint s mod 256)" "(ucast (ucast s :: u16) :: u32) = word_of_int (uint s mod 65536)"
    by (simp_all only: scast_eq ucast_eq [of "ucast s"] b(1,2) [symmetric] sint_twos [symmetric])
  moreover have "word_of_int (twos_complement 4 (uint s)) = s"
    by (simp only: sint_twos [symmetric] sint_int)
  moreover have "extended sg (of_nat n) a v = (if n = 1 then if sg then scast (ucast s :: u8) else ucast (ucast s :: u8)
      else if n = 2 then if sg then scast (ucast s :: u16) else ucast (ucast s :: u16) else s)"
    using assms(2) by (auto simp: extended_def byte_shift s_def [symmetric] Let_def)
  ultimately show ?thesis
    using assms(2) b(3) unfolding s_def [symmetric] Let_def by (elim insertE) simp_all
qed

section \<open>Stores\<close>

lemma merge_bit:
  assumes "n \<in> {1, 2, 4}" "q < 32"
  shows "bit (store_merge a (of_nat n) old w) q =
    (let k = 8 * (unat a mod 4) in if k \<le> q \<and> q < k + 8 * n then bit w (q - k) else bit old q)"
proof -
  have "unat (32 - 8 * of_nat n :: u32) = 32 - 8 * n"
    using assms(1) by auto
  then show ?thesis
    using assms by (auto simp: store_merge_def Let_def byte_shift bit_simps)
qed

lemma merge_byte:
  assumes "n \<in> {1, 2, 4}" "j < 4"
  shows "(ucast (shr (store_merge a (of_nat n) old w) (8 * j)) :: u8) =
    (let k = unat a mod 4 in if k \<le> j \<and> j < k + n then ucast (shr w (8 * (j - k))) else ucast (shr old (8 * j)))"
proof (rule bit_word_eqI)
  fix i
  assume "i < LENGTH(8)"
  then have i: "i < 8" by simp
  have "8 * k \<le> 8 * j + i \<longleftrightarrow> k \<le> j" "8 * j + i < 8 * k + 8 * n \<longleftrightarrow> j < k + n" for k
    using i by auto
  moreover have "8 * j + i - 8 * (unat a mod 4) = 8 * (j - unat a mod 4) + i" if "unat a mod 4 \<le> j"
    using that by simp
  ultimately show "bit (ucast (shr (store_merge a (of_nat n) old w) (8 * j)) :: u8) i = bit
    (let k = unat a mod 4 in if k \<le> j \<and> j < k + n then ucast (shr w (8 * (j - k))) else ucast (shr old (8 * j)) :: u8) i"
    using i assms merge_bit [OF assms(1), of "8 * j + i" a old w] by (auto simp: bit_simps Let_def)
qed

lemma inside_word:
  fixes x a r k n :: nat
  assumes "r < 4" "k + n \<le> 4"
  shows "4 * a + k \<le> 4 * x + r \<and> 4 * x + r < 4 * a + k + n \<longleftrightarrow> x = a \<and> k \<le> r \<and> r < k + n"
  using assms by (cases x a rule: linorder_cases) auto

lemma store_bytes:
  assumes ok: "ram_ok ram" "ram_ok ram'" and old: "(ram_word ram (a AND NOT 3) :: u32 emu) = Inr old"
    and new: "(ram_word ram' (a AND NOT 3) :: u32 emu) = Inr (store_merge a (of_nat n) old (word_of_int v))"
    and other: "\<forall>b. unat b mod 4 = 0 \<longrightarrow> b \<noteq> a AND NOT 3 \<longrightarrow> (ram_word ram' b :: u32 emu) = ram_word ram b"
    and a: "unat a mod n = 0" "n \<in> {1, 2, 4}"
  shows "ram_byte ram' = put_bytes a n v (ram_byte ram)"
proof
  fix x :: u32
  have n: "0 < n" using a(2) by auto
  note w = within_word [OF a n]
  have "unat a mod 4 + n \<le> 4"
    using within_word(1) [OF a, of "n - 1"] n by simp
  from inside_word [OF _ this, of "unat x mod 4" "unat a div 4" "unat x div 4"]
  have inside: "unat a \<le> unat x \<and> unat x < unat a + n \<longleftrightarrow>
      unat x div 4 = unat a div 4 \<and> unat a mod 4 \<le> unat x mod 4 \<and> unat x mod 4 < unat a mod 4 + n"
    by (simp add: mult_div_mod_eq)
  show "ram_byte ram' x = put_bytes a n v (ram_byte ram) x"
  proof (cases "unat x div 4 = unat a div 4")
    case True
    then have same: "x AND NOT 3 = a AND NOT 3"
      by (simp only: same_word_iff)
    have sub: "unat x - unat a = unat x mod 4 - unat a mod 4"
      using True mult_div_mod_eq [of 4 "unat x"] mult_div_mod_eq [of 4 "unat a"] by linarith
    have "ram_byte ram' x = ucast (shr (store_merge a (of_nat n) old (word_of_int v)) (8 * (unat x mod 4)))"
      by (rule byte_view [OF ok(2)]) (simp only: same new)
    moreover have "ram_byte ram x = ucast (shr old (8 * (unat x mod 4)))"
      by (rule byte_view [OF ok(1)]) (simp only: same old)
    moreover have "(word_of_int (v div 256 ^ (unat x mod 4 - unat a mod 4)) :: u8) = ucast (shr (word_of_int v :: u32) (8 * (unat x mod 4 - unat a mod 4)))"
      by (rule int_byte) (simp add: less_imp_diff_less)
    ultimately show ?thesis
      using inside True sub by (simp add: put_bytes_at [OF w(5)] merge_byte [OF a(2)] Let_def)
  next
    case False
    then have "x AND NOT 3 \<noteq> a AND NOT 3"
      by (simp only: same_word_iff not_False_eq_True)
    then have same: "(ram_word ram' (x AND NOT 3) :: u32 emu) = ram_word ram (x AND NOT 3)"
      by (intro other [rule_format] aligned_mask)
    obtain u where "(ram_word ram (x AND NOT 3) :: u32 emu) = Inr u"
      using pages.get_returns [OF ok(1) aligned_mask] by blast
    then have "ram_byte ram' x = ram_byte ram x"
      using byte_view [OF ok(1)] byte_view [OF ok(2)] same by metis
    then show ?thesis
      using inside False by (auto simp: put_bytes_at [OF w(5)])
  qed
qed

end
