(* ===== verification/Hart.thy ===== *)
theory Hart
  imports Byte_Memory
begin

text \<open>
  The RISC-V machine the emulator promises: a hart with 32 registers, a pc and byte-addressed memory, and
  RV32IMA written as a table of integer effects after the unprivileged ISA manual. The lemmas reduce every
  instruction of \<open>execute\<close> to the effect the table gives it.
\<close>

unbundle bit_operations_syntax

section \<open>The hart\<close>

record hart =
  h_x :: "u8 \<Rightarrow> u32"
  h_pc :: u32
  h_mem :: "u32 \<Rightarrow> u8"

text \<open>
  What an instruction does: write an integer to a register, jump with an optional link, load and store a
  number of bytes, rewrite a word atomically, nothing, or trap.
\<close>

datatype effect =
    Write u8 int
  | Jump "u8 option" u32
  | Load u8 u32 nat bool
  | Store u32 nat int
  | Rewrite u8 u32 "u32 \<Rightarrow> int" "u32 \<Rightarrow> u32"
  | Nothing
  | Trap

definition branch_effect :: "bool \<Rightarrow> u32 \<Rightarrow> u32 \<Rightarrow> effect" where
  "branch_effect taken target fall = Jump None (if taken then target else fall)"

definition quotient :: "int \<Rightarrow> int \<Rightarrow> int" where
  "quotient a b = (if b = 0 then - 1 else sgn a * sgn b * (\<bar>a\<bar> div \<bar>b\<bar>))"

definition remainder :: "int \<Rightarrow> int \<Rightarrow> int" where
  "remainder a b = (if b = 0 then a else a - b * quotient a b)"

fun effect_of :: "instr \<Rightarrow> u32 \<Rightarrow> u32 \<Rightarrow> (u8 \<Rightarrow> u32) \<Rightarrow> effect" where
  "effect_of (Lui dst imm) pc fall x = Write dst (uint imm)"
| "effect_of (Auipc dst imm) pc fall x = Write dst (uint pc + uint imm)"
| "effect_of (Jal dst imm) pc fall x = Jump (Some dst) (pc + imm)"
| "effect_of (Jalr dst rs1 imm) pc fall x = Jump (Some dst) (word_of_int (2 * (uint (x rs1 + imm) div 2)))"
| "effect_of (Beq rs1 rs2 imm) pc fall x = branch_effect (uint (x rs1) = uint (x rs2)) (pc + imm) fall"
| "effect_of (Bne rs1 rs2 imm) pc fall x = branch_effect (uint (x rs1) \<noteq> uint (x rs2)) (pc + imm) fall"
| "effect_of (Blt rs1 rs2 imm) pc fall x = branch_effect (sint (x rs1) < sint (x rs2)) (pc + imm) fall"
| "effect_of (Bge rs1 rs2 imm) pc fall x = branch_effect (sint (x rs1) \<ge> sint (x rs2)) (pc + imm) fall"
| "effect_of (Bltu rs1 rs2 imm) pc fall x = branch_effect (uint (x rs1) < uint (x rs2)) (pc + imm) fall"
| "effect_of (Bgeu rs1 rs2 imm) pc fall x = branch_effect (uint (x rs1) \<ge> uint (x rs2)) (pc + imm) fall"
| "effect_of (Lb dst rs1 imm) pc fall x = Load dst (x rs1 + imm) 1 True"
| "effect_of (Lh dst rs1 imm) pc fall x = Load dst (x rs1 + imm) 2 True"
| "effect_of (Lw dst rs1 imm) pc fall x = Load dst (x rs1 + imm) 4 True"
| "effect_of (Lbu dst rs1 imm) pc fall x = Load dst (x rs1 + imm) 1 False"
| "effect_of (Lhu dst rs1 imm) pc fall x = Load dst (x rs1 + imm) 2 False"
| "effect_of (Sb rs1 rs2 imm) pc fall x = Store (x rs1 + imm) 1 (uint (x rs2))"
| "effect_of (Sh rs1 rs2 imm) pc fall x = Store (x rs1 + imm) 2 (uint (x rs2))"
| "effect_of (Sw rs1 rs2 imm) pc fall x = Store (x rs1 + imm) 4 (uint (x rs2))"
| "effect_of (Addi dst rs1 imm) pc fall x = Write dst (uint (x rs1) + sint imm)"
| "effect_of (Slti dst rs1 imm) pc fall x = Write dst (of_bool (sint (x rs1) < sint imm))"
| "effect_of (Sltiu dst rs1 imm) pc fall x = Write dst (of_bool (uint (x rs1) < uint imm))"
| "effect_of (Xori dst rs1 imm) pc fall x = Write dst (sint (x rs1) XOR sint imm)"
| "effect_of (Ori dst rs1 imm) pc fall x = Write dst (sint (x rs1) OR sint imm)"
| "effect_of (Andi dst rs1 imm) pc fall x = Write dst (sint (x rs1) AND sint imm)"
| "effect_of (Slli dst rs1 shamt) pc fall x = Write dst (uint (x rs1) * 2 ^ unat shamt)"
| "effect_of (Srli dst rs1 shamt) pc fall x = Write dst (uint (x rs1) div 2 ^ unat shamt)"
| "effect_of (Srai dst rs1 shamt) pc fall x = Write dst (sint (x rs1) div 2 ^ unat shamt)"
| "effect_of (Add dst rs1 rs2) pc fall x = Write dst (uint (x rs1) + uint (x rs2))"
| "effect_of (Sub dst rs1 rs2) pc fall x = Write dst (uint (x rs1) - uint (x rs2))"
| "effect_of (Sll dst rs1 rs2) pc fall x = Write dst (uint (x rs1) * 2 ^ (unat (x rs2) mod 32))"
| "effect_of (Slt dst rs1 rs2) pc fall x = Write dst (of_bool (sint (x rs1) < sint (x rs2)))"
| "effect_of (Sltu dst rs1 rs2) pc fall x = Write dst (of_bool (uint (x rs1) < uint (x rs2)))"
| "effect_of (Xor dst rs1 rs2) pc fall x = Write dst (sint (x rs1) XOR sint (x rs2))"
| "effect_of (Srl dst rs1 rs2) pc fall x = Write dst (uint (x rs1) div 2 ^ (unat (x rs2) mod 32))"
| "effect_of (Sra dst rs1 rs2) pc fall x = Write dst (sint (x rs1) div 2 ^ (unat (x rs2) mod 32))"
| "effect_of (Or dst rs1 rs2) pc fall x = Write dst (sint (x rs1) OR sint (x rs2))"
| "effect_of (And dst rs1 rs2) pc fall x = Write dst (sint (x rs1) AND sint (x rs2))"
| "effect_of (Fence fm p s) pc fall x = Nothing"
| "effect_of Ecall pc fall x = Trap"
| "effect_of Ebreak pc fall x = Trap"
| "effect_of (Mul dst rs1 rs2) pc fall x = Write dst (sint (x rs1) * sint (x rs2))"
| "effect_of (Mulh dst rs1 rs2) pc fall x = Write dst (sint (x rs1) * sint (x rs2) div 2 ^ 32)"
| "effect_of (Mulhsu dst rs1 rs2) pc fall x = Write dst (sint (x rs1) * uint (x rs2) div 2 ^ 32)"
| "effect_of (Mulhu dst rs1 rs2) pc fall x = Write dst (uint (x rs1) * uint (x rs2) div 2 ^ 32)"
| "effect_of (Div dst rs1 rs2) pc fall x = Write dst (quotient (sint (x rs1)) (sint (x rs2)))"
| "effect_of (Divu dst rs1 rs2) pc fall x = Write dst (quotient (uint (x rs1)) (uint (x rs2)))"
| "effect_of (Rem dst rs1 rs2) pc fall x = Write dst (remainder (sint (x rs1)) (sint (x rs2)))"
| "effect_of (Remu dst rs1 rs2) pc fall x = Write dst (remainder (uint (x rs1)) (uint (x rs2)))"
| "effect_of (LrW dst rs1 aq rl) pc fall x = Rewrite dst (x rs1) uint (\<lambda>old. old)"
| "effect_of (ScW dst rs1 rs2 aq rl) pc fall x = Rewrite dst (x rs1) (\<lambda>_. uint (x rs2)) (\<lambda>_. 0)"
| "effect_of (AmoswapW dst rs1 rs2 aq rl) pc fall x = Rewrite dst (x rs1) (\<lambda>_. uint (x rs2)) (\<lambda>old. old)"
| "effect_of (AmoaddW dst rs1 rs2 aq rl) pc fall x = Rewrite dst (x rs1) (\<lambda>old. uint old + uint (x rs2)) (\<lambda>old. old)"
| "effect_of (AmoxorW dst rs1 rs2 aq rl) pc fall x = Rewrite dst (x rs1) (\<lambda>old. sint old XOR sint (x rs2)) (\<lambda>old. old)"
| "effect_of (AmoandW dst rs1 rs2 aq rl) pc fall x = Rewrite dst (x rs1) (\<lambda>old. sint old AND sint (x rs2)) (\<lambda>old. old)"
| "effect_of (AmoorW dst rs1 rs2 aq rl) pc fall x = Rewrite dst (x rs1) (\<lambda>old. sint old OR sint (x rs2)) (\<lambda>old. old)"
| "effect_of (AmominW dst rs1 rs2 aq rl) pc fall x = Rewrite dst (x rs1) (\<lambda>old. min (sint old) (sint (x rs2))) (\<lambda>old. old)"
| "effect_of (AmomaxW dst rs1 rs2 aq rl) pc fall x = Rewrite dst (x rs1) (\<lambda>old. max (sint old) (sint (x rs2))) (\<lambda>old. old)"
| "effect_of (AmominuW dst rs1 rs2 aq rl) pc fall x = Rewrite dst (x rs1) (\<lambda>old. min (uint old) (uint (x rs2))) (\<lambda>old. old)"
| "effect_of (AmomaxuW dst rs1 rs2 aq rl) pc fall x = Rewrite dst (x rs1) (\<lambda>old. max (uint old) (uint (x rs2))) (\<lambda>old. old)"

definition set_x :: "u8 \<Rightarrow> u32 \<Rightarrow> hart \<Rightarrow> hart" where
  "set_x dst v h = h\<lparr>h_x := (h_x h)(dst := if dst = 0 then 0 else v)\<rparr>"

fun apply_effect :: "effect \<Rightarrow> u32 \<Rightarrow> hart \<Rightarrow> hart" where
  "apply_effect (Write dst v) fall h = (set_x dst (word_of_int v) h)\<lparr>h_pc := fall\<rparr>"
| "apply_effect (Jump link target) fall h =
     (case link of None \<Rightarrow> h | Some dst \<Rightarrow> set_x dst fall h)\<lparr>h_pc := target\<rparr>"
| "apply_effect (Load dst a n sg) fall h =
     (let v = get_bytes (h_mem h) a n in
      (set_x dst (word_of_int (if sg then twos_complement n v else v)) h)\<lparr>h_pc := fall\<rparr>)"
| "apply_effect (Store a n v) fall h = h\<lparr>h_mem := put_bytes a n v (h_mem h), h_pc := fall\<rparr>"
| "apply_effect (Rewrite dst a f result) fall h =
     (let old = word_of_int (get_bytes (h_mem h) a 4) in
      (set_x dst (result old) (h\<lparr>h_mem := put_bytes a 4 (f old) (h_mem h)\<rparr>))\<lparr>h_pc := fall\<rparr>)"
| "apply_effect Nothing fall h = h\<lparr>h_pc := fall\<rparr>"
| "apply_effect Trap fall h = h"

text \<open>The bytes an effect touches.\<close>

fun accesses :: "effect \<Rightarrow> (u32 \<times> nat) option" where
  "accesses (Load dst a n sg) = Some (a, n)"
| "accesses (Store a n v) = Some (a, n)"
| "accesses (Rewrite dst a f result) = Some (a, 4)"
| "accesses _ = None"

section \<open>Instructions as effects on the machine\<close>

definition reg :: "machine \<Rightarrow> u8 \<Rightarrow> u32" where
  "reg m r = mc_regs m ! unat r"

definition put_reg :: "u8 \<Rightarrow> u32 \<Rightarrow> machine \<Rightarrow> machine" where
  "put_reg dst v m = m\<lparr>mc_regs := (mc_regs m)[unat dst := if dst = 0 then 0 else v]\<rparr>"

text \<open>An instruction's next pc and machine, without the queries it staged.\<close>

definition outcome :: "(u32 \<times> machine \<times> cycle) emu \<Rightarrow> (u32 \<times> machine) emu" where
  "outcome r = bind_res r (\<lambda>(n, m, c). Inr (n, m))"

lemma outcome_Inr [simp]: "outcome (Inr (n, m, c)) = Inr (n, m)"
  by (simp add: outcome_def)

lemma outcome_refuse [simp]: "outcome (refuse e) = refuse e"
  by (simp add: outcome_def)

lemma outcome_bind: "outcome (bind_res r f) = bind_res r (\<lambda>x. outcome (f x))"
  by (cases r) (simp_all add: outcome_def)

lemma outcome_falls: "outcome (falls n r) = bind_res r (\<lambda>(m, c). Inr (n, m))"
  by (cases r) (auto simp: outcome_def falls_def)

fun perform :: "effect \<Rightarrow> u32 \<Rightarrow> u32 \<Rightarrow> machine \<Rightarrow> (u32 \<times> machine) emu" where
  "perform (Write dst v) pc fall m = Inr (fall, put_reg dst (word_of_int v) m)"
| "perform (Jump link target) pc fall m =
     Inr (target, case link of None \<Rightarrow> m | Some dst \<Rightarrow> put_reg dst fall m)"
| "perform (Load dst a n sg) pc fall m =
     bind_res (data_word m pc a (of_nat n)) (\<lambda>word.
     bind_res (mem_word m word) (\<lambda>value. Inr (fall, put_reg dst (extended sg (of_nat n) a value) m)))"
| "perform (Store a n v) pc fall m =
     bind_res (data_word m pc a (of_nat n)) (\<lambda>word.
     bind_res (mem_word m word) (\<lambda>old.
     bind_res (mem_set_word word (store_merge a (of_nat n) old (word_of_int v)) m) (\<lambda>m. Inr (fall, m))))"
| "perform (Rewrite dst a f result) pc fall m =
     bind_res (data_word m pc a 4) (\<lambda>word.
     bind_res (mem_word m word) (\<lambda>old.
     bind_res (mem_set_word word (word_of_int (f old)) m) (\<lambda>m. Inr (fall, put_reg dst (result old) m))))"
| "perform Nothing pc fall m = Inr (fall, m)"
| "perform Trap pc fall m = refuse (EbreakTrap pc)"

text \<open>A first query of a role succeeds, whatever the program is doing.\<close>

lemma stage_value:
  assumes "staged R c" "role \<notin> R"
  obtains c' where "(stage role a r w c :: cycle emu) = Inr c'" "staged (insert role R) c'"
proof -
  have "cy_queries c ! role_index role = None"
    using assms unfolding staged_def by blast
  then have "\<exists>c'. (stage role a r w c :: cycle emu) = Inr c'"
    using assms(1) by (simp add: stage_def staged_def)
  then show thesis
    using that returnsD(2) [OF stage_returns [OF assms]] by blast
qed

lemma read_value:
  assumes "machine_ok m" "r < 32" "staged R c" "role \<notin> R"
  obtains c' where "reg_read role r m c = Inr (reg m r, c')" "staged (insert role R) c'"
proof -
  have "unat r < length (mc_regs m)"
    using assms(1,2) by (simp add: machine_ok_def word_less_nat_alt)
  moreover obtain c' where "(stage role (ucast r) (reg m r) (reg m r) c :: cycle emu) = Inr c'"
    "staged (insert role R) c'"
    using stage_value [OF assms(3,4)] .
  ultimately show thesis
    using that by (simp add: reg_read_def reg_def)
qed

lemma write_value_reg:
  assumes "length (mc_regs m) = 32" "dst < 32" "staged R c" "RoleRd \<notin> R"
  obtains c' where "reg_write dst v m c = Inr (put_reg dst v m, c')"
proof -
  have dst: "unat dst < length (mc_regs m)"
    using assms(1,2) by (simp add: word_less_nat_alt)
  obtain c' where "(stage RoleRd (ucast dst) (mc_regs m ! unat dst) (if dst = 0 then 0 else v) c :: cycle emu) = Inr c'"
    using stage_value [OF assms(3,4)] .
  then show thesis
    using that dst by (simp add: reg_write_def Let_def put_reg_def)
qed

lemma mem_set_word_regs: "mem_set_word a v m = Inr m' \<Longrightarrow> mc_regs m' = mc_regs m"
  by (auto simp: mem_set_word_def)

lemma ram_write_value:
  assumes "staged R c" "RoleRam \<notin> R"
  obtains c' where "ram_write a old new m c = bind_res (mem_set_word a new m) (\<lambda>m'. Inr (m', c'))"
    "staged (insert RoleRam R) c'"
proof -
  obtain c' where "(stage RoleRam a old new c :: cycle emu) = Inr c'" "staged (insert RoleRam R) c'"
    using stage_value [OF assms] .
  then show thesis
    using that [of c'] by (simp add: ram_write_def del: bind_res_Inr)
qed

lemma bind_assoc: "bind_res (bind_res r f) g = bind_res r (\<lambda>x. bind_res (f x) g)"
  by (cases r) simp_all

lemma write_outcome:
  assumes "length (mc_regs m) = 32" "dst < 32" "staged R c" "RoleRd \<notin> R"
  shows "outcome (falls n (reg_write dst v m c)) = Inr (n, put_reg dst v m)"
proof -
  obtain c' where "reg_write dst v m c = Inr (put_reg dst v m, c')"
    using write_value_reg [OF assms] .
  then show ?thesis
    by (simp add: falls_def)
qed

text \<open>The first read of \<open>rs1\<close>, and of \<open>rs2\<close> after it.\<close>

lemma first_read:
  assumes "machine_ok m" "rs1 < 32"
  obtains c where "reg_read RoleRs1 rs1 m cycle_new = Inr (reg m rs1, c)" "staged {RoleRs1} c"
  using read_value [OF assms staged_new, of RoleRs1] by auto

lemma second_read:
  assumes "machine_ok m" "rs2 < 32" "staged {RoleRs1} c"
  obtains c' where "reg_read RoleRs2 rs2 m c = Inr (reg m rs2, c')" "staged {RoleRs2, RoleRs1} c'"
  using read_value [OF assms, of RoleRs2] by auto

lemma ok_length: "machine_ok m \<Longrightarrow> length (mc_regs m) = 32"
  by (simp add: machine_ok_def)

lemma op_outcome:
  assumes "machine_ok m" "dst < 32" "rs1 < 32" "rs2 < 32"
  shows "outcome (falls n (exec_op m cycle_new dst rs1 rs2 f)) = Inr (n, put_reg dst (f (reg m rs1) (reg m rs2)) m)"
proof -
  obtain c where c: "reg_read RoleRs1 rs1 m cycle_new = Inr (reg m rs1, c)" "staged {RoleRs1} c"
    using first_read [OF assms(1,3)] by blast
  obtain c' where c': "reg_read RoleRs2 rs2 m c = Inr (reg m rs2, c')" "staged {RoleRs2, RoleRs1} c'"
    using second_read [OF assms(1,4) c(2)] by blast
  show ?thesis
    by (simp del: bind_res_Inr add: exec_op_def c(1) c'(1) write_outcome [OF ok_length [OF assms(1)] assms(2) c'(2)])
qed

lemma op_imm_outcome:
  assumes "machine_ok m" "dst < 32" "rs1 < 32"
  shows "outcome (falls n (exec_op_imm m cycle_new dst rs1 imm f)) = Inr (n, put_reg dst (f (reg m rs1) imm) m)"
proof -
  obtain c where c: "reg_read RoleRs1 rs1 m cycle_new = Inr (reg m rs1, c)" "staged {RoleRs1} c"
    using first_read [OF assms(1,3)] by blast
  show ?thesis
    by (simp del: bind_res_Inr add: exec_op_imm_def c(1) write_outcome [OF ok_length [OF assms(1)] assms(2) c(2)])
qed

lemma jalr_outcome:
  assumes "machine_ok m" "dst < 32" "rs1 < 32"
  shows "outcome (bind_res (reg_read RoleRs1 rs1 m cycle_new) (\<lambda>(base, c). falls (f base) (reg_write dst v m c)))
    = Inr (f (reg m rs1), put_reg dst v m)"
proof -
  obtain c where c: "reg_read RoleRs1 rs1 m cycle_new = Inr (reg m rs1, c)" "staged {RoleRs1} c"
    using first_read [OF assms(1,3)] by blast
  show ?thesis
    by (simp del: bind_res_Inr add: c(1) write_outcome [OF ok_length [OF assms(1)] assms(2) c(2)])
qed

lemma branch_outcome:
  assumes "machine_ok m" "rs1 < 32" "rs2 < 32"
  shows "outcome (exec_branch m cycle_new rs1 rs2 target fall taken)
    = Inr (if taken (reg m rs1) (reg m rs2) then target else fall, m)"
proof -
  obtain c where c: "reg_read RoleRs1 rs1 m cycle_new = Inr (reg m rs1, c)" "staged {RoleRs1} c"
    using first_read [OF assms(1,2)] by blast
  obtain c' where c': "reg_read RoleRs2 rs2 m c = Inr (reg m rs2, c')" "staged {RoleRs2, RoleRs1} c'"
    using second_read [OF assms(1,3) c(2)] by blast
  show ?thesis
    by (simp del: bind_res_Inr add: exec_branch_def c(1) c'(1))
qed

lemma load_outcome:
  assumes "machine_ok m" "dst < 32" "rs1 < 32"
  shows "outcome (falls n (exec_load m cycle_new pc dst rs1 imm width ext))
    = (let a = reg m rs1 + imm in
       bind_res (data_word m pc a width) (\<lambda>word.
       bind_res (mem_word m word) (\<lambda>value. Inr (n, put_reg dst (ext (shr value (unat (8 * (a AND 3))))) m))))"
proof -
  obtain c where c: "reg_read RoleRs1 rs1 m cycle_new = Inr (reg m rs1, c)" "staged {RoleRs1} c"
    using first_read [OF assms(1,3)] by blast
  have "outcome (falls n (bind_res (stage RoleLoad w v v c) (reg_write dst x m))) = Inr (n, put_reg dst x m)" for w v x
  proof -
    obtain c' where c': "(stage RoleLoad w v v c :: cycle emu) = Inr c'" "staged {RoleLoad, RoleRs1} c'"
      by (rule stage_value [OF c(2), of RoleLoad w v v]) auto
    show ?thesis
      by (simp add: c'(1) write_outcome [OF ok_length [OF assms(1)] assms(2) c'(2)])
  qed
  then show ?thesis
    by (simp del: bind_res_Inr add: exec_load_def c(1) Let_def outcome_falls bind_assoc)
qed

lemma store_outcome:
  assumes "machine_ok m" "rs1 < 32" "rs2 < 32"
  shows "outcome (falls n (exec_store m cycle_new pc rs1 rs2 imm width))
    = (let a = reg m rs1 + imm in
       bind_res (data_word m pc a width) (\<lambda>word.
       bind_res (mem_word m word) (\<lambda>old.
       bind_res (mem_set_word word (store_merge a width old (reg m rs2)) m) (\<lambda>m. Inr (n, m)))))"
proof -
  obtain c where c: "reg_read RoleRs1 rs1 m cycle_new = Inr (reg m rs1, c)" "staged {RoleRs1} c"
    using first_read [OF assms(1,2)] by blast
  obtain c' where c': "reg_read RoleRs2 rs2 m c = Inr (reg m rs2, c')" "staged {RoleRs2, RoleRs1} c'"
    using second_read [OF assms(1,3) c(2)] by blast
  have "bind_res (ram_write w old new m c') (\<lambda>(m, c). Inr (n, m)) = bind_res (mem_set_word w new m) (\<lambda>m. Inr (n, m))" for w old new
  proof -
    obtain c'' where "ram_write w old new m c' = bind_res (mem_set_word w new m) (\<lambda>m'. Inr (m', c''))"
      by (rule ram_write_value [OF c'(2), of w old new m]) auto
    then show ?thesis
      by (simp add: bind_assoc del: bind_res_Inr)
  qed
  then show ?thesis
    by (simp del: bind_res_Inr add: exec_store_def c(1) c'(1) Let_def outcome_falls bind_assoc)
qed

text \<open>The end of an atomic: the word rewritten, then the register.\<close>

lemma rewrite_outcome:
  assumes "machine_ok m" "dst < 32" "staged R c" "RoleRam \<notin> R" "RoleRd \<notin> R"
  shows "bind_res (ram_write w old new m c) (\<lambda>(m, c). bind_res (reg_write dst v m c) (\<lambda>(m, c). Inr (n, m)))
    = bind_res (mem_set_word w new m) (\<lambda>m. Inr (n, put_reg dst v m))"
proof -
  obtain c' where c': "ram_write w old new m c = bind_res (mem_set_word w new m) (\<lambda>m'. Inr (m', c'))"
    "staged (insert RoleRam R) c'"
    using ram_write_value [OF assms(3,4)] .
  have "bind_res (reg_write dst v m' c') (\<lambda>(m, c). Inr (n, m)) = Inr (n, put_reg dst v m')"
    if "mem_set_word w new m = Inr m'" for m'
    using write_outcome [OF _ assms(2) c'(2)] mem_set_word_regs [OF that] ok_length [OF assms(1)] assms(5)
    by (simp add: outcome_falls)
  then show ?thesis
    by (cases "mem_set_word w new m") (simp_all del: bind_res_Inr add: c'(1))
qed

lemma amo_outcome:
  assumes "machine_ok m" "dst < 32" "rs1 < 32" "rs2 < 32"
  shows "outcome (falls n (exec_amo m cycle_new pc dst rs1 rs2 f))
    = bind_res (data_word m pc (reg m rs1) 4) (\<lambda>word.
      bind_res (mem_word m word) (\<lambda>old.
      bind_res (mem_set_word word (f old (reg m rs2)) m) (\<lambda>m. Inr (n, put_reg dst old m))))"
proof -
  obtain c where c: "reg_read RoleRs1 rs1 m cycle_new = Inr (reg m rs1, c)" "staged {RoleRs1} c"
    using first_read [OF assms(1,3)] by blast
  obtain c' where c': "reg_read RoleRs2 rs2 m c = Inr (reg m rs2, c')" "staged {RoleRs2, RoleRs1} c'"
    using second_read [OF assms(1,4) c(2)] by blast
  have pair: "bind_res (case p of (m, c) \<Rightarrow> g m c) h = (case p of (m, c) \<Rightarrow> bind_res (g m c) h)" for p g h
    by (cases p) simp
  show ?thesis
    by (simp del: bind_res_Inr add: exec_amo_def c(1) c'(1) outcome_falls bind_assoc pair rewrite_outcome [OF assms(1,2) c'(2)])
qed

lemma outcome_pair: "outcome (case p of (m, c) \<Rightarrow> g m c) = (case p of (m, c) \<Rightarrow> outcome (g m c))"
  by (cases p) simp

lemma lr_outcome:
  assumes "machine_ok m" "dst < 32" "rs1 < 32"
  shows "outcome (execute (LrW dst rs1 aq rl) pc n m cycle_new) = perform (effect_of (LrW dst rs1 aq rl) pc n (reg m)) pc n m"
proof -
  obtain c where c: "reg_read RoleRs1 rs1 m cycle_new = Inr (reg m rs1, c)" "staged {RoleRs1} c"
    using first_read [OF assms(1,3)] by blast
  show ?thesis
    by (simp del: bind_res_Inr add: c(1) outcome_bind outcome_pair outcome_falls rewrite_outcome [OF assms(1,2) c(2)])
qed

lemma sc_outcome:
  assumes "machine_ok m" "dst < 32" "rs1 < 32" "rs2 < 32"
  shows "outcome (execute (ScW dst rs1 rs2 aq rl) pc n m cycle_new) = perform (effect_of (ScW dst rs1 rs2 aq rl) pc n (reg m)) pc n m"
proof -
  obtain c where c: "reg_read RoleRs1 rs1 m cycle_new = Inr (reg m rs1, c)" "staged {RoleRs1} c"
    using first_read [OF assms(1,3)] by blast
  obtain c' where c': "reg_read RoleRs2 rs2 m c = Inr (reg m rs2, c')" "staged {RoleRs2, RoleRs1} c'"
    using second_read [OF assms(1,4) c(2)] by blast
  show ?thesis
    by (simp del: bind_res_Inr add: c(1) c'(1) outcome_bind outcome_pair outcome_falls rewrite_outcome [OF assms(1,2) c'(2)])
qed

section \<open>Word operations as integers\<close>

lemma shr_int: "(word_of_int (uint a div 2 ^ n) :: u32) = shr a n"
  by (metis uint_shr word_of_int_uint)

lemma sint_zero: "sint (b :: u32) = 0 \<longleftrightarrow> b = 0"
  by (metis sint_int signed_0 of_int_0)

lemma sar_int: "(word_of_int (sint a div 2 ^ n) :: u32) = sar a n"
proof -
  have "sint (sar a n) = sint a div 2 ^ n"
    by (simp add: sint_signed_drop_bit_eq drop_bit_eq_div)
  then show ?thesis
    by (metis sint_int)
qed

lemma shift_amount: "unat ((b :: u32) AND 31) = unat b mod 32"
proof -
  have "b AND 31 = take_bit 5 b"
    by (simp only: take_bit_eq_mask mask_eq_exp_minus_1) simp
  then have "unat (b AND 31) = take_bit 5 (unat b)"
    by (simp only: unsigned_take_bit_eq)
  then show ?thesis
    by (simp add: take_bit_eq_mod)
qed

lemma ucast_sint: "(ucast (w :: u64) :: u32) = word_of_int (sint w)"
  by (rule bit_word_eqI) (simp add: bit_simps)

lemma sint_word_of_int: "\<bar>z\<bar> < 2 ^ 63 \<Longrightarrow> sint (word_of_int z :: u64) = z"
  by (simp add: signed_of_int signed_take_bit_int_eq_self)

lemma product_bound:
  fixes x y :: int
  assumes "\<bar>x\<bar> \<le> 2 ^ 31" "\<bar>y\<bar> < 2 ^ 32"
  shows "\<bar>x * y\<bar> < 2 ^ 63"
proof -
  have "\<bar>x\<bar> * \<bar>y\<bar> \<le> 2 ^ 31 * (2 ^ 32 - 1)"
    using assms by (intro mult_mono) simp_all
  then show ?thesis
    by (simp add: abs_mult)
qed

lemma sint_abs: "\<bar>sint (a :: u32)\<bar> \<le> 2 ^ 31" "\<bar>sint (a :: u32)\<bar> < 2 ^ 32" "\<bar>uint (a :: u32)\<bar> < 2 ^ 32"
  using sint_range_size [of a] uint_bounded [of a] by (auto simp: word_size)

lemma high_word: "\<bar>z\<bar> < 2 ^ 63 \<Longrightarrow> ucast (sar (word_of_int z :: u64) 32) = (word_of_int (z div 2 ^ 32) :: u32)"
  by (simp add: ucast_sint sint_signed_drop_bit_eq drop_bit_eq_div sint_word_of_int)

lemma mulh_int: "(word_of_int (sint a * sint b div 2 ^ 32) :: u32) = ucast (sar (scast a * scast b :: u64) 32)" for a b :: u32
  using high_word [OF product_bound [OF sint_abs(1) [of a] sint_abs(2) [of b]]] by simp

lemma mulhsu_int: "(word_of_int (sint a * uint b div 2 ^ 32) :: u32) = ucast (sar (scast a * ucast b :: u64) 32)" for a b :: u32
  using high_word [OF product_bound [OF sint_abs(1) [of a] sint_abs(3) [of b]]] by simp

lemma mulhu_int: "(word_of_int (uint a * uint b div 2 ^ 32) :: u32) = ucast (shr (ucast a * ucast b :: u64) 32)" for a b :: u32
proof -
  have "uint a * uint b < 2 ^ 32 * 2 ^ 32"
    using sint_abs(3) by (intro mult_strict_mono') simp_all
  then have "uint (ucast a * ucast b :: u64) = uint a * uint b"
    by (simp add: uint_word_ariths uint_up_ucast is_up)
  then have "uint (shr (ucast a * ucast b :: u64) 32) = uint a * uint b div 2 ^ 32"
    by (simp only: uint_shr)
  then show ?thesis
    by (simp only: ucast_eq)
qed

lemma bool_word_int: "bool_word b = of_bool b"
  by (simp add: bool_word_def)

lemma shl_int: "(word_of_int (uint a * 2 ^ n) :: u32) = shl a n"
  by (simp add: push_bit_eq_mult)

lemma even_part: "(word_of_int (2 * (uint w div 2)) :: u32) = w AND NOT 1"
proof (rule bit_word_eqI)
  fix n
  assume "n < LENGTH(32)"
  have "2 * (uint w div 2) = push_bit 1 (drop_bit 1 (uint w))"
    by (simp add: push_bit_eq_mult drop_bit_eq_div)
  then show "bit (word_of_int (2 * (uint w div 2)) :: u32) n = bit (w AND NOT 1) n"
    using \<open>n < LENGTH(32)\<close> by (cases n) (auto simp: bit_simps bit_1_iff bit_uint_iff)
qed
lemma signed_min: "(word_of_int (min (sint a) (sint b)) :: u32) = (if sint b < sint a then b else a)"
  and signed_max: "(word_of_int (max (sint a) (sint b)) :: u32) = (if sint a < sint b then b else a)"
  and unsigned_min: "(word_of_int (min (uint a) (uint b)) :: u32) = min a b"
  and unsigned_max: "(word_of_int (max (uint a) (uint b)) :: u32) = max a b"
  by (auto simp: min_def max_def word_le_def)

lemma quotient_sint: "(word_of_int (quotient (sint a) (sint b)) :: u32) = (if b = 0 then - 1 else word_of_int (sint a sdiv sint b))" for a b :: u32
  by (simp add: quotient_def signed_divide_int_def sint_zero)
lemma remainder_sint: "(word_of_int (remainder (sint a) (sint b)) :: u32) = (if b = 0 then a else word_of_int (sint a smod sint b))" for a b :: u32
  by (simp add: remainder_def quotient_def signed_divide_int_def [symmetric] minus_mult_sdiv_eq_smod sint_zero del: of_int_diff)

lemma quotient_nonneg: "0 \<le> x \<Longrightarrow> 0 < y \<Longrightarrow> quotient x y = x div y" for x y :: int
  by (cases "x = 0") (simp_all add: quotient_def sgn_if)

lemma uint_positive: "b \<noteq> 0 \<Longrightarrow> 0 < uint b"
  using uint_0_iff [of b] uint_ge_0 [of b] by linarith

lemma quotient_uint: "(word_of_int (quotient (uint a) (uint b)) :: u32) = (if b = 0 then - 1 else a div b)"
proof (cases "b = 0")
  case False
  then have "quotient (uint a) (uint b) = uint (a div b)"
    by (simp add: quotient_nonneg uint_positive uint_div)
  then show ?thesis
    using False by simp
qed (simp add: quotient_def)

lemma remainder_uint: "(word_of_int (remainder (uint a) (uint b)) :: u32) = (if b = 0 then a else a mod b)"
proof (cases "b = 0")
  case False
  then have "remainder (uint a) (uint b) = uint (a mod b)"
    by (simp add: remainder_def quotient_nonneg uint_positive uint_mod minus_mult_div_eq_mod)
  then show ?thesis
    using False by simp
qed (simp add: remainder_def)

lemmas effect_words = shl_int shr_int sar_int shift_amount mulh_int mulhsu_int mulhu_int bool_word_int even_part
  signed_min signed_max unsigned_min unsigned_max quotient_sint quotient_uint remainder_sint remainder_uint

lemmas effect_bits = of_int_and_eq of_int_or_eq of_int_xor_eq

lemma unat_shamt: "unat (ucast (s :: u8) :: u32) = unat s"
proof -
  have "unat s < 2 ^ 32"
    using unsigned_less [of s, where ?'a = nat] by simp
  then show ?thesis
    by (simp add: unsigned_ucast_eq take_bit_nat_eq_self_iff)
qed

lemmas effect_high = mulh_int [simplified] mulhsu_int [simplified] mulhu_int [simplified] even_part [simplified]

section \<open>Every instruction performs its effect\<close>

lemma set_outcome:
  "machine_ok m \<Longrightarrow> dst < 32 \<Longrightarrow> outcome (falls n (reg_write dst v m cycle_new)) = Inr (n, put_reg dst v m)"
  by (rule write_outcome [OF ok_length _ staged_new]) simp_all

lemmas instruction_outcomes = op_outcome op_imm_outcome set_outcome jalr_outcome branch_outcome load_outcome store_outcome amo_outcome

lemma execute_performs:
  assumes "machine_ok m" "wf_instr i" "i \<noteq> Ecall"
  shows "outcome (execute i pc fall m cycle_new) = perform (effect_of i pc fall (reg m)) pc fall m"
  using assms
proof (cases i)
  case (LrW dst rs1 aq rl)
  then show ?thesis
    using assms lr_outcome by simp
next
  case (ScW dst rs1 rs2 aq rl)
  then show ?thesis
    using assms sc_outcome by simp
qed (simp_all del: bind_res_Inr add: instruction_outcomes branch_effect_def effect_words effect_bits
      effect_high extended_def Let_def push_bit_eq_mult unat_shamt
      flip: word_less_def word_le_def word_uint_eq_iff)

section \<open>The machine as a hart\<close>

definition hart_of :: "machine \<Rightarrow> hart" where
  "hart_of m = \<lparr>h_x = (\<lambda>r. if r < 32 then reg m r else 0), h_pc = mc_pc m, h_mem = ram_byte (mc_ram m)\<rparr>"

fun shaped :: "effect \<Rightarrow> bool" where
  "shaped (Write dst v) = (dst < 32)"
| "shaped (Jump link target) = (case link of None \<Rightarrow> True | Some dst \<Rightarrow> dst < 32)"
| "shaped (Load dst a n sg) = (dst < 32 \<and> n \<in> {1, 2, 4})"
| "shaped (Store a n v) = (n \<in> {1, 2, 4})"
| "shaped (Rewrite dst a f result) = (dst < 32)"
| "shaped _ = True"

lemma effect_shaped: "wf_instr i \<Longrightarrow> shaped (effect_of i pc fall x)"
  by (cases i) (simp_all add: branch_effect_def)

lemma effect_of_hart: "wf_instr i \<Longrightarrow> effect_of i pc fall (h_x (hart_of m)) = effect_of i pc fall (reg m)"
  by (cases i) (simp_all add: hart_of_def)

text \<open>Where a guest may load and store: from the public windows up, and no advice past the end it was given.\<close>

definition mapped :: "machine \<Rightarrow> u32 \<Rightarrow> bool" where
  "mapped m a \<longleftrightarrow> 0x8000 \<le> unat a \<and> (unat a < 2 ^ 31 \<or> 4 * (unat a div 4) < unat (mc_advice_end m))"

definition trap_of :: "machine \<Rightarrow> u32 \<Rightarrow> effect \<Rightarrow> emu_error option" where
  "trap_of m pc e =
     (case accesses e of
        Some (a, n) \<Rightarrow>
          if unat a mod n \<noteq> 0 then Some (Misaligned pc a (of_nat n))
          else if \<not> mapped m a then Some (OutOfBounds pc a)
          else None
      | None \<Rightarrow> (case e of Trap \<Rightarrow> Some (EbreakTrap pc) | _ \<Rightarrow> None))"

lemma addressable_from: "addressable w \<longleftrightarrow> 0x8000 \<le> unat w"
proof (cases "0x10000 \<le> unat w")
  case True
  then show ?thesis
    by (auto simp: addressable_def in_ram_def Let_def guest_memory_defs word_le_nat_alt word_less_nat_alt unat_sub)
next
  case False
  then show ?thesis
    by (auto simp: addressable_def in_ram_def Let_def guest_memory_defs word_le_nat_alt word_less_nat_alt unat_sub)
qed

lemma unat_u64: "unat (ucast (w :: u32) :: u64) = unat w"
proof -
  have "unat w < 2 ^ 64"
    using unat_u32_less [of w] by simp
  then show ?thesis
    by (simp add: unsigned_ucast_eq take_bit_nat_eq_self_iff)
qed

lemma data_word_value:
  assumes "n \<in> {1, 2, 4}"
  shows "data_word m pc a (of_nat n) =
    (if unat a mod n \<noteq> 0 then refuse (Misaligned pc a (of_nat n))
     else if mapped m a then Inr (a AND NOT 3) else refuse (OutOfBounds pc a))"
proof -
  have "a mod of_nat n = 0 \<longleftrightarrow> unat a mod n = 0"
    using assms by (auto simp: word_unat_eq_iff unat_mod)
  moreover have "0x8000 \<le> 4 * (unat a div 4) \<longleftrightarrow> 0x8000 \<le> unat a" "4 * (unat a div 4) < 2 ^ 31 \<longleftrightarrow> unat a < 2 ^ 31"
    by simp_all presburger+
  then have "addressable (a AND NOT 3) \<and> (a AND NOT 3 < ADVICE_ORIGIN \<or> ucast (a AND NOT 3) < mc_advice_end m) \<longleftrightarrow> mapped m a"
    unfolding addressable_from mapped_def word_less_nat_alt unat_u64 high_bits by (simp add: guest_memory_defs)
  ultimately show ?thesis
    by (simp add: data_word_def Let_def)
qed

section \<open>Effects refine the hart\<close>

lemma reg_put_reg:
  assumes "length (mc_regs m) = 32" "dst < 32"
  shows "reg (put_reg dst v m) r = (if r = dst then if dst = 0 then 0 else v else reg m r)"
proof -
  have "unat dst < 32"
    using assms(2) by (simp add: word_less_nat_alt)
  moreover have "unat r = unat dst \<longleftrightarrow> r = dst"
    by (simp add: word_unat_eq_iff)
  ultimately show ?thesis
    using assms(1) by (auto simp: put_reg_def reg_def nth_list_update)
qed

lemma reg_fields [simp]: "reg (m\<lparr>mc_pc := n\<rparr>) r = reg m r" "reg (m\<lparr>mc_cycle := c\<rparr>) r = reg m r"
  "reg (m\<lparr>mc_ram := ram\<rparr>) r = reg m r"
  by (simp_all add: reg_def)

lemma put_reg_fields [simp]: "mc_field (put_reg d v m) = mc_field m" "mc_exit (put_reg d v m) = mc_exit m"
  "mc_ram (put_reg d v m) = mc_ram m" "mc_pc (put_reg d v m) = mc_pc m"
  by (simp_all add: put_reg_def)

lemma hart_put_reg:
  "length (mc_regs m) = 32 \<Longrightarrow> dst < 32 \<Longrightarrow> hart_of (put_reg dst v m) = set_x dst v (hart_of m)"
  by (auto simp: hart_of_def set_x_def reg_put_reg fun_eq_iff)

lemma hart_pc [simp]: "hart_of (m\<lparr>mc_pc := n\<rparr>) = (hart_of m)\<lparr>h_pc := n\<rparr>" "hart_of (m\<lparr>mc_cycle := c\<rparr>) = hart_of m"
  by (auto simp: hart_of_def fun_eq_iff)

lemma set_x_pc [simp]: "set_x d v (h\<lparr>h_pc := n\<rparr>) = (set_x d v h)\<lparr>h_pc := n\<rparr>"
  by (simp add: set_x_def)

text \<open>A word written over the one at \<open>a\<close>, as the bytes it puts there.\<close>

lemma set_word_hart:
  assumes ok: "machine_ok m" and a: "unat a mod n = 0" "n \<in> {1, 2, 4}"
    and old: "mem_word m (a AND NOT 3) = Inr old"
    and new: "word = store_merge a (of_nat n) old (word_of_int v)"
  obtains m' where "mem_set_word (a AND NOT 3) word m = Inr m'" "mc_regs m' = mc_regs m"
    "hart_of m' = (hart_of m)\<lparr>h_mem := put_bytes a n v (h_mem (hart_of m))\<rparr>" "mc_field m' = mc_field m" "mc_exit m' = mc_exit m"
proof -
  have ram: "ram_ok (mc_ram m)"
    using ok by (simp add: machine_ok_def)
  obtain ram' where r: "(ram_set_word (mc_ram m) (a AND NOT 3) word :: ram emu) = Inr ram'" "ram_ok ram'"
    "(ram_word ram' (a AND NOT 3) :: u32 emu) = Inr word"
    "\<forall>b. unat b mod 4 = 0 \<longrightarrow> b \<noteq> a AND NOT 3 \<longrightarrow> (ram_word ram' b :: u32 emu) = ram_word (mc_ram m) b"
    using ram_set_word_returns [OF ram aligned_mask] by blast
  have "ram_byte ram' = put_bytes a n v (ram_byte (mc_ram m))"
  proof (rule store_bytes [OF ram r(2) _ _ r(4) a])
    show "(ram_word (mc_ram m) (a AND NOT 3) :: u32 emu) = Inr old"
      using old by (simp only: mem_word_def)
    show "(ram_word ram' (a AND NOT 3) :: u32 emu) = Inr (store_merge a (of_nat n) old (word_of_int v))"
      by (simp only: r(3) new)
  qed
  then have "hart_of (m\<lparr>mc_ram := ram'\<rparr>) = (hart_of m)\<lparr>h_mem := put_bytes a n v (h_mem (hart_of m))\<rparr>"
    by (auto simp: hart_of_def fun_eq_iff)
  then show thesis
    using that [of "m\<lparr>mc_ram := ram'\<rparr>"] r(1) by (simp add: mem_set_word_def)
qed

lemma merge_all: "unat a mod 4 = 0 \<Longrightarrow> store_merge a 4 old w = w"
  by (rule bit_word_eqI) (use merge_bit [of 4 _ a old w] in \<open>simp add: Let_def\<close>)

text \<open>
  The theorem of this theory: an effect that no trap stops is the hart's, and the field memory and the exit
  status stay as they are.
\<close>

lemma load_value:
  assumes "machine_ok m" "mem_word m (a AND NOT 3) = Inr v" "unat a mod n = 0" "n \<in> {1, 2, 4}"
  shows "get_bytes (h_mem (hart_of m)) a n = uint (shr v (8 * (unat a mod 4))) mod 256 ^ n"
  using assms by (simp add: hart_of_def load_bytes_read machine_ok_def mem_word_def)

lemma memory_word:
  assumes "machine_ok m"
  obtains v where "mem_word m (a AND NOT 3) = Inr v"
  using mem_word_returns [OF assms aligned_mask, of a] ram_word_bytes [OF _ aligned_mask] assms
  by (auto simp: machine_ok_def mem_word_def)

lemma perform_refines:
  assumes "machine_ok m" "shaped e"
  shows "case trap_of m pc e of
      Some err \<Rightarrow> perform e pc fall m = refuse err
    | None \<Rightarrow> \<exists>n m'. perform e pc fall m = Inr (n, m') \<and> (hart_of m')\<lparr>h_pc := n\<rparr> = apply_effect e fall (hart_of m) \<and>
        mc_field m' = mc_field m \<and> mc_exit m' = mc_exit m"
proof (cases e)
  case (Load dst a n sg)
  obtain v where v: "mem_word m (a AND NOT 3) = Inr v"
    using memory_word [OF assms(1)] .
  show ?thesis
    using assms(2) v
    by (auto simp: Load trap_of_def data_word_value extended_int load_value [OF assms(1) v] hart_put_reg
        ok_length [OF assms(1)] Let_def)
next
  case (Store a n v)
  obtain old where old: "mem_word m (a AND NOT 3) = Inr old"
    using memory_word [OF assms(1)] .
  show ?thesis
  proof (cases "unat a mod n = 0 \<and> mapped m a")
    case True
    obtain m' where "mem_set_word (a AND NOT 3) (store_merge a (of_nat n) old (word_of_int v)) m = Inr m'"
      "hart_of m' = (hart_of m)\<lparr>h_mem := put_bytes a n v (h_mem (hart_of m))\<rparr>" "mc_field m' = mc_field m" "mc_exit m' = mc_exit m"
      using set_word_hart [OF assms(1) _ _ old refl, of n v] True assms(2) by (auto simp: Store)
    then show ?thesis
      using True assms(2) old by (auto simp: Store trap_of_def data_word_value)
  qed (use assms(2) in \<open>auto simp: Store trap_of_def data_word_value\<close>)
next
  case (Rewrite dst a f result)
  obtain old where old: "mem_word m (a AND NOT 3) = Inr old"
    using memory_word [OF assms(1)] .
  note data = data_word_value [of 4 m pc a, simplified]
  show ?thesis
  proof (cases "unat a mod 4 = 0 \<and> mapped m a")
    case True
    then have "get_bytes (h_mem (hart_of m)) a 4 = uint old"
      using load_value [OF assms(1) old, of 4] uint_bounded [of old] by simp
    moreover obtain m' where "mem_set_word (a AND NOT 3) (word_of_int (f old)) m = Inr m'" "mc_regs m' = mc_regs m"
      "hart_of m' = (hart_of m)\<lparr>h_mem := put_bytes a 4 (f old) (h_mem (hart_of m))\<rparr>" "mc_field m' = mc_field m" "mc_exit m' = mc_exit m"
      using set_word_hart [OF assms(1) _ _ old, of 4 "word_of_int (f old)" "f old"] True by (auto simp: merge_all)
    ultimately show ?thesis
      using True assms old ok_length [OF assms(1)]
      by (auto simp: Rewrite trap_of_def data hart_put_reg Let_def simp del: get_bytes.simps)
  qed (auto simp: Rewrite trap_of_def data)
qed (use assms ok_length [OF assms(1)] in \<open>auto simp: trap_of_def hart_put_reg split: option.splits\<close>)

end
