(* ===== verification/Execution.thy ===== *)
theory Execution
  imports Exit_Program Hart
begin

text \<open>
  The properties of the emulator: the start of a run, what a step does and when it refuses, how a run ends,
  and what tracing adds to it. The program that exits with status 7 is the concrete input they are applied to.
\<close>

unbundle bit_operations_syntax

section \<open>A step is a performed effect\<close>

lemma commit_value:
  "mc_recorder m = None \<Longrightarrow> unat (mc_cycle m) < 2 ^ 36 \<Longrightarrow>
    commit c i pc n m = Inr (m\<lparr>mc_cycle := mc_cycle m + 1, mc_pc := n\<rparr>)"
  using clock_room [of "mc_cycle m"] by (simp add: commit_def Let_def not_le)

lemma step_performs:
  assumes "machine_ok m" "mc_recorder m = None" "unat (mc_cycle m) < 2 ^ 36"
    "fetch m (mc_pc m) = Inr (i, compressed)" "i \<noteq> Ecall"
  defines "fall \<equiv> mc_pc m + (if compressed then 2 else 4)"
  shows "step m = bind_res (perform (effect_of i (mc_pc m) fall (reg m)) (mc_pc m) fall m)
    (\<lambda>(n, m'). Inr (m'\<lparr>mc_cycle := mc_cycle m' + 1, mc_pc := n\<rparr>))"
proof -
  have wf: "wf_instr i"
    using returnsD(2) [OF fetch_returns [OF assms(1)] assms(4)] by simp
  have "step m = bind_res (execute i (mc_pc m) fall m cycle_new) (\<lambda>(n, m', c). commit c i (mc_pc m) n m')"
    using assms(4,5) by (simp add: step_def fall_def Let_def del: bind_res_Inr)
  also have "\<dots> = bind_res (outcome (execute i (mc_pc m) fall m cycle_new))
      (\<lambda>(n, m'). Inr (m'\<lparr>mc_cycle := mc_cycle m' + 1, mc_pc := n\<rparr>))"
  proof (cases "execute i (mc_pc m) fall m cycle_new")
    case (Inr x)
    obtain n m' c where x: "x = (n, m', c)"
      by (cases x)
    have "mc_recorder m' = None" "mc_cycle m' = mc_cycle m"
      using within_fields [OF execute_within [OF Inr [unfolded x]]] assms(2) by simp_all
    then show ?thesis
      using assms(3) by (simp add: Inr x commit_value del: bind_res_Inr)
  qed (simp add: outcome_def)
  finally show ?thesis
    by (simp only: execute_performs [OF assms(1) wf assms(5)])
qed

text \<open>An ecall that is no delegation: the exit, and the number the emulator does not know.\<close>

lemma ecall_value:
  assumes "machine_ok m" "mc_recorder m = None" "unat (mc_cycle m) < 2 ^ 36" "delegation_family (reg m 17) = None"
  shows "ecall i pc fall m = Inr
    (if reg m 17 = ecall_EXIT then m\<lparr>mc_exit := Some (reg m 10), mc_regs := mc_regs m, mc_cycle := mc_cycle m + 1, mc_pc := HALT_PC\<rparr>
     else (put_reg 10 (- ecall_ENOSYS) m)\<lparr>mc_cycle := mc_cycle m + 1, mc_pc := fall\<rparr>)"
proof -
  obtain c where c: "reg_read RoleRs1 17 m cycle_new = Inr (reg m 17, c)" "staged {RoleRs1} c"
    using first_read [OF assms(1), of 17] by auto
  obtain c' where c': "reg_read RoleRs2 10 m c = Inr (reg m 10, c')" "staged {RoleRs2, RoleRs1} c'"
    using second_read [OF assms(1) _ c(2), of 10] by auto
  show ?thesis
  proof (cases "reg m 17 = ecall_EXIT")
    case True
    let ?m = "m\<lparr>mc_exit := Some (reg m 10)\<rparr>"
    obtain d where d: "reg_write 10 (reg m 10) ?m c' = Inr (put_reg 10 (reg m 10) ?m, d)"
      by (rule write_value_reg [of ?m 10 _ c' "reg m 10"]) (use ok_length [OF assms(1)] c'(2) in auto)
    have "put_reg 10 (reg m 10) ?m = ?m"
      by (simp add: put_reg_def reg_def)
    then show ?thesis
      using True c(1) c'(1) d assms(2,3) by (simp add: ecall_def commit_value del: bind_res_Inr)
  next
    case False
    obtain d where d: "reg_write 10 (- ecall_ENOSYS) m c = Inr (put_reg 10 (- ecall_ENOSYS) m, d)"
      by (rule write_value_reg [of m 10 _ c]) (use ok_length [OF assms(1)] c(2) in auto)
    have "mc_recorder (put_reg 10 v m) = None" "mc_cycle (put_reg 10 v m) = mc_cycle m" for v
      using assms(2) by (simp_all add: put_reg_def)
    then show ?thesis
      using False c(1) d assms(3,4) by (simp add: ecall_def commit_value del: bind_res_Inr)
  qed
qed

section \<open>Streaming\<close>

lemma exec_steps_run: "exec_step\<^sup>*\<^sup>* m m' \<Longrightarrow> mc_exit m' \<noteq> None \<Longrightarrow> machine_run m = Inr m'"
proof (induction rule: converse_rtranclp_induct)
  case (step m m1)
  then show ?case
    by (simp add: exec_step_iff machine_run_step)
qed (simp add: machine_run_exit)

lemma next_shards_induct [case_names next_shards]:
  "(\<And>m. (\<And>m' r. mc_recorder m = Some r \<Longrightarrow> rc_ready r = [] \<Longrightarrow> mc_exit m = None \<Longrightarrow> step m = Inr m' \<Longrightarrow> P m') \<Longrightarrow> P m) \<Longrightarrow> P m"
  by (rule next_shards.induct) auto

text \<open>A call for shards runs the program on, and hands nothing over only at its exit.\<close>

lemma next_shards_steps:
  "next_shards m = Inr (out, m') \<Longrightarrow>
    exec_step\<^sup>*\<^sup>* (m\<lparr>mc_recorder := None\<rparr>) (m'\<lparr>mc_recorder := None\<rparr>) \<and> (out = [] \<longrightarrow> mc_exit m' \<noteq> None)"
proof (induction m rule: next_shards_induct)
  case (next_shards m)
  obtain r where r: "mc_recorder m = Some r"
    using next_shards.prems by (cases "mc_recorder m") (simp_all add: next_shards.simps [of m])
  show ?case
  proof (cases "rc_ready r = [] \<and> mc_exit m = None")
    case True
    then obtain m1 where m1: "step m = Inr m1" "next_shards m1 = Inr (out, m')"
      using next_shards.prems r by (auto simp: next_shards.simps [of m])
    have "exec_step (m\<lparr>mc_recorder := None\<rparr>) (m1\<lparr>mc_recorder := None\<rparr>)"
      using True step_untraced [OF m1(1)] by (simp add: exec_step_iff)
    then show ?thesis
      using next_shards.IH [OF r _ _ m1] True by (meson converse_rtranclp_into_rtranclp)
  next
    case False
    then show ?thesis
      using next_shards.prems r by (auto simp: next_shards.simps [of m] split: if_splits)
  qed
qed

text \<open>The caller's loop: shards taken while there are any.\<close>

inductive took_shards :: "machine \<Rightarrow> machine \<Rightarrow> bool" where
  "next_shards m = Inr (c # cs, m') \<Longrightarrow> took_shards m m'"

inductive_simps took_shards_iff: "took_shards m m'"

lemma took_shards_steps:
  "took_shards\<^sup>*\<^sup>* m m' \<Longrightarrow> exec_step\<^sup>*\<^sup>* (m\<lparr>mc_recorder := None\<rparr>) (m'\<lparr>mc_recorder := None\<rparr>)"
proof (induction rule: rtranclp_induct)
  case (step m1 m2)
  then obtain out where "next_shards m1 = Inr (out, m2)"
    by (auto simp: took_shards_iff)
  then show ?case
    using step.IH next_shards_steps by (meson rtranclp_trans)
qed simp

lemma finished_execution:
  assumes "(case kept of Streaming st \<Rightarrow> Inr (rest, \<lparr>se_state = st, se_profile = p, se_execution = ex\<rparr>) | Whole _ \<Rightarrow> panic) = (Inr (rest', s) :: (shard_chunk list \<times> streamed_execution) emu)"
  shows "se_execution s = ex"
  using assms by (cases kept) auto

lemma streaming_run:
  assumes "streaming_new im io tables config = Inr m0" "took_shards\<^sup>*\<^sup>* m0 m1" "next_shards m1 = Inr ([], m2)"
    "streaming_finish m2 = Inr (rest, s)"
  shows "run im io = Inr (se_execution s)"
proof -
  obtain m where m: "check_io io = Inr ()" "machine_new im io = Inr m"
    "m0 = m\<lparr>mc_recorder := Some (recorder_new tables config (Streaming ms_new))\<rparr>"
    using assms(1) by (auto simp: streaming_new_def)
  have "mc_recorder m = None"
    using m(2) by (auto simp: machine_new_def)
  then have "m0\<lparr>mc_recorder := None\<rparr> = m"
    by (simp add: m(3))
  then have "exec_step\<^sup>*\<^sup>* m (m2\<lparr>mc_recorder := None\<rparr>)" "mc_exit m2 \<noteq> None"
    using took_shards_steps [OF assms(2)] next_shards_steps [OF assms(3)] by auto
  then have "machine_run m = Inr (m2\<lparr>mc_recorder := None\<rparr>)"
    by (simp add: exec_steps_run)
  moreover have "machine_finish m2 = Inr (se_execution s)"
    using assms(4) unfolding streaming_finish_def
    by (auto simp del: keep.case split: option.split_asm dest!: finished_execution)
  ultimately show ?thesis
    using m(1,2) by (simp add: run_def)
qed

section \<open>The properties of the emulator\<close>

text \<open>C3: a run of a valid program does not panic: whatever its input, it is refused with an error of the emulator or
  it exits, with an output that fits its window and the input it was given.\<close>

theorem run_safe:
  assumes "validate im = Inr ()" "length (io_advice io) \<le> 2 ^ 31 - 4"
  shows "returns (run im io) (execution_ok (io_input io))"
  by (rule run_returns [OF assms])

lemma exit_run: "run exit_program no_io = Inr exit_execution"
  using exit_trace trace_run_execution by metis

theorem run_safe_witness: "returns (run exit_program no_io) (execution_ok []) \<and> run exit_program no_io = Inr exit_execution"
  using run_safe [OF exit_valid, of no_io] exit_run by simp

text \<open>C4: the machine \<open>Machine::new\<close> builds starts at the image's entry on cycle 1, its registers zero and
  its invariant met, and every word of the RAM it loads byte by byte is the word \<open>InitialMemory\<close> gives the
  memory argument.\<close>

theorem machine_new_memory:
  assumes "validate im = Inr ()" "io_ok io"
  shows "\<exists>m. machine_new im io = Inr m \<and> machine_ok m \<and> mc_cycle m = 1 \<and> mc_pc m = image_entry im \<and>
    mc_regs m = replicate 32 0 \<and> mc_code m = map fetched_of (image_slots im) \<and>
    (\<forall>a. unat a mod 4 = 0 \<longrightarrow> mem_word m a = memory_word (memory_of im io) a)"
  using machine_new_memory_value [OF assms] by blast

theorem machine_new_memory_witness: "\<exists>m. machine_new exit_program no_io = Inr m \<and> machine_ok m \<and> mc_pc m = 0x10000"
  using machine_new_memory [OF exit_valid no_io_ok] by (auto simp: exit_program_def)

text \<open>C33: a step keeps the machine's invariant and moves only what a cycle moves: the code, the public input
  and the recorder stay, the clock advances by one within its bound, and nothing it does panics.\<close>

theorem step_keeps_machine:
  assumes "machine_ok m" "mc_recorder m = None"
  shows "returns (step m) (stepped m)"
  by (rule step_returns [OF assms])

theorem step_keeps_machine_witness: "\<exists>m. machine_new exit_program no_io = Inr m \<and> returns (step m) (stepped m)"
proof -
  obtain m where "machine_new exit_program no_io = Inr m" "machine_ok m" "mc_recorder m = None"
    using exit_start by metis
  then show ?thesis
    using step_keeps_machine by blast
qed



text \<open>C34: an ecall that names no delegation: with the exit number the run ends with the status of \<open>a0\<close> at the
  halt pc, and any number the machine does not know returns \<open>-ENOSYS\<close> in \<open>a0\<close> and goes on.\<close>

theorem step_ecall:
  assumes "machine_ok m" "mc_recorder m = None" "unat (mc_cycle m) < 2 ^ 36" "fetch m (mc_pc m) = Inr (Ecall, False)"
    "delegation_family (reg m 17) = None"
  shows "step m = Inr
    (if reg m 17 = ecall_EXIT
     then m\<lparr>mc_exit := Some (reg m 10), mc_regs := mc_regs m, mc_cycle := mc_cycle m + 1, mc_pc := HALT_PC\<rparr>
     else (put_reg 10 (- ecall_ENOSYS) m)\<lparr>mc_cycle := mc_cycle m + 1, mc_pc := mc_pc m + 4\<rparr>)"
  using ecall_value [OF assms(1-3,5)] assms(4) by (simp add: step_def Let_def)

definition ecall_machine :: "u32 \<Rightarrow> machine" where
  "ecall_machine number = \<lparr>mc_code = exit_code, mc_slot_base = 0x10000, mc_regs = (replicate 32 0)[17 := number, 10 := 7],
     mc_pc = 0x10008, mc_ram = (\<lambda>_. None), mc_cycle = 3, mc_public_input = [], mc_advice_end = 0,
     mc_field = (\<lambda>_. None), mc_exit = None, mc_recorder = None\<rparr>"

theorem step_ecall_witness:
  "(\<exists>m. step (ecall_machine 93) = Inr m \<and> mc_exit m = Some 7 \<and> mc_pc m = HALT_PC) \<and>
   (\<exists>m. step (ecall_machine 0) = Inr m \<and> mc_exit m = None \<and> mc_regs m ! 10 = - ecall_ENOSYS)"
proof -
  have "machine_ok (ecall_machine n)" for n
    by (auto simp: machine_ok_def ecall_machine_def ram_ok_def cells_ok_def exit_code_def fits_def)
  then show ?thesis
    using step_ecall [of "ecall_machine 93"] step_ecall [of "ecall_machine 0"]
    by (simp add: ecall_machine_def fetch_def exit_code_def idx_def Let_def reg_def put_reg_def delegation_family_def
        delegation_TYPES_def)
qed

text \<open>C35: no execution is longer than the clock: fewer than \<open>2 ^ 36\<close> steps follow the start of any run.\<close>

theorem execution_bounded:
  assumes "machine_new im io = Inr m" "(exec_step ^^ n) m m'"
  shows "n < 2 ^ 36"
proof -
  have "mc_cycle m = 1"
    using assms(1) by (auto simp: machine_new_def)
  then have "clock_ok m"
    by (simp add: clock_ok_def)
  then show ?thesis
    using exec_steps_clock [OF assms(2)] \<open>mc_cycle m = 1\<close> by (simp add: clock_ok_def)
qed

theorem execution_bounded_witness: "\<exists>m m'. machine_new exit_program no_io = Inr m \<and> (exec_step ^^ 1) m m' \<and> (1 :: nat) < 2 ^ 36"
proof -
  obtain m where m: "machine_new exit_program no_io = Inr m" "machine_ok m" "mc_recorder m = None" "mc_cycle m = 1"
    "mc_pc m = 0x10000" "mc_regs m = replicate 32 0" "mc_exit m = None" "mc_code m = exit_code" "mc_slot_base m = 0x10000"
    using exit_start by metis
  have "fetch m (mc_pc m) = Inr (Addi 17 0 93, False)"
    using m by (simp add: fetch_def exit_code_def idx_def Let_def)
  then obtain m' where "step m = Inr m'"
    using step_performs [OF m(2,3), of "Addi 17 0 93" False] m(4,6) by (simp add: reg_def del: bind_res_Inr)
  then have "(exec_step ^^ 1) m m'"
    using m(7) by (simp add: exec_step_iff eq_OO)
  then show ?thesis
    using m(1) execution_bounded [OF m(1)] by blast
qed

text \<open>C6: every run ends: the machine reaches an exit, which is what the run returns, or a cycle that is refused,
  whose error is the run's.\<close>

theorem machine_run_ends:
  assumes "validate im = Inr ()" "io_ok io"
  shows "\<exists>m m'. machine_new im io = Inr m \<and> exec_step\<^sup>*\<^sup>* m m' \<and>
    (mc_exit m' \<noteq> None \<and> machine_run m = Inr m' \<or>
     mc_exit m' = None \<and> (\<exists>e. step m' = refuse e \<and> machine_run m = refuse e))"
  using machine_new_memory_value [OF assms] machine_run_reaches by blast

theorem machine_run_ends_witness:
  "\<exists>m m'. machine_new exit_program no_io = Inr m \<and> exec_step\<^sup>*\<^sup>* m m' \<and> mc_exit m' = Some 7"
proof -
  obtain m m' where m: "machine_new exit_program no_io = Inr m" "exec_step\<^sup>*\<^sup>* m m'"
    "mc_exit m' \<noteq> None \<and> machine_run m = Inr m' \<or> mc_exit m' = None \<and> (\<exists>e. step m' = refuse e \<and> machine_run m = refuse e)"
    using machine_run_ends [OF exit_valid no_io_ok] by blast
  have "bind_res (machine_run m) machine_finish = Inr exit_execution"
    using exit_run m(1) by (simp add: run_def check_io_def ensure_def del: bind_res_Inr)
  then have "machine_finish m' = Inr exit_execution"
    using m(3) by auto
  then have "mc_exit m' = Some 7"
    by (auto simp: machine_finish_def exit_execution_def split: option.splits)
  then show ?thesis
    using m(1,2) by blast
qed

text \<open>C36: tracing adds nothing: where the traced run returns, the plain run returns the same execution.\<close>

theorem trace_run_agrees:
  assumes "trace_run im io tables config = Inr (traces, log, counts, ex)"
  shows "run im io = Inr ex"
  by (rule trace_run_execution [OF assms])

theorem trace_run_agrees_witness:
  "\<exists>traces log counts. trace_run exit_program no_io exit_tables exit_config = Inr (traces, log, counts, exit_execution) \<and>
    run exit_program no_io = Inr exit_execution"
  using exit_trace trace_run_agrees by metis

text \<open>C2: the memory log of every traced run passes \<open>self_check\<close> against the initial memory of its image and input.\<close>

theorem trace_log_checks:
  assumes "trace_run im io tables config = Inr (traces, log, counts, ex)" "validate im = Inr ()"
    "length (io_advice io) \<le> 2 ^ 31 - 4"
  shows "self_check (log_events log) (memory_of im io) = Inr ()"
  by (rule trace_run_log [OF assms])

theorem trace_log_checks_witness:
  "\<exists>traces log counts. trace_run exit_program no_io exit_tables exit_config = Inr (traces, log, counts, exit_execution) \<and>
    self_check (log_events log) (memory_of exit_program no_io) = Inr ()"
proof -
  obtain traces log counts where "trace_run exit_program no_io exit_tables exit_config = Inr (traces, log, counts, exit_execution)"
    using exit_trace .
  then show ?thesis
    using trace_log_checks [OF _ exit_valid] by fastforce
qed

text \<open>C5: however its shards are taken, a streaming run that is drained and finished ran the program \<open>run\<close> runs.\<close>

theorem streaming_agrees:
  assumes "streaming_new im io tables config = Inr m0" "took_shards\<^sup>*\<^sup>* m0 m1" "next_shards m1 = Inr ([], m2)"
    "streaming_finish m2 = Inr (rest, s)"
  shows "run im io = Inr (se_execution s)"
  by (rule streaming_run [OF assms])

theorem streaming_agrees_witness:
  "\<exists>m0 m1 tail s. streaming_new exit_program no_io exit_tables exit_config = Inr m0 \<and> next_shards m0 = Inr ([], m1) \<and>
    streaming_finish m1 = Inr (tail, s) \<and> length tail = 1 \<and> run exit_program no_io = Inr (se_execution s)"
proof -
  obtain m0 m1 tail s where s: "streaming_new exit_program no_io exit_tables exit_config = Inr m0" "next_shards m0 = Inr ([], m1)"
    "streaming_finish m1 = Inr (tail, s)" "length tail = 1"
    using exit_stream by metis
  then show ?thesis
    using streaming_agrees [OF s(1) rtranclp.rtrancl_refl s(2,3)] by blast
qed

end
