(* ===== verification/Residue.thy ===== *)
theory Residue
  imports Field
begin

text \<open>
  The ring of integers modulo \<open>p\<close> as a type, and the residue of a stored field element: the operators of
  \<open>crates/field\<close> are the ring's operations on residues, so polynomial identities are proved in the ring.
\<close>

section \<open>The ring\<close>

typedef zp = "{i :: int. 0 \<le> i \<and> i < int fr_p}"
  by (rule exI [of _ 0]) (simp add: fr_p_pos)

setup_lifting type_definition_zp

lemma mod_fr_p: "0 \<le> i mod int fr_p \<and> i mod int fr_p < int fr_p"
  by (simp add: fr_p_pos)

instantiation zp :: comm_ring_1
begin

lift_definition zero_zp :: zp is 0
  by (simp add: fr_p_pos)

lift_definition one_zp :: zp is 1
  by (simp add: fr_p_def)

lift_definition plus_zp :: "zp \<Rightarrow> zp \<Rightarrow> zp" is "\<lambda>a b. (a + b) mod int fr_p"
  by (rule mod_fr_p)

lift_definition minus_zp :: "zp \<Rightarrow> zp \<Rightarrow> zp" is "\<lambda>a b. (a - b) mod int fr_p"
  by (rule mod_fr_p)

lift_definition uminus_zp :: "zp \<Rightarrow> zp" is "\<lambda>a. (- a) mod int fr_p"
  by (rule mod_fr_p)

lift_definition times_zp :: "zp \<Rightarrow> zp \<Rightarrow> zp" is "\<lambda>a b. (a * b) mod int fr_p"
  by (rule mod_fr_p)

instance
proof
  fix a b c :: zp
  show "a * b * c = a * (b * c)" "a * b = b * a" "a + b + c = a + (b + c)" "a + b = b + a" "(a + b) * c = a * c + b * c"
    by (transfer; simp add: mod_simps algebra_simps)+
  show "1 * a = a" "0 + a = a" "- a + a = 0" "a - b = a + - b" "(0 :: zp) \<noteq> 1"
    by (transfer; simp add: mod_simps)+
qed

end

lemma rep_of_nat: "Rep_zp (of_nat n) = int (n mod fr_p)"
proof (induction n)
  case 0
  show ?case
    by (simp add: zero_zp.rep_eq)
next
  case (Suc n)
  have "(of_nat (Suc n) :: zp) = 1 + of_nat n"
    by simp
  then show ?case
    by (simp only: plus_zp.rep_eq one_zp.rep_eq Suc) (simp add: zmod_int mod_simps)
qed

lemma of_nat_mod_p: "(of_nat (n mod fr_p) :: zp) = of_nat n"
  by (simp add: Rep_zp_inject [symmetric] rep_of_nat)

lemma of_nat_zp_inject: "(of_nat a :: zp) = of_nat b \<longleftrightarrow> a mod fr_p = b mod fr_p"
  by (simp add: Rep_zp_inject [symmetric] rep_of_nat)

section \<open>Residues of field elements\<close>

definition el :: "fr \<Rightarrow> zp" where
  "el x = of_nat (canon x)"

lemma el_inject: "fr_ok x \<Longrightarrow> fr_ok y \<Longrightarrow> el x = el y \<longleftrightarrow> x = y"
  using canon_inject [of x y] canon_less by (auto simp: el_def of_nat_zp_inject)

lemma el_add [simp]: "fr_ok x \<Longrightarrow> fr_ok y \<Longrightarrow> el (fr_add x y) = el x + el y"
  by (simp add: el_def fr_add_canon of_nat_mod_p)

lemma el_mul [simp]: "fr_ok x \<Longrightarrow> fr_ok y \<Longrightarrow> el (fr_mul x y) = el x * el y"
  by (simp add: el_def fr_mul_canon of_nat_mod_p)

lemma el_sub [simp]: "fr_ok x \<Longrightarrow> fr_ok y \<Longrightarrow> el (fr_sub x y) = el x - el y"
proof -
  assume "fr_ok x" "fr_ok y"
  then have "(of_nat ((canon (fr_sub x y) + canon y) mod fr_p) :: zp) = of_nat (canon x)"
    by (simp add: fr_sub_canon)
  then show ?thesis
    by (simp add: el_def of_nat_mod_p algebra_simps)
qed

lemma el_zero [simp]: "el fr_zero = 0"
  and el_one [simp]: "el fr_one = 1"
  by (simp_all add: el_def fr_consts)

lemma el_minus_one: "el fr_minus_one = - 1"
proof -
  have "(of_nat (fr_p - 1) :: zp) + 1 = of_nat (fr_p mod fr_p)"
    unfolding of_nat_mod_p using of_nat_Suc [of "fr_p - 1", where ?'a = zp] fr_p_pos by (simp add: add.commute)
  then show ?thesis
    by (simp add: el_def fr_consts eq_neg_iff_add_eq_0)
qed

lemmas fr_closed [simp] = fr_add_ok fr_mul_ok fr_sub_ok fr_consts(1,3)

end
