(* ===== verification/Multilinear.thy ===== *)
theory Multilinear
  imports Poly_Backing Residue Initial_Memory
begin

text \<open>
  Multilinear polynomials, \<open>crates/poly/src/lib.rs\<close>: \<open>MultilinearPoly\<close> with its constructor, reads, \<open>bind\<close>
  and \<open>evaluate\<close>, and the equality polynomial as a table and at a point. The lemmas read a polynomial as its
  table of residues: binding halves the table along the lowest variable, evaluating is the multilinear
  extension, and the two equality polynomials agree.
\<close>

unbundle bit_operations_syntax

section \<open>Polynomials\<close>

function trailing_zeros :: "nat \<Rightarrow> nat" where
  "trailing_zeros n = (if n = 0 \<or> odd n then 0 else Suc (trailing_zeros (n div 2)))"
  by auto
termination
  by (relation "measure id") auto

declare trailing_zeros.simps [simp del]

definition is_power_of_two :: "nat \<Rightarrow> bool" where
  "is_power_of_two n \<longleftrightarrow> n = 2 ^ trailing_zeros n"

record multilinear_poly =
  mp_backing :: poly_backing
  mp_num_vars :: nat

definition mp_new :: "poly_backing \<Rightarrow> 'e fault + multilinear_poly" where
  "mp_new backing =
     (let n = entries backing in
      bind_res (ensure (is_power_of_two n)) (\<lambda>_.
      bind_res
        (case backing of
           U1 limbs _ \<Rightarrow>
             bind_res (ensure (length limbs = div_ceil n 64)) (\<lambda>_.
             let used = n - 64 * (length limbs - 1) in
             if used < 64 then bind_res (idx limbs (length limbs - 1)) (\<lambda>l. ensure (shr l used = 0))
             else Inr ())
         | _ \<Rightarrow> Inr ()) (\<lambda>_.
      Inr \<lparr>mp_backing = backing, mp_num_vars = trailing_zeros n\<rparr>)))"

definition mp_len :: "multilinear_poly \<Rightarrow> nat" where
  "mp_len p = 2 ^ mp_num_vars p"

definition mp_get :: "multilinear_poly \<Rightarrow> nat \<Rightarrow> 'e fault + fr" where
  "mp_get p index = bind_res (ensure (index < mp_len p)) (\<lambda>_. backing_entry (mp_backing p) index)"

text \<open>\<open>lo + r * (hi - lo)\<close>, and the two loops that fold a table with it: in place, and out of a backing.\<close>

definition fold_cell :: "fr \<Rightarrow> fr \<Rightarrow> fr \<Rightarrow> fr" where
  "fold_cell r lo hi = fr_add lo (fr_mul r (fr_sub hi lo))"

fun fold_in_place :: "fr \<Rightarrow> nat list \<Rightarrow> fr list \<Rightarrow> 'e fault + fr list" where
  "fold_in_place r [] values = Inr values"
| "fold_in_place r (i # is) values =
     bind_res (idx values (2 * i)) (\<lambda>lo.
     bind_res (idx values (2 * i + 1)) (\<lambda>hi.
     bind_res (set_at values i (fold_cell r lo hi)) (\<lambda>values. fold_in_place r is values)))"

fun fold_entries :: "fr \<Rightarrow> poly_backing \<Rightarrow> nat list \<Rightarrow> 'e fault + fr list" where
  "fold_entries r backing [] = Inr []"
| "fold_entries r backing (i # is) =
     bind_res (backing_entry backing (2 * i)) (\<lambda>lo.
     bind_res (backing_entry backing (2 * i + 1)) (\<lambda>hi.
     bind_res (fold_entries r backing is) (\<lambda>rest. Inr (fold_cell r lo hi # rest))))"

definition mp_bind :: "fr \<Rightarrow> multilinear_poly \<Rightarrow> 'e fault + multilinear_poly" where
  "mp_bind r p =
     bind_res (ensure (mp_num_vars p > 0)) (\<lambda>_.
     let half = mp_len p div 2 in
     bind_res
       (case mp_backing p of
          FrB values \<Rightarrow> bind_res (fold_in_place r [0..<half] values) (\<lambda>values. Inr (take half values))
        | small \<Rightarrow> fold_entries r small [0..<half]) (\<lambda>values.
     Inr \<lparr>mp_backing = FrB values, mp_num_vars = mp_num_vars p - 1\<rparr>))"

fun fold_scratch :: "fr list \<Rightarrow> fr list \<Rightarrow> 'e fault + fr list" where
  "fold_scratch [] scratch = Inr scratch"
| "fold_scratch (r # rs) scratch =
     (let half = length scratch div 2 in
      bind_res (fold_in_place r [0..<half] scratch) (\<lambda>scratch. fold_scratch rs (take half scratch)))"

definition mp_evaluate :: "fr list \<Rightarrow> multilinear_poly \<Rightarrow> 'e fault + fr" where
  "mp_evaluate point p =
     bind_res (ensure (length point = mp_num_vars p)) (\<lambda>_.
     case point of
       [] \<Rightarrow> mp_get p 0
     | r # rs \<Rightarrow>
         bind_res (fold_entries r (mp_backing p) [0..<mp_len p div 2]) (\<lambda>scratch.
         bind_res (fold_scratch rs scratch) (\<lambda>scratch. idx scratch 0)))"

section \<open>The equality polynomial\<close>

fun eq_double :: "fr \<Rightarrow> nat \<Rightarrow> nat list \<Rightarrow> fr list \<Rightarrow> 'e fault + fr list" where
  "eq_double r half [] table = Inr table"
| "eq_double r half (i # is) table =
     bind_res (idx table i) (\<lambda>v.
     let with_one = fr_mul v r in
     bind_res (set_at table (i + half) with_one) (\<lambda>table.
     bind_res (set_at table i (fr_sub v with_one)) (\<lambda>table. eq_double r half is table)))"

definition resize :: "nat \<Rightarrow> 'a \<Rightarrow> 'a list \<Rightarrow> 'a list" where
  "resize n x xs = take n xs @ replicate (n - length xs) x"

fun eq_rounds :: "nat \<Rightarrow> fr list \<Rightarrow> fr list \<Rightarrow> 'e fault + fr list" where
  "eq_rounds j [] table = Inr table"
| "eq_rounds j (r # rs) table =
     (let half = 2 ^ j in
      bind_res (eq_double r half [0..<half] (resize (2 * half) fr_zero table)) (\<lambda>table. eq_rounds (j + 1) rs table))"

definition eq_table :: "fr list \<Rightarrow> 'e fault + fr list" where
  "eq_table r = eq_rounds 0 r [fr_one]"

definition eq_eval :: "fr list \<Rightarrow> fr list \<Rightarrow> 'e fault + fr" where
  "eq_eval r y =
     bind_res (ensure (length r = length y)) (\<lambda>_.
     Inr (foldl (\<lambda>acc (rj, yj). fr_mul acc (fr_add (fr_mul rj yj) (fr_mul (fr_sub fr_one rj) (fr_sub fr_one yj))))
       fr_one (zip r y)))"

section \<open>Tables of residues\<close>

text \<open>The entry read off a backing, and what makes a polynomial well formed.\<close>

fun entry_value :: "poly_backing \<Rightarrow> nat \<Rightarrow> fr" where
  "entry_value (U1 limbs _) i = (if shr (limbs ! (i div 64)) (i mod 64) AND 1 = 1 then fr_one else fr_zero)"
| "entry_value (U8 v) i = from_u64 (ucast (v ! i))"
| "entry_value (U16 v) i = from_u64 (ucast (v ! i))"
| "entry_value (U32 v) i = from_u64 (ucast (v ! i))"
| "entry_value (FrB v) i = v ! i"

fun backing_ok :: "poly_backing \<Rightarrow> bool" where
  "backing_ok (U1 limbs n) = (n \<le> 64 * length limbs)"
| "backing_ok (FrB v) = list_all fr_ok v"
| "backing_ok _ = True"

definition mp_ok :: "multilinear_poly \<Rightarrow> bool" where
  "mp_ok p \<longleftrightarrow> entries (mp_backing p) = mp_len p \<and> backing_ok (mp_backing p)"

definition mp_values :: "multilinear_poly \<Rightarrow> fr list" where
  "mp_values p = map (entry_value (mp_backing p)) [0..<mp_len p]"

definition mp_table :: "multilinear_poly \<Rightarrow> zp list" where
  "mp_table p = map el (mp_values p)"

lemma from_u64_canonical [simp]: "fr_ok (from_u64 x)"
proof -
  have "limbs_ok [x, 0, 0, 0]"
    using unat_u64_less [of x] by (simp add: limbs_ok_def fr_p_def)
  from to_mont_canon [OF this] show ?thesis
    by (simp add: from_u64_def)
qed

lemma div_less_iff: "n \<le> 64 * m \<Longrightarrow> i < n \<Longrightarrow> i div 64 < (m :: nat)"
  by linarith

lemma entry_of_backing:
  assumes "backing_ok b" "i < entries b"
  shows "(backing_entry b i :: 'e fault + fr) = Inr (entry_value b i)" "fr_ok (entry_value b i)"
proof -
  show "(backing_entry b i :: 'e fault + fr) = Inr (entry_value b i)"
    using assms by (cases b) (auto simp: idx_def div_less_iff simp del: bind_res_Inr)
  show "fr_ok (entry_value b i)"
    using assms by (cases b) (auto simp: list_all_length)
qed

lemma mp_get_value: "mp_ok p \<Longrightarrow> i < mp_len p \<Longrightarrow> (mp_get p i :: 'e fault + fr) = Inr (mp_values p ! i)"
  by (simp add: mp_get_def mp_ok_def mp_values_def entry_of_backing ensure_def del: bind_res_Inr)

lemma mp_values_ok: "mp_ok p \<Longrightarrow> list_all fr_ok (mp_values p)" "length (mp_values p) = mp_len p"
  by (auto simp: mp_values_def list_all_iff mp_ok_def entry_of_backing)

lemma mp_table_length [simp]: "length (mp_table p) = 2 ^ mp_num_vars p"
  by (simp add: mp_table_def mp_values_ok mp_len_def)

lemma mp_table_nth: "i < 2 ^ mp_num_vars p \<Longrightarrow> mp_table p ! i = el (mp_values p ! i)"
  by (simp add: mp_table_def mp_values_ok mp_len_def)

section \<open>Folding\<close>

text \<open>A table halved along its lowest variable.\<close>

definition line :: "zp list \<Rightarrow> nat \<Rightarrow> zp \<Rightarrow> zp" where
  "line t i x = t ! (2 * i) + x * (t ! (2 * i + 1) - t ! (2 * i))"

definition halve :: "zp \<Rightarrow> zp list \<Rightarrow> zp list" where
  "halve r t = map (\<lambda>i. line t i r) [0..<length t div 2]"

definition halved :: "fr \<Rightarrow> fr list \<Rightarrow> fr list" where
  "halved r v = map (\<lambda>i. fold_cell r (v ! (2 * i)) (v ! (2 * i + 1))) [0..<length v div 2]"

lemma fold_cell_ok [simp]: "fr_ok r \<Longrightarrow> fr_ok lo \<Longrightarrow> fr_ok hi \<Longrightarrow> fr_ok (fold_cell r lo hi)"
  and fold_cell_el: "fr_ok r \<Longrightarrow> fr_ok lo \<Longrightarrow> fr_ok hi \<Longrightarrow> el (fold_cell r lo hi) = el lo + el r * (el hi - el lo)"
  by (simp_all add: fold_cell_def)

lemma halved_ok:
  assumes "fr_ok r" "list_all fr_ok v"
  shows "list_all fr_ok (halved r v)" "map el (halved r v) = halve (el r) (map el v)" "length (halved r v) = length v div 2"
proof -
  have cell: "fr_ok (v ! (2 * i))" "fr_ok (v ! Suc (2 * i))" "2 * i < length v" "Suc (2 * i) < length v" if "i < length v div 2" for i
    using assms(2) that by (auto simp: list_all_length)
  show "list_all fr_ok (halved r v)"
    using assms(1) cell by (auto simp: halved_def list_all_iff)
  show "map el (halved r v) = halve (el r) (map el v)"
    using assms(1) cell by (auto simp: halved_def halve_def line_def fold_cell_el)
qed (simp add: halved_def)

lemma fold_in_place_value:
  assumes "2 * n \<le> length v" "k \<le> n" "length w = length v" "take k w = take k (halved r v)" "drop k w = drop k v"
  shows "\<exists>w'. (fold_in_place r [k..<n] w :: 'e fault + fr list) = Inr w' \<and> length w' = length v \<and> take n w' = take n (halved r v)"
  using assms(2-5)
proof (induction "n - k" arbitrary: k w)
  case (Suc d)
  have at: "w ! i = v ! i" if "k \<le> i" "i < length v" for i
    using arg_cong [OF Suc.prems(4), of "\<lambda>xs. xs ! (i - k)"] that Suc.prems(2) by (simp add: nth_drop)
  have k: "k < n" "2 * k + 1 < length v" "k < length v" "k < length (halved r v)"
    using Suc.hyps(2) assms(1) by (auto simp: halved_def)
  let ?w = "w[k := fold_cell r (v ! (2 * k)) (v ! (2 * k + 1))]"
  have "take (Suc k) ?w = take (Suc k) (halved r v)"
    using Suc.prems(2,3) k by (simp add: take_Suc_conv_app_nth) (simp add: halved_def)
  moreover have "drop (Suc k) ?w = drop (Suc k) v"
    using arg_cong [OF Suc.prems(4), of "drop 1"] by simp
  ultimately obtain w' where "(fold_in_place r [Suc k..<n] ?w :: 'e fault + fr list) = Inr w'" "length w' = length v"
    "take n w' = take n (halved r v)"
    using Suc.hyps(1) [of "Suc k" ?w] Suc.hyps(2) Suc.prems(2) k by fastforce
  then show ?case
    using k at Suc.prems(2) by (simp add: upt_conv_Cons idx_def set_at_def del: bind_res_Inr)
qed simp

lemma fold_in_place_half:
  "\<exists>w. (fold_in_place r [0..<length v div 2] v :: 'e fault + fr list) = Inr w \<and> take (length v div 2) w = halved r v"
  using fold_in_place_value [of "length v div 2" v 0 v r, where ?'e = 'e] by (auto simp: halved_def)

lemma fold_entries_value:
  assumes "backing_ok b" "\<forall>i \<in> set is. 2 * i + 1 < entries b"
  shows "(fold_entries r b is :: 'e fault + fr list) =
    Inr (map (\<lambda>i. fold_cell r (entry_value b (2 * i)) (entry_value b (2 * i + 1))) is)"
  using assms(2) by (induction "is") (simp_all add: entry_of_backing [OF assms(1)] del: bind_res_Inr)

lemma fold_entries_half:
  assumes "mp_ok p" "0 < mp_num_vars p"
  shows "(fold_entries r (mp_backing p) [0..<mp_len p div 2] :: 'e fault + fr list) = Inr (halved r (mp_values p))"
proof -
  have even: "2 * (mp_len p div 2) = mp_len p"
    using assms(2) by (cases "mp_num_vars p") (simp_all add: mp_len_def)
  then have "2 * i + 1 < mp_len p" if "i < mp_len p div 2" for i
    using that by linarith
  then show ?thesis
    using assms(1) fold_entries_value [of "mp_backing p" "[0..<mp_len p div 2]" r, where ?'e = 'e] even
    by (simp add: mp_ok_def halved_def mp_values_def)
qed

lemma mp_bind_value:
  assumes "mp_ok p" "0 < mp_num_vars p" "fr_ok r"
  obtains q where "(mp_bind r p :: 'e fault + multilinear_poly) = Inr q" "mp_ok q" "mp_num_vars q = mp_num_vars p - 1"
    "mp_values q = halved r (mp_values p)" "mp_table q = halve (el r) (mp_table p)"
proof -
  let ?v = "mp_values p" and ?half = "mp_len p div 2"
  let ?q = "\<lparr>mp_backing = FrB (halved r ?v), mp_num_vars = mp_num_vars p - 1\<rparr>"
  note ok = halved_ok [OF assms(3) mp_values_ok(1) [OF assms(1)]]
  have len: "length (halved r ?v) = 2 ^ (mp_num_vars p - 1)"
    using ok(3) assms(2) by (cases "mp_num_vars p") (simp_all add: mp_values_ok mp_len_def)
  have "(mp_bind r p :: 'e fault + multilinear_poly) = Inr ?q"
  proof (cases "\<exists>v. mp_backing p = FrB v")
    case True
    then obtain v where v: "mp_backing p = FrB v"
      by blast
    then have "?v = v"
      using assms(1) by (auto simp: mp_values_def mp_ok_def intro: nth_equalityI)
    moreover obtain w where "(fold_in_place r [0..<length v div 2] v :: 'e fault + fr list) = Inr w" "take (length v div 2) w = halved r v"
      using fold_in_place_half by blast
    ultimately show ?thesis
      using assms(1,2) v by (auto simp: mp_bind_def mp_ok_def Let_def)
  next
    case False
    then show ?thesis
      using fold_entries_half [OF assms(1,2), of r, where ?'e = 'e] assms(2)
      by (cases "mp_backing p") (simp_all add: mp_bind_def Let_def)
  qed
  moreover have "mp_values ?q = halved r ?v"
    using len by (auto simp: mp_values_def mp_len_def intro: nth_equalityI)
  moreover have "mp_ok ?q"
    using ok(1) len by (simp add: mp_ok_def mp_len_def)
  ultimately show thesis
    using that ok(2) by (simp add: mp_table_def)
qed

section \<open>The multilinear extension\<close>

text \<open>The weight of the cube's vertex \<open>y\<close> at a point: a product over the variables, variable 0 in the low bit.\<close>

fun weight :: "zp list \<Rightarrow> nat \<Rightarrow> zp" where
  "weight [] y = 1"
| "weight (r # rs) y = (if odd y then r else 1 - r) * weight rs (y div 2)"

definition extension :: "zp list \<Rightarrow> zp list \<Rightarrow> zp" where
  "extension point t = (\<Sum>y < 2 ^ length point. weight point y * t ! y)"

lemma sum_pairs: "(\<Sum>y < 2 * n. f y) = (\<Sum>i < n. f (2 * i) + f (2 * i + 1))" for f :: "nat \<Rightarrow> 'a :: comm_monoid_add"
  by (induction n) (simp_all add: ac_simps)

lemma length_halve [simp]: "length (halve r t) = length t div 2"
  by (simp add: halve_def)

lemma halve_nth [simp]: "i < length t div 2 \<Longrightarrow> halve r t ! i = line t i r"
  by (simp add: halve_def)

lemma extension_Nil: "extension [] t = t ! 0"
  by (simp add: extension_def)

lemma extension_Cons:
  assumes "length t = 2 ^ Suc (length rs)"
  shows "extension (r # rs) t = extension rs (halve r t)"
proof -
  have "extension (r # rs) t = (\<Sum>i < 2 ^ length rs. weight (r # rs) (2 * i) * t ! (2 * i) + weight (r # rs) (2 * i + 1) * t ! (2 * i + 1))"
    by (simp add: extension_def sum_pairs)
  also have "\<dots> = (\<Sum>i < 2 ^ length rs. weight rs i * halve r t ! i)"
    using assms by (intro sum.cong) (simp_all add: line_def algebra_simps)
  finally show ?thesis
    by (simp add: extension_def)
qed

lemma fold_scratch_value:
  "length v = 2 ^ length rs \<Longrightarrow> list_all fr_ok v \<Longrightarrow> list_all fr_ok rs \<Longrightarrow>
    \<exists>x. (bind_res (fold_scratch rs v) (\<lambda>w. idx w 0) :: 'e fault + fr) = Inr x \<and> fr_ok x \<and> el x = extension (map el rs) (map el v)"
proof (induction rs arbitrary: v)
  case (Cons r rs)
  note ok = halved_ok [of r v]
  obtain w where w: "(fold_in_place r [0..<length v div 2] v :: 'e fault + fr list) = Inr w" "take (length v div 2) w = halved r v"
    using fold_in_place_half by blast
  have "bind_res (fold_scratch (r # rs) v) (\<lambda>w. idx w 0) = (bind_res (fold_scratch rs (halved r v)) (\<lambda>w. idx w 0) :: 'e fault + fr)"
    using w by (simp add: Let_def del: bind_res_Inr)
  then show ?case
    using Cons.IH [of "halved r v"] Cons.prems ok extension_Cons [of "map el v" "map el rs" "el r"] by (simp del: bind_res_Inr)
qed (auto simp: extension_Nil idx_def list_all_length)

lemma mp_evaluate_value:
  assumes "mp_ok p" "length point = mp_num_vars p" "list_all fr_ok point"
  obtains x where "(mp_evaluate point p :: 'e fault + fr) = Inr x" "fr_ok x" "el x = extension (map el point) (mp_table p)"
proof (cases point)
  case Nil
  have "(mp_get p 0 :: 'e fault + fr) = Inr (mp_values p ! 0)" "fr_ok (mp_values p ! 0)"
    using mp_get_value [OF assms(1), of 0] mp_values_ok(1) [OF assms(1)] by (auto simp: mp_values_ok(2) mp_len_def list_all_length)
  then show ?thesis
    using that assms(2) Nil by (simp add: mp_evaluate_def ensure_def extension_Nil mp_table_nth del: bind_res_Inr)
next
  case (Cons r rs)
  let ?v = "halved r (mp_values p)"
  have vars: "mp_num_vars p = Suc (length rs)"
    using assms(2) Cons by simp
  have r: "fr_ok r" "list_all fr_ok rs"
    using assms(3) Cons by simp_all
  note ok = halved_ok [OF r(1) mp_values_ok(1) [OF assms(1)]]
  have "length ?v = 2 ^ length rs"
    using vars by (simp add: ok(3) mp_values_ok(2) mp_len_def)
  then obtain x where x: "(bind_res (fold_scratch rs ?v) (\<lambda>w. idx w 0) :: 'e fault + fr) = Inr x" "fr_ok x"
    "el x = extension (map el rs) (map el ?v)"
    using fold_scratch_value [of ?v rs, where ?'e = 'e] ok(1) r(2) by blast
  have "(mp_evaluate point p :: 'e fault + fr) = Inr x"
    using fold_entries_half [OF assms(1), of r, where ?'e = 'e] vars x(1) Cons
    by (simp add: mp_evaluate_def ensure_def del: bind_res_Inr)
  moreover have "el x = extension (map el point) (mp_table p)"
    using x(3) ok(2) extension_Cons [of "mp_table p" "map el rs" "el r"] vars Cons by (simp add: mp_table_def [symmetric])
  ultimately show ?thesis
    using that x(2) by blast
qed

section \<open>The equality polynomial's value\<close>

lemma weight_snoc:
  "y < 2 ^ length rs \<Longrightarrow> weight (rs @ [r]) y = weight rs y * (1 - r)"
  "y < 2 ^ length rs \<Longrightarrow> weight (rs @ [r]) (y + 2 ^ length rs) = weight rs y * r"
proof (induction rs arbitrary: y)
  case (Cons q rs)
  {
    case 1
    then show ?case
      using Cons.IH(1) [of "y div 2"] by (simp add: less_mult_imp_div_less mult.commute mult.assoc)
  next
    case 2
    then show ?case
      using Cons.IH(2) [of "y div 2"] by (auto simp: less_mult_imp_div_less ac_simps)
  }
qed simp_all

lemma eq_double_value:
  "length a = k \<Longrightarrow> length b = k \<Longrightarrow> half = k + length t \<Longrightarrow>
    (eq_double r half [k..<half] (a @ t @ b @ replicate (length t) z) :: 'e fault + fr list) =
    Inr (a @ map (\<lambda>v. fr_sub v (fr_mul v r)) t @ b @ map (\<lambda>v. fr_mul v r) t)"
proof (induction t arbitrary: a b k)
  case (Cons v ts)
  let ?w = "fr_mul v r"
  have hi: "(a @ (v # ts) @ b @ replicate (length (v # ts)) z)[k + half := ?w] = a @ v # ts @ b @ ?w # replicate (length ts) z"
    using Cons.prems by (simp add: list_update_append)
  have lo: "(a @ v # ts @ b @ ?w # replicate (length ts) z)[k := fr_sub v ?w] = a @ fr_sub v ?w # ts @ b @ ?w # replicate (length ts) z"
    using Cons.prems by (simp add: list_update_append)
  have step: "[k..<half] = k # [Suc k..<half]"
    using Cons.prems(3) by (intro upt_conv_Cons) simp
  have "(eq_double r half [k..<half] (a @ (v # ts) @ b @ replicate (length (v # ts)) z) :: 'e fault + fr list) =
      eq_double r half [Suc k..<half] (a @ fr_sub v ?w # ts @ b @ ?w # replicate (length ts) z)"
    unfolding step eq_double.simps Let_def using hi lo Cons.prems
    by (simp add: idx_def set_at_def nth_append del: bind_res_Inr upt_Suc)
  then show ?case
    using Cons.IH [of "a @ [fr_sub v ?w]" "Suc k" "b @ [?w]"] Cons.prems by simp
qed simp

lemma eq_rounds_value:
  "length t = 2 ^ length qs \<Longrightarrow> j = length qs \<Longrightarrow> list_all fr_ok t \<Longrightarrow> map el t = map (weight qs) [0..<2 ^ length qs] \<Longrightarrow> list_all fr_ok rs \<Longrightarrow>
    \<exists>u. (eq_rounds j rs t :: 'e fault + fr list) = Inr u \<and> list_all fr_ok u \<and> length u = 2 ^ (length qs + length rs) \<and>
      map el u = map (weight (qs @ map el rs)) [0..<2 ^ (length qs + length rs)]"
proof (induction rs arbitrary: j t qs)
  case (Cons r rs)
  let ?lo = "map (\<lambda>v. fr_sub v (fr_mul v r)) t" and ?hi = "map (\<lambda>v. fr_mul v r) t"
  let ?qs = "qs @ [el r]"
  have r: "fr_ok r" "list_all fr_ok rs"
    using Cons.prems(5) by simp_all
  have t: "fr_ok (t ! i) \<and> el (t ! i) = weight qs i" if "i < 2 ^ length qs" for i
    using Cons.prems(1,3) that arg_cong [OF Cons.prems(4), of "\<lambda>xs. xs ! i"] by (simp add: list_all_length)
  have "(eq_double r (2 ^ j) [0..<2 ^ j] (resize (2 * 2 ^ j) fr_zero t) :: 'e fault + fr list) = Inr (?lo @ ?hi)"
    using eq_double_value [of "[]" 0 "[]" "2 ^ j" t r fr_zero] Cons.prems(1,2) by (simp add: resize_def)
  then have "(eq_rounds j (r # rs) t :: 'e fault + fr list) = eq_rounds (j + 1) rs (?lo @ ?hi)"
    by (simp add: Let_def del: bind_res_Inr)
  moreover have "list_all fr_ok (?lo @ ?hi)"
    using Cons.prems(3) r(1) by (auto simp: list_all_iff)
  moreover have "map el (?lo @ ?hi) = map (weight ?qs) [0..<2 ^ length ?qs]"
  proof (rule nth_equalityI)
    fix i
    assume "i < length (map el (?lo @ ?hi))"
    then have i: "i < 2 * 2 ^ length qs"
      using Cons.prems(1) by simp
    show "map el (?lo @ ?hi) ! i = map (weight ?qs) [0..<2 ^ length ?qs] ! i"
    proof (cases "i < 2 ^ length qs")
      case True
      then show ?thesis
        using t [OF True] r(1) Cons.prems(1) by (simp add: nth_append weight_snoc(1) algebra_simps)
    next
      case False
      then have at: "i - 2 ^ length qs < 2 ^ length qs" "i - 2 ^ length qs + 2 ^ length qs = i"
        using i by simp_all
      then show ?thesis
        using t [OF at(1)] r(1) Cons.prems(1) False i weight_snoc(2) [OF at(1), of "el r"] by (simp add: nth_append)
    qed
  qed (use Cons.prems(1) in simp)
  ultimately show ?case
    using Cons.IH [of "?lo @ ?hi" ?qs "j + 1"] Cons.prems(1,2) r(2) by simp
qed auto

lemma eq_table_value:
  assumes "list_all fr_ok r"
  obtains t where "(eq_table r :: 'e fault + fr list) = Inr t" "list_all fr_ok t" "length t = 2 ^ length r"
    "map el t = map (weight (map el r)) [0..<2 ^ length r]"
  using eq_rounds_value [of "[fr_one]" "[]" 0 r, where ?'e = 'e] assms that by (auto simp: eq_table_def fr_consts)

fun eq_product :: "zp list \<Rightarrow> zp list \<Rightarrow> zp" where
  "eq_product (r # rs) (y # ys) = (r * y + (1 - r) * (1 - y)) * eq_product rs ys"
| "eq_product _ _ = 1"

lemma extension_weights:
  "length rs = length ys \<Longrightarrow> extension ys (map (weight rs) [0..<2 ^ length rs]) = eq_product rs ys"
proof (induction rs ys rule: list_induct2)
  case (Cons r rs y ys)
  have "(\<Sum>i < 2 * 2 ^ length ys. weight (y # ys) i * weight (r # rs) i) =
      (\<Sum>i < 2 ^ length ys. (r * y + (1 - r) * (1 - y)) * (weight ys i * weight rs i))"
    unfolding sum_pairs by (intro sum.cong) (simp_all add: algebra_simps)
  then show ?case
    using Cons by (simp add: extension_def flip: sum_distrib_left)
qed (simp add: extension_def)

lemma eq_fold_value:
  "length r = length y \<Longrightarrow> list_all fr_ok r \<Longrightarrow> list_all fr_ok y \<Longrightarrow> fr_ok acc \<Longrightarrow>
    fr_ok (foldl (\<lambda>acc (rj, yj). fr_mul acc (fr_add (fr_mul rj yj) (fr_mul (fr_sub fr_one rj) (fr_sub fr_one yj)))) acc (zip r y)) \<and>
    el (foldl (\<lambda>acc (rj, yj). fr_mul acc (fr_add (fr_mul rj yj) (fr_mul (fr_sub fr_one rj) (fr_sub fr_one yj)))) acc (zip r y)) =
      el acc * eq_product (map el r) (map el y)"
  by (induction r y arbitrary: acc rule: list_induct2) (simp_all add: mult.assoc)

lemma eq_eval_value:
  assumes "length r = length y" "list_all fr_ok r" "list_all fr_ok y"
  obtains x where "(eq_eval r y :: 'e fault + fr) = Inr x" "fr_ok x" "el x = eq_product (map el r) (map el y)"
  using eq_fold_value [OF assms, of fr_one] assms(1) that by (simp add: eq_eval_def ensure_def del: bind_res_Inr)

section \<open>The properties\<close>

text \<open>What the constructor accepts is well formed, its cells being canonical.\<close>

lemma div_ceil_bound: "n \<le> 64 * div_ceil n 64"
  unfolding div_ceil_def by (split if_split) presburger

lemma mp_new_ok:
  assumes "(mp_new b :: 'e fault + multilinear_poly) = Inr p" "\<forall>v. b = FrB v \<longrightarrow> list_all fr_ok v"
  shows "mp_ok p" "mp_backing p = b" "2 ^ mp_num_vars p = entries b"
proof -
  have p: "p = \<lparr>mp_backing = b, mp_num_vars = trailing_zeros (entries b)\<rparr>" "is_power_of_two (entries b)"
    using assms(1) by (auto simp: mp_new_def Let_def)
  have "backing_ok b"
  proof (cases b)
    case (U1 limbs n)
    have "length limbs = div_ceil n 64"
      using assms(1) by (auto simp: U1 mp_new_def Let_def)
    then show ?thesis
      using div_ceil_bound [of n] by (simp add: U1)
  qed (use assms(2) in simp_all)
  then show "mp_ok p" "mp_backing p = b" "2 ^ mp_num_vars p = entries b"
    using p by (simp_all add: mp_ok_def mp_len_def is_power_of_two_def)
qed

text \<open>C37: evaluating a polynomial is its multilinear extension: on canonical cells and a point of as many
  coordinates as it has variables, \<open>evaluate\<close> returns the sum over the cube of the cells, each weighted by the
  product of \<open>r_j\<close> or \<open>1 - r_j\<close> as bit \<open>j\<close> of its index is set or not.\<close>

theorem evaluate_extends:
  assumes "(mp_new b :: 'e fault + multilinear_poly) = Inr p" "\<forall>v. b = FrB v \<longrightarrow> list_all fr_ok v"
    "length point = mp_num_vars p" "list_all fr_ok point"
  shows "\<exists>x. (mp_evaluate point p :: 'e fault + fr) = Inr x \<and> fr_ok x \<and>
    el x = (\<Sum>y < entries b. weight (map el point) y * el (entry_value b y))"
proof -
  note ok = mp_new_ok [OF assms(1,2)]
  obtain x where x: "(mp_evaluate point p :: 'e fault + fr) = Inr x" "fr_ok x" "el x = extension (map el point) (mp_table p)"
    using mp_evaluate_value [OF ok(1) assms(3,4)] by blast
  have "mp_table p ! y = el (entry_value b y)" if "y < entries b" for y
    using that ok(2,3) by (simp add: mp_table_def mp_values_def mp_len_def)
  then have "el x = (\<Sum>y < entries b. weight (map el point) y * el (entry_value b y))"
    using x(3) assms(3) ok(3) by (simp add: extension_def)
  then show ?thesis
    using x(1,2) by blast
qed

theorem evaluate_extends_witness:
  "\<exists>x. bind_res (mp_new (U8 [3, 5])) (mp_evaluate [fr_one]) = (Inr x :: unit fault + fr) \<and> el x = el (from_u64 5)"
proof -
  let ?p = "\<lparr>mp_backing = U8 [3, 5], mp_num_vars = 1\<rparr>"
  have "trailing_zeros 2 = 1"
    by (simp add: trailing_zeros.simps)
  then have new: "(mp_new (U8 [3, 5]) :: unit fault + multilinear_poly) = Inr ?p"
    by (simp add: mp_new_def is_power_of_two_def ensure_def Let_def numeral_2_eq_2)
  obtain x where "(mp_evaluate [fr_one] ?p :: unit fault + fr) = Inr x"
    "el x = (\<Sum>y < entries (U8 [3, 5]). weight (map el [fr_one]) y * el (entry_value (U8 [3, 5]) y))"
    using evaluate_extends [OF new, of "[fr_one]"] by (auto simp: fr_consts)
  moreover have "(\<Sum>y < entries (U8 [3, 5]). weight (map el [fr_one]) y * el (entry_value (U8 [3, 5]) y)) = el (from_u64 5)"
    by (simp add: lessThan_nat_numeral)
  ultimately show ?thesis
    by (intro exI [of _ x]) (simp only: new bind_res.simps)
qed

text \<open>C38: binding is evaluating one variable at a time: after \<open>bind\<close> at \<open>r\<close>, the polynomial evaluates at the
  other coordinates to what it did at the whole point, and its cells stay canonical.\<close>

theorem bind_evaluates:
  assumes "mp_ok p" "mp_num_vars p = Suc (length rs)" "fr_ok r" "list_all fr_ok rs"
  shows "\<exists>q. (mp_bind r p :: 'e fault + multilinear_poly) = Inr q \<and> mp_ok q \<and> mp_num_vars q = length rs \<and>
    (mp_evaluate rs q :: 'e fault + fr) = mp_evaluate (r # rs) p"
proof -
  obtain q where q: "(mp_bind r p :: 'e fault + multilinear_poly) = Inr q" "mp_ok q" "mp_num_vars q = length rs"
    "mp_table q = halve (el r) (mp_table p)"
    using mp_bind_value [OF assms(1) _ assms(3), where ?'e = 'e] assms(2) by auto
  obtain x where x: "(mp_evaluate rs q :: 'e fault + fr) = Inr x" "fr_ok x" "el x = extension (map el rs) (mp_table q)"
    using mp_evaluate_value [OF q(2) q(3) [symmetric] assms(4)] by blast
  obtain y where y: "(mp_evaluate (r # rs) p :: 'e fault + fr) = Inr y" "fr_ok y" "el y = extension (map el (r # rs)) (mp_table p)"
    by (rule mp_evaluate_value [OF assms(1), of "r # rs"]) (use assms(2-4) in simp_all)
  have "el x = el y"
    using x(3) y(3) q(4) assms(2) by (simp add: extension_Cons)
  then have "x = y"
    using el_inject [OF x(2) y(2)] by simp
  then show ?thesis
    using q x(1) y(1) by (intro exI [of _ q]) simp
qed

theorem bind_evaluates_witness:
  "\<exists>q. (mp_bind fr_one \<lparr>mp_backing = U8 [3, 5], mp_num_vars = 1\<rparr> :: unit fault + multilinear_poly) = Inr q \<and>
    (mp_evaluate [] q :: unit fault + fr) = mp_evaluate [fr_one] \<lparr>mp_backing = U8 [3, 5], mp_num_vars = 1\<rparr>"
  using bind_evaluates [of "\<lparr>mp_backing = U8 [3, 5], mp_num_vars = 1\<rparr>" "[]" fr_one, where ?'e = unit]
  by (auto simp: mp_ok_def mp_len_def fr_consts)

text \<open>C39: the two equality polynomials agree: the table \<open>eq_table\<close> builds, evaluated at a point, is what
  \<open>eq_eval\<close> computes there from its product.\<close>

theorem eq_table_evaluates:
  assumes "length r = length y" "list_all fr_ok r" "list_all fr_ok y"
  shows "\<exists>t x. (eq_table r :: 'e fault + fr list) = Inr t \<and> length t = 2 ^ length r \<and>
    (\<forall>i < 2 ^ length r. el (t ! i) = weight (map el r) i) \<and>
    (mp_evaluate y \<lparr>mp_backing = FrB t, mp_num_vars = length r\<rparr> :: 'e fault + fr) = Inr x \<and> (eq_eval r y :: 'e fault + fr) = Inr x"
proof -
  obtain t where t: "(eq_table r :: 'e fault + fr list) = Inr t" "list_all fr_ok t" "length t = 2 ^ length r"
    "map el t = map (weight (map el r)) [0..<2 ^ length r]"
    using eq_table_value [OF assms(2)] by blast
  let ?p = "\<lparr>mp_backing = FrB t, mp_num_vars = length r\<rparr>"
  have cells: "mp_values ?p = t"
    using t(3) by (auto simp: mp_values_def mp_len_def intro: nth_equalityI)
  have "mp_ok ?p"
    using t(2,3) by (simp add: mp_ok_def mp_len_def)
  then obtain x where x: "(mp_evaluate y ?p :: 'e fault + fr) = Inr x" "fr_ok x" "el x = extension (map el y) (mp_table ?p)"
    by (rule mp_evaluate_value [of ?p y]) (use assms in simp_all)
  obtain z where z: "(eq_eval r y :: 'e fault + fr) = Inr z" "fr_ok z" "el z = eq_product (map el r) (map el y)"
    using eq_eval_value [OF assms] by blast
  have "el x = el z"
    using x(3) z(3) t(4) extension_weights [of "map el r" "map el y"] assms(1)
    unfolding mp_table_def cells by simp
  then have "x = z"
    using el_inject [OF x(2) z(2)] by simp
  moreover have "el (t ! i) = weight (map el r) i" if "i < 2 ^ length r" for i
    using arg_cong [OF t(4), of "\<lambda>xs. xs ! i"] that t(3) by simp
  ultimately show ?thesis
    using t(1,3) x(1) z(1) by (intro exI [of _ t] exI [of _ x]) simp
qed

theorem eq_table_evaluates_witness:
  "\<exists>t x. (eq_table [fr_zero] :: unit fault + fr list) = Inr t \<and> length t = 2 \<and> (eq_eval [fr_zero] [fr_one] :: unit fault + fr) = Inr x"
  using eq_table_evaluates [of "[fr_zero]" "[fr_one]", where ?'e = unit] by (auto simp: fr_consts)

end
