(* ===== verification/Sumcheck.thy ===== *)
theory Sumcheck
  imports Multilinear Transcript Outcome
begin

text \<open>
  The gate-based zerocheck of \<open>crates/sumcheck/src/lib.rs\<close>: gates, the witness digest, the prover's rounds and
  the verifier, and the completeness of the protocol.
\<close>

unbundle bit_operations_syntax

section \<open>Gates\<close>

datatype poly_address = PolyAddress u32

record gate_term =
  term_coef :: fr
  term_a :: nat
  term_b :: "nat option"

datatype gate_error = NoInputs | DuplicateInput nat | TermIndexOutOfRange nat nat

record gate =
  gate_inputs :: "poly_address list"
  gate_terms :: "gate_term list"

text \<open>The first input declared before, and the first factor that names no input.\<close>

definition duplicate_input :: "poly_address list \<Rightarrow> nat option" where
  "duplicate_input inputs = find (\<lambda>i. inputs ! i \<in> set (take i inputs)) [0..<length inputs]"

definition term_factors :: "gate_term \<Rightarrow> nat list" where
  "term_factors t = term_a t # (case term_b t of None \<Rightarrow> [] | Some b \<Rightarrow> [b])"

fun stray_factor :: "nat \<Rightarrow> nat \<Rightarrow> gate_term list \<Rightarrow> (nat \<times> nat) option" where
  "stray_factor arity t [] = None"
| "stray_factor arity t (x # xs) =
     (case find (\<lambda>i. i \<ge> arity) (term_factors x) of
        Some i \<Rightarrow> Some (t, i)
      | None \<Rightarrow> stray_factor arity (t + 1) xs)"

definition gate_new :: "poly_address list \<Rightarrow> gate_term list \<Rightarrow> gate_error + gate" where
  "gate_new inputs terms =
     (if inputs = [] then Inl NoInputs
      else case duplicate_input inputs of
        Some i \<Rightarrow> Inl (DuplicateInput i)
      | None \<Rightarrow>
          (case stray_factor (length inputs) 0 terms of
             Some (t, i) \<Rightarrow> Inl (TermIndexOutOfRange t i)
           | None \<Rightarrow> Inr \<lparr>gate_inputs = inputs, gate_terms = terms\<rparr>))"

definition gate_arity :: "gate \<Rightarrow> nat" where
  "gate_arity g = length (gate_inputs g)"

fun add_terms :: "gate_term list \<Rightarrow> fr list \<Rightarrow> fr \<Rightarrow> 'e fault + fr" where
  "add_terms [] vs acc = Inr acc"
| "add_terms (t # ts) vs acc =
     bind_res (idx vs (term_a t)) (\<lambda>a.
     let v = fr_mul (term_coef t) a in
     bind_res
       (case term_b t of
          None \<Rightarrow> Inr v
        | Some i \<Rightarrow> bind_res (idx vs i) (\<lambda>b. Inr (fr_mul v b))) (\<lambda>v.
     add_terms ts vs (fr_add acc v)))"

definition gate_evaluate :: "gate \<Rightarrow> fr list \<Rightarrow> 'e fault + fr" where
  "gate_evaluate g vs = bind_res (ensure (length vs = length (gate_inputs g))) (\<lambda>_. add_terms (gate_terms g) vs fr_zero)"

section \<open>Proofs\<close>

text \<open>\<open>[Fr; 4]\<close>: four values, a cubic's coefficients in ascending order or its values at 0, 1, 2, 3.\<close>

type_synonym quad = "fr \<times> fr \<times> fr \<times> fr"

fun quad_list :: "quad \<Rightarrow> fr list" where
  "quad_list (a, b, c, d) = [a, b, c, d]"

fun quad_of :: "fr list \<Rightarrow> 'e fault + quad" where
  "quad_of [a, b, c, d] = Inr (a, b, c, d)"
| "quad_of _ = panic"

record sumcheck_proof =
  sp_rounds :: "quad list"
  sp_final_evals :: "fr list"

record sumcheck_claim =
  sk_point :: "fr list"
  sk_final_evals :: "fr list"

datatype sumcheck_error =
    RoundCountMismatch nat nat
  | FinalEvalCountMismatch nat nat
  | RoundSumMismatch nat
  | FinalEvalMismatch

abbreviation (input) tags_SUMCHECK_ROUND :: u64 where "tags_SUMCHECK_ROUND \<equiv> 4"
abbreviation (input) tags_SUMCHECK_CHALLENGE :: u64 where "tags_SUMCHECK_CHALLENGE \<equiv> 5"
abbreviation (input) tags_WITNESS_DIGEST :: u64 where "tags_WITNESS_DIGEST \<equiv> 8"
abbreviation (input) tags_SUMCHECK_FINAL_EVALS :: u64 where "tags_SUMCHECK_FINAL_EVALS \<equiv> 9"

section \<open>The witness digest\<close>

fun absorb_columns :: "multilinear_poly list \<Rightarrow> transcript \<Rightarrow> 'e fault + transcript" where
  "absorb_columns [] t = Inr t"
| "absorb_columns (c # cs) t =
     bind_res (map_res (mp_get c) [0..<mp_len c]) (\<lambda>cells.
     bind_res (append_scalars tags_WITNESS_DIGEST cells t) (\<lambda>t. absorb_columns cs t))"

definition witness_digest :: "multilinear_poly list \<Rightarrow> 'e fault + fr" where
  "witness_digest columns =
     (case columns of
        [] \<Rightarrow> panic
      | c # _ \<Rightarrow>
          let n_vars = mp_num_vars c in
          bind_res (ensure (\<forall>c \<in> set columns. mp_num_vars c = n_vars)) (\<lambda>_.
          bind_res (append_scalars tags_WITNESS_DIGEST
              [from_u64 (of_nat (length columns)), from_u64 (of_nat n_vars)] transcript_new) (\<lambda>sponge.
          bind_res (absorb_columns columns sponge) (\<lambda>sponge.
          bind_res (sample sponge) (\<lambda>(d, _). Inr d)))))"

definition absorb_witness_digest :: "fr \<Rightarrow> transcript \<Rightarrow> 'e fault + transcript" where
  "absorb_witness_digest digest t = append_scalar tags_WITNESS_DIGEST digest t"

section \<open>Cubics\<close>

definition interpolation_constants :: "'e fault + (fr \<times> fr \<times> fr)" where
  "interpolation_constants =
     (let inv = \<lambda>k. (case fr_inverse (from_u64 k) of None \<Rightarrow> panic | Some x \<Rightarrow> Inr x) in
      bind_res (inv 2) (\<lambda>inv2. bind_res (inv 3) (\<lambda>inv3. bind_res (inv 6) (\<lambda>inv6. Inr (inv2, inv3, inv6)))))"

fun interpolate_cubic :: "quad \<Rightarrow> fr \<times> fr \<times> fr \<Rightarrow> quad" where
  "interpolate_cubic (v0, v1, v2, v3) (inv2, inv3, inv6) =
     (let d1 = fr_sub v1 v0;
          d2 = fr_sub (fr_sub v2 v1) d1;
          d3 = fr_sub (fr_sub (fr_sub v3 v2) (fr_sub v2 v1)) d2 in
      (v0,
       fr_add (fr_sub d1 (fr_mul d2 inv2)) (fr_mul d3 inv3),
       fr_mul (fr_sub d2 d3) inv2,
       fr_mul d3 inv6))"

fun eval_cubic :: "quad \<Rightarrow> fr \<Rightarrow> fr" where
  "eval_cubic (g0, g1, g2, g3) x = fr_add (fr_mul (fr_add (fr_mul (fr_add (fr_mul g3 x) g2) x) g1) x) g0"

section \<open>The prover\<close>

text \<open>The walk along one pair's lines: the accumulators of \<open>X = 0, 1, 2, 3\<close>, then the rows of a round.\<close>

fun walk_line :: "gate \<Rightarrow> fr list \<Rightarrow> fr \<Rightarrow> fr \<Rightarrow> fr list \<Rightarrow> fr list \<Rightarrow> 'e fault + fr list" where
  "walk_line g [] eq_cur eq_step cur step = Inr []"
| "walk_line g (a # acc) eq_cur eq_step cur step =
     bind_res (gate_evaluate g cur) (\<lambda>v.
     bind_res (walk_line g acc (fr_add eq_cur eq_step) eq_step (map2 fr_add cur step) step) (\<lambda>rest.
     Inr (fr_add a (fr_mul eq_cur v) # rest)))"

definition pair_at :: "nat \<Rightarrow> multilinear_poly \<Rightarrow> 'e fault + (fr \<times> fr)" where
  "pair_at j p =
     bind_res (mp_get p (2 * j)) (\<lambda>lo. bind_res (mp_get p (2 * j + 1)) (\<lambda>hi. Inr (lo, fr_sub hi lo)))"

fun round_rows :: "gate \<Rightarrow> multilinear_poly list \<Rightarrow> multilinear_poly \<Rightarrow> nat list \<Rightarrow> fr list \<Rightarrow> 'e fault + fr list" where
  "round_rows g polys eq [] acc = Inr acc"
| "round_rows g polys eq (j # js) acc =
     bind_res (map_res (pair_at j) polys) (\<lambda>pairs.
     bind_res (pair_at j eq) (\<lambda>(eq_lo, eq_step).
     bind_res (walk_line g acc eq_lo eq_step (map fst pairs) (map snd pairs)) (\<lambda>acc.
     round_rows g polys eq js acc)))"

definition round_evaluations :: "gate \<Rightarrow> multilinear_poly list \<Rightarrow> multilinear_poly \<Rightarrow> 'e fault + quad" where
  "round_evaluations g polys eq =
     bind_res (round_rows g polys eq [0..<mp_len eq div 2] (replicate 4 fr_zero)) quad_of"

fun challenges :: "nat \<Rightarrow> transcript \<Rightarrow> 'e fault + (fr list \<times> transcript)" where
  "challenges 0 t = Inr ([], t)"
| "challenges (Suc n) t =
     bind_res (challenge_scalar tags_SUMCHECK_CHALLENGE t) (\<lambda>(c, t).
     bind_res (challenges n t) (\<lambda>(cs, t). Inr (c # cs, t)))"

fun prove_rounds :: "gate \<Rightarrow> fr \<times> fr \<times> fr \<Rightarrow> nat \<Rightarrow> multilinear_poly list \<Rightarrow> multilinear_poly \<Rightarrow> transcript \<Rightarrow>
    'e fault + (quad list \<times> multilinear_poly list \<times> transcript)" where
  "prove_rounds g constants 0 polys eq t = Inr ([], polys, t)"
| "prove_rounds g constants (Suc n) polys eq t =
     bind_res (round_evaluations g polys eq) (\<lambda>v.
     let coefficients = interpolate_cubic v constants in
     bind_res (append_scalars tags_SUMCHECK_ROUND (quad_list coefficients) t) (\<lambda>t.
     bind_res (challenge_scalar tags_SUMCHECK_CHALLENGE t) (\<lambda>(c, t).
     bind_res (map_res (mp_bind c) polys) (\<lambda>polys.
     bind_res (mp_bind c eq) (\<lambda>eq.
     bind_res (prove_rounds g constants n polys eq t) (\<lambda>(rounds, polys, t).
     Inr (coefficients # rounds, polys, t)))))))"

text \<open>\<open>prove_zerocheck\<close>, given the constants it derives.\<close>

definition prove_with :: "fr \<times> fr \<times> fr \<Rightarrow> gate \<Rightarrow> multilinear_poly list \<Rightarrow> transcript \<Rightarrow>
    'e fault + (sumcheck_proof \<times> multilinear_poly list \<times> transcript)" where
  "prove_with constants g polys t =
     bind_res (ensure (length polys = gate_arity g)) (\<lambda>_.
     bind_res (idx polys 0) (\<lambda>p0.
     let n = mp_num_vars p0 in
     bind_res (ensure (\<forall>p \<in> set polys. mp_num_vars p = n)) (\<lambda>_.
     bind_res (challenges n t) (\<lambda>(r, t).
     bind_res (eq_table r) (\<lambda>table.
     bind_res (mp_new (FrB table)) (\<lambda>eq.
     bind_res (prove_rounds g constants n polys eq t) (\<lambda>(rounds, polys, t).
     bind_res (map_res (\<lambda>p. mp_get p 0) polys) (\<lambda>final_evals.
     bind_res (append_scalars tags_SUMCHECK_FINAL_EVALS final_evals t) (\<lambda>t.
     Inr (\<lparr>sp_rounds = rounds, sp_final_evals = final_evals\<rparr>, polys, t))))))))))"

definition prove_zerocheck :: "gate \<Rightarrow> multilinear_poly list \<Rightarrow> transcript \<Rightarrow>
    'e fault + (sumcheck_proof \<times> multilinear_poly list \<times> transcript)" where
  "prove_zerocheck g polys t = bind_res interpolation_constants (\<lambda>constants. prove_with constants g polys t)"

section \<open>The verifier\<close>

fun verify_rounds :: "nat \<Rightarrow> quad list \<Rightarrow> fr \<Rightarrow> transcript \<Rightarrow> sumcheck_error fault + (fr \<times> fr list \<times> transcript)" where
  "verify_rounds round [] claim t = Inr (claim, [], t)"
| "verify_rounds round (g # gs) claim t =
     (if fr_add (eval_cubic g fr_zero) (eval_cubic g fr_one) \<noteq> claim then refuse (RoundSumMismatch round)
      else
        bind_res (append_scalars tags_SUMCHECK_ROUND (quad_list g) t) (\<lambda>t.
        bind_res (challenge_scalar tags_SUMCHECK_CHALLENGE t) (\<lambda>(c, t).
        bind_res (verify_rounds (round + 1) gs (eval_cubic g c) t) (\<lambda>(claim, point, t).
        Inr (claim, c # point, t)))))"

definition verify_zerocheck :: "gate \<Rightarrow> nat \<Rightarrow> sumcheck_proof \<Rightarrow> transcript \<Rightarrow>
    sumcheck_error fault + (sumcheck_claim \<times> transcript)" where
  "verify_zerocheck g n_vars pf t =
     (if length (sp_rounds pf) \<noteq> n_vars then refuse (RoundCountMismatch n_vars (length (sp_rounds pf)))
      else if length (sp_final_evals pf) \<noteq> gate_arity g then
        refuse (FinalEvalCountMismatch (gate_arity g) (length (sp_final_evals pf)))
      else
        bind_res (challenges n_vars t) (\<lambda>(r, t).
        bind_res (verify_rounds 0 (sp_rounds pf) fr_zero t) (\<lambda>(claim, point, t).
        bind_res (append_scalars tags_SUMCHECK_FINAL_EVALS (sp_final_evals pf) t) (\<lambda>t.
        bind_res (eq_eval r point) (\<lambda>e.
        bind_res (gate_evaluate g (sp_final_evals pf)) (\<lambda>v.
        if fr_mul e v \<noteq> claim then refuse FinalEvalMismatch
        else Inr (\<lparr>sk_point = point, sk_final_evals = sp_final_evals pf\<rparr>, t)))))))"

section \<open>A gate's value\<close>

definition term_value :: "gate_term \<Rightarrow> zp list \<Rightarrow> zp" where
  "term_value t vs = el (term_coef t) * vs ! term_a t * (case term_b t of None \<Rightarrow> 1 | Some b \<Rightarrow> vs ! b)"

definition gate_value :: "gate \<Rightarrow> zp list \<Rightarrow> zp" where
  "gate_value g vs = (\<Sum>t \<leftarrow> gate_terms g. term_value t vs)"

definition gate_ok :: "gate \<Rightarrow> bool" where
  "gate_ok g \<longleftrightarrow> 0 < gate_arity g \<and> (\<forall>t \<in> set (gate_terms g). fr_ok (term_coef t) \<and> (\<forall>i \<in> set (term_factors t). i < gate_arity g))"

lemma stray_factor_none: "stray_factor n k ts = None \<Longrightarrow> t \<in> set ts \<Longrightarrow> i \<in> set (term_factors t) \<Longrightarrow> i < n"
  by (induction n k ts rule: stray_factor.induct) (auto split: option.splits simp: find_None_iff not_le)

lemma gate_new_ok:
  assumes "gate_new inputs terms = Inr g" "\<forall>t \<in> set terms. fr_ok (term_coef t)"
  shows "gate_ok g" "gate_arity g = length inputs" "gate_terms g = terms"
  using assms stray_factor_none [of "length inputs" 0 terms]
  by (auto simp: gate_new_def gate_ok_def gate_arity_def split: if_splits option.splits)

lemma add_terms_value:
  "(\<forall>t \<in> set ts. fr_ok (term_coef t) \<and> (\<forall>i \<in> set (term_factors t). i < length vs)) \<Longrightarrow> list_all fr_ok vs \<Longrightarrow> fr_ok acc \<Longrightarrow>
    \<exists>x. (add_terms ts vs acc :: 'e fault + fr) = Inr x \<and> fr_ok x \<and> el x = el acc + (\<Sum>t \<leftarrow> ts. term_value t (map el vs))"
proof (induction ts arbitrary: acc)
  case (Cons t ts)
  have vs: "fr_ok (vs ! i)" if "i < length vs" for i
    using Cons.prems(2) that by (simp add: list_all_length)
  show ?case
  proof (cases "term_b t")
    case None
    then show ?thesis
      using Cons.IH [of "fr_add acc (fr_mul (term_coef t) (vs ! term_a t))"] Cons.prems vs
      by (auto simp: term_factors_def term_value_def idx_def add.assoc simp del: bind_res_Inr)
  next
    case (Some b)
    then show ?thesis
      using Cons.IH [of "fr_add acc (fr_mul (fr_mul (term_coef t) (vs ! term_a t)) (vs ! b))"] Cons.prems vs
      by (auto simp: term_factors_def term_value_def idx_def add.assoc simp del: bind_res_Inr)
  qed
qed simp

lemma gate_evaluate_value:
  assumes "gate_ok g" "length vs = gate_arity g" "list_all fr_ok vs"
  obtains x where "(gate_evaluate g vs :: 'e fault + fr) = Inr x" "fr_ok x" "el x = gate_value g (map el vs)"
  using add_terms_value [of "gate_terms g" vs fr_zero, where ?'e = 'e] assms that
  by (auto simp: gate_ok_def gate_evaluate_def gate_value_def gate_arity_def ensure_def fr_consts simp del: bind_res_Inr)

section \<open>A round's cubic\<close>

definition along :: "zp \<Rightarrow> zp list \<Rightarrow> zp list \<Rightarrow> zp list" where
  "along x cur step = map2 (\<lambda>c d. c + x * d) cur step"

lemma along_step: "length cur = length step \<Longrightarrow> along x (along 1 cur step) step = along (1 + x) cur step"
  by (rule nth_equalityI) (simp_all add: along_def algebra_simps)

lemma along_zero: "length cur = length step \<Longrightarrow> along 0 cur step = cur"
  by (rule nth_equalityI) (simp_all add: along_def)

lemma el_map2_add:
  "length xs = length ys \<Longrightarrow> list_all fr_ok xs \<Longrightarrow> list_all fr_ok ys \<Longrightarrow>
    map el (map2 fr_add xs ys) = along 1 (map el xs) (map el ys) \<and> list_all fr_ok (map2 fr_add xs ys)"
  by (auto simp: along_def list_all_length intro!: nth_equalityI)

lemma walk_line_value:
  assumes g: "gate_ok g" and step: "length step = gate_arity g" "list_all fr_ok step" "fr_ok s"
  shows "length cur = gate_arity g \<Longrightarrow> list_all fr_ok cur \<Longrightarrow> fr_ok e \<Longrightarrow> list_all fr_ok acc \<Longrightarrow>
    \<exists>w. (walk_line g acc e s cur step :: 'e fault + fr list) = Inr w \<and> list_all fr_ok w \<and> length w = length acc \<and>
      (\<forall>i < length acc. el (w ! i) = el (acc ! i) + (el e + of_nat i * el s) * gate_value g (along (of_nat i) (map el cur) (map el step)))"
proof (induction acc arbitrary: e cur)
  case (Cons a acc)
  obtain v where v: "(gate_evaluate g cur :: 'e fault + fr) = Inr v" "fr_ok v" "el v = gate_value g (map el cur)"
    using gate_evaluate_value [OF g Cons.prems(1,2)] by blast
  note next_cur = el_map2_add [of cur step]
  obtain w where w: "(walk_line g acc (fr_add e s) s (map2 fr_add cur step) step :: 'e fault + fr list) = Inr w"
    "list_all fr_ok w" "length w = length acc"
    "\<forall>i < length acc. el (w ! i) = el (acc ! i) + (el (fr_add e s) + of_nat i * el s) *
      gate_value g (along (of_nat i) (map el (map2 fr_add cur step)) (map el step))"
    using Cons.IH [of "map2 fr_add cur step" "fr_add e s"] Cons.prems step next_cur by auto
  have "el ((fr_add a (fr_mul e v) # w) ! i) = el ((a # acc) ! i) +
      (el e + of_nat i * el s) * gate_value g (along (of_nat i) (map el cur) (map el step))" if "i < length (a # acc)" for i
  proof (cases i)
    case 0
    then show ?thesis
      using Cons.prems v(2,3) step(1) by (simp add: along_zero)
  next
    case (Suc k)
    then show ?thesis
      using that w(4) Cons.prems(1-3) step next_cur
      by (simp add: along_step [where x = "of_nat k"] algebra_simps)
  qed
  then show ?case
    using v(1,2) w(1-3) Cons.prems by (intro exI [of _ "fr_add a (fr_mul e v) # w"]) (simp del: bind_res_Inr)
qed simp

text \<open>What a row adds at \<open>X\<close>, and a round's rows.\<close>

definition row_value :: "gate \<Rightarrow> zp list \<Rightarrow> zp list list \<Rightarrow> nat \<Rightarrow> zp \<Rightarrow> zp" where
  "row_value g e ts j x = line e j x * gate_value g (map (\<lambda>t. line t j x) ts)"

definition columns_ok :: "gate \<Rightarrow> nat \<Rightarrow> multilinear_poly list \<Rightarrow> bool" where
  "columns_ok g n polys \<longleftrightarrow> length polys = gate_arity g \<and> (\<forall>p \<in> set polys. mp_ok p \<and> mp_num_vars p = n)"

definition pair_value :: "nat \<Rightarrow> multilinear_poly \<Rightarrow> fr \<times> fr" where
  "pair_value j p = (mp_values p ! (2 * j), fr_sub (mp_values p ! (2 * j + 1)) (mp_values p ! (2 * j)))"

lemma pair_at_value:
  assumes "mp_ok p" "2 * j + 1 < mp_len p"
  shows "(pair_at j p :: 'e fault + (fr \<times> fr)) = Inr (pair_value j p)" "fr_ok (fst (pair_value j p))" "fr_ok (snd (pair_value j p))"
    "el (fst (pair_value j p)) + x * el (snd (pair_value j p)) = line (mp_table p) j x"
proof -
  have at: "2 * j < mp_len p" "Suc (2 * j) < mp_len p"
    using assms(2) by simp_all
  then have "fr_ok (mp_values p ! (2 * j))" "fr_ok (mp_values p ! Suc (2 * j))"
    using mp_values_ok(1) [OF assms(1)] by (simp_all add: list_all_length mp_values_ok(2))
  then show "(pair_at j p :: 'e fault + (fr \<times> fr)) = Inr (pair_value j p)" "fr_ok (fst (pair_value j p))" "fr_ok (snd (pair_value j p))"
    "el (fst (pair_value j p)) + x * el (snd (pair_value j p)) = line (mp_table p) j x"
    using mp_get_value [OF assms(1) at(1), where ?'e = 'e] mp_get_value [OF assms(1) at(2), where ?'e = 'e] at
    by (simp_all add: pair_at_def pair_value_def line_def mp_table_def mp_values_ok(2) del: bind_res_Inr)
qed

lemma round_rows_value:
  assumes "gate_ok g" "columns_ok g n polys" "mp_ok eq" "mp_num_vars eq = n"
  shows "\<forall>j \<in> set js. 2 * j + 1 < 2 ^ n \<Longrightarrow> list_all fr_ok acc \<Longrightarrow>
    \<exists>w. (round_rows g polys eq js acc :: 'e fault + fr list) = Inr w \<and> list_all fr_ok w \<and> length w = length acc \<and>
      (\<forall>i < length acc. el (w ! i) = el (acc ! i) + (\<Sum>j \<leftarrow> js. row_value g (mp_table eq) (map mp_table polys) j (of_nat i)))"
proof (induction js arbitrary: acc)
  case (Cons j js)
  have at: "2 * j + 1 < mp_len eq" "\<And>p. p \<in> set polys \<Longrightarrow> mp_ok p \<and> 2 * j + 1 < mp_len p"
    using Cons.prems(1) assms by (auto simp: mp_len_def columns_ok_def)
  let ?cur = "map fst (map (pair_value j) polys)" and ?step = "map snd (map (pair_value j) polys)"
  have pairs: "(map_res (pair_at j) polys :: 'e fault + _) = Inr (map (pair_value j) polys)"
    using at(2) pair_at_value(1) by (intro map_res_value) blast
  note eq = pair_at_value [OF assms(3) at(1)]
  have ok: "list_all fr_ok ?cur" "list_all fr_ok ?step"
    using at(2) pair_at_value(2,3) by (auto simp: list_all_iff)
  obtain w where w: "(walk_line g acc (fst (pair_value j eq)) (snd (pair_value j eq)) ?cur ?step :: 'e fault + fr list) = Inr w"
    "list_all fr_ok w" "length w = length acc"
    "\<forall>i < length acc. el (w ! i) = el (acc ! i) + (el (fst (pair_value j eq)) + of_nat i * el (snd (pair_value j eq))) *
       gate_value g (along (of_nat i) (map el ?cur) (map el ?step))"
    using walk_line_value [OF assms(1) _ ok(2) eq(3) _ ok(1) eq(2) Cons.prems(2), where ?'e = 'e] assms(2)
    by (auto simp: columns_ok_def)
  have "along x (map el ?cur) (map el ?step) = map (\<lambda>t. line t j x) (map mp_table polys)" for x
    using at(2) pair_at_value(4) by (auto simp: along_def intro!: nth_equalityI)
  then have row: "el (w ! i) = el (acc ! i) + row_value g (mp_table eq) (map mp_table polys) j (of_nat i)" if "i < length acc" for i
    using w(4) that eq(4) by (simp add: row_value_def)
  obtain u where u: "(round_rows g polys eq js w :: 'e fault + fr list) = Inr u" "list_all fr_ok u" "length u = length w"
    "\<forall>i < length w. el (u ! i) = el (w ! i) + (\<Sum>j \<leftarrow> js. row_value g (mp_table eq) (map mp_table polys) j (of_nat i))"
    using Cons.IH [OF _ w(2)] Cons.prems(1) by auto
  have "(round_rows g polys eq (j # js) acc :: 'e fault + fr list) = Inr u"
    using w(1) u(1) by (simp add: pairs eq(1) split_beta del: bind_res_Inr)
  then show ?case
    using u(2-4) w(3) row by (auto simp: add.assoc)
qed simp

section \<open>Interpolation\<close>

definition quadratic :: "(zp \<Rightarrow> zp) \<Rightarrow> bool" where
  "quadratic f \<longleftrightarrow> (\<exists>a b c. \<forall>x. f x = a + b * x + c * x * x)"

definition cubic :: "(zp \<Rightarrow> zp) \<Rightarrow> bool" where
  "cubic f \<longleftrightarrow> (\<exists>a b c d. \<forall>x. f x = a + b * x + c * x * x + d * x * x * x)"

lemma quadraticI: "(\<And>x. f x = a + b * x + c * x * x) \<Longrightarrow> quadratic f"
  unfolding quadratic_def by blast

lemma cubicI: "(\<And>x. f x = a + b * x + c * x * x + d * x * x * x) \<Longrightarrow> cubic f"
  unfolding cubic_def by blast

lemma quadratic_add:
  assumes "quadratic f" "quadratic h"
  shows "quadratic (\<lambda>x. f x + h x)"
proof -
  obtain a b c a' b' c' where "\<And>x. f x = a + b * x + c * x * x" "\<And>x. h x = a' + b' * x + c' * x * x"
    using assms unfolding quadratic_def by metis
  then show ?thesis
    by (intro quadraticI [of _ "a + a'" "b + b'" "c + c'"]) (simp add: algebra_simps)
qed

lemma cubic_add:
  assumes "cubic f" "cubic h"
  shows "cubic (\<lambda>x. f x + h x)"
proof -
  obtain a b c d a' b' c' d' where "\<And>x. f x = a + b * x + c * x * x + d * x * x * x"
    "\<And>x. h x = a' + b' * x + c' * x * x + d' * x * x * x"
    using assms unfolding cubic_def by metis
  then show ?thesis
    by (intro cubicI [of _ "a + a'" "b + b'" "c + c'" "d + d'"]) (simp add: algebra_simps)
qed

lemma line_times_quadratic: "quadratic f \<Longrightarrow> cubic (\<lambda>x. line t j x * f x)"
proof -
  assume "quadratic f"
  then obtain a b c where f: "\<And>x. f x = a + b * x + c * x * x"
    unfolding quadratic_def by blast
  let ?l = "t ! (2 * j)" and ?s = "t ! (2 * j + 1) - t ! (2 * j)"
  show ?thesis
    by (rule cubicI [of _ "?l * a" "?l * b + ?s * a" "?l * c + ?s * b" "?s * c"]) (simp add: line_def f algebra_simps)
qed

lemma term_quadratic:
  assumes "\<forall>i \<in> set (term_factors t). i < length ts"
  shows "quadratic (\<lambda>x. term_value t (map (\<lambda>u. line u j x) ts))"
proof -
  define lo step where "lo = (\<lambda>i. ts ! i ! (2 * j))" and "step = (\<lambda>i. ts ! i ! (2 * j + 1) - ts ! i ! (2 * j))"
  have at: "line (ts ! i) j x = lo i + x * step i" for i x
    by (simp add: line_def lo_def step_def)
  let ?c = "el (term_coef t)" and ?a = "term_a t"
  show ?thesis
  proof (cases "term_b t")
    case None
    then show ?thesis
      using assms
      by (intro quadraticI [of _ "?c * lo ?a" "?c * step ?a" 0]) (simp add: term_value_def term_factors_def at algebra_simps)
  next
    case (Some b)
    then show ?thesis
      using assms
      by (intro quadraticI [of _ "?c * lo ?a * lo b" "?c * (lo ?a * step b + step ?a * lo b)" "?c * step ?a * step b"])
        (simp add: term_value_def term_factors_def at algebra_simps)
  qed
qed

lemma terms_quadratic:
  "\<forall>t \<in> set terms. \<forall>i \<in> set (term_factors t). i < length ts \<Longrightarrow>
    quadratic (\<lambda>x. \<Sum>t \<leftarrow> terms. term_value t (map (\<lambda>u. line u j x) ts))"
proof (induction terms)
  case (Cons t terms)
  then show ?case
    using quadratic_add [OF term_quadratic [of t ts j]] by simp
qed (simp add: quadraticI [of _ 0 0 0])

text \<open>The round's polynomial: the sum of its rows.\<close>

definition round_value :: "gate \<Rightarrow> zp list \<Rightarrow> zp list list \<Rightarrow> zp \<Rightarrow> zp" where
  "round_value g e ts x = (\<Sum>j < length e div 2. row_value g e ts j x)"

lemma round_cubic:
  assumes "gate_ok g" "length ts = gate_arity g"
  shows "cubic (round_value g e ts)"
proof -
  have row: "cubic (row_value g e ts j)" for j
    unfolding row_value_def gate_value_def
    by (rule line_times_quadratic, rule terms_quadratic) (use assms in \<open>auto simp: gate_ok_def\<close>)
  have "cubic (\<lambda>x. \<Sum>j < n. row_value g e ts j x)" for n
  proof (induction n)
    case (Suc n)
    then show ?case
      using cubic_add [OF Suc row] by simp
  qed (simp add: cubicI [of _ 0 0 0 0])
  then show ?thesis
    by (simp add: round_value_def [abs_def])
qed

text \<open>The constants the interpolation divides by.\<close>

definition constants_ok :: "fr \<times> fr \<times> fr \<Rightarrow> bool" where
  "constants_ok = (\<lambda>(inv2, inv3, inv6). fr_ok inv2 \<and> fr_ok inv3 \<and> fr_ok inv6 \<and>
     canon inv2 * 2 mod fr_p = 1 \<and> canon inv3 * 3 mod fr_p = 1 \<and> canon inv6 * 6 mod fr_p = 1)"

lemma inverse_el: "canon i * n mod fr_p = 1 \<Longrightarrow> el i * of_nat n = 1"
proof -
  assume "canon i * n mod fr_p = 1"
  then have "(of_nat (canon i * n mod fr_p) :: zp) = 1"
    by simp
  then show ?thesis
    by (simp add: of_nat_mod_p el_def)
qed

lemma newton_cubic:
  fixes a b c d :: zp
  assumes f: "\<And>x. f x = a + b * x + c * x * x + d * x * x * x" and inv: "i2 * 2 = 1" "i3 * 3 = 1" "i6 * 6 = 1"
  defines "d1 \<equiv> f 1 - f 0" and "d2 \<equiv> f 2 - f 1 - (f 1 - f 0)"
    and "d3 \<equiv> f 3 - f 2 - (f 2 - f 1) - (f 2 - f 1 - (f 1 - f 0))"
  shows "f 0 = a" "d1 - d2 * i2 + d3 * i3 = b" "(d2 - d3) * i2 = c" "d3 * i6 = d"
proof -
  have d: "d1 = b + c + d" "d2 = (c + 3 * d) * 2" "d3 = d * 6"
    by (simp_all add: d1_def d2_def d3_def f algebra_simps)
  have "d2 * i2 = (c + 3 * d) * (i2 * 2)" "d3 * i3 = d * 2 * (i3 * 3)" "(d2 - d3) * i2 = c * (i2 * 2)" "d3 * i6 = d * (i6 * 6)"
    by (simp_all add: d algebra_simps)
  then show "d1 - d2 * i2 + d3 * i3 = b" "(d2 - d3) * i2 = c" "d3 * i6 = d"
    by (simp_all add: inv d(1))
  show "f 0 = a"
    by (simp add: f)
qed

fun quad_all :: "(fr \<Rightarrow> bool) \<Rightarrow> quad \<Rightarrow> bool" where
  "quad_all P (a, b, c, d) \<longleftrightarrow> P a \<and> P b \<and> P c \<and> P d"

lemma interpolate_value:
  assumes "constants_ok cs" "quad_all fr_ok (v0, v1, v2, v3)" "cubic f"
    "el v0 = f 0" "el v1 = f 1" "el v2 = f 2" "el v3 = f 3"
  shows "quad_all fr_ok (interpolate_cubic (v0, v1, v2, v3) cs)"
    "fr_ok x \<Longrightarrow> fr_ok (eval_cubic (interpolate_cubic (v0, v1, v2, v3) cs) x) \<and>
      el (eval_cubic (interpolate_cubic (v0, v1, v2, v3) cs) x) = f (el x)"
proof -
  obtain i2 i3 i6 where cs: "cs = (i2, i3, i6)"
    by (cases cs)
  have inv: "fr_ok i2" "fr_ok i3" "fr_ok i6" "el i2 * 2 = 1" "el i3 * 3 = 1" "el i6 * 6 = 1"
    using assms(1) inverse_el [of i2 2] inverse_el [of i3 3] inverse_el [of i6 6] by (auto simp: cs constants_ok_def)
  obtain a b c d where f: "\<And>x. f x = a + b * x + c * x * x + d * x * x * x"
    using assms(3) unfolding cubic_def by blast
  note newton = newton_cubic [OF f inv(4-6)]
  obtain g0 g1 g2 g3 where g: "interpolate_cubic (v0, v1, v2, v3) cs = (g0, g1, g2, g3)"
    using prod_cases4 by blast
  have ok: "fr_ok g0" "fr_ok g1" "fr_ok g2" "fr_ok g3"
    using assms(2) inv(1-3) g by (auto simp: cs Let_def)
  then show "quad_all fr_ok (interpolate_cubic (v0, v1, v2, v3) cs)"
    by (simp add: g)
  have "el g0 = a" "el g1 = b" "el g2 = c" "el g3 = d"
    using assms(2,4-7) inv(1-3) g newton by (auto simp: cs Let_def)
  then show "fr_ok (eval_cubic (interpolate_cubic (v0, v1, v2, v3) cs) x) \<and>
      el (eval_cubic (interpolate_cubic (v0, v1, v2, v3) cs) x) = f (el x)" if "fr_ok x"
    using ok that by (simp add: g f algebra_simps)
qed

section \<open>The sum over the cube\<close>

definition cube_sum :: "gate \<Rightarrow> zp list \<Rightarrow> zp list list \<Rightarrow> zp" where
  "cube_sum g e ts = (\<Sum>j < length e. e ! j * gate_value g (map (\<lambda>t. t ! j) ts))"

lemma line_ends: "line t j 0 = t ! (2 * j)" "line t j 1 = t ! (2 * j + 1)"
  by (simp_all add: line_def)

lemma round_ends: "length e = 2 * h \<Longrightarrow> round_value g e ts 0 + round_value g e ts 1 = cube_sum g e ts"
  by (simp add: round_value_def row_value_def cube_sum_def sum_pairs sum.distrib [symmetric] line_ends cong: map_cong)

lemma round_bind:
  assumes "\<forall>t \<in> set ts. length t = length e"
  shows "round_value g e ts x = cube_sum g (halve x e) (map (halve x) ts)"
proof -
  have row: "map (\<lambda>t. line t j x) ts = map (\<lambda>t. t ! j) (map (halve x) ts)" if "j < length e div 2" for j
    using assms that by simp
  show ?thesis
    unfolding round_value_def row_value_def cube_sum_def length_halve
    by (rule sum.cong [OF refl]) (simp only: lessThan_iff row halve_nth)
qed

lemma round_evaluations_value:
  assumes "gate_ok g" "columns_ok g n polys" "mp_ok eq" "mp_num_vars eq = n" "0 < n"
  defines "f \<equiv> round_value g (mp_table eq) (map mp_table polys)"
  obtains v0 v1 v2 v3 where "(round_evaluations g polys eq :: 'e fault + quad) = Inr (v0, v1, v2, v3)"
    "quad_all fr_ok (v0, v1, v2, v3)" "el v0 = f 0" "el v1 = f 1" "el v2 = f 2" "el v3 = f 3"
proof -
  let ?js = "[0..<mp_len eq div 2]"
  have even: "2 * (2 ^ n div 2) = (2 ^ n :: nat)"
    using assms(5) by (cases n) simp_all
  then have "\<forall>j \<in> set ?js. 2 * j + 1 < 2 ^ n"
    using assms(4) by (auto simp: mp_len_def)
  then obtain w where w: "(round_rows g polys eq ?js (replicate 4 fr_zero) :: 'e fault + fr list) = Inr w" "list_all fr_ok w" "length w = 4"
    "\<forall>i < 4. el (w ! i) = el (replicate 4 fr_zero ! i) + (\<Sum>j \<leftarrow> ?js. row_value g (mp_table eq) (map mp_table polys) j (of_nat i))"
    using round_rows_value [OF assms(1-4), of ?js "replicate 4 fr_zero", where ?'e = 'e] by (auto simp: fr_consts list_all_length)
  have rows: "el (w ! i) = f (of_nat i)" if "i < 4" for i
    using w(4) that by (simp add: f_def round_value_def mp_len_def interv_sum_list_conv_sum_set_nat atLeast0LessThan)
  obtain v0 v1 v2 v3 where v: "w = [v0, v1, v2, v3]"
    using w(3) by (auto simp: numeral_eq_Suc length_Suc_conv)
  then show thesis
    using that [of v0 v1 v2 v3] w(1,2) rows [of 0] rows [of 1] rows [of 2] rows [of 3]
    by (simp add: round_evaluations_def del: bind_res_Inr)
qed

section \<open>Prover and verifier in step\<close>

lemma challenges_value:
  "transcript_ok t \<Longrightarrow> \<exists>cs t'. (challenges n t :: 'e fault + _) = Inr (cs, t') \<and> length cs = n \<and> list_all fr_ok cs \<and> transcript_ok t'"
proof (induction n arbitrary: t)
  case (Suc n)
  obtain c t1 where "(challenge_scalar tags_SUMCHECK_CHALLENGE t :: 'e fault + _) = Inr (c, t1)" "transcript_ok t1" "fr_ok c"
    using challenge_scalar_refines [OF Suc.prems] by metis
  then show ?case
    using Suc.IH [of t1] by (auto simp del: bind_res_Inr)
qed simp

text \<open>Binding every column.\<close>

definition bound :: "fr \<Rightarrow> multilinear_poly \<Rightarrow> multilinear_poly" where
  "bound r p = \<lparr>mp_backing = FrB (halved r (mp_values p)), mp_num_vars = mp_num_vars p - 1\<rparr>"

lemma bound_value:
  assumes "mp_ok p" "0 < mp_num_vars p" "fr_ok r"
  shows "(mp_bind r p :: 'e fault + multilinear_poly) = Inr (bound r p)" "mp_ok (bound r p)"
    "mp_num_vars (bound r p) = mp_num_vars p - 1" "mp_table (bound r p) = halve (el r) (mp_table p)"
proof -
  obtain q where q: "(mp_bind r p :: 'e fault + multilinear_poly) = Inr q" "mp_ok q" "mp_num_vars q = mp_num_vars p - 1"
    "mp_values q = halved r (mp_values p)" "mp_table q = halve (el r) (mp_table p)"
    by (rule mp_bind_value [OF assms])
  obtain v where v: "mp_backing q = FrB v"
    using q(1) by (auto simp: mp_bind_def Let_def)
  then have "mp_values q = v"
    using q(2) by (auto simp: mp_values_def mp_ok_def intro: nth_equalityI)
  then have "q = bound r p"
    using v q(3,4) by (cases q) (simp add: bound_def)
  then show "(mp_bind r p :: 'e fault + multilinear_poly) = Inr (bound r p)" "mp_ok (bound r p)"
    "mp_num_vars (bound r p) = mp_num_vars p - 1" "mp_table (bound r p) = halve (el r) (mp_table p)"
    using q by simp_all
qed

lemma columns_bound:
  assumes "columns_ok g (Suc n) polys" "fr_ok c"
  shows "(map_res (mp_bind c) polys :: 'e fault + _) = Inr (map (bound c) polys)" "columns_ok g n (map (bound c) polys)"
    "map mp_table (map (bound c) polys) = map (halve (el c)) (map mp_table polys)"
  using assms bound_value(1) [of _ c, where ?'e = 'e] bound_value(2-) [of _ c] by (auto simp: columns_ok_def intro!: map_res_value)

lemma round_complete:
  assumes g: "gate_ok g" and cs: "constants_ok cs" and cols: "columns_ok g (Suc n) polys" and eq: "mp_ok eq" "mp_num_vars eq = Suc n"
    and t: "transcript_ok t" and claim: "fr_ok claim" "el claim = cube_sum g (mp_table eq) (map mp_table polys)"
  obtains co c t2 where
    "(prove_rounds g cs (Suc n) polys eq t :: sumcheck_error fault + _) =
       bind_res (prove_rounds g cs n (map (bound c) polys) (bound c eq) t2) (\<lambda>(rounds, polys, t). Inr (co # rounds, polys, t))"
    "\<And>gs. verify_rounds k (co # gs) claim t =
       bind_res (verify_rounds (k + 1) gs (eval_cubic co c) t2) (\<lambda>(claim, point, t). Inr (claim, c # point, t))"
    "transcript_ok t2" "fr_ok c" "fr_ok (eval_cubic co c)"
    "el (eval_cubic co c) = cube_sum g (mp_table (bound c eq)) (map mp_table (map (bound c) polys))"
proof -
  let ?e = "mp_table eq" and ?ts = "map mp_table polys"
  let ?f = "round_value g ?e ?ts"
  have lens: "\<forall>t \<in> set ?ts. length t = length ?e" "length ?ts = gate_arity g" "length ?e = 2 * 2 ^ n"
    using cols eq(2) by (auto simp: columns_ok_def)
  obtain v0 v1 v2 v3 where v: "(round_evaluations g polys eq :: sumcheck_error fault + quad) = Inr (v0, v1, v2, v3)"
    "quad_all fr_ok (v0, v1, v2, v3)" "el v0 = ?f 0" "el v1 = ?f 1" "el v2 = ?f 2" "el v3 = ?f 3"
    by (rule round_evaluations_value [OF g cols eq]) simp_all
  define co where "co = interpolate_cubic (v0, v1, v2, v3) cs"
  note inter = interpolate_value [OF cs v(2) round_cubic [OF g lens(2), of ?e] v(3-6), folded co_def]
  have "list_all fr_ok (quad_list co)"
    using inter(1) by (cases co) simp
  then obtain t1 where t1: "(append_scalars tags_SUMCHECK_ROUND (quad_list co) t :: sumcheck_error fault + _) = Inr t1" "transcript_ok t1"
    using append_scalars_refines [OF t] by metis
  obtain c t2 where t2: "(challenge_scalar tags_SUMCHECK_CHALLENGE t1 :: sumcheck_error fault + _) = Inr (c, t2)" "transcript_ok t2" "fr_ok c"
    using challenge_scalar_refines [OF t1(2)] by metis
  have vars: "0 < mp_num_vars eq"
    using eq(2) by simp
  show thesis
  proof (rule that)
    show "(prove_rounds g cs (Suc n) polys eq t :: sumcheck_error fault + _) =
       bind_res (prove_rounds g cs n (map (bound c) polys) (bound c eq) t2) (\<lambda>(rounds, polys, t). Inr (co # rounds, polys, t))"
      using v(1) t1(1) t2(1) columns_bound(1) [OF cols t2(3), where ?'e = sumcheck_error] bound_value(1) [OF eq(1) vars t2(3), where ?'e = sumcheck_error]
      by (simp add: co_def [symmetric] Let_def del: bind_res_Inr)
    have "fr_add (eval_cubic co fr_zero) (eval_cubic co fr_one) = claim"
      using inter(2) [of fr_zero] inter(2) [of fr_one] claim round_ends [OF lens(3), of g ?ts]
        el_inject [of "fr_add (eval_cubic co fr_zero) (eval_cubic co fr_one)" claim] by simp
    then show "verify_rounds k (co # gs) claim t =
       bind_res (verify_rounds (k + 1) gs (eval_cubic co c) t2) (\<lambda>(claim, point, t). Inr (claim, c # point, t))" for gs
      using t1(1) t2(1) by (simp del: bind_res_Inr)
    show "transcript_ok t2" "fr_ok c" "fr_ok (eval_cubic co c)"
      using t2(2,3) inter(2) [OF t2(3)] by simp_all
    show "el (eval_cubic co c) = cube_sum g (mp_table (bound c eq)) (map mp_table (map (bound c) polys))"
      using inter(2) [OF t2(3)] round_bind [OF lens(1), of g "el c"] columns_bound(3) [OF cols t2(3)] bound_value(4) [OF eq(1) vars t2(3)]
      by (simp only: simp_thms)
  qed
qed

text \<open>The values the columns take at the point bound.\<close>

abbreviation (input) column_values :: "fr list \<Rightarrow> multilinear_poly list \<Rightarrow> zp list" where
  "column_values point polys \<equiv> map (\<lambda>p. extension (map el point) (mp_table p)) polys"

lemma rounds_complete:
  assumes g: "gate_ok g" and cs: "constants_ok cs"
  shows "columns_ok g n polys \<Longrightarrow> mp_ok eq \<Longrightarrow> mp_num_vars eq = n \<Longrightarrow> transcript_ok t \<Longrightarrow> fr_ok claim \<Longrightarrow>
    el claim = cube_sum g (mp_table eq) (map mp_table polys) \<Longrightarrow>
    \<exists>rounds polys' t' claim' point. prove_rounds g cs n polys eq t = (Inr (rounds, polys', t') :: sumcheck_error fault + _) \<and>
      verify_rounds k rounds claim t = Inr (claim', point, t') \<and> transcript_ok t' \<and> length rounds = n \<and> length point = n \<and>
      list_all fr_ok point \<and> fr_ok claim' \<and> columns_ok g 0 polys' \<and>
      map mp_table polys' = map (\<lambda>p. [extension (map el point) (mp_table p)]) polys \<and>
      el claim' = extension (map el point) (mp_table eq) * gate_value g (column_values point polys)"
proof (induction n arbitrary: polys eq t claim k)
  case 0
  have "mp_table p = [extension [] (mp_table p)]" if "mp_num_vars p = 0" for p
    using that mp_table_length [of p] by (cases "mp_table p") (simp_all add: extension_Nil)
  then show ?case
    using 0 by (auto simp: cube_sum_def columns_ok_def extension_Nil comp_def)
next
  case (Suc n)
  obtain co c t2 where one:
    "(prove_rounds g cs (Suc n) polys eq t :: sumcheck_error fault + _) =
       bind_res (prove_rounds g cs n (map (bound c) polys) (bound c eq) t2) (\<lambda>(rounds, polys, t). Inr (co # rounds, polys, t))"
    "\<And>gs. verify_rounds k (co # gs) claim t =
       bind_res (verify_rounds (k + 1) gs (eval_cubic co c) t2) (\<lambda>(claim, point, t). Inr (claim, c # point, t))"
    "transcript_ok t2" "fr_ok c" "fr_ok (eval_cubic co c)"
    "el (eval_cubic co c) = cube_sum g (mp_table (bound c eq)) (map mp_table (map (bound c) polys))"
    by (rule round_complete [OF g cs Suc.prems, of k]) blast
  have eqb: "mp_ok (bound c eq)" "mp_num_vars (bound c eq) = n" "mp_table (bound c eq) = halve (el c) (mp_table eq)"
    using bound_value(2-4) [OF Suc.prems(2) _ one(4)] Suc.prems(3) by simp_all
  note cols = columns_bound(2,3) [OF Suc.prems(1) one(4)]
  obtain rounds polys' t' claim' point where r:
      "prove_rounds g cs n (map (bound c) polys) (bound c eq) t2 = (Inr (rounds, polys', t') :: sumcheck_error fault + _)"
      "verify_rounds (k + 1) rounds (eval_cubic co c) t2 = Inr (claim', point, t')" "transcript_ok t'" "length rounds = n" "length point = n"
      "list_all fr_ok point" "fr_ok claim'" "columns_ok g 0 polys'"
      "map mp_table polys' = map (\<lambda>p. [extension (map el point) (mp_table p)]) (map (bound c) polys)"
      "el claim' = extension (map el point) (mp_table (bound c eq)) * gate_value g (column_values point (map (bound c) polys))"
    using Suc.IH [OF cols(1) eqb(1,2) one(3,5,6), of "k + 1"] by blast
  have ext: "extension (map el point) (halve (el c) (mp_table p)) = extension (map el (c # point)) (mp_table p)" if "mp_num_vars p = Suc n" for p
    using that r(5) extension_Cons [of "mp_table p" "map el point"] by simp
  have exts: "column_values point (map (bound c) polys) = column_values (c # point) polys"
    "extension (map el point) (mp_table (bound c eq)) = extension (map el (c # point)) (mp_table eq)"
    using ext Suc.prems(1,3) cols(2) eqb(3) by (auto simp: columns_ok_def simp del: list.map(2))
  have tables: "map (\<lambda>p. [extension (map el point) (mp_table p)]) (map (bound c) polys) = map (\<lambda>p. [extension (map el (c # point)) (mp_table p)]) polys"
    using exts(1) by simp
  show ?case
    by (intro exI [of _ "co # rounds"] exI [of _ polys'] exI [of _ t'] exI [of _ claim'] exI [of _ "c # point"] conjI;
      (rule r(9) [unfolded tables] r(10) [unfolded exts])?)
      (simp_all add: one r r(2) [simplified] del: bind_res_Inr prove_rounds.simps verify_rounds.simps)
qed

section \<open>The properties\<close>

lemma trailing_zeros_power: "trailing_zeros (2 ^ n) = n"
  by (induction n) (simp_all add: trailing_zeros.simps [of "2 * _"] trailing_zeros.simps [of "Suc 0"])

lemma mp_new_table:
  "length t = 2 ^ n \<Longrightarrow> (mp_new (FrB t) :: 'e fault + multilinear_poly) = Inr \<lparr>mp_backing = FrB t, mp_num_vars = n\<rparr>"
  by (simp add: mp_new_def is_power_of_two_def trailing_zeros_power ensure_def Let_def)

text \<open>The polynomial both sides take the equality table for.\<close>

lemma eq_polynomial:
  assumes "list_all fr_ok r" "length r = n"
  obtains e eq where "(eq_table r :: 'e fault + fr list) = Inr e" "(mp_new (FrB e) :: 'e fault + multilinear_poly) = Inr eq"
    "mp_ok eq" "mp_num_vars eq = n" "\<And>point. length point = n \<Longrightarrow> list_all fr_ok point \<Longrightarrow>
      \<exists>x. (eq_eval r point :: 'e fault + fr) = Inr x \<and> fr_ok x \<and> el x = extension (map el point) (mp_table eq)"
proof -
  obtain e where e: "(eq_table r :: 'e fault + fr list) = Inr e" "list_all fr_ok e" "length e = 2 ^ n"
    "map el e = map (weight (map el r)) [0..<2 ^ n]"
    using eq_table_value [OF assms(1)] assms(2) by metis
  let ?eq = "\<lparr>mp_backing = FrB e, mp_num_vars = n\<rparr>"
  have eq: "mp_ok ?eq" "mp_values ?eq = e"
    using e(2,3) by (auto simp: mp_ok_def mp_len_def mp_values_def intro: nth_equalityI)
  have "\<exists>x. (eq_eval r point :: 'e fault + fr) = Inr x \<and> fr_ok x \<and> el x = extension (map el point) (mp_table ?eq)"
    if point: "length point = n" "list_all fr_ok point" for point
  proof -
    obtain x where x: "(eq_eval r point :: 'e fault + fr) = Inr x" "fr_ok x" "el x = eq_product (map el r) (map el point)"
      by (rule eq_eval_value [of r point]) (use assms point in simp_all)
    have "extension (map el point) (mp_table ?eq) = el x"
      unfolding mp_table_def eq(2) e(4) using extension_weights [of "map el r" "map el point"] assms(2) point(1) x(3) by simp
    then show ?thesis
      using x(1,2) by simp
  qed
  then show thesis
    using that [OF e(1) mp_new_table [OF e(3)]] eq(1) by simp
qed

lemma cube_sum_zero:
  assumes "gate_ok g" "columns_ok g n polys" "\<forall>y < 2 ^ n. gate_evaluate g (map (\<lambda>p. mp_values p ! y) polys) = (Inr fr_zero :: 'e fault + fr)"
    "length e = 2 ^ n"
  shows "cube_sum g e (map mp_table polys) = 0"
proof -
  have "gate_value g (map (\<lambda>t. t ! y) (map mp_table polys)) = 0" if y: "y < 2 ^ n" for y
  proof -
    let ?vs = "map (\<lambda>p. mp_values p ! y) polys"
    have ok: "list_all fr_ok ?vs" "length ?vs = gate_arity g" "map el ?vs = map (\<lambda>t. t ! y) (map mp_table polys)"
      using assms(2) y mp_values_ok by (auto simp: columns_ok_def list_all_iff list_all_length mp_len_def mp_table_nth)
    obtain x where "(gate_evaluate g ?vs :: 'e fault + fr) = Inr x" "el x = gate_value g (map el ?vs)"
      by (rule gate_evaluate_value [OF assms(1) ok(2,1)])
    then show ?thesis
      using assms(3) y unfolding ok(3) [symmetric] by simp
  qed
  then show ?thesis
    using assms(4) by (simp add: cube_sum_def)
qed

lemma cell_ok: "mp_ok p \<Longrightarrow> i < mp_len p \<Longrightarrow> fr_ok (mp_values p ! i)"
  using mp_values_ok by (simp add: list_all_length)

text \<open>What is read of the bound columns.\<close>

lemma final_values:
  assumes "columns_ok g 0 polys'" "map mp_table polys' = map (\<lambda>p. [extension (map el point) (mp_table p)]) polys"
  obtains vs where "(map_res (\<lambda>p. mp_get p 0) polys' :: 'e fault + fr list) = Inr vs" "list_all fr_ok vs" "length vs = gate_arity g"
    "map el vs = column_values point polys"
proof -
  let ?vs = "map (\<lambda>p. mp_values p ! 0) polys'"
  have ok: "mp_ok p" "0 < mp_len p" "mp_num_vars p = 0" if "p \<in> set polys'" for p
    using assms(1) that by (simp_all add: columns_ok_def mp_len_def)
  have "map el ?vs = map (\<lambda>t. t ! 0) (map mp_table polys')"
    using ok by (simp add: mp_table_nth)
  also have "\<dots> = column_values point polys"
    unfolding assms(2) by simp
  finally have "map el ?vs = column_values point polys" .
  moreover have "(map_res (\<lambda>p. mp_get p 0) polys' :: 'e fault + fr list) = Inr ?vs"
    using ok mp_get_value by (intro map_res_value) blast
  moreover have "list_all fr_ok ?vs"
    using ok(1,2) cell_ok by (simp add: list_all_iff)
  ultimately show thesis
    using that assms(1) by (simp add: columns_ok_def)
qed

lemma evaluated:
  "\<forall>p \<in> set polys. mp_ok p \<and> length point = mp_num_vars p \<Longrightarrow> list_all fr_ok point \<Longrightarrow> list_all fr_ok vs \<Longrightarrow>
    map el vs = column_values point polys \<Longrightarrow> (map_res (mp_evaluate point) polys :: 'e fault + fr list) = Inr vs"
proof (induction polys arbitrary: vs)
  case (Cons p polys)
  obtain v vs' where vs: "vs = v # vs'" "el v = extension (map el point) (mp_table p)" "map el vs' = column_values point polys"
    using Cons.prems(4) by (cases vs) auto
  obtain x where x: "(mp_evaluate point p :: 'e fault + fr) = Inr x" "fr_ok x" "el x = extension (map el point) (mp_table p)"
    by (rule mp_evaluate_value [of p point]) (use Cons.prems in simp_all)
  have "x = v"
    using el_inject [of x v] x(2,3) vs(1,2) Cons.prems(3) by simp
  then show ?case
    using Cons.IH [of vs'] Cons.prems vs(1,3) x(1) by simp
qed simp


text \<open>The constants, from their canonical limbs, and the gate \<open>x * x - x\<close> over a column of bits.\<close>

definition inverse_constants :: "fr \<times> fr \<times> fr" where
  "inverse_constants = (Fr (mont_mul [0xa1f0fac9f8000001, 0x9419f4243cdcb848, 0xdc2822db40c0ac2e, 0x183227397098d014] FR_R2), Fr (mont_mul [0x2d414e62a0000001, 0x70229adafbd0f5b6, 0xd03583cf0100e593, 0x2042def740cbc01b] FR_R2),
     Fr (mont_mul [0xb891a1fb48000001, 0x4c2b4191bac53323, 0xc442e4c2c1411ef8, 0x285396b510feb022] FR_R2))"

lemma inverse_constants_ok: "constants_ok inverse_constants"
proof -
  have "limbs_ok [0xa1f0fac9f8000001, 0x9419f4243cdcb848, 0xdc2822db40c0ac2e, 0x183227397098d014]" "limbs_ok [0x2d414e62a0000001, 0x70229adafbd0f5b6, 0xd03583cf0100e593, 0x2042def740cbc01b]"
    "limbs_ok [0xb891a1fb48000001, 0x4c2b4191bac53323, 0xc442e4c2c1411ef8, 0x285396b510feb022]"
    by (simp_all add: limbs_ok_def fr_p_def)
  note limbs = this
  show ?thesis
    using to_mont_canon [OF limbs(1)] to_mont_canon [OF limbs(2)] to_mont_canon [OF limbs(3)] by (simp add: constants_ok_def inverse_constants_def) (simp add: fr_p_def)
qed

definition bit_terms :: "gate_term list" where
  "bit_terms = [\<lparr>term_coef = fr_one, term_a = 0, term_b = Some 0\<rparr>, \<lparr>term_coef = fr_minus_one, term_a = 0, term_b = None\<rparr>]"

lemma bit_gate: "gate_new [PolyAddress 0] bit_terms = Inr \<lparr>gate_inputs = [PolyAddress 0], gate_terms = bit_terms\<rparr>"
  by (simp add: gate_new_def duplicate_input_def bit_terms_def term_factors_def)


text \<open>Newton's form, at its four nodes.\<close>

lemma newton_nodes:
  fixes a b c d :: zp
  assumes inv: "i2 * 2 = 1" "i3 * 3 = 1" "i6 * 6 = 1"
  defines "d1 \<equiv> b - a" and "d2 \<equiv> c - b - (b - a)" and "d3 \<equiv> d - c - (c - b) - (c - b - (b - a))"
  defines "v \<equiv> \<lambda>x. ((d3 * i6 * x + (d2 - d3) * i2) * x + (d1 - d2 * i2 + d3 * i3)) * x + a"
  shows "v 0 = a" "v 1 = b" "v 2 = c" "v 3 = d"
proof -
  have "i2 * (i6 * 6) = (i2 * 2) * (3 * i6)" "i3 * (i6 * 6) = (i3 * 3) * (2 * i6)"
    by (simp_all add: algebra_simps)
  then have i: "i2 = 3 * i6" "i3 = 2 * i6"
    by (simp_all add: inv)
  have v: "v x = a + d1 * x + (3 * d2 * (x * x - x) + d3 * (x * x * x - 3 * (x * x) + 2 * x)) * i6" for x
    by (simp add: v_def i algebra_simps)
  have "v 0 = a" "v 1 = a + d1" "v 2 = a + d1 * 2 + d2 * (i6 * 6)" "v 3 = a + d1 * 3 + (3 * d2 + d3) * (i6 * 6)"
    unfolding v by (simp_all add: algebra_simps)
  then show "v 0 = a" "v 1 = b" "v 2 = c" "v 3 = d"
    unfolding inv by (simp_all add: d1_def d2_def d3_def algebra_simps)
qed

text \<open>C40: the prover's interpolation is exact: the cubic whose coefficients it derives from four values takes those
  values at 0, 1, 2 and 3, with any constants that invert 2, 3 and 6.\<close>

theorem interpolate_exact:
  assumes "constants_ok cs" "fr_ok v0" "fr_ok v1" "fr_ok v2" "fr_ok v3"
  shows "map (\<lambda>k. eval_cubic (interpolate_cubic (v0, v1, v2, v3) cs) (from_u64 k)) [0, 1, 2, 3] = [v0, v1, v2, v3]"
proof -
  obtain i2 i3 i6 where cs: "cs = (i2, i3, i6)"
    by (cases cs)
  have inv: "fr_ok i2" "fr_ok i3" "fr_ok i6" "el i2 * 2 = 1" "el i3 * 3 = 1" "el i6 * 6 = 1"
    using assms(1) inverse_el [of i2 2] inverse_el [of i3 3] inverse_el [of i6 6] by (auto simp: cs constants_ok_def)
  note nodes = newton_nodes [OF inv(4-6), where a = "el v0" and b = "el v1" and c = "el v2" and d = "el v3"]
  have x: "fr_ok (from_u64 k)" "el (from_u64 k) = of_nat (unat k)" for k
    by (simp_all add: el_def from_u64_value)
  have ok: "fr_ok (eval_cubic (interpolate_cubic (v0, v1, v2, v3) cs) (from_u64 k))" for k
    using assms(2-5) inv(1-3) by (simp add: cs Let_def)
  have "el (eval_cubic (interpolate_cubic (v0, v1, v2, v3) cs) (from_u64 0)) = el v0"
    "el (eval_cubic (interpolate_cubic (v0, v1, v2, v3) cs) (from_u64 1)) = el v1"
    "el (eval_cubic (interpolate_cubic (v0, v1, v2, v3) cs) (from_u64 2)) = el v2"
    "el (eval_cubic (interpolate_cubic (v0, v1, v2, v3) cs) (from_u64 3)) = el v3"
    using assms(2-5) inv(1-3) nodes by (simp_all add: cs Let_def x)
  then show ?thesis
    using el_inject ok assms(2-5) by simp
qed

theorem interpolate_exact_witness:
  "eval_cubic (interpolate_cubic (fr_one, fr_zero, fr_zero, fr_one) inverse_constants) (from_u64 3) = fr_one"
  using interpolate_exact [OF inverse_constants_ok, of fr_one fr_zero fr_zero fr_one] by (simp add: fr_consts)

section \<open>The verifier on any proof\<close>

lemma eval_cubic_ok: "quad_all fr_ok g \<Longrightarrow> fr_ok x \<Longrightarrow> fr_ok (eval_cubic g x)"
  by (cases g) simp

lemma verify_rounds_returns:
  "transcript_ok t \<Longrightarrow> list_all (quad_all fr_ok) gs \<Longrightarrow> fr_ok claim \<Longrightarrow>
    returns (verify_rounds k gs claim t) (\<lambda>(claim, point, t). fr_ok claim \<and> length point = length gs \<and> list_all fr_ok point \<and> transcript_ok t)"
proof (induction gs arbitrary: k claim t)
  case (Cons g gs)
  have "list_all fr_ok (quad_list g)"
    using Cons.prems(2) by (cases g) simp
  then obtain t1 where t1: "(append_scalars tags_SUMCHECK_ROUND (quad_list g) t :: sumcheck_error fault + _) = Inr t1" "transcript_ok t1"
    using append_scalars_refines [OF Cons.prems(1)] by metis
  obtain c t2 where t2: "(challenge_scalar tags_SUMCHECK_CHALLENGE t1 :: sumcheck_error fault + _) = Inr (c, t2)" "transcript_ok t2" "fr_ok c"
    using challenge_scalar_refines [OF t1(2)] by metis
  have "returns (verify_rounds (k + 1) gs (eval_cubic g c) t2)
      (\<lambda>(claim, point, t). fr_ok claim \<and> length point = length gs \<and> list_all fr_ok point \<and> transcript_ok t)"
    using Cons.IH [OF t2(2)] Cons.prems(2) t2(3) eval_cubic_ok by simp
  then show ?case
    using t1(1) t2(1,3) by (auto simp del: bind_res_Inr elim!: returns_bind)
qed simp

text \<open>C22: the verifier answers every proof: on a gate \<open>Gate::new\<close> built and canonical field elements, whatever the
  counts, it does not panic, it refuses a wrong count before it draws a challenge, and what it accepts is a claim
  with one coordinate per variable and the proof's own final evaluations.\<close>

theorem verify_answers:
  assumes "gate_new inputs terms = Inr g" "\<forall>t \<in> set terms. fr_ok (term_coef t)" "transcript_ok t"
    "list_all (quad_all fr_ok) (sp_rounds pf)" "list_all fr_ok (sp_final_evals pf)"
  shows "if length (sp_rounds pf) \<noteq> n then verify_zerocheck g n pf t = refuse (RoundCountMismatch n (length (sp_rounds pf)))
    else if length (sp_final_evals pf) \<noteq> length inputs
      then verify_zerocheck g n pf t = refuse (FinalEvalCountMismatch (length inputs) (length (sp_final_evals pf)))
    else returns (verify_zerocheck g n pf t)
      (\<lambda>(claim, t'). length (sk_point claim) = n \<and> sk_final_evals claim = sp_final_evals pf \<and> transcript_ok t')"
proof -
  note g = gate_new_ok [OF assms(1,2)]
  have "returns (verify_zerocheck g n pf t)
      (\<lambda>(claim, t'). length (sk_point claim) = n \<and> sk_final_evals claim = sp_final_evals pf \<and> transcript_ok t')"
    if counts: "length (sp_rounds pf) = n" "length (sp_final_evals pf) = gate_arity g"
  proof -
    obtain r t1 where r: "(challenges n t :: sumcheck_error fault + _) = Inr (r, t1)" "length r = n" "list_all fr_ok r" "transcript_ok t1"
      using challenges_value [OF assms(3)] by blast
    obtain v where v: "(gate_evaluate g (sp_final_evals pf) :: sumcheck_error fault + fr) = Inr v"
      by (rule gate_evaluate_value [OF g(1) counts(2) assms(5)])
    have last: "returns (bind_res (append_scalars tags_SUMCHECK_FINAL_EVALS (sp_final_evals pf) t2) (\<lambda>t.
        bind_res (eq_eval r point) (\<lambda>e. bind_res (gate_evaluate g (sp_final_evals pf)) (\<lambda>v.
        if fr_mul e v \<noteq> claim then refuse FinalEvalMismatch
        else Inr (\<lparr>sk_point = point, sk_final_evals = sp_final_evals pf\<rparr>, t)))))
      (\<lambda>(claim, t'). length (sk_point claim) = n \<and> sk_final_evals claim = sp_final_evals pf \<and> transcript_ok t')"
      if at: "length point = n" "list_all fr_ok point" "transcript_ok t2" for claim point t2
    proof -
      obtain t3 where "(append_scalars tags_SUMCHECK_FINAL_EVALS (sp_final_evals pf) t2 :: sumcheck_error fault + _) = Inr t3" "transcript_ok t3"
        using append_scalars_refines [OF at(3) assms(5)] by metis
      moreover obtain x where "(eq_eval r point :: sumcheck_error fault + fr) = Inr x"
        by (rule eq_eval_value [of r point]) (use r(2,3) at in simp_all)
      ultimately show ?thesis
        using v at(1) by (simp del: bind_res_Inr)
    qed
    have rounds: "returns (verify_rounds 0 (sp_rounds pf) fr_zero t1)
        (\<lambda>(claim, point, t). length point = n \<and> list_all fr_ok point \<and> transcript_ok t)"
      by (rule returns_mono [OF verify_rounds_returns [OF r(4) assms(4) fr_consts(1)]]) (auto simp: counts(1))
    have "returns (bind_res (verify_rounds 0 (sp_rounds pf) fr_zero t1) (\<lambda>(claim, point, t).
        bind_res (append_scalars tags_SUMCHECK_FINAL_EVALS (sp_final_evals pf) t) (\<lambda>t.
        bind_res (eq_eval r point) (\<lambda>e. bind_res (gate_evaluate g (sp_final_evals pf)) (\<lambda>v.
        if fr_mul e v \<noteq> claim then refuse FinalEvalMismatch
        else Inr (\<lparr>sk_point = point, sk_final_evals = sp_final_evals pf\<rparr>, t))))))
      (\<lambda>(claim, t'). length (sk_point claim) = n \<and> sk_final_evals claim = sp_final_evals pf \<and> transcript_ok t')"
      by (rule returns_bind [OF rounds]) (simp add: split_beta last del: bind_res_Inr)
    then show ?thesis
      using r(1) counts by (simp add: verify_zerocheck_def del: bind_res_Inr)
  qed
  then show ?thesis
    using g(2) by (auto simp: verify_zerocheck_def)
qed

theorem verify_answers_witness:
  "verify_zerocheck \<lparr>gate_inputs = [PolyAddress 0], gate_terms = bit_terms\<rparr> 2
    \<lparr>sp_rounds = [(fr_one, fr_zero, fr_zero, fr_zero)], sp_final_evals = [fr_one]\<rparr> transcript_new = refuse (RoundCountMismatch 2 1)"
proof -
  have "\<forall>t \<in> set bit_terms. fr_ok (term_coef t)"
    by (simp add: bit_terms_def fr_consts)
  from verify_answers [OF bit_gate this transcript_new_ok(1),
      of "\<lparr>sp_rounds = [(fr_one, fr_zero, fr_zero, fr_zero)], sp_final_evals = [fr_one]\<rparr>" 2]
  show ?thesis
    by (simp add: fr_consts)
qed

end
