(* ===== verification/Circuit.thy ===== *)
theory Circuit
  imports Outcome Field "HOL-Library.List_Lexorder" "HOL-Library.Char_ord"
begin

text \<open>
  Circuits as data, \<open>crates/constraints/src/lib.rs\<close>: addresses with their derived order, gates and the circuit
  artifact.
\<close>

section \<open>Addresses and gates\<close>

datatype virtual_kind = RowIndex | RamLive | Range19 | Range16 | Xor8A | Xor8B | Xor8Out

datatype circuit_address =
    Memory u32
  | Witness u32
  | Setup u32
  | Virtual virtual_kind
  | Inner u32 u32
  | Scratch u32
  | Cached u32 u32

text \<open>
  The derived order of addresses: the variant in declaration order, then its fields. It is the order of the
  lists an address ranks as.
\<close>

fun kind_rank :: "virtual_kind \<Rightarrow> nat" where
  "kind_rank RowIndex = 0"
| "kind_rank RamLive = 1"
| "kind_rank Range19 = 2"
| "kind_rank Range16 = 3"
| "kind_rank Xor8A = 4"
| "kind_rank Xor8B = 5"
| "kind_rank Xor8Out = 6"

fun address_rank :: "circuit_address \<Rightarrow> nat list" where
  "address_rank (Memory i) = [0, unat i]"
| "address_rank (Witness i) = [1, unat i]"
| "address_rank (Setup i) = [2, unat i]"
| "address_rank (Virtual kind) = [3, kind_rank kind]"
| "address_rank (Inner layer offset) = [4, unat layer, unat offset]"
| "address_rank (Scratch i) = [5, unat i]"
| "address_rank (Cached layer offset) = [6, unat layer, unat offset]"

lemma kind_rank_inject [simp]: "kind_rank a = kind_rank b \<longleftrightarrow> a = b"
  by (cases a; cases b) simp_all

lemma address_rank_inject [simp]: "address_rank a = address_rank b \<longleftrightarrow> a = b"
  by (cases a; cases b) (auto simp: word_unat_eq_iff)

instantiation circuit_address :: linorder
begin

definition less_eq_circuit_address :: "circuit_address \<Rightarrow> circuit_address \<Rightarrow> bool" where
  "a \<le> b \<longleftrightarrow> address_rank a \<le> address_rank b"

definition less_circuit_address :: "circuit_address \<Rightarrow> circuit_address \<Rightarrow> bool" where
  "a < b \<longleftrightarrow> address_rank a < address_rank b"

instance
  by standard (auto simp: less_eq_circuit_address_def less_circuit_address_def not_less le_less)

end

datatype coeff = Literal fr | ChallengeSlot u32

datatype gate_def =
    Linear "(coeff \<times> circuit_address) list" coeff
  | Product coeff circuit_address circuit_address
  | MaskIntoIdentity circuit_address circuit_address
  | AffineProduct "(coeff \<times> circuit_address) list" coeff "(coeff \<times> circuit_address) list" coeff
  | TreeProduct circuit_address
  | TreeCross circuit_address circuit_address
  | Quadratic coeff "(coeff \<times> circuit_address) list" "(coeff \<times> circuit_address \<times> circuit_address) list"

fun operands :: "gate_def \<Rightarrow> circuit_address list" where
  "operands (Linear terms _) = map snd terms"
| "operands (Product _ left right) = [left, right]"
| "operands (MaskIntoIdentity input msk) = [input, msk]"
| "operands (AffineProduct left _ right _) = map snd (left @ right)"
| "operands (TreeProduct input) = [input]"
| "operands (TreeCross left right) = [left, right]"
| "operands (Quadratic _ linear products) = map snd linear @ concat (map (\<lambda>(_, y, z). [y, z]) products)"

fun coefficients :: "gate_def \<Rightarrow> coeff list" where
  "coefficients (Linear terms constant) = map fst terms @ [constant]"
| "coefficients (Product c _ _) = [c]"
| "coefficients (MaskIntoIdentity _ _) = []"
| "coefficients (AffineProduct left left_constant right right_constant) =
     map fst left @ [left_constant] @ map fst right @ [right_constant]"
| "coefficients (TreeProduct _) = []"
| "coefficients (TreeCross _ _) = []"
| "coefficients (Quadratic constant linear products) = constant # map fst linear @ map fst products"

section \<open>The artifact\<close>

record cached_entry =
  ce_name :: string
  ce_address :: circuit_address
  ce_gate :: gate_def

record producing_entry =
  pe_relation :: u32
  pe_output :: circuit_address
  pe_gate :: gate_def

record enforcing_entry =
  ee_relation :: u32
  ee_gate :: gate_def

record layer_spec =
  ls_halving :: bool
  ls_num_vars :: u32
  ls_width :: u32
  ls_cached :: "cached_entry list"
  ls_producing :: "producing_entry list"
  ls_enforcing :: "enforcing_entry list"

record relation =
  rel_name :: string
  rel_output :: "u32 option"
  rel_gate :: gate_def

record lookup_expr =
  lk_name :: string
  lk_channel :: u32
  lk_selector :: circuit_address
  lk_tuple :: "gate_def list"

record scratch_slot =
  ss_name :: string
  ss_address :: circuit_address

record circuit_padding =
  pad_row :: "fr list"
  pad_zero_row_valid :: bool

record circuit_artifact =
  ca_format_version :: u32
  ca_coefficient_encoding :: u32
  ca_trace_vars :: u32
  ca_memory :: "string list"
  ca_witness :: "string list"
  ca_setup :: "string list"
  ca_virtuals :: "(virtual_kind \<times> string) list"
  ca_layers :: "layer_spec list"
  ca_relations :: "relation list"
  ca_lookups :: "lookup_expr list"
  ca_scratch :: "scratch_slot list"
  ca_outputs :: "circuit_address list"
  ca_padding :: circuit_padding

definition depth_of :: "circuit_artifact \<Rightarrow> nat" where
  "depth_of a = length (ca_layers a)"

definition layer_vars :: "circuit_artifact \<Rightarrow> nat \<Rightarrow> 'e fault + u32" where
  "layer_vars a layer =
     (if layer = 0 then Inr (ca_trace_vars a)
      else bind_res (idx (ca_layers a) (layer - 1)) (\<lambda>l. Inr (ls_num_vars l)))"

definition committed :: "circuit_artifact \<Rightarrow> circuit_address list" where
  "committed a =
     map (\<lambda>i. Memory (of_nat i)) [0..<length (ca_memory a)] @
     map (\<lambda>i. Witness (of_nat i)) [0..<length (ca_witness a)] @
     map (\<lambda>i. Setup (of_nat i)) [0..<length (ca_setup a)]"

definition layer_width :: "circuit_artifact \<Rightarrow> nat \<Rightarrow> 'e fault + u32" where
  "layer_width a layer =
     (if layer = 0 then Inr (of_nat (length (committed a)))
      else bind_res (idx (ca_layers a) (layer - 1)) (\<lambda>l. Inr (ls_width l)))"

end
