(* ===== verification/Expansion.thy ===== *)
theory Expansion
  imports Circuit Residue "HOL-Library.Multiset"
begin

text \<open>
  A gate as a polynomial over symbols, the last part of \<open>crates/constraints/src/laws.rs\<close>: columns, children and
  challenges, the normalized sums of monomials, and the two namespaces a gate is expanded in. An expansion has
  the value of the polynomial the gate means, whatever the symbols stand for.
\<close>

section \<open>Symbols\<close>

datatype symbol = ColumnOf circuit_address | Child circuit_address u8 | ChallengeAt u32

fun symbol_rank :: "symbol \<Rightarrow> nat list" where
  "symbol_rank (ColumnOf x) = 0 # address_rank x"
| "symbol_rank (Child x b) = 1 # address_rank x @ [unat b]"
| "symbol_rank (ChallengeAt slot) = [2, unat slot]"

lemma symbol_rank_inject [simp]: "symbol_rank a = symbol_rank b \<longleftrightarrow> a = b"
  by (cases a; cases b) (auto simp: word_unat_eq_iff)

instantiation symbol :: linorder
begin

definition less_eq_symbol :: "symbol \<Rightarrow> symbol \<Rightarrow> bool" where
  "a \<le> b \<longleftrightarrow> symbol_rank a \<le> symbol_rank b"

definition less_symbol :: "symbol \<Rightarrow> symbol \<Rightarrow> bool" where
  "a < b \<longleftrightarrow> symbol_rank a < symbol_rank b"

instance
  by standard (auto simp: less_eq_symbol_def less_symbol_def not_less le_less)

end

type_synonym expansion = "(symbol list \<times> fr) list"

text \<open>One polynomial, one representation: monomials sorted, equal ones merged, zero coefficients dropped.\<close>

definition merge_term :: "expansion \<Rightarrow> symbol list \<times> fr \<Rightarrow> expansion" where
  "merge_term out term =
     (if out \<noteq> [] \<and> fst (last out) = fst term
      then butlast out @ [(fst term, fr_add (snd (last out)) (snd term))]
      else out @ [term])"

definition normalize_terms :: "expansion \<Rightarrow> expansion" where
  "normalize_terms terms =
     filter (\<lambda>(_, c). c \<noteq> fr_zero) (foldl merge_term [] (sort_key fst (map (apfst sort) terms)))"

definition expansion_product :: "expansion \<Rightarrow> expansion \<Rightarrow> expansion" where
  "expansion_product a b =
     normalize_terms (concat (map (\<lambda>(ma, ca). map (\<lambda>(mb, cb). (ma @ mb, fr_mul ca cb)) b) a))"

fun coefficient_expansion :: "coeff \<Rightarrow> expansion" where
  "coefficient_expansion (Literal v) = [([], v)]"
| "coefficient_expansion (ChallengeSlot slot) = [([ChallengeAt slot], fr_one)]"

section \<open>Namespaces\<close>

text \<open>The flat list's, or gate list \<open>k\<close>'s of the layered encoding; \<open>inverse[&op]\<close> panics on a missing key.\<close>

record namespace =
  ns_layered :: bool
  ns_cached :: "cached_entry list"
  ns_inverse :: "circuit_address \<Rightarrow> u32 option"

definition ns_column :: "namespace \<Rightarrow> circuit_address \<Rightarrow> 'e fault + circuit_address" where
  "ns_column ns op =
     (case op of
        Inner _ _ \<Rightarrow>
          if ns_layered ns then (case ns_inverse ns op of Some i \<Rightarrow> Inr (Scratch i) | None \<Rightarrow> panic) else Inr op
      | _ \<Rightarrow> Inr op)"

fun affine_expansion ::
  "(circuit_address \<Rightarrow> 'e fault + expansion) \<Rightarrow> (coeff \<times> circuit_address) list \<Rightarrow> expansion \<Rightarrow> 'e fault + expansion" where
  "affine_expansion operand [] out = Inr (normalize_terms out)"
| "affine_expansion operand ((c, x) # terms) out =
     bind_res (operand x) (\<lambda>e. affine_expansion operand terms (out @ expansion_product (coefficient_expansion c) e))"

fun product_expansions ::
  "(circuit_address \<Rightarrow> 'e fault + expansion) \<Rightarrow> (coeff \<times> circuit_address \<times> circuit_address) list \<Rightarrow> expansion \<Rightarrow> 'e fault + expansion" where
  "product_expansions operand [] out = Inr (normalize_terms out)"
| "product_expansions operand ((b, y, z) # products) out =
     bind_res (operand y) (\<lambda>ey. bind_res (operand z) (\<lambda>ez.
       product_expansions operand products
         (out @ expansion_product (expansion_product (coefficient_expansion b) ey) ez)))"

text \<open>\<open>expand\<close>, over the way its operands are expanded.\<close>

fun expand_with :: "namespace \<Rightarrow> (circuit_address \<Rightarrow> 'e fault + expansion) \<Rightarrow> gate_def \<Rightarrow> 'e fault + expansion" where
  "expand_with ns operand (Linear terms constant) =
     affine_expansion operand terms (coefficient_expansion constant)"
| "expand_with ns operand (Product coeff left right) =
     bind_res (operand left) (\<lambda>l. bind_res (operand right) (\<lambda>r.
       Inr (expansion_product (expansion_product (coefficient_expansion coeff) l) r)))"
| "expand_with ns operand (MaskIntoIdentity input msk) =
     bind_res (operand input) (\<lambda>i. bind_res (operand msk) (\<lambda>m.
       Inr (normalize_terms (expansion_product i m @ [([], fr_one)] @ expansion_product [([], fr_minus_one)] m))))"
| "expand_with ns operand (AffineProduct left left_constant right right_constant) =
     bind_res (affine_expansion operand left (coefficient_expansion left_constant)) (\<lambda>l.
     bind_res (affine_expansion operand right (coefficient_expansion right_constant)) (\<lambda>r.
       Inr (expansion_product l r)))"
| "expand_with ns operand (TreeProduct input) =
     bind_res (ns_column ns input) (\<lambda>x. Inr [([Child x 0, Child x 1], fr_one)])"
| "expand_with ns operand (TreeCross left right) =
     bind_res (ns_column ns left) (\<lambda>p. bind_res (ns_column ns right) (\<lambda>q.
       Inr (normalize_terms [([Child p 0, Child q 1], fr_one), ([Child p 1, Child q 0], fr_one)])))"
| "expand_with ns operand (Quadratic constant linear products) =
     bind_res (affine_expansion operand linear (coefficient_expansion constant)) (\<lambda>out.
       product_expansions operand products out)"

definition column_expansion :: "namespace \<Rightarrow> circuit_address \<Rightarrow> 'e fault + expansion" where
  "column_expansion ns op = bind_res (ns_column ns op) (\<lambda>x. Inr [([ColumnOf x], fr_one)])"

text \<open>A cached entry is expanded where it has no cached entries itself, so naming one there panics.\<close>

definition entry_operand :: "namespace \<Rightarrow> circuit_address \<Rightarrow> 'e fault + expansion" where
  "entry_operand ns op =
     (case op of Cached _ _ \<Rightarrow> if ns_layered ns then panic else column_expansion ns op | _ \<Rightarrow> column_expansion ns op)"

definition ns_operand :: "namespace \<Rightarrow> circuit_address \<Rightarrow> 'e fault + expansion" where
  "ns_operand ns op =
     (case op of
        Cached _ offset \<Rightarrow>
          if ns_layered ns
          then bind_res (idx (ns_cached ns) (unat offset)) (\<lambda>e. expand_with ns (entry_operand ns) (ce_gate e))
          else column_expansion ns op
      | _ \<Rightarrow> column_expansion ns op)"

definition expand_gate :: "namespace \<Rightarrow> gate_def \<Rightarrow> 'e fault + expansion" where
  "expand_gate ns gate = expand_with ns (ns_operand ns) gate"

definition normal_form :: "gate_def \<Rightarrow> 'e fault + expansion" where
  "normal_form gate =
     bind_res (expand_gate \<lparr>ns_layered = False, ns_cached = [], ns_inverse = (\<lambda>_. None)\<rparr> gate) (\<lambda>e. Inr (normalize_terms e))"

section \<open>The value of an expansion\<close>

definition term_at :: "(symbol \<Rightarrow> zp) \<Rightarrow> symbol list \<times> fr \<Rightarrow> zp" where
  "term_at s t = el (snd t) * prod_list (map s (fst t))"

definition expansion_at :: "(symbol \<Rightarrow> zp) \<Rightarrow> expansion \<Rightarrow> zp" where
  "expansion_at s e = sum_list (map (term_at s) e)"

definition expansion_ok :: "expansion \<Rightarrow> bool" where
  "expansion_ok e \<longleftrightarrow> (\<forall>t \<in> set e. fr_ok (snd t))"

lemma expansion_at_simps [simp]:
  "expansion_at s [] = 0"
  "expansion_at s (t # e) = term_at s t + expansion_at s e"
  "expansion_at s (e @ e') = expansion_at s e + expansion_at s e'"
  by (simp_all add: expansion_at_def)

lemma expansion_ok_simps [simp]:
  "expansion_ok []"
  "expansion_ok (t # e) \<longleftrightarrow> fr_ok (snd t) \<and> expansion_ok e"
  "expansion_ok (e @ e') \<longleftrightarrow> expansion_ok e \<and> expansion_ok e'"
  by (auto simp: expansion_ok_def)

lemma merge_term_at:
  assumes "expansion_ok out" "fr_ok (snd t)"
  shows "expansion_at s (merge_term out t) = expansion_at s out + term_at s t" "expansion_ok (merge_term out t)"
proof -
  have "expansion_at s (merge_term out t) = expansion_at s out + term_at s t \<and> expansion_ok (merge_term out t)"
  proof (cases "out \<noteq> [] \<and> fst (last out) = fst t")
    case True
    then obtain init l where "out = init @ [l]" "fst l = fst t"
      by (metis append_butlast_last_id)
    then show ?thesis
      using assms by (simp add: merge_term_def term_at_def distrib_right)
  qed (use assms in \<open>auto simp: merge_term_def\<close>)
  then show "expansion_at s (merge_term out t) = expansion_at s out + term_at s t" "expansion_ok (merge_term out t)"
    by simp_all
qed

lemma merge_terms_at:
  "expansion_ok out \<Longrightarrow> expansion_ok e \<Longrightarrow>
    expansion_at s (foldl merge_term out e) = expansion_at s out + expansion_at s e \<and> expansion_ok (foldl merge_term out e)"
  by (induction e arbitrary: out) (simp_all add: merge_term_at add.assoc)

lemma prod_list_sort: "prod_list (map s (sort m)) = prod_list (map s m)" for s :: "'b :: linorder \<Rightarrow> zp"
  by (metis mset_map mset_sort prod_mset_prod_list)

lemma expansion_at_mset: "mset e = mset e' \<Longrightarrow> expansion_at s e = expansion_at s e'"
  unfolding expansion_at_def by (metis mset_map sum_mset_sum_list)

lemma normalize_at:
  assumes "expansion_ok e"
  shows "expansion_at s (normalize_terms e) = expansion_at s e" "expansion_ok (normalize_terms e)"
proof -
  let ?e = "sort_key fst (map (apfst sort) e)"
  have ok: "expansion_ok ?e"
    using assms by (auto simp: expansion_ok_def)
  have "expansion_at s ?e = expansion_at s (map (apfst sort) e)"
    by (rule expansion_at_mset) simp
  also have "\<dots> = expansion_at s e"
    by (induction e) (simp_all add: term_at_def prod_list_sort)
  finally have merged: "expansion_at s (foldl merge_term [] ?e) = expansion_at s e" "expansion_ok (foldl merge_term [] ?e)"
    using merge_terms_at [OF expansion_ok_simps(1) ok] by simp_all
  have "expansion_at s (filter (\<lambda>(_, c). c \<noteq> fr_zero) u) = expansion_at s u" for u
    by (induction u) (auto simp: term_at_def)
  then show "expansion_at s (normalize_terms e) = expansion_at s e"
    using merged(1) by (simp add: normalize_terms_def)
  show "expansion_ok (normalize_terms e)"
    using merged(2) by (auto simp: normalize_terms_def expansion_ok_def)
qed

lemma product_at:
  assumes "expansion_ok a" "expansion_ok b"
  shows "expansion_at s (expansion_product a b) = expansion_at s a * expansion_at s b" "expansion_ok (expansion_product a b)"
proof -
  let ?row = "\<lambda>t. map (\<lambda>(mb, cb). (fst t @ mb, fr_mul (snd t) cb)) b"
  have row: "expansion_at s (?row t) = term_at s t * expansion_at s b \<and> expansion_ok (?row t)" if "fr_ok (snd t)" for t
    using assms(2) that by (induction b) (auto simp: term_at_def algebra_simps)
  have "expansion_at s (concat (map ?row a)) = expansion_at s a * expansion_at s b \<and> expansion_ok (concat (map ?row a))"
    using assms(1) by (induction a) (simp_all add: row distrib_right)
  moreover have "expansion_product a b = normalize_terms (concat (map ?row a))"
    by (simp add: expansion_product_def case_prod_unfold)
  ultimately show "expansion_at s (expansion_product a b) = expansion_at s a * expansion_at s b" "expansion_ok (expansion_product a b)"
    using normalize_at(1) [of "concat (map ?row a)" s] normalize_at(2) [of "concat (map ?row a)"] by simp_all
qed

section \<open>What a gate means\<close>

text \<open>
  The polynomial of a gate over the ring, given the value of a coefficient, of an operand on the row, and of an
  operand's child 0 or 1.
\<close>

definition affine_at :: "(coeff \<Rightarrow> zp) \<Rightarrow> (circuit_address \<Rightarrow> zp) \<Rightarrow> (coeff \<times> circuit_address) list \<Rightarrow> coeff \<Rightarrow> zp" where
  "affine_at ch v terms constant = ch constant + (\<Sum>(c, x) \<leftarrow> terms. ch c * v x)"

fun gate_at :: "(coeff \<Rightarrow> zp) \<Rightarrow> (circuit_address \<Rightarrow> zp) \<Rightarrow> (circuit_address \<Rightarrow> u8 \<Rightarrow> zp) \<Rightarrow> gate_def \<Rightarrow> zp" where
  "gate_at ch v w (Linear terms constant) = affine_at ch v terms constant"
| "gate_at ch v w (Product c left right) = ch c * v left * v right"
| "gate_at ch v w (MaskIntoIdentity input msk) = v input * v msk + 1 - v msk"
| "gate_at ch v w (AffineProduct left left_constant right right_constant) =
     affine_at ch v left left_constant * affine_at ch v right right_constant"
| "gate_at ch v w (TreeProduct input) = w input 0 * w input 1"
| "gate_at ch v w (TreeCross left right) = w left 0 * w right 1 + w left 1 * w right 0"
| "gate_at ch v w (Quadratic constant linear products) =
     affine_at ch v linear constant + (\<Sum>(b, y, z) \<leftarrow> products. ch b * v y * v z)"

fun coeff_ok :: "coeff \<Rightarrow> bool" where
  "coeff_ok (Literal v) = fr_ok v"
| "coeff_ok (ChallengeSlot slot) = True"

definition gate_canonical :: "gate_def \<Rightarrow> bool" where
  "gate_canonical g \<longleftrightarrow> (\<forall>c \<in> set (coefficients g). coeff_ok c)"

text \<open>The value of a coefficient under an assignment of the symbols.\<close>

fun coeff_at :: "(symbol \<Rightarrow> zp) \<Rightarrow> coeff \<Rightarrow> zp" where
  "coeff_at s (Literal v) = el v"
| "coeff_at s (ChallengeSlot slot) = s (ChallengeAt slot)"

lemma coefficient_expansion_at:
  "coeff_ok c \<Longrightarrow> expansion_at s (coefficient_expansion c) = coeff_at s c \<and> expansion_ok (coefficient_expansion c)"
  by (cases c) (simp_all add: term_at_def)

text \<open>An operand expansion with a value.\<close>

definition operand_at ::
  "(symbol \<Rightarrow> zp) \<Rightarrow> (circuit_address \<Rightarrow> 'e fault + expansion) \<Rightarrow> (circuit_address \<Rightarrow> zp) \<Rightarrow> circuit_address \<Rightarrow> bool" where
  "operand_at s operand v x \<longleftrightarrow> yields (operand x) (\<lambda>e. expansion_at s e = v x \<and> expansion_ok e)"

lemma affine_expansion_at:
  assumes "expansion_ok out" "\<forall>(c, x) \<in> set terms. coeff_ok c \<and> operand_at s operand v x"
  shows "yields (affine_expansion operand terms out)
    (\<lambda>e. expansion_at s e = expansion_at s out + (\<Sum>(c, x) \<leftarrow> terms. coeff_at s c * v x) \<and> expansion_ok e)"
  using assms
proof (induction terms arbitrary: out)
  case (Cons t terms)
  obtain c x where t: "t = (c, x)" "coeff_ok c" "operand_at s operand v x"
    using Cons.prems(2) by (cases t) auto
  have rest: "\<forall>(c, x) \<in> set terms. coeff_ok c \<and> operand_at s operand v x"
    using Cons.prems(2) by simp
  show ?case
    unfolding t(1) affine_expansion.simps
  proof (rule yields_bind [OF t(3) [unfolded operand_at_def]])
    fix e
    assume e: "expansion_at s e = v x \<and> expansion_ok e"
    let ?out = "out @ expansion_product (coefficient_expansion c) e"
    have "expansion_ok ?out" "expansion_at s ?out = expansion_at s out + coeff_at s c * v x"
      using Cons.prems(1) e coefficient_expansion_at [OF t(2), of s] by (simp_all add: product_at)
    then show "yields (affine_expansion operand terms ?out)
        (\<lambda>e. expansion_at s e = expansion_at s out + (\<Sum>(c, x) \<leftarrow> (c, x) # terms. coeff_at s c * v x) \<and> expansion_ok e)"
      using Cons.IH [OF _ rest, of ?out] by (simp add: add.assoc)
  qed
qed (simp add: normalize_at)

lemma affine_expansion_value:
  assumes "coeff_ok constant" "\<forall>(c, x) \<in> set terms. coeff_ok c \<and> operand_at s operand v x"
  shows "yields (affine_expansion operand terms (coefficient_expansion constant))
    (\<lambda>e. expansion_at s e = affine_at (coeff_at s) v terms constant \<and> expansion_ok e)"
  using affine_expansion_at [of "coefficient_expansion constant", OF _ assms(2)] coefficient_expansion_at [OF assms(1), of s]
  by (simp add: affine_at_def)

lemma product_expansions_at:
  assumes "expansion_ok out" "\<forall>(b, y, z) \<in> set products. coeff_ok b \<and> operand_at s operand v y \<and> operand_at s operand v z"
  shows "yields (product_expansions operand products out)
    (\<lambda>e. expansion_at s e = expansion_at s out + (\<Sum>(b, y, z) \<leftarrow> products. coeff_at s b * v y * v z) \<and> expansion_ok e)"
  using assms
proof (induction products arbitrary: out)
  case (Cons t products)
  obtain b y z where t: "t = (b, y, z)" "coeff_ok b" "operand_at s operand v y" "operand_at s operand v z"
    using Cons.prems(2) by (cases t) auto
  have rest: "\<forall>(b, y, z) \<in> set products. coeff_ok b \<and> operand_at s operand v y \<and> operand_at s operand v z"
    using Cons.prems(2) by simp
  show ?case
    unfolding t(1) product_expansions.simps
  proof (rule yields_bind [OF t(3) [unfolded operand_at_def]], rule yields_bind [OF t(4) [unfolded operand_at_def]])
    fix ey ez
    assume e: "expansion_at s ey = v y \<and> expansion_ok ey" "expansion_at s ez = v z \<and> expansion_ok ez"
    let ?out = "out @ expansion_product (expansion_product (coefficient_expansion b) ey) ez"
    have "expansion_ok ?out" "expansion_at s ?out = expansion_at s out + coeff_at s b * v y * v z"
      using Cons.prems(1) e coefficient_expansion_at [OF t(2), of s] by (simp_all add: product_at)
    then show "yields (product_expansions operand products ?out)
        (\<lambda>e. expansion_at s e = expansion_at s out + (\<Sum>(b, y, z) \<leftarrow> (b, y, z) # products. coeff_at s b * v y * v z) \<and> expansion_ok e)"
      using Cons.IH [OF _ rest, of ?out] by (simp add: add.assoc)
  qed
qed (simp add: normalize_at)

text \<open>What the addresses of a namespace stand for, under an assignment of the symbols.\<close>

definition column_of :: "namespace \<Rightarrow> circuit_address \<Rightarrow> circuit_address" where
  "column_of ns x =
     (case x of
        Inner _ _ \<Rightarrow> if ns_layered ns then (case ns_inverse ns x of Some i \<Rightarrow> Scratch i | None \<Rightarrow> x) else x
      | _ \<Rightarrow> x)"

definition column_at :: "(symbol \<Rightarrow> zp) \<Rightarrow> namespace \<Rightarrow> circuit_address \<Rightarrow> zp" where
  "column_at s ns x = s (ColumnOf (column_of ns x))"

definition child_at :: "(symbol \<Rightarrow> zp) \<Rightarrow> namespace \<Rightarrow> circuit_address \<Rightarrow> u8 \<Rightarrow> zp" where
  "child_at s ns x b = s (Child (column_of ns x) b)"

definition address_at :: "(symbol \<Rightarrow> zp) \<Rightarrow> namespace \<Rightarrow> circuit_address \<Rightarrow> zp" where
  "address_at s ns x =
     (case x of
        Cached _ offset \<Rightarrow>
          if ns_layered ns
          then gate_at (coeff_at s) (column_at s ns) (child_at s ns) (ce_gate (ns_cached ns ! unat offset))
          else column_at s ns x
      | _ \<Rightarrow> column_at s ns x)"

lemma ns_column_yields: "yields (ns_column ns op) (\<lambda>x. x = column_of ns op)"
  by (simp add: ns_column_def column_of_def split: circuit_address.split option.split)

lemma column_expansion_at: "yields (column_expansion ns op) (\<lambda>e. expansion_at s e = column_at s ns op \<and> expansion_ok e)"
  unfolding column_expansion_def
  by (rule yields_bind [OF ns_column_yields]) (simp add: term_at_def column_at_def)

lemma expand_with_at:
  assumes operand: "\<And>x. operand_at s operand v x" and "gate_canonical g"
  shows "yields (expand_with ns operand g)
    (\<lambda>e. expansion_at s e = gate_at (coeff_at s) v (child_at s ns) g \<and> expansion_ok e)"
proof -
  have affine: "yields (affine_expansion operand terms (coefficient_expansion const))
      (\<lambda>e. expansion_at s e = affine_at (coeff_at s) v terms const \<and> expansion_ok e)"
    if "coeff_ok const" "\<forall>c \<in> fst ` set terms. coeff_ok c" for terms const
    using affine_expansion_value [of const terms s operand v] operand that by (auto simp: split_beta)
  note step = yields_bind [OF operand [unfolded operand_at_def]]
  note column = yields_bind [OF ns_column_yields]
  show ?thesis
  proof (cases g)
    case (Linear terms const)
    then show ?thesis
      using assms(2) affine [of const terms] by (simp add: gate_canonical_def)
  next
    case (Product c left right)
    then show ?thesis
      using assms(2) coefficient_expansion_at [of c s]
      by (auto simp: gate_canonical_def product_at intro!: step)
  next
    case (MaskIntoIdentity input msk)
    then show ?thesis
      by (auto simp: product_at normalize_at term_at_def el_minus_one fr_consts intro!: step)
  next
    case (AffineProduct left left_constant right right_constant)
    then have "coeff_ok left_constant" "\<forall>c \<in> fst ` set left. coeff_ok c" "coeff_ok right_constant" "\<forall>c \<in> fst ` set right. coeff_ok c"
      using assms(2) by (auto simp: gate_canonical_def)
    then show ?thesis
      unfolding AffineProduct expand_with.simps
      by (intro yields_bind [OF affine] yields_bind [OF affine]) (auto simp: product_at)
  next
    case (TreeProduct input)
    then show ?thesis
      by (auto simp: term_at_def child_at_def intro!: column)
  next
    case (TreeCross left right)
    then show ?thesis
      by (auto simp: normalize_at term_at_def child_at_def intro!: column)
  next
    case (Quadratic const linear products)
    then have ok: "coeff_ok const" "\<forall>c \<in> fst ` set linear. coeff_ok c" "\<forall>(b, y, z) \<in> set products. coeff_ok b"
      using assms(2) by (force simp: gate_canonical_def)+
    have products: "\<forall>(b, y, z) \<in> set products. coeff_ok b \<and> operand_at s operand v y \<and> operand_at s operand v z"
      using ok(3) operand by auto
    show ?thesis
      unfolding Quadratic expand_with.simps gate_at.simps
    proof (rule yields_bind [OF affine [OF ok(1,2)]])
      fix out
      assume out: "expansion_at s out = affine_at (coeff_at s) v linear const \<and> expansion_ok out"
      show "yields (product_expansions operand products out)
          (\<lambda>e. expansion_at s e = affine_at (coeff_at s) v linear const + (\<Sum>(b, y, z) \<leftarrow> products. coeff_at s b * v y * v z) \<and> expansion_ok e)"
        using product_expansions_at [OF _ products, of out] out by simp
    qed
  qed
qed

lemma expand_gate_at:
  assumes "\<forall>e \<in> set (ns_cached ns). gate_canonical (ce_gate e)" "gate_canonical g"
  shows "yields (expand_gate ns g) (\<lambda>e. expansion_at s e = gate_at (coeff_at s) (address_at s ns) (child_at s ns) g \<and> expansion_ok e)"
proof -
  have entry: "operand_at s (entry_operand ns) (column_at s ns) x" for x
    using column_expansion_at [of ns x s] by (auto simp: operand_at_def entry_operand_def split: circuit_address.split)
  have "operand_at s (ns_operand ns) (address_at s ns) x" for x
  proof (cases "\<exists>k offset. x = Cached k offset \<and> ns_layered ns")
    case True
    then obtain k offset where x: "x = Cached k offset" "ns_layered ns"
      by blast
    show ?thesis
    proof (cases "unat offset < length (ns_cached ns)")
      case True
      then show ?thesis
        using expand_with_at [OF entry, of "ce_gate (ns_cached ns ! unat offset)" ns] assms(1) x
        by (simp add: operand_at_def ns_operand_def address_at_def idx_def)
    qed (simp add: x operand_at_def ns_operand_def idx_def)
  next
    case False
    then show ?thesis
      using column_expansion_at [of ns x s]
      by (auto simp: operand_at_def ns_operand_def address_at_def split: circuit_address.split)
  qed
  then show ?thesis
    unfolding expand_gate_def by (rule expand_with_at [OF _ assms(2)])
qed

text \<open>Equal normal forms, equal values.\<close>

lemma same_expansion_at:
  assumes "expand_gate ns g = Inr e" "expand_gate ns' g' = Inr e'" "normalize_terms e = normalize_terms e'"
    "\<forall>e \<in> set (ns_cached ns). gate_canonical (ce_gate e)" "gate_canonical g"
    "\<forall>e \<in> set (ns_cached ns'). gate_canonical (ce_gate e)" "gate_canonical g'"
  shows "gate_at (coeff_at s) (address_at s ns) (child_at s ns) g = gate_at (coeff_at s) (address_at s ns') (child_at s ns') g'"
proof -
  note e = yieldsD [OF expand_gate_at [OF assms(4,5)] assms(1), of s] and e' = yieldsD [OF expand_gate_at [OF assms(6,7)] assms(2), of s]
  have "expansion_at s (normalize_terms e) = expansion_at s (normalize_terms e')"
    using assms(3) by simp
  then show ?thesis
    using e e' by (simp add: normalize_at)
qed

end
