(* ===== verification/Laws.thy ===== *)
theory Laws
  imports Expansion
begin

text \<open>
  The construction-time checks of \<open>crates/constraints/src/laws.rs\<close>: \<open>validate\<close> with Laws 1 to 4, the degree
  ceiling and the rules on headers, names and lookups, and the cache-free compilation. The wording of a
  diagnostic is left out; an error keeps its kind and its place.
\<close>

datatype constraint_error =
    Locality u32 circuit_address
  | DerivedWidth u32
  | TopLayer
  | SingleSource
  | Degree nat
  | NotInlinable
  | MalformedCircuit

text \<open>A loop that stops at the first error.\<close>

fun each :: "('a \<Rightarrow> 'e + unit) \<Rightarrow> 'a list \<Rightarrow> 'e + unit" where
  "each f [] = Inr ()"
| "each f (x # xs) = bind_res (f x) (\<lambda>_. each f xs)"

fun any_res :: "('a \<Rightarrow> 'e + bool) \<Rightarrow> 'a list \<Rightarrow> 'e + bool" where
  "any_res f [] = Inr False"
| "any_res f (x # xs) = bind_res (f x) (\<lambda>b. if b then Inr True else any_res f xs)"

abbreviation (input) demand :: "bool \<Rightarrow> constraint_error fault + unit" where
  "demand b \<equiv> (if b then Inr () else refuse MalformedCircuit)"

definition numbered :: "'a list \<Rightarrow> (nat \<times> 'a) list" where
  "numbered xs = zip [0..<length xs] xs"

section \<open>Header and names\<close>

definition check_header :: "circuit_artifact \<Rightarrow> constraint_error fault + unit" where
  "check_header a =
     (if ca_format_version a \<noteq> 1 then refuse MalformedCircuit
      else if ca_coefficient_encoding a \<noteq> 0 then refuse MalformedCircuit
      else if ca_trace_vars a > 30 then refuse MalformedCircuit
      else if ca_layers a = [] then refuse MalformedCircuit
      else if length (pad_row (ca_padding a)) \<noteq> length (committed a) then refuse MalformedCircuit
      else
        each (\<lambda>(i, (kind, _)). demand (kind \<notin> set (map fst (take i (ca_virtuals a))))) (numbered (ca_virtuals a)))"

definition artifact_names :: "circuit_artifact \<Rightarrow> string list" where
  "artifact_names a =
     ca_memory a @ ca_witness a @ ca_setup a @ map snd (ca_virtuals a) @
     concat (map (\<lambda>l. map ce_name (ls_cached l)) (ca_layers a)) @
     map rel_name (ca_relations a) @ map lk_name (ca_lookups a) @ map ss_name (ca_scratch a)"

definition legal_char :: "char \<Rightarrow> bool" where
  "legal_char c \<longleftrightarrow> (CHR ''a'' \<le> c \<and> c \<le> CHR ''z'') \<or> (CHR ''0'' \<le> c \<and> c \<le> CHR ''9'') \<or> c = CHR ''_''"

fun no_adjacent :: "'a list \<Rightarrow> bool" where
  "no_adjacent (x # y # xs) \<longleftrightarrow> x \<noteq> y \<and> no_adjacent (y # xs)"
| "no_adjacent _ \<longleftrightarrow> True"

definition check_names :: "circuit_artifact \<Rightarrow> constraint_error fault + unit" where
  "check_names a =
     bind_res (each (\<lambda>name. demand (name \<noteq> [] \<and> list_all legal_char name)) (artifact_names a)) (\<lambda>_.
     demand (no_adjacent (sort (artifact_names a))))"

section \<open>Lookups\<close>

abbreviation (input) lookup_channel_COUNT :: nat where "lookup_channel_COUNT \<equiv> 5"
abbreviation (input) lookup_channel_IS_RANGE :: "bool list" where "lookup_channel_IS_RANGE \<equiv> [True, True, False, False, False]"
abbreviation (input) lookup_channel_MAX_TUPLE :: nat where "lookup_channel_MAX_TUPLE \<equiv> 7"

fun committed_column :: "circuit_artifact \<Rightarrow> circuit_address \<Rightarrow> bool" where
  "committed_column a (Memory i) \<longleftrightarrow> unat i < length (ca_memory a)"
| "committed_column a (Witness i) \<longleftrightarrow> unat i < length (ca_witness a)"
| "committed_column a (Setup i) \<longleftrightarrow> unat i < length (ca_setup a)"
| "committed_column a _ \<longleftrightarrow> False"

definition boolean_in_list_0 :: "circuit_artifact \<Rightarrow> circuit_address \<Rightarrow> 'e fault + bool" where
  "boolean_in_list_0 a x =
     bind_res (normal_form (Quadratic (Literal fr_zero) [(Literal fr_one, x)] [(Literal fr_minus_one, x, x)])) (\<lambda>want.
     bind_res (idx (ca_layers a) 0) (\<lambda>l.
       any_res (\<lambda>e. bind_res (normal_form (ee_gate e)) (\<lambda>n. Inr (n = want))) (ls_enforcing l)))"

definition is_literal :: "coeff \<Rightarrow> bool" where
  "is_literal c \<longleftrightarrow> (case c of Literal _ \<Rightarrow> True | ChallengeSlot _ \<Rightarrow> False)"

definition check_tuple :: "circuit_artifact \<Rightarrow> nat \<Rightarrow> gate_def \<Rightarrow> constraint_error fault + unit" where
  "check_tuple a j gate =
     (case gate of
        Linear terms const \<Rightarrow>
          if \<not> is_literal const \<or> \<not> list_all (is_literal \<circ> fst) terms then refuse MalformedCircuit
          else
            bind_res
              (each (\<lambda>(_, op). demand (case op of Virtual kind \<Rightarrow> kind \<in> set (map fst (ca_virtuals a)) | _ \<Rightarrow> committed_column a op)) terms) (\<lambda>_.
            if j > 0 \<and> (\<not> list_all (\<lambda>(c, _). c = Literal fr_one) terms \<or> const \<noteq> Literal fr_zero)
            then refuse MalformedCircuit else Inr ())
      | _ \<Rightarrow> refuse MalformedCircuit)"

definition check_lookup :: "circuit_artifact \<Rightarrow> lookup_expr \<Rightarrow> constraint_error fault + unit" where
  "check_lookup a l =
     (if unat (lk_channel l) \<ge> lookup_channel_COUNT then refuse MalformedCircuit
      else
        bind_res (idx lookup_channel_IS_RANGE (unat (lk_channel l))) (\<lambda>range.
        let width = length (lk_tuple l) in
        if \<not> (if range then width = 1 else 1 \<le> width \<and> width \<le> lookup_channel_MAX_TUPLE) then refuse MalformedCircuit
        else if list_ex (\<lambda>other. lk_channel other = lk_channel l \<and> length (lk_tuple other) \<noteq> width) (ca_lookups a)
          then refuse MalformedCircuit
        else if \<not> committed_column a (lk_selector l) then refuse MalformedCircuit
        else
          bind_res (boolean_in_list_0 a (lk_selector l)) (\<lambda>boolean.
          if \<not> boolean then refuse MalformedCircuit
          else each (\<lambda>(j, gate). check_tuple a j gate) (numbered (lk_tuple l)))))"

definition check_lookups :: "circuit_artifact \<Rightarrow> constraint_error fault + unit" where
  "check_lookups a = each (check_lookup a) (ca_lookups a)"

section \<open>Law 2: shapes\<close>

text \<open>The shapes of layers 0 to \<open>N\<close>, each stored value held to what the gates imply.\<close>

fun writes_in_order :: "u32 \<Rightarrow> nat \<Rightarrow> producing_entry list \<Rightarrow> bool" where
  "writes_in_order upper j [] \<longleftrightarrow> True"
| "writes_in_order upper j (e # es) \<longleftrightarrow> pe_output e = Inner upper (of_nat j) \<and> writes_in_order upper (j + 1) es"

fun shapes_from :: "nat \<Rightarrow> u32 \<Rightarrow> layer_spec list \<Rightarrow> constraint_error fault + (u32 \<times> u32) list" where
  "shapes_from k vars [] = Inr []"
| "shapes_from k vars (l # ls) =
     (let upper = of_nat k + 1; derived = (if ls_halving l then vars - 1 else vars) in
      if ls_halving l \<and> vars = 0 then refuse MalformedCircuit
      else if ls_num_vars l \<noteq> derived then refuse (DerivedWidth upper)
      else if unat (ls_width l) \<noteq> length (ls_producing l) then refuse (DerivedWidth upper)
      else if \<not> writes_in_order upper 0 (ls_producing l) then refuse (DerivedWidth upper)
      else
        bind_res (shapes_from (k + 1) derived ls) (\<lambda>rest.
          Inr ((derived, of_nat (length (ls_producing l))) # rest)))"

definition artifact_shapes :: "circuit_artifact \<Rightarrow> constraint_error fault + (u32 \<times> u32) list" where
  "artifact_shapes a =
     bind_res (shapes_from 0 (ca_trace_vars a) (ca_layers a)) (\<lambda>rest.
       Inr ((ca_trace_vars a, of_nat (length (committed a))) # rest))"

section \<open>Law 1, the halving rules and the degree ceiling\<close>

fun readable :: "circuit_artifact \<Rightarrow> nat \<Rightarrow> layer_spec \<Rightarrow> u32 \<Rightarrow> bool \<Rightarrow> circuit_address \<Rightarrow> bool" where
  "readable a k l width_k allow_cached (Memory i) \<longleftrightarrow> k = 0 \<and> unat i < length (ca_memory a)"
| "readable a k l width_k allow_cached (Witness i) \<longleftrightarrow> k = 0 \<and> unat i < length (ca_witness a)"
| "readable a k l width_k allow_cached (Setup i) \<longleftrightarrow> k = 0 \<and> unat i < length (ca_setup a)"
| "readable a k l width_k allow_cached (Virtual kind) \<longleftrightarrow> k = 0 \<and> kind \<in> set (map fst (ca_virtuals a))"
| "readable a k l width_k allow_cached (Inner layer offset) \<longleftrightarrow> k \<ge> 1 \<and> layer = of_nat k \<and> offset < width_k"
| "readable a k l width_k allow_cached (Cached layer offset) \<longleftrightarrow>
     allow_cached \<and> layer = of_nat k \<and> unat offset < length (ls_cached l)"
| "readable a k l width_k allow_cached (Scratch i) \<longleftrightarrow> False"

definition check_locality ::
  "circuit_artifact \<Rightarrow> nat \<Rightarrow> layer_spec \<Rightarrow> u32 \<Rightarrow> bool \<Rightarrow> gate_def \<Rightarrow> constraint_error fault + unit" where
  "check_locality a k l width_k allow_cached gate =
     (case find (\<lambda>x. \<not> readable a k l width_k allow_cached x) (operands gate) of
        Some x \<Rightarrow> refuse (Locality (of_nat k) x)
      | None \<Rightarrow> Inr ())"

definition halving_shape :: "gate_def \<Rightarrow> bool" where
  "halving_shape gate \<longleftrightarrow> (case gate of TreeProduct _ \<Rightarrow> True | TreeCross _ _ \<Rightarrow> True | _ \<Rightarrow> False)"

definition row_wise_shape :: "gate_def \<Rightarrow> constraint_error fault + unit" where
  "row_wise_shape gate = (if halving_shape gate then refuse MalformedCircuit else Inr ())"

text \<open>A gate's degree, an operand counting as its cached entry's; an entry's own operands may name none.\<close>

fun max_of :: "nat list \<Rightarrow> nat" where
  "max_of [] = 0"
| "max_of (x # xs) = max x (max_of xs)"

fun shape_degree :: "(circuit_address \<Rightarrow> nat) \<Rightarrow> gate_def \<Rightarrow> nat" where
  "shape_degree d (Linear terms _) = max_of (map (d \<circ> snd) terms)"
| "shape_degree d (Product _ left right) = d left + d right"
| "shape_degree d (MaskIntoIdentity input msk) = max (d input + d msk) (d msk)"
| "shape_degree d (AffineProduct left _ right _) = max_of (map (d \<circ> snd) left) + max_of (map (d \<circ> snd) right)"
| "shape_degree d (TreeProduct _) = 2"
| "shape_degree d (TreeCross _ _) = 2"
| "shape_degree d (Quadratic _ linear products) =
     max (max_of (map (d \<circ> snd) linear)) (max_of (map (\<lambda>(_, y, z). d y + d z) products))"

definition degree_by :: "(circuit_address \<Rightarrow> 'e fault + nat) \<Rightarrow> gate_def \<Rightarrow> 'e fault + nat" where
  "degree_by d gate =
     (if halving_shape gate then Inr 2
      else
        bind_res (map_res d (operands gate)) (\<lambda>_.
          Inr (shape_degree (\<lambda>x. case d x of Inr n \<Rightarrow> n | Inl _ \<Rightarrow> 0) gate)))"

definition entry_degree :: "gate_def \<Rightarrow> 'e fault + nat" where
  "entry_degree gate = degree_by (\<lambda>op. case op of Cached _ _ \<Rightarrow> panic | _ \<Rightarrow> Inr 1) gate"

definition gate_degree :: "cached_entry list \<Rightarrow> gate_def \<Rightarrow> 'e fault + nat" where
  "gate_degree cached gate =
     degree_by (\<lambda>op.
       case op of
         Cached _ offset \<Rightarrow> bind_res (idx cached (unat offset)) (\<lambda>e. entry_degree (ce_gate e))
       | _ \<Rightarrow> Inr 1) gate"

definition check_degree :: "cached_entry list \<Rightarrow> gate_def \<Rightarrow> constraint_error fault + unit" where
  "check_degree cached gate =
     bind_res (gate_degree cached gate) (\<lambda>d. if d > 2 then refuse (Degree d) else Inr ())"

definition check_halving_list :: "circuit_artifact \<Rightarrow> nat \<Rightarrow> layer_spec \<Rightarrow> u32 \<Rightarrow> constraint_error fault + unit" where
  "check_halving_list a k l width_k =
     (if k = 0 then refuse MalformedCircuit
      else if ls_cached l \<noteq> [] \<or> ls_enforcing l \<noteq> [] then refuse MalformedCircuit
      else
        bind_res
          (each (\<lambda>e. bind_res (check_locality a k l width_k False (pe_gate e)) (\<lambda>_. demand (halving_shape (pe_gate e)))) (ls_producing l)) (\<lambda>_.
        demand (length (ls_producing l) = unat width_k)))"

definition check_row_list :: "circuit_artifact \<Rightarrow> nat \<Rightarrow> layer_spec \<Rightarrow> u32 \<Rightarrow> constraint_error fault + unit" where
  "check_row_list a k l width_k =
     bind_res
       (each (\<lambda>(j, e).
          bind_res (demand (ce_address e = Cached (of_nat k) (of_nat j))) (\<lambda>_.
          bind_res (row_wise_shape (ce_gate e)) (\<lambda>_. check_locality a k l width_k False (ce_gate e)))) (numbered (ls_cached l))) (\<lambda>_.
     bind_res
       (each (\<lambda>e. bind_res (row_wise_shape (pe_gate e)) (\<lambda>_. check_locality a k l width_k True (pe_gate e))) (ls_producing l)) (\<lambda>_.
     bind_res
       (each (\<lambda>e. bind_res (row_wise_shape (ee_gate e)) (\<lambda>_. check_locality a k l width_k True (ee_gate e))) (ls_enforcing l)) (\<lambda>_.
     bind_res (each (\<lambda>e. check_degree [] (ce_gate e)) (ls_cached l)) (\<lambda>_.
     bind_res (each (\<lambda>e. check_degree (ls_cached l) (pe_gate e)) (ls_producing l)) (\<lambda>_.
     each (\<lambda>e. check_degree (ls_cached l) (ee_gate e)) (ls_enforcing l))))))"

definition check_gate_list :: "circuit_artifact \<Rightarrow> nat \<Rightarrow> layer_spec \<Rightarrow> u32 \<Rightarrow> constraint_error fault + unit" where
  "check_gate_list a k l width_k =
     (if ls_halving l then check_halving_list a k l width_k else check_row_list a k l width_k)"

section \<open>The flat list and the top layer\<close>

fun flat_operand :: "circuit_artifact \<Rightarrow> circuit_address \<Rightarrow> bool" where
  "flat_operand a (Virtual kind) \<longleftrightarrow> kind \<in> set (map fst (ca_virtuals a))"
| "flat_operand a (Scratch i) \<longleftrightarrow> unat i < length (ca_scratch a)"
| "flat_operand a op \<longleftrightarrow> committed_column a op"

fun count_relations :: "circuit_artifact \<Rightarrow> relation list \<Rightarrow> nat list \<Rightarrow> constraint_error fault + nat list" where
  "count_relations a [] defined = Inr defined"
| "count_relations a (r # rs) defined =
     bind_res (each (\<lambda>op. demand (flat_operand a op)) (operands (rel_gate r))) (\<lambda>_.
     bind_res
       (case rel_output r of
          Some s \<Rightarrow>
            if unat s < length defined then Inr (defined[unat s := defined ! unat s + 1]) else refuse MalformedCircuit
        | None \<Rightarrow> Inr defined) (\<lambda>defined.
     bind_res (check_degree [] (rel_gate r)) (\<lambda>_.
     count_relations a rs defined)))"

fun check_scratch :: "(u32 \<times> u32) list \<Rightarrow> scratch_slot list \<Rightarrow> circuit_address set \<Rightarrow> constraint_error fault + unit" where
  "check_scratch ss [] seen = Inr ()"
| "check_scratch ss (slot # slots) seen =
     bind_res
       (case ss_address slot of
          Inner layer offset \<Rightarrow>
            if layer \<ge> 1 \<and> unat layer < length ss
            then bind_res (idx ss (unat layer)) (\<lambda>(_, width). Inr (offset < width)) else Inr False
        | _ \<Rightarrow> Inr False) (\<lambda>in_range.
     if \<not> in_range \<or> ss_address slot \<in> seen then refuse MalformedCircuit
     else check_scratch ss slots (insert (ss_address slot) seen))"

definition check_relations :: "circuit_artifact \<Rightarrow> (u32 \<times> u32) list \<Rightarrow> constraint_error fault + unit" where
  "check_relations a ss =
     bind_res (count_relations a (ca_relations a) (replicate (length (ca_scratch a)) 0)) (\<lambda>defined.
     if list_ex (\<lambda>n. n \<noteq> 1) defined then refuse MalformedCircuit
     else if length (ca_scratch a) \<noteq> sum_list (map (unat \<circ> snd) (tl ss)) then refuse MalformedCircuit
     else check_scratch ss (ca_scratch a) {})"

definition check_top_layer :: "circuit_artifact \<Rightarrow> (u32 \<times> u32) list \<Rightarrow> constraint_error fault + unit" where
  "check_top_layer a ss =
     (let n = of_nat (length (ca_layers a)) :: u32 in
      bind_res (idx ss (unat n)) (\<lambda>(_, width).
      if length (ca_outputs a) \<noteq> unat width then refuse TopLayer
      else
        each (\<lambda>(i, out).
          if (case out of Inner layer offset \<Rightarrow> layer = n \<and> offset < width | _ \<Rightarrow> False) \<and> out \<notin> set (take i (ca_outputs a))
          then Inr () else refuse TopLayer) (numbered (ca_outputs a))))"

definition list_gates :: "layer_spec \<Rightarrow> gate_def list" where
  "list_gates l = map ce_gate (ls_cached l) @ map pe_gate (ls_producing l) @ map ee_gate (ls_enforcing l)"

abbreviation (input) challenge_slot_COUNT :: nat where "challenge_slot_COUNT \<equiv> 14"

definition check_challenge_slots :: "circuit_artifact \<Rightarrow> constraint_error fault + unit" where
  "check_challenge_slots a =
     each (\<lambda>c. case c of ChallengeSlot slot \<Rightarrow> demand (unat slot < challenge_slot_COUNT) | Literal _ \<Rightarrow> Inr ())
       (concat (map coefficients (concat (map list_gates (ca_layers a)) @ map rel_gate (ca_relations a))))"

section \<open>Law 4: one source\<close>

text \<open>The map from inner columns to scratch slots; a later slot of the same column overwrites an earlier.\<close>

definition scratch_inverse :: "circuit_artifact \<Rightarrow> circuit_address \<Rightarrow> u32 option" where
  "scratch_inverse a = map_of (rev (map (\<lambda>(i, s). (ss_address s, of_nat i)) (numbered (ca_scratch a))))"

definition flat_space :: "circuit_artifact \<Rightarrow> namespace" where
  "flat_space a = \<lparr>ns_layered = False, ns_cached = [], ns_inverse = scratch_inverse a\<rparr>"

definition layered_space :: "circuit_artifact \<Rightarrow> layer_spec \<Rightarrow> namespace" where
  "layered_space a l = \<lparr>ns_layered = True, ns_cached = ls_cached l, ns_inverse = scratch_inverse a\<rparr>"

definition same_polynomial :: "circuit_artifact \<Rightarrow> layer_spec \<Rightarrow> gate_def \<Rightarrow> gate_def \<Rightarrow> constraint_error fault + unit" where
  "same_polynomial a l rel gate =
     bind_res (expand_gate (flat_space a) rel) (\<lambda>x.
     bind_res (expand_gate (layered_space a l) gate) (\<lambda>y.
     if normalize_terms x \<noteq> normalize_terms y then refuse SingleSource else Inr ()))"

text \<open>\<open>claim\<close>: the relation a gate names, once.\<close>

definition claim_relation :: "u32 \<Rightarrow> bool list \<times> nat \<Rightarrow> constraint_error fault + (nat \<times> bool list \<times> nat)" where
  "claim_relation index st =
     (let (encoded, entries) = st; i = unat index in
      if i < length encoded
      then if encoded ! i then refuse SingleSource else Inr (i, encoded[i := True], entries + 1)
      else refuse SingleSource)"

fun producing_source ::
  "circuit_artifact \<Rightarrow> layer_spec \<Rightarrow> producing_entry list \<Rightarrow> bool list \<times> nat \<Rightarrow> constraint_error fault + (bool list \<times> nat)" where
  "producing_source a l [] st = Inr st"
| "producing_source a l (e # es) st =
     bind_res (claim_relation (pe_relation e) st) (\<lambda>(i, st).
     bind_res (idx (ca_relations a) i) (\<lambda>r.
     bind_res
       (case rel_output r of
          Some s \<Rightarrow> bind_res (idx (ca_scratch a) (unat s)) (\<lambda>slot. Inr (ss_address slot = pe_output e))
        | None \<Rightarrow> Inr False) (\<lambda>defined.
     if \<not> defined then refuse SingleSource
     else bind_res (same_polynomial a l (rel_gate r) (pe_gate e)) (\<lambda>_. producing_source a l es st))))"

fun enforcing_source ::
  "circuit_artifact \<Rightarrow> layer_spec \<Rightarrow> enforcing_entry list \<Rightarrow> bool list \<times> nat \<Rightarrow> constraint_error fault + (bool list \<times> nat)" where
  "enforcing_source a l [] st = Inr st"
| "enforcing_source a l (e # es) st =
     bind_res (claim_relation (ee_relation e) st) (\<lambda>(i, st).
     bind_res (idx (ca_relations a) i) (\<lambda>r.
     if rel_output r \<noteq> None then refuse SingleSource
     else bind_res (same_polynomial a l (rel_gate r) (ee_gate e)) (\<lambda>_. enforcing_source a l es st)))"

fun layers_source :: "circuit_artifact \<Rightarrow> layer_spec list \<Rightarrow> bool list \<times> nat \<Rightarrow> constraint_error fault + (bool list \<times> nat)" where
  "layers_source a [] st = Inr st"
| "layers_source a (l # ls) st =
     bind_res (producing_source a l (ls_producing l) st) (\<lambda>st.
     bind_res (enforcing_source a l (ls_enforcing l) st) (\<lambda>st.
     layers_source a ls st))"

definition single_source :: "circuit_artifact \<Rightarrow> constraint_error fault + unit" where
  "single_source a =
     bind_res (layers_source a (ca_layers a) (replicate (length (ca_relations a)) False, 0)) (\<lambda>(_, entries).
     if entries \<noteq> length (ca_relations a) then refuse SingleSource else Inr ())"

section \<open>Nothing dropped\<close>

text \<open>The inner columns a gate's expansion reads.\<close>

fun symbols_read :: "circuit_artifact \<Rightarrow> symbol list \<Rightarrow> circuit_address set \<Rightarrow> 'e fault + circuit_address set" where
  "symbols_read a [] seen = Inr seen"
| "symbols_read a (ColumnOf (Scratch s) # symbols) seen =
     bind_res (idx (ca_scratch a) (unat s)) (\<lambda>slot. symbols_read a symbols (insert (ss_address slot) seen))"
| "symbols_read a (Child (Scratch s) _ # symbols) seen =
     bind_res (idx (ca_scratch a) (unat s)) (\<lambda>slot. symbols_read a symbols (insert (ss_address slot) seen))"
| "symbols_read a (_ # symbols) seen = symbols_read a symbols seen"

fun gates_read :: "circuit_artifact \<Rightarrow> layer_spec \<Rightarrow> gate_def list \<Rightarrow> circuit_address set \<Rightarrow> 'e fault + circuit_address set" where
  "gates_read a l [] seen = Inr seen"
| "gates_read a l (g # gs) seen =
     bind_res (expand_gate (layered_space a l) g) (\<lambda>e.
     bind_res (symbols_read a (concat (map fst e)) seen) (\<lambda>seen.
     gates_read a l gs seen))"

definition row_gates :: "layer_spec \<Rightarrow> gate_def list" where
  "row_gates l = map pe_gate (ls_producing l) @ map ee_gate (ls_enforcing l)"

definition list_dropped :: "circuit_artifact \<Rightarrow> (u32 \<times> u32) list \<Rightarrow> nat \<Rightarrow> layer_spec \<Rightarrow> constraint_error fault + unit" where
  "list_dropped a ss k l =
     bind_res
       (each (\<lambda>e.
          bind_res (expand_gate (layered_space a l) (ee_gate e)) (\<lambda>x.
          if x = [] then bind_res (idx (ca_relations a) (unat (ee_relation e))) (\<lambda>_. refuse MalformedCircuit) else Inr ()))
          (ls_enforcing l)) (\<lambda>_.
     bind_res
       (each (\<lambda>e. demand (ce_address e \<in> set (concat (map operands (row_gates l))))) (ls_cached l)) (\<lambda>_.
     if k = 0 then Inr ()
     else
       bind_res (gates_read a l (row_gates l) {}) (\<lambda>seen.
       bind_res (idx ss k) (\<lambda>(_, width).
       each (\<lambda>j. demand (Inner (of_nat k) (of_nat j) \<in> seen)) [0..<unat width]))))"

definition nothing_dropped :: "circuit_artifact \<Rightarrow> (u32 \<times> u32) list \<Rightarrow> constraint_error fault + unit" where
  "nothing_dropped a ss = each (\<lambda>(k, l). list_dropped a ss k l) (numbered (ca_layers a))"

section \<open>Validation\<close>

definition validate_artifact :: "circuit_artifact \<Rightarrow> constraint_error fault + unit" where
  "validate_artifact a =
     bind_res (check_header a) (\<lambda>_.
     bind_res (check_names a) (\<lambda>_.
     bind_res (check_lookups a) (\<lambda>_.
     bind_res (artifact_shapes a) (\<lambda>ss.
     bind_res
       (each (\<lambda>(k, l). bind_res (idx ss k) (\<lambda>(_, width_k). check_gate_list a k l width_k)) (numbered (ca_layers a))) (\<lambda>_.
     bind_res (check_relations a ss) (\<lambda>_.
     bind_res (check_top_layer a ss) (\<lambda>_.
     bind_res (check_challenge_slots a) (\<lambda>_.
     bind_res (single_source a) (\<lambda>_.
     nothing_dropped a ss)))))))))"

section \<open>The cache-free compilation\<close>

fun inline_linear :: "cached_entry list \<Rightarrow> circuit_address \<Rightarrow> 'e fault + ((coeff \<times> circuit_address) list \<times> coeff) option option" where
  "inline_linear cached (Cached _ offset) =
     bind_res (idx cached (unat offset)) (\<lambda>e.
       Inr (Some (case ce_gate e of Linear terms const \<Rightarrow> Some (terms, const) | _ \<Rightarrow> None)))"
| "inline_linear cached _ = Inr None"

definition is_cached :: "circuit_address \<Rightarrow> bool" where
  "is_cached op \<longleftrightarrow> (case op of Cached _ _ \<Rightarrow> True | _ \<Rightarrow> False)"

definition inline_gate :: "cached_entry list \<Rightarrow> gate_def \<Rightarrow> constraint_error fault + gate_def" where
  "inline_gate cached gate =
     (if \<not> list_ex is_cached (operands gate) then Inr gate
      else
        (case gate of
           Product c left right \<Rightarrow>
             bind_res (inline_linear cached left) (\<lambda>l. bind_res (inline_linear cached right) (\<lambda>r.
             case (l, r) of
               (Some (Some (terms, const)), None) \<Rightarrow> Inr (AffineProduct terms const [(c, right)] (Literal fr_zero))
             | (None, Some (Some (terms, const))) \<Rightarrow> Inr (AffineProduct [(c, left)] (Literal fr_zero) terms const)
             | _ \<Rightarrow> refuse NotInlinable))
         | _ \<Rightarrow> refuse NotInlinable))"

definition inline_layer :: "circuit_artifact \<Rightarrow> layer_spec \<Rightarrow> constraint_error fault + layer_spec" where
  "inline_layer a l =
     bind_res (map_res (\<lambda>e. bind_res (idx (ca_relations a) (unat (pe_relation e))) (\<lambda>_.
       bind_res (inline_gate (ls_cached l) (pe_gate e)) (\<lambda>g. Inr (e\<lparr>pe_gate := g\<rparr>)))) (ls_producing l)) (\<lambda>producing.
     bind_res (map_res (\<lambda>e. bind_res (idx (ca_relations a) (unat (ee_relation e))) (\<lambda>_.
       bind_res (inline_gate (ls_cached l) (ee_gate e)) (\<lambda>g. Inr (e\<lparr>ee_gate := g\<rparr>)))) (ls_enforcing l)) (\<lambda>enforcing.
     Inr (l\<lparr>ls_cached := [], ls_producing := producing, ls_enforcing := enforcing\<rparr>)))"

definition inline_cached :: "circuit_artifact \<Rightarrow> constraint_error fault + circuit_artifact" where
  "inline_cached a =
     bind_res (validate_artifact a) (\<lambda>_.
     bind_res (map_res (inline_layer a) (ca_layers a)) (\<lambda>layers.
     bind_res (validate_artifact (a\<lparr>ca_layers := layers\<rparr>)) (\<lambda>_.
     Inr (a\<lparr>ca_layers := layers\<rparr>))))"

section \<open>What a valid artifact satisfies\<close>

lemma each_Inr [simp]: "each f xs = Inr u \<longleftrightarrow> (\<forall>x \<in> set xs. f x = Inr ())"
  by (induction xs) auto

lemma set_numbered: "(k, x) \<in> set (numbered xs) \<longleftrightarrow> k < length xs \<and> xs ! k = x"
  by (force simp: numbered_def set_zip)

lemma locality_Inr [simp]:
  "check_locality a k l w c g = Inr u \<longleftrightarrow> (\<forall>x \<in> set (operands g). readable a k l w c x)"
  proof (cases "find (\<lambda>x. \<not> readable a k l w c x) (operands g)")
  case None
  then have "\<forall>x \<in> set (operands g). readable a k l w c x"
    by (auto simp: find_None_iff)
  then show ?thesis
    using None by (simp add: check_locality_def)
next
  case (Some x)
  then have "x \<in> set (operands g) \<and> \<not> readable a k l w c x"
    by (auto simp: find_Some_iff)
  then show ?thesis
    using Some by (auto simp: check_locality_def)
qed

lemma row_wise_Inr [simp]: "row_wise_shape g = Inr u \<longleftrightarrow> \<not> halving_shape g"
  by (simp add: row_wise_shape_def)

lemma row_list_facts:
  assumes "check_row_list a k l w = Inr u"
  shows "e \<in> set (ls_cached l) \<Longrightarrow> \<not> halving_shape (ce_gate e) \<and> (\<forall>x \<in> set (operands (ce_gate e)). readable a k l w False x)"
    "g \<in> set (row_gates l) \<Longrightarrow> \<not> halving_shape g \<and> (\<forall>x \<in> set (operands g). readable a k l w True x)"
proof -
  have "\<forall>(j, e) \<in> set (numbered (ls_cached l)). \<not> halving_shape (ce_gate e) \<and> (\<forall>x \<in> set (operands (ce_gate e)). readable a k l w False x)"
    using assms by (auto simp: check_row_list_def split: if_splits)
  moreover have "\<exists>j. (j, e) \<in> set (numbered (ls_cached l))" if "e \<in> set (ls_cached l)"
    unfolding set_numbered using that by (simp add: in_set_conv_nth)
  ultimately show "e \<in> set (ls_cached l) \<Longrightarrow> \<not> halving_shape (ce_gate e) \<and> (\<forall>x \<in> set (operands (ce_gate e)). readable a k l w False x)"
    by blast
  show "g \<in> set (row_gates l) \<Longrightarrow> \<not> halving_shape g \<and> (\<forall>x \<in> set (operands g). readable a k l w True x)"
    using assms by (auto simp: check_row_list_def row_gates_def)
qed

lemma halving_list_facts:
  assumes "check_halving_list a k l w = Inr u"
  shows "k \<noteq> 0" "ls_cached l = []" "ls_enforcing l = []" "length (ls_producing l) = unat w"
    "g \<in> set (row_gates l) \<Longrightarrow> halving_shape g \<and> (\<forall>x \<in> set (operands g). readable a k l w False x)"
  using assms by (auto simp: check_halving_list_def row_gates_def split: if_splits)

text \<open>The shape of a layer: its variables and its width, below the gate list and above it.\<close>

definition vars_below :: "circuit_artifact \<Rightarrow> nat \<Rightarrow> u32" where
  "vars_below a k = (if k = 0 then ca_trace_vars a else ls_num_vars (ca_layers a ! (k - 1)))"

definition width_below :: "circuit_artifact \<Rightarrow> nat \<Rightarrow> u32" where
  "width_below a k = (if k = 0 then of_nat (length (committed a)) else ls_width (ca_layers a ! (k - 1)))"

lemma shapes_from_facts:
  "shapes_from k v ls = Inr ss \<Longrightarrow> length ss = length ls \<and>
    (\<forall>i < length ls. ss ! i = (ls_num_vars (ls ! i), ls_width (ls ! i)) \<and>
      unat (ls_width (ls ! i)) = length (ls_producing (ls ! i)) \<and>
      writes_in_order (of_nat (k + i) + 1) 0 (ls_producing (ls ! i)) \<and>
      (let below = if i = 0 then v else ls_num_vars (ls ! (i - 1)) in
        ls_num_vars (ls ! i) = (if ls_halving (ls ! i) then below - 1 else below) \<and> (ls_halving (ls ! i) \<longrightarrow> below \<noteq> 0)))"
proof (induction ls arbitrary: k v ss)
  case (Cons l ls)
  define derived where "derived = (if ls_halving l then v - 1 else v)"
  obtain rest where r: "ls_halving l \<longrightarrow> v \<noteq> 0" "ls_num_vars l = derived" "unat (ls_width l) = length (ls_producing l)"
    "writes_in_order (of_nat k + 1) 0 (ls_producing l)"
    "shapes_from (k + 1) derived ls = Inr rest" "ss = (derived, of_nat (length (ls_producing l))) # rest"
    using Cons.prems by (auto simp: derived_def Let_def split: if_splits)
  have w: "of_nat (length (ls_producing l)) = ls_width l"
    by (simp flip: r(3))
  note ih = Cons.IH [OF r(5)]
  show ?case
  proof (intro conjI allI impI)
    fix i
    assume i: "i < length (l # ls)"
    consider "i = 0" | j where "i = Suc j" "j < length ls"
      using i by (cases i) auto
    note cases = this
    note at = ih [THEN conjunct2, rule_format]
    show "ss ! i = (ls_num_vars ((l # ls) ! i), ls_width ((l # ls) ! i))"
      by (rule cases) (simp_all add: at r(2,6) w)
    show "unat (ls_width ((l # ls) ! i)) = length (ls_producing ((l # ls) ! i))"
      by (rule cases) (simp_all add: at r(3))
    show "writes_in_order (of_nat (k + i) + 1) 0 (ls_producing ((l # ls) ! i))"
      using at r(4) by (rule_tac cases) (simp_all add: algebra_simps)
    show "let below = if i = 0 then v else ls_num_vars ((l # ls) ! (i - 1)) in
        ls_num_vars ((l # ls) ! i) = (if ls_halving ((l # ls) ! i) then below - 1 else below) \<and> (ls_halving ((l # ls) ! i) \<longrightarrow> below \<noteq> 0)"
    proof (rule cases)
      fix j
      assume "i = Suc j" "j < length ls"
      then show ?thesis
        using at [of j] r(2) by (cases j) (simp_all add: Let_def)
    qed (use r(1,2) in \<open>simp add: derived_def Let_def\<close>)
  qed (use ih r(6) in simp)
qed simp

lemma writes_in_order_nth:
  "writes_in_order upper j es \<Longrightarrow> i < length es \<Longrightarrow> pe_output (es ! i) = Inner upper (of_nat (j + i))"
proof (induction es arbitrary: i j)
  case (Cons e es)
  then show ?case
    by (cases i) (auto simp: add.commute)
qed simp

lemma valid_shapes:
  assumes valid: "validate_artifact a = Inr ()"
  obtains ss where "artifact_shapes a = Inr ss" "length ss = Suc (length (ca_layers a))"
    "\<And>k. k \<le> length (ca_layers a) \<Longrightarrow> ss ! k = (vars_below a k, width_below a k)"
proof -
  obtain rest where r: "shapes_from 0 (ca_trace_vars a) (ca_layers a) = Inr rest"
    using valid by (auto simp: validate_artifact_def artifact_shapes_def)
  then show thesis
    using that [of "(ca_trace_vars a, of_nat (length (committed a))) # rest"] shapes_from_facts [OF r]
    by (auto simp: artifact_shapes_def vars_below_def width_below_def nth_Cons' le_less_Suc_eq)
qed

lemma layer_shape:
  assumes valid: "validate_artifact a = Inr ()" and "k < length (ca_layers a)"
  shows "unat (ls_width (ca_layers a ! k)) = length (ls_producing (ca_layers a ! k))"
    "ls_num_vars (ca_layers a ! k) = (if ls_halving (ca_layers a ! k) then vars_below a k - 1 else vars_below a k)"
    "ls_halving (ca_layers a ! k) \<Longrightarrow> vars_below a k \<noteq> 0"
    "j < length (ls_producing (ca_layers a ! k)) \<Longrightarrow> pe_output (ls_producing (ca_layers a ! k) ! j) = Inner (of_nat k + 1) (of_nat j)"
proof -
  obtain rest where r: "shapes_from 0 (ca_trace_vars a) (ca_layers a) = Inr rest"
    using valid by (auto simp: validate_artifact_def artifact_shapes_def)
  note facts = shapes_from_facts [OF r, THEN conjunct2, rule_format, OF assms(2)]
  show "unat (ls_width (ca_layers a ! k)) = length (ls_producing (ca_layers a ! k))"
    "ls_num_vars (ca_layers a ! k) = (if ls_halving (ca_layers a ! k) then vars_below a k - 1 else vars_below a k)"
    "ls_halving (ca_layers a ! k) \<Longrightarrow> vars_below a k \<noteq> 0"
    using facts by (simp_all add: vars_below_def Let_def)
  show "j < length (ls_producing (ca_layers a ! k)) \<Longrightarrow> pe_output (ls_producing (ca_layers a ! k) ! j) = Inner (of_nat k + 1) (of_nat j)"
    using facts writes_in_order_nth [of "of_nat k + 1" 0] by simp
qed

lemma valid_gate_list:
  assumes valid: "validate_artifact a = Inr ()" and "k < length (ca_layers a)"
  shows "check_gate_list a k (ca_layers a ! k) (width_below a k) = Inr ()"
proof -
  obtain ss where ss: "artifact_shapes a = Inr ss" "length ss = Suc (length (ca_layers a))"
    "\<And>k. k \<le> length (ca_layers a) \<Longrightarrow> ss ! k = (vars_below a k, width_below a k)"
    using valid_shapes [OF valid] by blast
  have "\<forall>(k, l) \<in> set (numbered (ca_layers a)). bind_res (idx ss k) (\<lambda>(_, w). check_gate_list a k l w) = Inr ()"
    using valid ss(1) by (auto simp: validate_artifact_def)
  then have "bind_res (idx ss k) (\<lambda>(_, w). check_gate_list a k (ca_layers a ! k) w) = Inr ()"
    using assms(2) by (auto simp: set_numbered)
  then show ?thesis
    using ss(2,3) assms(2) by (simp add: bind_idx)
qed


text \<open>Law 4: the relation a gate encodes.\<close>

definition encodes :: "circuit_artifact \<Rightarrow> layer_spec \<Rightarrow> u32 \<Rightarrow> gate_def \<Rightarrow> (u32 option \<Rightarrow> bool) \<Rightarrow> bool" where
  "encodes a l i gate output \<longleftrightarrow> unat i < length (ca_relations a) \<and> output (rel_output (ca_relations a ! unat i)) \<and>
     same_polynomial a l (rel_gate (ca_relations a ! unat i)) gate = Inr ()"

definition defines_column :: "circuit_artifact \<Rightarrow> circuit_address \<Rightarrow> u32 option \<Rightarrow> bool" where
  "defines_column a x output \<longleftrightarrow> (\<exists>s. output = Some s \<and> unat s < length (ca_scratch a) \<and> ss_address (ca_scratch a ! unat s) = x)"

lemma claim_relation_facts:
  "claim_relation i st = Inr (j, st') \<Longrightarrow> j = unat i \<and> j < length (fst st) \<and> length (fst st') = length (fst st)"
  by (auto simp: claim_relation_def Let_def split: prod.splits if_splits)

lemma producing_source_facts:
  "producing_source a l es st = Inr st' \<Longrightarrow> length (fst st) = length (ca_relations a) \<Longrightarrow>
    length (fst st') = length (ca_relations a) \<and> (\<forall>e \<in> set es. encodes a l (pe_relation e) (pe_gate e) (defines_column a (pe_output e)))"
proof (induction es arbitrary: st)
  case (Cons e es)
  obtain i st1 where c: "claim_relation (pe_relation e) st = Inr (i, st1)"
    using Cons.prems(1) by auto
  note i = claim_relation_facts [OF c]
  let ?r = "ca_relations a ! i"
  have "defines_column a (pe_output e) (rel_output ?r) \<and> same_polynomial a l (rel_gate ?r) (pe_gate e) = Inr () \<and> producing_source a l es st1 = Inr st'"
    using Cons.prems(1) i Cons.prems(2) by (auto simp: c idx_def defines_column_def split: option.splits if_splits)
  then show ?case
    using Cons.IH [of st1] i Cons.prems(2) by (auto simp: encodes_def)
qed simp

lemma enforcing_source_facts:
  "enforcing_source a l es st = Inr st' \<Longrightarrow> length (fst st) = length (ca_relations a) \<Longrightarrow>
    length (fst st') = length (ca_relations a) \<and> (\<forall>e \<in> set es. encodes a l (ee_relation e) (ee_gate e) (\<lambda>out. out = None))"
proof (induction es arbitrary: st)
  case (Cons e es)
  obtain i st1 where c: "claim_relation (ee_relation e) st = Inr (i, st1)"
    using Cons.prems(1) by auto
  note i = claim_relation_facts [OF c]
  let ?r = "ca_relations a ! i"
  have "rel_output ?r = None \<and> same_polynomial a l (rel_gate ?r) (ee_gate e) = Inr () \<and> enforcing_source a l es st1 = Inr st'"
    using Cons.prems(1) i Cons.prems(2) by (auto simp: c idx_def split: if_splits)
  then show ?case
    using Cons.IH [of st1] i Cons.prems(2) by (auto simp: encodes_def)
qed simp

lemma layers_source_facts:
  "layers_source a ls st = Inr st' \<Longrightarrow> length (fst st) = length (ca_relations a) \<Longrightarrow>
    (\<forall>l \<in> set ls. (\<forall>e \<in> set (ls_producing l). encodes a l (pe_relation e) (pe_gate e) (defines_column a (pe_output e))) \<and>
      (\<forall>e \<in> set (ls_enforcing l). encodes a l (ee_relation e) (ee_gate e) (\<lambda>out. out = None)))"
proof (induction ls arbitrary: st)
  case (Cons l ls)
  obtain st1 st2 where s: "producing_source a l (ls_producing l) st = Inr st1" "enforcing_source a l (ls_enforcing l) st1 = Inr st2"
    "layers_source a ls st2 = Inr st'"
    using Cons.prems(1) by auto
  note p = producing_source_facts [OF s(1) Cons.prems(2)]
  note e = enforcing_source_facts [OF s(2) conjunct1 [OF p]]
  show ?case
    using p e Cons.IH [OF s(3)] by simp
qed simp

lemma valid_source:
  assumes "validate_artifact a = Inr ()" "l \<in> set (ca_layers a)"
  shows "e \<in> set (ls_producing l) \<Longrightarrow> encodes a l (pe_relation e) (pe_gate e) (defines_column a (pe_output e))"
    "e' \<in> set (ls_enforcing l) \<Longrightarrow> encodes a l (ee_relation e') (ee_gate e') (\<lambda>out. out = None)"
proof -
  have "single_source a = Inr ()"
    using assms(1) by (auto simp: validate_artifact_def)
  then obtain st where "layers_source a (ca_layers a) (replicate (length (ca_relations a)) False, 0) = Inr st"
    by (auto simp: single_source_def)
  note facts = layers_source_facts [OF this]
  show "e \<in> set (ls_producing l) \<Longrightarrow> encodes a l (pe_relation e) (pe_gate e) (defines_column a (pe_output e))"
    "e' \<in> set (ls_enforcing l) \<Longrightarrow> encodes a l (ee_relation e') (ee_gate e') (\<lambda>out. out = None)"
    using facts assms(2) by simp_all
qed

end
