(* ===== verification/Kernel.thy ===== *)
theory Kernel
  imports Laws Multilinear Transcript
begin

text \<open>
  The gate kernel of \<open>crates/gkr-verify/src/lib.rs\<close>: challenge slots, \<open>eval_gate\<close>, and gate lists with every operand
  resolved to the place its value is read at. Every gate evaluates to the polynomial it means, and the gates of a
  valid artifact to the relations of its flat list.
\<close>

section \<open>Challenge slots\<close>

record external_challenges =
  ec_slots :: "(u32 \<times> fr) list"

definition ec_new :: external_challenges where
  "ec_new = \<lparr>ec_slots = []\<rparr>"

text \<open>\<open>binary_search_by_key\<close> over the slots, which are sorted: the position of the key, or where it would go.\<close>

definition slot_search :: "(u32 \<times> fr) list \<Rightarrow> u32 \<Rightarrow> nat + nat" where
  "slot_search slots slot =
     (let at = length (takeWhile (\<lambda>(s, _). s < slot) slots) in
      if at < length slots \<and> fst (slots ! at) = slot then Inr at else Inl at)"

definition ec_insert :: "u32 \<Rightarrow> fr \<Rightarrow> external_challenges \<Rightarrow> 'e fault + external_challenges" where
  "ec_insert slot val ch =
     (case slot_search (ec_slots ch) slot of
        Inr _ \<Rightarrow> panic
      | Inl at \<Rightarrow> Inr \<lparr>ec_slots = take at (ec_slots ch) @ (slot, val) # drop at (ec_slots ch)\<rparr>)"

definition ec_get :: "external_challenges \<Rightarrow> u32 \<Rightarrow> fr option" where
  "ec_get ch slot =
     (case slot_search (ec_slots ch) slot of Inr i \<Rightarrow> Some (snd (ec_slots ch ! i)) | Inl _ \<Rightarrow> None)"

definition coefficient :: "external_challenges \<Rightarrow> coeff \<Rightarrow> 'e fault + fr" where
  "coefficient ch c =
     (case c of
        Literal v \<Rightarrow> Inr v
      | ChallengeSlot slot \<Rightarrow> (case ec_get ch slot of Some v \<Rightarrow> Inr v | None \<Rightarrow> panic))"

section \<open>The kernel\<close>

fun affine_sum :: "external_challenges \<Rightarrow> (coeff \<times> circuit_address) list \<Rightarrow> fr list \<Rightarrow> fr \<Rightarrow> 'e fault + fr" where
  "affine_sum ch ((k, _) # terms) (v # vs) acc =
     bind_res (coefficient ch k) (\<lambda>k. affine_sum ch terms vs (fr_add acc (fr_mul k v)))"
| "affine_sum ch _ _ acc = Inr acc"

definition affine_value :: "external_challenges \<Rightarrow> (coeff \<times> circuit_address) list \<Rightarrow> coeff \<Rightarrow> fr list \<Rightarrow> 'e fault + fr" where
  "affine_value ch terms const vs = bind_res (coefficient ch const) (\<lambda>acc. affine_sum ch terms vs acc)"

text \<open>The values past the linear ones, two by two (\<open>chunks_exact(2)\<close>).\<close>

fun products_sum ::
  "external_challenges \<Rightarrow> (coeff \<times> circuit_address \<times> circuit_address) list \<Rightarrow> fr list \<Rightarrow> fr \<Rightarrow> 'e fault + fr" where
  "products_sum ch ((b, _, _) # products) (y # z # vs) acc =
     bind_res (coefficient ch b) (\<lambda>b. products_sum ch products vs (fr_add acc (fr_mul (fr_mul b y) z)))"
| "products_sum ch _ _ acc = Inr acc"

fun eval_gate :: "gate_def \<Rightarrow> fr list \<Rightarrow> external_challenges \<Rightarrow> 'e fault + fr" where
  "eval_gate (Linear terms const) vs ch = affine_value ch terms const vs"
| "eval_gate (Product c _ _) vs ch =
     bind_res (coefficient ch c) (\<lambda>c. bind_res (idx vs 0) (\<lambda>x. bind_res (idx vs 1) (\<lambda>y. Inr (fr_mul (fr_mul c x) y))))"
| "eval_gate (MaskIntoIdentity _ _) vs ch =
     bind_res (idx vs 0) (\<lambda>x. bind_res (idx vs 1) (\<lambda>m. Inr (fr_sub (fr_add (fr_mul x m) fr_one) m)))"
| "eval_gate (AffineProduct left left_constant right right_constant) vs ch =
     bind_res (slice vs 0 (length left)) (\<lambda>ls.
     bind_res (affine_value ch left left_constant ls) (\<lambda>l.
     bind_res (slice vs (length left) (length vs)) (\<lambda>rs.
     bind_res (affine_value ch right right_constant rs) (\<lambda>r. Inr (fr_mul l r)))))"
| "eval_gate (TreeProduct _) vs ch =
     bind_res (idx vs 0) (\<lambda>x. bind_res (idx vs 1) (\<lambda>y. Inr (fr_mul x y)))"
| "eval_gate (TreeCross _ _) vs ch =
     bind_res (idx vs 0) (\<lambda>p0. bind_res (idx vs 3) (\<lambda>q1. bind_res (idx vs 1) (\<lambda>p1. bind_res (idx vs 2) (\<lambda>q0.
       Inr (fr_add (fr_mul p0 q1) (fr_mul p1 q0))))))"
| "eval_gate (Quadratic const linear products) vs ch =
     bind_res (slice vs (length linear) (length vs)) (\<lambda>pairs.
     bind_res (slice vs 0 (length linear)) (\<lambda>ls.
     bind_res (affine_value ch linear const ls) (\<lambda>acc.
     products_sum ch products pairs acc)))"

text \<open>\<open>check_challenges\<close>: every slot a gate names has a value.\<close>

datatype gkr_error = MissingChallenge u32 | OutputShape | ProofShape nat | LayerInconsistency nat

definition check_challenges :: "circuit_artifact \<Rightarrow> external_challenges \<Rightarrow> gkr_error fault + unit" where
  "check_challenges a ch =
     each (\<lambda>c. case c of
         ChallengeSlot slot \<Rightarrow> if ec_get ch slot = None then refuse (MissingChallenge slot) else Inr ()
       | Literal _ \<Rightarrow> Inr ())
       (concat (map coefficients (concat (map list_gates (ca_layers a)))))"

section \<open>Resolved lists\<close>

datatype source = Lower nat | Upper nat | VirtualAt nat | CachedAt nat

record resolved_list =
  rl_challenges :: external_challenges
  rl_gates :: "gate_def list"
  rl_sources :: "source list"
  rl_bounds :: "nat list"
  rl_cached :: nat
  rl_producing :: nat
  rl_enforcing :: nat
  rl_scratch :: nat

definition column_index :: "circuit_artifact \<Rightarrow> circuit_address \<Rightarrow> 'e fault + nat" where
  "column_index a op =
     (let m = length (ca_memory a); w = length (ca_witness a) in
      case op of
        Memory i \<Rightarrow> Inr (unat i)
      | Witness i \<Rightarrow> Inr (m + unat i)
      | Setup i \<Rightarrow> Inr (m + w + unat i)
      | Inner _ offset \<Rightarrow> Inr (unat offset)
      | _ \<Rightarrow> panic)"

definition index_where :: "('a \<Rightarrow> bool) \<Rightarrow> 'a list \<Rightarrow> nat option" where
  "index_where p xs = find (\<lambda>i. p (xs ! i)) [0..<length xs]"

definition resolve :: "circuit_artifact \<Rightarrow> circuit_address \<Rightarrow> 'e fault + source" where
  "resolve a op =
     (case op of
        Virtual kind \<Rightarrow>
          (case index_where (\<lambda>(v, _). v = kind) (ca_virtuals a) of Some i \<Rightarrow> Inr (VirtualAt i) | None \<Rightarrow> panic)
      | Cached _ offset \<Rightarrow> Inr (CachedAt (unat offset))
      | _ \<Rightarrow> bind_res (column_index a op) (\<lambda>x. Inr (Lower x)))"

definition resolve_halves :: "circuit_artifact \<Rightarrow> circuit_address \<Rightarrow> 'e fault + source list" where
  "resolve_halves a op = bind_res (column_index a op) (\<lambda>x. Inr [Lower x, Upper x])"

text \<open>One gate after another: its sources join the flat list, whose length becomes the next bound.\<close>

fun resolve_gates ::
  "(gate_def \<Rightarrow> 'e fault + source list) \<Rightarrow> gate_def list \<Rightarrow> source list \<Rightarrow> nat list \<Rightarrow> 'e fault + (source list \<times> nat list)" where
  "resolve_gates f [] sources bounds = Inr (sources, bounds)"
| "resolve_gates f (g # gs) sources bounds =
     bind_res (f g) (\<lambda>new.
       let sources = sources @ new in resolve_gates f gs sources (bounds @ [length sources]))"

definition halving_sources :: "circuit_artifact \<Rightarrow> gate_def \<Rightarrow> 'e fault + source list" where
  "halving_sources a g = bind_res (map_res (resolve_halves a) (operands g)) (\<lambda>ss. Inr (concat ss))"

definition row_sources :: "circuit_artifact \<Rightarrow> gate_def \<Rightarrow> 'e fault + source list" where
  "row_sources a g = map_res (resolve a) (operands g)"

fun widest :: "nat list \<Rightarrow> nat" where
  "widest (x # y # zs) = max (y - x) (widest (y # zs))"
| "widest _ = 0"

definition resolved_new :: "circuit_artifact \<Rightarrow> nat \<Rightarrow> external_challenges \<Rightarrow> 'e fault + resolved_list" where
  "resolved_new a k ch =
     bind_res (idx (ca_layers a) k) (\<lambda>l.
     let gates = (if ls_halving l then map pe_gate (ls_producing l) else list_gates l);
         cached = (if ls_halving l then 0 else length (ls_cached l));
         enforcing = (if ls_halving l then 0 else length (ls_enforcing l)) in
     bind_res (resolve_gates (if ls_halving l then halving_sources a else row_sources a) gates [] [0]) (\<lambda>(sources, bounds).
     Inr \<lparr>rl_challenges = ch, rl_gates = gates, rl_sources = sources, rl_bounds = bounds, rl_cached = cached,
       rl_producing = length (ls_producing l), rl_enforcing = enforcing, rl_scratch = cached + widest bounds\<rparr>))"

definition scratch_buffer :: "resolved_list \<Rightarrow> fr list" where
  "scratch_buffer rl = replicate (rl_scratch rl) fr_zero"

text \<open>The values at one point: the lower layer's, the second children's, the virtual tables'.\<close>

record point_values =
  pv_lower :: "fr list"
  pv_upper :: "fr list"
  pv_virtuals :: "fr list"

fun read_source :: "point_values \<Rightarrow> fr list \<Rightarrow> source \<Rightarrow> 'e fault + fr" where
  "read_source pv cached (Lower x) = idx (pv_lower pv) x"
| "read_source pv cached (Upper x) = idx (pv_upper pv) x"
| "read_source pv cached (VirtualAt x) = idx (pv_virtuals pv) x"
| "read_source pv cached (CachedAt x) = idx cached x"

text \<open>Gate \<open>i\<close> of the whole list, its operands gathered into the scratch buffer past the cached values.\<close>

definition resolved_eval :: "resolved_list \<Rightarrow> nat \<Rightarrow> point_values \<Rightarrow> fr list \<Rightarrow> 'e fault + (fr \<times> fr list)" where
  "resolved_eval rl i pv scratch =
     bind_res (slice scratch 0 (rl_cached rl)) (\<lambda>cached.
     let rest = drop (rl_cached rl) scratch in
     bind_res (idx (rl_bounds rl) i) (\<lambda>start.
     bind_res (idx (rl_bounds rl) (i + 1)) (\<lambda>stop.
     bind_res (slice (rl_sources rl) start stop) (\<lambda>sources.
     bind_res (slice rest 0 (length sources)) (\<lambda>_.
     bind_res (map_res (read_source pv cached) sources) (\<lambda>vs.
     bind_res (idx (rl_gates rl) i) (\<lambda>g.
     bind_res (eval_gate g vs (rl_challenges rl)) (\<lambda>v.
     Inr (v, cached @ vs @ drop (length sources) rest)))))))))"

fun resolved_cache :: "resolved_list \<Rightarrow> nat list \<Rightarrow> point_values \<Rightarrow> fr list \<Rightarrow> 'e fault + fr list" where
  "resolved_cache rl [] pv scratch = Inr scratch"
| "resolved_cache rl (i # is) pv scratch =
     bind_res (resolved_eval rl i pv scratch) (\<lambda>(v, scratch).
     bind_res (set_at scratch i v) (\<lambda>scratch. resolved_cache rl is pv scratch))"

definition resolved_gate :: "resolved_list \<Rightarrow> nat \<Rightarrow> point_values \<Rightarrow> fr list \<Rightarrow> 'e fault + (fr \<times> fr list)" where
  "resolved_gate rl j pv scratch = resolved_eval rl (rl_cached rl + j) pv scratch"

text \<open>The gates in turn, each value handed to an accumulator.\<close>

fun resolved_fold ::
  "('s \<Rightarrow> nat \<Rightarrow> fr \<Rightarrow> 's) \<Rightarrow> resolved_list \<Rightarrow> nat list \<Rightarrow> point_values \<Rightarrow> fr list \<Rightarrow> 's \<Rightarrow> 'e fault + 's" where
  "resolved_fold f rl [] pv scratch acc = Inr acc"
| "resolved_fold f rl (j # js) pv scratch acc =
     bind_res (resolved_gate rl j pv scratch) (\<lambda>(v, scratch). resolved_fold f rl js pv scratch (f acc j v))"

definition check_children :: "circuit_artifact \<Rightarrow> nat \<Rightarrow> point_values \<Rightarrow> 'e fault + unit" where
  "check_children a k pv =
     bind_res (idx (ca_layers a) k) (\<lambda>l. ensure (ls_halving l \<longrightarrow> length (pv_upper pv) = length (pv_lower pv)))"

definition gate_values :: "circuit_artifact \<Rightarrow> nat \<Rightarrow> point_values \<Rightarrow> external_challenges \<Rightarrow> 'e fault + fr list" where
  "gate_values a k pv ch =
     bind_res (check_children a k pv) (\<lambda>_.
     bind_res (resolved_new a k ch) (\<lambda>rl.
     bind_res (resolved_cache rl [0..<rl_cached rl] pv (scratch_buffer rl)) (\<lambda>scratch.
     resolved_fold (\<lambda>out _ v. out @ [v]) rl [0..<rl_producing rl + rl_enforcing rl] pv scratch [])))"

definition list_summand ::
  "circuit_artifact \<Rightarrow> nat \<Rightarrow> fr list \<Rightarrow> point_values \<Rightarrow> external_challenges \<Rightarrow> 'e fault + fr" where
  "list_summand a k weights pv ch =
     bind_res (check_children a k pv) (\<lambda>_.
     bind_res (resolved_new a k ch) (\<lambda>rl.
     bind_res (resolved_cache rl [0..<rl_cached rl] pv (scratch_buffer rl)) (\<lambda>scratch.
     resolved_fold (\<lambda>acc j v. fr_add acc (fr_mul v (weights ! j))) rl [0..<length weights] pv scratch fr_zero)))"

section \<open>Challenges and their values\<close>

definition ec_ok :: "external_challenges \<Rightarrow> bool" where
  "ec_ok ch \<longleftrightarrow> (\<forall>(s, v) \<in> set (ec_slots ch). fr_ok v)"

definition ec_sorted :: "external_challenges \<Rightarrow> bool" where
  "ec_sorted ch \<longleftrightarrow> sorted_wrt (<) (map fst (ec_slots ch))"

lemma ec_get_ok: "ec_ok ch \<Longrightarrow> ec_get ch slot = Some v \<Longrightarrow> fr_ok v"
  by (auto simp: ec_get_def slot_search_def ec_ok_def Let_def split: if_splits dest!: nth_mem)

text \<open>The slots are a map: what was inserted is read back, and nothing else changes.\<close>

lemma slot_search_map_of:
  "sorted_wrt (<) (map fst slots) \<Longrightarrow>
    (case slot_search slots slot of Inr i \<Rightarrow> Some (snd (slots ! i)) | Inl _ \<Rightarrow> None) = map_of slots slot"
proof (induction slots)
  case (Cons e slots)
  obtain s v where e: "e = (s, v)"
    by (cases e)
  have "map_of slots slot = None" if "slot < s"
    using Cons.prems that by (force simp: e map_of_eq_None_iff)
  then show ?case
    using Cons by (auto simp: e slot_search_def Let_def)
qed (simp add: slot_search_def)

lemma ec_get_map: "ec_sorted ch \<Longrightarrow> ec_get ch = map_of (ec_slots ch)"
  unfolding ec_sorted_def ec_get_def by (rule ext) (rule slot_search_map_of)

definition coeff_known :: "external_challenges \<Rightarrow> coeff \<Rightarrow> bool" where
  "coeff_known ch c \<longleftrightarrow> (case c of Literal v \<Rightarrow> fr_ok v | ChallengeSlot slot \<Rightarrow> ec_get ch slot \<noteq> None)"

definition gate_known :: "external_challenges \<Rightarrow> gate_def \<Rightarrow> bool" where
  "gate_known ch g \<longleftrightarrow> (\<forall>c \<in> set (coefficients g). coeff_known ch c)"

fun challenge_value :: "external_challenges \<Rightarrow> coeff \<Rightarrow> zp" where
  "challenge_value ch (Literal v) = el v"
| "challenge_value ch (ChallengeSlot slot) = (case ec_get ch slot of Some v \<Rightarrow> el v | None \<Rightarrow> 0)"

lemma coefficient_value:
  assumes "ec_ok ch" "coeff_known ch c"
  obtains v where "(coefficient ch c :: 'e fault + fr) = Inr v" "fr_ok v" "el v = challenge_value ch c"
  using assms ec_get_ok [OF assms(1)] by (cases c) (auto simp: coefficient_def coeff_known_def)

section \<open>What the kernel computes\<close>

definition value_is :: "'e fault + fr \<Rightarrow> zp \<Rightarrow> bool" where
  "value_is r v \<longleftrightarrow> (\<exists>x. r = Inr x \<and> fr_ok x \<and> el x = v)"

lemma value_is_Inr [simp]: "value_is (Inr x) v \<longleftrightarrow> fr_ok x \<and> el x = v"
  by (simp add: value_is_def)

lemma value_is_bind:
  "value_is r v \<Longrightarrow> (\<And>x. fr_ok x \<Longrightarrow> el x = v \<Longrightarrow> value_is (f x) u) \<Longrightarrow> value_is (bind_res r f) u"
  by (auto simp: value_is_def)

lemma coefficient_is: "ec_ok ch \<Longrightarrow> coeff_known ch c \<Longrightarrow> value_is (coefficient ch c) (challenge_value ch c)"
  by (metis coefficient_value value_is_def)

lemma affine_sum_is:
  "ec_ok ch \<Longrightarrow> \<forall>c \<in> fst ` set terms. coeff_known ch c \<Longrightarrow> \<forall>x. fr_ok (f x) \<Longrightarrow> fr_ok acc \<Longrightarrow>
    value_is (affine_sum ch terms (map (f \<circ> snd) terms) acc :: 'e fault + fr) (el acc + (\<Sum>(c, x) \<leftarrow> terms. challenge_value ch c * el (f x)))"
proof (induction terms arbitrary: acc)
  case (Cons t terms)
  obtain c x where t: "t = (c, x)" "coeff_known ch c"
    using Cons.prems(2) by (cases t) auto
  have rest: "value_is (affine_sum ch terms (map (f \<circ> snd) terms) (fr_add acc (fr_mul k (f x))) :: 'e fault + fr)
      (el acc + el k * el (f x) + (\<Sum>(c, x) \<leftarrow> terms. challenge_value ch c * el (f x)))" if "fr_ok k" for k
    using Cons.IH [of "fr_add acc (fr_mul k (f x))"] Cons.prems that by (simp add: comp_def)
  have "value_is (bind_res (coefficient ch c) (\<lambda>k. affine_sum ch terms (map (f \<circ> snd) terms) (fr_add acc (fr_mul k (f x)))) :: 'e fault + fr)
      (el acc + (\<Sum>(c, x) \<leftarrow> t # terms. challenge_value ch c * el (f x)))"
  proof (rule value_is_bind [OF coefficient_is [OF Cons.prems(1) t(2)]])
    fix k
    assume k: "fr_ok k" "el k = challenge_value ch c"
    show "value_is (affine_sum ch terms (map (f \<circ> snd) terms) (fr_add acc (fr_mul k (f x))) :: 'e fault + fr)
        (el acc + (\<Sum>(c, x) \<leftarrow> t # terms. challenge_value ch c * el (f x)))"
      using rest [OF k(1)] k(2) by (simp add: t(1) add.assoc)
  qed
  then show ?case
    by (simp add: t(1) comp_def)
qed simp

lemma affine_value_is:
  assumes "ec_ok ch" "coeff_known ch const" "\<forall>c \<in> fst ` set terms. coeff_known ch c" "\<forall>x. fr_ok (f x)"
  shows "value_is (affine_value ch terms const (map (f \<circ> snd) terms)) (affine_at (challenge_value ch) (\<lambda>x. el (f x)) terms const)"
  unfolding affine_value_def affine_at_def
proof (rule value_is_bind [OF coefficient_is [OF assms(1,2)]])
  fix acc
  assume "fr_ok acc" "el acc = challenge_value ch const"
  then show "value_is (affine_sum ch terms (map (f \<circ> snd) terms) acc)
      (challenge_value ch const + (\<Sum>(c, x) \<leftarrow> terms. challenge_value ch c * el (f x)))"
    using affine_sum_is [OF assms(1,3,4), of acc] by simp
qed

lemma products_sum_is:
  "ec_ok ch \<Longrightarrow> \<forall>b \<in> fst ` set products. coeff_known ch b \<Longrightarrow> \<forall>x. fr_ok (f x) \<Longrightarrow> fr_ok acc \<Longrightarrow>
    value_is (products_sum ch products (map f (concat (map (\<lambda>(_, y, z). [y, z]) products))) acc :: 'e fault + fr)
      (el acc + (\<Sum>(b, y, z) \<leftarrow> products. challenge_value ch b * el (f y) * el (f z)))"
proof (induction products arbitrary: acc)
  case (Cons t products)
  obtain b y z where t: "t = (b, y, z)" "coeff_known ch b"
    using Cons.prems(2) by (cases t) auto
  let ?vs = "map f (concat (map (\<lambda>(_, y, z). [y, z]) products))"
  have rest: "value_is (products_sum ch products ?vs (fr_add acc (fr_mul (fr_mul k (f y)) (f z))) :: 'e fault + fr)
      (el acc + el k * el (f y) * el (f z) + (\<Sum>(b, y, z) \<leftarrow> products. challenge_value ch b * el (f y) * el (f z)))" if "fr_ok k" for k
    using Cons.IH [of "fr_add acc (fr_mul (fr_mul k (f y)) (f z))"] Cons.prems that by simp
  have "value_is (bind_res (coefficient ch b) (\<lambda>b. products_sum ch products ?vs (fr_add acc (fr_mul (fr_mul b (f y)) (f z)))) :: 'e fault + fr)
      (el acc + (\<Sum>(b, y, z) \<leftarrow> t # products. challenge_value ch b * el (f y) * el (f z)))"
  proof (rule value_is_bind [OF coefficient_is [OF Cons.prems(1) t(2)]])
    fix k
    assume k: "fr_ok k" "el k = challenge_value ch b"
    show "value_is (products_sum ch products ?vs (fr_add acc (fr_mul (fr_mul k (f y)) (f z))) :: 'e fault + fr)
        (el acc + (\<Sum>(b, y, z) \<leftarrow> t # products. challenge_value ch b * el (f y) * el (f z)))"
      using rest [OF k(1)] k(2) by (simp add: t(1) add.assoc)
  qed
  then show ?case
    by (simp add: t(1))
qed simp

text \<open>One value per operand, in operand order; a halving gate reads both children of each.\<close>

definition gathered :: "(circuit_address \<Rightarrow> fr) \<Rightarrow> (circuit_address \<Rightarrow> fr) \<Rightarrow> gate_def \<Rightarrow> fr list" where
  "gathered f0 f1 g =
     (if halving_shape g then concat (map (\<lambda>x. [f0 x, f1 x]) (operands g)) else map f0 (operands g))"

definition child_value :: "(circuit_address \<Rightarrow> fr) \<Rightarrow> (circuit_address \<Rightarrow> fr) \<Rightarrow> circuit_address \<Rightarrow> u8 \<Rightarrow> zp" where
  "child_value f0 f1 x b = (if b = 0 then el (f0 x) else el (f1 x))"

lemma eval_gate_is:
  assumes "ec_ok ch" "gate_known ch g" "\<forall>x. fr_ok (f0 x)" "\<forall>x. fr_ok (f1 x)"
  shows "value_is (eval_gate g (gathered f0 f1 g) ch) (gate_at (challenge_value ch) (\<lambda>x. el (f0 x)) (child_value f0 f1) g)"
proof (cases g)
  case (Linear terms const)
  then show ?thesis
    using affine_value_is [OF assms(1) _ _ assms(3), of const terms] assms(2)
    by (auto simp: gathered_def halving_shape_def gate_known_def)
next
  case (Product c left right)
  then show ?thesis
    using assms coefficient_is [OF assms(1), of c]
    by (auto simp: gathered_def halving_shape_def gate_known_def idx_def intro!: value_is_bind)
next
  case (MaskIntoIdentity input msk)
  then show ?thesis
    using assms by (simp add: gathered_def halving_shape_def idx_def fr_consts)
next
  case (AffineProduct left left_constant right right_constant)
  have known: "coeff_known ch left_constant" "\<forall>c \<in> fst ` set left. coeff_known ch c"
    "coeff_known ch right_constant" "\<forall>c \<in> fst ` set right. coeff_known ch c"
    using assms(2) AffineProduct by (auto simp: gate_known_def)
  have vs: "gathered f0 f1 g = map (f0 \<circ> snd) left @ map (f0 \<circ> snd) right"
    by (simp add: AffineProduct gathered_def halving_shape_def)
  show ?thesis
    unfolding vs unfolding AffineProduct
    using affine_value_is [OF assms(1) known(1,2) assms(3)] affine_value_is [OF assms(1) known(3,4) assms(3)]
    by (auto simp: slice_def intro!: value_is_bind)
next
  case (TreeProduct input)
  then show ?thesis
    using assms by (simp add: gathered_def halving_shape_def idx_def child_value_def)
next
  case (TreeCross left right)
  then show ?thesis
    using assms by (simp add: gathered_def halving_shape_def idx_def child_value_def)
next
  case (Quadratic const linear products)
  have known: "coeff_known ch const" "\<forall>c \<in> fst ` set linear. coeff_known ch c" "\<forall>b \<in> fst ` set products. coeff_known ch b"
    using assms(2) Quadratic by (force simp: gate_known_def)+
  let ?pairs = "map f0 (concat (map (\<lambda>(_, y, z). [y, z]) products))"
  have vs: "gathered f0 f1 g = map (f0 \<circ> snd) linear @ ?pairs"
    by (simp add: Quadratic gathered_def halving_shape_def)
  have "value_is (bind_res (affine_value ch linear const (map (f0 \<circ> snd) linear)) (\<lambda>acc. products_sum ch products ?pairs acc))
      (gate_at (challenge_value ch) (\<lambda>x. el (f0 x)) (child_value f0 f1) g)"
  proof (rule value_is_bind [OF affine_value_is [OF assms(1) known(1,2) assms(3)]])
    fix acc
    assume "fr_ok acc" "el acc = affine_at (challenge_value ch) (\<lambda>x. el (f0 x)) linear const"
    then show "value_is (products_sum ch products ?pairs acc) (gate_at (challenge_value ch) (\<lambda>x. el (f0 x)) (child_value f0 f1) g)"
      using products_sum_is [OF assms(1) known(3) assms(3), of acc] by (simp add: Quadratic)
  qed
  then show ?thesis
    unfolding vs by (simp add: Quadratic slice_def)
qed

section \<open>Resolved lists evaluate every gate\<close>

lemma widest_ge: "Suc i < length xs \<Longrightarrow> xs ! Suc i - xs ! i \<le> widest xs"
proof (induction xs arbitrary: i rule: widest.induct)
  case (1 x y zs)
  then show ?case
    by (cases i) (auto simp: le_max_iff_disj)
qed simp_all

text \<open>The flat source list of a resolved list is its gates' source lists, end to end.\<close>

definition bounds_of :: "'a list list \<Rightarrow> nat list" where
  "bounds_of sss = map (\<lambda>i. length (concat (take i sss))) [0..<Suc (length sss)]"

lemma bounds_of_snoc: "bounds_of (sss @ [ss]) = bounds_of sss @ [length (concat sss @ ss)]"
  by (simp add: bounds_of_def)

lemma resolve_gates_value:
  "list_all2 (\<lambda>g ss. f g = (Inr ss :: 'e fault + source list)) gs sss \<Longrightarrow>
    resolve_gates f gs (concat pre) (bounds_of pre) = Inr (concat (pre @ sss), bounds_of (pre @ sss))"
proof (induction gs sss arbitrary: pre rule: list_all2_induct)
  case (Cons g gs ss sss)
  have "resolve_gates f (g # gs) (concat pre) (bounds_of pre) = resolve_gates f gs (concat (pre @ [ss])) (bounds_of (pre @ [ss]))"
    using Cons.hyps(1) by (simp add: Let_def bounds_of_snoc)
  then show ?case
    using Cons.IH [of "pre @ [ss]"] by simp
qed simp

lemma map_res_length: "map_res f xs = Inr ys \<Longrightarrow> length ys = length xs"
  by (induction xs arbitrary: ys) auto

lemma map_res_append:
  "map_res f (xs @ ys) = bind_res (map_res f xs) (\<lambda>us. bind_res (map_res f ys) (\<lambda>vs. Inr (us @ vs)))"
proof (induction xs)
  case Nil
  show ?case by (cases "map_res f ys") simp_all
next
  case (Cons x xs)
  then show ?case by (cases "f x"; cases "map_res f xs"; cases "map_res f ys") simp_all
qed

lemma take_drop_concat:
  "i < length sss \<Longrightarrow> take (length (sss ! i)) (drop (length (concat (take i sss))) (concat sss)) = sss ! i"
proof (induction sss arbitrary: i)
  case (Cons ss sss)
  then show ?case
    by (cases i) simp_all
qed simp

definition resolved_to :: "resolved_list \<Rightarrow> source list list \<Rightarrow> bool" where
  "resolved_to rl sss \<longleftrightarrow> rl_sources rl = concat sss \<and> rl_bounds rl = bounds_of sss \<and> length (rl_gates rl) = length sss \<and>
     rl_scratch rl = rl_cached rl + widest (rl_bounds rl)"

lemma resolved_eval_value:
  assumes "resolved_to rl sss" "i < length sss" "length scratch = rl_scratch rl"
    "map_res (read_source pv (take (rl_cached rl) scratch)) (sss ! i) = (Inr vs :: 'e fault + fr list)"
    "eval_gate (rl_gates rl ! i) vs (rl_challenges rl) = (Inr v :: 'e fault + fr)"
  obtains scratch' where "resolved_eval rl i pv scratch = (Inr (v, scratch') :: 'e fault + _)" "length scratch' = rl_scratch rl"
    "take (rl_cached rl) scratch' = take (rl_cached rl) scratch"
proof -
  let ?start = "length (concat (take i sss))" and ?n = "length (sss ! i)"
  have b: "length (rl_bounds rl) = Suc (length sss)" "rl_bounds rl ! i = ?start" "rl_bounds rl ! Suc i = ?start + ?n"
    using assms(1,2) by (simp_all add: resolved_to_def bounds_of_def take_Suc_conv_app_nth del: upt_Suc)
  have fit: "?start + ?n \<le> length (rl_sources rl)" "take ?n (drop ?start (rl_sources rl)) = sss ! i"
  proof -
    have "concat sss = concat (take i sss) @ sss ! i @ concat (drop (Suc i) sss)"
      using assms(2) by (metis concat.simps(2) concat_append id_take_nth_drop)
    then show "?start + ?n \<le> length (rl_sources rl)"
      using assms(1) by (simp add: resolved_to_def)
    show "take ?n (drop ?start (rl_sources rl)) = sss ! i"
      using assms(1,2) take_drop_concat [of i sss] by (simp add: resolved_to_def)
  qed
  have room: "rl_cached rl + ?n \<le> length scratch"
    using widest_ge [of i "rl_bounds rl"] b assms(2) assms(1,3) by (auto simp: resolved_to_def)
  have vs: "length vs = ?n"
    using assms(4) by (rule map_res_length)
  show thesis
  proof (rule that)
    show "resolved_eval rl i pv scratch = (Inr (v, take (rl_cached rl) scratch @ vs @ drop ?n (drop (rl_cached rl) scratch)) :: 'e fault + _)"
      using b fit room assms by (simp add: resolved_eval_def idx_def slice_def resolved_to_def del: bind_res_Inr)
  qed (use room vs assms(3) in simp_all)
qed

text \<open>Values of the gates at a point: \<open>cv\<close> those of the cached entries, \<open>rv\<close> those of the rows.\<close>

definition evaluates :: "resolved_list \<Rightarrow> source list list \<Rightarrow> point_values \<Rightarrow> fr list \<Rightarrow> (nat \<Rightarrow> fr) \<Rightarrow> 'e itself \<Rightarrow> bool" where
  "evaluates rl sss pv cv rv t \<longleftrightarrow> resolved_to rl sss \<and> length cv = rl_cached rl \<and>
     length sss = rl_cached rl + rl_producing rl + rl_enforcing rl \<and>
     (\<forall>i < rl_cached rl. \<forall>c. \<exists>vs. map_res (read_source pv c) (sss ! i) = (Inr vs :: 'e fault + fr list) \<and>
       eval_gate (rl_gates rl ! i) vs (rl_challenges rl) = (Inr (cv ! i) :: 'e fault + fr)) \<and>
     (\<forall>j < rl_producing rl + rl_enforcing rl. \<exists>vs. map_res (read_source pv cv) (sss ! (rl_cached rl + j)) = (Inr vs :: 'e fault + fr list) \<and>
       eval_gate (rl_gates rl ! (rl_cached rl + j)) vs (rl_challenges rl) = (Inr (rv j) :: 'e fault + fr))"

lemma resolved_cache_value:
  assumes "evaluates rl sss pv cv rv TYPE('e)" "i \<le> rl_cached rl" "length scratch = rl_scratch rl" "take i scratch = take i cv"
  shows "\<exists>scratch'. resolved_cache rl [i..<rl_cached rl] pv scratch = (Inr scratch' :: 'e fault + _) \<and>
    length scratch' = rl_scratch rl \<and> take (rl_cached rl) scratch' = cv"
  using assms(2-4)
proof (induction "rl_cached rl - i" arbitrary: i scratch)
  case 0
  then show ?case
    using assms(1) by (simp add: evaluates_def)
next
  case (Suc n)
  then have i: "i < rl_cached rl" "[i..<rl_cached rl] = i # [Suc i..<rl_cached rl]"
    by (simp_all add: upt_conv_Cons)
  have n: "n = rl_cached rl - Suc i"
    using Suc.hyps(2) by simp
  have rl: "resolved_to rl sss" "i < length sss" "length cv = rl_cached rl"
    using assms(1) i(1) by (simp_all add: evaluates_def)
  obtain vs where vs: "map_res (read_source pv (take (rl_cached rl) scratch)) (sss ! i) = (Inr vs :: 'e fault + fr list)"
    "eval_gate (rl_gates rl ! i) vs (rl_challenges rl) = (Inr (cv ! i) :: 'e fault + fr)"
    using assms(1) i(1) unfolding evaluates_def by blast
  obtain s1 where s1: "resolved_eval rl i pv scratch = (Inr (cv ! i, s1) :: 'e fault + _)" "length s1 = rl_scratch rl"
    "take (rl_cached rl) s1 = take (rl_cached rl) scratch"
    using resolved_eval_value [OF rl(1,2) Suc.prems(2) vs] by blast
  have long: "i < length s1"
    using s1(2) rl(1) i(1) by (simp add: resolved_to_def)
  have "take i s1 = take i scratch"
    using s1(3) i(1) by (metis less_imp_le min.absorb1 take_take)
  then have "take (Suc i) (s1[i := cv ! i]) = take (Suc i) cv"
    using long i(1) rl(3) Suc.prems(3) by (simp add: take_Suc_conv_app_nth)
  then obtain s2 where "resolved_cache rl [Suc i..<rl_cached rl] pv (s1[i := cv ! i]) = (Inr s2 :: 'e fault + _)"
    "length s2 = rl_scratch rl" "take (rl_cached rl) s2 = cv"
    using Suc.hyps(1) [OF n, of "s1[i := cv ! i]"] i(1) s1(2) by auto
  then show ?case
    using s1(1) long by (simp add: i(2) set_at_def del: bind_res_Inr)
qed

lemma resolved_fold_value:
  assumes "evaluates rl sss pv cv rv TYPE('e)" "\<forall>j \<in> set js. j < rl_producing rl + rl_enforcing rl"
    "length scratch = rl_scratch rl" "take (rl_cached rl) scratch = cv"
  shows "resolved_fold f rl js pv scratch acc = (Inr (foldl (\<lambda>acc j. f acc j (rv j)) acc js) :: 'e fault + _)"
  using assms(2-4)
proof (induction js arbitrary: scratch acc)
  case (Cons j js)
  have rl: "resolved_to rl sss" "rl_cached rl + j < length sss"
    using assms(1) Cons.prems(1) by (simp_all add: evaluates_def)
  obtain vs where vs: "map_res (read_source pv (take (rl_cached rl) scratch)) (sss ! (rl_cached rl + j)) = (Inr vs :: 'e fault + fr list)"
    "eval_gate (rl_gates rl ! (rl_cached rl + j)) vs (rl_challenges rl) = (Inr (rv j) :: 'e fault + fr)"
    using assms(1) Cons.prems(1,3) unfolding evaluates_def by auto
  obtain s1 where "resolved_eval rl (rl_cached rl + j) pv scratch = (Inr (rv j, s1) :: 'e fault + _)" "length s1 = rl_scratch rl"
    "take (rl_cached rl) s1 = take (rl_cached rl) scratch"
    using resolved_eval_value [OF rl Cons.prems(2) vs] by blast
  then show ?case
    using Cons.IH [of s1] Cons.prems by (simp add: resolved_gate_def del: bind_res_Inr)
qed simp

lemma resolved_all_value:
  assumes "evaluates rl sss pv cv rv TYPE('e)" "\<forall>j \<in> set js. j < rl_producing rl + rl_enforcing rl"
  shows "bind_res (resolved_cache rl [0..<rl_cached rl] pv (scratch_buffer rl)) (\<lambda>scratch. resolved_fold f rl js pv scratch acc) =
    (Inr (foldl (\<lambda>acc j. f acc j (rv j)) acc js) :: 'e fault + _)"
proof -
  obtain s where "resolved_cache rl [0..<rl_cached rl] pv (scratch_buffer rl) = (Inr s :: 'e fault + _)" "length s = rl_scratch rl"
    "take (rl_cached rl) s = cv"
    using resolved_cache_value [OF assms(1), of 0 "scratch_buffer rl"] by (auto simp: scratch_buffer_def)
  then show ?thesis
    using resolved_fold_value [OF assms] by simp
qed

section \<open>The gates of a checked list\<close>

text \<open>The columns of layer \<open>k\<close> in value order, and the values of a point from those of the addresses.\<close>

definition layer_columns :: "circuit_artifact \<Rightarrow> nat \<Rightarrow> circuit_address list" where
  "layer_columns a k =
     (if k = 0 then committed a else map (\<lambda>i. Inner (of_nat k) (of_nat i)) [0..<unat (width_below a k)])"

definition point_of ::
  "circuit_artifact \<Rightarrow> nat \<Rightarrow> (circuit_address \<Rightarrow> fr) \<Rightarrow> (circuit_address \<Rightarrow> fr) \<Rightarrow> point_values" where
  "point_of a k f0 f1 =
     \<lparr>pv_lower = map f0 (layer_columns a k),
      pv_upper = (if ls_halving (ca_layers a ! k) then map f1 (layer_columns a k) else []),
      pv_virtuals = map (\<lambda>(kind, _). f0 (Virtual kind)) (ca_virtuals a)\<rparr>"

lemma column_index_value:
  assumes "readable a k l (width_below a k) c x" "\<not> is_cached x" "\<And>kind. x \<noteq> Virtual kind"
  obtains i where "(column_index a x :: 'e fault + nat) = Inr i" "i < length (layer_columns a k)" "layer_columns a k ! i = x"
  using assms that
  by (cases x) (auto simp: column_index_def layer_columns_def committed_def nth_append is_cached_def word_less_nat_alt Let_def)

lemma resolve_value:
  assumes "readable a k l (width_below a k) c x" "\<not> is_cached x"
  obtains s where "(resolve a x :: 'e fault + source) = Inr s" "\<And>cv. (read_source (point_of a k f0 f1) cv s :: 'e fault + fr) = Inr (f0 x)"
proof (cases "\<exists>kind. x = Virtual kind")
  case True
  then obtain kind where kind: "x = Virtual kind" "kind \<in> set (map fst (ca_virtuals a))"
    using assms(1) by auto
  then obtain j where "j < length (ca_virtuals a)" "fst (ca_virtuals a ! j) = kind"
    by (auto simp: in_set_conv_nth)
  then obtain i where i: "index_where (\<lambda>(v, _). v = kind) (ca_virtuals a) = Some i"
    by (cases "index_where (\<lambda>(v, _). v = kind) (ca_virtuals a)") (auto simp: index_where_def find_None_iff split_beta)
  have at: "i < length (ca_virtuals a)" "fst (ca_virtuals a ! i) = kind"
    using i by (auto simp: index_where_def find_Some_iff split_beta)
  show thesis
  proof (rule that)
    show "(resolve a x :: 'e fault + source) = Inr (VirtualAt i)"
      by (simp add: resolve_def kind(1) i)
    show "(read_source (point_of a k f0 f1) cv (VirtualAt i) :: 'e fault + fr) = Inr (f0 x)" for cv
      using at by (simp add: point_of_def idx_def split_beta kind(1))
  qed
next
  case False
  then obtain i where "(column_index a x :: 'e fault + nat) = Inr i" "i < length (layer_columns a k)" "layer_columns a k ! i = x"
    using column_index_value [OF assms] by blast
  then show thesis
    using that [of "Lower i"] False assms(2)
    by (cases x) (auto simp: resolve_def point_of_def idx_def is_cached_def)
qed

lemma map_res_through:
  "(\<And>x. x \<in> set xs \<Longrightarrow> \<exists>y. f x = Inr y \<and> (\<forall>c. P c \<longrightarrow> g c y = Inr (h c x))) \<Longrightarrow>
    \<exists>ys. map_res f xs = Inr ys \<and> (\<forall>c. P c \<longrightarrow> map_res (g c) ys = Inr (map (h c) xs))"
proof (induction xs)
  case (Cons x xs)
  obtain y where y: "f x = Inr y" "\<forall>c. P c \<longrightarrow> g c y = Inr (h c x)"
    using Cons.prems [of x] by auto
  obtain ys where "map_res f xs = Inr ys" "\<forall>c. P c \<longrightarrow> map_res (g c) ys = Inr (map (h c) xs)"
    using Cons.IH Cons.prems by auto
  then show ?case
    using y by (intro exI [of _ "y # ys"]) simp
qed simp

lemma gate_at_cong:
  assumes "\<forall>x \<in> set (operands g). v x = v' x" "halving_shape g \<Longrightarrow> \<forall>x \<in> set (operands g). w x = w' x"
  shows "gate_at ch v w g = gate_at ch v' w' g"
proof -
  have affine: "affine_at ch v terms const = affine_at ch v' terms const" if "\<forall>x \<in> snd ` set terms. v x = v' x" for terms const
    unfolding affine_at_def using that by (intro arg_cong2 [of _ _ _ _ "(+)"] arg_cong [of _ _ sum_list] map_cong) auto
  show ?thesis
  proof (cases g)
    case (AffineProduct left left_constant right right_constant)
    then show ?thesis
      using assms(1) affine [of left] affine [of right] by simp
  next
    case (Quadratic const linear products)
    then have "\<forall>x \<in> snd ` set linear. v x = v' x" "\<forall>(b, y, z) \<in> set products. v y = v' y \<and> v z = v' z"
      using assms(1) by force+
    then show ?thesis
      unfolding Quadratic gate_at.simps
      by (intro arg_cong2 [of _ _ _ _ "(+)"] affine arg_cong [of _ _ sum_list] map_cong) auto
  qed (use assms in \<open>auto simp: halving_shape_def intro!: affine\<close>)
qed

lemma value_is_projr: "value_is r v \<Longrightarrow> r = Inr (projr r) \<and> fr_ok (projr r) \<and> el (projr r) = v"
  by (auto simp: value_is_def)

text \<open>What an address of a gate list stands for: a cached entry's value, or the value given.\<close>

definition entry_at ::
  "external_challenges \<Rightarrow> layer_spec \<Rightarrow> (circuit_address \<Rightarrow> fr) \<Rightarrow> (circuit_address \<Rightarrow> fr) \<Rightarrow> circuit_address \<Rightarrow> zp" where
  "entry_at ch l f0 f1 x =
     (case x of
        Cached _ offset \<Rightarrow> gate_at (challenge_value ch) (\<lambda>x. el (f0 x)) (child_value f0 f1) (ce_gate (ls_cached l ! unat offset))
      | _ \<Rightarrow> el (f0 x))"

text \<open>A list whose gates' sources read known values, and whose gates have values there.\<close>

lemma resolved_evaluates:
  fixes f :: "gate_def \<Rightarrow> 'e fault + source list"
  assumes "\<forall>g \<in> set cgs. \<exists>ss. f g = Inr ss \<and> (\<forall>c. map_res (read_source pv c) ss = (Inr (vc g) :: 'e fault + fr list))"
    "\<forall>g \<in> set rgs. \<exists>ss. f g = Inr ss \<and> map_res (read_source pv cv) ss = (Inr (vr g) :: 'e fault + fr list)"
    "length cv = length cgs" "\<forall>i < length cgs. eval_gate (cgs ! i) (vc (cgs ! i)) ch = (Inr (cv ! i) :: 'e fault + fr)"
    "\<forall>j < length rgs. eval_gate (rgs ! j) (vr (rgs ! j)) ch = (Inr (rv j) :: 'e fault + fr)"
  obtains sources bounds sss where "resolve_gates f (cgs @ rgs) [] [0] = Inr (sources, bounds)"
    "\<And>p e. p + e = length rgs \<Longrightarrow> evaluates \<lparr>rl_challenges = ch, rl_gates = cgs @ rgs, rl_sources = sources, rl_bounds = bounds,
      rl_cached = length cgs, rl_producing = p, rl_enforcing = e, rl_scratch = length cgs + widest bounds\<rparr> sss pv cv rv TYPE('e)"
proof -
  define sss where "sss = map (projr \<circ> f) (cgs @ rgs)"
  have f: "f g = Inr (projr (f g))" if "g \<in> set (cgs @ rgs)" for g
    using assms(1,2) that by force
  have "list_all2 (\<lambda>g ss. f g = Inr ss) (cgs @ rgs) sss"
    unfolding sss_def list_all2_conv_all_nth using f by (simp add: nth_append)
  then have "resolve_gates f (cgs @ rgs) [] [0] = Inr (concat sss, bounds_of sss)"
    using resolve_gates_value [of f "cgs @ rgs" sss "[]"] by (simp add: bounds_of_def)
  moreover have "evaluates \<lparr>rl_challenges = ch, rl_gates = cgs @ rgs, rl_sources = concat sss, rl_bounds = bounds_of sss,
      rl_cached = length cgs, rl_producing = p, rl_enforcing = e, rl_scratch = length cgs + widest (bounds_of sss)\<rparr> sss pv cv rv TYPE('e)"
    if "p + e = length rgs" for p e
  proof -
    have c: "map_res (read_source pv c) (sss ! i) = (Inr (vc (cgs ! i)) :: 'e fault + fr list)" if at: "i < length cgs" for i c
    proof -
      obtain ss where "f (cgs ! i) = Inr ss" "\<forall>c. map_res (read_source pv c) ss = (Inr (vc (cgs ! i)) :: 'e fault + fr list)"
        using bspec [OF assms(1) nth_mem [OF at]] by blast
      then show ?thesis
        using at by (simp add: sss_def nth_append)
    qed
    have r: "map_res (read_source pv cv) (sss ! (length cgs + j)) = (Inr (vr (rgs ! j)) :: 'e fault + fr list)" if at: "j < length rgs" for j
    proof -
      obtain ss where "f (rgs ! j) = Inr ss" "map_res (read_source pv cv) ss = (Inr (vr (rgs ! j)) :: 'e fault + fr list)"
        using bspec [OF assms(2) nth_mem [OF at]] by blast
      then show ?thesis
        using at by (simp add: sss_def nth_append)
    qed
    show ?thesis
      unfolding evaluates_def using c r assms(3-5) that by (auto simp: resolved_to_def sss_def nth_append)
  qed
  ultimately show thesis
    by (rule that)
qed

text \<open>A resolved list of layer \<open>k\<close> and the values of its gates.\<close>

definition gates_value ::
  "external_challenges \<Rightarrow> layer_spec \<Rightarrow> (circuit_address \<Rightarrow> fr) \<Rightarrow> (circuit_address \<Rightarrow> fr) \<Rightarrow> (nat \<Rightarrow> fr) \<Rightarrow> bool" where
  "gates_value ch l f0 f1 rv \<longleftrightarrow> (\<forall>j < length (row_gates l). fr_ok (rv j) \<and>
     el (rv j) = gate_at (challenge_value ch) (entry_at ch l f0 f1) (child_value f0 f1) (row_gates l ! j))"

lemma halving_list_evaluates:
  assumes list: "check_halving_list a k l (width_below a k) = Inr ()" "ls_halving l" and l: "l = ca_layers a ! k" "k < length (ca_layers a)"
    and ch: "ec_ok ch" "\<forall>g \<in> set (list_gates l). gate_known ch g" and f: "\<forall>x. fr_ok (f0 x)" "\<forall>x. fr_ok (f1 x)"
  obtains rl sss cv rv where "(resolved_new a k ch :: 'e fault + _) = Inr rl" "evaluates rl sss ((point_of a k f0 f1)\<lparr>pv_virtuals := vs\<rparr>) cv rv TYPE('e)"
    "rl_producing rl + rl_enforcing rl = length (row_gates l)" "gates_value ch l f0 f1 rv"
proof -
  note facts = halving_list_facts [OF list(1)]
  let ?gates = "map pe_gate (ls_producing l)" and ?pv = "(point_of a k f0 f1)\<lparr>pv_virtuals := vs\<rparr>"
  have gates: "row_gates l = ?gates" "list_gates l = ?gates"
    using facts(2,3) by (simp_all add: row_gates_def list_gates_def)
  define rv where "rv j = projr (eval_gate (?gates ! j) (gathered f0 f1 (?gates ! j)) ch :: 'e fault + fr)" for j
  have sources: "\<exists>ss. (halving_sources a g :: 'e fault + _) = Inr ss \<and> (\<forall>c. map_res (read_source ?pv c) ss = (Inr (gathered f0 f1 g) :: 'e fault + _))"
    if g: "g \<in> set ?gates" for g
  proof -
    have shape: "halving_shape g" "\<forall>x \<in> set (operands g). readable a k l (width_below a k) False x"
      using facts(5) [of g] g gates(1) by simp_all
    have "\<exists>s. (resolve_halves a x :: 'e fault + _) = Inr s \<and> (\<forall>c. True \<longrightarrow> map_res (read_source ?pv c) s = (Inr [f0 x, f1 x] :: 'e fault + _))"
      if "x \<in> set (operands g)" for x
    proof -
      have x: "readable a k l (width_below a k) False x"
        using shape(2) that by blast
      then have "\<not> is_cached x" "\<And>kind. x \<noteq> Virtual kind"
        using facts(1) by (auto simp: is_cached_def split: circuit_address.split)
      then obtain i where "(column_index a x :: 'e fault + nat) = Inr i" "i < length (layer_columns a k)" "layer_columns a k ! i = x"
        using column_index_value [OF x, where ?'e = 'e] by blast
      then show ?thesis
        using list(2) l(1) by (auto simp: resolve_halves_def point_of_def idx_def)
    qed
    then obtain sss where sss: "map_res (resolve_halves a) (operands g) = (Inr sss :: 'e fault + _)"
      "\<forall>c. True \<longrightarrow> map_res (map_res (read_source ?pv c)) sss = (Inr (map (\<lambda>x. [f0 x, f1 x]) (operands g)) :: 'e fault + _)"
      using map_res_through [of "operands g" "resolve_halves a :: _ \<Rightarrow> 'e fault + _" "\<lambda>_. True"
        "\<lambda>c. map_res (read_source ?pv c) :: _ \<Rightarrow> 'e fault + _" "\<lambda>_ x. [f0 x, f1 x]"] by blast
    have "map_res h (concat yss) = Inr (concat zss)" if "map_res (map_res h) yss = Inr zss" for h :: "source \<Rightarrow> 'e fault + fr" and yss zss
      using that by (induction yss arbitrary: zss) (auto simp: map_res_append)
    then show ?thesis
      using sss shape(1) by (auto simp: halving_sources_def gathered_def)
  qed
  have kernel: "value_is (eval_gate (?gates ! j) (gathered f0 f1 (?gates ! j)) ch :: 'e fault + fr)
      (gate_at (challenge_value ch) (\<lambda>x. el (f0 x)) (child_value f0 f1) (?gates ! j))" if "j < length ?gates" for j
    by (rule eval_gate_is [OF ch(1) _ f]) (use ch(2) gates(2) that nth_mem in metis)
  have "gates_value ch l f0 f1 rv"
    unfolding gates_value_def
  proof (intro allI impI)
    fix j
    assume j: "j < length (row_gates l)"
    have "gate_at (challenge_value ch) (entry_at ch l f0 f1) (child_value f0 f1) (?gates ! j) =
        gate_at (challenge_value ch) (\<lambda>x. el (f0 x)) (child_value f0 f1) (?gates ! j)"
    proof (rule gate_at_cong)
      have "\<forall>x \<in> set (operands (?gates ! j)). readable a k l (width_below a k) False x"
        using facts(5) [of "?gates ! j"] j gates(1) by (metis nth_mem)
      then show "\<forall>x \<in> set (operands (?gates ! j)). entry_at ch l f0 f1 x = el (f0 x)"
        by (auto simp: entry_at_def split: circuit_address.split)
    qed simp
    then show "fr_ok (rv j) \<and> el (rv j) = gate_at (challenge_value ch) (entry_at ch l f0 f1) (child_value f0 f1) (row_gates l ! j)"
      using value_is_projr [OF kernel [of j]] j unfolding gates(1) rv_def by simp
  qed
  moreover
  have "\<forall>g \<in> set ?gates. \<exists>ss. (halving_sources a g :: 'e fault + _) = Inr ss \<and>
      map_res (read_source ?pv []) ss = (Inr (gathered f0 f1 g) :: 'e fault + _)"
    using sources by fast
  note h = this
  have rows: "\<forall>j < length ?gates. eval_gate (?gates ! j) (gathered f0 f1 (?gates ! j)) ch = (Inr (rv j) :: 'e fault + fr)"
    using value_is_projr [OF kernel] unfolding rv_def by blast
  have none: "\<forall>g \<in> set []. \<exists>ss. (halving_sources a g :: 'e fault + _) = Inr ss \<and>
      (\<forall>c. map_res (read_source ?pv c) ss = (Inr (gathered f0 f1 g) :: 'e fault + _))"
    "length ([] :: fr list) = length ([] :: gate_def list)"
    "\<forall>i < length []. eval_gate ([] ! i) (gathered f0 f1 ([] ! i)) ch = (Inr ([] ! i) :: 'e fault + fr)"
    by simp_all
  obtain sources bounds sss where
    "resolve_gates (halving_sources a :: _ \<Rightarrow> 'e fault + _) ([] @ ?gates) [] [0] = Inr (sources, bounds)"
    "\<And>p e. p + e = length ?gates \<Longrightarrow> evaluates \<lparr>rl_challenges = ch, rl_gates = [] @ ?gates, rl_sources = sources, rl_bounds = bounds,
      rl_cached = length ([] :: gate_def list), rl_producing = p, rl_enforcing = e, rl_scratch = length ([] :: gate_def list) + widest bounds\<rparr> sss ?pv [] rv TYPE('e)"
    by (rule resolved_evaluates [OF none(1) h none(2,3) rows]) (rule that)
  ultimately show thesis
    using l list(2) gates(1)
    by (intro that [of _ sss "[]" rv]) (auto simp: resolved_new_def bind_idx Let_def)
qed

lemma row_list_evaluates:
  assumes list: "check_row_list a k l (width_below a k) = Inr ()" "\<not> ls_halving l" and l: "l = ca_layers a ! k" "k < length (ca_layers a)"
    and ch: "ec_ok ch" "\<forall>g \<in> set (list_gates l). gate_known ch g" and f: "\<forall>x. fr_ok (f0 x)" "\<forall>x. fr_ok (f1 x)"
  obtains rl sss cv rv where "(resolved_new a k ch :: 'e fault + _) = Inr rl" "evaluates rl sss (point_of a k f0 f1) cv rv TYPE('e)"
    "rl_producing rl + rl_enforcing rl = length (row_gates l)" "gates_value ch l f0 f1 rv"
proof -
  note facts = row_list_facts [OF list(1)]
  let ?cgs = "map ce_gate (ls_cached l)" and ?rgs = "row_gates l" and ?pv = "point_of a k f0 f1"
  have gates: "list_gates l = ?cgs @ ?rgs"
    by (simp add: list_gates_def row_gates_def)
  define cv where "cv = map (\<lambda>g. projr (eval_gate g (gathered f0 f1 g) ch :: 'e fault + fr)) ?cgs"
  define h where "h x = (case x of Cached _ offset \<Rightarrow> if unat offset < length cv then cv ! unat offset else fr_zero | _ \<Rightarrow> f0 x)" for x
  define rv where "rv j = projr (eval_gate (?rgs ! j) (gathered h f1 (?rgs ! j)) ch :: 'e fault + fr)" for j
  have entry: "value_is (eval_gate g (gathered f0 f1 g) ch :: 'e fault + fr) (gate_at (challenge_value ch) (\<lambda>x. el (f0 x)) (child_value f0 f1) g)"
    if "g \<in> set ?cgs" for g
    by (rule eval_gate_is [OF ch(1) _ f]) (use ch(2) gates that in simp)
  have cv: "(eval_gate (?cgs ! i) (gathered f0 f1 (?cgs ! i)) ch :: 'e fault + fr) = Inr (cv ! i)" "fr_ok (cv ! i)"
    "el (cv ! i) = gate_at (challenge_value ch) (\<lambda>x. el (f0 x)) (child_value f0 f1) (?cgs ! i)" if "i < length ?cgs" for i
    using value_is_projr [OF entry [OF nth_mem [OF that]]] that by (simp_all add: cv_def)
  have h: "\<forall>x. fr_ok (h x)"
    using f(1) cv(2) by (auto simp: h_def cv_def fr_consts split: circuit_address.split)
  have row: "value_is (eval_gate (?rgs ! j) (gathered h f1 (?rgs ! j)) ch :: 'e fault + fr)
      (gate_at (challenge_value ch) (\<lambda>x. el (h x)) (child_value h f1) (?rgs ! j))" if "j < length ?rgs" for j
    by (rule eval_gate_is [OF ch(1) _ h f(2)]) (use ch(2) gates nth_mem [OF that] in simp)
  have "gates_value ch l f0 f1 rv"
    unfolding gates_value_def
  proof (intro allI impI)
    fix j
    assume j: "j < length ?rgs"
    note shape = facts(2) [OF nth_mem [OF j]]
    have "gate_at (challenge_value ch) (entry_at ch l f0 f1) (child_value f0 f1) (?rgs ! j) =
        gate_at (challenge_value ch) (\<lambda>x. el (h x)) (child_value h f1) (?rgs ! j)"
    proof (rule gate_at_cong)
      show "\<forall>x \<in> set (operands (?rgs ! j)). entry_at ch l f0 f1 x = el (h x)"
      proof
        fix x
        assume "x \<in> set (operands (?rgs ! j))"
        then have "readable a k l (width_below a k) True x"
          using shape by blast
        then show "entry_at ch l f0 f1 x = el (h x)"
          using cv(3) by (cases x) (simp_all add: entry_at_def h_def cv_def)
      qed
    qed (use shape in blast)
    then show "fr_ok (rv j) \<and> el (rv j) = gate_at (challenge_value ch) (entry_at ch l f0 f1) (child_value f0 f1) (?rgs ! j)"
      using value_is_projr [OF row [OF j]] unfolding rv_def by simp
  qed
  moreover
  have cached: "\<forall>g \<in> set ?cgs. \<exists>ss. (row_sources a g :: 'e fault + _) = Inr ss \<and>
      (\<forall>c. map_res (read_source ?pv c) ss = (Inr (gathered f0 f1 g) :: 'e fault + _))"
  proof
    fix g
    assume "g \<in> set ?cgs"
    then have g: "\<not> halving_shape g" "\<forall>x \<in> set (operands g). readable a k l (width_below a k) False x"
      using facts(1) by auto
    have "\<exists>s. (resolve a x :: 'e fault + source) = Inr s \<and> (\<forall>c. True \<longrightarrow> (read_source ?pv c s :: 'e fault + fr) = Inr (f0 x))"
      if "x \<in> set (operands g)" for x
    proof -
      have x: "readable a k l (width_below a k) False x"
        using g(2) that by blast
      then have "\<not> is_cached x"
        by (cases x) (simp_all add: is_cached_def)
      then show ?thesis
        using resolve_value [OF x, where ?'e = 'e] by metis
    qed
    then have "\<exists>ss. map_res (resolve a) (operands g) = (Inr ss :: 'e fault + _) \<and>
        (\<forall>c. True \<longrightarrow> map_res (read_source ?pv c) ss = (Inr (map f0 (operands g)) :: 'e fault + _))"
      by (rule map_res_through)
    then show "\<exists>ss. (row_sources a g :: 'e fault + _) = Inr ss \<and>
        (\<forall>c. map_res (read_source ?pv c) ss = (Inr (gathered f0 f1 g) :: 'e fault + _))"
      using g(1) by (simp add: row_sources_def gathered_def)
  qed
  have rows: "\<forall>g \<in> set ?rgs. \<exists>ss. (row_sources a g :: 'e fault + _) = Inr ss \<and>
      map_res (read_source ?pv cv) ss = (Inr (gathered h f1 g) :: 'e fault + _)"
  proof
    fix g
    assume "g \<in> set ?rgs"
    then have g: "\<not> halving_shape g" "\<forall>x \<in> set (operands g). readable a k l (width_below a k) True x"
      using facts(2) by auto
    have "\<exists>s. (resolve a x :: 'e fault + source) = Inr s \<and> (\<forall>c. c = cv \<longrightarrow> (read_source ?pv c s :: 'e fault + fr) = Inr (h x))"
      if "x \<in> set (operands g)" for x
    proof -
      have x: "readable a k l (width_below a k) True x"
        using g(2) that by blast
      show ?thesis
      proof (cases "is_cached x")
        case True
        then obtain layer offset where c: "x = Cached layer offset"
          by (auto simp: is_cached_def split: circuit_address.splits)
        then show ?thesis
          using x by (auto simp: resolve_def idx_def h_def cv_def)
      next
        case False
        then have "h x = f0 x"
          by (auto simp: h_def is_cached_def split: circuit_address.splits)
        then show ?thesis
          using resolve_value [OF x False, where ?'e = 'e] by metis
      qed
    qed
    then have "\<exists>ss. map_res (resolve a) (operands g) = (Inr ss :: 'e fault + _) \<and>
        (\<forall>c. c = cv \<longrightarrow> map_res (read_source ?pv c) ss = (Inr (map h (operands g)) :: 'e fault + _))"
      by (rule map_res_through)
    then show "\<exists>ss. (row_sources a g :: 'e fault + _) = Inr ss \<and>
        map_res (read_source ?pv cv) ss = (Inr (gathered h f1 g) :: 'e fault + _)"
      using g(1) by (simp add: row_sources_def gathered_def)
  qed
  have n: "length cv = length ?cgs"
    by (simp add: cv_def)
  have c: "\<forall>i < length ?cgs. eval_gate (?cgs ! i) (gathered f0 f1 (?cgs ! i)) ch = (Inr (cv ! i) :: 'e fault + fr)"
    using cv(1) by blast
  have r: "\<forall>j < length ?rgs. eval_gate (?rgs ! j) (gathered h f1 (?rgs ! j)) ch = (Inr (rv j) :: 'e fault + fr)"
    using value_is_projr [OF row] unfolding rv_def by blast
  obtain sources bounds sss where
    "resolve_gates (row_sources a :: _ \<Rightarrow> 'e fault + _) (?cgs @ ?rgs) [] [0] = Inr (sources, bounds)"
    "\<And>p e. p + e = length ?rgs \<Longrightarrow> evaluates \<lparr>rl_challenges = ch, rl_gates = ?cgs @ ?rgs, rl_sources = sources, rl_bounds = bounds,
      rl_cached = length ?cgs, rl_producing = p, rl_enforcing = e, rl_scratch = length ?cgs + widest bounds\<rparr> sss ?pv cv rv TYPE('e)"
    by (rule resolved_evaluates [OF cached rows n c r]) (rule that)
  moreover have "length (ls_producing l) + length (ls_enforcing l) = length ?rgs"
    by (simp add: row_gates_def)
  ultimately show thesis
    using l list(2) gates
    by (intro that [of _ sss cv rv]) (auto simp: resolved_new_def bind_idx Let_def)
qed

lemma list_evaluates:
  assumes "validate_artifact a = Inr ()" and l: "l = ca_layers a ! k" "k < length (ca_layers a)"
    and ch: "ec_ok ch" "\<forall>g \<in> set (list_gates l). gate_known ch g" and f: "\<forall>x. fr_ok (f0 x)" "\<forall>x. fr_ok (f1 x)" and vs: "ls_halving l \<or> vs = pv_virtuals (point_of a k f0 f1)"
  obtains rl sss cv rv where "(resolved_new a k ch :: 'e fault + _) = Inr rl" "evaluates rl sss ((point_of a k f0 f1)\<lparr>pv_virtuals := vs\<rparr>) cv rv TYPE('e)"
    "rl_producing rl + rl_enforcing rl = length (row_gates l)" "gates_value ch l f0 f1 rv"
proof (cases "ls_halving l")
  case True
  then have "check_halving_list a k l (width_below a k) = Inr ()"
    using valid_gate_list [OF assms(1) l(2)] l(1) by (simp add: check_gate_list_def)
  then show thesis
    by (rule halving_list_evaluates [OF _ True l ch f]) (rule that)
next
  case False
  then have "check_row_list a k l (width_below a k) = Inr ()"
    using valid_gate_list [OF assms(1) l(2)] l(1) by (simp add: check_gate_list_def)
  then obtain rl sss cv rv where "(resolved_new a k ch :: 'e fault + _) = Inr rl" "evaluates rl sss (point_of a k f0 f1) cv rv TYPE('e)"
    "rl_producing rl + rl_enforcing rl = length (row_gates l)" "gates_value ch l f0 f1 rv"
    by (rule row_list_evaluates [OF _ False l ch f]) (rule that)
  then show thesis
    using that False vs by simp
qed

lemma check_children_point:
  "k < length (ca_layers a) \<Longrightarrow> (check_children a k ((point_of a k f0 f1)\<lparr>pv_virtuals := vs\<rparr>) :: 'e fault + unit) = Inr ()"
  by (simp add: check_children_def point_of_def ensure_def bind_idx)

text \<open>What the two readers of a resolved list return.\<close>

lemma gate_values_value:
  assumes "validate_artifact a = Inr ()" "l = ca_layers a ! k" "k < length (ca_layers a)"
    "ec_ok ch" "\<forall>g \<in> set (list_gates l). gate_known ch g" "\<forall>x. fr_ok (f0 x)" "\<forall>x. fr_ok (f1 x)"
    "ls_halving l \<or> vs = pv_virtuals (point_of a k f0 f1)"
  obtains rv where "(gate_values a k ((point_of a k f0 f1)\<lparr>pv_virtuals := vs\<rparr>) ch :: 'e fault + _) = Inr (map rv [0..<length (row_gates l)])"
    "gates_value ch l f0 f1 rv"
proof (rule list_evaluates [OF assms, where ?'e = 'e])
  fix rl sss cv rv
  assume rl: "(resolved_new a k ch :: 'e fault + _) = Inr rl" "evaluates rl sss ((point_of a k f0 f1)\<lparr>pv_virtuals := vs\<rparr>) cv rv TYPE('e)"
    "rl_producing rl + rl_enforcing rl = length (row_gates l)" "gates_value ch l f0 f1 rv"
  have "foldl (\<lambda>out j. out @ [rv j]) acc js = acc @ map rv js" for acc js
    by (induction js arbitrary: acc) simp_all
  then have "(gate_values a k ((point_of a k f0 f1)\<lparr>pv_virtuals := vs\<rparr>) ch :: 'e fault + _) = Inr (map rv [0..<length (row_gates l)])"
    using resolved_all_value [OF rl(2), of "[0..<length (row_gates l)]" "\<lambda>out _ v. out @ [v]" "[]"] rl(1,3) assms(3)
    by (simp add: gate_values_def check_children_point del: bind_res_Inr)
  then show thesis
    using that rl(4) by blast
qed

lemma list_summand_returns:
  assumes "validate_artifact a = Inr ()" "l = ca_layers a ! k" "k < length (ca_layers a)"
    "ec_ok ch" "\<forall>g \<in> set (list_gates l). gate_known ch g" "\<forall>x. fr_ok (f0 x)" "\<forall>x. fr_ok (f1 x)"
    "ls_halving l \<or> vs = pv_virtuals (point_of a k f0 f1)" "length weights = length (row_gates l)" "list_all fr_ok weights"
  obtains s where "(list_summand a k weights ((point_of a k f0 f1)\<lparr>pv_virtuals := vs\<rparr>) ch :: 'e fault + _) = Inr s" "fr_ok s"
proof (rule list_evaluates [OF assms(1-8), where ?'e = 'e])
  fix rl sss cv rv
  assume rl: "(resolved_new a k ch :: 'e fault + _) = Inr rl" "evaluates rl sss ((point_of a k f0 f1)\<lparr>pv_virtuals := vs\<rparr>) cv rv TYPE('e)"
    "rl_producing rl + rl_enforcing rl = length (row_gates l)" "gates_value ch l f0 f1 rv"
  have "fr_ok (foldl (\<lambda>acc j. fr_add acc (fr_mul (rv j) (weights ! j))) acc js)"
    if "fr_ok acc" "\<forall>j \<in> set js. j < length weights" for acc js
    using that
  proof (induction js arbitrary: acc)
    case (Cons j js)
    then show ?case
      using rl(4) assms(9,10) by (simp add: gates_value_def list_all_length)
  qed simp
  then have "fr_ok (foldl (\<lambda>acc j. fr_add acc (fr_mul (rv j) (weights ! j))) fr_zero [0..<length weights])"
    by (simp add: fr_consts)
  moreover have "(list_summand a k weights ((point_of a k f0 f1)\<lparr>pv_virtuals := vs\<rparr>) ch :: 'e fault + _) =
      Inr (foldl (\<lambda>acc j. fr_add acc (fr_mul (rv j) (weights ! j))) fr_zero [0..<length weights])"
    using resolved_all_value [OF rl(2), of "[0..<length weights]" "\<lambda>acc j v. fr_add acc (fr_mul v (weights ! j))" fr_zero]
      rl(1,3) assms(3,9)
    by (simp add: list_summand_def check_children_point del: bind_res_Inr)
  ultimately show thesis
    using that by blast
qed

section \<open>Law 4 at the kernel\<close>

definition artifact_canonical :: "circuit_artifact \<Rightarrow> bool" where
  "artifact_canonical a \<longleftrightarrow>
     (\<forall>g \<in> set (concat (map list_gates (ca_layers a)) @ map rel_gate (ca_relations a)). gate_canonical g)"

lemma layer_gates_known:
  assumes "artifact_canonical a" "check_challenges a ch = Inr ()" "l \<in> set (ca_layers a)"
  shows "\<forall>g \<in> set (list_gates l). gate_known ch g"
proof
  fix g
  assume g: "g \<in> set (list_gates l)"
  show "gate_known ch g"
    unfolding gate_known_def
  proof
    fix c
    assume c: "c \<in> set (coefficients g)"
    have "gate_canonical g"
      using assms(1,3) g by (auto simp: artifact_canonical_def)
    moreover have "(case c of ChallengeSlot slot \<Rightarrow> if ec_get ch slot = None then refuse (MissingChallenge slot) else Inr () | Literal _ \<Rightarrow> Inr ()) = Inr ()"
      using assms(2,3) g c unfolding check_challenges_def each_Inr by auto
    ultimately show "coeff_known ch c"
      using c by (cases c) (auto simp: gate_canonical_def coeff_known_def split: if_splits)
  qed
qed

text \<open>A relation of the flat list at values of its addresses, and at both children of a column.\<close>

definition relation_at :: "external_challenges \<Rightarrow> (circuit_address \<Rightarrow> fr) \<Rightarrow> (circuit_address \<Rightarrow> fr) \<Rightarrow> relation \<Rightarrow> zp" where
  "relation_at ch f0 f1 r = gate_at (challenge_value ch) (\<lambda>x. el (f0 x)) (child_value f0 f1) (rel_gate r)"

fun symbol_value :: "external_challenges \<Rightarrow> (circuit_address \<Rightarrow> fr) \<Rightarrow> (circuit_address \<Rightarrow> fr) \<Rightarrow> symbol \<Rightarrow> zp" where
  "symbol_value ch f0 f1 (ColumnOf x) = el (f0 x)"
| "symbol_value ch f0 f1 (Child x b) = child_value f0 f1 x b"
| "symbol_value ch f0 f1 (ChallengeAt slot) = challenge_value ch (ChallengeSlot slot)"

text \<open>Where the flat list keeps an address of gate list \<open>l\<close>.\<close>

abbreviation placed :: "circuit_artifact \<Rightarrow> layer_spec \<Rightarrow> (circuit_address \<Rightarrow> fr) \<Rightarrow> circuit_address \<Rightarrow> fr" where
  "placed a l f x \<equiv> f (column_of (layered_space a l) x)"

lemma encoded_value:
  assumes "encodes a l i g output" "artifact_canonical a" "l \<in> set (ca_layers a)" "g \<in> set (list_gates l)"
  shows "gate_at (challenge_value ch) (entry_at ch l (placed a l f0) (placed a l f1)) (child_value (placed a l f0) (placed a l f1)) g =
    relation_at ch f0 f1 (ca_relations a ! unat i)"
proof -
  let ?s = "symbol_value ch f0 f1" and ?r = "ca_relations a ! unat i"
  have coeff: "coeff_at ?s = challenge_value ch"
    by (rule ext) (metis challenge_value.simps(1) coeff.exhaust coeff_at.simps symbol_value.simps(3))
  have layered: "address_at ?s (layered_space a l) = entry_at ch l (placed a l f0) (placed a l f1)"
    "child_at ?s (layered_space a l) = child_value (placed a l f0) (placed a l f1)"
  proof -
    have space: "ns_layered (layered_space a l)" "ns_cached (layered_space a l) = ls_cached l"
      by (simp_all add: layered_space_def)
    show child: "child_at ?s (layered_space a l) = child_value (placed a l f0) (placed a l f1)"
      by (intro ext) (simp add: child_at_def child_value_def)
    have "column_at ?s (layered_space a l) = (\<lambda>x. el (placed a l f0 x))"
      by (rule ext) (simp add: column_at_def)
    then show "address_at ?s (layered_space a l) = entry_at ch l (placed a l f0) (placed a l f1)"
      by (intro ext) (simp add: address_at_def entry_at_def coeff child space split: circuit_address.split)
  qed
  have flat: "address_at ?s (flat_space a) = (\<lambda>x. el (f0 x))" "child_at ?s (flat_space a) = child_value f0 f1"
    by (auto intro!: ext simp: address_at_def column_at_def column_of_def child_at_def flat_space_def split: circuit_address.split)
  obtain x y where e: "expand_gate (flat_space a) (rel_gate ?r) = (Inr x :: constraint_error fault + _)"
    "expand_gate (layered_space a l) g = (Inr y :: constraint_error fault + _)" "normalize_terms x = normalize_terms y"
    using assms(1) by (auto simp: encodes_def same_polynomial_def split: if_splits)
  have canonical: "gate_canonical g" "gate_canonical (rel_gate ?r)" "\<forall>e \<in> set (ls_cached l). gate_canonical (ce_gate e)"
  proof -
    have all: "\<forall>g \<in> set (list_gates l). gate_canonical g"
      using assms(2,3) by (auto simp: artifact_canonical_def)
    then show "gate_canonical g" "\<forall>e \<in> set (ls_cached l). gate_canonical (ce_gate e)"
      using assms(4) by (simp_all add: list_gates_def)
    have "?r \<in> set (ca_relations a)"
      using assms(1) by (simp add: encodes_def)
    then show "gate_canonical (rel_gate ?r)"
      using assms(2) by (simp add: artifact_canonical_def)
  qed
  show ?thesis
    using same_expansion_at [OF e, of ?s] canonical
    unfolding coeff layered flat relation_at_def by (simp add: flat_space_def layered_space_def)
qed

text \<open>C23: one source: in a valid artifact every gate computes its relation of the flat list. Where each column of
  layer \<open>k\<close> has the value the flat list has at the scratch slot it is, and a list that is not halving is given its
  virtual tables' values, gate list \<open>k\<close> evaluates, and each value is that of the relation the gate names; a producing
  gate's relation defines the slot of the column it writes, an enforcing gate's defines none.\<close>

theorem gates_are_relations:
  assumes "validate_artifact a = Inr ()" "artifact_canonical a" "check_challenges a ch = Inr ()" "ec_ok ch"
    "k < length (ca_layers a)" "l = ca_layers a ! k" "\<forall>x. fr_ok (f0 x)" "\<forall>x. fr_ok (f1 x)"
    "ls_halving l \<or> virtuals = pv_virtuals (point_of a k (placed a l f0) (placed a l f1))"
  shows "\<exists>vs. gate_values a k ((point_of a k (placed a l f0) (placed a l f1))\<lparr>pv_virtuals := virtuals\<rparr>) ch = (Inr vs :: 'e fault + _) \<and>
    length vs = length (ls_producing l) + length (ls_enforcing l) \<and>
    (\<forall>j < length (ls_producing l). let r = ca_relations a ! unat (pe_relation (ls_producing l ! j)) in
      el (vs ! j) = relation_at ch f0 f1 r \<and> defines_column a (Inner (of_nat k + 1) (of_nat j)) (rel_output r)) \<and>
    (\<forall>j < length (ls_enforcing l). let r = ca_relations a ! unat (ee_relation (ls_enforcing l ! j)) in
      el (vs ! (length (ls_producing l) + j)) = relation_at ch f0 f1 r \<and> rel_output r = None)"
proof -
  have l: "l \<in> set (ca_layers a)"
    using assms(5,6) by simp
  have f: "\<forall>x. fr_ok (placed a l f0 x)" "\<forall>x. fr_ok (placed a l f1 x)"
    using assms(7,8) by simp_all
  obtain rv where rv: "(gate_values a k ((point_of a k (placed a l f0) (placed a l f1))\<lparr>pv_virtuals := virtuals\<rparr>) ch :: 'e fault + _) = Inr (map rv [0..<length (row_gates l)])"
    "gates_value ch l (placed a l f0) (placed a l f1) rv"
    using gate_values_value [OF assms(1,6,5,4) layer_gates_known [OF assms(2,3) l] f assms(9)] .
  have row: "el (rv j) = gate_at (challenge_value ch) (entry_at ch l (placed a l f0) (placed a l f1)) (child_value (placed a l f0) (placed a l f1)) (row_gates l ! j)"
    if "j < length (row_gates l)" for j
    using rv(2) that by (simp add: gates_value_def)
  let ?n = "length (ls_producing l)"
  have "el (rv j) = relation_at ch f0 f1 (ca_relations a ! unat (pe_relation (ls_producing l ! j))) \<and>
      defines_column a (Inner (of_nat k + 1) (of_nat j)) (rel_output (ca_relations a ! unat (pe_relation (ls_producing l ! j))))"
    if j: "j < ?n" for j
  proof -
    have e: "encodes a l (pe_relation (ls_producing l ! j)) (pe_gate (ls_producing l ! j)) (defines_column a (pe_output (ls_producing l ! j)))"
      using valid_source(1) [OF assms(1) l] j by simp
    have "pe_gate (ls_producing l ! j) \<in> set (list_gates l)"
      using j by (simp add: list_gates_def)
    from encoded_value [OF e assms(2) l this] show ?thesis
      using row [of j] e j layer_shape(4) [OF assms(1,5)] assms(6) by (simp add: row_gates_def nth_append encodes_def)
  qed
  moreover have "el (rv (?n + j)) = relation_at ch f0 f1 (ca_relations a ! unat (ee_relation (ls_enforcing l ! j))) \<and>
      rel_output (ca_relations a ! unat (ee_relation (ls_enforcing l ! j))) = None"
    if j: "j < length (ls_enforcing l)" for j
  proof -
    have e: "encodes a l (ee_relation (ls_enforcing l ! j)) (ee_gate (ls_enforcing l ! j)) (\<lambda>out. out = None)"
      using valid_source(2) [OF assms(1) l] j by simp
    have "ee_gate (ls_enforcing l ! j) \<in> set (list_gates l)"
      using j by (simp add: list_gates_def)
    from encoded_value [OF e assms(2) l this] show ?thesis
      using row [of "?n + j"] e j by (simp add: row_gates_def nth_append encodes_def)
  qed
  ultimately show ?thesis
    using rv(1) by (simp add: Let_def row_gates_def)
qed

text \<open>
  A circuit of one gate list: \<open>a * b\<close> written to the layer above, \<open>a\<close> held to booleanity as \<open>a * (1 - a)\<close>, the flat
  list saying \<open>b * a\<close> and \<open>a - a * a\<close>.
\<close>

definition product_circuit :: circuit_artifact where
  "product_circuit = \<lparr>ca_format_version = 1, ca_coefficient_encoding = 0, ca_trace_vars = 1,
     ca_memory = [''a''], ca_witness = [''b''], ca_setup = [], ca_virtuals = [],
     ca_layers = [\<lparr>ls_halving = False, ls_num_vars = 1, ls_width = 1, ls_cached = [],
       ls_producing = [\<lparr>pe_relation = 0, pe_output = Inner 1 0, pe_gate = Product (Literal fr_one) (Memory 0) (Witness 0)\<rparr>],
       ls_enforcing = [\<lparr>ee_relation = 1, ee_gate =
         AffineProduct [(Literal fr_one, Memory 0)] (Literal fr_zero) [(Literal fr_minus_one, Memory 0)] (Literal fr_one)\<rparr>]\<rparr>],
     ca_relations =
       [\<lparr>rel_name = ''product'', rel_output = Some 0, rel_gate = Product (Literal fr_one) (Witness 0) (Memory 0)\<rparr>,
        \<lparr>rel_name = ''boolean'', rel_output = None,
          rel_gate = Quadratic (Literal fr_zero) [(Literal fr_one, Memory 0)] [(Literal fr_minus_one, Memory 0, Memory 0)]\<rparr>],
     ca_lookups = [], ca_scratch = [\<lparr>ss_name = ''c'', ss_address = Inner 1 0\<rparr>], ca_outputs = [Inner 1 0],
     ca_padding = \<lparr>pad_row = [fr_zero, fr_zero], pad_zero_row_valid = True\<rparr>\<rparr>"

lemma fr_one_mul: "fr_ok x \<Longrightarrow> fr_mul fr_one x = x" "fr_ok x \<Longrightarrow> fr_mul x fr_one = x"
  by (simp_all add: el_inject [symmetric] fr_consts)

lemma fr_distinct: "fr_one \<noteq> fr_zero" "fr_minus_one \<noteq> fr_zero"
  by (simp_all add: fr_one_def fr_zero_def fr_minus_one_def FR_R_def MINUS_ONE_MONTGOMERY_def)

lemmas symbol_order = less_symbol_def less_eq_symbol_def less_circuit_address_def less_eq_circuit_address_def

lemma product_expansions_eq:
  "expand_gate ns (Product (Literal fr_one) (Memory 0) (Witness 0)) = (Inr [([ColumnOf (Memory 0), ColumnOf (Witness 0)], fr_one)] :: 'e fault + _)"
  "expand_gate ns (Product (Literal fr_one) (Witness 0) (Memory 0)) = (Inr [([ColumnOf (Memory 0), ColumnOf (Witness 0)], fr_one)] :: 'e fault + _)"
  by (simp_all add: expand_gate_def ns_operand_def column_expansion_def ns_column_def expansion_product_def
      normalize_terms_def merge_term_def fr_one_mul fr_distinct fr_consts symbol_order)

lemma boolean_expansions_eq:
  "expand_gate ns (AffineProduct [(Literal fr_one, Memory 0)] (Literal fr_zero) [(Literal fr_minus_one, Memory 0)] (Literal fr_one)) =
    (Inr [([ColumnOf (Memory 0)], fr_one), ([ColumnOf (Memory 0), ColumnOf (Memory 0)], fr_minus_one)] :: 'e fault + _)"
  "expand_gate ns (Quadratic (Literal fr_zero) [(Literal fr_one, Memory 0)] [(Literal fr_minus_one, Memory 0, Memory 0)]) =
    (Inr [([ColumnOf (Memory 0)], fr_one), ([ColumnOf (Memory 0), ColumnOf (Memory 0)], fr_minus_one)] :: 'e fault + _)"
  by (simp_all add: expand_gate_def ns_operand_def column_expansion_def ns_column_def expansion_product_def
      normalize_terms_def merge_term_def fr_one_mul fr_distinct fr_consts symbol_order)

lemma product_checks:
  "check_header product_circuit = Inr ()" "check_names product_circuit = Inr ()" "check_lookups product_circuit = Inr ()"
  "artifact_shapes product_circuit = Inr [(1, 2), (1, 1)]"
  "check_gate_list product_circuit 0 (ca_layers product_circuit ! 0) 2 = Inr ()"
  "check_relations product_circuit [(1, 2), (1, 1)] = Inr ()"
  "check_top_layer product_circuit [(1, 2), (1, 1)] = Inr ()" "check_challenge_slots product_circuit = Inr ()"
          apply (simp add: check_header_def product_circuit_def committed_def numbered_def del: bind_res_Inr)
         apply (simp add: check_names_def product_circuit_def artifact_names_def legal_char_def less_eq_char_def less_char_def)
        apply (simp add: check_lookups_def product_circuit_def)
       apply (simp add: artifact_shapes_def product_circuit_def committed_def)
      apply (simp add: check_gate_list_def check_row_list_def product_circuit_def numbered_def row_wise_shape_def halving_shape_def check_locality_def check_degree_def gate_degree_def degree_by_def)
     apply (simp add: check_relations_def product_circuit_def check_degree_def gate_degree_def degree_by_def halving_shape_def idx_def)
    apply (simp add: check_top_layer_def product_circuit_def numbered_def idx_def)
   apply (simp add: check_challenge_slots_def product_circuit_def list_gates_def)
  done

lemma product_source: "single_source product_circuit = Inr ()" "nothing_dropped product_circuit [(1, 2), (1, 1)] = Inr ()"
proof -
  show "single_source product_circuit = Inr ()"
    by (simp add: single_source_def product_circuit_def claim_relation_def idx_def same_polynomial_def
        product_expansions_eq boolean_expansions_eq del: bind_res_Inr)
  show "nothing_dropped product_circuit [(1, 2), (1, 1)] = Inr ()"
    by (simp add: nothing_dropped_def product_circuit_def numbered_def list_dropped_def boolean_expansions_eq)
qed

lemma product_valid: "validate_artifact product_circuit = Inr ()"
proof -
  have "numbered (ca_layers product_circuit) = [(0, ca_layers product_circuit ! 0)]"
    by (simp add: numbered_def product_circuit_def)
  then show ?thesis
    by (simp add: validate_artifact_def product_checks product_source bind_idx del: bind_res_Inr)
qed

lemma product_canonical: "artifact_canonical product_circuit"
  by (simp add: artifact_canonical_def product_circuit_def list_gates_def gate_canonical_def fr_consts)

lemma product_challenges: "check_challenges product_circuit ch = Inr ()"
  by (simp add: check_challenges_def product_circuit_def list_gates_def)

theorem gates_are_relations_witness:
  "\<exists>vs. gate_values product_circuit 0 \<lparr>pv_lower = [fr_one, fr_one], pv_upper = [], pv_virtuals = []\<rparr> ec_new = (Inr vs :: unit fault + _) \<and>
    length vs = 2 \<and> el (vs ! 0) = 1 \<and> el (vs ! 1) = 0"
proof -
  let ?f = "\<lambda>_ :: circuit_address. fr_one"
  have point: "point_of product_circuit 0 ?f ?f = \<lparr>pv_lower = [fr_one, fr_one], pv_upper = [], pv_virtuals = []\<rparr>"
    by (simp add: point_of_def product_circuit_def layer_columns_def committed_def)
  have "ec_ok ec_new" "\<forall>x. fr_ok (?f x)" "0 < length (ca_layers product_circuit)"
    by (simp_all add: ec_ok_def ec_new_def fr_consts product_circuit_def)
  from gates_are_relations [OF product_valid product_canonical product_challenges this(1,3) refl this(2,2) disjI2 [OF refl], where ?'e = unit]
  obtain vs where vs: "gate_values product_circuit 0 (point_of product_circuit 0 ?f ?f) ec_new = (Inr vs :: unit fault + _)" "length vs = 2"
    "el (vs ! 0) = relation_at ec_new ?f ?f (ca_relations product_circuit ! 0)" "el (vs ! 1) = relation_at ec_new ?f ?f (ca_relations product_circuit ! 1)"
    by (auto simp: product_circuit_def Let_def)
  have "relation_at ec_new ?f ?f (ca_relations product_circuit ! 0) = 1" "relation_at ec_new ?f ?f (ca_relations product_circuit ! 1) = 0"
    by (simp_all add: product_circuit_def relation_at_def affine_at_def el_minus_one)
  then show ?thesis
    using vs unfolding point by auto
qed

end
