(* ===== verification/Virtual_Tables.thy ===== *)
theory Virtual_Tables
  imports Circuit Multilinear Transcript
begin

text \<open>
  The virtual tables of \<open>crates/gkr-verify/src/lib.rs\<close>: their value at a row and their closed form at a point,
  which is the multilinear extension of the rows.
\<close>

section \<open>Rows and points\<close>

abbreviation (input) RAM_LIVE_BIT :: nat where "RAM_LIVE_BIT \<equiv> 14"

definition range_bits :: "virtual_kind \<Rightarrow> 'e fault + nat" where
  "range_bits kind = (case kind of Range19 \<Rightarrow> Inr 19 | Range16 \<Rightarrow> Inr 16 | _ \<Rightarrow> panic)"

definition range_at_row :: "virtual_kind \<Rightarrow> u64 \<Rightarrow> 'e fault + fr" where
  "range_at_row kind row = bind_res (range_bits kind) (\<lambda>bits. Inr (from_u64 (row AND (shl 1 bits - 1))))"

definition virtual_at_row :: "virtual_kind \<Rightarrow> nat \<Rightarrow> 'e fault + fr" where
  "virtual_at_row kind row =
     (let r = of_nat row :: u64 in
      case kind of
        RowIndex \<Rightarrow> Inr (from_u64 r)
      | RamLive \<Rightarrow> Inr (if row \<ge> 2 ^ RAM_LIVE_BIT then fr_one else fr_zero)
      | Range19 \<Rightarrow> range_at_row kind r
      | Range16 \<Rightarrow> range_at_row kind r
      | Xor8A \<Rightarrow> Inr (from_u64 (r AND 0xff))
      | Xor8B \<Rightarrow> Inr (from_u64 (shr r 8 AND 0xff))
      | Xor8Out \<Rightarrow> Inr (from_u64 ((r AND 0xff) XOR (shr r 8 AND 0xff))))"

definition point_get :: "fr list \<Rightarrow> nat \<Rightarrow> fr" where
  "point_get point j = (if j < length point then point ! j else fr_zero)"

definition horner_at :: "fr list \<Rightarrow> fr" where
  "horner_at ys = foldl (\<lambda>acc y. fr_add (fr_add acc acc) y) fr_zero (rev ys)"

definition byte_at_point :: "fr list \<Rightarrow> nat \<Rightarrow> fr" where
  "byte_at_point point first =
     foldl (\<lambda>acc j. fr_add (fr_add acc acc) (point_get point (first + j))) fr_zero (rev [0..<8])"

definition range_at_point :: "virtual_kind \<Rightarrow> fr list \<Rightarrow> 'e fault + fr" where
  "range_at_point kind point = bind_res (range_bits kind) (\<lambda>bits. Inr (horner_at (take (min (length point) bits) point)))"

definition virtual_at_point :: "virtual_kind \<Rightarrow> fr list \<Rightarrow> 'e fault + fr" where
  "virtual_at_point kind point =
     (case kind of
        RowIndex \<Rightarrow> Inr (horner_at point)
      | RamLive \<Rightarrow>
          let high = drop (min (length point) RAM_LIVE_BIT) point in
          Inr (fr_sub fr_one (foldl (\<lambda>acc y. fr_mul acc (fr_sub fr_one y)) fr_one high))
      | Range19 \<Rightarrow> range_at_point kind point
      | Range16 \<Rightarrow> range_at_point kind point
      | Xor8A \<Rightarrow> Inr (byte_at_point point 0)
      | Xor8B \<Rightarrow> Inr (byte_at_point point 8)
      | Xor8Out \<Rightarrow>
          Inr (foldl (\<lambda>acc j.
            let y = point_get point j; z = point_get point (j + 8) in
            fr_sub (fr_add (fr_add (fr_add acc acc) y) z) (fr_add (fr_mul y z) (fr_mul y z))) fr_zero (rev [0..<8])))"

section \<open>Extensions of functions of the row's bits\<close>

definition extend_fun :: "zp list \<Rightarrow> (nat \<Rightarrow> zp) \<Rightarrow> zp" where
  "extend_fun rs f = (\<Sum>i < 2 ^ length rs. weight rs i * f i)"

lemma extension_extend: "extension rs (map f [0..<2 ^ length rs]) = extend_fun rs f"
  by (simp add: extension_def extend_fun_def)

lemma extend_cong: "(\<And>i. i < 2 ^ length rs \<Longrightarrow> f i = g i) \<Longrightarrow> extend_fun rs f = extend_fun rs g"
  by (simp add: extend_fun_def)

lemma extend_Nil [simp]: "extend_fun [] f = f 0"
  by (simp add: extend_fun_def)

lemma extend_Cons:
  "extend_fun (r # rs) f = (1 - r) * extend_fun rs (\<lambda>i. f (2 * i)) + r * extend_fun rs (\<lambda>i. f (2 * i + 1))"
proof -
  have "extend_fun (r # rs) f = (\<Sum>i < 2 ^ length rs. weight (r # rs) (2 * i) * f (2 * i) + weight (r # rs) (2 * i + 1) * f (2 * i + 1))"
    unfolding extend_fun_def by (simp add: sum_pairs)
  also have "\<dots> = (\<Sum>i < 2 ^ length rs. (1 - r) * (weight rs i * f (2 * i)) + r * (weight rs i * f (2 * i + 1)))"
    by (simp add: algebra_simps)
  finally show ?thesis
    by (simp add: extend_fun_def sum.distrib sum_distrib_left)
qed

lemma extend_linear: "extend_fun rs (\<lambda>i. \<Sum>j \<in> J. c j * f j i) = (\<Sum>j \<in> J. c j * extend_fun rs (f j))"
  unfolding extend_fun_def
  by (simp add: sum_distrib_left mult.left_commute sum.swap [of _ J])

lemma extend_add: "extend_fun rs (\<lambda>i. f i + g i) = extend_fun rs f + extend_fun rs g"
  and extend_diff: "extend_fun rs (\<lambda>i. f i - g i) = extend_fun rs f - extend_fun rs g"
  and extend_scale: "extend_fun rs (\<lambda>i. c * f i) = c * extend_fun rs f"
  by (simp_all add: extend_fun_def distrib_left right_diff_distrib sum.distrib sum_subtractf sum_distrib_left mult.left_commute)

lemma extend_const: "extend_fun rs (\<lambda>_. c) = c"
  by (induction rs) (simp_all add: extend_Cons flip: distrib_right)

text \<open>A product of functions of single bits extends to the product of their extensions.\<close>

lemma extend_prod:
  "extend_fun rs (\<lambda>i. \<Prod>j < m. g j (bit i j)) =
    (\<Prod>j < m. if j < length rs then (1 - rs ! j) * g j False + rs ! j * g j True else g j False)"
proof (induction rs arbitrary: m g)
  case (Cons r rs)
  show ?case
  proof (cases m)
    case 0
    then show ?thesis by (simp add: extend_const)
  next
    case (Suc m')
    have ext: "extend_fun rs (\<lambda>i. g 0 b * (\<Prod>j < m'. g (Suc j) (bit i j))) =
        g 0 b * (\<Prod>j < m'. if j < length rs then (1 - rs ! j) * g (Suc j) False + rs ! j * g (Suc j) True else g (Suc j) False)" for b
      by (simp add: extend_scale Cons.IH [of "\<lambda>j. g (Suc j)" m'])
    have "bit (2 * i) (Suc j) = bit i j" "bit (Suc (2 * i)) (Suc j) = bit i j" "bit (2 * i) 0 = False" "bit (Suc (2 * i)) 0 = True" for i j :: nat
      by (simp_all add: bit_Suc bit_0)
    then show ?thesis
      unfolding extend_Cons Suc by (simp add: prod.lessThan_Suc_shift ext distrib_right mult.assoc del: prod.lessThan_Suc cong: if_cong)
  qed
qed (simp add: extend_fun_def)

lemma extend_bits:
  assumes "finite J"
  shows "extend_fun rs (\<lambda>i. \<Prod>j \<in> J. h (bit i j)) = (\<Prod>j \<in> J. if j < length rs then (1 - rs ! j) * h False + rs ! j * h True else h False)"
proof -
  obtain m where m: "J \<subseteq> {..<m}"
    using assms by (auto simp: finite_nat_set_iff_bounded)
  have "(\<Prod>j \<in> J. F j) = (\<Prod>j < m. if j \<in> J then F j else 1)" for F :: "nat \<Rightarrow> zp"
    using m by (simp add: prod.If_cases Int_absorb1 Int_absorb2)
  then show ?thesis
    using extend_prod [of rs "\<lambda>j b. if j \<in> J then h b else 1" m]
    by (simp add: if_distrib cong: if_cong)
qed

text \<open>The value of variable \<open>j\<close>, 0 past the last, and the extensions of one bit and of two.\<close>

definition variable :: "zp list \<Rightarrow> nat \<Rightarrow> zp" where
  "variable rs j = (if j < length rs then rs ! j else 0)"

lemma extend_bit: "extend_fun rs (\<lambda>i. of_bool (bit i j)) = variable rs j"
  using extend_bits [of "{j}" rs of_bool] by (simp add: variable_def)

lemma extend_bit_pair: "j \<noteq> k \<Longrightarrow> extend_fun rs (\<lambda>i. of_bool (bit i j) * of_bool (bit i k)) = variable rs j * variable rs k"
  using extend_bits [of "{j, k}" rs of_bool] by (simp add: variable_def)

section \<open>The folds over a point\<close>

lemma fold_bits:
  assumes "\<And>acc j. fr_ok acc \<Longrightarrow> j < n \<Longrightarrow> fr_ok (step acc j) \<and> el (step acc j) = el acc + el acc + v j"
  shows "fr_ok acc \<Longrightarrow> fr_ok (foldl step acc (rev [0..<n])) \<and>
    el (foldl step acc (rev [0..<n])) = 2 ^ n * el acc + (\<Sum>j < n. 2 ^ j * v j)"
  using assms
proof (induction n arbitrary: acc)
  case (Suc n)
  have "fr_ok (step acc n)" "el (step acc n) = el acc + el acc + v n"
    using Suc.prems by simp_all
  then show ?case
    using Suc.IH [of "step acc n"] Suc.prems(2) by (simp add: algebra_simps)
qed simp

lemma point_get_ok: "list_all fr_ok point \<Longrightarrow> fr_ok (point_get point j) \<and> el (point_get point j) = variable (map el point) j"
  by (simp add: point_get_def variable_def list_all_length fr_consts)

lemma horner_value:
  assumes "list_all fr_ok ys"
  shows "fr_ok (horner_at ys) \<and> el (horner_at ys) = (\<Sum>j < length ys. 2 ^ j * el (ys ! j))"
proof -
  have "rev ys = map ((!) ys) (rev [0..<length ys])"
    by (simp flip: rev_map add: map_nth)
  then have "horner_at ys = foldl (\<lambda>acc j. fr_add (fr_add acc acc) (ys ! j)) fr_zero (rev [0..<length ys])"
    by (simp add: horner_at_def foldl_map)
  then show ?thesis
    using fold_bits [of "length ys" "\<lambda>acc j. fr_add (fr_add acc acc) (ys ! j)" "\<lambda>j. el (ys ! j)" fr_zero] assms
    by (simp add: list_all_length fr_consts)
qed

lemma horner_take_value:
  assumes "list_all fr_ok point"
  shows "fr_ok (horner_at (take (min (length point) b) point)) \<and>
    el (horner_at (take (min (length point) b) point)) = (\<Sum>j < b. 2 ^ j * variable (map el point) j)"
proof -
  let ?m = "min (length point) b"
  have "(\<Sum>j < b. 2 ^ j * variable (map el point) j) = (\<Sum>j < ?m. 2 ^ j * variable (map el point) j)"
    by (rule sum.mono_neutral_right) (auto simp: variable_def)
  moreover have "list_all fr_ok (take ?m point)"
    using assms by (simp add: list_all_length)
  ultimately show ?thesis
    using horner_value [of "take ?m point"] by (simp add: variable_def)
qed

lemma byte_value:
  assumes "list_all fr_ok point"
  shows "fr_ok (byte_at_point point first) \<and> el (byte_at_point point first) = (\<Sum>j < 8. 2 ^ j * variable (map el point) (first + j))"
  using fold_bits [of 8 "\<lambda>acc j. fr_add (fr_add acc acc) (point_get point (first + j))" "\<lambda>j. variable (map el point) (first + j)" fr_zero]
    point_get_ok [OF assms]
  by (simp add: byte_at_point_def fr_consts)

lemma live_fold_value:
  "list_all fr_ok ys \<Longrightarrow> fr_ok acc \<Longrightarrow>
    fr_ok (foldl (\<lambda>acc y. fr_mul acc (fr_sub fr_one y)) acc ys) \<and>
    el (foldl (\<lambda>acc y. fr_mul acc (fr_sub fr_one y)) acc ys) = el acc * (\<Prod>y \<leftarrow> ys. 1 - el y)"
  by (induction ys arbitrary: acc) (simp_all add: fr_consts mult.assoc)

section \<open>The rows as bits\<close>

lemma take_bit_bits: "(of_nat (take_bit b (row :: nat)) :: zp) = (\<Sum>j < b. 2 ^ j * of_bool (bit row j))"
proof -
  have "take_bit b row = (\<Sum>j < b. 2 ^ j * of_bool (bit row j))"
    by (simp add: take_bit_sum push_bit_eq_mult lessThan_atLeast0 mult.commute)
  then show ?thesis
    by (simp add: of_nat_sum)
qed

lemma row_word:
  assumes "row < 2 ^ 64"
  shows "unat (of_nat row :: u64) = row"
    "unat ((of_nat row :: u64) AND (shl 1 b - 1)) = take_bit b row"
    "unat ((of_nat row :: u64) AND 0xff) = take_bit 8 row" "unat (shr (of_nat row :: u64) 8 AND 0xff) = take_bit 8 (drop_bit 8 row)"
    "unat (((of_nat row :: u64) AND 0xff) XOR (shr (of_nat row :: u64) 8 AND 0xff)) = take_bit 8 (row XOR drop_bit 8 row)"
proof -
  show r: "unat (of_nat row :: u64) = row"
    using assms by (simp add: unat_of_nat)
  have t: "take_bit 64 row = row"
    using assms by (rule take_bit_nat_eq_self)
  have m: "w AND (shl 1 b - 1) = take_bit b w" for w :: u64 and b
    by (simp add: take_bit_eq_mask mask_eq_exp_minus_1 push_bit_of_1)
  have ff: "w AND 0xff = take_bit 8 w" for w :: u64
    by (simp add: take_bit_eq_mask mask_eq_exp_minus_1)
  show "unat ((of_nat row :: u64) AND (shl 1 b - 1)) = take_bit b row"
    unfolding m by (simp add: unsigned_take_bit_eq r)
  show "unat ((of_nat row :: u64) AND 0xff) = take_bit 8 row"
    unfolding ff by (simp add: unsigned_take_bit_eq r)
  show "unat (shr (of_nat row :: u64) 8 AND 0xff) = take_bit 8 (drop_bit 8 row)"
    unfolding ff by (simp add: unsigned_take_bit_eq unsigned_drop_bit_eq r t)
  show "unat (((of_nat row :: u64) AND 0xff) XOR (shr (of_nat row :: u64) 8 AND 0xff)) = take_bit 8 (row XOR drop_bit 8 row)"
    unfolding ff take_bit_xor [symmetric] by (simp add: unsigned_take_bit_eq unsigned_drop_bit_eq unsigned_xor_eq r t)
qed

text \<open>A row's value in the bits of its number, and a point's in its variables.\<close>

fun row_bits :: "virtual_kind \<Rightarrow> nat \<Rightarrow> (nat \<Rightarrow> zp) \<Rightarrow> zp" where
  "row_bits RowIndex n b = (\<Sum>j < n. 2 ^ j * b j)"
| "row_bits RamLive n b = 1 - (\<Prod>j \<in> {14..<n}. 1 - b j)"
| "row_bits Range19 n b = (\<Sum>j < 19. 2 ^ j * b j)"
| "row_bits Range16 n b = (\<Sum>j < 16. 2 ^ j * b j)"
| "row_bits Xor8A n b = (\<Sum>j < 8. 2 ^ j * b j)"
| "row_bits Xor8B n b = (\<Sum>j < 8. 2 ^ j * b (8 + j))"
| "row_bits Xor8Out n b = (\<Sum>j < 8. 2 ^ j * (b j + b (j + 8) - 2 * (b j * b (j + 8))))"

lemma extend_row_bits:
  assumes "n = length rs"
  shows "extend_fun rs (\<lambda>row. row_bits kind n (\<lambda>j. of_bool (bit row j))) = row_bits kind n (variable rs)"
proof (cases kind)
  case RamLive
  have "extend_fun rs (\<lambda>row. \<Prod>j \<in> {14..<n}. 1 - of_bool (bit row j)) = (\<Prod>j \<in> {14..<n}. 1 - variable rs j)"
    using extend_bits [of "{14..<n}" rs "\<lambda>b. 1 - of_bool b"] assms by (simp add: variable_def)
  then show ?thesis
    by (simp add: RamLive extend_diff extend_const)
next
  case Xor8Out
  have "extend_fun rs (\<lambda>row. of_bool (bit row j) + of_bool (bit row (j + 8)) - 2 * (of_bool (bit row j) * of_bool (bit row (j + 8)))) =
      variable rs j + variable rs (j + 8) - 2 * (variable rs j * variable rs (j + 8))" for j
    by (simp add: extend_diff extend_add extend_scale extend_bit extend_bit_pair)
  then show ?thesis
    by (simp only: Xor8Out row_bits.simps extend_linear)
qed (simp_all only: row_bits.simps extend_linear extend_bit)

lemma live_bits:
  fixes row :: nat
  assumes "row < 2 ^ n"
  shows "row \<ge> 2 ^ 14 \<longleftrightarrow> (\<exists>j \<in> {14..<n}. bit row j)"
proof
  assume "\<exists>j \<in> {14..<n}. bit row j"
  then obtain j where "14 \<le> j" "bit row j"
    by auto
  have "2 ^ j \<le> row"
  proof (rule ccontr)
    assume "\<not> 2 ^ j \<le> row"
    then show False
      using \<open>bit row j\<close> by (simp add: bit_iff_odd)
  qed
  moreover have "(2 :: nat) ^ 14 \<le> 2 ^ j"
    using \<open>14 \<le> j\<close> by (intro power_increasing) simp_all
  ultimately show "2 ^ 14 \<le> row"
    by linarith
next
  assume r: "2 ^ 14 \<le> row"
  show "\<exists>j \<in> {14..<n}. bit row j"
  proof (rule ccontr)
    assume "\<not> (\<exists>j \<in> {14..<n}. bit row j)"
    then have "take_bit 14 row = row"
      using assms by (intro bit_eqI) (metis atLeastLessThan_iff bit_take_bit_iff linorder_not_le take_bit_nat_eq_self)
    then show False
      using r by (metis linorder_not_le take_bit_nat_less_exp)
  qed
qed

lemma virtual_row_value:
  assumes "row < 2 ^ n" "n \<le> 64"
  obtains x where "(virtual_at_row kind row :: 'e fault + fr) = Inr x" "fr_ok x" "el x = row_bits kind n (\<lambda>j. of_bool (bit row j))"
proof -
  have row: "row < 2 ^ 64"
    using assms by (meson less_le_trans one_le_numeral power_increasing)
  note word = row_word [OF row]
  have u: "el (from_u64 x) = of_nat (unat x)" for x
    by (simp add: el_def from_u64_value)
  have range: "el (from_u64 (of_nat row AND (shl 1 b - 1))) = (\<Sum>j < b. 2 ^ j * of_bool (bit row j))" for b
    unfolding u word(2) by (rule take_bit_bits)
  show thesis
  proof (cases kind)
    case Range19
    then show ?thesis
      using range [of 19] by (intro that [of "from_u64 (of_nat row AND (shl 1 19 - 1))"])
        (simp_all only: virtual_at_row_def range_at_row_def range_bits_def Let_def virtual_kind.case bind_res.simps
          row_bits.simps from_u64_canonical)
  next
    case Range16
    then show ?thesis
      using range [of 16] by (intro that [of "from_u64 (of_nat row AND (shl 1 16 - 1))"])
        (simp_all only: virtual_at_row_def range_at_row_def range_bits_def Let_def virtual_kind.case bind_res.simps
          row_bits.simps from_u64_canonical)
  next
    case RowIndex
    then show ?thesis
      using that [of "from_u64 (of_nat row)"] take_bit_bits [of n row] assms(1)
      by (simp add: virtual_at_row_def u word take_bit_nat_eq_self)
  next
    case RamLive
    have "(\<Prod>j \<in> {14..<n}. 1 - (of_bool (bit row j) :: zp)) = of_bool (\<not> (\<exists>j \<in> {14..<n}. bit row j))"
      by (cases "\<exists>j \<in> {14..<n}. bit row j") (auto intro!: prod_zero prod.neutral)
    then show ?thesis
      using that [of "if row \<ge> 2 ^ 14 then fr_one else fr_zero"] live_bits [OF assms(1)]
      by (simp add: RamLive virtual_at_row_def fr_consts)
  next
    case Xor8B
    then show ?thesis
      using that [of "from_u64 (shr (of_nat row) 8 AND 0xff)"] take_bit_bits [of 8 "drop_bit 8 row"]
      by (simp add: virtual_at_row_def u word bit_drop_bit_eq)
  next
    case Xor8Out
    have "of_bool (bit (row XOR drop_bit 8 row) j) =
        (of_bool (bit row j) + of_bool (bit row (j + 8)) - 2 * (of_bool (bit row j) * of_bool (bit row (j + 8))) :: zp)" for j
      by (simp add: bit_xor_iff bit_drop_bit_eq add.commute)
    then show ?thesis
      using that [of "from_u64 ((of_nat row AND 0xff) XOR (shr (of_nat row) 8 AND 0xff))"] take_bit_bits [of 8 "row XOR drop_bit 8 row"]
      by (simp add: Xor8Out virtual_at_row_def u word Let_def)
  qed (use that u word take_bit_bits in \<open>simp_all add: virtual_at_row_def range_at_row_def range_bits_def\<close>)
qed

lemma virtual_point_value:
  assumes "list_all fr_ok point"
  obtains x where "(virtual_at_point kind point :: 'e fault + fr) = Inr x" "fr_ok x" "el x = row_bits kind (length point) (variable (map el point))"
proof (cases kind)
  case RowIndex
  then show thesis
    using that horner_take_value [OF assms, of "length point"] by (simp add: virtual_at_point_def)
next
  case RamLive
  let ?high = "drop (min (length point) 14) point"
  have "list_all fr_ok ?high"
    using assms by (simp add: list_all_length)
  note fold = live_fold_value [OF this, of fr_one]
  have "(\<Prod>y \<leftarrow> ?high. 1 - el y) = (\<Prod>j \<in> {14..<length point}. 1 - variable (map el point) j)"
  proof -
    have "?high = map ((!) point) [14..<length point]"
      by (rule nth_equalityI) (auto simp: min_def)
    then have "(\<Prod>y \<leftarrow> ?high. 1 - el y) = (\<Prod>j \<leftarrow> [14..<length point]. 1 - variable (map el point) j)"
      by (auto simp: comp_def variable_def intro!: arg_cong [of _ _ prod_list])
    then show ?thesis
      using prod.distinct_set_conv_list [of "[14..<length point]" "\<lambda>j. 1 - variable (map el point) j"] by simp
  qed
  then show thesis
    using that fold by (simp add: RamLive virtual_at_point_def fr_consts)
next
  case Xor8Out
  let ?step = "\<lambda>acc j. let y = point_get point j; z = point_get point (j + 8) in
      fr_sub (fr_add (fr_add (fr_add acc acc) y) z) (fr_add (fr_mul y z) (fr_mul y z))"
  let ?v = "variable (map el point)"
  have "fr_ok (?step acc j) \<and> el (?step acc j) = el acc + el acc + (?v j + ?v (j + 8) - 2 * (?v j * ?v (j + 8)))" if "fr_ok acc" for acc j
    using point_get_ok [OF assms] that by (simp add: Let_def algebra_simps)
  then show thesis
    using that fold_bits [of 8 ?step "\<lambda>j. ?v j + ?v (j + 8) - 2 * (?v j * ?v (j + 8))" fr_zero]
    by (simp add: Xor8Out virtual_at_point_def fr_consts)
qed (use that horner_take_value [OF assms] byte_value [OF assms] in
    \<open>simp_all add: virtual_at_point_def range_at_point_def range_bits_def\<close>)

section \<open>The property\<close>

text \<open>C25: a virtual table is a polynomial: at any point of as many canonical coordinates as a table of at most
  \<open>2 ^ 64\<close> rows has variables, the closed form is the multilinear extension of the values the table has at its
  rows.\<close>

theorem virtual_extends:
  assumes "list_all fr_ok point" "length point \<le> 64"
  shows "\<exists>x t. virtual_at_point kind point = (Inr x :: 'e fault + fr) \<and>
    map_res (virtual_at_row kind) [0..<2 ^ length point] = (Inr t :: 'e fault + fr list) \<and>
    el x = extension (map el point) (map el t)"
proof -
  obtain x where x: "(virtual_at_point kind point :: 'e fault + fr) = Inr x"
    "el x = row_bits kind (length point) (variable (map el point))"
    by (rule virtual_point_value [OF assms(1)]) (rule that)
  define row where "row i = projr (virtual_at_row kind i :: 'e fault + fr)" for i
  have rows: "(virtual_at_row kind i :: 'e fault + fr) = Inr (row i)" "el (row i) = row_bits kind (length point) (\<lambda>j. of_bool (bit i j))"
    if i: "i < 2 ^ length point" for i
  proof -
    obtain y where "(virtual_at_row kind i :: 'e fault + fr) = Inr y" "el y = row_bits kind (length point) (\<lambda>j. of_bool (bit i j))"
      by (rule virtual_row_value [OF i assms(2)]) (rule that)
    then show "(virtual_at_row kind i :: 'e fault + fr) = Inr (row i)" "el (row i) = row_bits kind (length point) (\<lambda>j. of_bool (bit i j))"
      by (simp_all add: row_def)
  qed
  have "map_res (virtual_at_row kind) [0..<2 ^ length point] = (Inr (map row [0..<2 ^ length point]) :: 'e fault + fr list)"
    by (rule map_res_value) (simp add: rows(1))
  moreover have "extension (map el point) (map el (map row [0..<2 ^ length point])) = el x"
  proof -
    have "extension (map el point) (map (\<lambda>i. el (row i)) [0..<2 ^ length (map el point)]) =
        extend_fun (map el point) (\<lambda>i. row_bits kind (length point) (\<lambda>j. of_bool (bit i j)))"
      unfolding extension_extend by (rule extend_cong) (simp add: rows(2))
    also have "\<dots> = el x"
      unfolding x(2) by (rule extend_row_bits) simp
    finally show ?thesis
      by (simp add: comp_def)
  qed
  ultimately show ?thesis
    using x(1) by auto
qed

theorem virtual_extends_witness:
  "\<exists>x t. virtual_at_point Xor8Out [fr_one, fr_zero] = (Inr x :: unit fault + fr) \<and>
    map_res (virtual_at_row Xor8Out) [0..<4] = (Inr t :: unit fault + fr list) \<and> el x = extension [1, 0] (map el t)"
  using virtual_extends [of "[fr_one, fr_zero]" Xor8Out, where ?'e = unit] by (simp add: fr_consts del: upt_Suc)

end
