(* ===== verification/Gkr_Verify.thy ===== *)
theory Gkr_Verify
  imports Kernel Virtual_Tables Sumcheck
begin

text \<open>
  The GKR verifier of \<open>crates/gkr-verify/src/lib.rs\<close>: \<open>verify\<close> reduces a circuit's output claims to claims about its
  committed columns, layer by layer. On a valid artifact it answers every proof and every output.
\<close>

section \<open>The verifier\<close>

record base_claim =
  bc_address :: circuit_address
  bc_point :: "fr list"
  bc_value :: fr

abbreviation (input) tags_GKR_OUTPUTS :: u64 where "tags_GKR_OUTPUTS \<equiv> 25"
abbreviation (input) tags_GKR_OUTPUT_POINT :: u64 where "tags_GKR_OUTPUT_POINT \<equiv> 26"
abbreviation (input) tags_GKR_BATCH :: u64 where "tags_GKR_BATCH \<equiv> 27"
abbreviation (input) tags_GKR_LAYER_CLAIMS :: u64 where "tags_GKR_LAYER_CLAIMS \<equiv> 28"
abbreviation (input) tags_GKR_CHILD :: u64 where "tags_GKR_CHILD \<equiv> 29"

fun powers_from :: "fr \<Rightarrow> fr \<Rightarrow> nat \<Rightarrow> fr list" where
  "powers_from lambda acc 0 = []"
| "powers_from lambda acc (Suc n) = acc # powers_from lambda (fr_mul acc lambda) n"

definition powers :: "fr \<Rightarrow> nat \<Rightarrow> fr list" where
  "powers lambda n = powers_from lambda fr_one n"

definition claim_count :: "circuit_artifact \<Rightarrow> nat \<Rightarrow> 'e fault + nat" where
  "claim_count a k =
     bind_res (layer_width a k) (\<lambda>width. bind_res (idx (ca_layers a) k) (\<lambda>l.
       Inr (if ls_halving l then 2 * unat width else unat width)))"

fun horner_cubic :: "quad \<Rightarrow> fr \<Rightarrow> fr" where
  "horner_cubic (g0, g1, g2, g3) x = fr_add (fr_mul (fr_add (fr_mul (fr_add (fr_mul g3 x) g2) x) g1) x) g0"

text \<open>The rounds of one layer sumcheck: the bound point and the last claim, or \<open>None\<close> at the first that does not sum.\<close>

fun verify_sumcheck :: "fr \<Rightarrow> quad list \<Rightarrow> transcript \<Rightarrow> 'e fault + ((fr list \<times> fr) option \<times> transcript)" where
  "verify_sumcheck claim [] t = Inr (Some ([], claim), t)"
| "verify_sumcheck claim (g # gs) t =
     (if fr_add (horner_cubic g fr_zero) (horner_cubic g fr_one) \<noteq> claim then Inr (None, t)
      else
        bind_res (append_scalars tags_SUMCHECK_ROUND (quad_list g) t) (\<lambda>t.
        bind_res (challenge_scalar tags_SUMCHECK_CHALLENGE t) (\<lambda>(r, t).
        bind_res (verify_sumcheck (horner_cubic g r) gs t) (\<lambda>(res, t).
          Inr (map_option (\<lambda>(point, claim). (r # point, claim)) res, t)))))"

text \<open>\<open>step_by(2)\<close> and \<open>chunks(2)\<close>.\<close>

fun every_other :: "'a list \<Rightarrow> 'a list" where
  "every_other (x # _ # xs) = x # every_other xs"
| "every_other xs = xs"

fun join_children :: "fr \<Rightarrow> fr list \<Rightarrow> 'e fault + fr list" where
  "join_children tau [] = Inr []"
| "join_children tau [_] = panic"
| "join_children tau (x # y # evals) =
     bind_res (join_children tau evals) (\<lambda>vs. Inr (fr_add x (fr_mul tau (fr_sub y x)) # vs))"

fun output_point :: "nat \<Rightarrow> transcript \<Rightarrow> 'e fault + (fr list \<times> transcript)" where
  "output_point 0 t = Inr ([], t)"
| "output_point (Suc n) t =
     bind_res (challenge_scalar tags_GKR_OUTPUT_POINT t) (\<lambda>(c, t).
     bind_res (output_point n t) (\<lambda>(cs, t). Inr (c # cs, t)))"

text \<open>The outputs' values at the point, each at its column's offset.\<close>

fun place_outputs :: "fr list \<Rightarrow> (multilinear_poly \<times> circuit_address) list \<Rightarrow> fr list \<Rightarrow> 'e fault + fr list" where
  "place_outputs point [] vs = Inr vs"
| "place_outputs point ((table, out) # rest) vs =
     (case out of
        Inner _ offset \<Rightarrow>
          bind_res (mp_evaluate point table) (\<lambda>v.
          bind_res (set_at vs (unat offset) v) (\<lambda>vs. place_outputs point rest vs))
      | _ \<Rightarrow> place_outputs point rest vs)"

text \<open>The layer's summand at the claimed values, and the claims L4 makes of them.\<close>

definition layer_summand ::
  "circuit_artifact \<Rightarrow> nat \<Rightarrow> layer_spec \<Rightarrow> fr list \<Rightarrow> fr list \<Rightarrow> fr list \<Rightarrow> external_challenges \<Rightarrow> 'e fault + fr" where
  "layer_summand a k l weights evals rho ch =
     (if ls_halving l
      then list_summand a k weights
        \<lparr>pv_lower = every_other evals, pv_upper = every_other (drop 1 evals), pv_virtuals = []\<rparr> ch
      else
        bind_res (map_res (\<lambda>(kind, _). virtual_at_point kind rho) (ca_virtuals a)) (\<lambda>virtuals.
          list_summand a k weights \<lparr>pv_lower = evals, pv_upper = [], pv_virtuals = virtuals\<rparr> ch))"

definition next_claims :: "layer_spec \<Rightarrow> fr list \<Rightarrow> fr list \<Rightarrow> transcript \<Rightarrow> 'e fault + (fr list \<times> fr list \<times> transcript)" where
  "next_claims l evals rho t =
     (if ls_halving l then
        bind_res (challenge_scalar tags_GKR_CHILD t) (\<lambda>(tau, t).
        bind_res (join_children tau evals) (\<lambda>vs. Inr (vs, rho @ [tau], t)))
      else Inr (evals, rho, t))"

definition verify_layer ::
  "circuit_artifact \<Rightarrow> sumcheck_proof list \<Rightarrow> external_challenges \<Rightarrow> nat \<Rightarrow> fr list \<times> fr list \<times> transcript \<Rightarrow>
    gkr_error fault + (fr list \<times> fr list \<times> transcript)" where
  "verify_layer a layers ch k = (\<lambda>(vs, point, t).
     bind_res (idx (ca_layers a) k) (\<lambda>l.
     bind_res (idx layers k) (\<lambda>layer.
     bind_res (challenge_scalar tags_GKR_BATCH t) (\<lambda>(lambda, t).
     let weights = powers lambda (length (ls_producing l) + length (ls_enforcing l));
         claim = foldl (\<lambda>acc (v, w). fr_add acc (fr_mul v w)) fr_zero (zip vs weights);
         evals = sp_final_evals layer in
     bind_res (verify_sumcheck claim (sp_rounds layer) t) (\<lambda>(res, t).
     case res of
       None \<Rightarrow> refuse (LayerInconsistency k)
     | Some (rho, final_claim) \<Rightarrow>
         bind_res (append_scalars tags_GKR_LAYER_CLAIMS evals t) (\<lambda>t.
         bind_res (layer_summand a k l weights evals rho ch) (\<lambda>s.
         bind_res (eq_eval point rho) (\<lambda>e.
         if final_claim \<noteq> fr_mul e s then refuse (LayerInconsistency k)
         else next_claims l evals rho t))))))))"

fun verify_layers ::
  "circuit_artifact \<Rightarrow> sumcheck_proof list \<Rightarrow> external_challenges \<Rightarrow> nat list \<Rightarrow> fr list \<times> fr list \<times> transcript \<Rightarrow>
    gkr_error fault + (fr list \<times> fr list \<times> transcript)" where
  "verify_layers a layers ch [] st = Inr st"
| "verify_layers a layers ch (k # ks) st = bind_res (verify_layer a layers ch k st) (\<lambda>st. verify_layers a layers ch ks st)"

definition check_proof_shape :: "circuit_artifact \<Rightarrow> sumcheck_proof list \<Rightarrow> gkr_error fault + unit" where
  "check_proof_shape a layers =
     each (\<lambda>(k, layer).
       bind_res (layer_vars a (k + 1)) (\<lambda>vars.
       if length (sp_rounds layer) \<noteq> unat vars then refuse (ProofShape k)
       else
         bind_res (claim_count a k) (\<lambda>claims.
         if length (sp_final_evals layer) \<noteq> claims then refuse (ProofShape k) else Inr ()))) (numbered layers)"

definition gkr_verify ::
  "circuit_artifact \<Rightarrow> sumcheck_proof list \<Rightarrow> multilinear_poly list \<Rightarrow> external_challenges \<Rightarrow> transcript \<Rightarrow>
    gkr_error fault + (base_claim list \<times> transcript)" where
  "gkr_verify a layers outputs ch t =
     bind_res (check_challenges a ch) (\<lambda>_.
     bind_res (layer_vars a (depth_of a)) (\<lambda>top.
     if length outputs \<noteq> length (ca_outputs a) \<or> list_ex (\<lambda>table. mp_num_vars table \<noteq> unat top) outputs
     then refuse OutputShape
     else if length layers \<noteq> depth_of a then refuse (ProofShape (depth_of a))
     else
       bind_res (check_proof_shape a layers) (\<lambda>_.
       bind_res (map_res (\<lambda>table. map_res (mp_get table) [0..<mp_len table]) outputs) (\<lambda>messages.
       bind_res (append_scalars tags_GKR_OUTPUTS (concat messages) t) (\<lambda>t.
       bind_res (output_point (unat top) t) (\<lambda>(point, t).
       bind_res (place_outputs point (zip outputs (ca_outputs a)) (replicate (length (ca_outputs a)) fr_zero)) (\<lambda>vs.
       bind_res (verify_layers a layers ch (rev [0..<depth_of a]) (vs, point, t)) (\<lambda>(vs, point, t).
       Inr (map (\<lambda>(x, v). \<lparr>bc_address = x, bc_point = point, bc_value = v\<rparr>) (zip (committed a) vs), t)))))))))"

section \<open>Values at a point\<close>

lemma powers_from_ok: "fr_ok lambda \<Longrightarrow> fr_ok acc \<Longrightarrow> length (powers_from lambda acc n) = n \<and> list_all fr_ok (powers_from lambda acc n)"
  by (induction n arbitrary: acc) simp_all

lemma powers_ok: "fr_ok lambda \<Longrightarrow> length (powers lambda n) = n \<and> list_all fr_ok (powers lambda n)"
  by (simp add: powers_def powers_from_ok fr_consts)

lemma horner_cubic_ok: "quad_all fr_ok g \<Longrightarrow> fr_ok x \<Longrightarrow> fr_ok (horner_cubic g x)"
  by (cases g) simp

lemma every_other_length: "length (every_other xs) = (length xs + 1) div 2"
  by (induction xs rule: every_other.induct) simp_all

lemma set_every_other: "set (every_other xs) \<subseteq> set xs"
  by (induction xs rule: every_other.induct) auto

lemma every_other_ok: "list_all fr_ok xs \<Longrightarrow> list_all fr_ok (every_other xs)"
  using set_every_other [of xs] by (auto simp: list_all_iff)

lemma join_children_value:
  "even (length evals) \<Longrightarrow> fr_ok tau \<Longrightarrow> list_all fr_ok evals \<Longrightarrow>
    \<exists>vs. (join_children tau evals :: 'e fault + _) = Inr vs \<and> length vs = length evals div 2 \<and> list_all fr_ok vs"
  by (induction tau evals rule: join_children.induct) (auto simp del: bind_res_Inr)

lemma fold_claim_ok:
  "list_all fr_ok vs \<Longrightarrow> list_all fr_ok ws \<Longrightarrow> fr_ok acc \<Longrightarrow> fr_ok (foldl (\<lambda>acc (v, w). fr_add acc (fr_mul v w)) acc (zip vs ws))"
proof (induction vs arbitrary: ws acc)
  case (Cons v vs)
  then show ?case
    by (cases ws) simp_all
qed simp

lemma output_point_value:
  "transcript_ok t \<Longrightarrow> \<exists>cs t'. (output_point n t :: 'e fault + _) = Inr (cs, t') \<and> length cs = n \<and> list_all fr_ok cs \<and> transcript_ok t'"
proof (induction n arbitrary: t)
  case (Suc n)
  obtain c t1 where "(challenge_scalar tags_GKR_OUTPUT_POINT t :: 'e fault + _) = Inr (c, t1)" "transcript_ok t1" "fr_ok c"
    using challenge_scalar_refines [OF Suc.prems] by metis
  then show ?case
    using Suc.IH [of t1] by (auto simp del: bind_res_Inr)
qed simp

text \<open>Any canonical values of the columns are the values of some assignment of the addresses.\<close>

lemma layer_columns_length:
  "length (committed a) < 2 ^ 32 \<Longrightarrow> length (layer_columns a k) = unat (width_below a k)"
  by (simp add: layer_columns_def width_below_def unat_of_nat)

lemma layer_columns_distinct:
  assumes "length (committed a) < 2 ^ 32"
  shows "distinct (layer_columns a k)"
proof -
  have u: "unat (of_nat i :: u32) = i" if "i < 2 ^ 32" for i
    using that by (simp add: unat_of_nat)
  have inj: "inj_on (of_nat :: nat \<Rightarrow> u32) {0..<n}" if "n \<le> 2 ^ 32" for n
    using u that by (intro inj_on_inverseI [where g = unat]) (metis atLeastLessThan_iff less_le_trans)
  have "unat w \<le> 2 ^ 32" for w :: u32
    using unsigned_less [of w, where ?'a = nat] by simp
  then show ?thesis
    using assms inj [of "length (ca_memory a)"] inj [of "length (ca_witness a)"] inj [of "length (ca_setup a)"] inj [of "unat (width_below a k)"]
    by (auto simp: layer_columns_def committed_def distinct_map inj_on_def)
qed

lemma column_assignment:
  assumes "length (committed a) < 2 ^ 32" "length xs = unat (width_below a k)" "list_all fr_ok xs" "\<And>kind. fr_ok (v kind)"
  obtains f where "\<forall>x. fr_ok (f x)" "map f (layer_columns a k) = xs" "\<And>kind. f (Virtual kind) = v kind"
proof -
  let ?cols = "layer_columns a k"
  define f where "f x = (case x of Virtual kind \<Rightarrow> v kind
    | _ \<Rightarrow> (case map_of (zip ?cols xs) x of Some y \<Rightarrow> y | None \<Rightarrow> fr_zero))" for x
  have len: "length xs = length ?cols"
    using assms(2) layer_columns_length [OF assms(1)] by simp
  have at: "map_of (zip ?cols xs) (?cols ! i) = Some (xs ! i)" if "i < length xs" for i
    using that len layer_columns_distinct [OF assms(1)] by (intro map_of_zip_nth) simp_all
  have "Virtual kind \<notin> set ?cols" for kind
    by (auto simp: layer_columns_def committed_def)
  then have col: "f (?cols ! i) = xs ! i" if "i < length xs" for i
    using at [OF that] nth_mem [of i ?cols] that len by (cases "?cols ! i") (auto simp: f_def)
  have "fr_ok y" if "map_of (zip ?cols xs) x = Some y" for x y
    using that assms(3) by (auto dest!: map_of_SomeD set_zip_rightD simp: list_all_iff)
  then have "fr_ok (f x)" for x
    using assms(4) by (auto simp: f_def fr_consts split: circuit_address.split option.split)
  moreover have "map f ?cols = xs"
    using col len by (intro nth_equalityI) simp_all
  ultimately show thesis
    using that [of f] by (simp add: f_def)
qed

section \<open>One layer\<close>

definition proof_canonical :: "sumcheck_proof list \<Rightarrow> bool" where
  "proof_canonical layers \<longleftrightarrow> (\<forall>p \<in> set layers. list_all (quad_all fr_ok) (sp_rounds p) \<and> list_all fr_ok (sp_final_evals p))"

definition claims_ok :: "circuit_artifact \<Rightarrow> nat \<Rightarrow> fr list \<times> fr list \<times> transcript \<Rightarrow> bool" where
  "claims_ok a k = (\<lambda>(vs, point, t). list_all fr_ok vs \<and> length vs = unat (width_below a k) \<and>
     length point = unat (vars_below a k) \<and> list_all fr_ok point \<and> transcript_ok t)"

lemma layer_vars_value: "k \<le> length (ca_layers a) \<Longrightarrow> (layer_vars a k :: 'e fault + u32) = Inr (vars_below a k)"
  by (auto simp: layer_vars_def vars_below_def idx_def)

lemma layer_width_value: "k \<le> length (ca_layers a) \<Longrightarrow> (layer_width a k :: 'e fault + u32) = Inr (width_below a k)"
  by (auto simp: layer_width_def width_below_def idx_def)

lemma claim_count_value:
  "k < length (ca_layers a) \<Longrightarrow> (claim_count a k :: 'e fault + nat) =
    Inr (if ls_halving (ca_layers a ! k) then 2 * unat (width_below a k) else unat (width_below a k))"
  by (simp add: claim_count_def layer_width_value idx_def del: bind_res_Inr)

lemma verify_sumcheck_returns:
  "transcript_ok t \<Longrightarrow> list_all (quad_all fr_ok) gs \<Longrightarrow> fr_ok claim \<Longrightarrow>
    returns (verify_sumcheck claim gs t :: 'e fault + _) (\<lambda>(res, t). transcript_ok t \<and>
      (\<forall>point c. res = Some (point, c) \<longrightarrow> length point = length gs \<and> list_all fr_ok point \<and> fr_ok c))"
proof (induction gs arbitrary: claim t)
  case (Cons g gs)
  have "list_all fr_ok (quad_list g)"
    using Cons.prems(2) by (cases g) simp
  then obtain t1 where t1: "(append_scalars tags_SUMCHECK_ROUND (quad_list g) t :: 'e fault + _) = Inr t1" "transcript_ok t1"
    using append_scalars_refines [OF Cons.prems(1)] by metis
  obtain c t2 where t2: "(challenge_scalar tags_SUMCHECK_CHALLENGE t1 :: 'e fault + _) = Inr (c, t2)" "transcript_ok t2" "fr_ok c"
    using challenge_scalar_refines [OF t1(2)] by metis
  have "returns (verify_sumcheck (horner_cubic g c) gs t2 :: 'e fault + _) (\<lambda>(res, t). transcript_ok t \<and>
      (\<forall>point c. res = Some (point, c) \<longrightarrow> length point = length gs \<and> list_all fr_ok point \<and> fr_ok c))"
    using Cons.IH [OF t2(2)] Cons.prems(2) t2(3) horner_cubic_ok by simp
  then show ?case
    using Cons.prems(1) t1(1) t2(1,3) by (auto simp del: bind_res_Inr elim!: returns_bind)
qed simp

lemma summand_of_layer:
  assumes valid: "validate_artifact a = Inr ()" "artifact_canonical a" "check_challenges a ch = Inr ()" "ec_ok ch" "length (committed a) < 2 ^ 32"
    and k: "k < length (ca_layers a)" "l = ca_layers a ! k"
    and weights: "length weights = length (ls_producing l) + length (ls_enforcing l)" "list_all fr_ok weights"
    and evals: "length lower = unat (width_below a k)" "list_all fr_ok lower"
      "if ls_halving l then length upper = unat (width_below a k) \<and> list_all fr_ok upper else upper = []"
    and virtuals: "ls_halving l \<or> virtuals = map (\<lambda>(kind, _). v kind) (ca_virtuals a)" "\<And>kind. fr_ok (v kind)"
  obtains s where "(list_summand a k weights \<lparr>pv_lower = lower, pv_upper = upper, pv_virtuals = virtuals\<rparr> ch :: 'e fault + _) = Inr s" "fr_ok s"
proof -
  obtain f0 where f0: "\<forall>x. fr_ok (f0 x)" "map f0 (layer_columns a k) = lower" "\<And>kind. f0 (Virtual kind) = v kind"
    by (rule column_assignment [OF valid(5) evals(1,2) virtuals(2)]) (rule that)
  obtain f1 where f1: "\<forall>x. fr_ok (f1 x)" "ls_halving l \<longrightarrow> map f1 (layer_columns a k) = upper"
  proof (cases "ls_halving l")
    case True
    with evals(3) have "length upper = unat (width_below a k)" "list_all fr_ok upper"
      by simp_all
    then show thesis
      using column_assignment [OF valid(5) _ _ virtuals(2), of upper k] that by metis
  next
    case False
    then show thesis
      using that [of "\<lambda>_. fr_zero"] by (simp add: fr_consts)
  qed
  have point: "(point_of a k f0 f1)\<lparr>pv_virtuals := virtuals\<rparr> = \<lparr>pv_lower = lower, pv_upper = upper, pv_virtuals = virtuals\<rparr>"
    using f0(2) f1(2) evals(3) k(2) by (simp add: point_of_def)
  have vs: "ls_halving l \<or> virtuals = pv_virtuals (point_of a k f0 f1)"
    using virtuals(1) f0(3) by (simp add: point_of_def)
  have "length weights = length (row_gates l)"
    by (simp add: weights(1) row_gates_def)
  moreover have "l \<in> set (ca_layers a)"
    using k by simp
  ultimately obtain s where "(list_summand a k weights ((point_of a k f0 f1)\<lparr>pv_virtuals := virtuals\<rparr>) ch :: 'e fault + _) = Inr s" "fr_ok s"
    using list_summand_returns [OF valid(1) k(2,1) valid(4) layer_gates_known [OF valid(2,3)] f0(1) f1(1) vs _ weights(2), where ?'e = 'e] by blast
  then show thesis
    using that unfolding point by blast
qed

lemma layer_summand_value:
  assumes valid: "validate_artifact a = Inr ()" "artifact_canonical a" "check_challenges a ch = Inr ()" "ec_ok ch" "length (committed a) < 2 ^ 32"
    and k: "k < length (ca_layers a)" "l = ca_layers a ! k"
    and weights: "length weights = length (ls_producing l) + length (ls_enforcing l)" "list_all fr_ok weights"
    and evals: "length evals = (if ls_halving l then 2 * unat (width_below a k) else unat (width_below a k))" "list_all fr_ok evals"
    and rho: "list_all fr_ok rho"
  obtains s where "(layer_summand a k l weights evals rho ch :: 'e fault + _) = Inr s" "fr_ok s"
proof (cases "ls_halving l")
  case True
  have "length (every_other evals) = unat (width_below a k)" "length (every_other (drop 1 evals)) = unat (width_below a k)"
    using evals(1) True by (simp_all add: every_other_length)
  moreover have "list_all fr_ok (every_other evals)" "list_all fr_ok (every_other (drop 1 evals))"
    using evals(2) every_other_ok [of evals] every_other_ok [of "drop 1 evals"]
    by (auto simp: list_all_iff dest: in_set_dropD)
  ultimately obtain s where "(list_summand a k weights
      \<lparr>pv_lower = every_other evals, pv_upper = every_other (drop 1 evals), pv_virtuals = []\<rparr> ch :: 'e fault + _) = Inr s" "fr_ok s"
    using summand_of_layer [OF valid k weights, of "every_other evals" "every_other (drop 1 evals)" "[]" "\<lambda>_. fr_zero", where ?'e = 'e] True
    by (metis fr_consts(1))
  then show thesis
    using that True by (simp add: layer_summand_def)
next
  case False
  define v where "v kind = projr (virtual_at_point kind rho :: 'e fault + fr)" for kind
  have v: "(virtual_at_point kind rho :: 'e fault + fr) = Inr (v kind)" "fr_ok (v kind)" for kind
    using virtual_point_value [OF rho, of kind, where ?'e = 'e] by (metis sum.sel(2) v_def)+
  have "(map_res (\<lambda>(kind, _). virtual_at_point kind rho) (ca_virtuals a) :: 'e fault + _) = Inr (map (\<lambda>(kind, _). v kind) (ca_virtuals a))"
    by (rule map_res_value) (auto simp: v(1))
  moreover obtain s where "(list_summand a k weights
      \<lparr>pv_lower = evals, pv_upper = [], pv_virtuals = map (\<lambda>(kind, _). v kind) (ca_virtuals a)\<rparr> ch :: 'e fault + _) = Inr s" "fr_ok s"
    using summand_of_layer [OF valid k weights, of evals "[]" "map (\<lambda>(kind, _). v kind) (ca_virtuals a)" v, where ?'e = 'e] False evals v(2)
    by metis
  ultimately show thesis
    using that False by (simp add: layer_summand_def)
qed

lemma next_claims_value:
  assumes "validate_artifact a = Inr ()" "k < length (ca_layers a)" "l = ca_layers a ! k"
    and evals: "length evals = (if ls_halving l then 2 * unat (width_below a k) else unat (width_below a k))" "list_all fr_ok evals"
    and rho: "length rho = unat (vars_below a (k + 1))" "list_all fr_ok rho" and t: "transcript_ok t"
  obtains st where "(next_claims l evals rho t :: 'e fault + _) = Inr st" "claims_ok a k st"
proof (cases "ls_halving l")
  case True
  obtain tau t1 where t1: "(challenge_scalar tags_GKR_CHILD t :: 'e fault + _) = Inr (tau, t1)" "transcript_ok t1" "fr_ok tau"
    using challenge_scalar_refines [OF t] by metis
  obtain vs where vs: "(join_children tau evals :: 'e fault + _) = Inr vs" "length vs = unat (width_below a k)" "list_all fr_ok vs"
    using join_children_value [OF _ t1(3) evals(2), where ?'e = 'e] evals(1) True by auto
  have "vars_below a (k + 1) = vars_below a k - 1" "vars_below a k \<noteq> 0"
    using layer_shape(2,3) [OF assms(1,2)] assms(3) True by (simp_all add: vars_below_def)
  then have "Suc (length rho) = unat (vars_below a k)"
    using rho(1) by (simp add: unat_minus_one unat_gt_0)
  then show thesis
    using that [of "(vs, rho @ [tau], t1)"] True t1 vs rho(2) by (simp add: next_claims_def claims_ok_def del: bind_res_Inr)
next
  case False
  have "vars_below a (k + 1) = vars_below a k"
    using layer_shape(2) [OF assms(1,2)] assms(3) False by (simp add: vars_below_def)
  then show thesis
    using that [of "(evals, rho, t)"] False evals rho t by (simp add: next_claims_def claims_ok_def)
qed

definition layer_fits :: "circuit_artifact \<Rightarrow> sumcheck_proof list \<Rightarrow> nat \<Rightarrow> bool" where
  "layer_fits a layers k \<longleftrightarrow> k < length layers \<and> length (sp_rounds (layers ! k)) = unat (vars_below a (k + 1)) \<and>
     length (sp_final_evals (layers ! k)) =
       (if ls_halving (ca_layers a ! k) then 2 * unat (width_below a k) else unat (width_below a k))"

lemma verify_layer_returns:
  assumes valid: "validate_artifact a = Inr ()" "artifact_canonical a" "check_challenges a ch = Inr ()" "ec_ok ch" "length (committed a) < 2 ^ 32"
    and k: "k < length (ca_layers a)" "layer_fits a layers k" and canonical: "proof_canonical layers" and st: "claims_ok a (k + 1) st"
  shows "returns (verify_layer a layers ch k st) (claims_ok a k)"
proof -
  obtain vs point t where st_eq: "st = (vs, point, t)"
    by (cases st)
  let ?l = "ca_layers a ! k" and ?p = "layers ! k"
  let ?evals = "sp_final_evals ?p" and ?n = "length (ls_producing ?l) + length (ls_enforcing ?l)"
  have layer: "idx (ca_layers a) k = (Inr ?l :: gkr_error fault + _)" "idx layers k = (Inr ?p :: gkr_error fault + _)"
    using k by (simp_all add: idx_def layer_fits_def)
  have p: "list_all (quad_all fr_ok) (sp_rounds ?p)" "list_all fr_ok ?evals"
    using canonical k by (auto simp: proof_canonical_def layer_fits_def)
  have shape: "length (sp_rounds ?p) = unat (vars_below a (k + 1))"
    "length ?evals = (if ls_halving ?l then 2 * unat (width_below a k) else unat (width_below a k))"
    using k(2) by (simp_all add: layer_fits_def)
  have claims: "list_all fr_ok vs" "length point = unat (vars_below a (k + 1))" "list_all fr_ok point" "transcript_ok t"
    using st by (simp_all add: claims_ok_def st_eq)
  obtain lambda t1 where t1: "(challenge_scalar tags_GKR_BATCH t :: gkr_error fault + _) = Inr (lambda, t1)" "transcript_ok t1" "fr_ok lambda"
    using challenge_scalar_refines [OF claims(4)] by metis
  let ?weights = "powers lambda ?n"
  let ?claim = "foldl (\<lambda>acc (v, w). fr_add acc (fr_mul v w)) fr_zero (zip vs ?weights)"
  have weights: "length ?weights = ?n" "list_all fr_ok ?weights"
    using powers_ok [OF t1(3)] by simp_all
  have "fr_ok ?claim"
    using fold_claim_ok [OF claims(1) weights(2)] by (simp add: fr_consts)
  note sumcheck = verify_sumcheck_returns [OF t1(2) p(1) this, where ?'e = gkr_error]
  have finish: "returns (bind_res (append_scalars tags_GKR_LAYER_CLAIMS ?evals t2) (\<lambda>t.
      bind_res (layer_summand a k ?l ?weights ?evals rho ch) (\<lambda>s. bind_res (eq_eval point rho) (\<lambda>e.
        if c \<noteq> fr_mul e s then refuse (LayerInconsistency k) else next_claims ?l ?evals rho t)))) (claims_ok a k)"
    if rho: "length rho = length (sp_rounds ?p)" "list_all fr_ok rho" and t2: "transcript_ok t2" for rho c t2
  proof -
    obtain t3 where t3: "(append_scalars tags_GKR_LAYER_CLAIMS ?evals t2 :: gkr_error fault + _) = Inr t3" "transcript_ok t3"
      using append_scalars_refines [OF t2 p(2)] by metis
    obtain s where s: "(layer_summand a k ?l ?weights ?evals rho ch :: gkr_error fault + _) = Inr s"
      by (rule layer_summand_value [OF valid k(1) refl weights shape(2) p(2) rho(2)]) (rule that)
    obtain e where e: "(eq_eval point rho :: gkr_error fault + _) = Inr e"
      using eq_eval_value [of point rho, where ?'e = gkr_error] claims(2,3) rho shape(1) by metis
    obtain st' where "(next_claims ?l ?evals rho t3 :: gkr_error fault + _) = Inr st'" "claims_ok a k st'"
      by (rule next_claims_value [OF valid(1) k(1) refl shape(2) p(2) _ rho(2) t3(2)]) (use rho(1) shape(1) that in simp_all)
    then show ?thesis
      by (simp add: t3(1) s e del: bind_res_Inr)
  qed
  show ?thesis
    unfolding st_eq verify_layer_def prod.case layer bind_res.simps t1(1) Let_def
    by (rule returns_bind [OF sumcheck]) (auto intro!: finish split: option.split)
qed

lemma verify_layers_returns:
  assumes valid: "validate_artifact a = Inr ()" "artifact_canonical a" "check_challenges a ch = Inr ()" "ec_ok ch" "length (committed a) < 2 ^ 32"
    and layers: "\<forall>k < n. layer_fits a layers k" "proof_canonical layers" and "n \<le> length (ca_layers a)" "claims_ok a n st"
  shows "returns (verify_layers a layers ch (rev [0..<n]) st) (claims_ok a 0)"
  using assms(6,8,9)
proof (induction n arbitrary: st)
  case (Suc n)
  have "returns (verify_layer a layers ch n st) (claims_ok a n)"
    using Suc.prems by (intro verify_layer_returns [OF valid _ _ layers(2)]) simp_all
  then have "returns (bind_res (verify_layer a layers ch n st) (verify_layers a layers ch (rev [0..<n]))) (claims_ok a 0)"
    by (rule returns_bind) (use Suc in simp)
  then show ?case
    by simp
qed simp

section \<open>The shapes and the outputs\<close>

lemma returns_each: "(\<And>x. x \<in> set xs \<Longrightarrow> f x \<noteq> panic) \<Longrightarrow> returns (each f xs) (\<lambda>_. each f xs = Inr ())"
proof (induction xs)
  case (Cons x xs)
  have "returns (f x) (\<lambda>_. f x = Inr ())"
    using Cons.prems [of x] by (intro returnsI) simp_all
  then show ?case
    using Cons by (auto simp del: each_Inr elim!: returns_bind intro: returns_mono)
qed simp

lemma check_challenges_returns: "returns (check_challenges a ch) (\<lambda>_. check_challenges a ch = Inr ())"
  unfolding check_challenges_def by (rule returns_each) (auto simp: refuse_def panic_def split: coeff.splits)

lemma check_proof_shape_returns:
  assumes "length layers = length (ca_layers a)"
  shows "returns (check_proof_shape a layers) (\<lambda>_. \<forall>k < length layers. layer_fits a layers k)"
proof -
  define f :: "nat \<times> sumcheck_proof \<Rightarrow> gkr_error fault + unit" where
    "f = (\<lambda>(k, layer). bind_res (layer_vars a (k + 1)) (\<lambda>vars. if length (sp_rounds layer) \<noteq> unat vars then refuse (ProofShape k)
      else bind_res (claim_count a k) (\<lambda>claims. if length (sp_final_evals layer) \<noteq> claims then refuse (ProofShape k) else Inr ())))"
  have at: "f (k, layers ! k) = (if layer_fits a layers k then Inr () else refuse (ProofShape k))" if "k < length layers" for k
    using that assms by (simp add: f_def layer_vars_value claim_count_value layer_fits_def del: bind_res_Inr)
  have all: "\<forall>p \<in> set (numbered layers). \<exists>k < length layers. p = (k, layers ! k)"
    by (auto simp: set_numbered)
  have "returns (each f (numbered layers)) (\<lambda>_. each f (numbered layers) = Inr ())"
    by (rule returns_each) (use all at in \<open>fastforce simp: refuse_def panic_def split: if_splits\<close>)
  moreover have "\<forall>k < length layers. layer_fits a layers k" if "each f (numbered layers) = Inr ()"
    using that at by (force simp: set_numbered split: if_splits)
  ultimately show ?thesis
    unfolding check_proof_shape_def f_def [symmetric] by (auto elim: returns_mono)
qed

lemma place_outputs_value:
  assumes "\<forall>(table, out) \<in> set ps. mp_ok table \<and> mp_num_vars table = length point \<and> (\<exists>layer offset. out = Inner layer offset \<and> unat offset < length vs)"
    "list_all fr_ok point" "list_all fr_ok vs"
  shows "\<exists>vs'. (place_outputs point ps vs :: 'e fault + _) = Inr vs' \<and> length vs' = length vs \<and> list_all fr_ok vs'"
  using assms(1,3)
proof (induction ps arbitrary: vs)
  case (Cons p ps)
  obtain table layer offset where p: "p = (table, Inner layer offset)" "mp_ok table" "mp_num_vars table = length point" "unat offset < length vs"
    using Cons.prems(1) by auto
  obtain v where v: "(mp_evaluate point table :: 'e fault + fr) = Inr v" "fr_ok v"
    using mp_evaluate_value [OF p(2) p(3) [symmetric] assms(2), where ?'e = 'e] by metis
  let ?vs = "vs[unat offset := v]"
  have "list_all fr_ok ?vs"
    using Cons.prems(2) v(2) p(4) by (simp add: list_all_length nth_list_update)
  then show ?case
    using Cons.IH [of ?vs] Cons.prems(1) v(1) p(4) by (simp add: p(1) set_at_def del: bind_res_Inr)
qed simp

lemma top_outputs:
  assumes "validate_artifact a = Inr ()" "length (ca_layers a) < 2 ^ 32"
  shows "length (ca_outputs a) = unat (width_below a (length (ca_layers a)))"
    "\<forall>out \<in> set (ca_outputs a). \<exists>layer offset. out = Inner layer offset \<and> unat offset < length (ca_outputs a)"
proof -
  obtain ss where ss: "artifact_shapes a = Inr ss" "length ss = Suc (length (ca_layers a))"
    "\<And>k. k \<le> length (ca_layers a) \<Longrightarrow> ss ! k = (vars_below a k, width_below a k)"
    using valid_shapes [OF assms(1)] by blast
  have "unat (of_nat (length (ca_layers a)) :: u32) = length (ca_layers a)"
    using assms(2) by (simp add: unat_of_nat)
  moreover have "check_top_layer a ss = Inr ()"
    using assms(1) ss(1) by (auto simp: validate_artifact_def)
  ultimately have top: "length (ca_outputs a) = unat (width_below a (length (ca_layers a)))"
    "\<forall>(i, out) \<in> set (numbered (ca_outputs a)).
      (case out of Inner layer offset \<Rightarrow> offset < width_below a (length (ca_layers a)) | _ \<Rightarrow> False)"
    using ss(2,3) by (auto simp: check_top_layer_def Let_def bind_idx split: if_splits circuit_address.splits)
  show "length (ca_outputs a) = unat (width_below a (length (ca_layers a)))"
    by (rule top(1))
  show "\<forall>out \<in> set (ca_outputs a). \<exists>layer offset. out = Inner layer offset \<and> unat offset < length (ca_outputs a)"
  proof
    fix out
    assume "out \<in> set (ca_outputs a)"
    then obtain i where "i < length (ca_outputs a)" "ca_outputs a ! i = out"
      by (auto simp: in_set_conv_nth)
    then have "(i, out) \<in> set (numbered (ca_outputs a))"
      by (simp add: set_numbered)
    with top(2) have "case out of Inner layer offset \<Rightarrow> offset < width_below a (length (ca_layers a)) | _ \<Rightarrow> False"
      by auto
    then show "\<exists>layer offset. out = Inner layer offset \<and> unat offset < length (ca_outputs a)"
      unfolding top(1) by (cases out) (simp_all add: word_less_nat_alt)
  qed
qed

lemma output_messages:
  assumes "\<forall>table \<in> set outputs. mp_ok table"
  shows "(map_res (\<lambda>table. map_res (mp_get table) [0..<mp_len table]) outputs :: 'e fault + _) = Inr (map mp_values outputs)"
    "list_all fr_ok (concat (map mp_values outputs))"
proof -
  have "(map_res (mp_get table) [0..<mp_len table] :: 'e fault + _) = Inr (mp_values table)" if "mp_ok table" for table
  proof -
    have "(map_res (mp_get table) [0..<mp_len table] :: 'e fault + _) = Inr (map ((!) (mp_values table)) [0..<mp_len table])"
      by (rule map_res_value) (simp add: mp_get_value [OF that])
    then show ?thesis
      using mp_values_ok(2) [of table] map_nth [of "mp_values table"] by simp
  qed
  then show "(map_res (\<lambda>table. map_res (mp_get table) [0..<mp_len table]) outputs :: 'e fault + _) = Inr (map mp_values outputs)"
    using assms by (intro map_res_value) simp
  show "list_all fr_ok (concat (map mp_values outputs))"
    using assms mp_values_ok(1) by (auto simp: list_all_iff)
qed

lemma base_claims_good:
  assumes "claims_ok a 0 (vs, point, t)" "length (committed a) < 2 ^ 32"
    and claims: "claims = map (\<lambda>(x, v). \<lparr>bc_address = x, bc_point = point, bc_value = v\<rparr>) (zip (committed a) vs)"
  shows "map bc_address claims = committed a" "transcript_ok t" "length point = unat (ca_trace_vars a)" "list_all fr_ok point"
    "\<forall>c \<in> set claims. bc_point c = point \<and> fr_ok (bc_value c)"
proof -
  have vs: "length vs = length (committed a)" "list_all fr_ok vs"
    using assms(1,2) by (simp_all add: claims_ok_def width_below_def unat_of_nat)
  have "map bc_address claims = map fst (zip (committed a) vs)"
    by (simp add: claims split_def comp_def)
  then show "map bc_address claims = committed a"
    using vs(1) by simp
  show "\<forall>c \<in> set claims. bc_point c = point \<and> fr_ok (bc_value c)"
    using vs(2) by (auto simp: claims list_all_iff dest: set_zip_rightD)
qed (use assms(1) in \<open>simp_all add: claims_ok_def vars_below_def\<close>)

section \<open>The property\<close>

text \<open>C24: for an artifact that passed validation, with canonical coefficients and fewer than \<open>2 ^ 32\<close> columns and
  layers, \<open>verify\<close> answers whatever the proof and the outputs carry: it refuses, or returns one claim per committed
  column, in the artifact's order, all at one point of \<open>trace_vars\<close> canonical coordinates. It never panics.\<close>

theorem gkr_verify_answers:
  assumes "validate_artifact a = Inr ()" "artifact_canonical a" "length (committed a) < 2 ^ 32" "length (ca_layers a) < 2 ^ 32"
    "ec_ok ch" "\<forall>table \<in> set outputs. mp_ok table" "proof_canonical layers" "transcript_ok t"
  shows "returns (gkr_verify a layers outputs ch t) (\<lambda>(claims, t').
    map bc_address claims = committed a \<and> transcript_ok t' \<and>
    (\<exists>point. length point = unat (ca_trace_vars a) \<and> list_all fr_ok point \<and>
      (\<forall>c \<in> set claims. bc_point c = point \<and> fr_ok (bc_value c))))"
    (is "returns _ ?good")
proof -
  let ?n = "length (ca_layers a)" and ?top = "unat (vars_below a (length (ca_layers a)))"
  obtain t1 where t1: "(append_scalars tags_GKR_OUTPUTS (concat (map mp_values outputs)) t :: gkr_error fault + _) = Inr t1" "transcript_ok t1"
    using append_scalars_refines [OF assms(8) output_messages(2) [OF assms(6)]] by metis
  obtain point t2 where t2: "(output_point ?top t1 :: gkr_error fault + _) = Inr (point, t2)" "length point = ?top"
    "list_all fr_ok point" "transcript_ok t2"
    using output_point_value [OF t1(2)] by metis
  note outs = top_outputs [OF assms(1,4)]
  have accepted: "returns (bind_res (place_outputs point (zip outputs (ca_outputs a)) (replicate (length (ca_outputs a)) fr_zero)) (\<lambda>vs.
      bind_res (verify_layers a layers ch (rev [0..<?n]) (vs, point, t2)) (\<lambda>(vs, point, t).
      Inr (map (\<lambda>(x, v). \<lparr>bc_address = x, bc_point = point, bc_value = v\<rparr>) (zip (committed a) vs), t)))) ?good"
    if shape: "\<not> list_ex (\<lambda>table. mp_num_vars table \<noteq> ?top) outputs" "\<forall>k < ?n. layer_fits a layers k"
      and challenges: "check_challenges a ch = Inr ()"
  proof -
    have zeros: "list_all fr_ok (replicate (length (ca_outputs a)) fr_zero)"
      by (simp add: list_all_iff fr_consts)
    have fits: "\<forall>(table, out) \<in> set (zip outputs (ca_outputs a)). mp_ok table \<and> mp_num_vars table = length point \<and>
        (\<exists>layer offset. out = Inner layer offset \<and> unat offset < length (replicate (length (ca_outputs a)) fr_zero))"
      using assms(6) outs(2) shape(1) t2(2) by (auto simp: list_ex_iff dest: set_zip_leftD set_zip_rightD)
    obtain vs where vs: "(place_outputs point (zip outputs (ca_outputs a)) (replicate (length (ca_outputs a)) fr_zero) :: gkr_error fault + _) = Inr vs"
      "length vs = length (ca_outputs a)" "list_all fr_ok vs"
      using place_outputs_value [OF fits t2(3) zeros, where ?'e = gkr_error] by auto
    have "claims_ok a ?n (vs, point, t2)"
      using vs outs(1) t2 by (simp add: claims_ok_def)
    note returned = verify_layers_returns [OF assms(1,2) challenges assms(5,3) shape(2) assms(7) order_refl this]
    show ?thesis
      unfolding vs(1) bind_res.simps
    proof (rule returns_bind [OF returned])
      fix st
      assume st: "claims_ok a 0 st"
      obtain vs' point' t' where eq: "st = (vs', point', t')"
        by (cases st)
      show "returns (case st of (vs, point, t) \<Rightarrow>
          Inr (map (\<lambda>(x, v). \<lparr>bc_address = x, bc_point = point, bc_value = v\<rparr>) (zip (committed a) vs), t)) ?good"
        unfolding eq prod.case returns_simps using base_claims_good [OF st [unfolded eq] assms(3) refl] by blast
    qed
  qed
  have body: "returns (bind_res (check_proof_shape a layers) (\<lambda>_.
      bind_res (map_res (\<lambda>table. map_res (mp_get table) [0..<mp_len table]) outputs) (\<lambda>messages.
      bind_res (append_scalars tags_GKR_OUTPUTS (concat messages) t) (\<lambda>t.
      bind_res (output_point ?top t) (\<lambda>(point, t).
      bind_res (place_outputs point (zip outputs (ca_outputs a)) (replicate (length (ca_outputs a)) fr_zero)) (\<lambda>vs.
      bind_res (verify_layers a layers ch (rev [0..<?n]) (vs, point, t)) (\<lambda>(vs, point, t).
      Inr (map (\<lambda>(x, v). \<lparr>bc_address = x, bc_point = point, bc_value = v\<rparr>) (zip (committed a) vs), t)))))))) ?good"
    if "\<not> list_ex (\<lambda>table. mp_num_vars table \<noteq> ?top) outputs" "length layers = ?n" "check_challenges a ch = Inr ()"
    by (rule returns_bind [OF check_proof_shape_returns [OF that(2)]])
      (use accepted that in \<open>simp add: output_messages(1) [OF assms(6)] t1(1) t2(1)\<close>)
  show ?thesis
    unfolding gkr_verify_def depth_of_def layer_vars_value [OF order_refl] bind_res.simps
    by (rule returns_bind [OF check_challenges_returns]) (use body in auto)
qed

theorem gkr_verify_answers_witness:
  "returns (gkr_verify product_circuit [\<lparr>sp_rounds = [(fr_zero, fr_zero, fr_zero, fr_zero)], sp_final_evals = [fr_zero, fr_zero]\<rparr>]
      [\<lparr>mp_backing = FrB [fr_zero, fr_zero], mp_num_vars = 1\<rparr>] ec_new transcript_new)
    (\<lambda>(claims, t'). map bc_address claims = [Memory 0, Witness 0] \<and> transcript_ok t' \<and>
      (\<exists>point. length point = 1 \<and> list_all fr_ok point \<and> (\<forall>c \<in> set claims. bc_point c = point \<and> fr_ok (bc_value c))))"
proof -
  let ?a = product_circuit
  have "committed ?a = [Memory 0, Witness 0]" "length (ca_layers ?a) < 2 ^ 32" "unat (ca_trace_vars ?a) = 1"
    by (simp_all add: product_circuit_def committed_def)
  moreover have "ec_ok ec_new"
    by (simp add: ec_ok_def ec_new_def)
  moreover have "\<forall>table \<in> set [\<lparr>mp_backing = FrB [fr_zero, fr_zero], mp_num_vars = 1\<rparr>]. mp_ok table"
    by (simp add: mp_ok_def mp_len_def fr_consts)
  moreover have "proof_canonical [\<lparr>sp_rounds = [(fr_zero, fr_zero, fr_zero, fr_zero)], sp_final_evals = [fr_zero, fr_zero]\<rparr>]"
    by (simp add: proof_canonical_def fr_consts)
  ultimately show ?thesis
    using gkr_verify_answers [OF product_valid product_canonical, of ec_new "[\<lparr>mp_backing = FrB [fr_zero, fr_zero], mp_num_vars = 1\<rparr>]"
      "[\<lparr>sp_rounds = [(fr_zero, fr_zero, fr_zero, fr_zero)], sp_final_evals = [fr_zero, fr_zero]\<rparr>]" transcript_new] transcript_new_ok(1)
    by simp
qed

end
