(* ===== verification/Spec2Isabelle.thy ===== *)
theory Spec2Isabelle
  imports Encoding Compressed Loader Field Memory_Log Log_Check Abi Wide Frames Arith_Frames Sha256 Keccak
    Poseidon Transcript Field_Frames Statement Poly_Backing Program Family_Trace Execution Sumcheck Gkr_Verify
begin

text \<open>
  Apogee: a RISC-V (RV32IMAC) zero-knowledge virtual machine.

  A guest program is an ELF file. The loader validates it, expands its compressed instructions and gives a
  program image; preprocessing sorts the instructions into table families; the emulator runs the image on a
  public input and private advice, and, when it traces, writes one row per cycle into its family's buffer and
  every access to registers, pc, RAM and field cells into a memory log; the prover turns the trace into
  multilinear polynomials and proves by sumcheck that the circuits vanish on them, with challenges from a
  Poseidon2 transcript. The development follows that path from the bytes of the ELF file to the zerocheck and to
  the verifier of the layered circuits.

  Theories and sources (all under \<open>src/crates\<close>; definitions keep the names of the code):

  \<^item> \<open>Prelude\<close>, \<open>Outcome\<close>: the machine integers as words, an operation that may fail as a sum (\<open>Inl\<close> an error,
    \<open>Inr\<close> a value), and \<open>'e fault\<close>, where \<open>Panicked\<close> is a Rust panic (an index out of range, a failed \<open>assert!\<close>,
    an overflow) and \<open>Refused\<close> a returned \<open>Err\<close>; \<open>returns r P\<close> excludes the panic and gives \<open>P\<close> of the value.
  \<^item> \<open>Isa\<close>, \<open>Encoding\<close> (\<open>isa\<close>): \<open>Instr\<close>, \<open>decode\<close>, and the assembler it inverts. \<open>Rvc\<close>, \<open>Compressed\<close>
    (\<open>loader/src/rvc.rs\<close>): \<open>expand\<close> against the table of the C extension.
  \<^item> \<open>Image\<close>, \<open>Loader\<close> (\<open>loader/src/lib.rs\<close>): ELF headers, segments, the code sweep, \<open>validate\<close>.
  \<^item> \<open>Abi\<close>, \<open>Statement\<close>, \<open>Program\<close> (\<open>constants\<close>, \<open>verifier-core/src/statement.rs\<close>, \<open>program\<close>): families and ecall
    numbers, \<open>VmConfig\<close> and its wire form, the decoded tables, the instruction words and the masks.
  \<^item> \<open>Field\<close>, \<open>Residue\<close> (\<open>field\<close>): \<open>Fr\<close> on four 64-bit limbs in Montgomery form, its value as an integer modulo
    \<open>p\<close>, and the ring of residues as a type of class \<open>comm_ring_1\<close>, so that polynomial identities are ring
    identities.
  \<^item> \<open>Poseidon\<close>, \<open>Transcript\<close> (\<open>transcript\<close>): the permutation and the duplex transcript with its journal of
    typed operations.
  \<^item> \<open>Initial_Memory\<close>, \<open>BTree\<close>, \<open>Memory_Log\<close>, \<open>Log_Check\<close>, \<open>Family_Trace\<close> (\<open>trace\<close>): the memory before the first
    cycle, the event log, its final state and \<open>self_check\<close>, the per-family columns. An abstract memory (address
    to last write) is the specification \<open>self_check\<close> is proved to decide.
  \<^item> \<open>Wide\<close>, \<open>Frames\<close>, \<open>Cells\<close>, \<open>Sha256\<close>, \<open>Keccak\<close>, \<open>Arith_Frames\<close>, \<open>Field_Frames\<close>, \<open>Frame_Safety\<close> (\<open>emulator\<close>): 256-bit
    arithmetic and the delegation frames, against FIPS 180-4, FIPS 202, the modular product, the complete
    addition formulas and the field operations.
  \<^item> \<open>Ram\<close>, \<open>Recorder\<close>, \<open>Machine\<close>, \<open>Machine_Safety\<close>, \<open>Machine_Start\<close>, \<open>Byte_Memory\<close>, \<open>Hart\<close>, \<open>Machine_Run\<close>,
    \<open>Trace_Log\<close>, \<open>Trace_Check\<close>, \<open>Exit_Program\<close>, \<open>Execution\<close> (\<open>emulator\<close>): paged RAM, the staged queries of a cycle,
    \<open>Machine\<close> with \<open>step\<close>, \<open>execute\<close> and \<open>ecall\<close>, the run loops (\<open>run\<close>, \<open>trace_run\<close>, the streaming run) and what
    they return. \<open>Hart\<close> is the abstract machine, written after the ISA manual over integers and bytes.
  \<^item> \<open>Poly_Backing\<close>, \<open>Multilinear\<close> (\<open>poly\<close>): tables in five storage widths, \<open>bind\<close>, \<open>evaluate\<close>, the equality
    tables, against the multilinear extension over the ring.
  \<^item> \<open>Sumcheck\<close> (\<open>sumcheck\<close>): gates and their validation, the witness digest, prover and verifier of the zerocheck
    and the round polynomials.
  \<^item> \<open>Circuit\<close>, \<open>Expansion\<close>, \<open>Laws\<close> (\<open>constraints/src/lib.rs\<close>, \<open>laws.rs\<close>): addresses, gates and circuit artifacts as
    data, \<open>validate\<close> with Laws 1 to 4, and the expansion of a gate as a polynomial over symbols.
  \<^item> \<open>Kernel\<close>, \<open>Virtual_Tables\<close>, \<open>Gkr_Verify\<close> (\<open>gkr-verify/src/lib.rs\<close>): \<open>eval_gate\<close> and the gate lists resolved to
    the places their operands are read at, the tables a circuit reads without committing to them, and \<open>verify\<close>.

  What the lemmas show. Decoding and expansion invert an assembler; loading accepts only images that satisfy
  the memory map. Field, wide and hash operations compute their mathematical functions and never panic. The
  machine's invariant (32 registers, \<open>x0\<close> zero, whole pages, canonical cells, decoded code) is kept by every
  step; a step refines the hart's table of effects; a run never panics, ends as soon as the abstract run does,
  and is the same traced or not; the log of a traced run replays from the initial memory and passes
  \<open>self_check\<close>; the streaming run returns what the buffered one does. Evaluation and binding of a polynomial are
  those of its multilinear extension; a proof made by the prover of the zerocheck is accepted and its claims
  are the polynomials' evaluations; the verifier answers every input without panicking. In a valid
  artifact every gate of every layer computes the relation of the flat list it claims, a virtual table's closed form
  is the extension of its rows, and the verifier of a layered circuit answers every proof of a valid artifact,
  refusing it or reducing it to one claim per committed column at one point.

  Bounds. Cycle counters are \<open>u64\<close> words; a statement that needs it bounds the cycles by \<open>2 ^ 36\<close>, the limit the
  code's timestamps are checked against. Advice is bounded by \<open>2 ^ 31 - 4\<close> bytes, above which the region's
  addresses wrap (see the findings). The run loop and the loop that
  drains a stream are \<open>function\<close>s with a termination proof (the clock of a machine a step returns has moved and is
  still below the limit); no fuel is used anywhere. \<open>machine_run_ends\<close> says what the loop returns.
  \<open>Exit_Program\<close> evaluates one whole program, traced and untraced, as the concrete instance of the run
  theorems.

  Parameters. The sumcheck is proved over given interpolation constants with their defining equations as
  hypothesis (\<open>constants_ok\<close>): the code computes the inverses by an exponentiation to \<open>p - 2\<close>, which is right
  because \<open>p\<close> is prime, a fact this development neither proves nor uses, and the witnesses instantiate them with
  the inverses themselves.

  Not modelled: the elliptic-curve groups and the pairing, the structured reference string, the polynomial
  commitment and the Groth16 wrap (proofs about them rest on primality and curve-order facts of 254-bit numbers,
  out of reach of kernel evaluation); the circuits of the families and the layer-by-layer prover, the checker and the
  node, fold and tape of recursion (each is large generated data or a client of those circuits); lookup
  multiplicities, memory columns and the archive of the trace; the symbol tables of the loader, read by tools
  only; the host, guest SDK, guests, contracts and tools, which are I/O, assembly or other languages.
\<close>

end
